(* ===== verification/Prelude.thy ===== *)
theory Prelude
  imports Main "HOL-Library.Word"
begin

text \<open>
  Shared vocabulary of the development: the byte, string and time types the models use, the
  parts of the Rust standard library the program relies on (slice search, \<open>str\<close> methods,
  integer parsing and printing, UTF-8 validation), and the generic lemmas on lists and numbers
  that the component theories share.

  Text protocols are modelled on \<open>string\<close>: a HOL \<open>char\<close> is one byte, so a list of
  characters is a Rust \<open>[u8]\<close>, and a Rust \<open>str\<close> is such a list that is valid UTF-8.
  WebSocket frames, whose codec is bit-level, are modelled on \<open>8 word\<close>.
\<close>

section \<open>Types\<close>

type_synonym bytes = string
type_synonym u8 = "8 word"
type_synonym u16 = "16 word"
type_synonym u32 = "32 word"
type_synonym u64 = "64 word"

text \<open>A \<open>Duration\<close> and an \<open>Instant\<close> are counted in nanoseconds.\<close>

type_synonym duration = nat
type_synonym instant = nat

text \<open>An \<open>f64\<close> that the code only stores and forwards is its IEEE bit pattern.\<close>

type_synonym f64 = "64 word"

text \<open>\<open>u64::saturating_add\<close>.\<close>

definition sat_add :: "u64 \<Rightarrow> u64 \<Rightarrow> u64" where
  "sat_add a b = (if 2 ^ 64 \<le> unat a + unat b then - 1 else a + b)"

named_theorems stream_simps "equations of the incremental decoders"
named_theorems store_simps "lookup-after-update laws of the stores"
named_theorems count_simps "counter laws of the statistics records"

definition usize_max :: nat where "usize_max = 2 ^ 64 - 1"

definition CRLF :: bytes where "CRLF = [CHR 0x0D, CHR 0x0A]"

abbreviation LF :: char where "LF \<equiv> CHR 0x0A"
abbreviation CR :: char where "CR \<equiv> CHR 0x0D"

section \<open>Slices\<close>

fun is_prefix :: "'a list \<Rightarrow> 'a list \<Rightarrow> bool" where
  "is_prefix [] ys = True"
| "is_prefix (x # xs) [] = False"
| "is_prefix (x # xs) (y # ys) = (x = y \<and> is_prefix xs ys)"

text \<open>\<open>memchr::memmem::find\<close> and \<open>windows(n).position(..)\<close>: the first occurrence.\<close>

fun find_sub :: "'a list \<Rightarrow> 'a list \<Rightarrow> nat option" where
  "find_sub n [] = (if n = [] then Some 0 else None)"
| "find_sub n (x # xs) =
     (if is_prefix n (x # xs) then Some 0 else map_option Suc (find_sub n xs))"

text \<open>\<open>iter().position(p)\<close>.\<close>

fun find_pos :: "('a \<Rightarrow> bool) \<Rightarrow> 'a list \<Rightarrow> nat option" where
  "find_pos p [] = None"
| "find_pos p (x # xs) = (if p x then Some 0 else map_option Suc (find_pos p xs))"

text \<open>\<open>iter().rposition(p)\<close>: the last position, counted from the front.\<close>

definition rfind_pos :: "('a \<Rightarrow> bool) \<Rightarrow> 'a list \<Rightarrow> nat option" where
  "rfind_pos p xs = map_option (\<lambda>i. length xs - Suc i) (find_pos p (rev xs))"

definition last_is :: "'a \<Rightarrow> 'a list \<Rightarrow> bool" where
  "last_is c xs = (xs \<noteq> [] \<and> last xs = c)"

text \<open>\<open>str::split_once(c)\<close>, \<open>str::rsplit_once(c)\<close> and \<open>str::split(c)\<close>.\<close>

definition split_once :: "char \<Rightarrow> string \<Rightarrow> (string \<times> string) option" where
  "split_once c s = map_option (\<lambda>i. (take i s, drop (Suc i) s)) (find_pos (\<lambda>x. x = c) s)"

definition rsplit_once :: "char \<Rightarrow> string \<Rightarrow> (string \<times> string) option" where
  "rsplit_once c s = map_option (\<lambda>i. (take i s, drop (Suc i) s)) (rfind_pos (\<lambda>x. x = c) s)"

fun split_on :: "'a \<Rightarrow> 'a list \<Rightarrow> 'a list list" where
  "split_on c [] = [[]]"
| "split_on c (x # xs) =
     (if x = c then [] # split_on c xs
      else (case split_on c xs of [] \<Rightarrow> [[x]] | y # ys \<Rightarrow> (x # y) # ys))"

section \<open>ASCII\<close>

definition code :: "char \<Rightarrow> nat" where "code c = of_char c"

definition is_digit :: "char \<Rightarrow> bool" where "is_digit c = (48 \<le> code c \<and> code c \<le> 57)"

definition ascii_lower :: "char \<Rightarrow> char" where
  "ascii_lower c = (if 65 \<le> code c \<and> code c \<le> 90 then char_of (code c + 32) else c)"

definition eq_icase :: "string \<Rightarrow> string \<Rightarrow> bool" where
  "eq_icase a b = (map ascii_lower a = map ascii_lower b)"

text \<open>\<open>u8::is_ascii_whitespace\<close>: space, tab, line feed, form feed, carriage return.\<close>

definition ascii_ws :: "char \<Rightarrow> bool" where
  "ascii_ws c = (code c \<in> {9, 10, 12, 13, 32})"

section \<open>UTF-8\<close>

definition cont :: "char \<Rightarrow> bool" where "cont c = (128 \<le> code c \<and> code c \<le> 191)"

text \<open>
  One step of the decoder behind \<open>str::from_utf8\<close> and \<open>from_utf8_lossy\<close>: whether the first
  sequence is well formed, and how many bytes it has (the maximal well-formed prefix when not).
\<close>

definition second_ok :: "nat \<Rightarrow> char \<Rightarrow> bool" where
  "second_ok b0 c =
     (if b0 = 224 then 160 \<le> code c \<and> code c \<le> 191
      else if b0 = 237 then 128 \<le> code c \<and> code c \<le> 159
      else if b0 = 240 then 144 \<le> code c \<and> code c \<le> 191
      else if b0 = 244 then 128 \<le> code c \<and> code c \<le> 143
      else cont c)"

fun conts :: "nat \<Rightarrow> string \<Rightarrow> nat" where
  "conts 0 s = 0"
| "conts (Suc n) [] = 0"
| "conts (Suc n) (c # s) = (if cont c then Suc (conts n s) else 0)"

definition seq_len :: "nat \<Rightarrow> nat" where
  "seq_len b0 = (if b0 < 128 then 1 else if 194 \<le> b0 \<and> b0 \<le> 223 then 2
     else if 224 \<le> b0 \<and> b0 \<le> 239 then 3 else if 240 \<le> b0 \<and> b0 \<le> 244 then 4 else 0)"

fun utf8_step :: "string \<Rightarrow> bool \<times> nat" where
  "utf8_step [] = (False, 0)"
| "utf8_step [a] = (seq_len (code a) = 1, 1)"
| "utf8_step (a # c # s) =
     (let n = seq_len (code a) in
      if n = 1 then (True, 1)
      else if n = 0 \<or> \<not> second_ok (code a) c then (False, 1)
      else let k = conts (n - 2) s in (k = n - 2, 2 + k))"

lemma utf8_step_pos: "s \<noteq> [] \<Longrightarrow> 0 < snd (utf8_step s)"
  by (cases s rule: utf8_step.cases) (auto simp: Let_def)

lemma utf8_step_shrinks: "(ok, n) = utf8_step s \<Longrightarrow> s \<noteq> [] \<Longrightarrow> length s - n < length s"
  using utf8_step_pos [of s] by (cases "utf8_step s") auto

function valid_utf8 :: "string \<Rightarrow> bool" where
  "valid_utf8 s =
     (if s = [] then True
      else (case utf8_step s of (ok, n) \<Rightarrow> ok \<and> valid_utf8 (drop n s)))"
  by pat_completeness auto
termination
  by (relation "measure length") (auto dest: utf8_step_shrinks)

text \<open>\<open>String::from_utf8_lossy\<close>: each ill-formed sequence becomes U+FFFD.\<close>

function from_utf8_lossy :: "string \<Rightarrow> string" where
  "from_utf8_lossy s =
     (if s = [] then []
      else (case utf8_step s of (ok, n) \<Rightarrow>
        (if ok then take n s else [CHR 0xEF, CHR 0xBF, CHR 0xBD]) @ from_utf8_lossy (drop n s)))"
  by pat_completeness auto
termination
  by (relation "measure length") (auto dest: utf8_step_shrinks)

declare valid_utf8.simps [simp del] from_utf8_lossy.simps [simp del]

text \<open>\<open>str::trim\<close> strips the encodings of the code points with property White\_Space.\<close>

definition ws_seqs :: "string list" where
  "ws_seqs =
     [[CHR 0x09], [CHR 0x0A], [CHR 0x0B], [CHR 0x0C], [CHR 0x0D], [CHR 0x20],
      [CHR 0xC2, CHR 0x85], [CHR 0xC2, CHR 0xA0], [CHR 0xE1, CHR 0x9A, CHR 0x80],
      [CHR 0xE2, CHR 0x80, CHR 0x80], [CHR 0xE2, CHR 0x80, CHR 0x81],
      [CHR 0xE2, CHR 0x80, CHR 0x82], [CHR 0xE2, CHR 0x80, CHR 0x83],
      [CHR 0xE2, CHR 0x80, CHR 0x84], [CHR 0xE2, CHR 0x80, CHR 0x85],
      [CHR 0xE2, CHR 0x80, CHR 0x86], [CHR 0xE2, CHR 0x80, CHR 0x87],
      [CHR 0xE2, CHR 0x80, CHR 0x88], [CHR 0xE2, CHR 0x80, CHR 0x89],
      [CHR 0xE2, CHR 0x80, CHR 0x8A], [CHR 0xE2, CHR 0x80, CHR 0xA8],
      [CHR 0xE2, CHR 0x80, CHR 0xA9], [CHR 0xE2, CHR 0x80, CHR 0xAF],
      [CHR 0xE2, CHR 0x81, CHR 0x9F], [CHR 0xE3, CHR 0x80, CHR 0x80]]"

fun strip_any :: "string list \<Rightarrow> string \<Rightarrow> string option" where
  "strip_any [] s = None"
| "strip_any (w # ws) s =
     (if w \<noteq> [] \<and> is_prefix w s then Some (drop (length w) s) else strip_any ws s)"

lemma is_prefix_iff: "is_prefix n xs \<longleftrightarrow> (\<exists>ys. xs = n @ ys)"
  by (induction n xs rule: is_prefix.induct) auto

lemma strip_any_shorter: "strip_any ws s = Some t \<Longrightarrow> length t < length s"
  by (induction ws) (auto simp: is_prefix_iff split: if_splits)

function trim_with :: "string list \<Rightarrow> string \<Rightarrow> string" where
  "trim_with ws s = (case strip_any ws s of None \<Rightarrow> s | Some t \<Rightarrow> trim_with ws t)"
  by pat_completeness auto
termination
  by (relation "measure (\<lambda>(_, s). length s)") (auto dest: strip_any_shorter)

declare trim_with.simps [simp del]

definition trim_start :: "string \<Rightarrow> string" where
  "trim_start s = trim_with ws_seqs s"

definition trim_end :: "string \<Rightarrow> string" where
  "trim_end s = rev (trim_with (map rev ws_seqs) (rev s))"

definition trim :: "string \<Rightarrow> string" where
  "trim s = trim_end (trim_start s)"

section \<open>Decimal and hexadecimal numbers\<close>

definition digit_char :: "nat \<Rightarrow> char" where "digit_char d = char_of (48 + d)"

definition digit_val :: "nat \<Rightarrow> char \<Rightarrow> nat option" where
  "digit_val radix c =
     (let n = code c;
          v = (if 48 \<le> n \<and> n \<le> 57 then n - 48
               else if 97 \<le> n \<and> n \<le> 122 then n - 87
               else if 65 \<le> n \<and> n \<le> 90 then n - 55 else radix)
      in if v < radix then Some v else None)"

text \<open>The digit loop of \<open>from_str_radix\<close>, with its overflow check at each digit.\<close>

fun parse_digits :: "nat \<Rightarrow> nat \<Rightarrow> nat \<Rightarrow> string \<Rightarrow> nat option" where
  "parse_digits radix mx acc [] = Some acc"
| "parse_digits radix mx acc (c # s) =
     (case digit_val radix c of
        None \<Rightarrow> None
      | Some d \<Rightarrow> (let a = acc * radix + d in if mx < a then None else parse_digits radix mx a s))"

text \<open>\<open>from_str_radix\<close> of an unsigned type with maximum \<open>mx\<close>: a leading plus is accepted.\<close>

definition parse_uint :: "nat \<Rightarrow> nat \<Rightarrow> string \<Rightarrow> nat option" where
  "parse_uint radix mx s =
     (case s of
        [] \<Rightarrow> None
      | c # r \<Rightarrow> (if c = CHR ''+'' then (if r = [] then None else parse_digits radix mx 0 r)
                else parse_digits radix mx 0 s))"

text \<open>\<open>i64::from_str\<close>.\<close>

definition parse_i64 :: "string \<Rightarrow> int option" where
  "parse_i64 s =
     (case s of
        [] \<Rightarrow> None
      | c # r \<Rightarrow> (if c = CHR ''+'' then
                   (if r = [] then None else map_option int (parse_digits 10 (2 ^ 63 - 1) 0 r))
                else if c = CHR ''-'' then
                   (if r = [] then None else map_option (\<lambda>n. - int n) (parse_digits 10 (2 ^ 63) 0 r))
                else map_option int (parse_digits 10 (2 ^ 63 - 1) 0 s)))"

text \<open>Decimal rendering (\<open>Display\<close> of the unsigned types, \<open>itoa\<close>).\<close>

fun dec :: "nat \<Rightarrow> string" where
  "dec n = (if n < 10 then [digit_char n] else dec (n div 10) @ [digit_char (n mod 10)])"

declare dec.simps [simp del]

text \<open>Lower-case hexadecimal rendering (the format \<open>{:x}\<close>).\<close>

definition hex_char :: "nat \<Rightarrow> char" where
  "hex_char d = (if d < 10 then char_of (48 + d) else char_of (87 + d))"

fun hex :: "nat \<Rightarrow> string" where
  "hex n = (if n < 16 then [hex_char n] else hex (n div 16) @ [hex_char (n mod 16)])"

declare hex.simps [simp del]

definition is_hex :: "char \<Rightarrow> bool" where "is_hex c = (digit_val 16 c \<noteq> None)"

section \<open>Lemmas on slices\<close>

lemma is_prefix_append [simp]: "is_prefix n (n @ t)"
  by (simp add: is_prefix_iff)

lemma is_prefix_take: "is_prefix n xs \<longleftrightarrow> take (length n) xs = n"
  by (induction n xs rule: is_prefix.induct) auto

lemma is_prefix_append_iff:
  "length n \<le> length h \<Longrightarrow> is_prefix n (h @ t) = is_prefix n h"
  by (simp add: is_prefix_take)

lemma is_prefix_mono: "is_prefix n h \<Longrightarrow> is_prefix n (h @ t)"
  by (auto simp: is_prefix_iff)

lemma is_prefix_length: "is_prefix n h \<Longrightarrow> length n \<le> length h"
  by (auto simp: is_prefix_iff)

lemma find_sub_SomeD:
  "find_sub n h = Some i \<Longrightarrow> i + length n \<le> length h \<and> take (length n) (drop i h) = n"
proof (induction n h arbitrary: i rule: find_sub.induct)
  case (2 n x xs)
  then show ?case
    by (auto simp: is_prefix_take dest: is_prefix_length split: if_splits)
       (metis is_prefix_length is_prefix_take length_Cons)
qed (auto split: if_splits)

lemma find_sub_append: "find_sub n h = Some i \<Longrightarrow> find_sub n (h @ t) = Some i"
proof (induction n h arbitrary: i rule: find_sub.induct)
  case (1 n)
  then show ?case by (cases t) (auto split: if_splits)
next
  case (2 n x xs)
  show ?case
  proof (cases "is_prefix n (x # xs)")
    case True
    with 2 show ?thesis using is_prefix_mono [of n "x # xs" t] by simp
  next
    case False
    with 2 obtain j where j: "find_sub n xs = Some j" "i = Suc j" by auto
    then have "length n \<le> length (x # xs)" using find_sub_SomeD [of n xs j] by simp
    then have "\<not> is_prefix n (x # xs @ t)"
      using False is_prefix_append_iff [of n "x # xs" t] by simp
    with 2 False j show ?thesis by simp
  qed
qed

lemma find_sub_append_bound:
  "find_sub n (h @ t) = Some i \<Longrightarrow> i + length n \<le> length h \<Longrightarrow> find_sub n h = Some i"
proof (induction n h arbitrary: i rule: find_sub.induct)
  case (1 n)
  then show ?case by (cases t) (auto split: if_splits)
next
  case (2 n x xs)
  show ?case
  proof (cases "is_prefix n (x # xs @ t)")
    case True
    with 2 show ?thesis using is_prefix_append_iff [of n "x # xs" t] by simp
  next
    case False
    then have "\<not> is_prefix n (x # xs)" using is_prefix_mono [of n "x # xs" t] by auto
    with 2 False show ?thesis by auto
  qed
qed

lemma find_sub_fresh:
  "n \<noteq> [] \<Longrightarrow> hd n \<notin> set a \<Longrightarrow> find_sub n (a @ n @ b) = Some (length a)"
proof (induction a)
  case Nil
  then show ?case by (cases n) (simp_all add: is_prefix_iff)
next
  case (Cons x a)
  then show ?case by (cases n) auto
qed

lemma find_sub_skip:
  "n \<noteq> [] \<Longrightarrow> hd n \<notin> set a \<Longrightarrow> find_sub n (a @ x) = map_option ((+) (length a)) (find_sub n x)"
proof (induction a)
  case Nil
  then show ?case by (cases "find_sub n x") simp_all
next
  case (Cons y a)
  then show ?case by (cases n; cases "find_sub n x") auto
qed

text \<open>An HTTP head: lines with their terminators and the closing blank line.\<close>

definition http_head :: "string list \<Rightarrow> bytes" where
  "http_head ls = concat (map (\<lambda>l. l @ CRLF) ls) @ CRLF"

definition head_line :: "string \<Rightarrow> bool" where
  "head_line l = (l \<noteq> [] \<and> CR \<notin> set l)"

lemma find_blank_shift:
  assumes "c \<noteq> CR"
  shows "find_sub (CRLF @ CRLF) (CRLF @ c # r) = map_option ((+) 2) (find_sub (CRLF @ CRLF) (c # r))"
proof -
  have "find_sub (CRLF @ CRLF) (CR # LF # c # r)
      = map_option Suc (map_option Suc (find_sub (CRLF @ CRLF) (c # r)))"
    using assms by (subst find_sub.simps(2), subst find_sub.simps(2)) (simp add: CRLF_def)
  then show ?thesis by (simp add: CRLF_def option.map_comp comp_def)
qed

lemma find_blank_line:
  assumes "ls \<noteq> []" "\<forall>l \<in> set ls. head_line l"
  shows "find_sub (CRLF @ CRLF) (http_head ls @ rest) = Some (length (http_head ls) - 4)"
  using assms
proof (induction ls)
  case (Cons l ls)
  have l: "l \<noteq> []" "CR \<notin> set l" using Cons.prems by (simp_all add: head_line_def)
  have skip: "find_sub (CRLF @ CRLF) (l @ x) = map_option ((+) (length l)) (find_sub (CRLF @ CRLF) x)" for x
    using l(2) by (intro find_sub_skip) (simp_all add: CRLF_def)
  show ?case
  proof (cases ls)
    case Nil
    then show ?thesis using skip [of "CRLF @ CRLF @ rest"]
      by (simp add: http_head_def) (simp add: CRLF_def)
  next
    case (Cons l2 ls2)
    then have IH: "find_sub (CRLF @ CRLF) (http_head ls @ rest) = Some (length (http_head ls) - 4)"
      using Cons.IH Cons.prems by simp
    obtain c l2' where c: "l2 = c # l2'" "c \<noteq> CR"
      using Cons.prems Cons by (cases l2) (auto simp: head_line_def)
    obtain r where r: "http_head ls @ rest = c # r"
      using Cons c by (simp add: http_head_def)
    have "find_sub (CRLF @ CRLF) (CRLF @ http_head ls @ rest)
        = map_option ((+) 2) (find_sub (CRLF @ CRLF) (http_head ls @ rest))"
      unfolding r using find_blank_shift [OF c(2), of r] .
    moreover have "4 \<le> length (http_head ls)" using Cons by (simp add: http_head_def CRLF_def)
    ultimately show ?thesis using skip [of "CRLF @ http_head ls @ rest"] IH
      by (simp add: http_head_def) (simp add: CRLF_def)
  qed
qed simp

lemma find_pos_Some:
  "find_pos p xs = Some i \<longleftrightarrow> i < length xs \<and> p (xs ! i) \<and> (\<forall>j < i. \<not> p (xs ! j))"
proof (induction xs arbitrary: i)
  case (Cons x xs)
  show ?case
    by (cases i) (auto simp: Cons nth_Cons less_Suc_eq_0_disj split: nat.splits)
qed simp

lemma find_pos_None: "find_pos p xs = None \<longleftrightarrow> (\<forall>x \<in> set xs. \<not> p x)"
  by (induction xs) auto

lemma find_pos_skip:
  "\<forall>x \<in> set a. \<not> p x \<Longrightarrow> find_pos p (a @ b) = map_option ((+) (length a)) (find_pos p b)"
  by (induction a; cases "find_pos p b") auto

lemma not_in_conv: "c \<notin> set a \<longleftrightarrow> (\<forall>x \<in> set a. x \<noteq> c)"
  by blast

lemma find_pos_lt: "find_pos p xs = Some i \<Longrightarrow> i < length xs"
  by (simp add: find_pos_Some)

lemma rfind_pos_last:
  "p c \<Longrightarrow> \<forall>x \<in> set b. \<not> p x \<Longrightarrow> rfind_pos p (a @ c # b) = Some (length a)"
  using find_pos_skip [of "rev b" p "c # rev a"] by (simp add: rfind_pos_def)

lemma split_once_fresh: "c \<notin> set a \<Longrightarrow> split_once c (a @ c # b) = Some (a, b)"
  using find_pos_skip [of a "\<lambda>x. x = c" "c # b"] by (simp add: split_once_def not_in_conv)

lemma split_once_None: "split_once c s = None \<longleftrightarrow> c \<notin> set s"
  by (auto simp: split_once_def find_pos_None)

lemma split_onceD:
  "split_once c s = Some (a, b) \<Longrightarrow> s = a @ c # b \<and> c \<notin> set a"
  by (auto simp: split_once_def find_pos_Some id_take_nth_drop [symmetric] in_set_conv_nth)

lemma rsplit_once_fresh: "c \<notin> set b \<Longrightarrow> rsplit_once c (a @ c # b) = Some (a, b)"
  using rfind_pos_last [of "\<lambda>x. x = c" c b a] by (simp add: rsplit_once_def not_in_conv)

section \<open>Lemmas on decimal numbers\<close>

lemma code_char_of [simp]: "code (char_of n) = n mod 256"
  by (simp add: code_def)

lemma digit_val_digit_char: "d < 10 \<Longrightarrow> digit_val 10 (digit_char d) = Some d"
  by (simp add: digit_val_def digit_char_def Let_def)

lemma is_digit_digit_char: "d < 10 \<Longrightarrow> is_digit (digit_char d)"
  by (simp add: is_digit_def digit_char_def)

lemma dec_digits: "\<forall>c \<in> set (dec n). is_digit c"
proof (induction n rule: dec.induct)
  case (1 n)
  then show ?case by (subst dec.simps) (auto simp: is_digit_digit_char)
qed

lemma dec_nonempty [simp]: "dec n \<noteq> []"
  by (subst dec.simps) simp

lemma parse_digits_append:
  "parse_digits r mx acc (a @ b) =
     (case parse_digits r mx acc a of None \<Rightarrow> None | Some v \<Rightarrow> parse_digits r mx v b)"
  by (induction a arbitrary: acc) (auto simp: Let_def split: option.splits)

lemma parse_digits_dec:
  "n \<le> mx \<Longrightarrow> parse_digits 10 mx 0 (dec n) = Some n"
proof (induction n rule: dec.induct)
  case (1 n)
  show ?case
  proof (cases "n < 10")
    case True
    then show ?thesis using 1 by (subst dec.simps) (simp add: digit_val_digit_char)
  next
    case False
    have "n div 10 \<le> mx" using 1 by linarith
    then have "parse_digits 10 mx 0 (dec (n div 10)) = Some (n div 10)" using 1 False by simp
    then show ?thesis using False 1
      by (subst dec.simps) (simp add: parse_digits_append digit_val_digit_char)
  qed
qed

lemma not_digit_plus: "\<not> is_digit (CHR ''+'')"
  by (simp add: is_digit_def code_def)

lemma parse_uint_dec: "n \<le> mx \<Longrightarrow> parse_uint 10 mx (dec n) = Some n"
proof -
  assume n: "n \<le> mx"
  obtain c r where cr: "dec n = c # r" by (cases "dec n") auto
  then have "c \<noteq> CHR ''+''" using dec_digits [of n] not_digit_plus by auto
  then show ?thesis using parse_digits_dec [OF n] cr by (simp add: parse_uint_def)
qed

lemma parse_digits_bound:
  "parse_digits r mx acc s = Some n \<Longrightarrow> acc \<le> mx \<Longrightarrow> n \<le> mx"
  by (induction s arbitrary: acc) (auto simp: Let_def split: option.splits if_splits)

lemma parse_uint_bound: "parse_uint r mx s = Some n \<Longrightarrow> n \<le> mx"
  unfolding parse_uint_def using parse_digits_bound [of r mx 0 _ n]
  by (simp split: list.splits if_splits del: parse_digits.simps)

text \<open>Single digits, for evaluation.\<close>

lemma digit_lits:
  "char_of (48::nat) = CHR ''0''" "char_of (49::nat) = CHR ''1''" "char_of (50::nat) = CHR ''2''"
  "char_of (51::nat) = CHR ''3''" "char_of (52::nat) = CHR ''4''" "char_of (53::nat) = CHR ''5''"
  "char_of (54::nat) = CHR ''6''" "char_of (55::nat) = CHR ''7''" "char_of (56::nat) = CHR ''8''"
  "char_of (57::nat) = CHR ''9''"
  by code_simp+

lemma digit_val_hex_char: "d < 16 \<Longrightarrow> digit_val 16 (hex_char d) = Some d"
  by (simp add: digit_val_def hex_char_def Let_def)

lemma is_hex_hex_char: "d < 16 \<Longrightarrow> is_hex (hex_char d)"
  by (simp add: is_hex_def digit_val_hex_char)

lemma hex_digits: "\<forall>c \<in> set (hex n). is_hex c"
proof (induction n rule: hex.induct)
  case (1 n)
  then show ?case by (subst hex.simps) (auto simp: is_hex_hex_char)
qed

lemma hex_nonempty [simp]: "hex n \<noteq> []"
  by (subst hex.simps) simp

lemma not_is_hex: "\<not> is_hex CR" "\<not> is_hex LF" "\<not> is_hex (CHR '';'')" "\<not> is_hex (CHR ''+'')"
  "\<not> is_hex (CHR '' '')"
  by (simp_all add: is_hex_def digit_val_def code_def)

lemma hex_fresh: "CR \<notin> set (hex n)" "LF \<notin> set (hex n)" "CHR '';'' \<notin> set (hex n)"
  "CHR ''+'' \<notin> set (hex n)"
  using hex_digits [of n] not_is_hex by auto

lemma parse_digits_hex: "n \<le> mx \<Longrightarrow> parse_digits 16 mx 0 (hex n) = Some n"
proof (induction n rule: hex.induct)
  case (1 n)
  show ?case
  proof (cases "n < 16")
    case True
    then show ?thesis using 1 by (subst hex.simps) (simp add: digit_val_hex_char)
  next
    case False
    have "n div 16 \<le> mx" using 1 by linarith
    then have "parse_digits 16 mx 0 (hex (n div 16)) = Some (n div 16)" using 1 False by simp
    then show ?thesis using False 1
      by (subst hex.simps) (simp add: parse_digits_append digit_val_hex_char)
  qed
qed

lemma parse_uint_hex: "n \<le> mx \<Longrightarrow> parse_uint 16 mx (hex n) = Some n"
proof -
  assume n: "n \<le> mx"
  obtain c r where cr: "hex n = c # r" by (cases "hex n") auto
  then have "c \<noteq> CHR ''+''" using hex_fresh(4) [of n] by auto
  then show ?thesis using parse_digits_hex [OF n] cr by (simp add: parse_uint_def)
qed

end
