(* ===== verification/Decoder.thy ===== *)
theory Decoder
  imports Prelude
begin

text \<open>
  The interface between the network readers and the incremental decoders they feed. A reader hands
  over whatever a \<open>read\<close> returned, so a decoder is only usable if the cuts do not matter. The
  locale \<open>byte_machine\<close> is that contract: a state, an operation that takes a chunk and emits
  outputs, and the law that two chunks in a row act as their concatenation. What a client may
  conclude from it is proved here once; the SSE line framer and the chunked-body decoder of the
  SSE readers are instances, and so is their pipeline.
\<close>

locale byte_machine =
  fixes feed :: "'s \<Rightarrow> bytes \<Rightarrow> 's \<times> 'e list"
  assumes feed_nil: "feed s [] = (s, [])"
    and feed_append: "feed s (a @ b) =
      (fst (feed (fst (feed s a)) b), snd (feed s a) @ snd (feed (fst (feed s a)) b))"
begin

text \<open>A reader's loop: one call per chunk.\<close>

fun feeds :: "'s \<Rightarrow> bytes list \<Rightarrow> 's \<times> 'e list" where
  "feeds s [] = (s, [])"
| "feeds s (c # cs) =
     (fst (feeds (fst (feed s c)) cs), snd (feed s c) @ snd (feeds (fst (feed s c)) cs))"

lemma feeds_concat: "feeds s cs = feed s (concat cs)"
  by (induction cs arbitrary: s) (simp_all add: feed_nil feed_append)

lemma feeds_split: "concat cs = concat ds \<Longrightarrow> feeds s cs = feeds s ds"
  by (simp add: feeds_concat)

text \<open>What holds of every single byte's step holds of every chunk.\<close>

lemma feed_invariant:
  assumes "\<And>s b. P s \<Longrightarrow> P (fst (feed s [b]))" "P s"
  shows "P (fst (feed s bs))"
  using assms(2)
proof (induction bs arbitrary: s)
  case (Cons b bs)
  then show ?case using feed_append [of s "[b]" bs] assms(1) by simp
qed (simp add: feed_nil)

lemma feed_outputs:
  assumes "\<And>s b. P s \<Longrightarrow> P (fst (feed s [b])) \<and> (\<forall>e \<in> set (snd (feed s [b])). Q e)" "P s"
  shows "\<forall>e \<in> set (snd (feed s bs)). Q e"
  using assms(2)
proof (induction bs arbitrary: s)
  case (Cons b bs)
  then show ?case using feed_append [of s "[b]" bs] assms(1) [of s b] by auto
qed (simp add: feed_nil)

end

text \<open>The fold of a one-byte step, the shape in which the decoders are written.\<close>

fun fold_bytes :: "('s \<Rightarrow> char \<Rightarrow> 's \<times> 'e list) \<Rightarrow> 's \<Rightarrow> bytes \<Rightarrow> 's \<times> 'e list" where
  "fold_bytes step s [] = (s, [])"
| "fold_bytes step s (b # bs) =
     (case step s b of (s1, e1) \<Rightarrow> (case fold_bytes step s1 bs of (s2, e2) \<Rightarrow> (s2, e1 @ e2)))"

lemma fold_bytes_append:
  "fold_bytes step s (a @ b) =
     (fst (fold_bytes step (fst (fold_bytes step s a)) b),
      snd (fold_bytes step s a) @ snd (fold_bytes step (fst (fold_bytes step s a)) b))"
  by (induction a arbitrary: s) (simp_all split: prod.splits)

lemma byte_machine_fold: "byte_machine (fold_bytes step)"
  by unfold_locales (simp_all add: fold_bytes_append)

text \<open>Two machines in a row: the outputs of the first are the input chunks of the second.\<close>

locale machine_pair = first: byte_machine f + second: byte_machine g
  for f :: "'s \<Rightarrow> bytes \<Rightarrow> 's \<times> char list" and g :: "'t \<Rightarrow> bytes \<Rightarrow> 't \<times> 'e list"
begin

definition pipe :: "'s \<times> 't \<Rightarrow> bytes \<Rightarrow> ('s \<times> 't) \<times> 'e list" where
  "pipe st b =
     (case f (fst st) b of (s', out) \<Rightarrow> (case g (snd st) out of (t', es) \<Rightarrow> ((s', t'), es)))"

lemma pipe_machine: "byte_machine pipe"
proof
  fix st show "pipe st [] = (st, [])"
    by (simp add: pipe_def first.feed_nil second.feed_nil)
next
  fix st a b
  show "pipe st (a @ b) = (fst (pipe (fst (pipe st a)) b), snd (pipe st a) @ snd (pipe (fst (pipe st a)) b))"
    by (simp add: pipe_def first.feed_append second.feed_append split: prod.splits)
qed

end

sublocale machine_pair \<subseteq> piped: byte_machine pipe
  by (rule pipe_machine)

section \<open>Resumable parsers\<close>

text \<open>
  The other shape of incremental input: a parser that is run again on the whole buffer after every
  read, and keeps in its state how far it got. Its contract is that an answer is final, and that
  resuming gives the answer a fresh run would give. A client may then conclude that reading piece
  by piece ends like one run on all the input.
\<close>

locale resumable =
  fixes run :: "'d \<Rightarrow> 'b list \<Rightarrow> 'd \<times> 'v option"
  assumes resume: "run d b = (d', None) \<Longrightarrow> run d' (b @ x) = run d (b @ x)"
    and stable: "run d b = (d', Some v) \<Longrightarrow> run d (b @ x) = (d', Some v)"
begin

text \<open>A reader: append what arrived, run, stop at an answer.\<close>

fun reads :: "'d \<Rightarrow> 'b list \<Rightarrow> 'b list list \<Rightarrow> 'd \<times> 'b list \<times> 'v option" where
  "reads d acc [] = (d, acc, None)"
| "reads d acc (c # cs) =
     (case run d (acc @ c) of
        (d', None) \<Rightarrow> reads d' (acc @ c) cs
      | (d', Some v) \<Rightarrow> (d', acc @ c, Some v))"

lemma reads_pending:
  "run d acc = (d, None) \<Longrightarrow> run d (acc @ concat cs) = (d', None) \<Longrightarrow> reads d acc cs = (d', acc @ concat cs, None)"
proof (induction cs arbitrary: d acc)
  case Nil
  then show ?case by simp
next
  case (Cons c cs)
  obtain d1 r where r: "run d (acc @ c) = (d1, r)" by fastforce
  show ?case
  proof (cases r)
    case None
    have "run d1 (acc @ c) = (d1, None)" using resume [of d "acc @ c" d1 "[]"] r None by simp
    moreover have "run d1 ((acc @ c) @ concat cs) = (d', None)"
      using resume [of d "acc @ c" d1 "concat cs"] r None Cons.prems(2) by simp
    ultimately show ?thesis using Cons.IH [of d1 "acc @ c"] r None by simp
  next
    case (Some v)
    then show ?thesis using stable [of d "acc @ c" d1 v "concat cs"] r Cons.prems(2) by simp
  qed
qed

lemma reads_final:
  "run d acc = (d, None) \<Longrightarrow> run d (acc @ concat cs) = (d', Some v) \<Longrightarrow>
     \<exists>n \<le> length cs. reads d acc cs = (d', acc @ concat (take n cs), Some v)"
proof (induction cs arbitrary: d acc)
  case Nil
  then show ?case by simp
next
  case (Cons c cs)
  obtain d1 r where r: "run d (acc @ c) = (d1, r)" by fastforce
  show ?case
  proof (cases r)
    case None
    have "run d1 (acc @ c) = (d1, None)" using resume [of d "acc @ c" d1 "[]"] r None by simp
    moreover have "run d1 ((acc @ c) @ concat cs) = (d', Some v)"
      using resume [of d "acc @ c" d1 "concat cs"] r None Cons.prems(2) by simp
    ultimately obtain n where "n \<le> length cs" "reads d1 (acc @ c) cs = (d', (acc @ c) @ concat (take n cs), Some v)"
      using Cons.IH [of d1 "acc @ c"] by blast
    then show ?thesis using r None by (intro exI [of _ "Suc n"]) simp
  next
    case (Some w)
    then have "d1 = d'" "w = v" using stable [of d "acc @ c" d1 w "concat cs"] r Cons.prems(2) by simp_all
    then show ?thesis using r Some by (intro exI [of _ 1]) simp
  qed
qed

end

end
