(* ===== verification/Vars.thy ===== *)
theory Vars
  imports Prelude
begin

text \<open>
  Named variables: the registry of \<open>zerobench-core/src/var.rs\<close>, which gives every name of a plan a
  one-byte slot, and the runtime store of \<open>zerobench-core/src/scenario_context.rs\<close>, which keeps the
  value of each slot. The store's contract with its clients (template expansion, response
  extraction) is the locale \<open>slot_store\<close>.
\<close>

section \<open>The registry\<close>

datatype var_error = TooManyVars nat

type_synonym var_slot = u8

record var_registry =
  vr_names :: "string list"

definition registry_new :: var_registry where "registry_new = \<lparr>vr_names = []\<rparr>"

definition allocate :: "string \<Rightarrow> var_registry \<Rightarrow> var_registry \<times> (var_error + var_slot)" where
  "allocate name r =
     (case find_pos (\<lambda>n. n = name) (vr_names r) of
        Some idx \<Rightarrow> (r, Inr (word_of_nat idx))
      | None \<Rightarrow>
          (if 256 \<le> length (vr_names r) then (r, Inl (TooManyVars (length (vr_names r))))
           else (r\<lparr>vr_names := vr_names r @ [name]\<rparr>, Inr (word_of_nat (length (vr_names r))))))"

definition slot_name :: "var_registry \<Rightarrow> var_slot \<Rightarrow> string option" where
  "slot_name r s = (if unat s < length (vr_names r) then Some (vr_names r ! unat s) else None)"

definition registry_len :: "var_registry \<Rightarrow> nat" where
  "registry_len r = length (vr_names r)"

text \<open>Well-formed: one slot per name, and every slot is a byte.\<close>

definition registry_ok :: "var_registry \<Rightarrow> bool" where
  "registry_ok r = (distinct (vr_names r) \<and> length (vr_names r) \<le> 256)"

lemma unat_u8: "n < 256 \<Longrightarrow> unat (word_of_nat n :: u8) = n"
  by (simp add: unat_of_nat)

lemma allocate_cases:
  assumes "allocate name r = (r', res)"
  obtains (known) i where "r' = r" "res = Inr (word_of_nat i)" "i < length (vr_names r)" "vr_names r ! i = name"
    | (full) "r' = r" "res = Inl (TooManyVars (length (vr_names r)))" "name \<notin> set (vr_names r)"
        "256 \<le> length (vr_names r)"
    | (fresh) "r' = r\<lparr>vr_names := vr_names r @ [name]\<rparr>" "res = Inr (word_of_nat (length (vr_names r)))"
        "name \<notin> set (vr_names r)" "length (vr_names r) < 256"
  using assms
  by (auto simp: allocate_def find_pos_Some find_pos_None split: option.splits if_splits)

lemma allocate_ok: "allocate name r = (r', res) \<Longrightarrow> registry_ok r \<Longrightarrow> registry_ok r'"
  by (erule allocate_cases) (auto simp: registry_ok_def)

lemma allocate_name:
  "allocate name r = (r', Inr s) \<Longrightarrow> registry_ok r \<Longrightarrow> slot_name r' s = Some name"
  by (erule allocate_cases) (auto simp: registry_ok_def slot_name_def unat_u8 nth_append)

lemma allocate_keeps:
  "allocate name r = (r', res) \<Longrightarrow> slot_name r s = Some n \<Longrightarrow> slot_name r' s = Some n"
  by (erule allocate_cases) (auto simp: slot_name_def nth_append split: if_splits)

section \<open>The store\<close>

text \<open>
  A client may set and clear slots; slots it has no room for are ignored. What a slot holds after a
  run of writes is its last write.
\<close>

datatype ('k, 'v) slot_write = WSet 'k 'v | WClear 'k

locale slot_store =
  fixes get :: "'s \<Rightarrow> 'k \<Rightarrow> 'v option" and setv :: "'k \<Rightarrow> 'v \<Rightarrow> 's \<Rightarrow> 's"
    and clear :: "'k \<Rightarrow> 's \<Rightarrow> 's" and has :: "'s \<Rightarrow> 'k \<Rightarrow> bool"
  assumes get_set: "get (setv k v s) k' = (if k' = k \<and> has s k then Some v else get s k')"
    and get_clear: "get (clear k s) k' = (if k' = k then None else get s k')"
    and has_set: "has (setv k v s) k' = has s k'"
    and has_clear: "has (clear k s) k' = has s k'"
    and get_has: "\<not> has s k \<Longrightarrow> get s k = None"
begin

fun apply_write :: "'s \<Rightarrow> ('k, 'v) slot_write \<Rightarrow> 's" where
  "apply_write s (WSet k v) = setv k v s"
| "apply_write s (WClear k) = clear k s"

fun written :: "'k \<Rightarrow> ('k, 'v) slot_write list \<Rightarrow> 'v option option" where
  "written k [] = None"
| "written k (w # ws) =
     (case written k ws of
        Some r \<Rightarrow> Some r
      | None \<Rightarrow> (case w of WSet k' v \<Rightarrow> (if k' = k then Some (Some v) else None)
                          | WClear k' \<Rightarrow> (if k' = k then Some None else None)))"

lemma has_writes: "has (foldl apply_write s ws) k = has s k"
proof (induction ws arbitrary: s)
  case (Cons w ws)
  then show ?case by (cases w) (simp_all add: has_set has_clear)
qed simp

lemma get_writes:
  "get (foldl apply_write s ws) k =
     (case written k ws of Some r \<Rightarrow> (if has s k then r else None) | None \<Rightarrow> get s k)"
proof (induction ws arbitrary: s)
  case (Cons w ws)
  then show ?case
    by (cases w) (auto simp: get_set get_clear has_set has_clear get_has split: option.splits)
qed simp

end

text \<open>
  The runtime context of one worker. The generator's state is \<open>'r\<close>; the URL and header buffers
  are scratch space that is cleared before use, the body buffer as well.
\<close>

record 'r scenario_context =
  cx_vars :: "bytes option list"
  cx_rng :: 'r
  cx_counter :: u64
  cx_url_buf :: bytes
  cx_body_buf :: bytes

definition context_new :: "nat \<Rightarrow> 'r \<Rightarrow> 'r scenario_context" where
  "context_new num_vars rng =
     \<lparr>cx_vars = replicate num_vars None, cx_rng = rng, cx_counter = 0, cx_url_buf = [], cx_body_buf = []\<rparr>"

definition get_var :: "'r scenario_context \<Rightarrow> var_slot \<Rightarrow> bytes option" where
  "get_var c s = (if unat s < length (cx_vars c) then cx_vars c ! unat s else None)"

definition set_var :: "var_slot \<Rightarrow> bytes \<Rightarrow> 'r scenario_context \<Rightarrow> 'r scenario_context" where
  "set_var s v c =
     (if unat s < length (cx_vars c) then c\<lparr>cx_vars := (cx_vars c)[unat s := Some v]\<rparr> else c)"

definition clear_var :: "var_slot \<Rightarrow> 'r scenario_context \<Rightarrow> 'r scenario_context" where
  "clear_var s c =
     (if unat s < length (cx_vars c) then c\<lparr>cx_vars := (cx_vars c)[unat s := None]\<rparr> else c)"

definition clear_all :: "'r scenario_context \<Rightarrow> 'r scenario_context" where
  "clear_all c = c\<lparr>cx_vars := map (\<lambda>_. None) (cx_vars c)\<rparr>"

text \<open>The counter after the bump is also the result.\<close>

definition bump_counter :: "'r scenario_context \<Rightarrow> u64 \<times> 'r scenario_context" where
  "bump_counter c = (let next = cx_counter c + 1 in (next, c\<lparr>cx_counter := next\<rparr>))"

definition has_slot :: "'r scenario_context \<Rightarrow> var_slot \<Rightarrow> bool" where
  "has_slot c s = (unat s < length (cx_vars c))"

interpretation store: slot_store get_var set_var clear_var has_slot
  by unfold_locales
     (auto simp: get_var_def set_var_def clear_var_def has_slot_def nth_list_update word_unat_eq_iff)

section \<open>Properties\<close>

text \<open>
  Allocation keeps the registry well formed and stable: however many names are
  allocated, in any order and with repetitions, names stay distinct and at most 256, a slot that
  was handed out keeps its name for good, and allocating a name that has a slot returns that slot.
\<close>

lemma allocate_stable:
  fixes names :: "string list"
  assumes "allocate name r = (r1, Inr s)" "registry_ok r"
  defines "r2 \<equiv> foldl (\<lambda>r n. fst (allocate n r)) r1 names"
  shows "registry_ok r2 \<and> slot_name r2 s = Some name \<and> allocate name r2 = (r2, Inr s)"
proof -
  have "registry_ok r1" "slot_name r1 s = Some name"
    using allocate_ok allocate_name assms(1,2) by blast+
  then have r2: "registry_ok r2 \<and> slot_name r2 s = Some name"
    unfolding r2_def
  proof (induction names arbitrary: r1)
    case (Cons n names)
    obtain r' res where "allocate n r1 = (r', res)" by fastforce
    with Cons show ?case using allocate_ok [of n r1 r' res] allocate_keeps [of n r1 r' res s name] by simp
  qed simp
  then have nth: "unat s < length (vr_names r2)" "vr_names r2 ! unat s = name" "distinct (vr_names r2)"
    by (auto simp: slot_name_def registry_ok_def split: if_splits)
  then have "find_pos (\<lambda>n. n = name) (vr_names r2) = Some (unat s)"
    by (auto simp: find_pos_Some nth_eq_iff_index_eq)
  then show ?thesis using r2 by (simp add: allocate_def)
qed

text \<open>
  The limit is exact: a new name is refused exactly when 256 names are already
  registered, the registry is then unchanged, and a refusal reports that number.
\<close>

lemma allocate_limit:
  assumes "registry_ok r" "name \<notin> set (vr_names r)"
  shows "(\<exists>s. snd (allocate name r) = Inr s) = (registry_len r < 256)
    \<and> (registry_len r = 256 \<longrightarrow> allocate name r = (r, Inl (TooManyVars 256)))"
proof -
  have "find_pos (\<lambda>n. n = name) (vr_names r) = None" using assms(2) by (auto simp: find_pos_None)
  then show ?thesis using assms(1) by (auto simp: allocate_def registry_len_def registry_ok_def)
qed

end
