(* ===== verification/Template.thy ===== *)
theory Template
  imports Vars
begin

text \<open>
  The template language of \<open>zerobench-core/src/template.rs\<close>: the compiler from source text to
  parts, with its escapes and every expression form, and the expander with its number, date and
  random-text writers. What the program takes from its surroundings (environment, files, clock,
  UUIDs, random generator) is the record \<open>W\<close>.
\<close>

section \<open>Surroundings\<close>

record 'r world =
  w_env :: "string \<Rightarrow> string option"
  w_read :: "string \<Rightarrow> string + bytes"
  w_uuid7 :: "nat \<Rightarrow> string"
  w_uuid4 :: "nat \<Rightarrow> string"
  w_now_ns :: "nat \<Rightarrow> nat"
  w_gen_u64 :: "'r \<Rightarrow> u64 \<times> 'r"
  w_gen_range :: "int \<Rightarrow> int \<Rightarrow> 'r \<Rightarrow> int \<times> 'r"

section \<open>Parts\<close>

text \<open>A line source: its path, its lines, and the identity of its shared cursor.\<close>

record line_source =
  ls_path :: string
  ls_lines :: "bytes list"
  ls_cursor :: nat

datatype part =
    PLiteral bytes
  | PUuid
  | PUuid4
  | PNowMs
  | PNowNs
  | PNowIso
  | PCounter
  | PCounterGlobal
  | PRandInt int int
  | PRandHex nat
  | PRandStr nat
  | PVarRef var_slot
  | PLine line_source

record template =
  tp_parts :: "part list"
  tp_estimated_size :: nat

datatype template_error =
    Unclosed nat
  | UnknownVariable string
  | InvalidRandInt string
  | InvalidRandArgs string
  | NotYetSupported string
  | LineFile string string
  | TooMany var_error
  | EmptyOperand string
  | MissingEnv string

definition template_empty :: template where
  "template_empty = \<lparr>tp_parts = [], tp_estimated_size = 0\<rparr>"

definition template_literal :: "bytes \<Rightarrow> template" where
  "template_literal b = \<lparr>tp_parts = [PLiteral b], tp_estimated_size = length b\<rparr>"

fun is_literal :: "part \<Rightarrow> bool" where
  "is_literal (PLiteral b) = True"
| "is_literal _ = False"

definition is_static :: "template \<Rightarrow> bool" where
  "is_static t = list_all is_literal (tp_parts t)"

definition static_literal :: "template \<Rightarrow> bytes option" where
  "static_literal t = (case tp_parts t of [PLiteral b] \<Rightarrow> Some b | _ \<Rightarrow> None)"

section \<open>Compiling\<close>

definition line_load :: "'r world \<Rightarrow> string \<Rightarrow> nat \<Rightarrow> template_error + line_source" where
  "line_load W path cursor =
     (case w_read W path of
        Inl e \<Rightarrow> Inl (LineFile path (''read failed: '' @ e))
      | Inr bs \<Rightarrow>
          (let lines = map (\<lambda>line. if last_is CR line then butlast line else line) (split_on LF bs);
               lines = (if last_is [] lines then butlast lines else lines)
           in if lines = [] then Inl (LineFile path ''file is empty'')
              else Inr \<lparr>ls_path = path, ls_lines = lines, ls_cursor = cursor\<rparr>))"

fun find_double_close :: "bytes \<Rightarrow> nat option" where
  "find_double_close (a # b # s) =
     (if a = CHR ''}'' \<and> b = CHR ''}'' then Some 0 else map_option Suc (find_double_close (b # s)))"
| "find_double_close _ = None"

fun coalesce_push :: "part list \<Rightarrow> part \<Rightarrow> part list" where
  "coalesce_push [] p = [p]"
| "coalesce_push [q] p =
     (case (q, p) of (PLiteral prev, PLiteral next) \<Rightarrow> [PLiteral (prev @ next)] | _ \<Rightarrow> [q, p])"
| "coalesce_push (q # qs) p = q # coalesce_push qs p"

definition coalesce_literals :: "part list \<Rightarrow> part list" where
  "coalesce_literals ps = foldl coalesce_push [] ps"

fun estimate_dynamic :: "part \<Rightarrow> nat" where
  "estimate_dynamic (PLiteral b) = 0"
| "estimate_dynamic PUuid = 36"
| "estimate_dynamic PUuid4 = 36"
| "estimate_dynamic PNowMs = 13"
| "estimate_dynamic PNowNs = 19"
| "estimate_dynamic PNowIso = 24"
| "estimate_dynamic PCounter = 20"
| "estimate_dynamic PCounterGlobal = 20"
| "estimate_dynamic (PRandInt a b) = 20"
| "estimate_dynamic (PRandHex n) = n * 2"
| "estimate_dynamic (PRandStr n) = n"
| "estimate_dynamic (PVarRef s) = 32"
| "estimate_dynamic (PLine l) = 64"

fun part_size :: "part \<Rightarrow> nat" where
  "part_size (PLiteral b) = length b"
| "part_size p = estimate_dynamic p"

text \<open>
  The compiler's mutable state: the registry and the number of line sources made so far, which
  names the cursor of the next one.
\<close>

record comp_state =
  co_vars :: var_registry
  co_cursors :: nat

definition usize_parse :: "string \<Rightarrow> nat option" where
  "usize_parse s = parse_uint 10 usize_max (trim s)"

definition parse_expression ::
  "'r world \<Rightarrow> string \<Rightarrow> comp_state \<Rightarrow> comp_state \<times> (template_error + part)" where
  "parse_expression W expr st =
     (let e = trim expr;
          unknown = (st, Inl (UnknownVariable e)) in
      if e = ''uuid'' then (st, Inr PUuid)
      else if e = ''uuid4'' then (st, Inr PUuid4)
      else if e = ''now_ms'' then (st, Inr PNowMs)
      else if e = ''now_ns'' then (st, Inr PNowNs)
      else if e = ''now_iso'' then (st, Inr PNowIso)
      else if e = ''counter'' then (st, Inr PCounter)
      else if e = ''counter_global'' then (st, Inr PCounterGlobal)
      else case split_once (CHR '':'') expr of
        None \<Rightarrow> unknown
      | Some (head, tail) \<Rightarrow>
          (let head = trim head in
           if head = ''env'' then
             (let (name, dflt) = (case split_once (CHR '':'') tail of
                    Some (n, d) \<Rightarrow> (trim n, Some d)
                  | None \<Rightarrow> (trim tail, None))
              in if name = [] then (st, Inl (EmptyOperand ''env''))
                 else (case w_env W name of
                    Some v \<Rightarrow> (st, Inr (PLiteral v))
                  | None \<Rightarrow> (case dflt of
                        Some d \<Rightarrow> (st, Inr (PLiteral d))
                      | None \<Rightarrow> (st, Inl (MissingEnv name)))))
           else if head = ''rand_int'' then
             (case split_once (CHR '':'') tail of
                None \<Rightarrow> (st, Inl (InvalidRandInt tail))
              | Some (a, b) \<Rightarrow>
                  (case (parse_i64 (trim a), parse_i64 (trim b)) of
                     (Some mn, Some mx) \<Rightarrow>
                       (if mx < mn then (st, Inl (InvalidRandInt tail)) else (st, Inr (PRandInt mn mx)))
                   | _ \<Rightarrow> (st, Inl (InvalidRandInt tail))))
           else if head = ''rand_hex'' then
             (case usize_parse tail of
                Some n \<Rightarrow> (st, Inr (PRandHex n))
              | None \<Rightarrow> (st, Inl (InvalidRandArgs (''rand_hex:'' @ tail))))
           else if head = ''rand_str'' then
             (case usize_parse tail of
                Some n \<Rightarrow> (st, Inr (PRandStr n))
              | None \<Rightarrow> (st, Inl (InvalidRandArgs (''rand_str:'' @ tail))))
           else if head = ''var'' then
             (let name = trim tail in
              if name = [] then (st, Inl (EmptyOperand ''var''))
              else (case allocate name (co_vars st) of
                 (r, Inl e) \<Rightarrow> (st\<lparr>co_vars := r\<rparr>, Inl (TooMany e))
               | (r, Inr slot) \<Rightarrow> (st\<lparr>co_vars := r\<rparr>, Inr (PVarRef slot))))
           else if head = ''line'' then
             (if tail = [] then (st, Inl (NotYetSupported ''line: requires a file path''))
              else (case line_load W tail (co_cursors st) of
                 Inl e \<Rightarrow> (st, Inl e)
               | Inr l \<Rightarrow> (st\<lparr>co_cursors := Suc (co_cursors st)\<rparr>, Inr (PLine l))))
           else unknown))"

definition flush_literal :: "bytes \<Rightarrow> part list \<Rightarrow> part list" where
  "flush_literal literal parts = (if literal \<noteq> [] then parts @ [PLiteral literal] else parts)"

text \<open>The scan: \<open>i\<close> is the position of the remaining bytes in the source.\<close>

function compile_loop ::
  "'r world \<Rightarrow> nat \<Rightarrow> bytes \<Rightarrow> bytes \<Rightarrow> part list \<Rightarrow> comp_state
     \<Rightarrow> comp_state \<times> (template_error + part list)" where
  "compile_loop W i bs literal parts st =
     (case bs of
        [] \<Rightarrow> (st, Inr (flush_literal literal parts))
      | b # rest \<Rightarrow>
          (if b = CHR ''{'' \<and> is_prefix ''{'' rest then
             (if is_prefix ''{{{'' rest then
                compile_loop W (i + 4) (drop 4 bs) (literal @ ''{{'') parts st
              else (case find_double_close (drop 2 bs) of
                 None \<Rightarrow> (st, Inl (Unclosed i))
               | Some n \<Rightarrow>
                   (let expr = take n (drop 2 bs) in
                    if \<not> valid_utf8 expr then (st, Inl (UnknownVariable (from_utf8_lossy expr)))
                    else (case parse_expression W expr st of
                        (st', Inl e) \<Rightarrow> (st', Inl e)
                      | (st', Inr part) \<Rightarrow>
                          compile_loop W (i + n + 4) (drop (n + 4) bs) [] (flush_literal literal parts @ [part]) st'))))
           else if b = CHR ''}'' \<and> is_prefix ''}}}'' rest then
             compile_loop W (i + 4) (drop 4 bs) (literal @ ''}}'') parts st
           else compile_loop W (i + 1) rest (literal @ [b]) parts st))"
  by pat_completeness auto
termination
  by (relation "measure (\<lambda>(_, _, bs, _). length bs)") auto

declare compile_loop.simps [simp del]

definition compile_template ::
  "'r world \<Rightarrow> string \<Rightarrow> comp_state \<Rightarrow> comp_state \<times> (template_error + template)" where
  "compile_template W src st =
     (case compile_loop W 0 src [] [] st of
        (st', Inl e) \<Rightarrow> (st', Inl e)
      | (st', Inr parts) \<Rightarrow>
          (let ps = coalesce_literals parts in
           (st', Inr \<lparr>tp_parts = ps, tp_estimated_size = sum_list (map part_size ps)\<rparr>)))"

section \<open>Writers\<close>

text \<open>The digit loop of \<open>write_u128\<close> fills its buffer from the end.\<close>

fun digits_rev :: "nat \<Rightarrow> string \<Rightarrow> string" where
  "digits_rev n acc = (if n = 0 then acc else digits_rev (n div 10) (digit_char (n mod 10) # acc))"

declare digits_rev.simps [simp del]

definition write_u128 :: "nat \<Rightarrow> bytes \<Rightarrow> bytes" where
  "write_u128 n out = (if n = 0 then out @ ''0'' else out @ digits_rev n [])"

definition write_i64 :: "int \<Rightarrow> bytes \<Rightarrow> bytes" where
  "write_i64 n out =
     (if n < 0 then write_u128 (nat (- n)) (out @ ''-'') else write_u128 (nat n) out)"

definition write_u_padded :: "nat \<Rightarrow> nat \<Rightarrow> bytes \<Rightarrow> bytes" where
  "write_u_padded n width out =
     (if n = 0 then out @ replicate width (CHR ''0'')
      else (let ds = digits_rev n [] in
            (if length ds < width then out @ replicate (width - length ds) (CHR ''0'') else out) @ ds))"

text \<open>Days since 1970-01-01 to year, month and day; Rust's \<open>/\<close> on \<open>i64\<close> truncates.\<close>

definition quot_trunc :: "int \<Rightarrow> int \<Rightarrow> int" where
  "quot_trunc a b = (if 0 \<le> a then a div b else - ((- a) div b))"

definition civil_from_days :: "int \<Rightarrow> int \<times> int \<times> int" where
  "civil_from_days z0 =
     (let z = z0 + 719468;
          era = quot_trunc (if 0 \<le> z then z else z - 146096) 146097;
          doe = z - era * 146097;
          yoe = (doe - doe div 1460 + doe div 36524 - doe div 146096) div 365;
          y = yoe + era * 400;
          doy = doe - (365 * yoe + yoe div 4 - yoe div 100);
          mp = (5 * doy + 2) div 153;
          d = doy - (153 * mp + 2) div 5 + 1;
          m = (if mp < 10 then mp + 3 else mp - 9);
          year = y + (if m \<le> 2 then 1 else 0)
      in (year, m, d))"

definition write_iso8601_utc :: "nat \<Rightarrow> bytes \<Rightarrow> bytes" where
  "write_iso8601_utc now_ns out =
     (let total_secs = now_ns div 1000000000;
          millis = now_ns mod 1000000000 div 1000000;
          days = total_secs div 86400;
          sod = total_secs mod 86400;
          (year, month, day) = civil_from_days (int days);
          o1 = write_u_padded (nat year) 4 out @ ''-'';
          o2 = write_u_padded (nat month) 2 o1 @ ''-'';
          o3 = write_u_padded (nat day) 2 o2 @ ''T'';
          o4 = write_u_padded (sod div 3600) 2 o3 @ '':'';
          o5 = write_u_padded (sod mod 3600 div 60) 2 o4 @ '':'';
          o6 = write_u_padded (sod mod 60) 2 o5 @ ''.''
      in write_u_padded millis 3 o6 @ ''Z'')"

fun hex_bytes :: "nat \<Rightarrow> nat \<Rightarrow> bytes" where
  "hex_bytes 0 n = []"
| "hex_bytes (Suc k) n =
     [hex_char (n mod 256 div 16), hex_char (n mod 16)] @ hex_bytes k (n div 256)"

function write_rand_hex :: "'r world \<Rightarrow> nat \<Rightarrow> 'r \<Rightarrow> bytes \<Rightarrow> 'r \<times> bytes" where
  "write_rand_hex W remaining rng out =
     (if remaining = 0 then (rng, out)
      else (let chunk = min remaining 8; (n, rng') = w_gen_u64 W rng in
            write_rand_hex W (remaining - chunk) rng' (out @ hex_bytes chunk (unat n))))"
  by pat_completeness auto
termination by (relation "measure (\<lambda>(_, r, _). r)") auto

declare write_rand_hex.simps [simp del]

definition ALPHABET :: string where
  "ALPHABET = ''abcdefghijklmnopqrstuvwxyzABCDEFGHIJKLMNOPQRSTUVWXYZ0123456789''"

fun write_rand_str :: "'r world \<Rightarrow> nat \<Rightarrow> 'r \<Rightarrow> bytes \<Rightarrow> 'r \<times> bytes" where
  "write_rand_str W 0 rng out = (rng, out)"
| "write_rand_str W (Suc len) rng out =
     (case w_gen_range W 0 (int (length ALPHABET) - 1) rng of
        (idx, rng') \<Rightarrow> write_rand_str W len rng' (out @ [ALPHABET ! nat idx]))"

section \<open>Expanding\<close>

text \<open>
  What an expansion may change: the generator and counter of the context, the process-wide counter,
  the cursors of the line sources, and how often clock and UUID sources were read.
\<close>

record 'r expand_ctx =
  ex_rng :: 'r
  ex_counter :: u64
  ex_vars :: "bytes option list"
  ex_global :: u64
  ex_cursors :: "nat \<Rightarrow> nat"
  ex_ticks :: nat

definition line_next :: "line_source \<Rightarrow> 'r expand_ctx \<Rightarrow> bytes \<times> 'r expand_ctx" where
  "line_next src x =
     (let i = ex_cursors x (ls_cursor src) in
      (ls_lines src ! (i mod length (ls_lines src)),
       x\<lparr>ex_cursors := (ex_cursors x)(ls_cursor src := (i + 1) mod 2 ^ 64)\<rparr>))"

fun expand_part :: "'r world \<Rightarrow> part \<Rightarrow> bytes \<times> 'r expand_ctx \<Rightarrow> bytes \<times> 'r expand_ctx" where
  "expand_part W (PLiteral b) (out, x) = (out @ b, x)"
| "expand_part W PUuid (out, x) = (out @ w_uuid7 W (ex_ticks x), x\<lparr>ex_ticks := Suc (ex_ticks x)\<rparr>)"
| "expand_part W PUuid4 (out, x) = (out @ w_uuid4 W (ex_ticks x), x\<lparr>ex_ticks := Suc (ex_ticks x)\<rparr>)"
| "expand_part W PNowMs (out, x) =
     (write_u128 (w_now_ns W (ex_ticks x) div 1000000) out, x\<lparr>ex_ticks := Suc (ex_ticks x)\<rparr>)"
| "expand_part W PNowNs (out, x) =
     (write_u128 (w_now_ns W (ex_ticks x)) out, x\<lparr>ex_ticks := Suc (ex_ticks x)\<rparr>)"
| "expand_part W PNowIso (out, x) =
     (write_iso8601_utc (w_now_ns W (ex_ticks x)) out, x\<lparr>ex_ticks := Suc (ex_ticks x)\<rparr>)"
| "expand_part W PCounter (out, x) =
     (write_u128 (unat (ex_counter x)) out, x\<lparr>ex_counter := ex_counter x + 1\<rparr>)"
| "expand_part W PCounterGlobal (out, x) =
     (write_u128 (unat (ex_global x)) out, x\<lparr>ex_global := ex_global x + 1\<rparr>)"
| "expand_part W (PRandInt mn mx) (out, x) =
     (if mn = mx then (write_i64 mn out, x)
      else (case w_gen_range W mn mx (ex_rng x) of (n, r) \<Rightarrow> (write_i64 n out, x\<lparr>ex_rng := r\<rparr>)))"
| "expand_part W (PRandHex n) (out, x) =
     (case write_rand_hex W n (ex_rng x) out of (r, out') \<Rightarrow> (out', x\<lparr>ex_rng := r\<rparr>))"
| "expand_part W (PRandStr n) (out, x) =
     (case write_rand_str W n (ex_rng x) out of (r, out') \<Rightarrow> (out', x\<lparr>ex_rng := r\<rparr>))"
| "expand_part W (PVarRef s) (out, x) =
     ((if unat s < length (ex_vars x) then
         (case ex_vars x ! unat s of Some v \<Rightarrow> out @ v | None \<Rightarrow> out) else out), x)"
| "expand_part W (PLine src) (out, x) = (case line_next src x of (l, x') \<Rightarrow> (out @ l, x'))"

definition expand_into :: "'r world \<Rightarrow> template \<Rightarrow> bytes \<Rightarrow> 'r expand_ctx \<Rightarrow> bytes \<times> 'r expand_ctx" where
  "expand_into W t out x = fold (expand_part W) (tp_parts t) (out, x)"

section \<open>Lemmas on the writers\<close>

lemma digits_rev_dec: "0 < n \<Longrightarrow> digits_rev n acc = dec n @ acc"
proof (induction n acc rule: digits_rev.induct)
  case (1 n acc)
  show ?case
  proof (cases "n < 10")
    case True
    then show ?thesis using "1.prems" by (simp add: digits_rev.simps [of n] digits_rev.simps [of 0] dec.simps [of n])
  next
    case False
    then have "0 < n div 10" by auto
    then show ?thesis using "1.IH" "1.prems" False by (simp add: digits_rev.simps [of n] dec.simps [of n])
  qed
qed

lemma dec_0: "dec 0 = ''0''"
  by (simp add: dec.simps digit_char_def digit_lits)

lemma write_u128_dec: "write_u128 n out = out @ dec n"
  by (simp add: write_u128_def digits_rev_dec dec_0)

lemma write_i64_parse:
  assumes "- (2 ^ 63) \<le> n" "n < 2 ^ 63"
  shows "parse_i64 (write_i64 n []) = Some n"
proof (cases "n < 0")
  case True
  have "nat (- n) \<le> 2 ^ 63" using True assms(1) by (simp add: nat_le_iff)
  then have "parse_digits 10 (2 ^ 63) 0 (dec (nat (- n))) = Some (nat (- n))" by (rule parse_digits_dec)
  then show ?thesis using True by (simp add: parse_i64_def write_i64_def write_u128_dec)
next
  case False
  obtain c r where cr: "dec (nat n) = c # r" by (cases "dec (nat n)") auto
  then have "is_digit c" using dec_digits [of "nat n"] by auto
  then have c: "c \<noteq> CHR ''+''" "c \<noteq> CHR ''-''" by (auto simp: is_digit_def code_def)
  have "nat n \<le> 2 ^ 63 - 1" using False assms(2) by (simp add: nat_le_iff)
  then have "parse_digits 10 (2 ^ 63 - 1) 0 (dec (nat n)) = Some (nat n)" by (rule parse_digits_dec)
  then show ?thesis using False c cr by (simp add: parse_i64_def write_i64_def write_u128_dec)
qed

section \<open>Template text\<close>

text \<open>How a user writes a text: braces doubled, variables in double braces.\<close>

fun escape :: "string \<Rightarrow> string" where
  "escape [] = []"
| "escape [c] = [c]"
| "escape (c # d # s) =
     (if c = CHR ''{'' \<and> d = CHR ''{'' then ''{{{{'' @ escape s
      else if c = CHR ''}'' \<and> d = CHR ''}'' then ''}}}}'' @ escape s
      else c # escape (d # s))"

text \<open>A literal that ends in an unpaired opening brace cannot stand before a variable.\<close>

fun ends_open :: "string \<Rightarrow> bool" where
  "ends_open [] = False"
| "ends_open [c] = (c = CHR ''{'')"
| "ends_open (c # d # s) =
     (if c = d \<and> (c = CHR ''{'' \<or> c = CHR ''}'') then ends_open s else ends_open (d # s))"

datatype seg = SegLit string | SegVar string

fun seg_src :: "seg \<Rightarrow> string" where
  "seg_src (SegLit s) = escape s"
| "seg_src (SegVar n) = ''{{var:'' @ n @ ''}}''"

definition plain_name :: "string \<Rightarrow> bool" where
  "plain_name n = (n \<noteq> [] \<and> (\<forall>c \<in> set n. 33 \<le> code c \<and> code c < 127 \<and> c \<noteq> CHR ''}''))"

fun segs_ok :: "seg list \<Rightarrow> bool" where
  "segs_ok [] = True"
| "segs_ok (SegVar n # ss) = (plain_name n \<and> segs_ok ss)"
| "segs_ok (SegLit s # ss) =
     ((case ss of SegLit _ # _ \<Rightarrow> False | SegVar _ # _ \<Rightarrow> \<not> ends_open s | [] \<Rightarrow> True) \<and> segs_ok ss)"

fun seg_vars :: "seg list \<Rightarrow> nat" where
  "seg_vars [] = 0"
| "seg_vars (SegVar n # ss) = Suc (seg_vars ss)"
| "seg_vars (SegLit s # ss) = seg_vars ss"

definition slot_value :: "bytes option list \<Rightarrow> nat \<Rightarrow> bytes" where
  "slot_value vars i = (if i < length vars then (case vars ! i of Some v \<Rightarrow> v | None \<Rightarrow> []) else [])"

text \<open>What a text means: variables by name through the registry.\<close>

fun seg_value :: "var_registry \<Rightarrow> bytes option list \<Rightarrow> seg \<Rightarrow> bytes" where
  "seg_value r vars (SegLit s) = s"
| "seg_value r vars (SegVar n) =
     (case find_pos (\<lambda>m. m = n) (vr_names r) of Some i \<Rightarrow> slot_value vars i | None \<Rightarrow> [])"

subsection \<open>Scanning\<close>

lemma escape_hd: "hd (escape (c # s)) = c"
  by (cases s) auto

lemma escape_nonempty: "escape (c # s) \<noteq> []"
  by (cases s) auto

lemma scan_literal:
  assumes "rst \<noteq> [] \<longrightarrow> \<not> ends_open s" "rst = [] \<or> hd rst = CHR ''{''"
  shows "compile_loop W i (escape s @ rst) lit parts st =
     compile_loop W (i + length (escape s)) rst (lit @ s) parts st"
  using assms(1)
proof (induction s arbitrary: i lit rule: escape.induct)
  case 1
  then show ?case by simp
next
  case (2 c)
  have "\<not> (c = CHR ''}'' \<and> is_prefix ''}}}'' rst)" using assms(2) by (cases rst) auto
  then show ?case using 2 by (auto simp: compile_loop.simps [of W i "c # rst"])
next
  case (3 c d s)
  consider "c = CHR ''{''" "d = CHR ''{''" | "c = CHR ''}''" "d = CHR ''}''"
    | "\<not> (c = CHR ''{'' \<and> d = CHR ''{'')" "\<not> (c = CHR ''}'' \<and> d = CHR ''}'')" by blast
  then show ?case
  proof cases
    case 1
    then show ?thesis using 3 by (subst compile_loop.simps) (simp add: eval_nat_numeral)
  next
    case 2
    then show ?thesis using 3 by (subst compile_loop.simps) (simp add: eval_nat_numeral)
  next
    case n: 3
    obtain e where e: "escape (d # s) = d # e"
      using escape_hd [of d s] escape_nonempty [of d s] by (cases "escape (d # s)") auto
    have "(c = CHR ''{'' \<and> is_prefix ''{'' (d # e @ rst)) = False"
      "(c = CHR ''}'' \<and> is_prefix ''}}}'' (d # e @ rst)) = False" using n by auto
    then have "compile_loop W i (c # d # e @ rst) lit parts st
        = compile_loop W (i + 1) (d # e @ rst) (lit @ [c]) parts st"
      by (subst compile_loop.simps) (simp only: list.case if_False)
    moreover have "rst \<noteq> [] \<longrightarrow> \<not> ends_open (d # s)" using "3.prems" n by (auto split: if_splits)
    then have "compile_loop W (i + 1) (escape (d # s) @ rst) (lit @ [c]) parts st
        = compile_loop W (i + 1 + length (escape (d # s))) rst ((lit @ [c]) @ d # s) parts st"
      using "3.IH"(3) n by blast
    ultimately show ?thesis using n e by auto
  qed
qed

subsection \<open>Names\<close>

lemma strip_any_ascii:
  assumes "33 \<le> code c" "code c < 127" "\<forall>w \<in> set ws. w \<noteq> [] \<and> \<not> (33 \<le> code (hd w) \<and> code (hd w) < 127)"
  shows "strip_any ws (c # s) = None"
  using assms(3)
proof (induction ws)
  case (Cons w ws)
  then have "\<not> is_prefix w (c # s)" using assms(1,2) by (cases w) auto
  then show ?case using Cons by simp
qed simp

lemma trim_plain:
  assumes "s \<noteq> []" "33 \<le> code (hd s)" "code (hd s) < 127" "33 \<le> code (last s)" "code (last s) < 127"
  shows "trim s = s"
proof -
  have a: "\<forall>w \<in> set ws_seqs. w \<noteq> [] \<and> \<not> (33 \<le> code (hd w) \<and> code (hd w) < 127)"
    "\<forall>w \<in> set (map rev ws_seqs). w \<noteq> [] \<and> \<not> (33 \<le> code (hd w) \<and> code (hd w) < 127)"
    by (simp_all add: ws_seqs_def code_def)
  have "strip_any ws_seqs s = None"
    using strip_any_ascii [OF assms(2,3) a(1), of "tl s"] assms(1) by simp
  then have 1: "trim_start s = s" by (simp add: trim_start_def trim_with.simps)
  obtain c t where ct: "rev s = c # t" using assms(1) by (cases "rev s") auto
  then have "c = last s" using assms(1) by (metis hd_rev list.sel(1))
  then have "strip_any (map rev ws_seqs) (c # t) = None"
    using strip_any_ascii [OF _ _ a(2), of c t] assms(4,5) by simp
  then have "strip_any (map rev ws_seqs) (rev s) = None" by (simp only: ct)
  then have "trim_end s = s" by (simp add: trim_end_def trim_with.simps)
  with 1 show ?thesis by (simp add: trim_def)
qed

lemma valid_utf8_ascii: "\<forall>c \<in> set s. code c < 128 \<Longrightarrow> valid_utf8 s"
proof (induction s)
  case Nil
  then show ?case by (simp add: valid_utf8.simps)
next
  case (Cons c s)
  then have "utf8_step (c # s) = (True, 1)" by (cases s) (simp_all add: seq_len_def)
  then show ?case using Cons by (simp add: valid_utf8.simps [of "c # s"])
qed

lemma find_double_close_fresh:
  "CHR ''}'' \<notin> set s \<Longrightarrow> find_double_close (s @ ''}}'' @ t) = Some (length s)"
proof (induction s)
  case (Cons c s)
  then show ?case by (cases s) auto
qed simp

lemma parse_var:
  assumes "plain_name n"
  shows "parse_expression W (''var:'' @ n) st =
     (case allocate n (co_vars st) of
        (r, Inl e) \<Rightarrow> (st\<lparr>co_vars := r\<rparr>, Inl (TooMany e))
      | (r, Inr slot) \<Rightarrow> (st\<lparr>co_vars := r\<rparr>, Inr (PVarRef slot)))"
proof -
  have n: "n \<noteq> []" "33 \<le> code (hd n)" "code (hd n) < 127" "33 \<le> code (last n)" "code (last n) < 127"
    using assms by (auto simp: plain_name_def)
  have t: "trim n = n" using trim_plain [OF n] .
  have v: "trim (''var:'' @ n) = ''var:'' @ n" "trim ''var'' = ''var''"
    using n by (intro trim_plain; simp add: code_def)+
  have "split_once (CHR '':'') (''var'' @ CHR '':'' # n) = Some (''var'', n)"
    by (rule split_once_fresh) simp
  then show ?thesis using n(1) t v by (simp add: parse_expression_def Let_def)
qed

lemma compile_expr:
  assumes "find_double_close t = Some n" "\<not> is_prefix ''{{'' t" "valid_utf8 (take n t)"
    and "parse_expression W (take n t) st = (st', Inr p)"
  shows "compile_loop W i (''{{'' @ t) lit parts st =
     compile_loop W (i + n + 4) (drop (n + 2) t) [] (flush_literal lit parts @ [p]) st'"
proof -
  have "drop (n + 4) (''{{'' @ t) = drop (n + 2) t" by (simp add: eval_nat_numeral)
  then show ?thesis using assms by (subst compile_loop.simps) simp
qed

lemma compile_var:
  assumes "plain_name n" "allocate n (co_vars st) = (r, Inr slot)"
  shows "compile_loop W i (seg_src (SegVar n) @ rst) lit parts st =
     compile_loop W (i + length n + 8) rst [] (flush_literal lit parts @ [PVarRef slot]) (st\<lparr>co_vars := r\<rparr>)"
proof -
  have n: "\<forall>c \<in> set n. code c < 128" "CHR ''}'' \<notin> set n"
    using assms(1) by (fastforce simp: plain_name_def)+
  have "\<forall>c \<in> set ''var:''. code c < 128" by (simp add: code_def)
  then have c: "CHR ''}'' \<notin> set (''var:'' @ n)" "\<forall>c \<in> set (''var:'' @ n). code c < 128"
    using n by auto
  have f: "find_double_close (''var:'' @ n @ ''}}'' @ rst) = Some (4 + length n)"
    using find_double_close_fresh [OF c(1), of rst] by simp
  have u: "valid_utf8 (''var:'' @ n)" using valid_utf8_ascii [OF c(2)] .
  have p: "parse_expression W (''var:'' @ n) st = (st\<lparr>co_vars := r\<rparr>, Inr (PVarRef slot))"
    using parse_var [OF assms(1), of W st] assms(2) by simp
  let ?t = "''var:'' @ n @ ''}}'' @ rst"
  have "take (4 + length n) ?t = ''var:'' @ n" "drop (4 + length n + 2) ?t = rst"
    by (simp_all add: eval_nat_numeral)
  then have "compile_loop W i (''{{'' @ ?t) lit parts st = compile_loop W (i + (4 + length n) + 4) rst []
      (flush_literal lit parts @ [PVarRef slot]) (st\<lparr>co_vars := r\<rparr>)"
    using compile_expr [OF f, of W st "st\<lparr>co_vars := r\<rparr>" "PVarRef slot" i lit parts] u p by simp
  moreover have "i + (4 + length n) + 4 = i + length n + 8" by simp
  ultimately show ?thesis by (simp only: seg_src.simps append_assoc append_Cons append_Nil)
qed

subsection \<open>Expanding what was scanned\<close>

definition text_part :: "part \<Rightarrow> bool" where
  "text_part p = (case p of PLiteral b \<Rightarrow> True | PVarRef s \<Rightarrow> True | _ \<Rightarrow> False)"

lemma text_part_simps [simp]: "text_part (PLiteral b)" "text_part (PVarRef s)"
  by (simp_all add: text_part_def)

fun part_text :: "bytes option list \<Rightarrow> part \<Rightarrow> bytes" where
  "part_text vars (PLiteral b) = b"
| "part_text vars (PVarRef s) = slot_value vars (unat s)"
| "part_text vars p = []"

lemma expand_text:
  assumes "list_all text_part ps"
  shows "fold (expand_part W) ps (out, x) = (out @ concat (map (part_text (ex_vars x)) ps), x)"
  using assms
proof (induction ps arbitrary: out)
  case (Cons p ps)
  then show ?case by (cases p) (auto simp: text_part_def slot_value_def split: option.splits)
qed simp

lemma coalesce_push_text:
  "concat (map (part_text vars) (coalesce_push qs p)) = concat (map (part_text vars) qs) @ part_text vars p"
  by (induction qs p rule: coalesce_push.induct) (auto split: part.splits)

lemma coalesce_push_parts:
  "list_all text_part qs \<Longrightarrow> text_part p \<Longrightarrow> list_all text_part (coalesce_push qs p)"
  by (induction qs p rule: coalesce_push.induct) (auto simp: text_part_def split: part.splits)

lemma coalesce_text:
  "concat (map (part_text vars) (foldl coalesce_push qs ps)) = concat (map (part_text vars) (qs @ ps))"
  by (induction ps arbitrary: qs) (simp_all add: coalesce_push_text)

lemma coalesce_parts:
  "list_all text_part qs \<Longrightarrow> list_all text_part ps \<Longrightarrow> list_all text_part (foldl coalesce_push qs ps)"
  by (induction ps arbitrary: qs) (simp_all add: coalesce_push_parts)

lemma flush_text:
  "concat (map (part_text vars) (flush_literal lit parts)) = concat (map (part_text vars) parts) @ lit"
  "list_all text_part parts \<Longrightarrow> list_all text_part (flush_literal lit parts)"
  by (simp_all add: flush_literal_def text_part_def)

lemma find_pos_slot:
  assumes "registry_ok r" "slot_name r s = Some n"
  shows "find_pos (\<lambda>m. m = n) (vr_names r) = Some (unat s)"
  using assms
  by (auto simp: find_pos_Some slot_name_def registry_ok_def nth_eq_iff_index_eq split: if_splits)

definition names_kept :: "var_registry \<Rightarrow> var_registry \<Rightarrow> bool" where
  "names_kept r r' = (registry_ok r' \<and> (\<forall>s n. slot_name r s = Some n \<longrightarrow> slot_name r' s = Some n))"

lemma compile_segs:
  assumes "segs_ok segs" "registry_ok (co_vars st)" "length (vr_names (co_vars st)) + seg_vars segs \<le> 256"
    and "list_all text_part parts"
  shows "\<exists>st' ps. compile_loop W i (concat (map seg_src segs)) lit parts st = (st', Inr ps)
    \<and> names_kept (co_vars st) (co_vars st') \<and> list_all text_part ps
    \<and> (\<forall>vars. concat (map (part_text vars) ps) =
         concat (map (part_text vars) parts) @ lit @ concat (map (seg_value (co_vars st') vars) segs))"
  using assms
proof (induction segs arbitrary: st parts lit i rule: segs_ok.induct)
  case 1
  have "compile_loop W i [] lit parts st = (st, Inr (flush_literal lit parts))"
    by (simp add: compile_loop.simps)
  then show ?case using 1 by (auto simp: names_kept_def flush_text)
next
  case (2 n ss)
  obtain r res where a: "allocate n (co_vars st) = (r, res)" by fastforce
  have n: "plain_name n" "segs_ok ss" using "2.prems"(1) by simp_all
  have lt: "length (vr_names (co_vars st)) < 256" using "2.prems"(3) by simp
  then obtain slot where slot: "res = Inr slot" using a by (cases rule: allocate_cases [OF a]) auto
  have len: "length (vr_names r) \<le> Suc (length (vr_names (co_vars st)))"
    using a by (cases rule: allocate_cases [OF a]) auto
  have r: "registry_ok r" "slot_name r slot = Some n"
    using allocate_ok [OF a "2.prems"(2)] allocate_name a slot "2.prems"(2) by auto
  let ?st = "st\<lparr>co_vars := r\<rparr>" and ?ps = "flush_literal lit parts @ [PVarRef slot]"
  have step: "compile_loop W i (concat (map seg_src (SegVar n # ss))) lit parts st =
      compile_loop W (i + length n + 8) (concat (map seg_src ss)) [] ?ps ?st"
    using compile_var [OF n(1), of st r slot W i "concat (map seg_src ss)" lit parts] a slot by simp
  have "\<exists>st' ps. compile_loop W (i + length n + 8) (concat (map seg_src ss)) [] ?ps ?st = (st', Inr ps)
    \<and> names_kept (co_vars ?st) (co_vars st') \<and> list_all text_part ps
    \<and> (\<forall>vars. concat (map (part_text vars) ps) =
         concat (map (part_text vars) ?ps) @ [] @ concat (map (seg_value (co_vars st') vars) ss))"
    using "2.prems"(3,4) r len n flush_text(2) [of parts lit]
    by (intro "2.IH") simp_all
  then obtain st' ps where st': "compile_loop W (i + length n + 8) (concat (map seg_src ss)) [] ?ps ?st = (st', Inr ps)"
    "names_kept r (co_vars st')" "list_all text_part ps"
    "\<forall>vars. concat (map (part_text vars) ps) =
         concat (map (part_text vars) ?ps) @ [] @ concat (map (seg_value (co_vars st') vars) ss)" by auto
  have "find_pos (\<lambda>m. m = n) (vr_names (co_vars st')) = Some (unat slot)"
    using st'(2) r(2) by (intro find_pos_slot) (auto simp: names_kept_def)
  moreover have "names_kept (co_vars st) (co_vars st')"
    using st'(2) allocate_keeps [OF a] by (auto simp: names_kept_def)
  ultimately show ?case using st' step by (intro exI [of _ st'] exI [of _ ps]) (simp add: flush_text)
next
  case (3 s ss)
  let ?rst = "concat (map seg_src ss)"
  have ss: "segs_ok ss" using "3.prems"(1) by simp
  show ?case
  proof (cases ss)
    case Nil
    have "compile_loop W i (escape s @ []) lit parts st = compile_loop W (i + length (escape s)) [] (lit @ s) parts st"
      by (rule scan_literal) simp_all
    also have "\<dots> = (st, Inr (flush_literal (lit @ s) parts))" by (simp add: compile_loop.simps)
    finally show ?thesis using Nil "3.prems" by (simp add: names_kept_def flush_text)
  next
    case (Cons x xs)
    then obtain n where n: "x = SegVar n" "\<not> ends_open s" using "3.prems"(1) by (cases x) auto
    have "?rst = [] \<or> hd ?rst = CHR ''{''" using Cons n by simp
    then have "compile_loop W i (concat (map seg_src (SegLit s # ss))) lit parts st
        = compile_loop W (i + length (escape s)) ?rst (lit @ s) parts st"
      using scan_literal [of ?rst s W i lit parts st] n(2) by simp
    moreover have "\<exists>st' ps. compile_loop W (i + length (escape s)) ?rst (lit @ s) parts st = (st', Inr ps)
      \<and> names_kept (co_vars st) (co_vars st') \<and> list_all text_part ps
      \<and> (\<forall>vars. concat (map (part_text vars) ps) =
         concat (map (part_text vars) parts) @ (lit @ s) @ concat (map (seg_value (co_vars st') vars) ss))"
      using "3.prems" ss by (intro "3.IH") simp_all
    ultimately show ?thesis by auto
  qed
qed

section \<open>Properties\<close>

subsection \<open>Expansion only appends\<close>

lemma write_rand_hex_append:
  "write_rand_hex W n r (a @ b) = apsnd ((@) a) (write_rand_hex W n r b)"
proof (induction W n r b rule: write_rand_hex.induct)
  case (1 W n r b)
  then show ?case
    by (subst (1 2) write_rand_hex.simps) (auto simp: Let_def split: prod.splits)
qed

lemma write_rand_str_append:
  "write_rand_str W n r (a @ b) = apsnd ((@) a) (write_rand_str W n r b)"
  by (induction W n r b rule: write_rand_str.induct) (auto split: prod.splits)

lemma write_u_padded_append: "write_u_padded n w (a @ b) = a @ write_u_padded n w b"
  by (simp add: write_u_padded_def Let_def)

lemma write_iso8601_append: "write_iso8601_utc n (a @ b) = a @ write_iso8601_utc n b"
  by (simp add: write_iso8601_utc_def Let_def write_u_padded_append split: prod.splits)

lemma expand_part_append:
  "expand_part W p (a @ b, x) = apfst ((@) a) (expand_part W p (b, x))"
  by (cases p)
     (auto simp: write_u128_def write_i64_def write_iso8601_append write_rand_hex_append
        write_rand_str_append split: prod.splits option.splits)

lemma expand_into_append:
  "expand_into W t (a @ b) x = apfst ((@) a) (expand_into W t b x)"
proof -
  have "fold (expand_part W) ps (a @ b, x) = apfst ((@) a) (fold (expand_part W) ps (b, x))" for ps
  proof (induction ps arbitrary: b x)
    case (Cons p ps)
    obtain b' x' where "expand_part W p (b, x) = (b', x')" by fastforce
    with Cons show ?case by (simp add: expand_part_append)
  qed simp
  then show ?thesis by (simp add: expand_into_def)
qed

lemma expand_into_Nil:
  "expand_into W t out x = (out @ fst (expand_into W t [] x), snd (expand_into W t [] x))"
  using expand_into_append [of W t out "[]" x] by (cases "expand_into W t [] x") simp

text \<open>
  Property C10. A template means what it says: a source made of escaped text and variable references,
  with at most 256 names in all, compiles; and expanding the result appends the text with each
  reference replaced by the value its name has in the context (nothing when it is unset), whatever
  the clock, the generator or the environment do, and without changing the context.
\<close>

theorem template_meaning:
  assumes "segs_ok segs" "registry_ok (co_vars st)" "length (vr_names (co_vars st)) + seg_vars segs \<le> 256"
  shows "\<exists>st' t. compile_template W (concat (map seg_src segs)) st = (st', Inr t)
    \<and> registry_ok (co_vars st')
    \<and> (\<forall>out x. expand_into W t out x = (out @ concat (map (seg_value (co_vars st') (ex_vars x)) segs), x))"
proof -
  obtain st' ps where c: "compile_loop W 0 (concat (map seg_src segs)) [] [] st = (st', Inr ps)"
    "names_kept (co_vars st) (co_vars st')" "list_all text_part ps"
    "\<forall>vars. concat (map (part_text vars) ps) = concat (map (seg_value (co_vars st') vars) segs)"
    using compile_segs [OF assms, of "[]" W 0 "[]"] by auto
  let ?t = "\<lparr>tp_parts = coalesce_literals ps, tp_estimated_size = sum_list (map part_size (coalesce_literals ps))\<rparr>"
  have "compile_template W (concat (map seg_src segs)) st = (st', Inr ?t)"
    using c(1) by (simp add: compile_template_def Let_def)
  moreover have "registry_ok (co_vars st')" using c(2) by (simp add: names_kept_def)
  moreover have "expand_into W ?t out x = (out @ concat (map (seg_value (co_vars st') (ex_vars x)) segs), x)" for out x
    using expand_text [OF coalesce_parts [OF _ c(3), of "[]"], of W out x] coalesce_text [of "ex_vars x" "[]" ps] c(4)
    by (simp add: expand_into_def coalesce_literals_def)
  ultimately show ?thesis by blast
qed

definition demo_world :: "nat world" where
  "demo_world = \<lparr>w_env = (\<lambda>_. None), w_read = (\<lambda>_. Inl ''no file''), w_uuid7 = (\<lambda>_. ''7''), w_uuid4 = (\<lambda>_. ''4''),
     w_now_ns = (\<lambda>n. n), w_gen_u64 = (\<lambda>r. (word_of_nat r, Suc r)), w_gen_range = (\<lambda>a b r. (a, Suc r))\<rparr>"

lemma template_meaning_witness:
  "\<exists>st' t. compile_template demo_world ''{{{{a{{var:x}}}'' \<lparr>co_vars = registry_new, co_cursors = 0\<rparr> = (st', Inr t)
    \<and> registry_ok (co_vars st')
    \<and> (\<forall>out x. expand_into demo_world t out x = (out @ concat (map (seg_value (co_vars st') (ex_vars x))
         [SegLit ''{{a'', SegVar ''x'', SegLit [CHR ''}'']]), x))"
  using template_meaning [of "[SegLit ''{{a'', SegVar ''x'', SegLit [CHR ''}'']]" "\<lparr>co_vars = registry_new, co_cursors = 0\<rparr>" demo_world]
  by (simp add: registry_ok_def registry_new_def plain_name_def code_def)

text \<open>
  Numbers are written so that they read back: \<open>write_i64\<close> of every \<open>i64\<close>, its minimum
  included, parses to the same number, and \<open>write_u128\<close> of every \<open>u64\<close> does as well.
\<close>

lemma write_numbers_roundtrip:
  assumes "- (2 ^ 63) \<le> n" "n < 2 ^ 63" "m < 2 ^ 64"
  shows "parse_i64 (write_i64 n []) = Some n \<and> parse_uint 10 (2 ^ 64 - 1) (write_u128 m []) = Some m"
  using write_i64_parse [OF assms(1,2)] parse_uint_dec [of m "2 ^ 64 - 1"] assms(3)
  by (simp add: write_u128_dec)

end
