(* ===== verification/Plans.thy ===== *)
theory Plans
  imports Template
begin

text \<open>
  The data model of a benchmark, \<open>zerobench-core/src/plan.rs\<close>, and the packers of
  \<open>plan_builder.rs\<close>: plans, scenarios, steps of every protocol, request plans with extractions and
  assertions, and the protocol of a scenario. An \<open>f64\<close> is carried as its bit pattern; the rate
  arithmetic on it (\<open>RateProfile::scale\<close>) and the serde forms are not modelled.
\<close>

section \<open>Requests\<close>

datatype body_source = BodyStatic bytes | BodyTemplate template

datatype extraction = ExtractHeader string var_slot | ExtractStatusCode var_slot

datatype assertion = StatusEq u16 | StatusIn "u16 list" | LatencyUnder duration

type_synonym headers = "(template \<times> template) list"

record request_plan =
  rq_method :: string
  rq_url :: template
  rq_headers :: headers
  rq_body :: "body_source option"
  rq_extract :: "extraction list"
  rq_checks :: "assertion list"
  rq_expect_streaming :: bool

definition request_get :: "template \<Rightarrow> request_plan" where
  "request_get url = \<lparr>rq_method = ''GET'', rq_url = url, rq_headers = [], rq_body = None,
     rq_extract = [], rq_checks = [], rq_expect_streaming = False\<rparr>"

definition request_is_static :: "request_plan \<Rightarrow> bool" where
  "request_is_static r =
     (is_static (rq_url r)
      \<and> list_all (\<lambda>(name, val). is_static name \<and> is_static val) (rq_headers r)
      \<and> (case rq_body r of Some (BodyTemplate t) \<Rightarrow> is_static t | _ \<Rightarrow> True))"

section \<open>Steps\<close>

datatype compare_schedule = Interleaved | Serial

datatype knee_criterion = P99Ratio f64 | ErrorRate f64 duration

datatype mode =
    Probe
  | Calibrate
  | Measure
  | Soak
  | Curve f64 f64 duration knee_criterion
  | Compare compare_schedule
  | Diff

datatype rate_profile =
    Constant f64
  | Ramp f64 f64 duration
  | Stepped "(duration \<times> f64) list"
  | Saturate nat

record sse_hold_plan =
  shp_url :: template
  shp_headers :: headers
  shp_subscribers :: u32
  shp_hold_for :: duration
  shp_reconnect :: bool

datatype trigger_spec = HttpPost template "body_source option" | DedicatedWsConnection template

datatype fanout_mode = Timestamp string | TriggerRtt

datatype heartbeat_frame = HbPing | HbTextApp

datatype correlate_strategy = PingPong | MonotonicIdPrepend | PayloadSubstring string | FirstTextFrame

record sse_fanout_plan =
  sfp_subscribers :: sse_hold_plan
  sfp_trigger :: trigger_spec
  sfp_mode :: fanout_mode

record sse_storm_plan =
  ssp_subscribers :: sse_hold_plan
  ssp_kill_rate_per_s :: f64
  ssp_verify_last_event_id :: bool

record ws_hold_plan =
  whp_url :: template
  whp_headers :: headers
  whp_connections :: u32
  whp_heartbeat :: duration
  whp_heartbeat_frame :: heartbeat_frame
  whp_hold_for :: duration

record ws_echo_plan =
  wep_url :: template
  wep_headers :: headers
  wep_connections :: u32
  wep_msg_rate_per_conn :: f64
  wep_correlate :: correlate_strategy
  wep_payload :: template

record ws_push_plan =
  wpp_url :: template
  wpp_headers :: headers
  wpp_connections :: u32
  wpp_expected_rate_per_conn :: f64
  wpp_hold_for :: duration

record ws_fanout_plan =
  wfp_subscribers :: ws_hold_plan
  wfp_trigger :: trigger_spec
  wfp_mode :: fanout_mode

datatype step =
    Request request_plan
  | HttpColdConnect request_plan
  | SseHold sse_hold_plan
  | SseFanout sse_fanout_plan
  | SseReconnectStorm sse_storm_plan
  | WsHold ws_hold_plan
  | WsEchoRtt ws_echo_plan
  | WsServerPushRtt ws_push_plan
  | WsFanout ws_fanout_plan
  | Pause duration
  | PauseRandom duration duration

record scenario =
  sn_name :: string
  sn_rate :: rate_profile
  sn_steps :: "step list"

definition scenario_new :: "string \<Rightarrow> step list \<Rightarrow> scenario" where
  "scenario_new name steps = \<lparr>sn_name = name, sn_rate = Saturate 50, sn_steps = steps\<rparr>"

datatype protocol = Http | Sse | Ws

fun step_protocol :: "step \<Rightarrow> protocol option" where
  "step_protocol (Request _) = Some Http"
| "step_protocol (HttpColdConnect _) = Some Http"
| "step_protocol (SseHold _) = Some Sse"
| "step_protocol (SseFanout _) = Some Sse"
| "step_protocol (SseReconnectStorm _) = Some Sse"
| "step_protocol (WsHold _) = Some Ws"
| "step_protocol (WsEchoRtt _) = Some Ws"
| "step_protocol (WsServerPushRtt _) = Some Ws"
| "step_protocol (WsFanout _) = Some Ws"
| "step_protocol (Pause _) = None"
| "step_protocol (PauseRandom _ _) = None"

fun steps_protocol :: "step list \<Rightarrow> protocol" where
  "steps_protocol [] = Http"
| "steps_protocol (s # ss) = (case step_protocol s of Some p \<Rightarrow> p | None \<Rightarrow> steps_protocol ss)"

definition scenario_protocol :: "scenario \<Rightarrow> protocol" where
  "scenario_protocol s = steps_protocol (sn_steps s)"

section \<open>Plans\<close>

record plan =
  pl_scenarios :: "scenario list"
  pl_vars :: var_registry
  pl_duration :: duration
  pl_warmup :: duration
  pl_cooldown :: duration
  pl_runs :: u32
  pl_threads :: nat
  pl_mode :: mode
  pl_name :: string

definition secs :: "nat \<Rightarrow> duration" where "secs n = n * 1000000000"

definition plan_new :: plan where
  "plan_new = \<lparr>pl_scenarios = [], pl_vars = registry_new, pl_duration = secs 30, pl_warmup = 0,
     pl_cooldown = 0, pl_runs = 1, pl_threads = 1, pl_mode = Measure, pl_name = []\<rparr>"

text \<open>The plan builder has the fields of a plan, and starts with the same values.\<close>

record plan_builder =
  pb_scenarios :: "scenario list"
  pb_vars :: var_registry
  pb_name :: string
  pb_duration :: duration
  pb_warmup :: duration
  pb_cooldown :: duration
  pb_runs :: u32
  pb_threads :: nat
  pb_mode :: mode

definition builder_new :: plan_builder where
  "builder_new = \<lparr>pb_scenarios = [], pb_vars = registry_new, pb_name = [], pb_duration = secs 30,
     pb_warmup = 0, pb_cooldown = 0, pb_runs = 1, pb_threads = 1, pb_mode = Measure\<rparr>"

definition push_scenario :: "scenario \<Rightarrow> plan_builder \<Rightarrow> plan_builder" where
  "push_scenario s b = b\<lparr>pb_scenarios := pb_scenarios b @ [s]\<rparr>"

definition builder_finalize :: "plan_builder \<Rightarrow> plan" where
  "builder_finalize b = \<lparr>pl_scenarios = pb_scenarios b, pl_vars = pb_vars b, pl_duration = pb_duration b,
     pl_warmup = pb_warmup b, pl_cooldown = pb_cooldown b, pl_runs = pb_runs b,
     pl_threads = pb_threads b, pl_mode = pb_mode b, pl_name = pb_name b\<rparr>"

text \<open>\<open>n.max(1) as usize\<close>.\<close>

definition at_least_one :: "u32 \<Rightarrow> nat" where "at_least_one n = max (unat n) 1"

definition scenario_http_request :: "string \<Rightarrow> rate_profile \<Rightarrow> request_plan \<Rightarrow> scenario" where
  "scenario_http_request name rate request = \<lparr>sn_name = name, sn_rate = rate, sn_steps = [Request request]\<rparr>"

definition scenario_http_cold_connect :: "string \<Rightarrow> rate_profile \<Rightarrow> request_plan \<Rightarrow> scenario" where
  "scenario_http_cold_connect name rate request =
     \<lparr>sn_name = name, sn_rate = rate, sn_steps = [HttpColdConnect request]\<rparr>"

definition scenario_sse_hold ::
  "string \<Rightarrow> u32 \<Rightarrow> duration \<Rightarrow> template \<Rightarrow> headers \<Rightarrow> bool \<Rightarrow> scenario" where
  "scenario_sse_hold name subscribers hold_for url hs reconnect =
     \<lparr>sn_name = name, sn_rate = Saturate (at_least_one subscribers),
      sn_steps = [SseHold \<lparr>shp_url = url, shp_headers = hs, shp_subscribers = subscribers,
                   shp_hold_for = hold_for, shp_reconnect = reconnect\<rparr>]\<rparr>"

definition scenario_sse_fanout ::
  "string \<Rightarrow> u32 \<Rightarrow> duration \<Rightarrow> template \<Rightarrow> headers \<Rightarrow> bool \<Rightarrow> trigger_spec \<Rightarrow> fanout_mode \<Rightarrow> scenario" where
  "scenario_sse_fanout name subscribers hold_for url hs reconnect trigger md =
     \<lparr>sn_name = name, sn_rate = Saturate (at_least_one subscribers),
      sn_steps = [SseFanout \<lparr>sfp_subscribers = \<lparr>shp_url = url, shp_headers = hs,
                     shp_subscribers = subscribers, shp_hold_for = hold_for, shp_reconnect = reconnect\<rparr>,
                   sfp_trigger = trigger, sfp_mode = md\<rparr>]\<rparr>"

definition scenario_sse_reconnect_storm ::
  "string \<Rightarrow> u32 \<Rightarrow> duration \<Rightarrow> template \<Rightarrow> headers \<Rightarrow> f64 \<Rightarrow> bool \<Rightarrow> scenario" where
  "scenario_sse_reconnect_storm name subscribers hold_for url hs kill_rate verify =
     \<lparr>sn_name = name, sn_rate = Saturate (at_least_one subscribers),
      sn_steps = [SseReconnectStorm \<lparr>ssp_subscribers = \<lparr>shp_url = url, shp_headers = hs,
                     shp_subscribers = subscribers, shp_hold_for = hold_for, shp_reconnect = True\<rparr>,
                   ssp_kill_rate_per_s = kill_rate, ssp_verify_last_event_id = verify\<rparr>]\<rparr>"

definition scenario_ws_echo_rtt ::
  "string \<Rightarrow> rate_profile \<Rightarrow> template \<Rightarrow> headers \<Rightarrow> u32 \<Rightarrow> f64 \<Rightarrow> template \<Rightarrow> correlate_strategy \<Rightarrow> scenario" where
  "scenario_ws_echo_rtt name rate url hs connections msg_rate payload correlate =
     \<lparr>sn_name = name, sn_rate = rate,
      sn_steps = [WsEchoRtt \<lparr>wep_url = url, wep_headers = hs, wep_connections = connections,
                   wep_msg_rate_per_conn = msg_rate, wep_correlate = correlate, wep_payload = payload\<rparr>]\<rparr>"

definition scenario_ws_hold ::
  "string \<Rightarrow> u32 \<Rightarrow> duration \<Rightarrow> template \<Rightarrow> headers \<Rightarrow> duration \<Rightarrow> heartbeat_frame \<Rightarrow> scenario" where
  "scenario_ws_hold name connections hold_for url hs heartbeat hb_frame =
     \<lparr>sn_name = name, sn_rate = Saturate (at_least_one connections),
      sn_steps = [WsHold \<lparr>whp_url = url, whp_headers = hs, whp_connections = connections,
                   whp_heartbeat = heartbeat, whp_heartbeat_frame = hb_frame, whp_hold_for = hold_for\<rparr>]\<rparr>"

definition scenario_ws_server_push_rtt ::
  "string \<Rightarrow> u32 \<Rightarrow> duration \<Rightarrow> template \<Rightarrow> headers \<Rightarrow> f64 \<Rightarrow> scenario" where
  "scenario_ws_server_push_rtt name connections hold_for url hs rate =
     \<lparr>sn_name = name, sn_rate = Saturate (at_least_one connections),
      sn_steps = [WsServerPushRtt \<lparr>wpp_url = url, wpp_headers = hs, wpp_connections = connections,
                   wpp_expected_rate_per_conn = rate, wpp_hold_for = hold_for\<rparr>]\<rparr>"

definition scenario_ws_fanout ::
  "string \<Rightarrow> u32 \<Rightarrow> duration \<Rightarrow> template \<Rightarrow> headers \<Rightarrow> duration \<Rightarrow> heartbeat_frame \<Rightarrow> trigger_spec
     \<Rightarrow> fanout_mode \<Rightarrow> scenario" where
  "scenario_ws_fanout name connections hold_for url hs heartbeat hb_frame trigger md =
     \<lparr>sn_name = name, sn_rate = Saturate (at_least_one connections),
      sn_steps = [WsFanout \<lparr>wfp_subscribers = \<lparr>whp_url = url, whp_headers = hs,
                     whp_connections = connections, whp_heartbeat = heartbeat,
                     whp_heartbeat_frame = hb_frame, whp_hold_for = hold_for\<rparr>,
                   wfp_trigger = trigger, wfp_mode = md\<rparr>]\<rparr>"

section \<open>Lemmas\<close>

lemma steps_protocol_pauses:
  "\<forall>s \<in> set ss. step_protocol s = None \<Longrightarrow> steps_protocol (ss @ rest) = steps_protocol rest"
  by (induction ss) simp_all

lemma steps_protocol_cases:
  obtains (wire) ps s rest where "ss = ps @ s # rest" "\<forall>p \<in> set ps. step_protocol p = None"
      "step_protocol s = Some (steps_protocol ss)"
    | (none) "\<forall>s \<in> set ss. step_protocol s = None" "steps_protocol ss = Http"
proof (induction ss arbitrary: thesis)
  case Nil
  then show ?case by simp
next
  case (Cons a ss)
  show ?case
  proof (cases "step_protocol a")
    case (Some p)
    then show ?thesis using Cons.prems(1) [of "[]" a ss] by simp
  next
    case None
    show ?thesis
    proof (rule Cons.IH)
      fix ps s rest
      assume "ss = ps @ s # rest" "\<forall>p \<in> set ps. step_protocol p = None" "step_protocol s = Some (steps_protocol ss)"
      then show thesis using Cons.prems(1) [of "a # ps" s rest] None by simp
    next
      assume "\<forall>s \<in> set ss. step_protocol s = None" "steps_protocol ss = Http"
      then show thesis using Cons.prems(2) None by simp
    qed
  qed
qed

lemma builder_default: "builder_finalize builder_new = plan_new"
  by (simp add: builder_finalize_def builder_new_def plan_new_def)

end
