(* ===== verification/Stats.thy ===== *)
theory Stats
  imports Prelude "HOL-Library.Multiset"
begin

text \<open>
  The statistics of a run, \<open>zerobench-core/src/stats.rs\<close> and \<open>histogram.rs\<close>: error counters,
  per-scenario and per-task statistics, their merge, and the final summary. A \<open>u64\<close> counter is a
  \<open>64 word\<close>, so \<open>+\<close> wraps as it does in a release build. The HDR histogram is another package's:
  its operations are the argument \<open>H\<close>, and \<open>hist_ok\<close> names what the code relies on.
\<close>

section \<open>Histograms\<close>

definition HIST_LO_NS :: nat where "HIST_LO_NS = 1"
definition HIST_HI_NS :: nat where "HIST_HI_NS = 60000000000"

text \<open>\<open>record\<close> leaves the histogram as it is when it fails, and the code ignores the failure.\<close>

record 'h hist_ops =
  h_new :: 'h
  h_record :: "'h \<Rightarrow> nat \<Rightarrow> 'h"
  h_add :: "'h \<Rightarrow> 'h \<Rightarrow> 'h"

definition hist_ok :: "'h hist_ops \<Rightarrow> ('h \<Rightarrow> nat) \<Rightarrow> bool" where
  "hist_ok H len = (len (h_new H) = 0
     \<and> (\<forall>h v. HIST_LO_NS \<le> v \<and> v \<le> HIST_HI_NS \<longrightarrow> len (h_record H h v) = Suc (len h))
     \<and> (\<forall>a b. len (h_add H a b) = len a + len b))"

definition new_hist :: "'h hist_ops \<Rightarrow> 'h" where "new_hist H = h_new H"

definition duration_to_hist_ns :: "duration \<Rightarrow> nat" where
  "duration_to_hist_ns d =
     (if d < HIST_LO_NS then HIST_LO_NS else if HIST_HI_NS < d then HIST_HI_NS else d)"

text \<open>The instance that keeps every sample.\<close>

definition sample_hist :: "nat list hist_ops" where
  "sample_hist = \<lparr>h_new = [], h_record = (\<lambda>h v. v # h), h_add = (\<lambda>a b. b @ a)\<rparr>"

lemma sample_hist_ok: "hist_ok sample_hist length"
  by (simp add: hist_ok_def sample_hist_def)

section \<open>Error counters\<close>

datatype error_kind =
  EkConnect | EkRead | EkWrite | EkTimeout | EkKeepup | EkStatus4xx | EkStatus5xx | EkAssertionFailed

record error_counters =
  ec_connect :: u64
  ec_read :: u64
  ec_write :: u64
  ec_timeout :: u64
  ec_keepup :: u64
  ec_status_4xx :: u64
  ec_status_5xx :: u64
  ec_assertion_failed :: u64

definition ec_default :: error_counters where
  "ec_default = \<lparr>ec_connect = 0, ec_read = 0, ec_write = 0, ec_timeout = 0, ec_keepup = 0,
     ec_status_4xx = 0, ec_status_5xx = 0, ec_assertion_failed = 0\<rparr>"

definition ec_merge :: "error_counters \<Rightarrow> error_counters \<Rightarrow> error_counters" where
  "ec_merge a b =
     \<lparr>ec_connect = ec_connect a + ec_connect b, ec_read = ec_read a + ec_read b,
      ec_write = ec_write a + ec_write b, ec_timeout = ec_timeout a + ec_timeout b,
      ec_keepup = ec_keepup a + ec_keepup b, ec_status_4xx = ec_status_4xx a + ec_status_4xx b,
      ec_status_5xx = ec_status_5xx a + ec_status_5xx b,
      ec_assertion_failed = ec_assertion_failed a + ec_assertion_failed b\<rparr>"

definition ec_hard_total :: "error_counters \<Rightarrow> u64" where
  "ec_hard_total e = ec_connect e + ec_read e + ec_write e + ec_timeout e + ec_keepup e"

definition ec_soft_total :: "error_counters \<Rightarrow> u64" where
  "ec_soft_total e = ec_status_4xx e + ec_status_5xx e + ec_assertion_failed e"

definition ec_total :: "error_counters \<Rightarrow> u64" where
  "ec_total e = ec_hard_total e + ec_soft_total e"

fun ec_incr :: "error_kind \<Rightarrow> error_counters \<Rightarrow> error_counters" where
  "ec_incr EkConnect e = e\<lparr>ec_connect := ec_connect e + 1\<rparr>"
| "ec_incr EkRead e = e\<lparr>ec_read := ec_read e + 1\<rparr>"
| "ec_incr EkWrite e = e\<lparr>ec_write := ec_write e + 1\<rparr>"
| "ec_incr EkTimeout e = e\<lparr>ec_timeout := ec_timeout e + 1\<rparr>"
| "ec_incr EkKeepup e = e\<lparr>ec_keepup := ec_keepup e + 1\<rparr>"
| "ec_incr EkStatus4xx e = e\<lparr>ec_status_4xx := ec_status_4xx e + 1\<rparr>"
| "ec_incr EkStatus5xx e = e\<lparr>ec_status_5xx := ec_status_5xx e + 1\<rparr>"
| "ec_incr EkAssertionFailed e = e\<lparr>ec_assertion_failed := ec_assertion_failed e + 1\<rparr>"

section \<open>Scenario statistics\<close>

record 'h sse_extras =
  se_ttfb :: 'h
  se_chunk_gap :: 'h
  se_chunks :: u64
  se_streams_completed :: u64
  se_bytes_received :: u64
  se_broadcast_rtt :: 'h

definition sse_extras_default :: "'h hist_ops \<Rightarrow> 'h sse_extras" where
  "sse_extras_default H =
     \<lparr>se_ttfb = new_hist H, se_chunk_gap = new_hist H, se_chunks = 0, se_streams_completed = 0,
      se_bytes_received = 0, se_broadcast_rtt = new_hist H\<rparr>"

definition sse_extras_merge :: "'h hist_ops \<Rightarrow> 'h sse_extras \<Rightarrow> 'h sse_extras \<Rightarrow> 'h sse_extras" where
  "sse_extras_merge H a b =
     \<lparr>se_ttfb = h_add H (se_ttfb a) (se_ttfb b), se_chunk_gap = h_add H (se_chunk_gap a) (se_chunk_gap b),
      se_chunks = se_chunks a + se_chunks b,
      se_streams_completed = se_streams_completed a + se_streams_completed b,
      se_bytes_received = se_bytes_received a + se_bytes_received b,
      se_broadcast_rtt = h_add H (se_broadcast_rtt a) (se_broadcast_rtt b)\<rparr>"

record 'h ws_extras =
  we_handshake :: 'h
  we_rtt :: 'h
  we_messages_sent :: u64
  we_messages_recv :: u64
  we_bytes_sent :: u64
  we_bytes_recv :: u64
  we_broadcast_rtt :: 'h

definition ws_extras_default :: "'h hist_ops \<Rightarrow> 'h ws_extras" where
  "ws_extras_default H =
     \<lparr>we_handshake = new_hist H, we_rtt = new_hist H, we_messages_sent = 0, we_messages_recv = 0,
      we_bytes_sent = 0, we_bytes_recv = 0, we_broadcast_rtt = new_hist H\<rparr>"

definition ws_extras_merge :: "'h hist_ops \<Rightarrow> 'h ws_extras \<Rightarrow> 'h ws_extras \<Rightarrow> 'h ws_extras" where
  "ws_extras_merge H a b =
     \<lparr>we_handshake = h_add H (we_handshake a) (we_handshake b), we_rtt = h_add H (we_rtt a) (we_rtt b),
      we_messages_sent = we_messages_sent a + we_messages_sent b,
      we_messages_recv = we_messages_recv a + we_messages_recv b,
      we_bytes_sent = we_bytes_sent a + we_bytes_sent b,
      we_bytes_recv = we_bytes_recv a + we_bytes_recv b,
      we_broadcast_rtt = h_add H (we_broadcast_rtt a) (we_broadcast_rtt b)\<rparr>"

record 'h scenario_stats =
  sc_scenario_id :: u16
  sc_requests :: u64
  sc_latency :: 'h
  sc_errors :: error_counters
  sc_sse :: "'h sse_extras option"
  sc_ws :: "'h ws_extras option"

definition scenario_stats_new :: "'h hist_ops \<Rightarrow> u16 \<Rightarrow> 'h scenario_stats" where
  "scenario_stats_new H sid =
     \<lparr>sc_scenario_id = sid, sc_requests = 0, sc_latency = new_hist H, sc_errors = ec_default,
      sc_sse = None, sc_ws = None\<rparr>"

text \<open>\<open>sse_mut\<close> and \<open>ws_mut\<close>: the extras, created on demand.\<close>

definition sse_mut :: "'h hist_ops \<Rightarrow> 'h scenario_stats \<Rightarrow> 'h sse_extras" where
  "sse_mut H s = (case sc_sse s of Some x \<Rightarrow> x | None \<Rightarrow> sse_extras_default H)"

definition ws_mut :: "'h hist_ops \<Rightarrow> 'h scenario_stats \<Rightarrow> 'h ws_extras" where
  "ws_mut H s = (case sc_ws s of Some x \<Rightarrow> x | None \<Rightarrow> ws_extras_default H)"

definition scenario_merge :: "'h hist_ops \<Rightarrow> 'h scenario_stats \<Rightarrow> 'h scenario_stats \<Rightarrow> 'h scenario_stats" where
  "scenario_merge H s other =
     s\<lparr>sc_requests := sc_requests s + sc_requests other,
       sc_latency := h_add H (sc_latency s) (sc_latency other),
       sc_errors := ec_merge (sc_errors s) (sc_errors other),
       sc_sse := (case sc_sse other of None \<Rightarrow> sc_sse s
                  | Some x \<Rightarrow> Some (sse_extras_merge H (sse_mut H s) x)),
       sc_ws := (case sc_ws other of None \<Rightarrow> sc_ws s
                 | Some x \<Rightarrow> Some (ws_extras_merge H (ws_mut H s) x))\<rparr>"

section \<open>Task statistics\<close>

record 'h task_stats =
  ts_latency :: 'h
  ts_ttfb :: 'h
  ts_requests :: u64
  ts_bytes_sent :: u64
  ts_bytes_recv :: u64
  ts_errors :: error_counters
  ts_per_scenario :: "'h scenario_stats list"

definition fresh_scenarios :: "'h hist_ops \<Rightarrow> nat \<Rightarrow> 'h scenario_stats list" where
  "fresh_scenarios H n = map (\<lambda>i. scenario_stats_new H (word_of_nat i)) [0..<n]"

definition task_stats_new :: "'h hist_ops \<Rightarrow> nat \<Rightarrow> 'h task_stats" where
  "task_stats_new H n =
     \<lparr>ts_latency = new_hist H, ts_ttfb = new_hist H, ts_requests = 0, ts_bytes_sent = 0,
      ts_bytes_recv = 0, ts_errors = ec_default, ts_per_scenario = fresh_scenarios H n\<rparr>"

text \<open>\<open>if let Some(x) = xs.get_mut(i)\<close>: out of range nothing happens.\<close>

definition update_at :: "nat \<Rightarrow> ('a \<Rightarrow> 'a) \<Rightarrow> 'a list \<Rightarrow> 'a list" where
  "update_at i f xs = (if i < length xs then xs[i := f (xs ! i)] else xs)"

definition task_record ::
  "'h hist_ops \<Rightarrow> u16 \<Rightarrow> duration \<Rightarrow> duration \<Rightarrow> u64 \<Rightarrow> u64 \<Rightarrow> 'h task_stats \<Rightarrow> 'h task_stats" where
  "task_record H sid latency ttfb bytes_sent bytes_recv t =
     (let lat_ns = duration_to_hist_ns latency; ttfb_ns = duration_to_hist_ns ttfb in
      t\<lparr>ts_latency := h_record H (ts_latency t) lat_ns,
        ts_ttfb := h_record H (ts_ttfb t) ttfb_ns,
        ts_requests := ts_requests t + 1,
        ts_bytes_sent := ts_bytes_sent t + bytes_sent,
        ts_bytes_recv := ts_bytes_recv t + bytes_recv,
        ts_per_scenario := update_at (unat sid)
          (\<lambda>s. s\<lparr>sc_requests := sc_requests s + 1, sc_latency := h_record H (sc_latency s) lat_ns\<rparr>)
          (ts_per_scenario t)\<rparr>)"

definition task_record_error :: "u16 \<Rightarrow> error_kind \<Rightarrow> 'h task_stats \<Rightarrow> 'h task_stats" where
  "task_record_error sid kind t =
     t\<lparr>ts_errors := ec_incr kind (ts_errors t),
       ts_per_scenario := update_at (unat sid)
         (\<lambda>s. s\<lparr>sc_errors := ec_incr kind (sc_errors s)\<rparr>) (ts_per_scenario t)\<rparr>"

text \<open>The loop over the other side's scenarios; those beyond the end of ours are dropped.\<close>

fun merge_scenarios :: "'h hist_ops \<Rightarrow> 'h scenario_stats list \<Rightarrow> 'h scenario_stats list \<Rightarrow> 'h scenario_stats list" where
  "merge_scenarios H (d # ds) (s # ss) = scenario_merge H d s # merge_scenarios H ds ss"
| "merge_scenarios H ds [] = ds"
| "merge_scenarios H [] ss = []"

definition task_merge :: "'h hist_ops \<Rightarrow> 'h task_stats \<Rightarrow> 'h task_stats \<Rightarrow> 'h task_stats" where
  "task_merge H t other =
     t\<lparr>ts_latency := h_add H (ts_latency t) (ts_latency other),
       ts_ttfb := h_add H (ts_ttfb t) (ts_ttfb other),
       ts_requests := ts_requests t + ts_requests other,
       ts_bytes_sent := ts_bytes_sent t + ts_bytes_sent other,
       ts_bytes_recv := ts_bytes_recv t + ts_bytes_recv other,
       ts_errors := ec_merge (ts_errors t) (ts_errors other),
       ts_per_scenario := merge_scenarios H (ts_per_scenario t) (ts_per_scenario other)\<rparr>"

section \<open>The summary\<close>

text \<open>\<open>Summary\<close> has the fields of a task and the measured duration.\<close>

record 'h summary =
  sm_stats :: "'h task_stats"
  sm_duration :: duration

definition summary_merge :: "'h hist_ops \<Rightarrow> 'h task_stats list \<Rightarrow> duration \<Rightarrow> 'h summary" where
  "summary_merge H stats duration =
     (let num_scenarios = (case stats of [] \<Rightarrow> 0 | s # _ \<Rightarrow> length (ts_per_scenario s)) in
      \<lparr>sm_stats = foldl (task_merge H) (task_stats_new H num_scenarios) stats, sm_duration = duration\<rparr>)"

section \<open>Accumulators\<close>

lemma sum_list_perm:
  fixes f :: "'a \<Rightarrow> 'n :: comm_monoid_add"
  assumes "mset xs = mset ys"
  shows "sum_list (map f xs) = sum_list (map f ys)"
proof -
  have "sum_mset (image_mset f (mset xs)) = sum_mset (image_mset f (mset ys))" using assms by simp
  then show ?thesis by (metis mset_map sum_mset_sum_list)
qed

text \<open>
  The contract of every counter of the statistics: merging adds it up. A client may then merge any
  number of parts in any order.
\<close>

locale accumulator =
  fixes merge :: "'s \<Rightarrow> 's \<Rightarrow> 's" and view :: "'s \<Rightarrow> 'n :: comm_monoid_add"
  assumes merge_adds: "view (merge a b) = view a + view b"
begin

lemma fold_adds: "view (foldl merge s ss) = view s + sum_list (map view ss)"
  by (induction ss arbitrary: s) (simp_all add: merge_adds add.assoc)

lemma fold_perm: "mset ss = mset ss' \<Longrightarrow> view (foldl merge s ss) = view (foldl merge s ss')"
  unfolding fold_adds by (simp only: sum_list_perm [of ss ss' view])

end

section \<open>The counters as accumulators\<close>

lemma ec_views [count_simps]:
  "ec_hard_total (ec_merge a b) = ec_hard_total a + ec_hard_total b"
  "ec_soft_total (ec_merge a b) = ec_soft_total a + ec_soft_total b"
  "ec_total (ec_merge a b) = ec_total a + ec_total b"
  by (simp_all add: ec_merge_def ec_hard_total_def ec_soft_total_def ec_total_def)

lemma ec_incr_total [count_simps]: "ec_total (ec_incr k e) = ec_total e + 1"
  by (cases k) (simp_all add: ec_total_def ec_hard_total_def ec_soft_total_def)

lemma ec_default_total [count_simps]: "ec_total ec_default = 0" "ec_hard_total ec_default = 0"
  by (simp_all add: ec_default_def ec_total_def ec_hard_total_def ec_soft_total_def)

interpretation acc_requests: accumulator "task_merge H" ts_requests for H
  by unfold_locales (simp add: task_merge_def)

interpretation acc_sent: accumulator "task_merge H" ts_bytes_sent for H
  by unfold_locales (simp add: task_merge_def)

interpretation acc_recv: accumulator "task_merge H" ts_bytes_recv for H
  by unfold_locales (simp add: task_merge_def)

interpretation acc_errors: accumulator "task_merge H" "\<lambda>t. ec_total (ts_errors t)" for H
  by unfold_locales (simp add: task_merge_def count_simps)

interpretation acc_hard: accumulator "task_merge H" "\<lambda>t. ec_hard_total (ts_errors t)" for H
  by unfold_locales (simp add: task_merge_def count_simps)

interpretation acc_scenario: accumulator "scenario_merge H" sc_requests for H
  by unfold_locales (simp add: scenario_merge_def)

interpretation acc_sc_errors: accumulator "scenario_merge H" "\<lambda>s. ec_total (sc_errors s)" for H
  by unfold_locales (simp add: scenario_merge_def count_simps)

lemma task_new_zero [count_simps]:
  "ts_requests (task_stats_new H n) = 0" "ts_bytes_sent (task_stats_new H n) = 0"
  "ts_bytes_recv (task_stats_new H n) = 0" "ec_total (ts_errors (task_stats_new H n)) = 0"
  "ec_hard_total (ts_errors (task_stats_new H n)) = 0"
  "length (ts_per_scenario (task_stats_new H n)) = n"
  by (simp_all add: task_stats_new_def fresh_scenarios_def ec_default_total)

lemma fresh_scenarios_nth [count_simps]:
  "i < n \<Longrightarrow> ts_per_scenario (task_stats_new H n) ! i = scenario_stats_new H (word_of_nat i)"
  by (simp add: task_stats_new_def fresh_scenarios_def)

section \<open>Merging by scenario\<close>

lemma length_merge_scenarios [simp]: "length (merge_scenarios H ds ss) = length ds"
  by (induction H ds ss rule: merge_scenarios.induct) auto

lemma merge_scenarios_nth:
  "i < length ds \<Longrightarrow> merge_scenarios H ds ss ! i =
     (if i < length ss then scenario_merge H (ds ! i) (ss ! i) else ds ! i)"
proof (induction H ds ss arbitrary: i rule: merge_scenarios.induct)
  case (1 H d ds s ss)
  then show ?case by (cases i) auto
qed auto

text \<open>The parts a merged scenario was made of: the i-th scenario of every task that has one.\<close>

definition scenario_parts :: "nat \<Rightarrow> 'h task_stats list \<Rightarrow> 'h scenario_stats list" where
  "scenario_parts i ts =
     concat (map (\<lambda>t. if i < length (ts_per_scenario t) then [ts_per_scenario t ! i] else []) ts)"

lemma fold_task_scenario:
  "i < length (ts_per_scenario t) \<Longrightarrow>
     length (ts_per_scenario (foldl (task_merge H) t ts)) = length (ts_per_scenario t)
     \<and> ts_per_scenario (foldl (task_merge H) t ts) ! i
       = foldl (scenario_merge H) (ts_per_scenario t ! i) (scenario_parts i ts)"
proof (induction ts arbitrary: t)
  case (Cons s ts)
  have "length (ts_per_scenario (task_merge H t s)) = length (ts_per_scenario t)"
    by (simp add: task_merge_def)
  moreover have "ts_per_scenario (task_merge H t s) ! i =
      (if i < length (ts_per_scenario s) then scenario_merge H (ts_per_scenario t ! i) (ts_per_scenario s ! i)
       else ts_per_scenario t ! i)"
    using Cons.prems by (simp add: task_merge_def merge_scenarios_nth)
  ultimately show ?case using Cons by (auto simp: scenario_parts_def)
qed (simp add: scenario_parts_def)

section \<open>Recording\<close>

text \<open>What a worker does with its statistics.\<close>

datatype stat_op = OpRecord u16 duration duration u64 u64 | OpError u16 error_kind

fun apply_op :: "'h hist_ops \<Rightarrow> 'h task_stats \<Rightarrow> stat_op \<Rightarrow> 'h task_stats" where
  "apply_op H t (OpRecord sid l f bs br) = task_record H sid l f bs br t"
| "apply_op H t (OpError sid k) = task_record_error sid k t"

fun op_scenario :: "stat_op \<Rightarrow> nat" where
  "op_scenario (OpRecord sid _ _ _ _) = unat sid"
| "op_scenario (OpError sid _) = unat sid"

fun is_record :: "stat_op \<Rightarrow> bool" where
  "is_record (OpRecord _ _ _ _ _) = True"
| "is_record (OpError _ _) = False"

lemma sum_list_update_at:
  fixes f :: "'a \<Rightarrow> 'n :: ab_group_add"
  shows "i < length xs \<Longrightarrow> sum_list (map f (update_at i g xs)) = sum_list (map f xs) + (f (g (xs ! i)) - f (xs ! i))"
proof (induction xs arbitrary: i)
  case (Cons x xs)
  then show ?case by (cases i) (auto simp: update_at_def)
qed simp

lemma length_update_at [simp]: "length (update_at i g xs) = length xs"
  by (simp add: update_at_def)

text \<open>The roll-up: task totals are the sums over the scenarios.\<close>

definition rolled_up :: "'h task_stats \<Rightarrow> bool" where
  "rolled_up t =
     (ts_requests t = sum_list (map sc_requests (ts_per_scenario t))
      \<and> ec_total (ts_errors t) = sum_list (map (\<lambda>s. ec_total (sc_errors s)) (ts_per_scenario t)))"

lemma rolled_up_new: "rolled_up (task_stats_new H n)"
  by (simp add: rolled_up_def task_stats_new_def fresh_scenarios_def scenario_stats_new_def comp_def
      ec_default_total sum_list_0)

lemma rolled_up_op:
  assumes "rolled_up t" "op_scenario p < length (ts_per_scenario t)"
  shows "rolled_up (apply_op H t p) \<and> length (ts_per_scenario (apply_op H t p)) = length (ts_per_scenario t)"
  using assms
  by (cases p) (simp_all add: rolled_up_def task_record_def task_record_error_def Let_def
      sum_list_update_at count_simps)

lemma rolled_up_ops:
  assumes "rolled_up t" "\<forall>p \<in> set ops. op_scenario p < length (ts_per_scenario t)"
  shows "rolled_up (foldl (apply_op H) t ops)"
  using assms by (induction ops arbitrary: t) (simp_all add: rolled_up_op)

lemma duration_to_hist_bounds:
  "HIST_LO_NS \<le> duration_to_hist_ns d" "duration_to_hist_ns d \<le> HIST_HI_NS"
  by (simp_all add: duration_to_hist_ns_def HIST_LO_NS_def HIST_HI_NS_def)

lemma record_lengths:
  assumes "hist_ok H len"
  shows "len (ts_latency (foldl (apply_op H) t ops)) = len (ts_latency t) + length (filter is_record ops)
    \<and> ts_requests (foldl (apply_op H) t ops) = ts_requests t + of_nat (length (filter is_record ops))"
proof (induction ops arbitrary: t)
  case (Cons p ops)
  have rec: "len (h_record H h (duration_to_hist_ns d)) = Suc (len h)" for h d
    using assms duration_to_hist_bounds [of d] by (simp add: hist_ok_def)
  show ?case using Cons by (cases p) (simp_all add: task_record_def task_record_error_def Let_def rec)
qed simp

lemma scenario_rows_sum:
  fixes H :: "'h hist_ops" and d :: duration and ts :: "'h task_stats list" and t
  assumes "i < length (ts_per_scenario t)"
  defines "rows \<equiv> ts_per_scenario (sm_stats (summary_merge H (t # ts) d))"
  shows "length rows = length (ts_per_scenario t)
    \<and> sc_requests (rows ! i) = sum_list (map sc_requests (scenario_parts i (t # ts)))
    \<and> ec_total (sc_errors (rows ! i)) = sum_list (map (\<lambda>s. ec_total (sc_errors s)) (scenario_parts i (t # ts)))"
proof -
  let ?new = "task_stats_new H (length (ts_per_scenario t))"
  have i: "i < length (ts_per_scenario ?new)" using assms(1) by (simp add: count_simps)
  have "rows = ts_per_scenario (foldl (task_merge H) ?new (t # ts))"
    by (simp only: rows_def summary_merge_def Let_def list.case summary.simps)
  then have "length rows = length (ts_per_scenario t)"
    "rows ! i = foldl (scenario_merge H) (scenario_stats_new H (word_of_nat i)) (scenario_parts i (t # ts))"
    using fold_task_scenario [OF i, of H "t # ts"] assms(1) by (simp_all add: count_simps)
  then show ?thesis
    by (simp add: acc_scenario.fold_adds acc_sc_errors.fold_adds scenario_stats_new_def count_simps)
qed

section \<open>Properties\<close>

text \<open>
  Nothing is lost or counted twice in the summary: requests, bytes and errors (all of
  them, and the hard ones that gate the exit status) are the sums over the tasks, whatever their
  number.
\<close>

lemma summary_adds_up:
  "let out = sm_stats (summary_merge H ts d) in
     ts_requests out = sum_list (map ts_requests ts)
     \<and> ts_bytes_sent out = sum_list (map ts_bytes_sent ts)
     \<and> ts_bytes_recv out = sum_list (map ts_bytes_recv ts)
     \<and> ec_total (ts_errors out) = sum_list (map (\<lambda>t. ec_total (ts_errors t)) ts)
     \<and> ec_hard_total (ts_errors out) = sum_list (map (\<lambda>t. ec_hard_total (ts_errors t)) ts)"
  by (simp add: summary_merge_def Let_def count_simps acc_requests.fold_adds acc_sent.fold_adds
      acc_recv.fold_adds acc_errors.fold_adds acc_hard.fold_adds)

text \<open>
  A scenario's row in the summary is the sum of that scenario's rows over the tasks
  that have one, for every scenario the first task has; rows beyond those are dropped.
\<close>

lemma summary_scenario_rows:
  fixes H :: "'h hist_ops" and d :: duration and ts :: "'h task_stats list" and t
  assumes "i < length (ts_per_scenario t)"
  defines "rows \<equiv> ts_per_scenario (sm_stats (summary_merge H (t # ts) d))"
  shows "length rows = length (ts_per_scenario t)
    \<and> sc_requests (rows ! i) = sum_list (map sc_requests (scenario_parts i (t # ts)))
    \<and> ec_total (sc_errors (rows ! i)) = sum_list (map (\<lambda>s. ec_total (sc_errors s)) (scenario_parts i (t # ts)))"
  unfolding rows_def by (rule scenario_rows_sum [OF assms(1)])

text \<open>
  A worker's totals are the roll-up of its scenarios: after any sequence of recorded
  requests and errors whose scenario ids are in range, the request and error totals are the sums
  over the scenarios, and the latency histogram has exactly one sample per recorded request.
\<close>

lemma task_roll_up:
  assumes "\<forall>p \<in> set ops. op_scenario p < n" "hist_ok H len"
  shows "rolled_up (foldl (apply_op H) (task_stats_new H n) ops)
    \<and> len (ts_latency (foldl (apply_op H) (task_stats_new H n) ops)) = length (filter is_record ops)"
proof -
  have "len (ts_latency (task_stats_new H n)) = 0"
    using assms(2) by (simp add: task_stats_new_def new_hist_def hist_ok_def)
  then show ?thesis
    using rolled_up_ops [OF rolled_up_new, of ops H n] assms record_lengths [OF assms(2), of "task_stats_new H n" ops]
    by (simp add: count_simps)
qed

text \<open>
  The order in which workers finish does not show in the summary: permuting the tasks,
  all with the same scenarios, changes neither the totals nor any scenario's counters.
\<close>

lemma summary_order_independent:
  fixes H :: "'h hist_ops" and d :: duration
  assumes "mset ts = mset ts'" "\<forall>t \<in> set ts. length (ts_per_scenario t) = n"
  defines "out \<equiv> \<lambda>ts. sm_stats (summary_merge H ts d)"
  shows "ts_requests (out ts) = ts_requests (out ts')
    \<and> ec_total (ts_errors (out ts)) = ec_total (ts_errors (out ts'))
    \<and> map sc_requests (ts_per_scenario (out ts)) = map sc_requests (ts_per_scenario (out ts'))
    \<and> map (\<lambda>s. ec_total (sc_errors s)) (ts_per_scenario (out ts))
      = map (\<lambda>s. ec_total (sc_errors s)) (ts_per_scenario (out ts'))"
proof (cases ts)
  case Nil
  then show ?thesis using assms(1) by simp
next
  case (Cons t us)
  have set: "set ts' = set ts" using assms(1) by (metis set_mset_mset)
  then obtain t' us' where ts': "ts' = t' # us'" using Cons by (cases ts') auto
  have n: "length (ts_per_scenario t) = n" "length (ts_per_scenario t') = n"
    using assms(2) set Cons ts' by auto
  have out: "out us = foldl (task_merge H) (task_stats_new H n) us" if "us = ts \<or> us = ts'" for us
    using that n Cons ts' by (auto simp: out_def summary_merge_def)
  have parts: "mset (scenario_parts i ts) = mset (scenario_parts i ts')" for i
    unfolding scenario_parts_def mset_concat map_map by (rule sum_list_perm [OF assms(1)])
  let ?F = "\<lambda>us. foldl (task_merge H) (task_stats_new H n) us"
  have row: "ts_per_scenario (?F us) ! i = foldl (scenario_merge H) (scenario_stats_new H (word_of_nat i)) (scenario_parts i us)"
    and len: "length (ts_per_scenario (?F us)) = n" if "i < n" for i us
    using fold_task_scenario [of i "task_stats_new H n" H us] that by (simp_all add: count_simps)
  have lens: "length (ts_per_scenario (?F us)) = n" for us
    by (induction us rule: rev_induct) (simp_all add: task_merge_def count_simps)
  have "map sc_requests (ts_per_scenario (?F ts)) = map sc_requests (ts_per_scenario (?F ts'))"
    by (rule nth_equalityI) (simp_all add: lens row acc_scenario.fold_perm [OF parts])
  moreover have "map (\<lambda>s. ec_total (sc_errors s)) (ts_per_scenario (?F ts))
      = map (\<lambda>s. ec_total (sc_errors s)) (ts_per_scenario (?F ts'))"
    by (rule nth_equalityI) (simp_all add: lens row acc_sc_errors.fold_perm [OF parts])
  ultimately show ?thesis
    using acc_requests.fold_perm [OF assms(1)] acc_errors.fold_perm [OF assms(1)] by (simp add: out)
qed

end
