(* ===== verification/Transport.thy ===== *)
theory Transport
  imports Prelude
begin

text \<open>
  Connection targets: \<open>zerobench-core/src/transport.rs\<close>. A \<open>Target\<close> is a record, a port a
  16-bit word; \<open>Target::parse\<close> is the scheme / authority / host / port splitter with its error
  cases, \<open>addr\<close> its printer, \<open>resolve\<close> the override lookup in front of the system resolver.
  IP-literal parsing and DNS belong to the platform and are arguments of \<open>target_resolve\<close>.
\<close>

section \<open>Targets\<close>

datatype addr_family = FamAny | FamV4 | FamV6

record target =
  tg_host :: string
  tg_port :: u16
  tg_tls :: bool
  tg_sni :: "string option"
  tg_family :: addr_family

datatype target_error = InvalidUrl string | MissingHost | InvalidPort string

definition parse_u16 :: "string \<Rightarrow> u16 option" where
  "parse_u16 s = map_option word_of_nat (parse_uint 10 65535 s)"

definition split_once_str :: "string \<Rightarrow> string \<Rightarrow> (string \<times> string) option" where
  "split_once_str sep s =
     map_option (\<lambda>i. (take i s, drop (i + length sep) s)) (find_sub sep s)"

definition url_delim :: "char \<Rightarrow> bool" where
  "url_delim c = (c = CHR ''/'' \<or> c = CHR ''?'' \<or> c = CHR ''#'')"

text \<open>The authority split: a bracketed IPv6 literal, or the last colon of a name.\<close>

definition split_authority :: "string \<Rightarrow> string \<Rightarrow> target_error + (string \<times> string option)" where
  "split_authority url authority =
     (case authority of
        c # stripped \<Rightarrow>
          (if c = CHR ''['' then
             (case find_pos (\<lambda>x. x = CHR '']'') stripped of
                None \<Rightarrow> Inl (InvalidUrl url)
              | Some close \<Rightarrow>
                  let host = take close stripped; after = drop (Suc close) stripped in
                  Inr (host, (case after of
                                [] \<Rightarrow> None
                              | d # p \<Rightarrow> if d = CHR '':'' then Some p else None)))
           else (case rsplit_once (CHR '':'') authority of
                   Some (h, p) \<Rightarrow> Inr (h, Some p)
                 | None \<Rightarrow> Inr (authority, None)))
      | [] \<Rightarrow> Inr (authority, None))"

definition scheme_tls :: "string \<Rightarrow> target_error + bool" where
  "scheme_tls scheme =
     (if scheme = ''http'' \<or> scheme = ''ws'' then Inr False
      else if scheme = ''https'' \<or> scheme = ''wss'' then Inr True
      else Inl (InvalidUrl (''unsupported scheme: '' @ scheme)))"

definition target_parse :: "string \<Rightarrow> target_error + target" where
  "target_parse url =
     (case split_once_str ''://'' url of
        None \<Rightarrow> Inl (InvalidUrl url)
      | Some (scheme, rest) \<Rightarrow>
          (case scheme_tls scheme of
             Inl e \<Rightarrow> Inl e
           | Inr tls \<Rightarrow>
               let authority_end = (case find_pos url_delim rest of None \<Rightarrow> length rest | Some i \<Rightarrow> i);
                   authority = take authority_end rest
               in if authority = [] then Inl MissingHost
               else (case split_authority url authority of
                  Inl e \<Rightarrow> Inl e
                | Inr (host, port_str) \<Rightarrow>
                    if host = [] then Inl MissingHost
                    else (case (case port_str of
                             Some s \<Rightarrow> (case parse_u16 s of Some p \<Rightarrow> Inr p | None \<Rightarrow> Inl (InvalidPort s))
                           | None \<Rightarrow> Inr (if tls then 443 else 80)) of
                       Inl e \<Rightarrow> Inl e
                     | Inr port \<Rightarrow>
                         Inr \<lparr>tg_host = host, tg_port = port, tg_tls = tls,
                              tg_sni = None, tg_family = FamAny\<rparr>))))"

definition target_addr :: "target \<Rightarrow> string" where
  "target_addr t =
     (if CHR '':'' \<in> set (tg_host t)
      then ''['' @ tg_host t @ '']:'' @ dec (unat (tg_port t))
      else tg_host t @ '':'' @ dec (unat (tg_port t)))"

definition sni_name :: "target \<Rightarrow> string" where
  "sni_name t = (case tg_sni t of Some s \<Rightarrow> s | None \<Rightarrow> tg_host t)"

section \<open>Transport options and resolution\<close>

datatype http_version_pref = HvAuto | HvHttp1 | HvHttp2

record transport_opts =
  to_connect_timeout :: duration
  to_request_timeout :: duration
  to_max_conns :: nat
  to_tcp_nodelay :: bool
  to_insecure_tls :: bool
  to_http_version :: http_version_pref
  to_resolve_overrides :: "(string \<times> u16 \<times> string) list"

definition default_transport_opts :: transport_opts where
  "default_transport_opts =
     \<lparr>to_connect_timeout = 5 * 10 ^ 9, to_request_timeout = 30 * 10 ^ 9, to_max_conns = 100,
      to_tcp_nodelay = True, to_insecure_tls = False, to_http_version = HvAuto,
      to_resolve_overrides = []\<rparr>"

datatype resolve_error = InvalidInput string | AddrNotAvailable | NotFound | SystemError string

text \<open>
  \<open>parse_ip\<close> is the IP-literal parser, \<open>dns\<close> the system resolver on \<open>host:port\<close> with its
  error, \<open>is_v4\<close>/\<open>is_v6\<close> classify an address. A result is an IP and the target's port when it
  comes from an override, a resolver address otherwise.
\<close>

datatype 'ip socket_addr = SockIp 'ip u16 | SockDns 'ip

definition target_resolve ::
  "(string \<Rightarrow> 'ip option) \<Rightarrow> (string \<Rightarrow> string + 'ip list) \<Rightarrow> ('ip \<Rightarrow> bool) \<Rightarrow> ('ip \<Rightarrow> bool)
   \<Rightarrow> target \<Rightarrow> transport_opts \<Rightarrow> resolve_error + 'ip socket_addr" where
  "target_resolve parse_ip dns is_v4 is_v6 t opts =
     (case find (\<lambda>(host, port, addr). eq_icase host (tg_host t) \<and> port = tg_port t)
             (to_resolve_overrides opts) of
        Some (host, port, addr) \<Rightarrow>
          (case parse_ip addr of
             None \<Rightarrow> Inl (InvalidInput (''invalid --resolve address literal: '' @ addr))
           | Some ip \<Rightarrow> Inr (SockIp ip (tg_port t)))
      | None \<Rightarrow>
          (case dns (target_addr t) of
             Inl e \<Rightarrow> Inl (SystemError e)
           | Inr addrs \<Rightarrow>
               (case (case tg_family t of
                        FamAny \<Rightarrow> (case addrs of [] \<Rightarrow> None | a # _ \<Rightarrow> Some a)
                      | FamV4 \<Rightarrow> find is_v4 addrs
                      | FamV6 \<Rightarrow> find is_v6 addrs) of
                  Some a \<Rightarrow> Inr (SockDns a)
                | None \<Rightarrow> Inl (if tg_family t = FamAny then AddrNotAvailable else NotFound))))"

section \<open>Lemmas\<close>

lemma unat_lt_65536: "unat (p :: u16) < 65536"
  using unsigned_less [of p] by simp

lemma parse_u16_dec: "parse_u16 (dec (unat p)) = Some p"
proof -
  have "unat p < 65536" by (rule unat_lt_65536)
  then have "unat p \<le> 65535" by simp
  then show ?thesis by (simp add: parse_u16_def parse_uint_dec)
qed

lemma colon_slash_not_digit:
  "\<not> is_digit (CHR '':'')" "\<not> is_digit (CHR ''/'')" "\<not> is_digit (CHR ''?'')" "\<not> is_digit (CHR ''#'')"
  by (simp_all add: is_digit_def code_def)

lemma dec_no_delim:
  "CHR '':'' \<notin> set (dec n)" "\<forall>c \<in> set (dec n). \<not> url_delim c"
  using dec_digits [of n] colon_slash_not_digit by (auto simp: url_delim_def)

text \<open>Host names the printer can write back: no URL delimiter and no bracket.\<close>

definition plain_host :: "string \<Rightarrow> bool" where
  "plain_host h = (h \<noteq> [] \<and> (\<forall>c \<in> set h. \<not> url_delim c \<and> c \<noteq> CHR ''['' \<and> c \<noteq> CHR '']''))"

definition url_suffix :: "string \<Rightarrow> bool" where
  "url_suffix s = (case s of [] \<Rightarrow> True | c # _ \<Rightarrow> url_delim c)"

lemma find_delim_suffix:
  assumes "\<forall>c \<in> set a. \<not> url_delim c" "url_suffix s"
  shows "(case find_pos url_delim (a @ s) of None \<Rightarrow> length (a @ s) | Some i \<Rightarrow> i) = length a"
  using find_pos_skip [OF assms(1), of s] assms(2)
  by (cases s) (auto simp: url_suffix_def)

lemma split_authority_addr:
  assumes "plain_host (tg_host t)"
  shows "split_authority url (target_addr t) = Inr (tg_host t, Some (dec (unat (tg_port t))))"
proof (cases "CHR '':'' \<in> set (tg_host t)")
  case True
  have "\<forall>c \<in> set (tg_host t). c \<noteq> CHR '']''" using assms by (simp add: plain_host_def)
  then have "find_pos (\<lambda>x. x = CHR '']'') (tg_host t @ CHR '']'' # CHR '':'' # dec (unat (tg_port t)))
             = Some (length (tg_host t))"
    by (simp add: find_pos_skip)
  with True show ?thesis by (simp add: split_authority_def target_addr_def)
next
  case False
  obtain c h where h: "tg_host t = c # h" using assms by (auto simp: plain_host_def neq_Nil_conv)
  then have "c \<noteq> CHR ''[''" using assms by (simp add: plain_host_def)
  moreover have "rsplit_once (CHR '':'') (tg_host t @ CHR '':'' # dec (unat (tg_port t)))
     = Some (tg_host t, dec (unat (tg_port t)))"
    by (rule rsplit_once_fresh) (rule dec_no_delim)
  ultimately show ?thesis using False h by (simp add: split_authority_def target_addr_def)
qed

lemma brackets_no_delim:
  "\<not> url_delim (CHR ''['')" "\<not> url_delim (CHR '']'')" "\<not> url_delim (CHR '':'')"
  by (simp_all add: url_delim_def)

lemma target_addr_no_delim: "plain_host (tg_host t) \<Longrightarrow> \<forall>c \<in> set (target_addr t). \<not> url_delim c"
  using dec_no_delim(2) [of "unat (tg_port t)"] brackets_no_delim
  by (simp add: target_addr_def plain_host_def ball_Un)

lemma split_scheme:
  "split_once_str ''://'' ((if tls then ''https'' else ''http'') @ ''://'' @ r)
   = Some (if tls then ''https'' else ''http'', r)"
  by (simp add: split_once_str_def)

section \<open>Properties\<close>

text \<open>
  Printing a target's authority and parsing it inside a URL gives the target back:
  for any host without URL delimiters or brackets, IPv6 literals included (they are bracketed by
  the printer), any port, either scheme, and whatever path, query or fragment follows.
\<close>

lemma target_parse_addr:
  assumes "plain_host (tg_host t)" "url_suffix s"
  shows "target_parse ((if tg_tls t then ''https'' else ''http'') @ ''://'' @ target_addr t @ s)
       = Inr (t\<lparr>tg_sni := None, tg_family := FamAny\<rparr>)"
proof -
  have sch: "scheme_tls (if tg_tls t then ''https'' else ''http'') = Inr (tg_tls t)"
    by (simp add: scheme_tls_def)
  have e: "(case find_pos url_delim (target_addr t @ s) of None \<Rightarrow> length (target_addr t @ s) | Some i \<Rightarrow> i)
        = length (target_addr t)"
    by (rule find_delim_suffix [OF target_addr_no_delim [OF assms(1)] assms(2)])
  have ne: "target_addr t \<noteq> []" by (simp add: target_addr_def)
  have h: "tg_host t \<noteq> []" using assms(1) by (simp add: plain_host_def)
  show ?thesis
    unfolding target_parse_def split_scheme
    using sch ne h
    by (simp add: Let_def e split_authority_addr [OF assms(1)] parse_u16_dec)
qed

text \<open>An override decides alone, whatever the resolver and the address family say.\<close>

lemma resolve_override_wins:
  assumes "find (\<lambda>(host, port, addr). eq_icase host (tg_host t) \<and> port = tg_port t)
             (to_resolve_overrides opts) = Some (h, p, a)"
  shows "target_resolve parse_ip dns is_v4 is_v6 t opts =
         (case parse_ip a of
            None \<Rightarrow> Inl (InvalidInput (''invalid --resolve address literal: '' @ a))
          | Some ip \<Rightarrow> Inr (SockIp ip (tg_port t)))"
  using assms by (simp add: target_resolve_def)

end

