(* ===== verification/Live.thy ===== *)
theory Live
  imports Stats
begin

text \<open>
  The live counters of \<open>zerobench-runtime/src/live_snapshot.rs\<close>, the recorder of \<open>recorder.rs\<close> that
  writes to them and to the task statistics, and the error taxonomy of \<open>transport.rs\<close>. Workers
  and the ticker share the live counters without a common lock: every \<open>fetch_add\<close>, every \<open>swap\<close> and
  every locked shard access is one atomic action, a call is a list of actions, and the calls of
  several threads interleave action by action.
\<close>

section \<open>State\<close>

definition LATENCY_SHARDS :: nat where "LATENCY_SHARDS = 16"

text \<open>One slot: the aggregate, or the counters of one scenario.\<close>

record 'h live_slot =
  lv_requests :: u64
  lv_bytes_sent :: u64
  lv_bytes_recv :: u64
  lv_errors :: error_counters
  lv_shards :: "'h list"

record 'h live_snapshot =
  lv_start :: instant
  lv_total :: "'h live_slot"
  lv_scenarios :: "'h live_slot list"

definition live_slot_new :: "'h hist_ops \<Rightarrow> 'h live_slot" where
  "live_slot_new H = \<lparr>lv_requests = 0, lv_bytes_sent = 0, lv_bytes_recv = 0, lv_errors = ec_default,
     lv_shards = replicate LATENCY_SHARDS (new_hist H)\<rparr>"

definition live_new :: "'h hist_ops \<Rightarrow> nat \<Rightarrow> instant \<Rightarrow> 'h live_snapshot" where
  "live_new H num_scenarios now = \<lparr>lv_start = now, lv_total = live_slot_new H,
     lv_scenarios = replicate num_scenarios (live_slot_new H)\<rparr>"

definition clamp_ns :: "nat \<Rightarrow> nat" where
  "clamp_ns ns = min (max ns HIST_LO_NS) HIST_HI_NS"

section \<open>Atomic actions\<close>

text \<open>Which slot and which atomic of it.\<close>

datatype slot_ref = Aggregate | OfScenario nat

datatype cell = Requests | BytesSent | BytesRecv | Errors error_kind

datatype live_act =
    FetchAdd slot_ref cell u64
  | SwapZero slot_ref cell
  | ShardRecord slot_ref nat nat
  | ShardReplace slot_ref nat

datatype 'h live_out = NoOut | OldValue u64 | OldHist 'h

fun error_get :: "error_kind \<Rightarrow> error_counters \<Rightarrow> u64" where
  "error_get EkConnect e = ec_connect e"
| "error_get EkRead e = ec_read e"
| "error_get EkWrite e = ec_write e"
| "error_get EkTimeout e = ec_timeout e"
| "error_get EkKeepup e = ec_keepup e"
| "error_get EkStatus4xx e = ec_status_4xx e"
| "error_get EkStatus5xx e = ec_status_5xx e"
| "error_get EkAssertionFailed e = ec_assertion_failed e"

fun error_set :: "error_kind \<Rightarrow> u64 \<Rightarrow> error_counters \<Rightarrow> error_counters" where
  "error_set EkConnect v e = e\<lparr>ec_connect := v\<rparr>"
| "error_set EkRead v e = e\<lparr>ec_read := v\<rparr>"
| "error_set EkWrite v e = e\<lparr>ec_write := v\<rparr>"
| "error_set EkTimeout v e = e\<lparr>ec_timeout := v\<rparr>"
| "error_set EkKeepup v e = e\<lparr>ec_keepup := v\<rparr>"
| "error_set EkStatus4xx v e = e\<lparr>ec_status_4xx := v\<rparr>"
| "error_set EkStatus5xx v e = e\<lparr>ec_status_5xx := v\<rparr>"
| "error_set EkAssertionFailed v e = e\<lparr>ec_assertion_failed := v\<rparr>"

fun cell_get :: "cell \<Rightarrow> 'h live_slot \<Rightarrow> u64" where
  "cell_get Requests s = lv_requests s"
| "cell_get BytesSent s = lv_bytes_sent s"
| "cell_get BytesRecv s = lv_bytes_recv s"
| "cell_get (Errors k) s = error_get k (lv_errors s)"

fun cell_set :: "cell \<Rightarrow> u64 \<Rightarrow> 'h live_slot \<Rightarrow> 'h live_slot" where
  "cell_set Requests v s = s\<lparr>lv_requests := v\<rparr>"
| "cell_set BytesSent v s = s\<lparr>lv_bytes_sent := v\<rparr>"
| "cell_set BytesRecv v s = s\<lparr>lv_bytes_recv := v\<rparr>"
| "cell_set (Errors k) v s = s\<lparr>lv_errors := error_set k v (lv_errors s)\<rparr>"

text \<open>A slot by its reference; the callers check that a scenario's slot exists.\<close>

fun slot_at :: "slot_ref \<Rightarrow> 'h live_snapshot \<Rightarrow> 'h live_slot option" where
  "slot_at Aggregate s = Some (lv_total s)"
| "slot_at (OfScenario i) s = (if i < length (lv_scenarios s) then Some (lv_scenarios s ! i) else None)"

fun slot_put :: "slot_ref \<Rightarrow> 'h live_slot \<Rightarrow> 'h live_snapshot \<Rightarrow> 'h live_snapshot" where
  "slot_put Aggregate x s = s\<lparr>lv_total := x\<rparr>"
| "slot_put (OfScenario i) x s = s\<lparr>lv_scenarios := (lv_scenarios s)[i := x]\<rparr>"

fun do_act :: "'h hist_ops \<Rightarrow> live_act \<Rightarrow> 'h live_snapshot \<Rightarrow> 'h live_snapshot \<times> 'h live_out" where
  "do_act H (FetchAdd r c n) s =
     (case slot_at r s of
        None \<Rightarrow> (s, NoOut)
      | Some x \<Rightarrow> (slot_put r (cell_set c (cell_get c x + n) x) s, NoOut))"
| "do_act H (SwapZero r c) s =
     (case slot_at r s of
        None \<Rightarrow> (s, NoOut)
      | Some x \<Rightarrow> (slot_put r (cell_set c 0 x) s, OldValue (cell_get c x)))"
| "do_act H (ShardRecord r k ns) s =
     (case slot_at r s of
        None \<Rightarrow> (s, NoOut)
      | Some x \<Rightarrow> (slot_put r (x\<lparr>lv_shards := update_at k (\<lambda>h. h_record H h ns) (lv_shards x)\<rparr>) s, NoOut))"
| "do_act H (ShardReplace r k) s =
     (case slot_at r s of
        None \<Rightarrow> (s, NoOut)
      | Some x \<Rightarrow>
          (if k < length (lv_shards x)
           then (slot_put r (x\<lparr>lv_shards := (lv_shards x)[k := new_hist H]\<rparr>) s, OldHist (lv_shards x ! k))
           else (s, NoOut)))"

section \<open>Calls\<close>

text \<open>The shard of a thread is fixed by its identity; \<open>sh\<close> is the hash of it.\<close>

definition pick_shard :: "nat \<Rightarrow> nat" where "pick_shard sh = sh mod LATENCY_SHARDS"

definition slot_record :: "slot_ref \<Rightarrow> nat \<Rightarrow> nat \<Rightarrow> u64 \<Rightarrow> u64 \<Rightarrow> live_act list" where
  "slot_record r sh latency_ns bytes_sent bytes_recv =
     [FetchAdd r Requests 1, FetchAdd r BytesSent bytes_sent, FetchAdd r BytesRecv bytes_recv,
      ShardRecord r (pick_shard sh) (clamp_ns latency_ns)]"

definition live_record :: "nat \<Rightarrow> nat \<Rightarrow> u64 \<Rightarrow> u64 \<Rightarrow> live_act list" where
  "live_record sh ns bs br = slot_record Aggregate sh ns bs br"

definition live_record_error :: "error_kind \<Rightarrow> live_act list" where
  "live_record_error k = [FetchAdd Aggregate (Errors k) 1]"

definition live_record_scenario :: "nat \<Rightarrow> nat \<Rightarrow> u16 \<Rightarrow> nat \<Rightarrow> u64 \<Rightarrow> u64 \<Rightarrow> live_act list" where
  "live_record_scenario n sh sid ns bs br =
     (if unat sid < n then slot_record (OfScenario (unat sid)) sh ns bs br else [])"

definition live_record_scenario_error :: "nat \<Rightarrow> u16 \<Rightarrow> error_kind \<Rightarrow> live_act list" where
  "live_record_scenario_error n sid k =
     (if unat sid < n then [FetchAdd (OfScenario (unat sid)) (Errors k) 1] else [])"

definition error_kinds :: "error_kind list" where
  "error_kinds = [EkConnect, EkRead, EkWrite, EkTimeout, EkKeepup, EkStatus4xx, EkStatus5xx, EkAssertionFailed]"

definition swap_all :: "slot_ref \<Rightarrow> live_act list" where
  "swap_all r = map (\<lambda>k. SwapZero r (Errors k)) error_kinds"

definition swap_slot :: "slot_ref \<Rightarrow> live_act list" where
  "swap_slot r = [SwapZero r Requests, SwapZero r BytesSent, SwapZero r BytesRecv] @ swap_all r
     @ map (ShardReplace r) [0..<LATENCY_SHARDS]"

definition swap_and_snapshot :: "nat \<Rightarrow> live_act list" where
  "swap_and_snapshot n = swap_slot Aggregate @ concat (map (\<lambda>i. swap_slot (OfScenario i)) [0..<n])"

text \<open>A tick is made of the values the actions of one snapshot call took.\<close>

record 'h live_tick =
  tk_requests :: u64
  tk_bytes_sent :: u64
  tk_bytes_recv :: u64
  tk_errors :: error_counters
  tk_latency :: 'h

definition taken_value :: "live_act \<Rightarrow> (live_act \<times> 'h live_out) list \<Rightarrow> u64" where
  "taken_value a l = (case List.find (\<lambda>(b, _). b = a) l of Some (_, OldValue v) \<Rightarrow> v | _ \<Rightarrow> 0)"

fun taken_hists :: "slot_ref \<Rightarrow> (live_act \<times> 'h live_out) list \<Rightarrow> 'h list" where
  "taken_hists r [] = []"
| "taken_hists r ((a, out) # l) =
     (case (a, out) of
        (ShardReplace r' k, OldHist h) \<Rightarrow> (if r' = r then h # taken_hists r l else taken_hists r l)
      | _ \<Rightarrow> taken_hists r l)"

definition slot_tick :: "'h hist_ops \<Rightarrow> slot_ref \<Rightarrow> (live_act \<times> 'h live_out) list \<Rightarrow> 'h live_tick" where
  "slot_tick H r l =
     \<lparr>tk_requests = taken_value (SwapZero r Requests) l,
      tk_bytes_sent = taken_value (SwapZero r BytesSent) l,
      tk_bytes_recv = taken_value (SwapZero r BytesRecv) l,
      tk_errors = fold (\<lambda>k e. error_set k (taken_value (SwapZero r (Errors k)) l) e) error_kinds ec_default,
      tk_latency = foldl (h_add H) (new_hist H) (taken_hists r l)\<rparr>"

section \<open>The recorder\<close>

record 'h recorder =
  rc_task :: "'h task_stats option"
  rc_live :: "'h live_snapshot option"

definition run_acts :: "'h hist_ops \<Rightarrow> live_act list \<Rightarrow> 'h live_snapshot \<Rightarrow> 'h live_snapshot" where
  "run_acts H as s = fold (\<lambda>a t. fst (do_act H a t)) as s"

definition on_live :: "'h hist_ops \<Rightarrow> (nat \<Rightarrow> live_act list) \<Rightarrow> 'h recorder \<Rightarrow> 'h recorder" where
  "on_live H acts r =
     r\<lparr>rc_live := map_option (\<lambda>l. run_acts H (acts (length (lv_scenarios l))) l) (rc_live r)\<rparr>"

record sample =
  sa_latency :: duration
  sa_ttfb :: duration
  sa_bytes_sent :: u64
  sa_bytes_recv :: u64

definition rec_record :: "'h hist_ops \<Rightarrow> nat \<Rightarrow> u16 \<Rightarrow> sample \<Rightarrow> 'h recorder \<Rightarrow> 'h recorder" where
  "rec_record H sh sid x r =
     (let r1 = r\<lparr>rc_task := map_option (task_record H sid (sa_latency x) (sa_ttfb x) (sa_bytes_sent x) (sa_bytes_recv x))
                  (rc_task r)\<rparr>;
          ns = duration_to_hist_ns (sa_latency x)
      in on_live H (\<lambda>n. live_record sh ns (sa_bytes_sent x) (sa_bytes_recv x)
                       @ live_record_scenario n sh sid ns (sa_bytes_sent x) (sa_bytes_recv x)) r1)"

definition rec_record_ns ::
  "'h hist_ops \<Rightarrow> nat \<Rightarrow> u16 \<Rightarrow> nat \<Rightarrow> u64 \<Rightarrow> u64 \<Rightarrow> 'h recorder \<Rightarrow> 'h recorder" where
  "rec_record_ns H sh sid latency_ns bs br r =
     on_live H (\<lambda>n. live_record sh latency_ns bs br @ live_record_scenario n sh sid latency_ns bs br)
       (r\<lparr>rc_task := map_option (task_record H sid latency_ns 0 bs br) (rc_task r)\<rparr>)"

definition rec_record_error :: "'h hist_ops \<Rightarrow> u16 \<Rightarrow> error_kind \<Rightarrow> 'h recorder \<Rightarrow> 'h recorder" where
  "rec_record_error H sid k r =
     on_live H (\<lambda>n. live_record_error k @ live_record_scenario_error n sid k)
       (r\<lparr>rc_task := map_option (task_record_error sid k) (rc_task r)\<rparr>)"

section \<open>Transport errors\<close>

datatype transport_error =
    TeConnect string
  | TeTls string
  | TeTimeout
  | TeWrite string
  | TeRead string
  | TeProtocol string
  | TeRequestBuild string

fun classify :: "transport_error \<Rightarrow> error_kind" where
  "classify (TeConnect _) = EkConnect"
| "classify (TeTls _) = EkConnect"
| "classify TeTimeout = EkTimeout"
| "classify (TeWrite _) = EkWrite"
| "classify (TeRead _) = EkRead"
| "classify (TeProtocol _) = EkRead"
| "classify (TeRequestBuild _) = EkConnect"

section \<open>Interleaving\<close>

text \<open>
  Threads run their actions on a shared state, one at a time and in any order that keeps the order
  within each thread. The log lists what was done and what came out.
\<close>

type_synonym ('a, 's, 'o) threads = "'a list list \<times> 's \<times> ('a \<times> 'o) list"

inductive interleave :: "('a \<Rightarrow> 's \<Rightarrow> 's \<times> 'o) \<Rightarrow> ('a, 's, 'o) threads \<Rightarrow> ('a, 's, 'o) threads \<Rightarrow> bool"
  for step where
    start: "interleave step c c"
  | act: "interleave step c (ts, s, log) \<Longrightarrow> i < length ts \<Longrightarrow> ts ! i = a # as
      \<Longrightarrow> interleave step c (ts[i := as], fst (step a s), log @ [(a, snd (step a s))])"

text \<open>
  Counters that are only added to and taken from: at every moment what a counter holds and what was
  taken from it is what went into it. The laws ask this of a single action only.
\<close>

locale counter_bank =
  fixes step :: "'a \<Rightarrow> 's \<Rightarrow> 's \<times> 'o" and fits :: "'a \<Rightarrow> bool" and good :: "'s \<Rightarrow> bool"
    and get :: "'s \<Rightarrow> 'n :: comm_monoid_add" and gain :: "'a \<Rightarrow> 'n" and took :: "'a \<Rightarrow> 'o \<Rightarrow> 'n"
  assumes balance: "good s \<Longrightarrow> fits a \<Longrightarrow> get (fst (step a s)) + took a (snd (step a s)) = get s + gain a"
    and keeps: "good s \<Longrightarrow> fits a \<Longrightarrow> good (fst (step a s))"
begin

lemma conserved_from:
  assumes "interleave step c c'" "good (fst (snd c))" "\<forall>a \<in> set (concat (fst c)). fits a" "snd (snd c) = []"
  shows "(\<forall>a \<in> set (concat (fst c')). fits a) \<and> good (fst (snd c'))
    \<and> get (fst (snd c')) + sum_list (map (\<lambda>(a, x). took a x) (snd (snd c')))
      = get (fst (snd c)) + sum_list (map (\<lambda>(a, _). gain a) (snd (snd c')))"
  using assms
proof (induction rule: interleave.induct)
  case (act c ts s log i a as)
  have IH: "good s" "\<forall>a \<in> set (concat ts). fits a"
    "get s + sum_list (map (\<lambda>(a, x). took a x) log) = get (fst (snd c)) + sum_list (map (\<lambda>(a, _). gain a) log)"
    using act by simp_all
  have "a # as \<in> set ts" using act nth_mem by metis
  then have fits: "fits a" "\<forall>b \<in> set as. fits b" using IH(2) act by fastforce+
  have rest: "\<forall>b \<in> set (concat (ts[i := as])). fits b"
    using IH(2) fits(2) set_update_subset_insert [of ts i as] by fastforce
  have "get (fst (step a s)) + (sum_list (map (\<lambda>(a, x). took a x) log) + took a (snd (step a s)))
      = (get (fst (step a s)) + took a (snd (step a s))) + sum_list (map (\<lambda>(a, x). took a x) log)"
    by (simp add: ac_simps)
  also have "\<dots> = (get s + sum_list (map (\<lambda>(a, x). took a x) log)) + gain a"
    using balance [OF IH(1) fits(1)] by (simp add: ac_simps)
  finally show ?case using IH keeps [OF IH(1) fits(1)] rest by (simp add: add.assoc)
qed simp

lemma conserved:
  assumes "interleave step (ts0, s0, []) (ts, s, log)" "good s0" "\<forall>a \<in> set (concat ts0). fits a"
  shows "good s \<and> get s + sum_list (map (\<lambda>(a, x). took a x) log) = get s0 + sum_list (map (\<lambda>(a, _). gain a) log)"
  using conserved_from [OF assms(1)] assms(2,3) by simp

end

text \<open>Every action of every thread is done once, by the time all have finished.\<close>

lemma interleave_log_from:
  "interleave step c c' \<Longrightarrow> mset (map fst (snd (snd c'))) + mset (concat (fst c'))
     = mset (map fst (snd (snd c))) + mset (concat (fst c))"
proof (induction rule: interleave.induct)
  case (act c ts s log i a as)
  have "ts = take i ts @ (a # as) # drop (Suc i) ts" using act id_take_nth_drop by metis
  then have "mset (concat ts) = mset (concat (take i ts @ (a # as) # drop (Suc i) ts))" by simp
  then have "mset (concat ts) = add_mset a (mset (concat (ts[i := as])))"
    using act by (simp add: upd_conv_take_nth_drop)
  then show ?case using act by simp
qed simp

lemma interleave_log:
  "interleave step (ts0, s0, []) (ts, s, log) \<Longrightarrow> mset (map fst log) + mset (concat ts) = mset (concat ts0)"
  using interleave_log_from by fastforce

text \<open>Every run can be continued until all threads have finished.\<close>

lemma interleave_finish:
  "interleave step c (ts, s, log) \<Longrightarrow> \<exists>ts' s' log'. interleave step c (ts', s', log') \<and> concat ts' = []"
proof (induction "length (concat ts)" arbitrary: ts s log rule: less_induct)
  case less
  show ?case
  proof (cases "concat ts = []")
    case False
    then obtain t where "t \<in> set ts" "t \<noteq> []" by auto
    then obtain i a as where i: "i < length ts" "ts ! i = a # as" by (metis in_set_conv_nth list.exhaust)
    have st: "interleave step c (ts[i := as], fst (step a s), log @ [(a, snd (step a s))])"
      using interleave.act [OF less.prems i] .
    have "length (concat ts) = length (concat (take i ts @ (a # as) # drop (Suc i) ts))"
      using i id_take_nth_drop by metis
    then have "length (concat (ts[i := as])) < length (concat ts)"
      using i by (simp add: upd_conv_take_nth_drop)
    then show ?thesis using less.hyps [OF _ st] by blast
  qed (use less.prems in blast)
qed

section \<open>The cells as counters\<close>

lemma error_get_set: "error_get k (error_set k' v e) = (if k = k' then v else error_get k e)"
  by (cases k; cases k') simp_all

lemma cell_get_set [simp]: "cell_get c (cell_set c' v x) = (if c = c' then v else cell_get c x)"
  by (cases c; cases c') (simp_all add: error_get_set)

lemma cell_shards [simp]: "lv_shards (cell_set c v x) = lv_shards x" "cell_get c (x\<lparr>lv_shards := h\<rparr>) = cell_get c x"
  by (cases c; simp)+

lemma slot_at_put [simp]:
  "slot_at r s = Some x \<Longrightarrow> slot_at r' (slot_put r y s) = (if r' = r then Some y else slot_at r' s)"
  by (cases r; cases r') (auto split: if_splits)

definition held :: "slot_ref \<Rightarrow> cell \<Rightarrow> 'h live_snapshot \<Rightarrow> u64" where
  "held r c s = (case slot_at r s of Some x \<Rightarrow> cell_get c x | None \<Rightarrow> 0)"

fun gained :: "slot_ref \<Rightarrow> cell \<Rightarrow> live_act \<Rightarrow> u64" where
  "gained r c (FetchAdd r' c' n) = (if r' = r \<and> c' = c then n else 0)"
| "gained r c a = 0"

fun swapped :: "slot_ref \<Rightarrow> cell \<Rightarrow> live_act \<Rightarrow> 'h live_out \<Rightarrow> u64" where
  "swapped r c (SwapZero r' c') (OldValue v) = (if r' = r \<and> c' = c then v else 0)"
| "swapped r c a x = 0"

definition has_ref :: "slot_ref \<Rightarrow> 'h live_snapshot \<Rightarrow> bool" where
  "has_ref r s = (slot_at r s \<noteq> None)"

lemma has_ref_act: "has_ref r s \<Longrightarrow> has_ref r (fst (do_act H a s))"
  by (cases a) (auto simp: has_ref_def split: option.splits)

interpretation cells: counter_bank "do_act H" "\<lambda>_. True" "has_ref r" "held r c" "gained r c" "swapped r c" for H r c
proof
  fix a and s :: "'a live_snapshot"
  assume "has_ref r s"
  then show "held r c (fst (do_act H a s)) + swapped r c a (snd (do_act H a s)) = held r c s + gained r c a"
    by (cases a) (auto simp: held_def has_ref_def split: option.splits)
qed (auto intro: has_ref_act)

definition hist_held :: "('h \<Rightarrow> nat) \<Rightarrow> slot_ref \<Rightarrow> 'h live_snapshot \<Rightarrow> nat" where
  "hist_held len r s = (case slot_at r s of Some x \<Rightarrow> sum_list (map len (lv_shards x)) | None \<Rightarrow> 0)"

fun sampled :: "slot_ref \<Rightarrow> live_act \<Rightarrow> nat" where
  "sampled r (ShardRecord r' k ns) = (if r' = r then 1 else 0)"
| "sampled r a = 0"

fun replaced :: "('h \<Rightarrow> nat) \<Rightarrow> slot_ref \<Rightarrow> live_act \<Rightarrow> 'h live_out \<Rightarrow> nat" where
  "replaced len r (ShardReplace r' k) (OldHist h) = (if r' = r then len h else 0)"
| "replaced len r a x = 0"

text \<open>Every slot has its sixteen shards.\<close>

definition shards_ok :: "slot_ref \<Rightarrow> 'h live_snapshot \<Rightarrow> bool" where
  "shards_ok r s = (case slot_at r s of Some x \<Rightarrow> length (lv_shards x) = LATENCY_SHARDS | None \<Rightarrow> False)"

text \<open>The actions of the calls use existing shards and clamped samples.\<close>

fun act_ok :: "live_act \<Rightarrow> bool" where
  "act_ok (ShardRecord r k ns) = (k < LATENCY_SHARDS \<and> HIST_LO_NS \<le> ns \<and> ns \<le> HIST_HI_NS)"
| "act_ok _ = True"

lemma shard_total:
  "k < length xs \<Longrightarrow> sum_list (map f (xs[k := y])) + f (xs ! k) = sum_list (map f xs) + (f y :: nat)"
proof (induction xs arbitrary: k)
  case (Cons x xs)
  then show ?case by (cases k) (auto simp: add.assoc)
qed simp

lemma shard_bank:
  fixes H :: "'h hist_ops"
  assumes "hist_ok H len"
  shows "counter_bank (do_act H) act_ok (shards_ok r) (hist_held len r) (sampled r) (replaced len r)"
proof
  fix a and s :: "'h live_snapshot"
  assume s: "shards_ok r s" and a: "act_ok a"
  have len: "len (new_hist H) = 0" "HIST_LO_NS \<le> v \<Longrightarrow> v \<le> HIST_HI_NS \<Longrightarrow> len (h_record H h v) = Suc (len h)" for h v
    using assms by (simp_all add: hist_ok_def new_hist_def)
  show "hist_held len r (fst (do_act H a s)) + replaced len r a (snd (do_act H a s)) = hist_held len r s + sampled r a"
  proof (cases a)
    case (ShardRecord r' k ns)
    show ?thesis
    proof (cases "r' = r")
      case True
      obtain x where "slot_at r s = Some x" "length (lv_shards x) = LATENCY_SHARDS"
        using s by (auto simp: shards_ok_def split: option.splits)
      then show ?thesis
        using ShardRecord True a len(2) shard_total [of k "lv_shards x" len "h_record H (lv_shards x ! k) ns"]
        by (simp add: hist_held_def update_at_def)
    qed (use ShardRecord in \<open>auto simp: hist_held_def split: option.splits\<close>)
  next
    case (ShardReplace r' k)
    show ?thesis
    proof (cases "r' = r")
      case True
      obtain x where "slot_at r s = Some x" using s by (auto simp: shards_ok_def split: option.splits)
      then show ?thesis
        using ShardReplace True len(1) shard_total [of k "lv_shards x" len "new_hist H"]
        by (simp add: hist_held_def)
    qed (use ShardReplace in \<open>auto simp: hist_held_def split: option.splits\<close>)
  qed (auto simp: hist_held_def split: option.splits)
  show "shards_ok r (fst (do_act H a s))"
    using s by (cases a) (auto simp: shards_ok_def split: option.splits)
qed

section \<open>Calls of the workers and of the ticker\<close>

text \<open>What the recorder calls for a sample and for an error, and a tick.\<close>

datatype live_call = CallRecord nat u16 nat u64 u64 | CallError u16 error_kind | CallTick

fun call_acts :: "nat \<Rightarrow> live_call \<Rightarrow> live_act list" where
  "call_acts n (CallRecord sh sid ns bs br) = live_record sh ns bs br @ live_record_scenario n sh sid ns bs br"
| "call_acts n (CallError sid k) = live_record_error k @ live_record_scenario_error n sid k"
| "call_acts n CallTick = swap_and_snapshot n"

fun call_gain :: "slot_ref \<Rightarrow> cell \<Rightarrow> live_call \<Rightarrow> u64" where
  "call_gain r c (CallRecord sh sid ns bs br) =
     (if r = Aggregate \<or> r = OfScenario (unat sid)
      then (case c of Requests \<Rightarrow> 1 | BytesSent \<Rightarrow> bs | BytesRecv \<Rightarrow> br | Errors k \<Rightarrow> 0) else 0)"
| "call_gain r c (CallError sid k) =
     (if (r = Aggregate \<or> r = OfScenario (unat sid)) \<and> c = Errors k then 1 else 0)"
| "call_gain r c CallTick = 0"

fun call_samples :: "slot_ref \<Rightarrow> live_call \<Rightarrow> nat" where
  "call_samples r (CallRecord sh sid ns bs br) = (if r = Aggregate \<or> r = OfScenario (unat sid) then 1 else 0)"
| "call_samples r _ = 0"

fun ref_ok :: "nat \<Rightarrow> slot_ref \<Rightarrow> bool" where
  "ref_ok n Aggregate = True"
| "ref_ok n (OfScenario i) = (i < n)"

lemma swap_acts:
  "a \<in> set (swap_and_snapshot n) \<Longrightarrow> gained r c a = 0 \<and> sampled r a = 0 \<and> act_ok a"
  by (auto simp: swap_and_snapshot_def swap_slot_def swap_all_def)

lemma clamp_bounds: "HIST_LO_NS \<le> clamp_ns ns" "clamp_ns ns \<le> HIST_HI_NS"
  by (simp_all add: clamp_ns_def HIST_LO_NS_def HIST_HI_NS_def)

lemma call_act_ok: "a \<in> set (call_acts n k) \<Longrightarrow> act_ok a"
  by (cases k) (auto simp: live_record_def live_record_scenario_def slot_record_def live_record_error_def
      live_record_scenario_error_def pick_shard_def LATENCY_SHARDS_def clamp_bounds dest: swap_acts
      split: if_splits)

lemma call_gained:
  assumes "ref_ok n r"
  shows "sum_list (map (gained r c) (call_acts n k)) = call_gain r c k
    \<and> sum_list (map (sampled r) (call_acts n k)) = call_samples r k"
proof (cases k)
  case CallTick
  then show ?thesis by (simp add: swap_acts sum_list_0 cong: map_cong)
next
  case (CallRecord sh sid ns bs br)
  then show ?thesis using assms
    by (cases c; cases r) (auto simp: live_record_def live_record_scenario_def slot_record_def)
next
  case (CallError sid e)
  then show ?thesis using assms
    by (cases c; cases r) (auto simp: live_record_error_def live_record_scenario_error_def)
qed

text \<open>The sum over the log of a finished run is the sum over the calls.\<close>

lemma log_total:
  fixes f :: "live_act \<Rightarrow> 'n :: comm_monoid_add"
  assumes "interleave step (map (\<lambda>cs. concat (map (call_acts n) cs)) threads, s0, []) (ts, s, log)" "concat ts = []"
  shows "sum_list (map (\<lambda>(a, _). f a) log)
    = sum_list (map (\<lambda>k. sum_list (map f (call_acts n k))) (concat threads))"
proof -
  have split_calls: "concat (map (\<lambda>cs. concat (map (call_acts n) cs)) threads) = concat (map (call_acts n) (concat threads))"
    by (induction threads) simp_all
  have "mset (map fst log) = mset (concat (map (call_acts n) (concat threads)))"
    using interleave_log [OF assms(1)] assms(2) split_calls by simp
  then have "sum_list (map f (map fst log)) = sum_list (map f (concat (map (call_acts n) (concat threads))))"
    by (rule sum_list_perm)
  moreover have "sum_list (map f (concat (map g xs))) = sum_list (map (\<lambda>k. sum_list (map f (g k))) xs)" for g and xs :: "live_call list"
    by (induction xs) simp_all
  ultimately show ?thesis by (simp add: comp_def case_prod_unfold)
qed

section \<open>Properties\<close>

text \<open>
  Property C9. No sample and no error is lost or counted twice by the live counters, however the
  workers and the ticker interleave: for the aggregate and for every scenario, what all ticks took
  together with what is still there is exactly what the calls recorded (requests, bytes, each kind
  of error, and the number of latency samples).
\<close>

theorem live_conservation:
  assumes "hist_ok H len" "ref_ok n r" "concat ts = []"
    and "interleave (do_act H) (map (\<lambda>cs. concat (map (call_acts n) cs)) threads, live_new H n now, []) (ts, s, log)"
  shows "held r c s + sum_list (map (\<lambda>(a, x). swapped r c a x) log) = sum_list (map (call_gain r c) (concat threads))
    \<and> hist_held len r s + sum_list (map (\<lambda>(a, x). replaced len r a x) log) = sum_list (map (call_samples r) (concat threads))"
proof -
  let ?s0 = "live_new H n now"
  have at: "slot_at r ?s0 = Some (live_slot_new H)"
    using assms(2) by (cases r) (simp_all add: live_new_def)
  have zero: "cell_get c (live_slot_new H) = 0"
  proof (cases c)
    case (Errors k)
    then show ?thesis by (cases k) (simp_all add: live_slot_new_def ec_default_def)
  qed (simp_all add: live_slot_new_def)
  have "sum_list (map len (lv_shards (live_slot_new H))) = 0"
    using assms(1) by (simp add: live_slot_new_def hist_ok_def new_hist_def sum_list_replicate)
  then have ref: "has_ref r ?s0" "shards_ok r ?s0" "held r c ?s0 = 0" "hist_held len r ?s0 = 0"
    using at zero by (simp_all add: has_ref_def shards_ok_def held_def hist_held_def live_slot_new_def)
  have ok: "\<forall>a \<in> set (concat (map (\<lambda>cs. concat (map (call_acts n) cs)) threads)). act_ok a"
    using call_act_ok by fastforce
  have "held r c s + sum_list (map (\<lambda>(a, x). swapped r c a x) log) = 0 + sum_list (map (\<lambda>(a, _). gained r c a) log)"
    using cells.conserved [OF assms(4), of r c] ref by simp
  moreover have "hist_held len r s + sum_list (map (\<lambda>(a, x). replaced len r a x) log)
      = 0 + sum_list (map (\<lambda>(a, _). sampled r a) log)"
    using counter_bank.conserved [OF shard_bank [OF assms(1)] assms(4) _ ok, of r] ref by simp
  ultimately show ?thesis
    using call_gained [OF assms(2)] by (simp add: log_total [OF assms(4,3)])
qed

lemma live_conservation_witness:
  "\<exists>ts s log. concat ts = [] \<and>
     interleave (do_act sample_hist) (map (\<lambda>cs. concat (map (call_acts 2) cs))
       [[CallRecord 3 1 700 10 20, CallError 1 EkRead], [CallTick, CallTick]], live_new sample_hist 2 0, []) (ts, s, log)
     \<and> held (OfScenario 1) BytesRecv s
         + sum_list (map (\<lambda>(a, x). swapped (OfScenario 1) BytesRecv a x) log) = 20
     \<and> hist_held length (OfScenario 1) s + sum_list (map (\<lambda>(a, x). replaced length (OfScenario 1) a x) log) = 1"
proof -
  obtain ts s log where run: "concat ts = []"
    "interleave (do_act sample_hist) (map (\<lambda>cs. concat (map (call_acts 2) cs))
       [[CallRecord 3 1 700 10 20, CallError 1 EkRead], [CallTick, CallTick]], live_new sample_hist 2 0, []) (ts, s, log)"
    using interleave_finish [OF interleave.start] by metis
  show ?thesis
    using live_conservation [OF sample_hist_ok _ run, of "OfScenario 1" BytesRecv] run by fastforce
qed

end
