(* ===== verification/Dispatch.thy ===== *)
theory Dispatch
  imports Plans Stats
begin

text \<open>
  The dispatcher of \<open>zerobench-backends/src/dispatch.rs\<close>: which backend runs which part of a plan,
  and in which order their statistics are concatenated. A backend run is the argument \<open>run\<close>:
  for the backend and the plan it is given, the statistics of its workers, or \<open>None\<close> when its
  thread panicked; \<open>backend_ok\<close> is the shape every backend's result has (one row per scenario of
  the plan it was given).
\<close>

datatype backend =
    BMioH1 | BColdConnect | BSseHold | BSseFanout | BSseStorm
  | BWsEcho | BWsHold | BWsPush | BWsFanout

type_synonym 'h runner = "backend \<Rightarrow> plan \<Rightarrow> 'h task_stats list option"

definition has_protocol :: "protocol \<Rightarrow> plan \<Rightarrow> bool" where
  "has_protocol p pl = list_ex (\<lambda>s. scenario_protocol s = p) (pl_scenarios pl)"

definition sub_plan :: "plan \<Rightarrow> protocol \<Rightarrow> plan" where
  "sub_plan pl p = pl\<lparr>pl_scenarios := filter (\<lambda>s. scenario_protocol s = p) (pl_scenarios pl)\<rparr>"

fun is_pause :: "step \<Rightarrow> bool" where
  "is_pause (Pause _) = True"
| "is_pause (PauseRandom _ _) = True"
| "is_pause _ = False"

definition first_wire_step :: "plan \<Rightarrow> step option" where
  "first_wire_step pl =
     List.find (\<lambda>s. \<not> is_pause s) (concat (map sn_steps (pl_scenarios pl)))"

fun is_cold :: "step \<Rightarrow> bool" where
  "is_cold (HttpColdConnect _) = True"
| "is_cold _ = False"

definition any_http_is_cold :: "plan \<Rightarrow> bool" where
  "any_http_is_cold pl =
     list_ex (\<lambda>s. scenario_protocol s = Http \<and> list_ex is_cold (sn_steps s)) (pl_scenarios pl)"

text \<open>\<open>None\<close> is the \<open>unreachable!\<close> arm.\<close>

definition route :: "plan \<Rightarrow> backend option" where
  "route pl =
     (case first_wire_step pl of
        Some (Request _) \<Rightarrow> Some (if any_http_is_cold pl then BColdConnect else BMioH1)
      | Some (HttpColdConnect _) \<Rightarrow> Some BColdConnect
      | Some (SseHold _) \<Rightarrow> Some BSseHold
      | Some (SseFanout _) \<Rightarrow> Some BSseFanout
      | Some (SseReconnectStorm _) \<Rightarrow> Some BSseStorm
      | Some (WsEchoRtt _) \<Rightarrow> Some BWsEcho
      | Some (WsHold _) \<Rightarrow> Some BWsHold
      | Some (WsServerPushRtt _) \<Rightarrow> Some BWsPush
      | Some (WsFanout _) \<Rightarrow> Some BWsFanout
      | Some (Pause _) \<Rightarrow> None
      | Some (PauseRandom _ _) \<Rightarrow> None
      | None \<Rightarrow> Some BMioH1)"

definition run_one_protocol :: "'h runner \<Rightarrow> plan \<Rightarrow> 'h task_stats list option" where
  "run_one_protocol run pl = (case route pl of Some b \<Rightarrow> run b pl | None \<Rightarrow> None)"

definition active_protocols :: "plan \<Rightarrow> protocol list" where
  "active_protocols pl = filter (\<lambda>p. has_protocol p pl) [Http, Sse, Ws]"

text \<open>One protocol runs inline, so its panic is the caller's; a panicked thread contributes nothing.\<close>

definition run_plan :: "'h runner \<Rightarrow> plan \<Rightarrow> 'h task_stats list option" where
  "run_plan run pl =
     (let active = length (active_protocols pl) in
      if active \<le> 1 then
        (if pl_scenarios pl = [] \<or> active = 0 then Some [] else run_one_protocol run pl)
      else Some (concat (map (\<lambda>p. case run_one_protocol run (sub_plan pl p) of
             Some stats \<Rightarrow> stats | None \<Rightarrow> []) (active_protocols pl))))"

definition backend_ok :: "'h runner \<Rightarrow> bool" where
  "backend_ok run =
     (\<forall>b pl. \<exists>ts. run b pl = Some ts
        \<and> (\<forall>t \<in> set ts. length (ts_per_scenario t) = length (pl_scenarios pl)))"

section \<open>Lemmas\<close>

lemma is_pause_protocol: "is_pause s = (step_protocol s = None)"
  by (cases s) simp_all

lemma route_total: "route pl \<noteq> None"
proof (cases "first_wire_step pl")
  case None
  then show ?thesis by (simp add: route_def)
next
  case (Some s)
  then have "\<not> is_pause s" by (auto simp: first_wire_step_def find_Some_iff)
  with Some show ?thesis by (cases s) (auto simp: route_def)
qed

fun backend_protocol :: "backend \<Rightarrow> protocol" where
  "backend_protocol BMioH1 = Http"
| "backend_protocol BColdConnect = Http"
| "backend_protocol BSseHold = Sse"
| "backend_protocol BSseFanout = Sse"
| "backend_protocol BSseStorm = Sse"
| "backend_protocol _ = Ws"

lemma first_step_protocol:
  assumes "\<forall>s \<in> set ss. scenario_protocol s = p"
    and "List.find (\<lambda>s. \<not> is_pause s) (concat (map sn_steps ss)) = Some st"
  shows "step_protocol st = Some p"
  using assms
proof (induction ss)
  case (Cons s ss)
  show ?case
  proof (cases rule: steps_protocol_cases [of "sn_steps s"])
    case (wire ps x rest)
    have "List.find (\<lambda>s. \<not> is_pause s) (ps @ x # rest @ xs) = Some x" for xs
      using wire(2,3) by (induction ps) (auto simp: is_pause_protocol)
    then have "st = x" using Cons.prems(2) wire(1) by simp
    then show ?thesis using wire(1,3) Cons.prems(1) by (simp add: scenario_protocol_def)
  next
    case none
    have "List.find (\<lambda>s. \<not> is_pause s) (xs @ ys) = List.find (\<lambda>s. \<not> is_pause s) ys"
      if "\<forall>s \<in> set xs. is_pause s" for xs ys using that by (induction xs) auto
    then show ?thesis using Cons none(1) by (simp add: is_pause_protocol)
  qed
qed simp

lemma route_protocol:
  assumes "\<forall>s \<in> set (pl_scenarios pl). scenario_protocol s = p" "pl_scenarios pl \<noteq> []" "route pl = Some b"
  shows "backend_protocol b = p"
proof (cases "first_wire_step pl")
  case (Some st)
  then have "step_protocol st = Some p"
    using first_step_protocol [OF assms(1)] by (simp add: first_wire_step_def)
  then show ?thesis using assms(3) Some by (cases st) (auto simp: route_def split: if_splits)
next
  case None
  then have "b = BMioH1" using assms(3) by (simp add: route_def)
  obtain s ss where s: "pl_scenarios pl = s # ss" using assms(2) by (cases "pl_scenarios pl") auto
  have "\<forall>x \<in> set (sn_steps s). is_pause x"
    using None s by (auto simp: first_wire_step_def find_None_iff)
  then have "scenario_protocol s = Http"
    using steps_protocol_pauses [of "sn_steps s" "[]"] by (simp add: scenario_protocol_def is_pause_protocol)
  then show ?thesis using \<open>b = BMioH1\<close> assms(1) s by simp
qed

lemma active_iff: "p \<in> set (active_protocols pl) \<longleftrightarrow> has_protocol p pl"
  by (cases p) (simp_all add: active_protocols_def)

lemma active_set: "set (active_protocols pl) = scenario_protocol ` set (pl_scenarios pl)"
  by (auto simp: active_iff has_protocol_def list_ex_iff)

lemma active_distinct: "distinct (active_protocols pl)"
  by (simp add: active_protocols_def)

lemma distinct_one: "distinct xs \<Longrightarrow> set xs = {p} \<Longrightarrow> xs = [p]"
proof -
  assume xs: "distinct xs" "set xs = {p}"
  then have "length xs = 1" using distinct_card [of xs] by simp
  then obtain y where "xs = [y]" by (cases xs) auto
  then show "xs = [p]" using xs(2) by simp
qed

lemma sum_over_active:
  fixes f :: "scenario \<Rightarrow> nat"
  shows "(\<Sum>p \<leftarrow> active_protocols pl. \<Sum>s \<leftarrow> pl_scenarios (sub_plan pl p). f s) = (\<Sum>s \<leftarrow> pl_scenarios pl. f s)"
proof -
  have three: "(\<Sum>p \<leftarrow> [Http, Sse, Ws]. \<Sum>s \<leftarrow> filter (\<lambda>s. scenario_protocol s = p) ss. f s) = (\<Sum>s \<leftarrow> ss. f s)" for ss
  proof (induction ss)
    case (Cons s ss)
    then show ?case by (cases "scenario_protocol s") simp_all
  qed simp
  have none: "\<not> has_protocol p pl \<Longrightarrow> filter (\<lambda>s. scenario_protocol s = p) (pl_scenarios pl) = []" for p
    by (auto simp: has_protocol_def list_ex_iff filter_empty_conv)
  show ?thesis using three [of "pl_scenarios pl"] none [of Http] none [of Sse] none [of Ws]
    by (cases "has_protocol Http pl"; cases "has_protocol Sse pl"; cases "has_protocol Ws pl")
       (simp_all add: active_protocols_def sub_plan_def)
qed

text \<open>A concrete plan and runner, for the witnesses.\<close>

definition demo_hold :: ws_hold_plan where
  "demo_hold = \<lparr>whp_url = template_literal ''ws://h/'', whp_headers = [], whp_connections = 1,
     whp_heartbeat = 0, whp_heartbeat_frame = HbPing, whp_hold_for = 5\<rparr>"

definition demo_run :: "nat list runner" where
  "demo_run b pl = Some [task_stats_new sample_hist (length (pl_scenarios pl))]"

lemma demo_run_ok: "backend_ok demo_run"
  by (simp add: backend_ok_def demo_run_def task_stats_new_def fresh_scenarios_def)

definition demo_mixed :: plan where
  "demo_mixed = plan_new\<lparr>pl_scenarios := [scenario_new ''a'' [WsHold demo_hold], scenario_new ''b'' []]\<rparr>"

lemma demo_mixed_active: "active_protocols demo_mixed = [Http, Ws]"
  by (simp add: demo_mixed_def active_protocols_def has_protocol_def scenario_protocol_def scenario_new_def)

section \<open>Properties\<close>

text \<open>
  Dispatching is total and keeps to the protocol: the \<open>unreachable!\<close> arm is never
  reached, and a plan whose scenarios all speak one protocol is run, exactly once, by a backend of
  that protocol, on the plan itself.
\<close>

lemma dispatch_single:
  assumes "pl_scenarios pl \<noteq> []" "\<forall>s \<in> set (pl_scenarios pl). scenario_protocol s = p"
  shows "\<exists>b. backend_protocol b = p \<and> run_plan run pl = run b pl"
proof -
  obtain b where b: "route pl = Some b" using route_total [of pl] by auto
  have "set (active_protocols pl) = {p}"
    using assms by (cases "pl_scenarios pl") (auto simp: active_set)
  then have "active_protocols pl = [p]" by (rule distinct_one [OF active_distinct])
  then show ?thesis using b route_protocol [OF assms(2,1) b] assms(1)
    by (intro exI [of _ b]) (simp add: run_plan_def run_one_protocol_def)
qed

text \<open>
  A mixed plan is partitioned: every scenario is in the sub-plan of exactly one active
  protocol (so any quantity summed over the sub-plans is that of the plan), each sub-plan is run
  once by a backend of its protocol, and the statistics come in the order HTTP, SSE, WebSocket.
\<close>

lemma dispatch_mixed:
  fixes f :: "scenario \<Rightarrow> nat" and run :: "'h runner"
  assumes "1 < length (active_protocols pl)"
  shows "(\<Sum>p \<leftarrow> active_protocols pl. \<Sum>s \<leftarrow> pl_scenarios (sub_plan pl p). f s) = (\<Sum>s \<leftarrow> pl_scenarios pl. f s)
    \<and> (\<exists>bs. map backend_protocol bs = active_protocols pl
         \<and> run_plan run pl = Some (concat (map (\<lambda>b. case run b (sub_plan pl (backend_protocol b)) of
               Some stats \<Rightarrow> stats | None \<Rightarrow> []) bs)))"
proof -
  let ?b = "\<lambda>p. the (route (sub_plan pl p))"
  have b: "route (sub_plan pl p) = Some (?b p)" for p using route_total [of "sub_plan pl p"] by auto
  have one: "run_one_protocol run (sub_plan pl p) = run (?b p) (sub_plan pl p)" for p
    unfolding run_one_protocol_def by (subst b) simp
  have bp: "backend_protocol (?b p) = p" if "p \<in> set (active_protocols pl)" for p
  proof (rule route_protocol [OF _ _ b])
    show "\<forall>s \<in> set (pl_scenarios (sub_plan pl p)). scenario_protocol s = p" by (simp add: sub_plan_def)
    show "pl_scenarios (sub_plan pl p) \<noteq> []"
      using that unfolding active_set by (auto simp: sub_plan_def filter_empty_conv)
  qed
  have "map backend_protocol (map ?b (active_protocols pl)) = active_protocols pl"
    using bp by (simp add: map_idI)
  moreover have "run_plan run pl = Some (concat (map (\<lambda>b. case run b (sub_plan pl (backend_protocol b)) of
               Some stats \<Rightarrow> stats | None \<Rightarrow> []) (map ?b (active_protocols pl))))"
  proof -
    have eq: "map (\<lambda>p. case run_one_protocol run (sub_plan pl p) of Some stats \<Rightarrow> stats | None \<Rightarrow> []) (active_protocols pl)
        = map (\<lambda>b. case run b (sub_plan pl (backend_protocol b)) of Some stats \<Rightarrow> stats | None \<Rightarrow> [])
            (map ?b (active_protocols pl))"
      using bp one by simp
    have "run_plan run pl = Some (concat (map (\<lambda>p. case run_one_protocol run (sub_plan pl p) of
             Some stats \<Rightarrow> stats | None \<Rightarrow> []) (active_protocols pl)))"
      using assms by (simp add: run_plan_def Let_def)
    then show ?thesis by (simp only: eq)
  qed
  ultimately show ?thesis using sum_over_active [of f pl] by blast
qed

text \<open>
  The per-scenario report of a mixed plan is wrong: a sub-plan numbers its scenarios
  anew and the summary merges rows by number, with as many rows as the first task. So when more
  than one protocol is active the summary has fewer rows than the plan has scenarios, and its
  first row adds up the first scenarios of all the protocols.
\<close>

lemma mixed_plan_rows:
  fixes H :: "'h hist_ops" and d :: duration
  assumes "1 < length (active_protocols pl)" "backend_ok run" "run_plan run pl = Some (t # ts)"
  defines "rows \<equiv> ts_per_scenario (sm_stats (summary_merge H (t # ts) d))"
  shows "length rows < length (pl_scenarios pl)
    \<and> sc_requests (rows ! 0) = (\<Sum>x \<leftarrow> t # ts. sc_requests (ts_per_scenario x ! 0))"
proof -
  have sub: "\<exists>p \<in> set (active_protocols pl). length (ts_per_scenario x) = length (pl_scenarios (sub_plan pl p))"
    if x: "x \<in> set (t # ts)" for x
  proof -
    have "t # ts = concat (map (\<lambda>p. case run_one_protocol run (sub_plan pl p) of
             Some stats \<Rightarrow> stats | None \<Rightarrow> []) (active_protocols pl))"
      using assms(1,3) by (simp add: run_plan_def Let_def)
    then obtain p where p: "p \<in> set (active_protocols pl)"
      "x \<in> set (case run_one_protocol run (sub_plan pl p) of Some stats \<Rightarrow> stats | None \<Rightarrow> [])"
      using x by (metis (no_types, lifting) UN_iff in_set_conv_nth list.set_map imageE set_concat)
    obtain b where b: "route (sub_plan pl p) = Some b" using route_total by blast
    obtain us where us: "run b (sub_plan pl p) = Some us"
      "\<forall>t \<in> set us. length (ts_per_scenario t) = length (pl_scenarios (sub_plan pl p))"
      using assms(2) unfolding backend_ok_def by blast
    then have "x \<in> set us" using p(2) b by (simp add: run_one_protocol_def)
    then show ?thesis using us(2) p(1) by blast
  qed
  have bounds: "0 < length (pl_scenarios (sub_plan pl p)) \<and> length (pl_scenarios (sub_plan pl p)) < length (pl_scenarios pl)"
    if p: "p \<in> set (active_protocols pl)" for p
  proof -
    have "\<not> set (active_protocols pl) \<subseteq> {p}"
    proof
      assume "set (active_protocols pl) \<subseteq> {p}"
      then have "length (active_protocols pl) \<le> 1"
        using distinct_card [OF active_distinct, of pl] card_mono [of "{p}" "set (active_protocols pl)"] by simp
      then show False using assms(1) by simp
    qed
    then obtain s where "s \<in> set (pl_scenarios pl)" "scenario_protocol s \<noteq> p" by (auto simp: active_set)
    then have "length (filter (\<lambda>s. scenario_protocol s = p) (pl_scenarios pl)) < length (pl_scenarios pl)"
      by (rule length_filter_less)
    moreover have "\<exists>s \<in> set (pl_scenarios pl). scenario_protocol s = p" using p by (auto simp: active_set)
    ultimately show ?thesis by (simp add: sub_plan_def filter_empty_conv)
  qed
  have pos: "0 < length (ts_per_scenario x) \<and> length (ts_per_scenario x) < length (pl_scenarios pl)"
    if x: "x \<in> set (t # ts)" for x
  proof -
    obtain p where p: "p \<in> set (active_protocols pl)"
      "length (ts_per_scenario x) = length (pl_scenarios (sub_plan pl p))" using sub [OF x] by blast
    show ?thesis using bounds [OF p(1)] p(2) by simp
  qed
  have "scenario_parts 0 us = map (\<lambda>x. ts_per_scenario x ! 0) us" if "set us \<subseteq> set (t # ts)" for us
    using that
  proof (induction us)
    case (Cons u us)
    then have "0 < length (ts_per_scenario u)" using pos [of u] by simp
    then show ?case using Cons by (simp add: scenario_parts_def)
  qed (simp add: scenario_parts_def)
  then have "scenario_parts 0 (t # ts) = map (\<lambda>x. ts_per_scenario x ! 0) (t # ts)" by blast
  then show ?thesis
    using scenario_rows_sum [of 0 t H ts d] pos [of t] by (simp add: rows_def comp_def)
qed

end
