(* ===== verification/H1Common.thy ===== *)
theory H1Common
  imports Plans Decoder Transport
begin

text \<open>
  What the HTTP/1.1 backends share, \<open>zerobench-backends/src/http/raw_h1_common.rs\<close>: the request
  builder, the readings of the response headers that decide the framing, the incremental decoder of
  chunked bodies, and the assertions and extractions made on a response. Response headers are the
  name-value pairs of the header parser (httparse).
\<close>

section \<open>Building a request\<close>

datatype connection_mode = KeepAlive | CloseConn

text \<open>The state of the process that a template expansion may touch.\<close>

record proc_state =
  ps_global :: u64
  ps_cursors :: "nat \<Rightarrow> nat"
  ps_ticks :: nat

definition expand_ctx_of :: "'r scenario_context \<Rightarrow> proc_state \<Rightarrow> 'r expand_ctx" where
  "expand_ctx_of c g = \<lparr>ex_rng = cx_rng c, ex_counter = cx_counter c, ex_vars = cx_vars c,
     ex_global = ps_global g, ex_cursors = ps_cursors g, ex_ticks = ps_ticks g\<rparr>"

definition put_back :: "'r expand_ctx \<Rightarrow> 'r scenario_context \<Rightarrow> 'r scenario_context" where
  "put_back x c = c\<lparr>cx_rng := ex_rng x, cx_counter := ex_counter x\<rparr>"

definition proc_of :: "'r expand_ctx \<Rightarrow> proc_state" where
  "proc_of x = \<lparr>ps_global = ex_global x, ps_cursors = ex_cursors x, ps_ticks = ex_ticks x\<rparr>"

definition find_subsequence :: "bytes \<Rightarrow> bytes \<Rightarrow> nat option" where
  "find_subsequence haystack needle =
     (if length haystack < length needle then None else find_sub needle haystack)"

definition is_path_start :: "char \<Rightarrow> bool" where
  "is_path_start b = (b = CHR ''/'' \<or> b = CHR ''?'' \<or> b = CHR ''#'')"

definition strip_fragment :: "bytes \<Rightarrow> bytes" where
  "strip_fragment u = (case find_pos (\<lambda>b. b = CHR ''#'') u of Some i \<Rightarrow> take i u | None \<Rightarrow> u)"

text \<open>The origin form of an expanded URL.\<close>

definition origin_form :: "bytes \<Rightarrow> bytes" where
  "origin_form url =
     (if is_prefix ''http'' url then
        (case find_subsequence url ''://'' of
           None \<Rightarrow> url
         | Some scheme_end \<Rightarrow>
             (let after_scheme = scheme_end + 3 in
              case map_option (\<lambda>p. after_scheme + p) (find_pos is_path_start (drop after_scheme url)) of
                Some rel \<Rightarrow>
                  (let path_portion = (if url ! rel = CHR ''?'' then CHR ''/'' # drop rel url else drop rel url);
                       without_frag = strip_fragment path_portion
                   in if without_frag = [] then ''/'' else without_frag)
              | None \<Rightarrow> ''/''))
      else (let u = strip_fragment url in if u = [] then ''/'' else u))"

definition user_has_connection :: "headers \<Rightarrow> bool" where
  "user_has_connection hs =
     list_ex (\<lambda>(name, _). case static_literal name of Some b \<Rightarrow> eq_icase b ''connection'' | None \<Rightarrow> False) hs"

fun expand_headers :: "'r world \<Rightarrow> headers \<Rightarrow> bytes \<times> 'r expand_ctx \<Rightarrow> bytes \<times> 'r expand_ctx" where
  "expand_headers W [] ox = ox"
| "expand_headers W ((name, val) # hs) (out, x) =
     (let (o1, x1) = expand_into W name out x;
          (o2, x2) = expand_into W val (o1 @ '': '') x1
      in expand_headers W hs (o2 @ CRLF, x2))"

definition content_length_line :: "nat \<Rightarrow> bytes" where
  "content_length_line n = ''Content-Length: '' @ dec n @ CRLF @ CRLF"

definition build_raw_request ::
  "'r world \<Rightarrow> request_plan \<Rightarrow> target \<Rightarrow> connection_mode \<Rightarrow> bytes
     \<Rightarrow> 'r scenario_context \<times> proc_state \<Rightarrow> bytes \<times> 'r scenario_context \<times> proc_state" where
  "build_raw_request W pl t connection out cg =
     (let (c, g) = cg;
          out0 = out @ rq_method pl @ '' '';
          (url, x1) = expand_into W (rq_url pl) [] (expand_ctx_of c g);
          out1 = out0 @ origin_form url @ '' HTTP/1.1'' @ CRLF @ ''Host: '' @ target_addr t @ CRLF;
          out2 = (if user_has_connection (rq_headers pl) then out1
                  else out1 @ (case connection of KeepAlive \<Rightarrow> ''Connection: keep-alive'' @ CRLF
                                                | CloseConn \<Rightarrow> ''Connection: close'' @ CRLF));
          (out3, x2) = expand_headers W (rq_headers pl) (out2, x1)
      in case rq_body pl of
           None \<Rightarrow> (out3 @ CRLF, put_back x2 c, proc_of x2)
         | Some (BodyStatic b) \<Rightarrow> (out3 @ content_length_line (length b) @ b, put_back x2 c, proc_of x2)
         | Some (BodyTemplate tpl) \<Rightarrow>
             (let (b, x3) = expand_into W tpl [] x2 in
              (out3 @ content_length_line (length b) @ b, (put_back x3 c)\<lparr>cx_body_buf := b\<rparr>, proc_of x3)))"

section \<open>Reading response headers\<close>

type_synonym resp_headers = "(string \<times> bytes) list"

datatype content_length = ClMissing | ClPresent nat | ClMalformed

fun find_content_length_raw :: "resp_headers \<Rightarrow> content_length" where
  "find_content_length_raw [] = ClMissing"
| "find_content_length_raw ((name, value) # hs) =
     (if eq_icase name ''content-length'' then
        (if \<not> valid_utf8 value then ClMalformed
         else (case parse_uint 10 usize_max (trim value) of Some n \<Rightarrow> ClPresent n | None \<Rightarrow> ClMalformed))
      else find_content_length_raw hs)"

definition te_has_chunked :: "string \<times> bytes \<Rightarrow> bool" where
  "te_has_chunked h =
     (case h of (name, value) \<Rightarrow>
        eq_icase name ''transfer-encoding'' \<and> valid_utf8 value
        \<and> list_ex (\<lambda>token. eq_icase (trim token) ''chunked'') (split_on (CHR '','') value))"

definition find_transfer_encoding_chunked :: "resp_headers \<Rightarrow> bool" where
  "find_transfer_encoding_chunked hs = list_ex te_has_chunked hs"

fun find_connection_close :: "resp_headers \<Rightarrow> bool" where
  "find_connection_close [] = False"
| "find_connection_close ((name, value) # hs) =
     (if eq_icase name ''connection'' \<and> valid_utf8 value then eq_icase value ''close''
      else find_connection_close hs)"

section \<open>The chunked decoder\<close>

datatype h1_chunk_state = HcSize | HcData nat | HcTrailers

record chunked_decoder =
  ck_state :: h1_chunk_state
  ck_pos :: nat

datatype chunk_progress = CpNeedMore | CpDone nat | CpErr string

definition chunked_new :: chunked_decoder where
  "chunked_new = \<lparr>ck_state = HcSize, ck_pos = 0\<rparr>"

text \<open>The trimmed bytes, if any is not white space; \<open>from_str_radix\<close> also accepts a plus sign.\<close>

definition parse_hex_size :: "bytes \<Rightarrow> nat option" where
  "parse_hex_size bs =
     (case (find_pos (\<lambda>b. \<not> ascii_ws b) bs, rfind_pos (\<lambda>b. \<not> ascii_ws b) bs) of
        (Some start, Some stop) \<Rightarrow>
          (let slice = take (stop + 1 - start) (drop start bs) in
           if slice = [] \<or> \<not> valid_utf8 slice then None else parse_uint 16 usize_max slice)
      | _ \<Rightarrow> None)"

text \<open>The size on a chunk's first line, without the extensions after a semicolon.\<close>

definition line_size :: "bytes \<Rightarrow> nat option" where
  "line_size line =
     parse_hex_size (case find_pos (\<lambda>b. b = CHR '';'') line of Some i \<Rightarrow> take i line | None \<Rightarrow> line)"

text \<open>
  The end of a chunk is computed with saturating additions. No slice is as long as \<open>usize::MAX\<close>, so
  the test against the saturated end is the test against the exact one, which \<open>advance\<close> uses.
\<close>

definition sat :: "nat \<Rightarrow> nat" where "sat n = min n usize_max"

lemma sat_end_exact:
  "length body < usize_max \<Longrightarrow>
     (length body < sat (sat (pos + remaining) + 2)) = (length body < pos + remaining + 2)"
  by (auto simp: sat_def)

function advance :: "chunked_decoder \<Rightarrow> bytes \<Rightarrow> chunked_decoder \<times> chunk_progress" where
  "advance d body =
     (case ck_state d of
        HcSize \<Rightarrow>
          (if length body < ck_pos d then (d, CpNeedMore)
           else (let rem = drop (ck_pos d) body in
             case find_sub CRLF rem of
               None \<Rightarrow> (d, CpNeedMore)
             | Some line_end \<Rightarrow>
                 (case line_size (take line_end rem) of
                    None \<Rightarrow> (d, CpErr ''invalid chunk size'')
                  | Some sz \<Rightarrow>
                      advance \<lparr>ck_state = (if sz = 0 then HcTrailers else HcData sz),
                               ck_pos = ck_pos d + line_end + 2\<rparr> body)))
      | HcData remaining \<Rightarrow>
          (let need_end = ck_pos d + remaining + 2 in
           if length body < need_end then (d, CpNeedMore)
           else if take 2 (drop (ck_pos d + remaining) body) \<noteq> CRLF
             then (d, CpErr ''chunk missing trailing CRLF'')
           else advance \<lparr>ck_state = HcSize, ck_pos = need_end\<rparr> body)
      | HcTrailers \<Rightarrow>
          (if length body < ck_pos d then (d, CpNeedMore)
           else (let rem = drop (ck_pos d) body in
             if length rem < 2 then (d, CpNeedMore)
             else if is_prefix CRLF rem then (d\<lparr>ck_pos := ck_pos d + 2\<rparr>, CpDone (ck_pos d + 2))
             else (case find_sub (CRLF @ CRLF) rem of
                 Some p \<Rightarrow> (d\<lparr>ck_pos := ck_pos d + p + 4\<rparr>, CpDone (ck_pos d + p + 4))
               | None \<Rightarrow> (d, CpNeedMore)))))"
  by pat_completeness auto
termination
proof (relation "measure (\<lambda>(d, body). Suc (length body) - ck_pos d)", goal_cases)
  case (2 d body rem line_end)
  then have "line_end + 2 \<le> length (drop (ck_pos d) body)"
    using find_sub_SomeD [of CRLF "drop (ck_pos d) body" line_end] by (simp add: CRLF_def)
  with 2 show ?case by auto
qed (auto simp: sat_def)

declare advance.simps [simp del]

section \<open>Assertions and extractions\<close>

fun assertion_passes :: "u16 \<Rightarrow> duration \<Rightarrow> assertion \<Rightarrow> bool" where
  "assertion_passes status latency (StatusEq c) = (status = c)"
| "assertion_passes status latency (StatusIn cs) = (status \<in> set cs)"
| "assertion_passes status latency (LatencyUnder d) = (latency < d)"

definition check_assertions :: "request_plan \<Rightarrow> u16 \<Rightarrow> duration \<Rightarrow> u32" where
  "check_assertions pl status total_latency =
     foldl (\<lambda>failures check. if assertion_passes status total_latency check then failures else failures + 1)
       0 (rq_checks pl)"

fun apply_extraction ::
  "u16 \<Rightarrow> (bytes \<times> bytes) list \<Rightarrow> 'r scenario_context \<Rightarrow> extraction \<Rightarrow> 'r scenario_context" where
  "apply_extraction status hs c (ExtractHeader name slot) =
     (case List.find (\<lambda>(k, _). k = name) hs of
        Some (_, value) \<Rightarrow> set_var slot value c
      | None \<Rightarrow> clear_var slot c)"
| "apply_extraction status hs c (ExtractStatusCode slot) =
     (if status = 0 then set_var slot ''0'' c else set_var slot (digits_rev (unat status) []) c)"

definition apply_extractions ::
  "request_plan \<Rightarrow> u16 \<Rightarrow> (bytes \<times> bytes) list \<Rightarrow> 'r scenario_context \<Rightarrow> 'r scenario_context" where
  "apply_extractions pl status hs c = foldl (apply_extraction status hs) c (rq_extract pl)"

fun capture_headers :: "resp_headers \<Rightarrow> (bytes \<times> bytes) list" where
  "capture_headers [] = []"
| "capture_headers ((name, value) # hs) =
     (if name = [] then [] else (map ascii_lower name, value) # capture_headers hs)"

section \<open>The decoder is resumable\<close>

text \<open>The answer of a call: none while more bytes are needed.\<close>

definition chunk_run :: "chunked_decoder \<Rightarrow> bytes \<Rightarrow> chunked_decoder \<times> chunk_progress option" where
  "chunk_run d body = (let (d', p) = advance d body in (d', if p = CpNeedMore then None else Some p))"

lemma advance_stable:
  "advance d body = (d', p) \<Longrightarrow> p \<noteq> CpNeedMore \<Longrightarrow> advance d (body @ x) = (d', p)"
proof (induction d body rule: advance.induct)
  case (1 d body)
  show ?case
  proof (cases "ck_state d")
    case HcSize
    show ?thesis
    proof (cases "find_sub CRLF (drop (ck_pos d) body)")
      case None
      with HcSize 1(3,4) show ?thesis by (simp add: advance.simps [of d body] Let_def split: if_splits)
    next
      case (Some e)
      define r where "r = drop (ck_pos d) body"
      have e: "find_sub CRLF r = Some e" using Some by (simp add: r_def)
      note f = find_sub_append [OF e, of x] find_sub_SomeD [OF e]
      have le: "ck_pos d \<le> length body"
        using f(2) by (cases "ck_pos d \<le> length body") (auto simp: CRLF_def r_def)
      have dx: "drop (ck_pos d) (body @ x) = r @ x" using le by (simp add: r_def)
      have t: "take e (r @ x) = take e r" using f(2) by simp
      show ?thesis
      proof (cases "line_size (take e r)")
        case None
        then have "d' = d \<and> p = CpErr ''invalid chunk size''"
          using HcSize 1(3) le by (simp add: advance.simps [of d body] r_def [symmetric] e Let_def)
        then show ?thesis using HcSize le None
          by (simp add: advance.simps [of d "body @ x"] dx e f(1) t Let_def del: take_append drop_append)
      next
        case (Some n)
        with HcSize 1(3,4) le 1(1) [OF HcSize _ r_def e Some] show ?thesis
          by (simp add: advance.simps [of d] dx r_def [symmetric] e f(1) t Let_def del: take_append drop_append)
      qed
    qed
  next
    case (HcData n)
    then show ?thesis
      using 1(2) [OF HcData refl] 1(3,4)
      by (simp add: advance.simps [of d] Let_def split: if_splits)
  next
    case HcTrailers
    have pre: "2 \<le> length r \<Longrightarrow> is_prefix CRLF (r @ x) = is_prefix CRLF r" for r
      using is_prefix_append_iff [of CRLF r x] by (simp add: CRLF_def)
    show ?thesis
      using HcTrailers 1(3,4) pre [of "drop (ck_pos d) body"]
      by (auto simp: advance.simps [of d] Let_def find_sub_append split: if_splits option.splits)
  qed
qed

lemma advance_resume:
  "advance d body = (d', CpNeedMore) \<Longrightarrow> advance d' (body @ x) = advance d (body @ x)"
proof (induction d body rule: advance.induct)
  case (1 d body)
  show ?case
  proof (cases "ck_state d")
    case HcSize
    show ?thesis
    proof (cases "find_sub CRLF (drop (ck_pos d) body)")
      case None
      with HcSize 1(3) show ?thesis by (simp add: advance.simps [of d body] Let_def split: if_splits)
    next
      case (Some e)
      define r where "r = drop (ck_pos d) body"
      have e: "find_sub CRLF r = Some e" using Some by (simp add: r_def)
      note f = find_sub_append [OF e, of x] find_sub_SomeD [OF e]
      have le: "ck_pos d \<le> length body"
        using f(2) by (cases "ck_pos d \<le> length body") (auto simp: CRLF_def r_def)
      have dx: "drop (ck_pos d) (body @ x) = r @ x" using le by (simp add: r_def)
      have t: "take e (r @ x) = take e r" using f(2) by simp
      show ?thesis
      proof (cases "line_size (take e r)")
        case None
        with HcSize 1(3) le show ?thesis
          by (simp add: advance.simps [of d] dx r_def [symmetric] e f(1) t Let_def del: take_append drop_append)
      next
        case (Some n)
        with HcSize 1(3) le 1(1) [OF HcSize _ r_def e Some] show ?thesis
          by (simp add: advance.simps [of d] dx r_def [symmetric] e f(1) t Let_def del: take_append drop_append)
      qed
    qed
  next
    case (HcData n)
    then show ?thesis
      using 1(2) [OF HcData refl] 1(3)
      by (cases "length body < ck_pos d + n + 2") (simp_all add: advance.simps [of d] Let_def split: if_splits)
  next
    case HcTrailers
    then show ?thesis using 1(3)
      by (auto simp: advance.simps [of d body] Let_def split: if_splits option.splits)
  qed
qed

lemma advance_bound: "advance d body = (d', CpDone n) \<Longrightarrow> n \<le> length body \<and> ck_pos d' = n"
proof (induction d body rule: advance.induct)
  case (1 d body)
  show ?case
  proof (cases "ck_state d")
    case HcSize
    then show ?thesis
      using 1(1) [OF HcSize _ refl] 1(3)
      by (simp add: advance.simps [of d body] Let_def split: if_splits option.splits)
  next
    case (HcData k)
    then show ?thesis
      using 1(2) [OF HcData refl] 1(3) by (simp add: advance.simps [of d body] Let_def split: if_splits)
  next
    case HcTrailers
    then show ?thesis using 1(3) find_sub_SomeD [of "CRLF @ CRLF" "drop (ck_pos d) body"]
      by (auto simp: advance.simps [of d body] Let_def CRLF_def is_prefix_iff split: if_splits option.splits)
  qed
qed

interpretation h1_chunks: resumable chunk_run
  by unfold_locales
     (auto simp: chunk_run_def advance_resume advance_stable split: prod.splits if_splits)

section \<open>What a server sends\<close>

definition h1_chunk :: "string \<times> bytes \<Rightarrow> bytes" where
  "h1_chunk c = (case c of (ext, data) \<Rightarrow> hex (length data) @ ext @ CRLF @ data @ CRLF)"

definition h1_chunk_ok :: "string \<times> bytes \<Rightarrow> bool" where
  "h1_chunk_ok c = (case c of (ext, data) \<Rightarrow>
     data \<noteq> [] \<and> length data \<le> usize_max \<and> CR \<notin> set ext \<and> (ext = [] \<or> hd ext = CHR '';''))"

definition h1_body :: "(string \<times> bytes) list \<Rightarrow> string list \<Rightarrow> bytes" where
  "h1_body cs trailers = concat (map h1_chunk cs) @ ''0'' @ CRLF @ http_head trailers"

lemma is_hex_not_ws: "is_hex c \<Longrightarrow> \<not> ascii_ws c \<and> code c < 128"
  by (auto simp: is_hex_def digit_val_def ascii_ws_def Let_def split: if_splits)

lemma parse_hex_size_hex: "n \<le> usize_max \<Longrightarrow> parse_hex_size (hex n) = Some n"
proof -
  assume n: "n \<le> usize_max"
  have no: "\<forall>c \<in> set (hex n). \<not> ascii_ws c \<and> code c < 128" using hex_digits is_hex_not_ws by blast
  obtain h t where h: "hex n = h # t" by (cases "hex n") auto
  obtain b l where l: "hex n = b @ [l]" by (cases "hex n" rule: rev_cases) auto
  have "find_pos (\<lambda>b. \<not> ascii_ws b) (hex n) = Some 0" using no h by simp
  moreover have "rfind_pos (\<lambda>b. \<not> ascii_ws b) (hex n) = Some (length b)"
    using rfind_pos_last [of "\<lambda>b. \<not> ascii_ws b" l "[]" b] no l by simp
  moreover have "length (hex n) = length b + 1" using l by simp
  moreover have "valid_utf8 (hex n)" using no by (intro valid_utf8_ascii) blast
  ultimately show ?thesis using n parse_uint_hex [of n usize_max] by (simp add: parse_hex_size_def)
qed

lemma line_size_hex:
  "n \<le> usize_max \<Longrightarrow> ext = [] \<or> hd ext = CHR '';'' \<Longrightarrow> line_size (hex n @ ext) = Some n"
proof -
  assume n: "n \<le> usize_max" and e: "ext = [] \<or> hd ext = CHR '';''"
  have f: "find_pos (\<lambda>b. b = CHR '';'') (hex n @ ext) = map_option ((+) (length (hex n))) (find_pos (\<lambda>b. b = CHR '';'') ext)"
    using hex_fresh [of n] by (intro find_pos_skip) auto
  show ?thesis
  proof (cases ext)
    case Nil
    with f n show ?thesis by (simp add: line_size_def parse_hex_size_hex)
  next
    case (Cons a x)
    with e have "find_pos (\<lambda>b. b = CHR '';'') ext = Some 0" by simp
    with f n show ?thesis by (simp add: line_size_def parse_hex_size_hex)
  qed
qed

lemma advance_size_line:
  assumes "CR \<notin> set l" "line_size l = Some n"
  shows "advance \<lparr>ck_state = HcSize, ck_pos = length pre\<rparr> (pre @ l @ CRLF @ rest)
    = advance \<lparr>ck_state = (if n = 0 then HcTrailers else HcData n), ck_pos = length pre + length l + 2\<rparr>
        (pre @ l @ CRLF @ rest)"
proof -
  have "find_sub CRLF (l @ CRLF @ rest) = Some (length l)"
    using assms(1) by (intro find_sub_fresh) (simp_all add: CRLF_def)
  then show ?thesis
    using assms(2) by (subst advance.simps) simp
qed

lemma advance_chunk:
  assumes "h1_chunk_ok c"
  shows "advance \<lparr>ck_state = HcSize, ck_pos = length pre\<rparr> (pre @ h1_chunk c @ rest)
    = advance \<lparr>ck_state = HcSize, ck_pos = length (pre @ h1_chunk c)\<rparr> (pre @ h1_chunk c @ rest)"
proof -
  obtain ext data where c: "c = (ext, data)" by fastforce
  define l where "l = hex (length data) @ ext"
  have l: "CR \<notin> set l" "line_size l = Some (length data)" "data \<noteq> []"
    using assms hex_fresh [of "length data"] by (auto simp: c h1_chunk_ok_def l_def line_size_hex)
  have w: "h1_chunk c = l @ CRLF @ data @ CRLF" by (simp add: c h1_chunk_def l_def)
  define body where "body = pre @ l @ CRLF @ data @ CRLF @ rest"
  have "advance \<lparr>ck_state = HcSize, ck_pos = length pre\<rparr> body
      = advance \<lparr>ck_state = HcData (length data), ck_pos = length pre + length l + 2\<rparr> body"
    using advance_size_line [OF l(1,2), of pre "data @ CRLF @ rest"] l(3) by (simp add: body_def)
  also have "\<dots> = advance \<lparr>ck_state = HcSize, ck_pos = length pre + length l + 2 + length data + 2\<rparr> body"
  proof -
    have "take 2 (drop (length pre + length l + 2 + length data) body) = CRLF"
      "length pre + length l + 2 + length data + 2 \<le> length body"
      by (simp_all add: body_def) (simp_all add: CRLF_def)
    then show ?thesis by (subst advance.simps) simp
  qed
  finally show ?thesis by (simp add: w body_def) (simp add: CRLF_def add.commute add.left_commute)
qed

lemma advance_trailers:
  assumes "\<forall>t \<in> set ts. head_line t"
  shows "snd (advance \<lparr>ck_state = HcTrailers, ck_pos = length pre\<rparr> (pre @ http_head ts @ rest))
    = CpDone (length (pre @ http_head ts))"
proof (cases ts)
  case Nil
  then show ?thesis by (subst advance.simps) (simp add: http_head_def CRLF_def)
next
  case (Cons t ts')
  obtain c t' where t: "t = c # t'" "c \<noteq> CR" using assms Cons by (cases t) (auto simp: head_line_def)
  have len: "4 \<le> length (http_head ts)" using Cons t by (simp add: http_head_def CRLF_def)
  have np: "\<not> is_prefix CRLF (http_head ts @ rest)" using Cons t by (simp add: http_head_def) (simp add: CRLF_def)
  have "find_sub (CRLF @ CRLF) (http_head ts @ rest) = Some (length (http_head ts) - 4)"
    using find_blank_line [of ts rest] assms Cons by simp
  with len np show ?thesis by (subst advance.simps) simp
qed

lemma advance_body:
  assumes "\<forall>c \<in> set cs. h1_chunk_ok c" "\<forall>t \<in> set ts. head_line t"
  shows "snd (advance \<lparr>ck_state = HcSize, ck_pos = length pre\<rparr> (pre @ h1_body cs ts @ rest))
    = CpDone (length (pre @ h1_body cs ts))"
  using assms(1)
proof (induction cs arbitrary: pre)
  case Nil
  have "line_size ''0'' = Some 0" using line_size_hex [of 0 "[]"] by (simp add: hex.simps hex_char_def digit_lits)
  then show ?case
    using advance_size_line [of "''0''" 0 pre "http_head ts @ rest"]
      advance_trailers [OF assms(2), of "pre @ ''0'' @ CRLF" rest]
    by (simp add: h1_body_def) (simp add: CRLF_def)
next
  case (Cons c cs)
  have w: "h1_body (c # cs) ts = h1_chunk c @ h1_body cs ts" by (simp add: h1_body_def)
  show ?case
    using advance_chunk [of c pre "h1_body cs ts @ rest"] Cons.IH [of "pre @ h1_chunk c"] Cons.prems
    by (simp add: w add.assoc)
qed

lemma advance_full:
  assumes "\<forall>c \<in> set cs. h1_chunk_ok c" "\<forall>t \<in> set ts. head_line t"
  shows "snd (advance chunked_new (h1_body cs ts @ rest)) = CpDone (length (h1_body cs ts))"
  using advance_body [OF assms, of "[]" rest] by (simp add: chunked_new_def)

lemma advance_prefix:
  assumes "\<forall>c \<in> set cs. h1_chunk_ok c" "\<forall>t \<in> set ts. head_line t" "k < length (h1_body cs ts)"
  shows "snd (advance chunked_new (take k (h1_body cs ts))) = CpNeedMore"
proof -
  obtain d' p where a: "advance chunked_new (take k (h1_body cs ts)) = (d', p)" by fastforce
  show ?thesis
  proof (rule ccontr)
    assume "\<not> ?thesis"
    then have "advance chunked_new (h1_body cs ts) = (d', p)"
      using advance_stable [OF a, of "drop k (h1_body cs ts)"] a by simp
    with advance_full [OF assms(1,2), of "[]"] a show False using advance_bound assms(3) by fastforce
  qed
qed

section \<open>Lemmas on the request builder\<close>

text \<open>The header fields after expansion, in the order the builder expands them.\<close>

fun header_values :: "'r world \<Rightarrow> headers \<Rightarrow> 'r expand_ctx \<Rightarrow> (bytes \<times> bytes) list \<times> 'r expand_ctx" where
  "header_values W [] x = ([], x)"
| "header_values W ((name, val) # hs) x =
     (let (a, x1) = expand_into W name [] x; (b, x2) = expand_into W val [] x1;
          (r, x3) = header_values W hs x2
      in ((a, b) # r, x3))"

definition header_text :: "bytes \<times> bytes \<Rightarrow> bytes" where
  "header_text h = (case h of (a, b) \<Rightarrow> a @ '': '' @ b)"

lemma expand_headers_values:
  "header_values W hs x = (vs, x') \<Longrightarrow>
     expand_headers W hs (out, x) = (out @ concat (map (\<lambda>h. header_text h @ CRLF) vs), x')"
proof (induction W hs x arbitrary: out vs x' rule: header_values.induct)
  case (2 W name val hs x)
  obtain a x1 where a: "expand_into W name [] x = (a, x1)" by fastforce
  obtain b x2 where b: "expand_into W val [] x1 = (b, x2)" by fastforce
  obtain r x3 where r: "header_values W hs x2 = (r, x3)" by fastforce
  have "expand_into W name out x = (out @ a, x1)"
    "expand_into W val (out @ a @ '': '') x1 = (out @ a @ '': '' @ b, x2)"
    using expand_into_Nil [of W name out x] expand_into_Nil [of W val "out @ a @ '': ''" x1] a b by simp_all
  then show ?case
    using "2.IH" [OF a [symmetric] refl b [symmetric] refl r] "2.prems" a b r
    by (auto simp: header_text_def)
qed simp

lemma origin_form_subset: "set (origin_form url) \<subseteq> insert (CHR ''/'') (set url)"
  by (auto simp: origin_form_def strip_fragment_def Let_def split: option.splits if_splits
      dest: in_set_takeD in_set_dropD)

section \<open>Properties\<close>

text \<open>
  Property C12. Framing of chunked bodies. Whatever chunks a server sends, with any extensions and
  any trailer fields, and however the network cuts the bytes, also with the start of the next
  response behind them, the reader answers once it has the whole body and reports exactly its
  length; on every proper beginning of the body the decoder asks for more.
\<close>

theorem chunked_framing:
  assumes "\<forall>c \<in> set cs. h1_chunk_ok c" "\<forall>t \<in> set ts. head_line t"
    and "concat pieces = h1_body cs ts @ rest"
  shows "(\<exists>n \<le> length pieces. \<exists>d'. h1_chunks.reads chunked_new [] pieces
             = (d', concat (take n pieces), Some (CpDone (length (h1_body cs ts)))))
    \<and> (\<forall>k < length (h1_body cs ts). snd (advance chunked_new (take k (h1_body cs ts))) = CpNeedMore)"
proof
  note full = advance_full [OF assms(1,2)]
  have "chunk_run chunked_new [] = (chunked_new, None)"
    by (simp add: chunk_run_def chunked_new_def advance.simps CRLF_def)
  moreover have "\<exists>d'. chunk_run chunked_new ([] @ concat pieces) = (d', Some (CpDone (length (h1_body cs ts))))"
    using full [of rest] assms(3) by (auto simp: chunk_run_def Let_def split: prod.splits)
  ultimately show "\<exists>n \<le> length pieces. \<exists>d'. h1_chunks.reads chunked_new [] pieces
      = (d', concat (take n pieces), Some (CpDone (length (h1_body cs ts))))"
    using h1_chunks.reads_final by fastforce
  show "\<forall>k < length (h1_body cs ts). snd (advance chunked_new (take k (h1_body cs ts))) = CpNeedMore"
    using advance_prefix [OF assms(1,2)] by blast
qed

lemma chunked_framing_witness:
  "\<exists>n d'. h1_chunks.reads chunked_new [] [''3;a'', CRLF @ ''xyz'' @ CRLF, ''0'' @ CRLF @ CRLF @ ''HTTP'']
     = (d', concat (take n [''3;a'', CRLF @ ''xyz'' @ CRLF, ''0'' @ CRLF @ CRLF @ ''HTTP'']), Some (CpDone 15))"
  using chunked_framing [of "[('';a'', ''xyz'')]" "[]" "[''3;a'', CRLF @ ''xyz'' @ CRLF, ''0'' @ CRLF @ CRLF @ ''HTTP'']" "''HTTP''"]
  by (auto simp: h1_chunk_ok_def h1_body_def h1_chunk_def http_head_def hex.simps hex_char_def digit_lits CRLF_def usize_max_def)


definition demo_request :: request_plan where
  "demo_request = \<lparr>rq_method = ''POST'', rq_url = template_literal ''http://h/p?q#f'',
     rq_headers = [(template_literal ''A'', template_literal ''b'')], rq_body = Some (BodyStatic ''hi''),
     rq_extract = [ExtractStatusCode 0, ExtractHeader ''etag'' 1], rq_checks = [], rq_expect_streaming = False\<rparr>"

definition demo_target :: target where
  "demo_target = \<lparr>tg_host = ''h'', tg_port = 80, tg_tls = False, tg_sni = None, tg_family = FamAny\<rparr>"

definition demo_proc :: proc_state where
  "demo_proc = \<lparr>ps_global = 0, ps_cursors = (\<lambda>_. 0), ps_ticks = 0\<rparr>"


text \<open>
  The request target. For an absolute URL the request line carries the path and query:
  the authority and any fragment are gone, an empty path becomes a slash, and a query without a
  path gets one.
\<close>

lemma origin_form_absolute:
  assumes "scheme \<in> {''http'', ''https''}" "\<forall>c \<in> set auth. \<not> is_path_start c"
    and "tail = [] \<or> hd tail \<in> {CHR ''/'', CHR ''?''}" "CHR ''#'' \<notin> set tail" "frag = [] \<or> hd frag = CHR ''#''"
  shows "origin_form (scheme @ ''://'' @ auth @ tail @ frag)
    = (if tail = [] then ''/'' else if hd tail = CHR ''?'' then CHR ''/'' # tail else tail)"
proof -
  define url where "url = scheme @ ''://'' @ auth @ tail @ frag"
  define k where "k = length scheme + 3"
  have pre: "is_prefix ''http'' url" and sub: "find_subsequence url ''://'' = Some (length scheme)"
    and dk: "drop k url = auth @ tail @ frag"
    using assms(1) by (auto simp: url_def k_def find_subsequence_def)
  have fp: "find_pos is_path_start (auth @ tail @ frag) = map_option ((+) (length auth)) (find_pos is_path_start (tail @ frag))"
    using assms(2) by (intro find_pos_skip) blast
  have sf: "strip_fragment (t @ frag) = t" if "CHR ''#'' \<notin> set t" for t
  proof -
    have "find_pos (\<lambda>b. b = CHR ''#'') (t @ frag)
        = map_option ((+) (length t)) (find_pos (\<lambda>b. b = CHR ''#'') frag)"
      using that by (intro find_pos_skip) auto
    moreover have "frag = [] \<or> find_pos (\<lambda>b. b = CHR ''#'') frag = Some 0" using assms(5) by (cases frag) auto
    ultimately show ?thesis by (auto simp: strip_fragment_def)
  qed
  show ?thesis
  proof (cases "tail @ frag")
    case Nil
    then have "origin_form url = ''/''" using pre sub dk fp by (simp add: origin_form_def k_def)
    with Nil show ?thesis by (simp add: url_def)
  next
    case (Cons c r)
    then have c: "is_path_start c" "tail = [] \<longrightarrow> c = CHR ''#''" "tail \<noteq> [] \<longrightarrow> c = hd tail"
      using assms(3,5) by (cases tail; auto simp: is_path_start_def)+
    define rel where "rel = k + length auth"
    have rel: "drop rel url = tail @ frag" using dk by (simp add: rel_def add.commute [of k] drop_drop [symmetric] del: drop_drop)
    then have nth: "url ! rel = c" using Cons hd_drop_conv_nth [of rel url]
      by (cases "rel < length url") auto
    have fp': "find_pos is_path_start (drop (length scheme + 3) url) = Some (length auth)"
      using fp dk Cons c(1) by (simp add: k_def)
    have rel': "drop (length scheme + 3 + length auth) url = tail @ frag" "url ! (length scheme + 3 + length auth) = c"
      using rel nth by (simp_all only: rel_def k_def)
    have o: "origin_form url = (let path_portion = (if c = CHR ''?'' then CHR ''/'' # tail @ frag else tail @ frag);
          without_frag = strip_fragment path_portion in if without_frag = [] then ''/'' else without_frag)"
      using pre sub by (simp only: origin_form_def if_True option.case fp' option.map rel' Let_def)
    show ?thesis
      using o sf [of tail] sf [of "CHR ''/'' # tail"] c assms(4) by (cases "tail = []") (simp_all add: url_def Let_def)
  qed
qed

fun extract_slot :: "extraction \<Rightarrow> var_slot" where
  "extract_slot (ExtractHeader n s) = s"
| "extract_slot (ExtractStatusCode s) = s"

text \<open>An extraction is one write to the slot store.\<close>

fun extract_write :: "u16 \<Rightarrow> (bytes \<times> bytes) list \<Rightarrow> extraction \<Rightarrow> (var_slot, bytes) slot_write" where
  "extract_write status hs (ExtractHeader n s) =
     (case List.find (\<lambda>(k, _). k = n) hs of Some (_, v) \<Rightarrow> WSet s v | None \<Rightarrow> WClear s)"
| "extract_write status hs (ExtractStatusCode s) = WSet s (dec (unat status))"

lemma apply_extraction_write:
  "apply_extraction status hs c e = store.apply_write c (extract_write status hs e)"
  by (cases e) (auto simp: digits_rev_dec unat_gt_0 dec_0 split: option.splits)

lemma apply_extractions_writes:
  "apply_extractions pl status hs c = foldl store.apply_write c (map (extract_write status hs) (rq_extract pl))"
  unfolding apply_extractions_def foldl_map by (rule foldl_cong) (simp_all add: apply_extraction_write)

lemma capture_find:
  "\<forall>(k, v) \<in> set rhs. k \<noteq> [] \<Longrightarrow>
     map_option snd (List.find (\<lambda>(k, _). k = n) (capture_headers rhs))
       = map_option snd (List.find (\<lambda>(k, _). map ascii_lower k = n) rhs)"
  by (induction rhs rule: capture_headers.induct) auto


text \<open>
  An extraction leaves in its slot what it names, whatever the slot held before and
  whatever the other extractions do, if no later one uses the same slot: for a header the value of
  the first response header of that name in any case, or no value when there is none; for the status
  its decimal digits.
\<close>

lemma extraction_result:
  assumes "rq_extract pl = es @ e # fs" "\<forall>f \<in> set fs. extract_slot f \<noteq> extract_slot e"
    and "has_slot c (extract_slot e)" "\<forall>(k, v) \<in> set rhs. k \<noteq> []"
  shows "get_var (apply_extractions pl status (capture_headers rhs) c) (extract_slot e)
    = (case e of ExtractHeader n s \<Rightarrow> map_option snd (List.find (\<lambda>(k, _). map ascii_lower k = n) rhs)
               | ExtractStatusCode s \<Rightarrow> Some (dec (unat status)))"
proof -
  let ?w = "extract_write status (capture_headers rhs)"
  have skip: "store.written (extract_slot e) (map ?w fs) = None"
    using assms(2)
  proof (induction fs)
    case (Cons f fs)
    then show ?case by (cases f) (auto split: option.splits)
  qed simp
  have here: "store.written (extract_slot e) (map ?w (e # fs))
    = Some (case ?w e of WSet s v \<Rightarrow> Some v | WClear s \<Rightarrow> None)"
    using skip by (cases e) (auto split: option.splits slot_write.splits)
  have app: "store.written k (as @ bs) = (case store.written k bs of None \<Rightarrow> store.written k as | r \<Rightarrow> r)" for k as bs
    by (induction as) (auto split: option.splits)
  have "get_var (apply_extractions pl status (capture_headers rhs) c) (extract_slot e)
    = (case ?w e of WSet s v \<Rightarrow> Some v | WClear s \<Rightarrow> None)"
    unfolding apply_extractions_writes store.get_writes assms(1) map_append app here
    using assms(3) by simp
  then show ?thesis
    by (cases e) (auto simp: capture_find [OF assms(4), symmetric] split: option.splits)
qed

lemma lower_etag: "map ascii_lower ''ETag'' = ''etag''"
  by code_simp

end
