(* ===== verification/MioConn.thy ===== *)
theory MioConn
  imports H1Common Live
begin

text \<open>
  One connection of the keep-alive HTTP/1.1 backend, \<open>zerobench-backends/src/http/mio_h1.rs\<close>: loading
  a request, writing it, and the state machine that recognises the response in the bytes read so
  far. A socket is the script of what it answers to reads and to writes; at the end of a script it
  would block. The header parser (httparse) is a parameter.
\<close>

section \<open>A connection\<close>

definition find_header_end :: "bytes \<Rightarrow> nat option" where
  "find_header_end buf = map_option (\<lambda>p. p + 4) (find_sub (CRLF @ CRLF) buf)"

datatype h1_read = RdData bytes | RdBlock | RdErr

datatype h1_write = WrOk nat | WrBlock | WrErr

datatype conn_state =
    CsIdle
  | CsWriting
  | CsReadingHeaders
  | CsReadingBody nat nat
  | CsReadingChunked nat chunked_decoder
  | CsDead

record h1_conn =
  hc_reads :: "h1_read list"
  hc_writes :: "h1_write list"
  hc_sent :: bytes
  hc_state :: conn_state
  hc_read_buf :: bytes
  hc_write_buf :: bytes
  hc_write_offset :: nat
  hc_t0 :: instant
  hc_intended_start :: instant
  hc_ttfb :: duration
  hc_status :: u16
  hc_scenario_id :: u16
  hc_extracted :: "(bytes \<times> bytes) list"
  hc_skip_capture :: bool

definition h1_conn_new :: "h1_read list \<Rightarrow> h1_write list \<Rightarrow> instant \<Rightarrow> h1_conn" where
  "h1_conn_new reads writes now =
     \<lparr>hc_reads = reads, hc_writes = writes, hc_sent = [], hc_state = CsIdle, hc_read_buf = [],
      hc_write_buf = [], hc_write_offset = 0, hc_t0 = now, hc_intended_start = now, hc_ttfb = 0,
      hc_status = 0, hc_scenario_id = 0, hc_extracted = [], hc_skip_capture = False\<rparr>"

text \<open>\<open>now\<close> is the clock reading that becomes \<open>t0\<close>.\<close>

definition load_request :: "bytes \<Rightarrow> instant \<Rightarrow> instant \<Rightarrow> u16 \<Rightarrow> h1_conn \<Rightarrow> h1_conn" where
  "load_request request intended now sid c =
     c\<lparr>hc_write_buf := request, hc_write_offset := 0, hc_read_buf := [], hc_intended_start := intended,
       hc_t0 := now, hc_ttfb := 0, hc_status := 0, hc_scenario_id := sid, hc_extracted := [],
       hc_state := CsWriting\<rparr>"

definition prepare_request :: "bytes \<Rightarrow> instant \<Rightarrow> instant \<Rightarrow> h1_conn \<Rightarrow> h1_conn" where
  "prepare_request request intended now c = load_request request intended now 0 c"

definition prepare_request_from_template ::
  "'r world \<Rightarrow> request_plan \<Rightarrow> target \<Rightarrow> instant \<Rightarrow> u16 \<Rightarrow> instant
     \<Rightarrow> 'r scenario_context \<times> proc_state \<Rightarrow> h1_conn \<Rightarrow> h1_conn \<times> 'r scenario_context \<times> proc_state" where
  "prepare_request_from_template W rp t intended sid now cg c =
     (case build_raw_request W rp t KeepAlive [] cg of
        (request, cg') \<Rightarrow> (load_request request intended now sid c, cg'))"

text \<open>
  A write accepts at most what it is given. The result is \<open>Some True\<close> when everything is written,
  \<open>Some False\<close> when the socket would block, \<open>None\<close> for an error.
\<close>

fun write_loop :: "h1_write list \<Rightarrow> bytes \<Rightarrow> nat \<Rightarrow> bytes \<Rightarrow> h1_write list \<times> nat \<times> bytes \<times> bool option" where
  "write_loop [] buf off sent = ([], off, sent, Some (length buf \<le> off))"
| "write_loop (w # ws) buf off sent =
     (if length buf \<le> off then (w # ws, off, sent, Some True)
      else (case w of
              WrOk n \<Rightarrow>
                (let k = min n (length buf - off) in
                 if k = 0 then (ws, off, sent, None)
                 else write_loop ws buf (off + k) (sent @ take k (drop off buf)))
            | WrBlock \<Rightarrow> (ws, off, sent, Some False)
            | WrErr \<Rightarrow> (ws, off, sent, None)))"

definition try_write :: "h1_conn \<Rightarrow> h1_conn \<times> bool option" where
  "try_write c =
     (case write_loop (hc_writes c) (hc_write_buf c) (hc_write_offset c) (hc_sent c) of
        (ws, off, sent, r) \<Rightarrow> (c\<lparr>hc_writes := ws, hc_write_offset := off, hc_sent := sent\<rparr>, r))"

text \<open>What the header parser says of the bytes up to the blank line.\<close>

datatype parsed_head = HeadComplete nat "u16 option" resp_headers | HeadPartial | HeadError

datatype read_result = Complete u16 duration duration | Incomplete | Broken string

definition check_headers :: "(bytes \<Rightarrow> parsed_head) \<Rightarrow> instant \<Rightarrow> h1_conn \<Rightarrow> h1_conn \<times> read_result" where
  "check_headers parse now c =
     (let buf = hc_read_buf c in
      case find_header_end buf of
        None \<Rightarrow> (c, Incomplete)
      | Some header_end \<Rightarrow>
          (case parse (take header_end buf) of
             HeadPartial \<Rightarrow> (c, Incomplete)
           | HeadError \<Rightarrow> (c\<lparr>hc_state := CsDead\<rparr>, Broken ''HTTP response parse error'')
           | HeadComplete hdr_len code_opt hs \<Rightarrow>
               (let status = (case code_opt of Some s \<Rightarrow> s | None \<Rightarrow> 0);
                    ttfb = now - hc_t0 c;
                    keep_alive = (\<not> find_connection_close hs);
                    c1 = (if hc_skip_capture c then c else c\<lparr>hc_extracted := capture_headers hs\<rparr>)
                in if find_transfer_encoding_chunked hs then
                     (case advance chunked_new (drop hdr_len buf) of
                        (_, CpDone _) \<Rightarrow>
                          (c1\<lparr>hc_state := (if keep_alive then CsIdle else CsDead)\<rparr>,
                           Complete status ttfb (now - hc_t0 c))
                      | (decoder, CpNeedMore) \<Rightarrow>
                          (c1\<lparr>hc_ttfb := ttfb, hc_status := status, hc_state := CsReadingChunked hdr_len decoder\<rparr>,
                           Incomplete)
                      | (_, CpErr msg) \<Rightarrow> (c1\<lparr>hc_state := CsDead\<rparr>, Broken (''chunked response: '' @ msg)))
                   else
                     (case find_content_length_raw hs of
                        ClMalformed \<Rightarrow> (c1\<lparr>hc_state := CsDead\<rparr>, Broken ''malformed Content-Length in response'')
                      | cl \<Rightarrow>
                          (let (content_length, c2) =
                                 (case cl of ClPresent n \<Rightarrow> (n, c1) | _ \<Rightarrow> (0, c1\<lparr>hc_state := CsDead\<rparr>))
                           in if content_length \<le> length buf - hdr_len then
                                (if keep_alive \<and> hc_state c2 \<noteq> CsDead then c2\<lparr>hc_state := CsIdle\<rparr>
                                 else if \<not> keep_alive then c2\<lparr>hc_state := CsDead\<rparr> else c2,
                                 Complete status ttfb (now - hc_t0 c))
                              else
                                (c2\<lparr>hc_ttfb := ttfb, hc_status := status,
                                    hc_state := CsReadingBody hdr_len content_length\<rparr>, Incomplete))))))"

text \<open>The read loop: until the socket would block, at its end of file, or an error.\<close>

datatype read_end = ReadBlocked | ReadEof | ReadFailed

fun read_loop :: "h1_read list \<Rightarrow> bytes \<Rightarrow> h1_read list \<times> bytes \<times> read_end" where
  "read_loop [] buf = ([], buf, ReadBlocked)"
| "read_loop (RdData d # rs) buf = (if d = [] then (rs, buf, ReadEof) else read_loop rs (buf @ d))"
| "read_loop (RdBlock # rs) buf = (rs, buf, ReadBlocked)"
| "read_loop (RdErr # rs) buf = (rs, buf, ReadFailed)"

text \<open>The state machine on the buffer, after the read loop.\<close>

definition on_buffer :: "(bytes \<Rightarrow> parsed_head) \<Rightarrow> instant \<Rightarrow> h1_conn \<Rightarrow> h1_conn \<times> read_result" where
  "on_buffer parse now c =
     (case hc_state c of
        CsReadingHeaders \<Rightarrow> check_headers parse now c
      | CsReadingBody header_len content_length \<Rightarrow>
          (if content_length \<le> length (hc_read_buf c) - header_len
           then (c\<lparr>hc_state := CsIdle\<rparr>, Complete (hc_status c) (hc_ttfb c) (now - hc_t0 c))
           else (c, Incomplete))
      | CsReadingChunked header_len decoder \<Rightarrow>
          (case advance decoder (drop header_len (hc_read_buf c)) of
             (d, CpNeedMore) \<Rightarrow> (c\<lparr>hc_state := CsReadingChunked header_len d\<rparr>, Incomplete)
           | (d, CpDone _) \<Rightarrow> (c\<lparr>hc_state := CsIdle\<rparr>, Complete (hc_status c) (hc_ttfb c) (now - hc_t0 c))
           | (d, CpErr msg) \<Rightarrow> (c\<lparr>hc_state := CsDead\<rparr>, Broken (''chunked response: '' @ msg)))
      | _ \<Rightarrow> (c, Incomplete))"

definition try_read :: "(bytes \<Rightarrow> parsed_head) \<Rightarrow> instant \<Rightarrow> h1_conn \<Rightarrow> h1_conn \<times> read_result" where
  "try_read parse now c =
     (case read_loop (hc_reads c) (hc_read_buf c) of
        (rs, buf, e) \<Rightarrow>
          (let c1 = c\<lparr>hc_reads := rs, hc_read_buf := buf\<rparr> in
           case e of
             ReadEof \<Rightarrow> (c1\<lparr>hc_state := CsDead\<rparr>, Broken ''connection closed by server'')
           | ReadFailed \<Rightarrow> (c1, Broken ''read'')
           | ReadBlocked \<Rightarrow> on_buffer parse now c1))"

section \<open>The response parser is resumable\<close>

text \<open>What the header parser is relied on for: the length it reports lies within its input.\<close>

definition parse_ok :: "(bytes \<Rightarrow> parsed_head) \<Rightarrow> bool" where
  "parse_ok parse = (\<forall>b n s hs. parse b = HeadComplete n s hs \<longrightarrow> n \<le> length b)"

definition keeps_alive :: "(bytes \<Rightarrow> parsed_head) \<Rightarrow> bool" where
  "keeps_alive parse = (\<forall>b n s hs. parse b = HeadComplete n s hs \<longrightarrow> \<not> find_connection_close hs)"

text \<open>
  The state machine as a resumable parser: its state is the connection's state and the saved
  status, its answer the status of the response or the error. After an answer the status is not
  read again.
\<close>

type_synonym h1_answer = "string + u16"

definition put :: "conn_state \<times> u16 \<Rightarrow> bytes \<Rightarrow> h1_conn \<Rightarrow> h1_conn" where
  "put d b c = c\<lparr>hc_state := fst d, hc_status := snd d, hc_read_buf := b\<rparr>"

fun answer_of :: "read_result \<Rightarrow> h1_answer option" where
  "answer_of (Complete s f l) = Some (Inr s)"
| "answer_of Incomplete = None"
| "answer_of (Broken m) = Some (Inl m)"

definition h1_outcome :: "h1_conn \<times> read_result \<Rightarrow> (conn_state \<times> u16) \<times> h1_answer option" where
  "h1_outcome cr = (case cr of (c, r) \<Rightarrow>
     ((hc_state c, if r = Incomplete then hc_status c else 0), answer_of r))"

definition h1_run :: "(bytes \<Rightarrow> parsed_head) \<Rightarrow> conn_state \<times> u16 \<Rightarrow> bytes \<Rightarrow> (conn_state \<times> u16) \<times> h1_answer option" where
  "h1_run parse d b = h1_outcome (on_buffer parse 0 (put d b (h1_conn_new [] [] 0)))"

lemma check_headers_outcome:
  "h1_outcome (check_headers parse now c) =
     h1_outcome (check_headers parse 0 (put (hc_state c, hc_status c) (hc_read_buf c) (h1_conn_new [] [] 0)))"
proof (cases "find_header_end (hc_read_buf c)")
  case None
  then show ?thesis by (simp add: check_headers_def h1_outcome_def put_def)
next
  case (Some e)
  show ?thesis
  proof (cases "parse (take e (hc_read_buf c))")
    case (HeadComplete n code_opt hs)
    show ?thesis
    proof (cases "find_transfer_encoding_chunked hs")
      case True
      obtain d p where a: "advance chunked_new (drop n (hc_read_buf c)) = (d, p)" by fastforce
      show ?thesis using Some HeadComplete True a
        by (cases p) (simp_all add: check_headers_def h1_outcome_def put_def h1_conn_new_def Let_def)
    next
      case False
      then show ?thesis using Some HeadComplete
        by (cases "find_content_length_raw hs")
           (simp_all add: check_headers_def h1_outcome_def put_def h1_conn_new_def Let_def)
    qed
  qed (use Some in \<open>simp_all add: check_headers_def h1_outcome_def put_def\<close>)
qed

lemma on_buffer_outcome:
  "h1_outcome (on_buffer parse now c) = h1_run parse (hc_state c, hc_status c) (hc_read_buf c)"
proof (cases "hc_state c")
  case CsReadingHeaders
  then show ?thesis using check_headers_outcome [of parse now c] by (simp add: on_buffer_def h1_run_def put_def)
qed (auto simp: on_buffer_def h1_run_def put_def h1_outcome_def split: chunk_progress.splits prod.splits)

lemma on_buffer_kept: "hc_read_buf (fst (on_buffer parse now c)) = hc_read_buf c"
  by (auto simp: on_buffer_def check_headers_def Let_def
      split: conn_state.splits option.splits parsed_head.splits chunk_progress.splits content_length.splits prod.splits)

lemma advance_Nil: "advance d [] = (d, CpNeedMore)"
  by (cases "ck_state d") (simp_all add: advance.simps CRLF_def)

lemma drop_more: "drop n (b @ x) = drop n b @ drop (n - length b) x"
  by simp

lemma find_header_end_append: "find_header_end b = Some e \<Longrightarrow> find_header_end (b @ x) = Some e \<and> e \<le> length b"
  using find_sub_append [of "CRLF @ CRLF" b] find_sub_SomeD [of "CRLF @ CRLF" b]
  by (auto simp: find_header_end_def CRLF_def)

lemma h1_run_body:
  "h1_run parse (CsReadingBody n cl, s) b =
     (if cl \<le> length b - n then ((CsIdle, 0), Some (Inr s)) else ((CsReadingBody n cl, s), None))"
  by (simp add: h1_run_def on_buffer_def put_def h1_outcome_def)

lemma h1_run_chunked:
  "h1_run parse (CsReadingChunked n d, s) b =
     (case advance d (drop n b) of
        (d', CpNeedMore) \<Rightarrow> ((CsReadingChunked n d', s), None)
      | (d', CpDone k) \<Rightarrow> ((CsIdle, 0), Some (Inr s))
      | (d', CpErr m) \<Rightarrow> ((CsDead, 0), Some (Inl (''chunked response: '' @ m))))"
  by (simp add: h1_run_def on_buffer_def put_def h1_outcome_def split: chunk_progress.splits prod.splits)

text \<open>A head that does not announce a close: what follows depends on the bytes behind it.\<close>

definition after_head :: "nat \<Rightarrow> u16 option \<Rightarrow> resp_headers \<Rightarrow> bytes \<Rightarrow> (conn_state \<times> u16) \<times> h1_answer option" where
  "after_head n code_opt hs b =
     (let status = (case code_opt of Some s \<Rightarrow> s | None \<Rightarrow> 0) in
      if find_transfer_encoding_chunked hs then h1_run (\<lambda>_. HeadPartial) (CsReadingChunked n chunked_new, status) b
      else (case find_content_length_raw hs of
              ClPresent k \<Rightarrow> h1_run (\<lambda>_. HeadPartial) (CsReadingBody n k, status) b
            | ClMissing \<Rightarrow> ((CsDead, 0), Some (Inr status))
            | ClMalformed \<Rightarrow> ((CsDead, 0), Some (Inl ''malformed Content-Length in response''))))"

lemma h1_run_headers:
  assumes "keeps_alive parse"
  shows "h1_run parse (CsReadingHeaders, s) b =
     (case find_header_end b of
        None \<Rightarrow> ((CsReadingHeaders, s), None)
      | Some e \<Rightarrow>
          (case parse (take e b) of
             HeadPartial \<Rightarrow> ((CsReadingHeaders, s), None)
           | HeadError \<Rightarrow> ((CsDead, 0), Some (Inl ''HTTP response parse error''))
           | HeadComplete n code_opt hs \<Rightarrow> after_head n code_opt hs b))"
proof (cases "find_header_end b")
  case None
  then show ?thesis by (simp add: h1_run_def on_buffer_def put_def h1_outcome_def check_headers_def)
next
  case (Some e)
  show ?thesis
  proof (cases "parse (take e b)")
    case (HeadComplete n code_opt hs)
    then have "\<not> find_connection_close hs" using assms by (auto simp: keeps_alive_def)
    with HeadComplete Some show ?thesis
      by (simp add: h1_run_def on_buffer_def put_def h1_outcome_def check_headers_def after_head_def
          h1_conn_new_def Let_def split: chunk_progress.splits prod.splits content_length.splits)
  qed (use Some in \<open>simp_all add: h1_run_def on_buffer_def put_def h1_outcome_def check_headers_def\<close>)
qed

lemma h1_run_other:
  "d \<in> {CsIdle, CsWriting, CsDead} \<Longrightarrow> h1_run parse (d, s) b = ((d, s), None)"
  by (auto simp: h1_run_def on_buffer_def put_def h1_outcome_def)

text \<open>The laws, first for the two body states, then for a whole response.\<close>

lemma body_resume:
  assumes "h1_run parse (d, s) b = (d', None)" "d = CsReadingBody n cl \<or> d = CsReadingChunked n ck"
  shows "h1_run parse d' (b @ x) = h1_run parse (d, s) (b @ x)"
  using assms(2)
proof
  assume "d = CsReadingBody n cl"
  then show ?thesis using assms(1) by (auto simp: h1_run_body split: if_splits)
next
  assume d: "d = CsReadingChunked n ck"
  obtain ck' p where a: "advance ck (drop n b) = (ck', p)" by fastforce
  then have p: "p = CpNeedMore" "d' = (CsReadingChunked n ck', s)"
    using assms(1) by (auto simp: d h1_run_chunked split: chunk_progress.splits)
  have "advance ck' (drop n (b @ x)) = advance ck (drop n (b @ x))"
    unfolding drop_more using advance_resume a p(1) by blast
  then show ?thesis by (simp add: d p h1_run_chunked)
qed

lemma body_stable:
  assumes "h1_run parse (d, s) b = (d', Some v)" "d = CsReadingBody n cl \<or> d = CsReadingChunked n ck"
  shows "h1_run parse (d, s) (b @ x) = (d', Some v)"
  using assms(2)
proof
  assume "d = CsReadingBody n cl"
  then show ?thesis using assms(1) by (auto simp: h1_run_body split: if_splits)
next
  assume d: "d = CsReadingChunked n ck"
  obtain ck' p where a: "advance ck (drop n b) = (ck', p)" by fastforce
  then have "p \<noteq> CpNeedMore" using assms(1) by (auto simp: d h1_run_chunked)
  then have "advance ck (drop n (b @ x)) = (ck', p)"
    unfolding drop_more using advance_stable a by blast
  then show ?thesis using assms(1) a by (simp add: d h1_run_chunked)
qed

lemma run_parse_irrelevant:
  "h1_run (\<lambda>_. HeadPartial) (CsReadingBody n cl, s) b = h1_run parse (CsReadingBody n cl, s) b"
  "h1_run (\<lambda>_. HeadPartial) (CsReadingChunked n ck, s) b = h1_run parse (CsReadingChunked n ck, s) b"
  by (simp_all add: h1_run_body h1_run_chunked)

lemma after_head_resume:
  assumes "after_head n code_opt hs b = (d', None)"
  shows "h1_run parse d' (b @ x) = after_head n code_opt hs (b @ x)"
proof -
  let ?s = "case code_opt of Some s \<Rightarrow> s | None \<Rightarrow> 0"
  show ?thesis
  proof (cases "find_transfer_encoding_chunked hs")
    case True
    then have "h1_run parse (CsReadingChunked n chunked_new, ?s) b = (d', None)"
      using assms by (simp add: after_head_def run_parse_irrelevant(2) [of _ _ _ _ parse])
    from body_resume [OF this, of n _ chunked_new x] True show ?thesis
      by (simp add: after_head_def run_parse_irrelevant(2) [of _ _ _ _ parse])
  next
    case False
    then obtain k where k: "find_content_length_raw hs = ClPresent k"
      using assms by (auto simp: after_head_def Let_def split: content_length.splits)
    with False have "h1_run parse (CsReadingBody n k, ?s) b = (d', None)"
      using assms by (simp add: after_head_def run_parse_irrelevant(1) [of _ _ _ _ parse])
    from body_resume [OF this, of n k _ x] False k show ?thesis
      by (simp add: after_head_def run_parse_irrelevant(1) [of _ _ _ _ parse])
  qed
qed

lemma after_head_stable:
  assumes "after_head n code_opt hs b = (d', Some v)"
  shows "after_head n code_opt hs (b @ x) = (d', Some v)"
  using assms body_stable [of "\<lambda>_. HeadPartial" _ _ b d' v n _ _ x]
  by (auto simp: after_head_def Let_def split: content_length.splits if_splits)

lemma h1_resumable:
  assumes "keeps_alive parse"
  shows "resumable (h1_run parse)"
proof
  note rh = h1_run_headers [OF assms]
  fix d d' :: "conn_state \<times> u16" and b x
  obtain st s where d: "d = (st, s)" by fastforce
  { assume r: "h1_run parse d b = (d', None)"
    show "h1_run parse d' (b @ x) = h1_run parse d (b @ x)"
    proof (cases st)
      case CsReadingHeaders
      show ?thesis
      proof (cases "find_header_end b")
        case None
        with r CsReadingHeaders show ?thesis by (simp add: d rh)
      next
        case (Some e)
        note f = find_header_end_append [OF Some, of x]
        show ?thesis
        proof (cases "parse (take e b)")
          case (HeadComplete n code_opt hs)
          then have "after_head n code_opt hs b = (d', None)" using r Some CsReadingHeaders by (simp add: d rh)
          from after_head_resume [OF this] show ?thesis
            using f HeadComplete CsReadingHeaders by (simp add: d rh)
        qed (use r Some CsReadingHeaders in \<open>simp_all add: d rh\<close>)
      qed
    qed (use r in \<open>auto simp: d h1_run_other dest: body_resume\<close>) }
  { fix v assume r: "h1_run parse d b = (d', Some v)"
    show "h1_run parse d (b @ x) = (d', Some v)"
    proof (cases st)
      case CsReadingHeaders
      then obtain e where e: "find_header_end b = Some e" using r by (auto simp: d rh split: option.splits)
      note f = find_header_end_append [OF e, of x]
      show ?thesis
        using r f e CsReadingHeaders after_head_stable
        by (auto simp: d rh split: parsed_head.splits)
    qed (use r in \<open>auto simp: d h1_run_other dest: body_stable\<close>) }
qed

section \<open>Reading in pieces\<close>

text \<open>One readable event per piece; the connection is left alone after an answer.\<close>

fun deliver :: "(bytes \<Rightarrow> parsed_head) \<Rightarrow> instant \<Rightarrow> h1_conn \<Rightarrow> bytes list \<Rightarrow> h1_conn \<times> read_result" where
  "deliver parse now c [] = (c, Incomplete)"
| "deliver parse now c (p # ps) =
     (case try_read parse now (c\<lparr>hc_reads := [RdData p]\<rparr>) of
        (c', Incomplete) \<Rightarrow> deliver parse now c' ps
      | (c', r) \<Rightarrow> (c', r))"

lemma try_read_piece:
  assumes "p \<noteq> []" "try_read parse now (c\<lparr>hc_reads := [RdData p]\<rparr>) = (c', r)"
  shows "h1_outcome (c', r) = h1_run parse (hc_state c, hc_status c) (hc_read_buf c @ p)"
    "hc_read_buf c' = hc_read_buf c @ p"
proof -
  have "try_read parse now (c\<lparr>hc_reads := [RdData p]\<rparr>)
      = on_buffer parse now (c\<lparr>hc_reads := [], hc_read_buf := hc_read_buf c @ p\<rparr>)"
    using assms(1) by (simp add: try_read_def)
  then have eq: "on_buffer parse now (c\<lparr>hc_reads := [], hc_read_buf := hc_read_buf c @ p\<rparr>) = (c', r)"
    using assms(2) by simp
  show "h1_outcome (c', r) = h1_run parse (hc_state c, hc_status c) (hc_read_buf c @ p)"
    using on_buffer_outcome [of parse now "c\<lparr>hc_reads := [], hc_read_buf := hc_read_buf c @ p\<rparr>"]
    unfolding eq by simp
  show "hc_read_buf c' = hc_read_buf c @ p"
    using on_buffer_kept [of parse now "c\<lparr>hc_reads := [], hc_read_buf := hc_read_buf c @ p\<rparr>"]
    unfolding eq by simp
qed

lemma deliver_reads:
  assumes "keeps_alive parse" "\<forall>p \<in> set ps. p \<noteq> []"
    and "resumable.reads (h1_run parse) (hc_state c, hc_status c) (hc_read_buf c) ps = (d, acc, v)"
  shows "h1_outcome (deliver parse now c ps) = (d, v)"
  using assms(2,3)
proof (induction ps arbitrary: c)
  case Nil
  then show ?case
    by (simp add: resumable.reads.simps [OF h1_resumable [OF assms(1)]] h1_outcome_def)
next
  case (Cons p ps)
  obtain c' r where t: "try_read parse now (c\<lparr>hc_reads := [RdData p]\<rparr>) = (c', r)" by fastforce
  have p: "p \<noteq> []" using Cons.prems by simp
  note o = try_read_piece [OF p t]
  show ?case
  proof (cases "r = Incomplete")
    case True
    then have "h1_run parse (hc_state c, hc_status c) (hc_read_buf c @ p) = ((hc_state c', hc_status c'), None)"
      using o(1) by (simp add: h1_outcome_def)
    then have "resumable.reads (h1_run parse) (hc_state c', hc_status c') (hc_read_buf c') ps = (d, acc, v)"
      using Cons.prems(2) o(2) by (simp add: resumable.reads.simps [OF h1_resumable [OF assms(1)]])
    then show ?thesis using Cons t True by simp
  next
    case False
    then obtain a where a: "answer_of r = Some a" by (cases r) simp_all
    then have "h1_run parse (hc_state c, hc_status c) (hc_read_buf c @ p) = ((hc_state c', 0), Some a)"
      using o(1) False by (simp add: h1_outcome_def)
    then show ?thesis
      using Cons.prems(2) t False a
      by (cases r) (simp_all add: resumable.reads.simps [OF h1_resumable [OF assms(1)]] h1_outcome_def)
  qed
qed

text \<open>A body as its head announces it.\<close>

definition framed :: "resp_headers \<Rightarrow> bytes \<Rightarrow> bool" where
  "framed hs body =
     (if find_transfer_encoding_chunked hs
      then (\<exists>cs ts. (\<forall>c \<in> set cs. h1_chunk_ok c) \<and> (\<forall>t \<in> set ts. head_line t) \<and> body = h1_body cs ts)
      else find_content_length_raw hs = ClPresent (length body))"

lemma after_head_framed:
  assumes "framed hs body"
  shows "after_head (length head) (Some status) hs (head @ body) = ((CsIdle, 0), Some (Inr status))"
    "k < length body \<Longrightarrow> \<exists>d. after_head (length head) (Some status) hs (head @ take k body) = (d, None)"
proof -
  show "after_head (length head) (Some status) hs (head @ body) = ((CsIdle, 0), Some (Inr status))"
  proof (cases "find_transfer_encoding_chunked hs")
    case True
    then obtain cs ts where b: "\<forall>c \<in> set cs. h1_chunk_ok c" "\<forall>t \<in> set ts. head_line t" "body = h1_body cs ts"
      using assms by (auto simp: framed_def)
    have "snd (advance chunked_new body) = CpDone (length body)"
      using advance_full [OF b(1,2), of "[]"] b(3) by simp
    with True show ?thesis by (auto simp: after_head_def h1_run_chunked split: prod.splits)
  next
    case False
    with assms show ?thesis by (simp add: after_head_def framed_def h1_run_body)
  qed
  show "\<exists>d. after_head (length head) (Some status) hs (head @ take k body) = (d, None)" if k: "k < length body"
  proof (cases "find_transfer_encoding_chunked hs")
    case True
    then obtain cs ts where b: "\<forall>c \<in> set cs. h1_chunk_ok c" "\<forall>t \<in> set ts. head_line t" "body = h1_body cs ts"
      using assms by (auto simp: framed_def)
    have "snd (advance chunked_new (take k body)) = CpNeedMore"
      using advance_prefix [OF b(1,2)] k b(3) by simp
    with True show ?thesis by (auto simp: after_head_def h1_run_chunked split: prod.splits)
  next
    case False
    with assms k show ?thesis by (simp add: after_head_def framed_def h1_run_body)
  qed
qed

lemma header_end_head:
  assumes "ls \<noteq> []" "\<forall>l \<in> set ls. head_line l"
  shows "find_header_end (http_head ls @ x) = Some (length (http_head ls))"
    "k < length (http_head ls) \<Longrightarrow> find_header_end (take k (http_head ls @ x)) = None"
proof -
  have four: "4 \<le> length (http_head ls)" using assms(1) by (cases ls) (simp_all add: http_head_def CRLF_def)
  then show full: "find_header_end (http_head ls @ x) = Some (length (http_head ls))" for x
    using find_blank_line [OF assms, of x] by (simp add: find_header_end_def)
  show "find_header_end (take k (http_head ls @ x)) = None" if k: "k < length (http_head ls)"
  proof (rule ccontr)
    assume "\<not> ?thesis"
    then obtain e where e: "find_header_end (take k (http_head ls @ x)) = Some e" by blast
    note f = find_header_end_append [OF e, of "drop k (http_head ls @ x)"]
    have "e \<le> length (take k (http_head ls @ x))" using f by blast
    then have "e \<le> k" by (simp only: length_take)
    moreover have "find_header_end (http_head ls @ x) = Some e" using f by (simp only: append_take_drop_id)
    ultimately show False using full [of x] k by simp
  qed
qed

section \<open>Properties\<close>


text \<open>A parser for one known head, for the examples.\<close>

definition demo_parse :: "string list \<Rightarrow> resp_headers \<Rightarrow> bytes \<Rightarrow> parsed_head" where
  "demo_parse ls hs b = (if b = http_head ls then HeadComplete (length b) (Some 200) hs else HeadError)"

definition demo_h1_conn :: h1_conn where
  "demo_h1_conn = (h1_conn_new [] [] 0)\<lparr>hc_state := CsReadingHeaders\<rparr>"

lemma content_length_lower: "eq_icase ''Content-Length'' ''content-length''"
  "\<not> eq_icase ''Content-Length'' ''connection''" "\<not> eq_icase ''Content-Length'' ''transfer-encoding''"
  by code_simp+

lemma trim_dec: "trim (dec n) = dec n"
proof -
  have "48 \<le> code x \<and> code x \<le> 57" if "x \<in> set (dec n)" for x
    using dec_digits [of n] that by (auto simp: is_digit_def)
  from this [OF hd_in_set [OF dec_nonempty]] this [OF last_in_set [OF dec_nonempty]]
  show ?thesis by (intro trim_plain) auto
qed

lemma read_content_length:
  assumes "n \<le> usize_max"
  shows "find_content_length_raw ((''Content-Length'', dec n) # hs) = ClPresent n"
proof -
  have "valid_utf8 (dec n)"
    using dec_digits [of n] by (intro valid_utf8_ascii) (auto simp: is_digit_def)
  then show ?thesis using assms by (simp add: content_length_lower trim_dec parse_uint_dec)
qed

lemma demo_head_line: "head_line ''HTTP/1.1 200 OK''" "head_line ''Content-Length: 2''"
  by (simp_all add: head_line_def)

lemma demo_framed: "framed [(''Content-Length'', ''2'')] ''hi''" "\<not> find_connection_close [(''Content-Length'', ''2'')]"
proof -
  have "dec 2 = ''2''" by (simp add: dec.simps digit_char_def digit_lits)
  then show "framed [(''Content-Length'', ''2'')] ''hi''"
    using read_content_length [of 2 "[]"]
    by (simp add: framed_def find_transfer_encoding_chunked_def te_has_chunked_def content_length_lower usize_max_def)
  show "\<not> find_connection_close [(''Content-Length'', ''2'')]" by (simp add: content_length_lower)
qed

lemma demo_keeps_alive: "keeps_alive (demo_parse ls [(''Content-Length'', ''2'')])"
  using demo_framed(2) by (auto simp: keeps_alive_def demo_parse_def split: if_splits)


text \<open>
  A response is lost when its connection closes behind it: if the bytes of a complete
  response and the end of the stream are both there when the socket is read, the read loop runs into
  the end first and the response is reported as a read error, although the same bytes alone are a
  complete response.
\<close>

lemma eof_drops_response:
  assumes "d \<noteq> []" "snd (try_read parse now (c\<lparr>hc_reads := [RdData d]\<rparr>)) = Complete status f l"
  shows "snd (try_read parse now (c\<lparr>hc_reads := [RdData d, RdData []]\<rparr>)) = Broken ''connection closed by server''
    \<and> hc_state (fst (try_read parse now (c\<lparr>hc_reads := [RdData d, RdData []]\<rparr>))) = CsDead"
  using assms by (simp add: try_read_def)

text \<open>
  Whether an announced close is respected depends on the network: when the server says
  \<open>Connection: close\<close>, a response read in one piece leaves the connection dead, but the same
  response whose body comes in a later read leaves it idle, to be used for the next request.
\<close>

lemma close_forgotten:
  assumes "ls \<noteq> []" "\<forall>l \<in> set ls. head_line l" "body \<noteq> []"
    and "parse (http_head ls) = HeadComplete (length (http_head ls)) (Some status) hs"
    and "find_connection_close hs" "\<not> find_transfer_encoding_chunked hs" "framed hs body"
    and "hc_state c = CsReadingHeaders" "hc_read_buf c = []"
  shows "hc_state (fst (deliver parse now c [http_head ls @ body])) = CsDead
    \<and> hc_state (fst (deliver parse now c [http_head ls, body])) = CsIdle
    \<and> answer_of (snd (deliver parse now c [http_head ls @ body])) = Some (Inr status)
    \<and> answer_of (snd (deliver parse now c [http_head ls, body])) = Some (Inr status)"
proof -
  have cl: "find_content_length_raw hs = ClPresent (length body)" using assms(6,7) by (simp add: framed_def)
  have ne: "http_head ls \<noteq> []" using assms(1) by (cases ls) (simp_all add: http_head_def CRLF_def)
  note he = header_end_head(1) [OF assms(1,2), of body] header_end_head(1) [OF assms(1,2), of "[]"]
  have one: "hc_state (fst (try_read parse now (c\<lparr>hc_reads := [RdData (http_head ls @ body)]\<rparr>))) = CsDead"
    "answer_of (snd (try_read parse now (c\<lparr>hc_reads := [RdData (http_head ls @ body)]\<rparr>))) = Some (Inr status)"
    using assms(3-6,8,9) cl ne he by (simp_all add: try_read_def on_buffer_def check_headers_def Let_def)
  let ?c1 = "fst (try_read parse now (c\<lparr>hc_reads := [RdData (http_head ls)]\<rparr>))"
  have two: "snd (try_read parse now (c\<lparr>hc_reads := [RdData (http_head ls)]\<rparr>)) = Incomplete"
    "hc_state ?c1 = CsReadingBody (length (http_head ls)) (length body)" "hc_read_buf ?c1 = http_head ls" "hc_status ?c1 = status"
    using assms(3-6,8,9) cl ne he by (simp_all add: try_read_def on_buffer_def check_headers_def Let_def)
  have three: "hc_state (fst (try_read parse now (?c1\<lparr>hc_reads := [RdData body]\<rparr>))) = CsIdle"
    "answer_of (snd (try_read parse now (?c1\<lparr>hc_reads := [RdData body]\<rparr>))) = Some (Inr status)"
    using assms(3) two by (simp_all add: try_read_def on_buffer_def)
  have d1: "deliver parse now c [p] = try_read parse now (c\<lparr>hc_reads := [RdData p]\<rparr>)" for p c
    by (cases "try_read parse now (c\<lparr>hc_reads := [RdData p]\<rparr>)"; cases "snd (try_read parse now (c\<lparr>hc_reads := [RdData p]\<rparr>))") simp_all
  have d2: "deliver parse now c [http_head ls, body] = deliver parse now ?c1 [body]"
    using two(1) by (cases "try_read parse now (c\<lparr>hc_reads := [RdData (http_head ls)]\<rparr>)") simp
  show ?thesis unfolding d2 unfolding d1 using one three by blast
qed

lemma close_lower: "eq_icase ''Connection'' ''connection''" "eq_icase ''close'' ''close''"
  "\<not> eq_icase ''Connection'' ''content-length''" "\<not> eq_icase ''Connection'' ''transfer-encoding''" "valid_utf8 ''close''"
  by code_simp+

end
