(* ===== verification/MioH1.thy ===== *)
theory MioH1
  imports MioConn
begin

text \<open>
  A worker of the keep-alive HTTP/1.1 backend, \<open>zerobench-backends/src/http/mio_h1.rs\<close>: opening
  connections and their spread over threads, the choice of scenarios, the token queue of the
  open-loop mode, and the event loop. The clock and the poll results are parameters. What the TLS
  layer buffers is not modelled, so \<open>flush_tls\<close> does nothing.
\<close>

section \<open>Connecting\<close>

datatype connect_error = ConnectionRefused | HostUnreachable | NetworkUnreachable | ConnectTimedOut | ConnectOther nat

text \<open>The second resolution and connect only happen after an error of these kinds.\<close>

fun retryable :: "connect_error \<Rightarrow> bool" where
  "retryable (ConnectOther _) = False"
| "retryable _ = True"

definition connect_with_retry ::
  "(nat \<Rightarrow> connect_error + 'addr) \<Rightarrow> (nat \<Rightarrow> 'addr \<Rightarrow> connect_error + 'tcp) \<Rightarrow> connect_error + 'tcp \<times> 'addr" where
  "connect_with_retry resolve connect =
     (case resolve 0 of
        Inl e \<Rightarrow> Inl e
      | Inr addr \<Rightarrow>
          (case connect 0 addr of
             Inr s \<Rightarrow> Inr (s, addr)
           | Inl e \<Rightarrow>
               if retryable e then
                 (case resolve 1 of
                    Inl e \<Rightarrow> Inl e
                  | Inr fresh \<Rightarrow> (case connect 1 fresh of Inr s \<Rightarrow> Inr (s, fresh) | Inl e \<Rightarrow> Inl e))
               else Inl e))"

definition distribute_conns :: "nat \<Rightarrow> nat \<Rightarrow> nat list" where
  "distribute_conns all_conns threads =
     (if all_conns = 0 then []
      else (let threads = min (max threads 1) all_conns; base = all_conns div threads; remainder = all_conns mod threads
            in map (\<lambda>i. if i < remainder then base + 1 else base) [0..<threads]))"

section \<open>Choosing a scenario\<close>

fun first_request :: "step list \<Rightarrow> request_plan option" where
  "first_request [] = None"
| "first_request (s # ss) = (case s of Request r \<Rightarrow> Some r | _ \<Rightarrow> first_request ss)"

text \<open>\<open>None\<close> is the panic on a scenario without a request step.\<close>

definition pick_scenario ::
  "'r world \<Rightarrow> plan \<Rightarrow> nat list \<Rightarrow> 'r scenario_context \<Rightarrow> (u16 \<times> request_plan \<times> 'r scenario_context) option" where
  "pick_scenario W pl http c =
     (let (pick, c1) =
            (if length http \<le> 1 then (http ! 0, c)
             else (case w_gen_range W 0 (int (length http) - 1) (cx_rng c) of (i, r) \<Rightarrow> (http ! nat i, c\<lparr>cx_rng := r\<rparr>)))
      in map_option (\<lambda>rp. (word_of_nat pick, rp, c1)) (first_request (sn_steps (pl_scenarios pl ! pick))))"

definition http_scenario_indices :: "plan \<Rightarrow> nat list" where
  "http_scenario_indices pl =
     filter (\<lambda>i. scenario_protocol (pl_scenarios pl ! i) = Http) [0..<length (pl_scenarios pl)]"

section \<open>A worker\<close>

text \<open>What stays fixed while a worker runs.\<close>

record 'r h1_config =
  hf_world :: "'r world"
  hf_parse :: "bytes \<Rightarrow> parsed_head"
  hf_plan :: plan
  hf_target :: target
  hf_http :: "nat list"
  hf_static :: "bytes option"
  hf_interval :: "duration option"
  hf_max_pending :: nat
  hf_clock :: "nat \<Rightarrow> instant"
  hf_shard :: nat

text \<open>The end of \<open>idle_conns\<close>, where the code pushes and pops, is the head of \<open>wk_idle\<close>.\<close>

record ('r, 'h) h1_worker =
  wk_conns :: "h1_conn list"
  wk_conn_scenario :: "nat list"
  wk_idle :: "nat list"
  wk_pending :: "instant list"
  wk_next_token :: instant
  wk_ctx :: "'r scenario_context"
  wk_proc :: proc_state
  wk_rec :: "'h recorder"
  wk_ticks :: nat

definition open_loop :: "'r h1_config \<Rightarrow> bool" where
  "open_loop F = (hf_interval F \<noteq> None)"

definition static_scenario_id :: "'r h1_config \<Rightarrow> u16" where
  "static_scenario_id F = word_of_nat (hf_http F ! 0)"

text \<open>The macro \<open>prepare_conn!\<close>.\<close>

definition prepare_conn ::
  "'r h1_config \<Rightarrow> instant \<Rightarrow> request_plan \<Rightarrow> u16 \<Rightarrow> instant \<Rightarrow> 'r scenario_context \<times> proc_state
     \<Rightarrow> h1_conn \<Rightarrow> h1_conn \<times> 'r scenario_context \<times> proc_state" where
  "prepare_conn F intended rp sid now cg c =
     (case hf_static F of
        Some request \<Rightarrow> ((prepare_request request intended now c)\<lparr>hc_scenario_id := static_scenario_id F\<rparr>, cg)
      | None \<Rightarrow> prepare_request_from_template (hf_world F) rp (hf_target F) intended sid now cg c)"

text \<open>Pick a scenario for connection \<open>i\<close> and load its request; \<open>None\<close> is the panic of the pick.\<close>

definition assign_scenario ::
  "'r h1_config \<Rightarrow> nat \<Rightarrow> instant \<Rightarrow> ('r, 'h) h1_worker \<Rightarrow> (u16 \<times> ('r, 'h) h1_worker) option" where
  "assign_scenario F i intended w =
     (case pick_scenario (hf_world F) (hf_plan F) (hf_http F) (wk_ctx w) of
        None \<Rightarrow> None
      | Some (sid, rp, ctx) \<Rightarrow>
          (case prepare_conn F intended rp sid (hf_clock F (wk_ticks w)) (ctx, wk_proc w) (wk_conns w ! i) of
             (c, ctx', g') \<Rightarrow>
               Some (sid, w\<lparr>wk_conn_scenario := (wk_conn_scenario w)[i := unat sid],
                            wk_conns := (wk_conns w)[i := c], wk_ctx := ctx', wk_proc := g',
                            wk_ticks := Suc (wk_ticks w)\<rparr>)))"

definition flush_request :: "'h hist_ops \<Rightarrow> nat \<Rightarrow> u16 \<Rightarrow> ('r, 'h) h1_worker \<Rightarrow> ('r, 'h) h1_worker" where
  "flush_request H i sid w =
     (case try_write (wk_conns w ! i) of
        (c, Some True) \<Rightarrow> w\<lparr>wk_conns := (wk_conns w)[i := c\<lparr>hc_state := CsReadingHeaders\<rparr>]\<rparr>
      | (c, Some False) \<Rightarrow> w\<lparr>wk_conns := (wk_conns w)[i := c]\<rparr>
      | (c, None) \<Rightarrow> w\<lparr>wk_conns := (wk_conns w)[i := c\<lparr>hc_state := CsDead\<rparr>],
                        wk_rec := rec_record_error H sid EkWrite (wk_rec w)\<rparr>)"

definition start_request ::
  "'h hist_ops \<Rightarrow> 'r h1_config \<Rightarrow> nat \<Rightarrow> instant \<Rightarrow> ('r, 'h) h1_worker \<Rightarrow> ('r, 'h) h1_worker option" where
  "start_request H F i intended w =
     map_option (\<lambda>(sid, w'). flush_request H i sid w') (assign_scenario F i intended w)"

section \<open>The token queue\<close>

text \<open>One token for every interval that has begun; an interval of zero would never stop.\<close>

partial_function (option) gen_tokens ::
  "duration \<Rightarrow> instant \<Rightarrow> instant \<Rightarrow> instant list \<Rightarrow> (instant list \<times> instant) option" where
  "gen_tokens interval now next pending =
     (if next \<le> now then gen_tokens interval now (next + interval) (pending @ [next])
      else Some (pending, next))"

fun cap_pending :: "'h hist_ops \<Rightarrow> nat \<Rightarrow> instant list \<Rightarrow> 'h recorder \<Rightarrow> instant list \<times> 'h recorder" where
  "cap_pending H max_pending [] r = ([], r)"
| "cap_pending H max_pending (p # ps) r =
     (if max_pending < length (p # ps) then cap_pending H max_pending ps (rec_record_error H 0 EkKeepup r)
      else (p # ps, r))"

text \<open>Tokens go to idle connections until either runs out.\<close>

fun assign_from ::
  "'h hist_ops \<Rightarrow> 'r h1_config \<Rightarrow> instant list \<Rightarrow> ('r, 'h) h1_worker \<Rightarrow> ('r, 'h) h1_worker option" where
  "assign_from H F [] w = Some (w\<lparr>wk_pending := []\<rparr>)"
| "assign_from H F (t # ts) w =
     (case wk_idle w of
        [] \<Rightarrow> Some (w\<lparr>wk_pending := t # ts\<rparr>)
      | i # idle \<Rightarrow>
          (case start_request H F i t (w\<lparr>wk_idle := idle\<rparr>) of
             None \<Rightarrow> None
           | Some w' \<Rightarrow> assign_from H F ts w'))"

definition assign_tokens :: "'h hist_ops \<Rightarrow> 'r h1_config \<Rightarrow> ('r, 'h) h1_worker \<Rightarrow> ('r, 'h) h1_worker option" where
  "assign_tokens H F w = assign_from H F (wk_pending w) w"

definition make_tokens ::
  "'h hist_ops \<Rightarrow> 'r h1_config \<Rightarrow> instant \<Rightarrow> ('r, 'h) h1_worker \<Rightarrow> ('r, 'h) h1_worker option" where
  "make_tokens H F now w =
     (case hf_interval F of
        None \<Rightarrow> Some w
      | Some interval \<Rightarrow>
          (case gen_tokens interval now (wk_next_token w) (wk_pending w) of
             None \<Rightarrow> None
           | Some (pending, next) \<Rightarrow>
               (case cap_pending H (hf_max_pending F) pending (wk_rec w) of
                  (kept, r) \<Rightarrow> Some (w\<lparr>wk_pending := kept, wk_next_token := next, wk_rec := r\<rparr>))))"

section \<open>Events\<close>

record h1_event =
  ev_token :: nat
  ev_readable :: bool
  ev_writable :: bool

definition on_writable ::
  "'h hist_ops \<Rightarrow> 'r h1_config \<Rightarrow> instant \<Rightarrow> nat \<Rightarrow> ('r, 'h) h1_worker \<Rightarrow> ('r, 'h) h1_worker option" where
  "on_writable H F batch_now i w =
     (case hc_state (wk_conns w ! i) of
        CsWriting \<Rightarrow> Some (flush_request H i (hc_scenario_id (wk_conns w ! i)) w)
      | CsIdle \<Rightarrow> (if open_loop F then Some w else start_request H F i batch_now w)
      | _ \<Rightarrow> Some w)"

definition record_status :: "'h hist_ops \<Rightarrow> u16 \<Rightarrow> u16 \<Rightarrow> 'h recorder \<Rightarrow> 'h recorder" where
  "record_status H sid status r =
     (if 400 \<le> status \<and> status < 500 then rec_record_error H sid EkStatus4xx r
      else if 500 \<le> status \<and> status < 600 then rec_record_error H sid EkStatus5xx r
      else r)"

definition record_failures :: "'h hist_ops \<Rightarrow> u16 \<Rightarrow> u32 \<Rightarrow> 'h recorder \<Rightarrow> 'h recorder" where
  "record_failures H sid n r = ((rec_record_error H sid EkAssertionFailed) ^^ unat n) r"

text \<open>The bookkeeping for one complete response; \<open>None\<close> is the panic on a plan without a request.\<close>

definition record_response ::
  "'h hist_ops \<Rightarrow> 'r h1_config \<Rightarrow> instant \<Rightarrow> nat \<Rightarrow> u16 \<Rightarrow> duration \<Rightarrow> ('r, 'h) h1_worker
     \<Rightarrow> ('r, 'h) h1_worker option" where
  "record_response H F batch_now i status ttfb w =
     (let c = wk_conns w ! i; sid = hc_scenario_id c;
          latency = batch_now - hc_intended_start c;
          r1 = record_status H sid status (wk_rec w);
          r2 = rec_record H (hf_shard F) sid
                 \<lparr>sa_latency = latency, sa_ttfb = ttfb, sa_bytes_sent = of_nat (length (hc_write_buf c)),
                  sa_bytes_recv = of_nat (length (hc_read_buf c))\<rparr> r1
      in if hf_static F \<noteq> None then Some (w\<lparr>wk_rec := r2\<rparr>)
         else (case first_request (sn_steps (pl_scenarios (hf_plan F) ! (wk_conn_scenario w ! i))) of
                 None \<Rightarrow> None
               | Some rp \<Rightarrow>
                   Some (w\<lparr>wk_ctx := clear_all (apply_extractions rp status (hc_extracted c) (wk_ctx w)),
                           wk_rec := record_failures H sid (check_assertions rp status latency) r2\<rparr>)))"

definition on_readable ::
  "'h hist_ops \<Rightarrow> 'r h1_config \<Rightarrow> instant \<Rightarrow> nat \<Rightarrow> ('r, 'h) h1_worker \<Rightarrow> ('r, 'h) h1_worker option" where
  "on_readable H F batch_now i w =
     (case try_read (hf_parse F) batch_now (wk_conns w ! i) of
        (c, Incomplete) \<Rightarrow> Some (w\<lparr>wk_conns := (wk_conns w)[i := c]\<rparr>)
      | (c, Broken msg) \<Rightarrow>
          Some (w\<lparr>wk_conns := (wk_conns w)[i := c\<lparr>hc_state := CsDead\<rparr>],
                  wk_rec := rec_record_error H (hc_scenario_id c) EkRead (wk_rec w)\<rparr>)
      | (c, Complete status ttfb total_time) \<Rightarrow>
          (case record_response H F batch_now i status ttfb (w\<lparr>wk_conns := (wk_conns w)[i := c]\<rparr>) of
             None \<Rightarrow> None
           | Some w' \<Rightarrow>
               (if hc_state c = CsIdle then
                  (if open_loop F then Some (w'\<lparr>wk_idle := i # wk_idle w'\<rparr>)
                   else start_request H F i batch_now w')
                else Some w')))"

fun is_reading :: "conn_state \<Rightarrow> bool" where
  "is_reading CsReadingHeaders = True"
| "is_reading (CsReadingBody _ _) = True"
| "is_reading (CsReadingChunked _ _) = True"
| "is_reading _ = False"

definition handle_event ::
  "'h hist_ops \<Rightarrow> 'r h1_config \<Rightarrow> instant \<Rightarrow> h1_event \<Rightarrow> ('r, 'h) h1_worker \<Rightarrow> ('r, 'h) h1_worker option" where
  "handle_event H F batch_now e w =
     (let i = ev_token e in
      if length (wk_conns w) \<le> i then Some w
      else if hc_state (wk_conns w ! i) = CsDead then Some w
      else (case (if ev_writable e then on_writable H F batch_now i w else Some w) of
              None \<Rightarrow> None
            | Some w1 \<Rightarrow>
                (if ev_readable e \<and> is_reading (hc_state (wk_conns w1 ! i))
                 then on_readable H F batch_now i w1 else Some w1)))"

fun handle_events ::
  "'h hist_ops \<Rightarrow> 'r h1_config \<Rightarrow> instant \<Rightarrow> h1_event list \<Rightarrow> ('r, 'h) h1_worker \<Rightarrow> ('r, 'h) h1_worker option" where
  "handle_events H F batch_now [] w = Some w"
| "handle_events H F batch_now (e # es) w =
     (case handle_event H F batch_now e w of None \<Rightarrow> None | Some w' \<Rightarrow> handle_events H F batch_now es w')"

section \<open>The event loop\<close>

text \<open>One turn of the loop: two clock readings, and the result of the poll (\<open>None\<close> an error).\<close>

record h1_turn =
  tn_token_now :: instant
  tn_events :: "h1_event list option"
  tn_batch_now :: instant

definition one_turn ::
  "'h hist_ops \<Rightarrow> 'r h1_config \<Rightarrow> h1_turn \<Rightarrow> ('r, 'h) h1_worker \<Rightarrow> ('r, 'h) h1_worker option" where
  "one_turn H F tn w =
     Option.bind (make_tokens H F (tn_token_now tn) w) (\<lambda>w1.
     Option.bind (if open_loop F then assign_tokens H F w1 else Some w1) (\<lambda>w2.
     (case tn_events tn of
        None \<Rightarrow> Some w2
      | Some es \<Rightarrow>
          Option.bind (handle_events H F (tn_batch_now tn) es w2) (\<lambda>w3.
            if open_loop F then assign_tokens H F w3 else Some w3))))"

text \<open>The turns until the stop flag is seen; a failed poll ends the loop.\<close>

fun run_turns ::
  "'h hist_ops \<Rightarrow> 'r h1_config \<Rightarrow> h1_turn list \<Rightarrow> ('r, 'h) h1_worker \<Rightarrow> ('r, 'h) h1_worker option" where
  "run_turns H F [] w = Some w"
| "run_turns H F (tn # tns) w =
     (case one_turn H F tn w of
        None \<Rightarrow> None
      | Some w' \<Rightarrow> (if tn_events tn = None then Some w' else run_turns H F tns w'))"

section \<open>Starting a worker\<close>

text \<open>How opening the connection with token \<open>i\<close> ends; a failure leaves no connection behind.\<close>

datatype open_result = Opened "h1_read list" "h1_write list" | ConnectFails | HandshakeFails

fun open_conns ::
  "'h hist_ops \<Rightarrow> bool \<Rightarrow> instant \<Rightarrow> open_result list \<Rightarrow> 'h recorder \<Rightarrow> h1_conn list \<times> 'h recorder" where
  "open_conns H static now [] r = ([], r)"
| "open_conns H static now (Opened rs ws # os) r =
     (case open_conns H static now os r of
        (cs, r') \<Rightarrow> ((h1_conn_new rs ws now)\<lparr>hc_skip_capture := static\<rparr> # cs, r'))"
| "open_conns H static now (_ # os) r = open_conns H static now os (rec_record_error H 0 EkConnect r)"

fun start_all ::
  "'r h1_config \<Rightarrow> instant \<Rightarrow> nat list \<Rightarrow> ('r, 'h) h1_worker \<Rightarrow> ('r, 'h) h1_worker option" where
  "start_all F now [] w = Some w"
| "start_all F now (i # is) w =
     (case assign_scenario F i now w of None \<Rightarrow> None | Some (_, w') \<Rightarrow> start_all F now is w')"

definition use_static :: "plan \<Rightarrow> nat list \<Rightarrow> request_plan \<Rightarrow> bool" where
  "use_static pl http rp = (length http = 1 \<and> request_is_static rp \<and> rq_extract rp = [] \<and> rq_checks rp = [])"

text \<open>
  \<open>run_mio_worker\<close> up to the loop: the configuration and the initial state. The generator, the
  process state, the clock and the live snapshot come from outside; \<open>None\<close> is the panic on an HTTP
  scenario without a request.
\<close>

definition worker_start ::
  "'h hist_ops \<Rightarrow> 'r world \<Rightarrow> (bytes \<Rightarrow> parsed_head) \<Rightarrow> plan \<Rightarrow> target \<Rightarrow> duration option \<Rightarrow> (nat \<Rightarrow> instant)
     \<Rightarrow> nat \<Rightarrow> 'r \<Rightarrow> proc_state \<Rightarrow> 'h live_snapshot option \<Rightarrow> open_result list \<Rightarrow> instant
     \<Rightarrow> ('r h1_config \<times> ('r, 'h) h1_worker) option" where
  "worker_start H W parse pl t interval clock sh rng g live opens started_at =
     (let http = http_scenario_indices pl;
          rec = \<lparr>rc_task = Some (task_stats_new H (length (pl_scenarios pl))), rc_live = live\<rparr>;
          ctx = context_new (registry_len (pl_vars pl)) rng
      in case first_request (sn_steps (pl_scenarios pl ! (http ! 0))) of
           None \<Rightarrow> None
         | Some rp \<Rightarrow>
             (let static = use_static pl http rp;
                  (static_bytes, ctx1, g1) =
                    (if static then (case build_raw_request W rp t KeepAlive [] (ctx, g) of
                                       (b, ctx1, g1) \<Rightarrow> (Some b, ctx1, g1))
                     else (None, ctx, g));
                  (conns, rec1) = open_conns H static started_at opens rec;
                  F = \<lparr>hf_world = W, hf_parse = parse, hf_plan = pl, hf_target = t, hf_http = http,
                       hf_static = static_bytes, hf_interval = interval, hf_max_pending = length opens * 2,
                       hf_clock = clock, hf_shard = sh\<rparr>;
                  w = \<lparr>wk_conns = conns, wk_conn_scenario = replicate (length conns) 0,
                       wk_idle = (if interval \<noteq> None then rev [0..<length conns] else []),
                       wk_pending = [], wk_next_token = started_at, wk_ctx = ctx1, wk_proc = g1,
                       wk_rec = rec1, wk_ticks = 0\<rparr>
              in if interval \<noteq> None then Some (F, w)
                 else map_option (\<lambda>w'. (F, w')) (start_all F started_at [0..<length conns] w)))"

definition run_mio_worker ::
  "'h hist_ops \<Rightarrow> 'r world \<Rightarrow> (bytes \<Rightarrow> parsed_head) \<Rightarrow> plan \<Rightarrow> target \<Rightarrow> duration option \<Rightarrow> (nat \<Rightarrow> instant)
     \<Rightarrow> nat \<Rightarrow> 'r \<Rightarrow> proc_state \<Rightarrow> 'h live_snapshot option \<Rightarrow> open_result list \<Rightarrow> instant \<Rightarrow> h1_turn list
     \<Rightarrow> 'h recorder option" where
  "run_mio_worker H W parse pl t interval clock sh rng g live opens started_at turns =
     (if http_scenario_indices pl = [] then
        Some \<lparr>rc_task = Some (task_stats_new H (length (pl_scenarios pl))), rc_live = live\<rparr>
      else Option.bind (worker_start H W parse pl t interval clock sh rng g live opens started_at)
        (\<lambda>(F, w). map_option wk_rec (run_turns H F turns w)))"

text \<open>The driver: each thread's worker is given its number of connections.\<close>

definition run_mio_threaded :: "(nat \<Rightarrow> nat \<Rightarrow> 'stats option) \<Rightarrow> nat \<Rightarrow> nat \<Rightarrow> 'stats list option" where
  "run_mio_threaded worker num_threads n_conns =
     (let per_thread = distribute_conns n_conns num_threads;
          results = map (\<lambda>i. worker i (per_thread ! i)) [0..<length per_thread]
      in if None \<in> set results then None else Some (map the results))"

section \<open>Lemmas on the tokens and the distribution\<close>

lemma sum_distribute: "(\<Sum>i \<leftarrow> [0..<n]. if i < r then b + 1 else (b :: nat)) = n * b + min n r"
  by (induction n) (auto simp: min_def)

lemma gen_tokens_map:
  assumes "0 < interval" "n = (if now < nx then 0 else (now - nx) div interval + 1)"
  shows "gen_tokens interval now nx pending
    = Some (pending @ map (\<lambda>k. nx + k * interval) [0..<n], nx + n * interval)"
  using assms(2)
proof (induction n arbitrary: nx pending)
  case 0
  then show ?case by (subst gen_tokens.simps) (simp split: if_splits)
next
  case (Suc n)
  then have le: "nx \<le> now" "n = (now - nx) div interval" by (auto split: if_splits)
  have n: "n = (if now < nx + interval then 0 else (now - (nx + interval)) div interval + 1)"
  proof (cases "now < nx + interval")
    case True
    then show ?thesis using le assms(1) by simp
  next
    case False
    then have "now - nx = (now - (nx + interval)) + interval" by simp
    then have "(now - nx) div interval = ((now - (nx + interval)) + interval) div interval" by (rule arg_cong)
    also have "\<dots> = (now - (nx + interval)) div interval + 1"
      by (rule div_add_self2) (use assms(1) in simp)
    finally show ?thesis using le False by simp
  qed
  have "map (\<lambda>k. nx + k * interval) [0..<Suc n] = nx # map (\<lambda>k. nx + interval + k * interval) [0..<n]"
    by (simp only: upt_conv_Cons [of 0 "Suc n"] map_Suc_upt [symmetric, of 0 n]) (simp add: add.assoc)
  then show ?case
    using Suc.IH [OF n, of "pending @ [nx]"] le(1) by (subst gen_tokens.simps) simp
qed

lemma cap_pending_drop:
  "cap_pending H m ps r = (drop (length ps - m) ps, (rec_record_error H 0 EkKeepup ^^ (length ps - m)) r)"
proof (induction H m ps r rule: cap_pending.induct)
  case (2 H m p ps r)
  show ?case
  proof (cases "m < length (p # ps)")
    case True
    then have "length (p # ps) - m = Suc (length ps - m)" by simp
    with 2 True show ?thesis by (simp add: funpow_swap1)
  qed simp
qed simp

section \<open>Invariants of a worker\<close>

text \<open>The documented contract of the generator: a drawn value is in the range.\<close>

definition world_ok :: "'r world \<Rightarrow> bool" where
  "world_ok W = (\<forall>a b r. a \<le> b \<longrightarrow> a \<le> fst (w_gen_range W a b r) \<and> fst (w_gen_range W a b r) \<le> b)"

definition config_ok :: "'r h1_config \<Rightarrow> bool" where
  "config_ok F = (world_ok (hf_world F) \<and> hf_http F \<noteq> []
     \<and> (\<forall>p \<in> set (hf_http F). p < length (pl_scenarios (hf_plan F))))"

definition rec_ok :: "nat \<Rightarrow> 'h recorder \<Rightarrow> bool" where
  "rec_ok n r = (\<exists>t. rc_task r = Some t \<and> rolled_up t \<and> length (ts_per_scenario t) = n)"

definition worker_ok :: "'r h1_config \<Rightarrow> ('r, 'h) h1_worker \<Rightarrow> bool" where
  "worker_ok F w = (rec_ok (length (pl_scenarios (hf_plan F))) (wk_rec w)
     \<and> length (wk_conn_scenario w) = length (wk_conns w)
     \<and> (\<forall>c \<in> set (wk_conns w). unat (hc_scenario_id c) < length (pl_scenarios (hf_plan F))))"

text \<open>In the open loop the idle pool holds exactly the idle connections, each once.\<close>

definition pool_ok :: "'r h1_config \<Rightarrow> ('r, 'h) h1_worker \<Rightarrow> bool" where
  "pool_ok F w = (open_loop F \<longrightarrow> distinct (wk_idle w)
     \<and> set (wk_idle w) = {i. i < length (wk_conns w) \<and> hc_state (wk_conns w ! i) = CsIdle})"

lemma rec_op_ok:
  assumes "rec_ok n r" "op_scenario p < n" "rc_task r' = map_option (\<lambda>t. apply_op H t p) (rc_task r)"
  shows "rec_ok n r'"
proof -
  obtain t where "rc_task r = Some t" "rolled_up t" "length (ts_per_scenario t) = n"
    using assms(1) by (auto simp: rec_ok_def)
  then show ?thesis using rolled_up_op [of t p H] assms(2,3) by (simp add: rec_ok_def)
qed

lemma rec_error_ok [intro]: "rec_ok n r \<Longrightarrow> unat sid < n \<Longrightarrow> rec_ok n (rec_record_error H sid k r)"
  by (rule rec_op_ok [where p = "OpError sid k" and H = H]) (simp_all add: rec_record_error_def on_live_def)

lemma rec_record_ok [intro]: "rec_ok n r \<Longrightarrow> unat sid < n \<Longrightarrow> rec_ok n (rec_record H sh sid x r)"
  by (rule rec_op_ok [where p = "OpRecord sid (sa_latency x) (sa_ttfb x) (sa_bytes_sent x) (sa_bytes_recv x)" and H = H])
     (simp_all add: rec_record_def on_live_def Let_def)

lemma rec_errors_ok: "rec_ok n r \<Longrightarrow> unat sid < n \<Longrightarrow> rec_ok n ((rec_record_error H sid k ^^ m) r)"
  by (induction m) auto

lemma record_status_ok: "rec_ok n r \<Longrightarrow> unat sid < n \<Longrightarrow> rec_ok n (record_status H sid st r)"
  by (auto simp: record_status_def)

lemma pick_in_range:
  assumes "pick_scenario W pl http c = Some (sid, rp, c')" "world_ok W" "http \<noteq> []" "\<forall>p \<in> set http. p < n"
  shows "unat sid < n"
proof -
  have small: "unat (word_of_nat p :: u16) \<le> p" for p by (simp add: unat_of_nat)
  have "\<exists>p \<in> set http. sid = word_of_nat p"
  proof (cases "length http \<le> 1")
    case True
    then show ?thesis using assms(1,3) by (intro bexI [of _ "http ! 0"]) (auto simp: pick_scenario_def)
  next
    case False
    obtain i r where g: "w_gen_range W 0 (int (length http) - 1) (cx_rng c) = (i, r)" by fastforce
    moreover have "0 \<le> int (length http) - 1" using False by linarith
    ultimately have "0 \<le> i \<and> i \<le> int (length http) - 1"
      using assms(2) unfolding world_ok_def by (metis fst_conv)
    then have "nat i < length http" using False by linarith
    then show ?thesis using assms(1) False g by (intro bexI [of _ "http ! nat i"]) (auto simp: pick_scenario_def)
  qed
  then show ?thesis using assms(4) small le_less_trans by blast
qed

text \<open>
  What starting a request does to connection \<open>i\<close>: it leaves the idle state and carries the given
  start time; the other connections and the queues are as they were.
\<close>

lemma assign_scenario_effect:
  assumes "assign_scenario F i t w = Some (sid, w')" "config_ok F" "worker_ok F w" "i < length (wk_conns w)"
  shows "worker_ok F w' \<and> unat sid < length (pl_scenarios (hf_plan F))
    \<and> (\<exists>c. wk_conns w' = (wk_conns w)[i := c] \<and> hc_state c = CsWriting \<and> hc_intended_start c = t
          \<and> hc_sent c = hc_sent (wk_conns w ! i))
    \<and> wk_idle w' = wk_idle w \<and> wk_pending w' = wk_pending w \<and> wk_next_token w' = wk_next_token w"
proof -
  obtain rp ctx where p: "pick_scenario (hf_world F) (hf_plan F) (hf_http F) (wk_ctx w) = Some (sid, rp, ctx)"
    using assms(1) by (auto simp: assign_scenario_def split: option.splits prod.splits)
  obtain c ctx' g' where c: "prepare_conn F t rp sid (hf_clock F (wk_ticks w)) (ctx, wk_proc w) (wk_conns w ! i) = (c, ctx', g')"
    by (metis prod_cases3)
  have w': "w' = w\<lparr>wk_conn_scenario := (wk_conn_scenario w)[i := unat sid], wk_conns := (wk_conns w)[i := c],
      wk_ctx := ctx', wk_proc := g', wk_ticks := Suc (wk_ticks w)\<rparr>"
    using assms(1) p c by (simp add: assign_scenario_def)
  have sid: "unat sid < length (pl_scenarios (hf_plan F))"
    using pick_in_range [OF p] assms(2) by (simp add: config_ok_def)
  have "unat (static_scenario_id F) < length (pl_scenarios (hf_plan F))"
  proof -
    have "unat (static_scenario_id F) \<le> hf_http F ! 0" by (simp add: static_scenario_id_def unat_of_nat)
    then show ?thesis using assms(2) by (auto simp: config_ok_def neq_Nil_conv)
  qed
  then have "unat (hc_scenario_id c) < length (pl_scenarios (hf_plan F)) \<and> hc_state c = CsWriting
      \<and> hc_intended_start c = t \<and> hc_sent c = hc_sent (wk_conns w ! i)"
    using c sid
    by (auto simp: prepare_conn_def prepare_request_def prepare_request_from_template_def load_request_def
        split: option.splits prod.splits)
  then show ?thesis using w' sid assms(3) by (auto simp: worker_ok_def dest: set_update_subset_insert [THEN subsetD])
qed

lemma flush_request_effect:
  assumes "worker_ok F w" "unat sid < length (pl_scenarios (hf_plan F))" "i < length (wk_conns w)"
    and "hc_state (wk_conns w ! i) = CsWriting"
  shows "worker_ok F (flush_request H i sid w)
    \<and> (\<exists>c. wk_conns (flush_request H i sid w) = (wk_conns w)[i := c] \<and> hc_state c \<noteq> CsIdle
          \<and> hc_intended_start c = hc_intended_start (wk_conns w ! i))
    \<and> wk_idle (flush_request H i sid w) = wk_idle w \<and> wk_pending (flush_request H i sid w) = wk_pending w
    \<and> wk_next_token (flush_request H i sid w) = wk_next_token w"
proof -
  obtain c r where t: "try_write (wk_conns w ! i) = (c, r)" by fastforce
  then have c: "hc_state c = CsWriting" "hc_scenario_id c = hc_scenario_id (wk_conns w ! i)"
    "hc_intended_start c = hc_intended_start (wk_conns w ! i)"
    using assms(4) by (auto simp: try_write_def split: prod.splits)
  have old: "unat (hc_scenario_id (wk_conns w ! i)) < length (pl_scenarios (hf_plan F))"
    using assms(1,3) by (simp add: worker_ok_def)
  consider "r = Some True" | "r = Some False" | "r = None" by (cases r) auto
  then show ?thesis
  proof cases
    case 1
    then show ?thesis using t c old assms(1)
      by (auto simp: flush_request_def worker_ok_def dest: set_update_subset_insert [THEN subsetD])
  next
    case 2
    then show ?thesis using t c old assms(1)
      by (auto simp: flush_request_def worker_ok_def dest: set_update_subset_insert [THEN subsetD])
  next
    case 3
    then show ?thesis using t c old assms(1,2)
      by (auto simp: flush_request_def worker_ok_def dest: set_update_subset_insert [THEN subsetD])
  qed
qed

lemma start_request_effect:
  assumes "start_request H F i t w = Some w'" "config_ok F" "worker_ok F w" "i < length (wk_conns w)"
  shows "worker_ok F w'
    \<and> (\<exists>c. wk_conns w' = (wk_conns w)[i := c] \<and> hc_state c \<noteq> CsIdle \<and> hc_intended_start c = t)
    \<and> wk_idle w' = wk_idle w \<and> wk_pending w' = wk_pending w \<and> wk_next_token w' = wk_next_token w"
proof -
  obtain sid w1 where a: "assign_scenario F i t w = Some (sid, w1)" "w' = flush_request H i sid w1"
    using assms(1) by (auto simp: start_request_def)
  obtain c where c: "worker_ok F w1" "unat sid < length (pl_scenarios (hf_plan F))" "wk_conns w1 = (wk_conns w)[i := c]"
    "hc_state c = CsWriting" "hc_intended_start c = t" "wk_idle w1 = wk_idle w" "wk_pending w1 = wk_pending w"
    "wk_next_token w1 = wk_next_token w"
    using assign_scenario_effect [OF a(1) assms(2-4)] by blast
  have i: "i < length (wk_conns w1)" "wk_conns w1 ! i = c" using c(3) assms(4) by simp_all
  show ?thesis using flush_request_effect [OF c(1,2) i(1), of H] c i a(2) by auto
qed

lemma assign_from_effect:
  assumes "assign_from H F ts w = Some w'" "config_ok F" "worker_ok F w" "pool_ok F w" "open_loop F"
  shows "worker_ok F w' \<and> pool_ok F w' \<and> (wk_pending w' = [] \<or> wk_idle w' = [])
    \<and> length (wk_pending w') \<le> length ts \<and> wk_next_token w' = wk_next_token w"
  using assms(1,3,4)
proof (induction ts arbitrary: w)
  case Nil
  then show ?case by (auto simp: worker_ok_def pool_ok_def)
next
  case (Cons t ts)
  show ?case
  proof (cases "wk_idle w")
    case Nil
    then show ?thesis using Cons.prems by (auto simp: worker_ok_def pool_ok_def)
  next
    case idle: (Cons i rest)
    let ?w = "w\<lparr>wk_idle := rest\<rparr>"
    obtain w1 where w1: "start_request H F i t ?w = Some w1" "assign_from H F ts w1 = Some w'"
      using Cons.prems(1) idle by (auto split: option.splits)
    have i: "i < length (wk_conns w)" "i \<notin> set rest" "distinct rest"
      "set rest = {j. j < length (wk_conns w) \<and> hc_state (wk_conns w ! j) = CsIdle} - {i}"
      using Cons.prems(3) assms(5) idle by (auto simp: pool_ok_def)
    have ok: "worker_ok F ?w" "i < length (wk_conns ?w)" using Cons.prems(2) i by (simp_all add: worker_ok_def)
    from start_request_effect [OF w1(1) assms(2) ok] obtain c where
      c: "worker_ok F w1" "wk_conns w1 = (wk_conns w)[i := c]" "hc_state c \<noteq> CsIdle" "wk_idle w1 = rest"
        "wk_next_token w1 = wk_next_token w"
      by auto
    have "pool_ok F w1" using c i by (auto simp: pool_ok_def nth_list_update split: if_splits)
    from Cons.IH [OF w1(2) c(1) this] c(5) show ?thesis by auto
  qed
qed

lemma idle_update:
  "hc_state c \<noteq> CsIdle \<Longrightarrow> {j. j < length (cs[i := c]) \<and> hc_state (cs[i := c] ! j) = CsIdle}
     = {j. j < length cs \<and> hc_state (cs ! j) = CsIdle} - {i}"
  by (cases "i < length cs") (auto simp: nth_list_update split: if_split_asm)

lemma pool_update:
  assumes "pool_ok F w" "wk_conns w' = (wk_conns w)[i := c]" "wk_idle w' = wk_idle w" "hc_state c \<noteq> CsIdle"
    and "hc_state (wk_conns w ! i) \<noteq> CsIdle"
  shows "pool_ok F w'"
  using assms(1,5) unfolding pool_ok_def assms(2,3) idle_update [OF assms(4)] by blast

lemma on_writable_effect:
  assumes "on_writable H F now i w = Some w'" "config_ok F" "worker_ok F w" "pool_ok F w" "i < length (wk_conns w)"
  shows "worker_ok F w' \<and> pool_ok F w' \<and> (\<exists>c. wk_conns w' = (wk_conns w)[i := c])
    \<and> wk_pending w' = wk_pending w \<and> wk_next_token w' = wk_next_token w"
proof (cases "hc_state (wk_conns w ! i)")
  case CsIdle
  show ?thesis
  proof (cases "open_loop F")
    case True
    then have "w' = w" using assms(1) CsIdle by (simp add: on_writable_def)
    then show ?thesis using assms(3,4) list_update_id [of "wk_conns w" i] by metis
  next
    case False
    then have "start_request H F i now w = Some w'" using assms(1) CsIdle by (simp add: on_writable_def)
    from start_request_effect [OF this assms(2,3,5)] False show ?thesis by (auto simp: pool_ok_def)
  qed
next
  case CsWriting
  let ?sid = "hc_scenario_id (wk_conns w ! i)"
  have w': "w' = flush_request H i ?sid w" using assms(1) CsWriting by (simp add: on_writable_def)
  have "unat ?sid < length (pl_scenarios (hf_plan F))" using assms(3,5) by (simp add: worker_ok_def)
  from flush_request_effect [OF assms(3) this assms(5) CsWriting, of H] obtain c where
    c: "worker_ok F w'" "wk_conns w' = (wk_conns w)[i := c]" "hc_state c \<noteq> CsIdle"
      "wk_idle w' = wk_idle w" "wk_pending w' = wk_pending w" "wk_next_token w' = wk_next_token w"
    unfolding w' [symmetric] by auto
  have "pool_ok F w'" using pool_update [OF assms(4) c(2,4,3)] CsWriting by simp
  with c show ?thesis by blast
qed (use assms list_update_id [of "wk_conns w" i] in \<open>auto simp: on_writable_def intro: exI [of _ "wk_conns w ! i"]\<close>)

text \<open>A read leaves the identity of the request alone, and an answer leaves the reading states.\<close>

lemma check_headers_frame:
  assumes "check_headers parse now c = (c', r)" "hc_state c = CsReadingHeaders"
  shows "hc_scenario_id c' = hc_scenario_id c \<and> hc_intended_start c' = hc_intended_start c
    \<and> (r = Incomplete \<longrightarrow> hc_state c' \<noteq> CsIdle)"
proof (cases "find_header_end (hc_read_buf c)")
  case None
  then show ?thesis using assms by (auto simp: check_headers_def)
next
  case (Some e)
  show ?thesis
  proof (cases "parse (take e (hc_read_buf c))")
    case (HeadComplete n code_opt hs)
    show ?thesis
    proof (cases "find_transfer_encoding_chunked hs")
      case True
      obtain d p where a: "advance chunked_new (drop n (hc_read_buf c)) = (d, p)" by fastforce
      show ?thesis using assms Some HeadComplete True a
        by (cases p) (auto simp: check_headers_def Let_def)
    next
      case False
      then show ?thesis using assms Some HeadComplete
        by (cases "find_content_length_raw hs") (auto simp: check_headers_def Let_def split: if_splits)
    qed
  qed (use assms Some in \<open>auto simp: check_headers_def\<close>)
qed

lemma on_buffer_frame:
  assumes "on_buffer parse now c = (c', r)" "hc_state c \<noteq> CsIdle"
  shows "hc_scenario_id c' = hc_scenario_id c \<and> hc_intended_start c' = hc_intended_start c
    \<and> (r = Incomplete \<longrightarrow> hc_state c' \<noteq> CsIdle)"
proof (cases "hc_state c")
  case CsReadingHeaders
  then show ?thesis using assms check_headers_frame by (simp add: on_buffer_def)
qed (use assms in \<open>auto simp: on_buffer_def split: if_splits prod.splits chunk_progress.splits\<close>)

lemma try_read_frame:
  assumes "try_read parse now c = (c', r)" "hc_state c \<noteq> CsIdle"
  shows "hc_scenario_id c' = hc_scenario_id c \<and> hc_intended_start c' = hc_intended_start c
    \<and> (r = Incomplete \<longrightarrow> hc_state c' \<noteq> CsIdle)"
proof -
  obtain rs buf e where l: "read_loop (hc_reads c) (hc_read_buf c) = (rs, buf, e)" by (metis prod_cases3)
  show ?thesis
  proof (cases e)
    case ReadBlocked
    with l assms(1) have "on_buffer parse now (c\<lparr>hc_reads := rs, hc_read_buf := buf\<rparr>) = (c', r)"
      by (simp add: try_read_def)
    from on_buffer_frame [OF this] assms(2) show ?thesis by simp
  qed (use l assms in \<open>auto simp: try_read_def\<close>)
qed

lemma record_response_effect:
  assumes "record_response H F now i status ttfb w = Some w'" "worker_ok F w" "i < length (wk_conns w)"
  shows "worker_ok F w' \<and> wk_conns w' = wk_conns w \<and> wk_idle w' = wk_idle w
    \<and> wk_pending w' = wk_pending w \<and> wk_next_token w' = wk_next_token w"
proof -
  let ?n = "length (pl_scenarios (hf_plan F))" and ?sid = "hc_scenario_id (wk_conns w ! i)"
  have sid: "unat ?sid < ?n" and r: "rec_ok ?n (wk_rec w)" using assms(2,3) by (simp_all add: worker_ok_def)
  have ok: "rec_ok ?n (rec_record H sh ?sid x (record_status H ?sid status (wk_rec w)))" for sh x
    using record_status_ok [OF r sid] sid by blast
  show ?thesis
  proof (cases "hf_static F")
    case (Some b)
    then show ?thesis using assms(1,2) ok by (auto simp: record_response_def worker_ok_def Let_def)
  next
    case None
    then show ?thesis using assms(1,2) rec_errors_ok [OF ok sid]
      by (auto simp: record_response_def worker_ok_def record_failures_def Let_def split: option.splits)
  qed
qed

lemma on_readable_effect:
  assumes "on_readable H F now i w = Some w'" "config_ok F" "worker_ok F w" "pool_ok F w"
    and "i < length (wk_conns w)" "is_reading (hc_state (wk_conns w ! i))"
  shows "worker_ok F w' \<and> pool_ok F w' \<and> (\<exists>c. wk_conns w' = (wk_conns w)[i := c])
    \<and> wk_pending w' = wk_pending w \<and> wk_next_token w' = wk_next_token w"
proof -
  let ?n = "length (pl_scenarios (hf_plan F))" and ?c = "wk_conns w ! i"
  obtain c r where t: "try_read (hf_parse F) now ?c = (c, r)" by fastforce
  have busy: "hc_state ?c \<noteq> CsIdle" using assms(6) by (cases "hc_state ?c") auto
  note fr = try_read_frame [OF t busy]
  let ?w1 = "w\<lparr>wk_conns := (wk_conns w)[i := c]\<rparr>"
  have sid: "unat (hc_scenario_id c) < ?n" using fr assms(3,5) by (simp add: worker_ok_def)
  then have ok1: "worker_ok F ?w1"
    using assms(3) by (auto simp: worker_ok_def dest: set_update_subset_insert [THEN subsetD])
  show ?thesis
  proof (cases r)
    case Incomplete
    then have "w' = ?w1" using assms(1) t by (simp add: on_readable_def)
    moreover have "pool_ok F ?w1" using pool_update [OF assms(4) _ _ _ busy, of ?w1 c] fr Incomplete by simp
    ultimately show ?thesis using ok1 by auto
  next
    case (Broken m)
    let ?w2 = "w\<lparr>wk_conns := (wk_conns w)[i := c\<lparr>hc_state := CsDead\<rparr>],
                  wk_rec := rec_record_error H (hc_scenario_id c) EkRead (wk_rec w)\<rparr>"
    have "w' = ?w2" using assms(1) t Broken by (simp add: on_readable_def)
    moreover have "worker_ok F ?w2"
      using assms(3) sid by (auto simp: worker_ok_def dest: set_update_subset_insert [THEN subsetD])
    moreover have "pool_ok F ?w2"
      using pool_update [OF assms(4) _ _ _ busy, of ?w2 "c\<lparr>hc_state := CsDead\<rparr>"] by simp
    ultimately show ?thesis by auto
  next
    case (Complete status f l)
    obtain w2 where w2: "record_response H F now i status f ?w1 = Some w2"
      "w' = (if hc_state c = CsIdle \<and> open_loop F then w2\<lparr>wk_idle := i # wk_idle w2\<rparr> else w2)
       \<or> start_request H F i now w2 = Some w' \<and> \<not> open_loop F"
      using assms(1) t Complete by (auto simp: on_readable_def split: option.splits if_splits)
    from record_response_effect [OF w2(1) ok1] assms(5)
    have e: "worker_ok F w2" "wk_conns w2 = (wk_conns w)[i := c]" "wk_idle w2 = wk_idle w"
      "wk_pending w2 = wk_pending w" "wk_next_token w2 = wk_next_token w" by simp_all
    show ?thesis
    proof (cases "open_loop F")
      case True
      show ?thesis
      proof (cases "hc_state c = CsIdle")
        case idle: True
        then have w': "w' = w2\<lparr>wk_idle := i # wk_idle w2\<rparr>" using w2(2) True by simp
        have "set (wk_idle w) = {j. j < length (wk_conns w) \<and> hc_state (wk_conns w ! j) = CsIdle}" "distinct (wk_idle w)"
          using assms(4) True by (simp_all add: pool_ok_def)
        then have "pool_ok F w'" using w' e idle busy assms(5)
          by (auto simp: pool_ok_def nth_list_update split: if_split_asm)
        then show ?thesis using w' e by (auto simp: worker_ok_def)
      next
        case False
        then have "w' = w2" using w2(2) True by simp
        moreover have "pool_ok F w2" using pool_update [OF assms(4) e(2,3) False busy] .
        ultimately show ?thesis using e by blast
      qed
    next
      case False
      then have p: "pool_ok F w'" by (simp add: pool_ok_def)
      show ?thesis
      proof (cases "w' = w2")
        case True
        then show ?thesis using e p by blast
      next
        case ne: False
        then have "start_request H F i now w2 = Some w'" using w2(2) False by auto
        from start_request_effect [OF this assms(2) e(1)] e assms(5) p show ?thesis by auto
      qed
    qed
  qed
qed

lemma handle_event_effect:
  assumes "handle_event H F now ev w = Some w'" "config_ok F" "worker_ok F w" "pool_ok F w"
  shows "worker_ok F w' \<and> pool_ok F w' \<and> length (wk_conns w') = length (wk_conns w)
    \<and> (\<forall>j. j \<noteq> ev_token ev \<longrightarrow> wk_conns w' ! j = wk_conns w ! j)
    \<and> wk_pending w' = wk_pending w \<and> wk_next_token w' = wk_next_token w"
proof -
  let ?i = "ev_token ev"
  show ?thesis
  proof (cases "length (wk_conns w) \<le> ?i \<or> hc_state (wk_conns w ! ?i) = CsDead")
    case True
    then show ?thesis using assms by (auto simp: handle_event_def Let_def split: if_splits)
  next
    case False
    then have i: "?i < length (wk_conns w)" by simp
    obtain w1 where w1: "(if ev_writable ev then on_writable H F now ?i w else Some w) = Some w1"
      "(if ev_readable ev \<and> is_reading (hc_state (wk_conns w1 ! ?i)) then on_readable H F now ?i w1 else Some w1) = Some w'"
      using assms(1) False by (auto simp: handle_event_def Let_def split: option.splits)
    have one: "worker_ok F w1 \<and> pool_ok F w1 \<and> (\<exists>c. wk_conns w1 = (wk_conns w)[?i := c])
        \<and> wk_pending w1 = wk_pending w \<and> wk_next_token w1 = wk_next_token w"
    proof (cases "ev_writable ev")
      case True
      then show ?thesis using on_writable_effect [OF _ assms(2-4) i] w1(1) by simp
    next
      case False
      then show ?thesis using w1(1) assms(3,4) list_update_id [of "wk_conns w" ?i] by (metis option.inject)
    qed
    show ?thesis
    proof (cases "ev_readable ev \<and> is_reading (hc_state (wk_conns w1 ! ?i))")
      case True
      then have "on_readable H F now ?i w1 = Some w'" using w1(2) by simp
      from on_readable_effect [OF this assms(2)] one True i show ?thesis by fastforce
    next
      case False
      then show ?thesis using w1(2) one by auto
    qed
  qed
qed

lemma handle_events_effect:
  assumes "handle_events H F now es w = Some w'" "config_ok F" "worker_ok F w" "pool_ok F w"
  shows "worker_ok F w' \<and> pool_ok F w' \<and> length (wk_conns w') = length (wk_conns w)
    \<and> (\<forall>j. j \<notin> ev_token ` set es \<longrightarrow> wk_conns w' ! j = wk_conns w ! j)
    \<and> wk_pending w' = wk_pending w \<and> wk_next_token w' = wk_next_token w"
  using assms(1,3,4)
proof (induction es arbitrary: w)
  case (Cons e es)
  obtain w1 where w1: "handle_event H F now e w = Some w1" "handle_events H F now es w1 = Some w'"
    using Cons.prems(1) by (auto split: option.splits)
  from handle_event_effect [OF w1(1) assms(2) Cons.prems(2,3)] Cons.IH [OF w1(2)] show ?case by auto
qed simp

lemma make_tokens_effect:
  assumes "make_tokens H F now w = Some w'" "config_ok F" "worker_ok F w" "pool_ok F w"
    and "length (wk_pending w) \<le> hf_max_pending F"
  shows "worker_ok F w' \<and> pool_ok F w' \<and> length (wk_pending w') \<le> hf_max_pending F
    \<and> wk_conns w' = wk_conns w"
proof (cases "hf_interval F")
  case None
  then show ?thesis using assms by (simp add: make_tokens_def)
next
  case (Some interval)
  then obtain pending nx where g: "gen_tokens interval now (wk_next_token w) (wk_pending w) = Some (pending, nx)"
    "w' = w\<lparr>wk_pending := drop (length pending - hf_max_pending F) pending, wk_next_token := nx,
        wk_rec := (rec_record_error H 0 EkKeepup ^^ (length pending - hf_max_pending F)) (wk_rec w)\<rparr>"
    using assms(1) by (auto simp: make_tokens_def cap_pending_drop split: option.splits)
  have "hf_http F ! 0 < length (pl_scenarios (hf_plan F))" using assms(2) by (simp add: config_ok_def)
  then have "0 < length (pl_scenarios (hf_plan F))" by linarith
  then show ?thesis using assms(3,4) g(2) by (auto simp: worker_ok_def pool_ok_def rec_errors_ok)
qed

lemma one_turn_effect:
  assumes "one_turn H F tn w = Some w'" "config_ok F" "worker_ok F w" "pool_ok F w"
    and "length (wk_pending w) \<le> hf_max_pending F"
  shows "worker_ok F w' \<and> pool_ok F w' \<and> length (wk_pending w') \<le> hf_max_pending F
    \<and> (open_loop F \<longrightarrow> tn_events tn \<noteq> None \<longrightarrow> wk_pending w' = [] \<or> wk_idle w' = [])"
proof -
  obtain w1 w2 where w1: "make_tokens H F (tn_token_now tn) w = Some w1"
    and w2: "(if open_loop F then assign_tokens H F w1 else Some w1) = Some w2"
    and w3: "(case tn_events tn of None \<Rightarrow> Some w2
        | Some es \<Rightarrow> Option.bind (handle_events H F (tn_batch_now tn) es w2)
            (\<lambda>w3. if open_loop F then assign_tokens H F w3 else Some w3)) = Some w'"
    using assms(1) unfolding one_turn_def by (auto simp: bind_eq_Some_conv)
  have a: "worker_ok F w1" "pool_ok F w1" "length (wk_pending w1) \<le> hf_max_pending F"
    using make_tokens_effect [OF w1 assms(2-5)] by simp_all
  have assign: "worker_ok F v' \<and> pool_ok F v' \<and> length (wk_pending v') \<le> hf_max_pending F
      \<and> (open_loop F \<longrightarrow> wk_pending v' = [] \<or> wk_idle v' = [])"
    if "(if open_loop F then assign_tokens H F v else Some v) = Some v'" "worker_ok F v" "pool_ok F v"
      "length (wk_pending v) \<le> hf_max_pending F" for v v'
    using that assign_from_effect [of H F "wk_pending v" v v', OF _ assms(2)]
    by (cases "open_loop F") (auto simp: assign_tokens_def)
  note b = assign [OF w2 a]
  show ?thesis
  proof (cases "tn_events tn")
    case None
    then show ?thesis using w3 b by simp
  next
    case (Some es)
    then obtain w4 where w4: "handle_events H F (tn_batch_now tn) es w2 = Some w4"
      "(if open_loop F then assign_tokens H F w4 else Some w4) = Some w'"
      using w3 by (auto simp: bind_eq_Some_conv)
    have "worker_ok F w4" "pool_ok F w4" "length (wk_pending w4) \<le> hf_max_pending F"
      using handle_events_effect [OF w4(1) assms(2)] b by simp_all
    from assign [OF w4(2) this] show ?thesis by blast
  qed
qed

lemma run_turns_effect:
  assumes "run_turns H F tns w = Some w'" "config_ok F" "worker_ok F w" "pool_ok F w"
    and "length (wk_pending w) \<le> hf_max_pending F"
  shows "worker_ok F w' \<and> pool_ok F w' \<and> length (wk_pending w') \<le> hf_max_pending F"
  using assms(1,3-5)
proof (induction tns arbitrary: w)
  case (Cons tn tns)
  obtain w1 where w1: "one_turn H F tn w = Some w1"
    "w' = w1 \<and> tn_events tn = None \<or> run_turns H F tns w1 = Some w'"
    using Cons.prems(1) by (auto split: option.splits if_splits)
  from one_turn_effect [OF w1(1) assms(2) Cons.prems(2-4)] Cons.IH [of w1] w1(2) show ?case by blast
qed simp

text \<open>The start of a worker.\<close>

lemma open_conns_effect:
  assumes "open_conns H static now os r = (cs, r')" "rec_ok n r" "0 < n"
  shows "rec_ok n r' \<and> (\<forall>c \<in> set cs. hc_state c = CsIdle \<and> hc_scenario_id c = 0 \<and> hc_sent c = [])
    \<and> length cs = length (filter (\<lambda>x. case x of Opened rs ws \<Rightarrow> True | _ \<Rightarrow> False) os)"
  using assms
proof (induction os arbitrary: cs r r')
  case (Cons x os)
  show ?case
  proof (cases x)
    case (Opened rs ws)
    obtain cs1 r1 where "open_conns H static now os r = (cs1, r1)" by fastforce
    with Opened Cons show ?thesis by (auto simp: h1_conn_new_def)
  qed (use Cons.IH [of "rec_record_error H 0 EkConnect r"] Cons.prems rec_error_ok [of n r 0 H EkConnect] in auto)
qed simp

lemma start_all_effect:
  assumes "start_all F now is w = Some w'" "config_ok F" "worker_ok F w" "\<forall>i \<in> set is. i < length (wk_conns w)"
  shows "worker_ok F w' \<and> length (wk_conns w') = length (wk_conns w) \<and> wk_pending w' = wk_pending w
    \<and> (\<forall>i < length (wk_conns w). hc_sent (wk_conns w' ! i) = hc_sent (wk_conns w ! i)
         \<and> (i \<in> set is \<or> hc_state (wk_conns w ! i) = CsWriting \<longrightarrow> hc_state (wk_conns w' ! i) = CsWriting))"
  using assms(1,3,4)
proof (induction "is" arbitrary: w)
  case (Cons i "is")
  obtain sid w1 where w1: "assign_scenario F i now w = Some (sid, w1)" "start_all F now is w1 = Some w'"
    using Cons.prems(1) by (auto split: option.splits)
  obtain c where c: "worker_ok F w1" "wk_conns w1 = (wk_conns w)[i := c]" "hc_state c = CsWriting"
    "hc_sent c = hc_sent (wk_conns w ! i)" "wk_pending w1 = wk_pending w"
    using assign_scenario_effect [OF w1(1) assms(2) Cons.prems(2)] Cons.prems(3) by auto
  have IH: "worker_ok F w' \<and> length (wk_conns w') = length (wk_conns w1) \<and> wk_pending w' = wk_pending w1
    \<and> (\<forall>i < length (wk_conns w1). hc_sent (wk_conns w' ! i) = hc_sent (wk_conns w1 ! i)
         \<and> (i \<in> set is \<or> hc_state (wk_conns w1 ! i) = CsWriting \<longrightarrow> hc_state (wk_conns w' ! i) = CsWriting))"
    using Cons.IH [OF w1(2) c(1)] Cons.prems(3) c(2) by simp
  show ?case
  proof (intro conjI allI impI)
    fix j assume j: "j < length (wk_conns w)"
    show "hc_sent (wk_conns w' ! j) = hc_sent (wk_conns w ! j)"
      using IH c j by (cases "j = i") simp_all
    assume "j \<in> set (i # is) \<or> hc_state (wk_conns w ! j) = CsWriting"
    then show "hc_state (wk_conns w' ! j) = CsWriting"
      using IH c j by (cases "j = i") auto
  qed (use IH c in simp_all)
qed simp

lemma worker_start_effect:
  assumes "worker_start H W parse pl t interval clock sh rng g live opens now = Some (F, w)"
    and "world_ok W" "http_scenario_indices pl \<noteq> []"
  shows "config_ok F \<and> worker_ok F w \<and> pool_ok F w \<and> wk_pending w = [] \<and> hf_plan F = pl \<and> hf_interval F = interval
    \<and> length (wk_conns w) = length (filter (\<lambda>x. case x of Opened rs ws \<Rightarrow> True | _ \<Rightarrow> False) opens)
    \<and> (\<forall>i < length (wk_conns w). hc_sent (wk_conns w ! i) = []
         \<and> (interval = None \<longrightarrow> hc_state (wk_conns w ! i) = CsWriting))"
proof -
  let ?rec = "\<lparr>rc_task = Some (task_stats_new H (length (pl_scenarios pl))), rc_live = live\<rparr>"
  let ?http = "http_scenario_indices pl"
  obtain rp where rp: "first_request (sn_steps (pl_scenarios pl ! (?http ! 0))) = Some rp"
    using assms(1) by (auto simp: worker_start_def Let_def split: option.splits)
  obtain sb ctx1 g1 where sb: "(if use_static pl ?http rp
      then (case build_raw_request W rp t KeepAlive [] (context_new (registry_len (pl_vars pl)) rng, g) of
              (b, ctx1, g1) \<Rightarrow> (Some b, ctx1, g1))
      else (None, context_new (registry_len (pl_vars pl)) rng, g)) = (sb, ctx1, g1)" by (metis prod_cases3)
  obtain cs rec1 where oc: "open_conns H (use_static pl ?http rp) now opens ?rec = (cs, rec1)" by fastforce
  define F0 where "F0 = \<lparr>hf_world = W, hf_parse = parse, hf_plan = pl, hf_target = t, hf_http = ?http,
                       hf_static = sb, hf_interval = interval, hf_max_pending = length opens * 2,
                       hf_clock = clock, hf_shard = sh\<rparr>"
  define w0 where "w0 = \<lparr>wk_conns = cs, wk_conn_scenario = replicate (length cs) 0,
                       wk_idle = (if interval \<noteq> None then rev [0..<length cs] else []),
                       wk_pending = [], wk_next_token = now, wk_ctx = ctx1, wk_proc = g1,
                       wk_rec = rec1, wk_ticks = 0\<rparr>"
  have st: "(if interval \<noteq> None then Some (F0, w0)
      else map_option (\<lambda>w'. (F0, w')) (start_all F0 now [0..<length cs] w0)) = Some (F, w)"
    using assms(1) unfolding worker_start_def Let_def F0_def w0_def
    by (simp only: rp sb oc option.case prod.case)
  then have F: "F = F0" by (auto split: if_splits)
  have n: "0 < length (pl_scenarios pl)"
    using assms(3) by (auto simp: http_scenario_indices_def filter_empty_conv)
  have cfg: "config_ok F0" using assms(2,3)
    by (auto simp: config_ok_def F0_def http_scenario_indices_def)
  have "rec_ok (length (pl_scenarios pl)) ?rec" by (simp add: rec_ok_def rolled_up_new count_simps)
  from open_conns_effect [OF oc this n] have cs: "rec_ok (length (pl_scenarios pl)) rec1"
    "\<forall>c \<in> set cs. hc_state c = CsIdle \<and> hc_scenario_id c = 0 \<and> hc_sent c = []"
    "length cs = length (filter (\<lambda>x. case x of Opened rs ws \<Rightarrow> True | _ \<Rightarrow> False) opens)" by auto
  have w0: "worker_ok F0 w0" "pool_ok F0 w0" using cs n
    by (auto simp: worker_ok_def pool_ok_def open_loop_def F0_def w0_def)
  show ?thesis
  proof (cases "interval = None")
    case True
    then have sa: "start_all F0 now [0..<length cs] w0 = Some w" using st by auto
    have "\<not> open_loop F0" using True by (simp add: open_loop_def F0_def)
    then show ?thesis
      using start_all_effect [OF sa cfg w0(1)] cs cfg F True
      by (auto simp: w0_def F0_def pool_ok_def)
  next
    case False
    then have "w = w0" using st by auto
    then show ?thesis using w0 cfg cs F False by (auto simp: F0_def w0_def)
  qed
qed

lemma assign_in_order:
  assumes "assign_from H F ts w = Some w'" "config_ok F" "worker_ok F w"
    and "distinct (wk_idle w)" "\<forall>i \<in> set (wk_idle w). i < length (wk_conns w)"
  shows "wk_pending w' = drop (length (wk_idle w)) ts \<and> wk_idle w' = drop (length ts) (wk_idle w)
    \<and> (\<forall>k < min (length ts) (length (wk_idle w)). hc_intended_start (wk_conns w' ! (wk_idle w ! k)) = ts ! k)
    \<and> length (wk_conns w') = length (wk_conns w)
    \<and> (\<forall>i. i \<notin> set (take (length ts) (wk_idle w)) \<longrightarrow> wk_conns w' ! i = wk_conns w ! i)"
  using assms(1,3-5)
proof (induction ts arbitrary: w)
  case (Cons t ts)
  show ?case
  proof (cases "wk_idle w")
    case Nil
    then show ?thesis using Cons.prems by auto
  next
    case idle: (Cons i rest)
    let ?w = "w\<lparr>wk_idle := rest\<rparr>"
    obtain w1 where w1: "start_request H F i t ?w = Some w1" "assign_from H F ts w1 = Some w'"
      using Cons.prems(1) idle by (auto split: option.splits)
    have ok: "worker_ok F ?w" "i < length (wk_conns ?w)" using Cons.prems(2,4) idle by (simp_all add: worker_ok_def)
    from start_request_effect [OF w1(1) assms(2) ok] obtain c where
      c: "worker_ok F w1" "wk_conns w1 = (wk_conns w)[i := c]" "hc_intended_start c = t" "wk_idle w1 = rest"
      by auto
    have IH: "wk_pending w' = drop (length rest) ts" "wk_idle w' = drop (length ts) rest"
      "length (wk_conns w') = length (wk_conns w)"
      "\<And>k. k < length ts \<Longrightarrow> k < length rest \<Longrightarrow> hc_intended_start (wk_conns w' ! (rest ! k)) = ts ! k"
      "\<And>j. j \<notin> set (take (length ts) rest) \<Longrightarrow> wk_conns w' ! j = (wk_conns w)[i := c] ! j"
      using Cons.IH [OF w1(2) c(1)] Cons.prems(3,4) idle c(2,4) by auto
    have "i \<notin> set rest" using Cons.prems(3) idle by simp
    then have "i \<notin> set (take (length ts) rest)" using in_set_takeD by fast
    then have "wk_conns w' ! i = c" using IH(5) ok(2) by simp
    then have head: "hc_intended_start (wk_conns w' ! i) = t" using c(3) by simp
    show ?thesis
    proof (intro conjI allI impI)
      fix k assume "k < min (length (t # ts)) (length (wk_idle w))"
      then show "hc_intended_start (wk_conns w' ! (wk_idle w ! k)) = (t # ts) ! k"
        using IH(4) head idle by (cases k) simp_all
    next
      fix j assume "j \<notin> set (take (length (t # ts)) (wk_idle w))"
      then show "wk_conns w' ! j = wk_conns w ! j" using IH(5) idle by simp
    qed (use IH idle in simp_all)
  qed
qed auto

text \<open>In the closed loop the queues play no part.\<close>

lemma closed_turns:
  assumes "run_turns H F tns w = Some w'" "config_ok F" "worker_ok F w" "hf_interval F = None"
    and "\<forall>tn \<in> set tns. \<forall>es. tn_events tn = Some es \<longrightarrow> j \<notin> ev_token ` set es"
  shows "wk_conns w' ! j = wk_conns w ! j"
  using assms(1,3,5)
proof (induction tns arbitrary: w)
  case (Cons tn tns)
  have closed: "\<not> open_loop F" "pool_ok F v" for v :: "('a, 'b) h1_worker"
    using assms(4) by (simp_all add: open_loop_def pool_ok_def)
  obtain w1 where w1: "one_turn H F tn w = Some w1"
    "w' = w1 \<and> tn_events tn = None \<or> run_turns H F tns w1 = Some w'"
    using Cons.prems(1) by (auto split: option.splits if_splits)
  have one: "worker_ok F w1 \<and> wk_conns w1 ! j = wk_conns w ! j"
  proof (cases "tn_events tn")
    case None
    then show ?thesis using w1(1) closed(1) assms(4) Cons.prems(2) by (simp add: one_turn_def make_tokens_def)
  next
    case (Some es)
    then have "handle_events H F (tn_batch_now tn) es w = Some w1"
      using w1(1) closed(1) assms(4) by (auto simp: one_turn_def make_tokens_def bind_eq_Some_conv)
    from handle_events_effect [OF this assms(2) Cons.prems(2) closed(2)] Some Cons.prems(3) show ?thesis by auto
  qed
  show ?case
  proof (cases "tn_events tn = None")
    case True
    then have "w' = w1 \<or> run_turns H F tns w1 = Some w'" using w1(2) by auto
    then show ?thesis using one Cons.IH [of w1] Cons.prems(3) by auto
  next
    case False
    then show ?thesis using one w1(2) Cons.IH [of w1] Cons.prems(3) by auto
  qed
qed simp

end
