(* ===== verification/MioRun.thy ===== *)
theory MioRun
  imports MioH1
begin

text \<open>
  What a run of a keep-alive HTTP/1.1 worker guarantees: it does not panic and its loops end, tokens
  are generated and served in order, the idle pool is exact, the statistics roll up.
\<close>

section \<open>A worker does not panic\<close>

lemma pending_update [simp]:
  "worker_ok F (w\<lparr>wk_pending := ps\<rparr>) = worker_ok F w" "pool_ok F (w\<lparr>wk_pending := ps\<rparr>) = pool_ok F w"
  by (simp_all add: worker_ok_def pool_ok_def)

text \<open>
  Every HTTP scenario has a request and its index fits the 16 bits of a scenario id. The scenario
  noted for a connection is one with a request as soon as the connection has been used.
\<close>

definition has_request :: "plan \<Rightarrow> nat \<Rightarrow> bool" where
  "has_request pl p = (p < 2 ^ 16 \<and> first_request (sn_steps (pl_scenarios pl ! p)) \<noteq> None)"

definition requests_ok :: "'r h1_config \<Rightarrow> bool" where
  "requests_ok F = list_all (has_request (hf_plan F)) (hf_http F)"

definition scenarios_ok :: "'r h1_config \<Rightarrow> ('r, 'h) h1_worker \<Rightarrow> bool" where
  "scenarios_ok F w = (\<forall>i < length (wk_conns w). hc_state (wk_conns w ! i) \<noteq> CsIdle
     \<longrightarrow> has_request (hf_plan F) (wk_conn_scenario w ! i))"

lemma pick_total:
  assumes "config_ok F" "requests_ok F"
  shows "\<exists>sid rp c'. pick_scenario (hf_world F) (hf_plan F) (hf_http F) c = Some (sid, rp, c')
    \<and> has_request (hf_plan F) (unat sid)"
proof -
  obtain p c' where p: "(if length (hf_http F) \<le> 1 then (hf_http F ! 0, c)
     else (case w_gen_range (hf_world F) 0 (int (length (hf_http F)) - 1) (cx_rng c) of
             (i, r) \<Rightarrow> (hf_http F ! nat i, c\<lparr>cx_rng := r\<rparr>))) = (p, c')" by fastforce
  have "p \<in> set (hf_http F)"
  proof (cases "length (hf_http F) \<le> 1")
    case True
    then show ?thesis using p assms(1) by (auto simp: config_ok_def)
  next
    case False
    obtain i r where g: "w_gen_range (hf_world F) 0 (int (length (hf_http F)) - 1) (cx_rng c) = (i, r)" by fastforce
    moreover have "0 \<le> int (length (hf_http F)) - 1" using False by linarith
    ultimately have "0 \<le> i \<and> i \<le> int (length (hf_http F)) - 1"
      using assms(1) unfolding config_ok_def world_ok_def by (metis fst_conv)
    then show ?thesis using p g False by (auto intro!: nth_mem)
  qed
  then have "has_request (hf_plan F) p" using assms(2) by (simp add: requests_ok_def list_all_iff)
  moreover from this have "unat (word_of_nat p :: u16) = p" by (simp add: has_request_def unat_of_nat)
  ultimately show ?thesis using p by (auto simp: pick_scenario_def has_request_def)
qed

lemma assign_scenario_total:
  assumes "config_ok F" "requests_ok F" "worker_ok F w" "scenarios_ok F w" "i < length (wk_conns w)"
  shows "\<exists>sid w'. assign_scenario F i t w = Some (sid, w') \<and> scenarios_ok F w'"
proof -
  obtain sid rp ctx where p: "pick_scenario (hf_world F) (hf_plan F) (hf_http F) (wk_ctx w) = Some (sid, rp, ctx)"
    "has_request (hf_plan F) (unat sid)" using pick_total [OF assms(1,2)] by blast
  obtain c ctx' g' where c: "prepare_conn F t rp sid (hf_clock F (wk_ticks w)) (ctx, wk_proc w) (wk_conns w ! i) = (c, ctx', g')"
    by (metis prod_cases3)
  have "length (wk_conn_scenario w) = length (wk_conns w)" using assms(3) by (simp add: worker_ok_def)
  then show ?thesis using p c assms(4,5) by (auto simp: assign_scenario_def scenarios_ok_def nth_list_update)
qed

lemma scenarios_ok_conn:
  assumes "scenarios_ok F w" "wk_conns w' = (wk_conns w)[i := c]" "wk_conn_scenario w' = wk_conn_scenario w"
    and "hc_state (wk_conns w ! i) \<noteq> CsIdle"
  shows "scenarios_ok F w'"
  using assms(1,4) unfolding scenarios_ok_def assms(2,3)
  by (metis length_list_update nth_list_update_eq nth_list_update_neq)

lemma flush_scenarios:
  assumes "scenarios_ok F w" "hc_state (wk_conns w ! i) \<noteq> CsIdle"
  shows "scenarios_ok F (flush_request H i sid w)"
proof -
  have "\<exists>c. wk_conns (flush_request H i sid w) = (wk_conns w)[i := c]"
    "wk_conn_scenario (flush_request H i sid w) = wk_conn_scenario w"
    by (auto simp: flush_request_def split: prod.splits option.splits bool.splits)
  then show ?thesis using scenarios_ok_conn assms by blast
qed

lemma start_request_total:
  assumes "config_ok F" "requests_ok F" "worker_ok F w" "scenarios_ok F w" "i < length (wk_conns w)"
  shows "\<exists>w'. start_request H F i t w = Some w' \<and> scenarios_ok F w'"
proof -
  obtain sid w1 where a: "assign_scenario F i t w = Some (sid, w1)" "scenarios_ok F w1"
    using assign_scenario_total [OF assms] by blast
  have "hc_state (wk_conns w1 ! i) \<noteq> CsIdle"
    using assign_scenario_effect [OF a(1) assms(1,3,5)] assms(5) by auto
  then show ?thesis using a flush_scenarios [OF a(2)] by (auto simp: start_request_def)
qed

lemma assign_from_total:
  assumes "config_ok F" "requests_ok F" "worker_ok F w" "scenarios_ok F w"
    and "\<forall>i \<in> set (wk_idle w). i < length (wk_conns w)"
  shows "\<exists>w'. assign_from H F ts w = Some w' \<and> scenarios_ok F w'"
  using assms(3-5)
proof (induction ts arbitrary: w)
  case (Cons t ts)
  show ?case
  proof (cases "wk_idle w")
    case Nil
    then show ?thesis using Cons.prems by (simp add: scenarios_ok_def)
  next
    case idle: (Cons i rest)
    let ?w = "w\<lparr>wk_idle := rest\<rparr>"
    have ok: "worker_ok F ?w" "scenarios_ok F ?w" "i < length (wk_conns ?w)"
      using Cons.prems idle by (simp_all add: worker_ok_def scenarios_ok_def)
    obtain w1 where w1: "start_request H F i t ?w = Some w1" "scenarios_ok F w1"
      using start_request_total [OF assms(1,2) ok] by blast
    have "worker_ok F w1" "\<forall>j \<in> set (wk_idle w1). j < length (wk_conns w1)"
      using start_request_effect [OF w1(1) assms(1) ok(1,3)] Cons.prems(3) idle by auto
    from Cons.IH [OF this(1) w1(2) this(2)] w1(1) idle show ?thesis by simp
  qed
qed (simp add: scenarios_ok_def)

lemma on_writable_total:
  assumes "config_ok F" "requests_ok F" "worker_ok F w" "scenarios_ok F w" "i < length (wk_conns w)"
  shows "\<exists>w'. on_writable H F now i w = Some w' \<and> scenarios_ok F w'"
  using start_request_total [OF assms] flush_scenarios [OF assms(4)] assms(4)
  by (cases "hc_state (wk_conns w ! i)") (auto simp: on_writable_def)

lemma record_response_total:
  assumes "has_request (hf_plan F) (wk_conn_scenario w ! i)"
  shows "\<exists>w'. record_response H F now i status ttfb w = Some w' \<and> wk_conn_scenario w' = wk_conn_scenario w"
  using assms by (cases "hf_static F") (auto simp: record_response_def has_request_def Let_def)

lemma on_readable_total:
  assumes "config_ok F" "requests_ok F" "worker_ok F w" "scenarios_ok F w" "i < length (wk_conns w)"
    and "is_reading (hc_state (wk_conns w ! i))"
  shows "\<exists>w'. on_readable H F now i w = Some w' \<and> scenarios_ok F w'"
proof -
  let ?c = "wk_conns w ! i"
  obtain c r where t: "try_read (hf_parse F) now ?c = (c, r)" by fastforce
  have busy: "hc_state ?c \<noteq> CsIdle" using assms(6) by (cases "hc_state ?c") auto
  let ?w1 = "w\<lparr>wk_conns := (wk_conns w)[i := c]\<rparr>"
  have s1: "scenarios_ok F ?w1" using scenarios_ok_conn [OF assms(4) _ _ busy, of ?w1 c] by simp
  have req: "has_request (hf_plan F) (wk_conn_scenario w ! i)" using assms(4,5) busy by (simp add: scenarios_ok_def)
  have ok1: "worker_ok F ?w1"
    using try_read_frame [OF t busy] assms(3,5)
    by (auto simp: worker_ok_def dest: set_update_subset_insert [THEN subsetD])
  show ?thesis
  proof (cases r)
    case Incomplete
    then show ?thesis using t s1 by (simp add: on_readable_def)
  next
    case (Broken m)
    then show ?thesis
      using t scenarios_ok_conn [OF assms(4) _ _ busy, of "?w1\<lparr>wk_conns := (wk_conns w)[i := c\<lparr>hc_state := CsDead\<rparr>]\<rparr>"]
      by (auto simp: on_readable_def scenarios_ok_def)
  next
    case (Complete status f l)
    obtain w2 where w2: "record_response H F now i status f ?w1 = Some w2" "wk_conn_scenario w2 = wk_conn_scenario w"
      using record_response_total [of F ?w1 i H now status f] req by auto
    have e: "worker_ok F w2" "wk_conns w2 = wk_conns ?w1"
      using record_response_effect [OF w2(1) ok1] assms(5) by simp_all
    have s2: "scenarios_ok F w2" using s1 e(2) w2(2) by (simp add: scenarios_ok_def)
    from start_request_total [OF assms(1,2) e(1) s2, of i H now] assms(5) e(2) s2 t Complete w2(1)
    show ?thesis by (auto simp: on_readable_def scenarios_ok_def)
  qed
qed

lemma handle_event_total:
  assumes "config_ok F" "requests_ok F" "worker_ok F w" "pool_ok F w" "scenarios_ok F w"
  shows "\<exists>w'. handle_event H F now ev w = Some w' \<and> scenarios_ok F w'"
proof (cases "length (wk_conns w) \<le> ev_token ev \<or> hc_state (wk_conns w ! ev_token ev) = CsDead")
  case True
  then show ?thesis using assms(5) by (auto simp: handle_event_def Let_def)
next
  case False
  then have i: "ev_token ev < length (wk_conns w)" by simp
  obtain w1 where w1: "(if ev_writable ev then on_writable H F now (ev_token ev) w else Some w) = Some w1"
    "scenarios_ok F w1" using on_writable_total [OF assms(1-3,5) i, of H now] assms(5) by (cases "ev_writable ev") auto
  have "worker_ok F w1 \<and> length (wk_conns w1) = length (wk_conns w)"
    using w1(1) on_writable_effect [OF _ assms(1,3,4) i, of H now w1] assms(3) by (cases "ev_writable ev") auto
  then have ok: "worker_ok F w1" "ev_token ev < length (wk_conns w1)" using i by simp_all
  show ?thesis using on_readable_total [OF assms(1,2) ok(1) w1(2) ok(2), of H now] w1 False
    by (auto simp: handle_event_def Let_def)
qed

lemma handle_events_total:
  assumes "config_ok F" "requests_ok F" "worker_ok F w" "pool_ok F w" "scenarios_ok F w"
  shows "\<exists>w'. handle_events H F now es w = Some w' \<and> scenarios_ok F w'"
  using assms(3-5)
proof (induction es arbitrary: w)
  case (Cons e es)
  obtain w1 where w1: "handle_event H F now e w = Some w1" "scenarios_ok F w1"
    using handle_event_total [OF assms(1,2) Cons.prems] by blast
  have "worker_ok F w1" "pool_ok F w1"
    using handle_event_effect [OF w1(1) assms(1) Cons.prems(1,2)] by blast+
  from Cons.IH [OF this w1(2)] w1(1) show ?case by simp
qed simp

lemma assign_tokens_total:
  assumes "config_ok F" "requests_ok F" "worker_ok F w" "pool_ok F w" "scenarios_ok F w"
  shows "\<exists>w'. (if open_loop F then assign_tokens H F w else Some w) = Some w'
    \<and> worker_ok F w' \<and> pool_ok F w' \<and> scenarios_ok F w'"
proof (cases "open_loop F")
  case True
  then have "\<forall>i \<in> set (wk_idle w). i < length (wk_conns w)" using assms(4) by (simp add: pool_ok_def)
  from assign_from_total [OF assms(1-3,5) this, of H "wk_pending w"] obtain w' where
    w': "assign_from H F (wk_pending w) w = Some w'" "scenarios_ok F w'" by blast
  from assign_from_effect [OF w'(1) assms(1,3,4) True] w' True show ?thesis by (simp add: assign_tokens_def)
qed (use assms in simp)

lemma make_tokens_total:
  assumes "hf_interval F \<noteq> Some 0" "scenarios_ok F w"
  shows "\<exists>w'. make_tokens H F now w = Some w' \<and> scenarios_ok F w'"
proof (cases "hf_interval F")
  case (Some interval)
  then have "0 < interval" using assms(1) by simp
  from gen_tokens_map [OF this refl, of now "wk_next_token w" "wk_pending w"] Some assms(2)
  show ?thesis by (simp add: make_tokens_def scenarios_ok_def split: prod.splits)
qed (use assms in \<open>simp add: make_tokens_def\<close>)

lemma one_turn_total:
  assumes "config_ok F" "requests_ok F" "hf_interval F \<noteq> Some 0"
    and "worker_ok F w" "pool_ok F w" "scenarios_ok F w" "length (wk_pending w) \<le> hf_max_pending F"
  shows "\<exists>w'. one_turn H F tn w = Some w' \<and> scenarios_ok F w'"
proof -
  obtain w1 where w1: "make_tokens H F (tn_token_now tn) w = Some w1" "scenarios_ok F w1"
    using make_tokens_total [OF assms(3,6)] by blast
  have "worker_ok F w1" "pool_ok F w1"
    using make_tokens_effect [OF w1(1) assms(1,4,5,7)] by simp_all
  from assign_tokens_total [OF assms(1,2) this w1(2), of H] obtain w2 where
    w2: "(if open_loop F then assign_tokens H F w1 else Some w1) = Some w2"
      "worker_ok F w2" "pool_ok F w2" "scenarios_ok F w2" by blast
  show ?thesis
  proof (cases "tn_events tn")
    case None
    then show ?thesis using w1 w2 by (simp add: one_turn_def)
  next
    case (Some es)
    obtain w3 where w3: "handle_events H F (tn_batch_now tn) es w2 = Some w3" "scenarios_ok F w3"
      using handle_events_total [OF assms(1,2) w2(2-4)] by blast
    have "worker_ok F w3" "pool_ok F w3" using handle_events_effect [OF w3(1) assms(1) w2(2,3)] by simp_all
    from assign_tokens_total [OF assms(1,2) this w3(2), of H] w1 w2 w3 Some show ?thesis
      by (auto simp: one_turn_def)
  qed
qed

lemma run_turns_total:
  assumes "config_ok F" "requests_ok F" "hf_interval F \<noteq> Some 0"
    and "worker_ok F w" "pool_ok F w" "scenarios_ok F w" "length (wk_pending w) \<le> hf_max_pending F"
  shows "\<exists>w'. run_turns H F tns w = Some w'"
  using assms(4-7)
proof (induction tns arbitrary: w)
  case (Cons tn tns)
  obtain w1 where w1: "one_turn H F tn w = Some w1" "scenarios_ok F w1"
    using one_turn_total [OF assms(1-3) Cons.prems] by blast
  from one_turn_effect [OF w1(1) assms(1) Cons.prems(1,2,4)] Cons.IH [of w1] w1 show ?case by auto
qed simp

lemma start_all_total:
  assumes "config_ok F" "requests_ok F" "worker_ok F w" "scenarios_ok F w"
    and "\<forall>i \<in> set is. i < length (wk_conns w)"
  shows "\<exists>w'. start_all F now is w = Some w' \<and> scenarios_ok F w'"
  using assms(3-5)
proof (induction "is" arbitrary: w)
  case (Cons i "is")
  obtain sid w1 where w1: "assign_scenario F i now w = Some (sid, w1)" "scenarios_ok F w1"
    using assign_scenario_total [OF assms(1,2) Cons.prems(1,2)] Cons.prems(3) by (metis list.set_intros(1))
  have "worker_ok F w1" "length (wk_conns w1) = length (wk_conns w)"
    using assign_scenario_effect [OF w1(1) assms(1) Cons.prems(1)] Cons.prems(3) by auto
  with Cons.IH [of w1] w1 Cons.prems(3) show ?case by auto
qed simp

lemma worker_start_total:
  assumes "world_ok W" "http_scenario_indices pl \<noteq> []" "list_all (has_request pl) (http_scenario_indices pl)"
  shows "\<exists>F w. worker_start H W parse pl t interval clock sh rng g live opens now = Some (F, w)
    \<and> requests_ok F \<and> scenarios_ok F w"
proof -
  let ?rec = "\<lparr>rc_task = Some (task_stats_new H (length (pl_scenarios pl))), rc_live = live\<rparr>"
  let ?http = "http_scenario_indices pl"
  have "?http ! 0 \<in> set ?http" using assms(2) by simp
  then obtain rp where rp: "first_request (sn_steps (pl_scenarios pl ! (?http ! 0))) = Some rp"
    using assms(3) by (auto simp: list_all_iff has_request_def)
  obtain sb ctx1 g1 where sb: "(if use_static pl ?http rp
      then (case build_raw_request W rp t KeepAlive [] (context_new (registry_len (pl_vars pl)) rng, g) of
              (b, ctx1, g1) \<Rightarrow> (Some b, ctx1, g1))
      else (None, context_new (registry_len (pl_vars pl)) rng, g)) = (sb, ctx1, g1)" by (metis prod_cases3)
  obtain cs rec1 where oc: "open_conns H (use_static pl ?http rp) now opens ?rec = (cs, rec1)" by fastforce
  define F0 where "F0 = \<lparr>hf_world = W, hf_parse = parse, hf_plan = pl, hf_target = t, hf_http = ?http,
                       hf_static = sb, hf_interval = interval, hf_max_pending = length opens * 2,
                       hf_clock = clock, hf_shard = sh\<rparr>"
  define w0 where "w0 = \<lparr>wk_conns = cs, wk_conn_scenario = replicate (length cs) 0,
                       wk_idle = (if interval \<noteq> None then rev [0..<length cs] else []),
                       wk_pending = [], wk_next_token = now, wk_ctx = ctx1, wk_proc = g1,
                       wk_rec = rec1, wk_ticks = 0\<rparr>"
  have st: "worker_start H W parse pl t interval clock sh rng g live opens now = (if interval \<noteq> None then Some (F0, w0)
      else map_option (\<lambda>w'. (F0, w')) (start_all F0 now [0..<length cs] w0))"
    unfolding worker_start_def Let_def F0_def w0_def
    by (simp only: rp sb oc option.case prod.case)
  have n: "0 < length (pl_scenarios pl)"
    using assms(2) by (auto simp: http_scenario_indices_def filter_empty_conv)
  have cfg: "config_ok F0" using assms(1,2)
    by (auto simp: config_ok_def F0_def http_scenario_indices_def)
  have req: "requests_ok F0" using assms(3) by (simp add: requests_ok_def F0_def)
  have "rec_ok (length (pl_scenarios pl)) ?rec" by (simp add: rec_ok_def rolled_up_new count_simps)
  from open_conns_effect [OF oc this n] have cs: "rec_ok (length (pl_scenarios pl)) rec1"
    "\<forall>c \<in> set cs. hc_state c = CsIdle \<and> hc_scenario_id c = 0 \<and> hc_sent c = []" by auto
  have w0: "worker_ok F0 w0" "scenarios_ok F0 w0" using cs n
    by (auto simp: worker_ok_def scenarios_ok_def F0_def w0_def)
  show ?thesis
  proof (cases "interval = None")
    case True
    have "\<forall>i \<in> set [0..<length cs]. i < length (wk_conns w0)" by (simp add: w0_def)
    from start_all_total [OF cfg req w0 this] st True req show ?thesis by auto
  next
    case False
    then show ?thesis using st w0(2) req by auto
  qed
qed

definition demo_plan :: "request_plan list \<Rightarrow> plan" where
  "demo_plan rs = \<lparr>pl_scenarios = map (\<lambda>r. scenario_new ''get'' [Request r]) rs, pl_vars = registry_new,
     pl_duration = 1000, pl_warmup = 0, pl_cooldown = 0, pl_runs = 1, pl_threads = 1,
     pl_mode = Measure, pl_name = ''demo''\<rparr>"

definition demo_worker :: "duration option \<Rightarrow> open_result list \<Rightarrow> (nat h1_config \<times> (nat, nat list) h1_worker) option" where
  "demo_worker interval opens =
     worker_start sample_hist demo_world (demo_parse [] []) (demo_plan [demo_request]) demo_target interval (\<lambda>n. n)
       0 0 demo_proc None opens 100"

lemma demo_plan_facts:
  "http_scenario_indices (demo_plan [demo_request]) = [0]" "world_ok demo_world" "has_request (demo_plan [demo_request]) 0"
  by (simp_all add: http_scenario_indices_def demo_plan_def scenario_new_def scenario_protocol_def world_ok_def
      demo_world_def has_request_def)

lemma demo_worker_total: "\<exists>F w. demo_worker interval opens = Some (F, w) \<and> requests_ok F \<and> scenarios_ok F w"
  unfolding demo_worker_def by (rule worker_start_total) (simp_all add: demo_plan_facts)

lemmas demo_start = worker_start_effect [where pl = "demo_plan [demo_request]" and W = demo_world and
    parse = "demo_parse [] []" and t = demo_target and clock = "\<lambda>n. n" and sh = 0 and rng = 0 and g = demo_proc and
    live = None and now = 100 and H = sample_hist, folded demo_worker_def, simplified demo_plan_facts, simplified]

section \<open>Properties\<close>

text \<open>
  Property C19. The open loop schedules without coordinated omission: one token falls due at every
  multiple of the interval that has passed, however late the loop gets to it, and carries that
  instant; if more than the allowed number wait, the oldest are dropped and each is counted once as
  a keep-up error; and the loop that generates them ends.
\<close>

theorem tokens_due:
  assumes "hf_interval F = Some interval" "0 < interval"
    and "n = (if now < wk_next_token w then 0 else (now - wk_next_token w) div interval + 1)"
    and "due = wk_pending w @ map (\<lambda>k. wk_next_token w + k * interval) [0..<n]"
  shows "\<exists>w'. make_tokens H F now w = Some w' \<and> now < wk_next_token w'
    \<and> wk_next_token w' = wk_next_token w + n * interval
    \<and> wk_pending w' = drop (length due - hf_max_pending F) due
    \<and> wk_rec w' = (rec_record_error H 0 EkKeepup ^^ (length due - hf_max_pending F)) (wk_rec w)"
proof -
  have "now < wk_next_token w + n * interval"
  proof (cases "now < wk_next_token w")
    case False
    have "(now - wk_next_token w) < ((now - wk_next_token w) div interval + 1) * interval"
      using assms(2) by (simp add: dividend_less_div_times)
    then show ?thesis using False assms(3) by simp
  qed simp
  then show ?thesis using gen_tokens_map [OF assms(2,3), of "wk_pending w"] assms(1,4)
    by (simp add: make_tokens_def cap_pending_drop)
qed


lemma tokens_due_witness:
  "\<exists>F w w'. demo_worker (Some 10) [Opened [] []] = Some (F, w) \<and> make_tokens sample_hist F 125 w = Some w'
    \<and> wk_pending w' = [110, 120] \<and> wk_next_token w' = 130"
proof -
  obtain F w where w: "demo_worker (Some 10) [Opened [] []] = Some (F, w)" using demo_worker_total by blast
  have "hf_interval F = Some 10" "wk_pending w = []" using demo_start [OF w] by simp_all
  moreover have "wk_next_token w = 100" "hf_max_pending F = 2"
    using w by (auto simp: demo_worker_def worker_start_def Let_def split: option.splits prod.splits)
  ultimately show ?thesis using w tokens_due [of F 10 3 125 w _ sample_hist] by (auto simp: upt_rec)
qed

text \<open>
  Tokens are served first come first served: the oldest waiting tokens go, in order, to
  the idle connections, whose requests then start at their tokens' instants, until tokens or idle
  connections run out; no other connection is touched.
\<close>

lemma tokens_in_order:
  assumes "assign_tokens H F w = Some w'" "config_ok F" "worker_ok F w" "pool_ok F w" "open_loop F"
  shows "wk_pending w' = drop (length (wk_idle w)) (wk_pending w)
    \<and> wk_idle w' = drop (length (wk_pending w)) (wk_idle w)
    \<and> (\<forall>k < min (length (wk_pending w)) (length (wk_idle w)).
          hc_intended_start (wk_conns w' ! (wk_idle w ! k)) = wk_pending w ! k)
    \<and> (\<forall>i. i \<notin> set (take (length (wk_pending w)) (wk_idle w)) \<longrightarrow> wk_conns w' ! i = wk_conns w ! i)"
  using assign_in_order [OF assms(1) [unfolded assign_tokens_def] assms(2,3)] assms(4,5)
  by (auto simp: pool_ok_def)

text \<open>
  Property C20. Connections and tokens are never stranded: in every turn of an open-loop run the idle
  pool lists exactly the idle connections, each once, at most twice as many tokens wait as
  connections were asked for, and after a turn with a poll no token waits while a connection is idle.
\<close>

theorem open_loop_pool:
  assumes "worker_start H W parse pl t (Some interval) clock sh rng g live opens now = Some (F, w)"
    and "world_ok W" "http_scenario_indices pl \<noteq> []"
    and "run_turns H F tns w = Some w1" "one_turn H F tn w1 = Some w2"
  shows "distinct (wk_idle w2)
    \<and> set (wk_idle w2) = {i. i < length (wk_conns w2) \<and> hc_state (wk_conns w2 ! i) = CsIdle}
    \<and> length (wk_pending w2) \<le> 2 * length opens
    \<and> (tn_events tn \<noteq> None \<longrightarrow> wk_pending w2 = [] \<or> wk_idle w2 = [])"
proof -
  have s: "config_ok F" "worker_ok F w" "pool_ok F w" "wk_pending w = []" "hf_interval F = Some interval"
    using worker_start_effect [OF assms(1-3)] by simp_all
  have m: "hf_max_pending F = 2 * length opens"
    using assms(1) by (auto simp: worker_start_def Let_def split: option.splits prod.splits if_splits)
  have r: "worker_ok F w1" "pool_ok F w1" "length (wk_pending w1) \<le> hf_max_pending F"
    using run_turns_effect [OF assms(4) s(1-3)] s(4) by simp_all
  show ?thesis using one_turn_effect [OF assms(5) s(1) r] s(5) m by (auto simp: pool_ok_def open_loop_def)
qed

lemma open_loop_pool_witness:
  "\<exists>F w w2. demo_worker (Some 10) [Opened [] [], ConnectFails] = Some (F, w)
    \<and> one_turn sample_hist F \<lparr>tn_token_now = 150, tn_events = Some [], tn_batch_now = 160\<rparr> w = Some w2
    \<and> distinct (wk_idle w2) \<and> length (wk_pending w2) \<le> 4"
proof -
  let ?tn = "\<lparr>tn_token_now = 150, tn_events = Some [], tn_batch_now = 160\<rparr>"
  obtain F w where w: "demo_worker (Some 10) [Opened [] [], ConnectFails] = Some (F, w)" "requests_ok F" "scenarios_ok F w"
    using demo_worker_total by blast
  have s: "config_ok F" "worker_ok F w" "pool_ok F w" "length (wk_pending w) \<le> hf_max_pending F" "hf_interval F \<noteq> Some 0"
    using demo_start [OF w(1)] by simp_all
  obtain w2 where w2: "one_turn sample_hist F ?tn w = Some w2" using one_turn_total [OF s(1) w(2) s(5,2,3) w(3) s(4)] by blast
  from open_loop_pool [OF w(1) [unfolded demo_worker_def] _ _ _ w2, of "[]"] w(1) w2 demo_plan_facts
  show ?thesis by auto
qed

text \<open>
  A worker always returns statistics, and they roll up: if every HTTP scenario of the plan
  has a request and the token interval is not zero, then whatever the servers answer, however the
  connects end and whatever the poll reports, the worker does not panic, its loops end, and the
  request and error totals it returns are the sums over its rows, one per scenario of the plan.
\<close>

lemma worker_returns_totals:
  assumes "world_ok W" "interval \<noteq> Some 0" "list_all (has_request pl) (http_scenario_indices pl)"
  shows "\<exists>r ts. run_mio_worker H W parse pl t interval clock sh rng g live opens now turns = Some r
    \<and> rc_task r = Some ts \<and> rolled_up ts \<and> length (ts_per_scenario ts) = length (pl_scenarios pl)"
proof (cases "http_scenario_indices pl = []")
  case True
  then show ?thesis by (simp add: run_mio_worker_def rolled_up_new count_simps)
next
  case False
  obtain F w where w: "worker_start H W parse pl t interval clock sh rng g live opens now = Some (F, w)"
    "requests_ok F" "scenarios_ok F w" using worker_start_total [OF assms(1) False assms(3)] by metis
  have s: "config_ok F" "worker_ok F w" "pool_ok F w" "wk_pending w = []" "hf_plan F = pl" "hf_interval F = interval"
    using worker_start_effect [OF w(1) assms(1) False] by simp_all
  then obtain w' where w': "run_turns H F turns w = Some w'"
    using run_turns_total [OF s(1) w(2) _ s(2,3) w(3)] assms(2) by auto
  have "worker_ok F w'" using run_turns_effect [OF w' s(1-3)] s(4) by simp
  then obtain ts where "rc_task (wk_rec w') = Some ts" "rolled_up ts" "length (ts_per_scenario ts) = length (pl_scenarios pl)"
    using s(5) by (auto simp: worker_ok_def rec_ok_def)
  then show ?thesis using False w(1) w' by (simp add: run_mio_worker_def)
qed

text \<open>
  After a failed connect a connection starves: tokens are handed out by attempt, but
  connections are looked up by their place among the successes. If the first attempt of a closed-loop
  worker fails, no event carries its token, and since the first connection opened afterwards is kept
  at that place, it never sends a byte of its request, however long the run.
\<close>

lemma failed_connect_starves:
  assumes "worker_start H W parse pl t None clock sh rng g live (ConnectFails # opens) now = Some (F, w)"
    and "world_ok W" "http_scenario_indices pl \<noteq> []" "Opened rs ws \<in> set opens"
    and "\<forall>tn \<in> set turns. \<forall>es. tn_events tn = Some es \<longrightarrow>
           (\<forall>e \<in> set es. \<exists>rs' ws'. ev_token e < length (ConnectFails # opens)
              \<and> (ConnectFails # opens) ! ev_token e = Opened rs' ws')"
    and "run_turns H F turns w = Some w'"
  shows "hc_sent (wk_conns w' ! 0) = [] \<and> hc_state (wk_conns w' ! 0) = CsWriting \<and> 0 < length (wk_conns w)"
proof -
  have s: "config_ok F" "worker_ok F w" "hf_interval F = None"
    "length (wk_conns w) = length (filter (\<lambda>x. case x of Opened rs ws \<Rightarrow> True | _ \<Rightarrow> False) opens)"
    "\<forall>i < length (wk_conns w). hc_sent (wk_conns w ! i) = [] \<and> hc_state (wk_conns w ! i) = CsWriting"
    using worker_start_effect [OF assms(1-3)] by simp_all
  have pos: "0 < length (wk_conns w)" unfolding s(4) length_greater_0_conv filter_empty_conv
    using assms(4) by (auto intro!: bexI [of _ "Opened rs ws"])
  have "\<forall>tn \<in> set turns. \<forall>es. tn_events tn = Some es \<longrightarrow> 0 \<notin> ev_token ` set es"
    using assms(5) by force
  from closed_turns [OF assms(6) s(1-3) this] s(5) pos show ?thesis by simp
qed

text \<open>
  The requested number of connections is opened, no more and no less: whatever the number of
  threads, the shares add up to the total, no thread is left without a connection, no share exceeds
  another by more than one, and there are as many threads as asked for, up to the number of
  connections.
\<close>

lemma distribute_exact:
  "sum_list (distribute_conns n t) = n \<and> length (distribute_conns n t) = min (max t 1) n
   \<and> (\<exists>q. 0 < q \<and> set (distribute_conns n t) \<subseteq> {q, q + 1})"
proof (cases "n = 0")
  case False
  define k where "k = min (max t 1) n"
  have k: "0 < k" "k \<le> n" using False by (auto simp: k_def)
  have d: "distribute_conns n t = map (\<lambda>i. if i < n mod k then n div k + 1 else n div k) [0..<k]"
    unfolding distribute_conns_def Let_def k_def [symmetric] using False by (simp only: if_False)
  have "sum_list (distribute_conns n t) = k * (n div k) + min k (n mod k)"
    using sum_distribute [of "n mod k" "n div k" k] by (simp only: d)
  also have "\<dots> = n" using mod_less_divisor [OF k(1), of n] by (simp add: min_def)
  finally have "sum_list (distribute_conns n t) = n" .
  moreover have "0 < n div k" using k by (simp add: div_greater_zero_iff)
  moreover have "length (distribute_conns n t) = min (max t 1) n" by (simp only: d length_map length_upt k_def diff_zero)
  moreover have "set (distribute_conns n t) \<subseteq> {n div k, n div k + 1}" by (auto simp: d)
  ultimately show ?thesis by blast
qed (auto simp: distribute_conns_def intro: exI [of _ 1])

end
