(* ===== verification/SseParser.thy ===== *)
theory SseParser
  imports Decoder
begin

text \<open>
  The SSE line framer of \<open>zerobench-backends/src/sse/line_parser.rs\<close>: its five pieces of state,
  the byte loop of \<open>feed\<close>, the line interpreter, the event dispatch and the end-of-stream
  \<open>flush\<close>. The framer is shown to be an incremental decoder, its state invariant is given, and the
  events of a rendered stream are computed.
\<close>

datatype sse_event = SseData bytes | SseDone | SseId bytes | SseIgnored

record sse_parser =
  line_buf :: bytes
  data_buf :: bytes
  have_data :: bool
  ignored_pending :: bool
  done_seen :: bool

definition sse_new :: sse_parser where
  "sse_new = \<lparr>line_buf = [], data_buf = [], have_data = False, ignored_pending = False, done_seen = False\<rparr>"

definition trim_leading_space :: "bytes \<Rightarrow> bytes" where
  "trim_leading_space s = (case s of c # r \<Rightarrow> if c = CHR '' '' then r else s | [] \<Rightarrow> s)"

definition finalise_event :: "sse_parser \<Rightarrow> sse_parser \<times> sse_event list" where
  "finalise_event p =
     (p\<lparr>data_buf := [], have_data := False, ignored_pending := False, done_seen := False\<rparr>,
      if done_seen p then [SseDone] else if have_data p then [SseData (data_buf p)] else [])"

definition process_line_and_emit :: "bytes \<Rightarrow> sse_parser \<Rightarrow> sse_parser \<times> sse_event list" where
  "process_line_and_emit line p =
     (if line = [] then
        (if have_data p \<or> done_seen p then finalise_event p
         else if ignored_pending p then (p\<lparr>ignored_pending := False\<rparr>, [SseIgnored])
         else (p, []))
      else if hd line = CHR '':'' then (p\<lparr>ignored_pending := True\<rparr>, [])
      else
        let (field, value) = (case find_pos (\<lambda>b. b = CHR '':'') line of
              Some i \<Rightarrow> (take i line, drop (i + 1) line)
            | None \<Rightarrow> (line, []));
            value = trim_leading_space value
        in if field = ''data'' then
             (if value = ''[DONE]'' then (p\<lparr>done_seen := True\<rparr>, [])
              else (p\<lparr>data_buf := (if data_buf p \<noteq> [] then data_buf p @ [LF] else data_buf p) @ value,
                      have_data := True\<rparr>, []))
           else if field = ''id'' then (p, [SseId value])
           else (p\<lparr>ignored_pending := True\<rparr>, []))"

definition strip_cr :: "bytes \<Rightarrow> bytes" where
  "strip_cr l = (if last_is CR l then butlast l else l)"

definition sse_byte :: "sse_parser \<Rightarrow> char \<Rightarrow> sse_parser \<times> sse_event list" where
  "sse_byte p b =
     (if b = LF then
        (case process_line_and_emit (strip_cr (line_buf p)) p of
           (p', evs) \<Rightarrow> (p'\<lparr>line_buf := []\<rparr>, evs))
      else (p\<lparr>line_buf := line_buf p @ [b]\<rparr>, []))"

definition sse_feed :: "sse_parser \<Rightarrow> bytes \<Rightarrow> sse_parser \<times> sse_event list" where
  "sse_feed p bs = fold_bytes sse_byte p bs"

definition sse_flush :: "sse_parser \<Rightarrow> sse_parser \<times> sse_event list" where
  "sse_flush p =
     (let (p1, e1) = (if line_buf p \<noteq> [] then
            (case process_line_and_emit (strip_cr (line_buf p)) p of
               (p', evs) \<Rightarrow> (p'\<lparr>line_buf := []\<rparr>, evs))
          else (p, []));
          (p2, e2) = (if have_data p1 \<or> done_seen p1 then finalise_event p1
            else if ignored_pending p1 then (p1\<lparr>ignored_pending := False\<rparr>, [SseIgnored])
            else (p1, []))
      in (p2, e1 @ e2))"

section \<open>The framer as an incremental decoder\<close>

interpretation sse: byte_machine sse_feed
  using byte_machine_fold [of sse_byte] by (simp add: byte_machine_def sse_feed_def [abs_def])

lemma sse_feed_Nil [stream_simps]: "sse_feed p [] = (p, [])"
  by (rule sse.feed_nil)

lemma sse_feed_line:
  "LF \<notin> set l \<Longrightarrow> sse_feed p (l @ [LF]) =
     (case process_line_and_emit (strip_cr (line_buf p @ l)) (p\<lparr>line_buf := line_buf p @ l\<rparr>) of
        (p', evs) \<Rightarrow> (p'\<lparr>line_buf := []\<rparr>, evs))"
proof (induction l arbitrary: p)
  case Nil
  then show ?case by (simp add: sse_feed_def sse_byte_def split: prod.splits)
next
  case (Cons c l)
  then have "c \<noteq> LF" by auto
  then have "sse_feed p ((c # l) @ [LF]) = sse_feed (p\<lparr>line_buf := line_buf p @ [c]\<rparr>) (l @ [LF])"
    by (simp add: sse_feed_def sse_byte_def)
  with Cons show ?case by simp
qed

text \<open>Lines, whatever their terminator: a line may not end in a carriage return of its own.\<close>

definition eol :: "bytes \<Rightarrow> bool" where "eol e = (e = [LF] \<or> e = CRLF)"

definition line_ok :: "bytes \<Rightarrow> bool" where
  "line_ok l = (LF \<notin> set l \<and> \<not> last_is CR l)"

lemma process_line_buf:
  "process_line_and_emit l (p\<lparr>line_buf := b\<rparr>) =
     (case process_line_and_emit l p of (p', evs) \<Rightarrow> (p'\<lparr>line_buf := b\<rparr>, evs))"
  by (simp add: process_line_and_emit_def finalise_event_def Let_def split: option.splits)

lemma sse_feed_ok_line:
  assumes "line_ok l" "eol e" "line_buf p = []"
  shows "sse_feed p (l @ e) =
     (case process_line_and_emit l p of (p', evs) \<Rightarrow> (p'\<lparr>line_buf := []\<rparr>, evs))"
proof -
  define t where "t = butlast e"
  have t: "l @ e = (l @ t) @ [LF]" "LF \<notin> set (l @ t)" "strip_cr (l @ t) = l"
    using assms by (auto simp: t_def eol_def line_ok_def CRLF_def strip_cr_def last_is_def)
  show ?thesis unfolding t(1) using sse_feed_line [OF t(2), of p] assms(3) t(3)
    by (simp add: process_line_buf split: prod.splits)
qed

section \<open>Rendered events\<close>

text \<open>An event as a server writes it: a \<open>data:\<close> line for each line of the payload, a blank line.\<close>

definition data_lines :: "bytes \<Rightarrow> bytes list \<Rightarrow> bytes" where
  "data_lines e ls = concat (map (\<lambda>l. ''data: '' @ l @ e) ls)"

definition render_event :: "bytes \<Rightarrow> bytes list \<Rightarrow> bytes" where
  "render_event e ls = data_lines e ls @ e"

text \<open>The specification's payload: the lines joined by line feeds.\<close>

fun join_lf :: "bytes list \<Rightarrow> bytes" where
  "join_lf [] = []"
| "join_lf [l] = l"
| "join_lf (l # ls) = l @ LF # join_lf ls"

definition payload_ok :: "bytes \<Rightarrow> bool" where
  "payload_ok l = (line_ok l \<and> l \<noteq> ''[DONE]'')"

text \<open>What the framer accumulates: as specified, but for empty lines at the start.\<close>

definition acc_line :: "bytes \<Rightarrow> bytes \<Rightarrow> bytes" where
  "acc_line d l = (if d \<noteq> [] then d @ [LF] else d) @ l"

lemma process_data_line:
  assumes "l \<noteq> ''[DONE]''"
  shows "process_line_and_emit (''data: '' @ l) p =
     (p\<lparr>data_buf := acc_line (data_buf p) l, have_data := True\<rparr>, [])"
  using assms
  by (simp add: process_line_and_emit_def trim_leading_space_def acc_line_def)

lemma data_line_ok: "line_ok l \<Longrightarrow> line_ok (''data: '' @ l)"
  by (auto simp: line_ok_def last_is_def)

lemma sse_feed_data_lines:
  assumes "\<forall>l \<in> set ls. payload_ok l" "eol e" "line_buf p = []" "ls \<noteq> [] \<or> have_data p"
  shows "sse_feed p (data_lines e ls) =
     (p\<lparr>data_buf := foldl acc_line (data_buf p) ls, have_data := True\<rparr>, [])"
  using assms
proof (induction ls arbitrary: p)
  case Nil
  then show ?case by (cases p) (simp add: data_lines_def stream_simps)
next
  case (Cons l ls)
  have l: "payload_ok l" using Cons.prems(1) by simp
  let ?p1 = "p\<lparr>data_buf := acc_line (data_buf p) l, have_data := True\<rparr>"
  have "?p1\<lparr>line_buf := []\<rparr> = ?p1" using Cons.prems(3) by (cases p) simp
  then have "sse_feed p (''data: '' @ l @ e) = (?p1, [])"
    using sse_feed_ok_line [OF data_line_ok Cons.prems(2,3), of l] process_data_line [of l p] l
    by (simp add: payload_ok_def)
  moreover have "sse_feed ?p1 (data_lines e ls) =
     (?p1\<lparr>data_buf := foldl acc_line (data_buf ?p1) ls, have_data := True\<rparr>, [])"
    using Cons.prems by (intro Cons.IH) auto
  moreover have "data_lines e (l # ls) = (''data: '' @ l @ e) @ data_lines e ls"
    by (simp add: data_lines_def)
  ultimately show ?case by (simp only: sse.feed_append) simp
qed

lemma join_lf_glue: "join_lf ((d @ LF # l) # ls) = d @ LF # join_lf (l # ls)"
  by (cases ls) simp_all

lemma foldl_acc_line:
  "d \<noteq> [] \<Longrightarrow> foldl acc_line d ls = join_lf (d # ls)"
proof (induction ls arbitrary: d)
  case (Cons l ls)
  have "foldl acc_line d (l # ls) = foldl acc_line (d @ LF # l) ls"
    using Cons.prems by (simp add: acc_line_def)
  also have "\<dots> = join_lf ((d @ LF # l) # ls)" by (rule Cons.IH) simp
  finally show ?case by (simp add: join_lf_glue)
qed simp

lemma foldl_acc_line_Nil:
  "foldl acc_line [] ls = join_lf (dropWhile (\<lambda>l. l = []) ls)"
proof (induction ls)
  case (Cons l ls)
  have "foldl acc_line [] (l # ls) = foldl acc_line l ls" by (simp add: acc_line_def)
  then show ?case using Cons foldl_acc_line [of l ls] by (cases "l = []") simp_all
qed simp

lemma join_lf_dropWhile:
  "ls \<noteq> [] \<Longrightarrow> hd ls \<noteq> [] \<or> ls = [[]] \<Longrightarrow> join_lf (dropWhile (\<lambda>l. l = []) ls) = join_lf ls"
  by (cases ls) auto

lemma sse_feed_event:
  assumes "ls \<noteq> []" "\<forall>l \<in> set ls. payload_ok l" "eol e" "p = sse_new"
  shows "sse_feed p (render_event e ls) = (sse_new, [SseData (join_lf (dropWhile (\<lambda>l. l = []) ls))])"
proof -
  have "line_buf p = []" "data_buf p = []" using assms(4) by (simp_all add: sse_new_def)
  then have "sse_feed p (data_lines e ls) =
     (p\<lparr>data_buf := join_lf (dropWhile (\<lambda>l. l = []) ls), have_data := True\<rparr>, [])"
    using sse_feed_data_lines [OF assms(2,3)] assms(1) by (simp add: foldl_acc_line_Nil)
  moreover have "line_ok []" by (simp add: line_ok_def last_is_def)
  ultimately show ?thesis
    using sse_feed_ok_line [OF _ assms(3), of "[]"] assms(4)
    by (simp add: render_event_def sse.feed_append process_line_and_emit_def finalise_event_def sse_new_def)
qed

lemma sse_feed_events:
  assumes "\<forall>ls \<in> set evs. ls \<noteq> [] \<and> (\<forall>l \<in> set ls. payload_ok l)" "eol e"
  shows "sse_feed sse_new (concat (map (render_event e) evs)) =
     (sse_new, map (\<lambda>ls. SseData (join_lf (dropWhile (\<lambda>l. l = []) ls))) evs)"
  using assms
  by (induction evs) (simp_all add: stream_simps sse.feed_append sse_feed_event)

lemma sse_feed_partial:
  "LF \<notin> set l \<Longrightarrow> sse_feed p l = (p\<lparr>line_buf := line_buf p @ l\<rparr>, [])"
proof (induction l arbitrary: p)
  case (Cons c l)
  then have "c \<noteq> LF" by auto
  then have "sse_feed p (c # l) = sse_feed (p\<lparr>line_buf := line_buf p @ [c]\<rparr>) l"
    by (simp add: sse_feed_def sse_byte_def)
  with Cons show ?case by simp
qed (simp add: stream_simps)

section \<open>The state invariant\<close>

definition sse_inv :: "sse_parser \<Rightarrow> bool" where
  "sse_inv p = (LF \<notin> set (line_buf p) \<and> (have_data p \<or> data_buf p = []))"

lemma process_line_inv:
  assumes "process_line_and_emit l p = (p', evs)" "have_data p \<or> data_buf p = []"
  shows "(have_data p' \<or> data_buf p' = []) \<and> line_buf p' = line_buf p \<and> length evs \<le> 1"
  using assms
  by (auto simp: process_line_and_emit_def finalise_event_def Let_def split: if_splits option.splits)

lemma sse_byte_inv:
  "sse_byte p b = (p', evs) \<Longrightarrow> sse_inv p \<Longrightarrow> sse_inv p' \<and> length evs \<le> (if b = LF then 1 else 0)"
  by (auto simp: sse_byte_def sse_inv_def dest: process_line_inv split: if_splits prod.splits)

lemma sse_feed_inv:
  "sse_inv p \<Longrightarrow> sse_inv (fst (sse_feed p bs)) \<and> length (snd (sse_feed p bs)) \<le> count_list bs LF"
proof (induction bs arbitrary: p)
  case (Cons b bs)
  obtain p1 e1 where s: "sse_byte p b = (p1, e1)" by fastforce
  have "sse_feed p (b # bs) = (fst (sse_feed p1 bs), e1 @ snd (sse_feed p1 bs))"
    by (simp add: sse_feed_def s split: prod.splits)
  moreover have "sse_inv p1 \<and> length e1 \<le> (if b = LF then 1 else 0)"
    using sse_byte_inv [OF s Cons.prems] .
  ultimately show ?case using Cons.IH [of p1] by (auto split: if_splits)
qed (simp add: stream_simps)

section \<open>Properties\<close>

text \<open>
  The network's cuts do not matter to the framer: feeding the chunks of a stream one
  by one, from any state, ends in the same state and emits the same events in the same order as
  feeding their concatenation at once.
\<close>

lemma sse_feed_chunks: "sse.feeds p chunks = sse_feed p (concat chunks)"
  by (rule sse.feeds_concat)



text \<open>
  Empty payload lines at the start of an event are lost: the framer tests the
  accumulated bytes, not whether a line was seen, before it adds the separator, so an event whose
  first line is empty is emitted without the leading line feeds its specification has.
\<close>

lemma sse_leading_empty_lines:
  assumes "eol e" "payload_ok l" "l \<noteq> []"
  shows "snd (sse_feed sse_new (render_event e (replicate n [] @ [l]))) = [SseData l]
    \<and> join_lf (replicate n [] @ [l]) = replicate n LF @ l"
proof -
  have p: "payload_ok []" by (simp add: payload_ok_def line_ok_def last_is_def)
  have "dropWhile (\<lambda>l. l = []) (replicate n [] @ [l]) = [l]"
    using assms(3) by (induction n) simp_all
  moreover have "join_lf (replicate n [] @ [l]) = replicate n LF @ l"
  proof (induction n)
    case (Suc n)
    then show ?case by (cases "replicate n ([] :: bytes) @ [l]") simp_all
  qed simp
  moreover have "\<forall>k \<in> set (replicate n [] @ [l]). payload_ok k" using p assms(2) by auto
  ultimately show ?thesis
    using sse_feed_event [of "replicate n [] @ [l]" e sse_new] assms(1) by simp
qed

text \<open>
  The last event survives a connection that ends without the blank line, even in the
  middle of its last line end: \<open>flush\<close> then emits its payload and leaves the framer idle, and
  nothing of it was emitted before.
\<close>

lemma sse_flush_recovers:
  assumes "eol e" "\<forall>ls \<in> set evs. ls \<noteq> [] \<and> (\<forall>l \<in> set ls. payload_ok l)"
    and "\<forall>k \<in> set (ls @ [l]). payload_ok k"
  shows "case sse_feed sse_new (concat (map (render_event e) evs) @ data_lines e ls @ ''data: '' @ l) of
    (p, es) \<Rightarrow> length es = length evs
      \<and> sse_flush p = (sse_new, [SseData (join_lf (dropWhile (\<lambda>l. l = []) (ls @ [l])))])"
proof -
  define d where "d = foldl acc_line [] ls"
  define p where "p = sse_new\<lparr>data_buf := d, have_data := (ls \<noteq> [])\<rparr>"
  have "sse_feed sse_new (data_lines e ls) = (p, [])"
  proof (cases "ls = []")
    case True
    then show ?thesis by (simp add: p_def d_def data_lines_def stream_simps sse_new_def)
  next
    case False
    then show ?thesis using sse_feed_data_lines [of ls e sse_new] assms(1,3)
      by (simp add: p_def d_def sse_new_def)
  qed
  moreover have l: "payload_ok l" using assms(3) by simp
  then have "LF \<notin> set (''data: '' @ l)" by (simp add: payload_ok_def line_ok_def)
  then have "sse_feed p (''data: '' @ l) = (p\<lparr>line_buf := ''data: '' @ l\<rparr>, [])"
    using sse_feed_partial [of "''data: '' @ l" p] by (simp add: p_def sse_new_def)
  ultimately have "sse_feed sse_new (concat (map (render_event e) evs) @ data_lines e ls @ ''data: '' @ l)
      = (p\<lparr>line_buf := ''data: '' @ l\<rparr>, map (\<lambda>ls. SseData (join_lf (dropWhile (\<lambda>l. l = []) ls))) evs)"
    using sse_feed_events [OF assms(2,1)] by (simp add: sse.feed_append)
  moreover have "strip_cr (''data: '' @ l) = ''data: '' @ l"
    using data_line_ok [of l] l by (simp add: strip_cr_def line_ok_def payload_ok_def)
  then have "sse_flush (p\<lparr>line_buf := ''data: '' @ l\<rparr>) = (sse_new, [SseData (acc_line d l)])"
    using process_data_line [of l "p\<lparr>line_buf := ''data: '' @ l\<rparr>"] l
    by (simp add: sse_flush_def finalise_event_def payload_ok_def p_def sse_new_def)
  moreover have "acc_line d l = join_lf (dropWhile (\<lambda>l. l = []) (ls @ [l]))"
    using foldl_acc_line_Nil [of "ls @ [l]"] by (simp add: d_def)
  ultimately show ?thesis by simp
qed

text \<open>
  The framer's state is bounded by what it was fed: the line buffer holds no line
  end, payload bytes are only held for an event in progress, and at most one event is emitted per
  line feed.
\<close>

lemma sse_feed_bounds:
  "LF \<notin> set (line_buf (fst (sse_feed sse_new bs)))
   \<and> (have_data (fst (sse_feed sse_new bs)) \<or> data_buf (fst (sse_feed sse_new bs)) = [])
   \<and> length (snd (sse_feed sse_new bs)) \<le> count_list bs LF"
  using sse_feed_inv [of sse_new bs] by (simp add: sse_inv_def sse_new_def)

end
