(* ===== verification/SseHold.thy ===== *)
theory SseHold
  imports SseParser Stats Transport
begin

text \<open>
  The SSE hold backend, \<open>zerobench-backends/src/sse/hold.rs\<close>: the chunked-body decoder of the SSE
  readers, the subscriber's state machine driven by socket readiness, the body feeder that joins
  decoder, line framer and statistics, the event loop over all subscribers with reconnects, and
  the roll-up. The socket is the script of the answers it gives (an exhausted script answers
  \<open>WouldBlock\<close>, a not yet connected socket \<open>NotConnected\<close>); the clock is a sequence of readings.
\<close>

section \<open>The chunk decoder\<close>

text \<open>\<open>parse_hex\<close> stops at the first other byte; the accumulator wraps as \<open>usize\<close> does.\<close>

fun parse_hex_from :: "nat \<Rightarrow> bytes \<Rightarrow> nat" where
  "parse_hex_from out [] = out"
| "parse_hex_from out (b # s) =
     (case digit_val 16 b of
        None \<Rightarrow> out
      | Some d \<Rightarrow> parse_hex_from ((out * 16 + d) mod 2 ^ 64) s)"

definition parse_hex :: "bytes \<Rightarrow> nat" where "parse_hex s = parse_hex_from 0 s"

datatype chunk_state = CsSize | CsData nat | CsTrailerCr | CsTrailerLf | CsDone

record chunk_decoder =
  cd_state :: chunk_state
  cd_size_buf :: bytes

definition chunk_new :: chunk_decoder where
  "chunk_new = \<lparr>cd_state = CsSize, cd_size_buf = []\<rparr>"

text \<open>\<open>decode\<close>: the decoder after the input, the bytes appended to \<open>out\<close>, the verdict.\<close>

fun data_rank :: "chunk_state \<Rightarrow> nat" where
  "data_rank (CsData n) = 1"
| "data_rank _ = 0"

function chunk_decode :: "chunk_decoder \<Rightarrow> bytes \<Rightarrow> chunk_decoder \<times> bytes \<times> bool" where
  "chunk_decode d input =
     (case input of
        [] \<Rightarrow> (d, [], False)
      | b # rest \<Rightarrow>
          (case cd_state d of
             CsSize \<Rightarrow>
               (if b = LF then
                  (let size = parse_hex (strip_cr (cd_size_buf d)) in
                   if size = 0 then (d\<lparr>cd_size_buf := [], cd_state := CsDone\<rparr>, [], True)
                   else chunk_decode (d\<lparr>cd_size_buf := [], cd_state := CsData size\<rparr>) rest)
                else chunk_decode (d\<lparr>cd_size_buf := cd_size_buf d @ [b]\<rparr>) rest)
           | CsData remaining \<Rightarrow>
               (let taken = min (length input) remaining; left = remaining - taken in
                case chunk_decode (d\<lparr>cd_state := (if left = 0 then CsTrailerCr else CsData left)\<rparr>)
                       (drop taken input) of
                  (d', out, ended) \<Rightarrow> (d', take taken input @ out, ended))
           | CsTrailerCr \<Rightarrow> chunk_decode (d\<lparr>cd_state := CsTrailerLf\<rparr>) rest
           | CsTrailerLf \<Rightarrow> chunk_decode (d\<lparr>cd_state := CsSize\<rparr>) rest
           | CsDone \<Rightarrow> (d, [], True)))"
  by pat_completeness auto
termination
  by (relation "measure (\<lambda>(d, input). 2 * length input + data_rank (cd_state d))") (auto simp: min_def)

declare chunk_decode.simps [simp del]

text \<open>The verdict is not used (\<open>let _ended\<close>): the decoder as a machine from bytes to bytes.\<close>

definition chunk_feed :: "chunk_decoder \<Rightarrow> bytes \<Rightarrow> chunk_decoder \<times> char list" where
  "chunk_feed d input = (case chunk_decode d input of (d', out, _) \<Rightarrow> (d', out))"

lemma chunk_feed_Nil: "chunk_feed d [] = (d, [])"
  by (simp add: chunk_feed_def chunk_decode.simps)

text \<open>One byte at a time: the equations of the machine.\<close>

fun chunk_byte :: "chunk_decoder \<Rightarrow> char \<Rightarrow> chunk_decoder \<times> char list" where
  "chunk_byte d b =
     (case cd_state d of
        CsSize \<Rightarrow>
          (if b = LF then
             (let size = parse_hex (strip_cr (cd_size_buf d)) in
              (d\<lparr>cd_size_buf := [], cd_state := (if size = 0 then CsDone else CsData size)\<rparr>, []))
           else (d\<lparr>cd_size_buf := cd_size_buf d @ [b]\<rparr>, []))
      | CsData remaining \<Rightarrow>
          (if remaining = 0 then (d\<lparr>cd_state := CsTrailerLf\<rparr>, [])
           else (d\<lparr>cd_state := (if remaining = 1 then CsTrailerCr else CsData (remaining - 1))\<rparr>, [b]))
      | CsTrailerCr \<Rightarrow> (d\<lparr>cd_state := CsTrailerLf\<rparr>, [])
      | CsTrailerLf \<Rightarrow> (d\<lparr>cd_state := CsSize\<rparr>, [])
      | CsDone \<Rightarrow> (d, []))"

declare chunk_byte.simps [simp del]

lemma fold_chunk_data:
  "length xs < n \<Longrightarrow> cd_state d = CsData n \<Longrightarrow>
     fold_bytes chunk_byte d xs = (d\<lparr>cd_state := CsData (n - length xs)\<rparr>, xs)"
proof (induction xs arbitrary: d n)
  case Nil
  then show ?case by (cases d) simp
next
  case (Cons x xs)
  have "chunk_byte d x = (d\<lparr>cd_state := CsData (n - 1)\<rparr>, [x])"
    using Cons.prems by (auto simp: chunk_byte.simps)
  then show ?case using Cons.IH [of "n - 1" "d\<lparr>cd_state := CsData (n - 1)\<rparr>"] Cons.prems by simp
qed

lemma fold_chunk_data_all:
  assumes "xs \<noteq> []" "cd_state d = CsData (length xs)"
  shows "fold_bytes chunk_byte d xs = (d\<lparr>cd_state := CsTrailerCr\<rparr>, xs)"
proof -
  obtain ys y where ys: "xs = ys @ [y]" using assms(1) by (cases xs rule: rev_cases) auto
  have "fold_bytes chunk_byte d ys = (d\<lparr>cd_state := CsData 1\<rparr>, ys)"
    using fold_chunk_data [of ys "length xs" d] assms(2) ys by simp
  then show ?thesis by (simp add: ys fold_bytes_append chunk_byte.simps)
qed

lemma fold_chunk_done: "cd_state d = CsDone \<Longrightarrow> fold_bytes chunk_byte d xs = (d, [])"
  by (induction xs) (simp_all add: chunk_byte.simps)

text \<open>The loop of \<open>decode\<close> copies runs of bytes; it computes the byte machine.\<close>

lemma chunk_decode_fold:
  "chunk_feed d input = fold_bytes chunk_byte d input"
proof (induction d input rule: chunk_decode.induct)
  case (1 d input)
  show ?case
  proof (cases input)
    case Nil
    then show ?thesis by (simp add: chunk_feed_Nil)
  next
    case (Cons b rest)
    show ?thesis
    proof (cases "cd_state d")
      case CsSize
      show ?thesis
      proof (cases "b = LF")
        case True
        show ?thesis
        proof (cases "parse_hex (strip_cr (cd_size_buf d)) = 0")
          case zero: True
          then show ?thesis using True CsSize
            by (simp add: Cons chunk_feed_def chunk_decode.simps [of d "LF # rest"] chunk_byte.simps [of d LF] fold_chunk_done Let_def)
        next
          case False
          then show ?thesis using True CsSize "1.IH"(1) [OF Cons CsSize True refl False]
            by (simp add: Cons chunk_feed_def chunk_decode.simps [of d "LF # rest"] chunk_byte.simps [of d LF] Let_def
                split: prod.splits)
        qed
      next
        case False
        then show ?thesis using CsSize "1.IH"(2) [OF Cons CsSize False]
          by (simp add: Cons chunk_feed_def chunk_decode.simps [of d "b # rest"] chunk_byte.simps [of d b] split: prod.splits)
      qed
    next
      case (CsData n)
      let ?t = "min (length input) n" and ?l = "n - min (length input) n"
      let ?d1 = "d\<lparr>cd_state := (if ?l = 0 then CsTrailerCr else CsData ?l)\<rparr>"
      have IH: "chunk_feed ?d1 (drop ?t input) = fold_bytes chunk_byte ?d1 (drop ?t input)"
        using "1.IH"(3) [OF Cons CsData refl refl] by simp
      have step: "chunk_feed d input = (fst (chunk_feed ?d1 (drop ?t input)), take ?t input @ snd (chunk_feed ?d1 (drop ?t input)))"
        using CsData Cons by (simp add: chunk_feed_def chunk_decode.simps [of d "b # rest"] Let_def split: prod.splits)
      show ?thesis
      proof (cases "n = 0")
        case True
        have "chunk_byte d b = chunk_byte (d\<lparr>cd_state := CsTrailerCr\<rparr>) b"
          using True CsData by (simp add: chunk_byte.simps)
        then show ?thesis using step IH True Cons by (simp split: prod.splits)
      next
        case False
        have "fold_bytes chunk_byte d (take ?t input) = (?d1, take ?t input)"
        proof (cases "n \<le> length input")
          case True
          then have "length (take ?t input) = n" "take ?t input \<noteq> []" using False Cons by auto
          then show ?thesis using fold_chunk_data_all [of "take ?t input" d] CsData True by simp
        next
          case less: False
          then have "length input < n" "take ?t input = input" by simp_all
          then show ?thesis using fold_chunk_data [of input n d] CsData by simp
        qed
        then have "fold_bytes chunk_byte d input =
            (fst (fold_bytes chunk_byte ?d1 (drop ?t input)), take ?t input @ snd (fold_bytes chunk_byte ?d1 (drop ?t input)))"
          using fold_bytes_append [of chunk_byte d "take ?t input" "drop ?t input"] by simp
        then show ?thesis using step IH by simp
      qed
    next
      case CsTrailerCr
      then show ?thesis using "1.IH"(4) [OF Cons CsTrailerCr]
        by (simp add: Cons chunk_feed_def chunk_decode.simps [of d "b # rest"] chunk_byte.simps [of d b] split: prod.splits)
    next
      case CsTrailerLf
      then show ?thesis using "1.IH"(5) [OF Cons CsTrailerLf]
        by (simp add: Cons chunk_feed_def chunk_decode.simps [of d "b # rest"] chunk_byte.simps [of d b] split: prod.splits)
    next
      case CsDone
      then show ?thesis
        by (simp add: Cons chunk_feed_def chunk_decode.simps [of d "b # rest"] chunk_byte.simps [of d b] fold_chunk_done)
    qed
  qed
qed

interpretation chunk: byte_machine chunk_feed
  using byte_machine_fold [of chunk_byte] by (simp add: byte_machine_def chunk_decode_fold)

text \<open>Chunked bytes, and the pipeline that every SSE reader runs on them.\<close>

interpretation body: machine_pair chunk_feed sse_feed
  by unfold_locales

section \<open>Chunked bodies\<close>

text \<open>A chunk on the wire: size, optional extension, data.\<close>

definition chunk_bytes :: "bytes \<Rightarrow> bytes \<Rightarrow> bytes" where
  "chunk_bytes ext data = hex (length data) @ ext @ CRLF @ data @ CRLF"

definition ext_ok :: "bytes \<Rightarrow> bool" where
  "ext_ok ext = (LF \<notin> set ext \<and> (ext = [] \<or> \<not> is_hex (hd ext)) \<and> \<not> last_is CR ext)"

definition data_ok :: "bytes \<Rightarrow> bool" where
  "data_ok data = (data \<noteq> [] \<and> length data < 2 ^ 64)"

lemma parse_hex_digits:
  "parse_digits 16 (2 ^ 64 - 1) acc s = Some n \<Longrightarrow> parse_hex_from acc s = n"
  by (induction s arbitrary: acc) (auto simp: Let_def split: option.splits if_splits)

lemma parse_hex_from_stop:
  "ext = [] \<or> \<not> is_hex (hd ext) \<Longrightarrow> parse_hex_from acc (s @ ext) = parse_hex_from acc s"
proof (induction s arbitrary: acc)
  case Nil
  then show ?case by (cases ext) (auto simp: is_hex_def)
qed (auto split: option.splits)

lemma parse_hex_size: "n < 2 ^ 64 \<Longrightarrow> ext_ok ext \<Longrightarrow> parse_hex (hex n @ ext) = n"
  using parse_hex_digits [OF parse_digits_hex [of n "2 ^ 64 - 1"]]
  by (simp add: parse_hex_def ext_ok_def parse_hex_from_stop)

lemma fold_chunk_size:
  "LF \<notin> set l \<Longrightarrow> cd_state d = CsSize \<Longrightarrow>
     fold_bytes chunk_byte d l = (d\<lparr>cd_size_buf := cd_size_buf d @ l\<rparr>, [])"
proof (induction l arbitrary: d)
  case (Cons c l)
  then have "c \<noteq> LF" by auto
  then have "chunk_byte d c = (d\<lparr>cd_size_buf := cd_size_buf d @ [c]\<rparr>, [])"
    using Cons.prems(2) by (simp add: chunk_byte.simps [of d c])
  with Cons show ?case by simp
qed simp

lemma chunk_feed_chunk:
  assumes "ext_ok ext" "data_ok data"
  shows "chunk_feed chunk_new (chunk_bytes ext data) = (chunk_new, data)"
proof -
  define l where "l = hex (length data) @ ext @ [CR]"
  let ?d1 = "chunk_new\<lparr>cd_size_buf := l\<rparr>" and ?d2 = "chunk_new\<lparr>cd_state := CsData (length data)\<rparr>"
  have l: "LF \<notin> set l" "strip_cr l = hex (length data) @ ext"
    using assms(1) hex_fresh [of "length data"] by (simp_all add: l_def ext_ok_def strip_cr_def last_is_def butlast_append)
  have s1: "chunk_feed chunk_new l = (?d1, [])"
    using fold_chunk_size [OF l(1), of chunk_new] by (simp add: chunk_decode_fold chunk_new_def)
  have "parse_hex (strip_cr l) = length data"
    using assms parse_hex_size [of "length data" ext] by (simp add: l(2) data_ok_def)
  then have s2: "chunk_feed ?d1 [LF] = (?d2, [])"
    using assms(2) by (simp add: chunk_decode_fold chunk_byte.simps chunk_new_def data_ok_def
        del: append_assoc)
  have s3: "chunk_feed ?d2 data = (?d2\<lparr>cd_state := CsTrailerCr\<rparr>, data)"
    using fold_chunk_data_all [of data ?d2] assms(2) by (simp add: chunk_decode_fold data_ok_def)
  have s4: "chunk_feed (?d2\<lparr>cd_state := CsTrailerCr\<rparr>) CRLF = (chunk_new, [])"
    by (simp add: chunk_decode_fold CRLF_def chunk_byte.simps chunk_new_def)
  have "chunk_bytes ext data = l @ [LF] @ data @ CRLF"
    by (simp add: l_def chunk_bytes_def CRLF_def)
  then show ?thesis
    by (simp only: chunk.feed_append s1 s2 s3 s4 fst_conv snd_conv append_Nil append_Nil2)
qed

lemma chunk_feed_chunks:
  "\<forall>(ext, data) \<in> set cks. ext_ok ext \<and> data_ok data \<Longrightarrow>
     chunk_feed chunk_new (concat (map (\<lambda>(ext, data). chunk_bytes ext data) cks)) = (chunk_new, concat (map snd cks))"
proof (induction cks)
  case (Cons c cks)
  then show ?case by (cases c) (simp add: chunk.feed_append chunk_feed_chunk)
qed (simp add: chunk_feed_Nil)

section \<open>Subscribers\<close>

record 'h hold_stats =
  ho_ttfb :: "duration option"
  ho_event_gap :: 'h
  ho_events :: u64
  ho_bytes_received :: u64
  ho_saw_done :: bool
  ho_errors_connect :: u64
  ho_errors_read :: u64

definition hold_stats_new :: "'h hist_ops \<Rightarrow> 'h hold_stats" where
  "hold_stats_new H = \<lparr>ho_ttfb = None, ho_event_gap = new_hist H, ho_events = 0, ho_bytes_received = 0,
     ho_saw_done = False, ho_errors_connect = 0, ho_errors_read = 0\<rparr>"

datatype sub_state =
  SubConnectingTcp | SubTlsHandshaking | SubWritingRequest | SubReadingHeaders | SubReadingBody | SubDead

datatype peer_answer = PeerOk | PeerNotConnected | PeerErr

datatype read_answer = ReadOk bytes | ReadWouldBlock | ReadErr

datatype write_answer = WroteOk nat | WroteWouldBlock | WroteErr

text \<open>
  The stream: \<open>tls\<close> answers successive \<open>drive_tls_io\<close> calls with success and whether the
  handshake is still going on.
\<close>

record sock =
  so_peer :: "peer_answer list"
  so_handshaking :: bool
  so_tls :: "(bool \<times> bool) list"
  so_writes :: "write_answer list"
  so_reads :: "read_answer list"

text \<open>\<open>rec_ops\<close> logs the recorder calls: the gap and the payload length of each event.\<close>

record 'h subscriber =
  su_stream :: sock
  su_state :: sub_state
  su_write_pos :: nat
  su_pre_body :: bytes
  su_decoder :: chunk_decoder
  su_parser :: sse_parser
  su_stats :: "'h hold_stats"
  su_t_request_sent :: "instant option"
  su_first_byte_at :: "instant option"
  su_last_event_at :: "instant option"
  su_ticks :: nat
  su_recorded :: "(nat \<times> nat) list"

definition create_subscriber :: "'h hist_ops \<Rightarrow> sock \<Rightarrow> nat \<Rightarrow> (nat \<times> nat) list \<Rightarrow> 'h subscriber" where
  "create_subscriber H s ticks recorded =
     \<lparr>su_stream = s, su_state = SubConnectingTcp, su_write_pos = 0, su_pre_body = [],
      su_decoder = chunk_new, su_parser = sse_new, su_stats = hold_stats_new H,
      su_t_request_sent = None, su_first_byte_at = None, su_last_event_at = None,
      su_ticks = ticks, su_recorded = recorded\<rparr>"

definition upd_stats :: "('h hold_stats \<Rightarrow> 'h hold_stats) \<Rightarrow> 'h subscriber \<Rightarrow> 'h subscriber" where
  "upd_stats f sub = sub\<lparr>su_stats := f (su_stats sub)\<rparr>"

definition bump_connect :: "'h subscriber \<Rightarrow> 'h subscriber" where
  "bump_connect = upd_stats (\<lambda>s. s\<lparr>ho_errors_connect := sat_add (ho_errors_connect s) 1\<rparr>)"

definition bump_read :: "'h subscriber \<Rightarrow> 'h subscriber" where
  "bump_read = upd_stats (\<lambda>s. s\<lparr>ho_errors_read := sat_add (ho_errors_read s) 1\<rparr>)"

definition count_bytes :: "nat \<Rightarrow> 'h subscriber \<Rightarrow> 'h subscriber" where
  "count_bytes n =
     upd_stats (\<lambda>s. s\<lparr>ho_bytes_received := sat_add (ho_bytes_received s) (word_of_nat n)\<rparr>)"

text \<open>The callback of \<open>feed_body\<close>. \<open>clock n\<close> is the n-th reading of the clock.\<close>

definition on_sse_event ::
  "'h hist_ops \<Rightarrow> (nat \<Rightarrow> instant) \<Rightarrow> 'h subscriber \<Rightarrow> sse_event \<Rightarrow> 'h subscriber" where
  "on_sse_event H clock sub ev =
     (case ev of
        SseData payload \<Rightarrow>
          (let now = clock (su_ticks sub);
               sub1 = sub\<lparr>su_ticks := Suc (su_ticks sub)\<rparr>;
               (sub2, gap_ns) = (case su_last_event_at sub1 of
                   Some prev \<Rightarrow>
                     (let d = min (max (duration_to_hist_ns (now - prev)) HIST_LO_NS) HIST_HI_NS in
                      (upd_stats (\<lambda>s. s\<lparr>ho_event_gap := h_record H (ho_event_gap s) d\<rparr>) sub1, d))
                 | None \<Rightarrow> (sub1, 0));
               sub3 = upd_stats (\<lambda>s. s\<lparr>ho_events := sat_add (ho_events s) 1\<rparr>)
                        (sub2\<lparr>su_last_event_at := Some now\<rparr>)
           in sub3\<lparr>su_recorded := su_recorded sub3 @ [(gap_ns, length payload)]\<rparr>)
      | SseDone \<Rightarrow> upd_stats (\<lambda>s. s\<lparr>ho_saw_done := True\<rparr>) sub
      | _ \<Rightarrow> sub)"

definition feed_body ::
  "'h hist_ops \<Rightarrow> (nat \<Rightarrow> instant) \<Rightarrow> bytes \<Rightarrow> 'h subscriber \<Rightarrow> 'h subscriber" where
  "feed_body H clock input sub =
     (case chunk_decode (su_decoder sub) input of
        (d', decoded, _) \<Rightarrow>
          (let sub1 = sub\<lparr>su_decoder := d'\<rparr> in
           if decoded = [] then sub1
           else (case sse_feed (su_parser sub1) decoded of
              (p', evs) \<Rightarrow> foldl (on_sse_event H clock) (sub1\<lparr>su_parser := p'\<rparr>) evs)))"

definition find_pos2 :: "'a list \<Rightarrow> 'a list \<Rightarrow> nat option" where
  "find_pos2 w buf = (if length buf < length w then None else find_sub w buf)"

definition hold_find_header_end :: "bytes \<Rightarrow> nat option" where
  "hold_find_header_end buf =
     (case map_option (\<lambda>i. i + 4) (find_pos2 (CRLF @ CRLF) buf) of
        Some p \<Rightarrow> Some p
      | None \<Rightarrow> map_option (\<lambda>i. i + 2) (find_pos2 [LF, LF] buf))"

text \<open>The inner loop of \<open>WritingRequest\<close>: the write position and whether it ended, and how.\<close>

datatype write_end = WeDone | WeBlocked | WeFailed

fun write_loop :: "nat \<Rightarrow> write_answer list \<Rightarrow> nat \<Rightarrow> write_answer list \<times> nat \<times> write_end" where
  "write_loop len ws pos =
     (if len \<le> pos then (ws, pos, WeDone)
      else (case ws of
          [] \<Rightarrow> ([], pos, WeBlocked)
        | WroteOk n # ws' \<Rightarrow> (if n = 0 then (ws', pos, WeFailed) else write_loop len ws' (pos + n))
        | WroteWouldBlock # ws' \<Rightarrow> (ws', pos, WeBlocked)
        | WroteErr # ws' \<Rightarrow> (ws', pos, WeFailed)))"

declare write_loop.simps [simp del]

datatype drive_outcome = Alive | Dead

fun sub_rank :: "sub_state \<Rightarrow> nat" where
  "sub_rank SubConnectingTcp = 5"
| "sub_rank SubTlsHandshaking = 4"
| "sub_rank SubWritingRequest = 3"
| "sub_rank SubReadingHeaders = 2"
| "sub_rank SubReadingBody = 1"
| "sub_rank SubDead = 0"

text \<open>\<open>ReadingHeaders\<close> after a successful read of \<open>d\<close>.\<close>

definition on_header_bytes ::
  "'h hist_ops \<Rightarrow> (nat \<Rightarrow> instant) \<Rightarrow> bytes \<Rightarrow> 'h subscriber \<Rightarrow> 'h subscriber" where
  "on_header_bytes H clock d sub =
     (let now = clock (su_ticks sub);
          sub0 = sub\<lparr>su_ticks := Suc (su_ticks sub)\<rparr>;
          sub1 = (if su_first_byte_at sub0 = None then
                    (let s = sub0\<lparr>su_first_byte_at := Some now\<rparr> in
                     case su_t_request_sent s of
                       Some t \<Rightarrow> upd_stats (\<lambda>x. x\<lparr>ho_ttfb := Some (now - t)\<rparr>) s
                     | None \<Rightarrow> s)
                  else sub0);
          sub2 = count_bytes (length d) sub1;
          sub3 = sub2\<lparr>su_pre_body := su_pre_body sub2 @ d\<rparr>
      in case hold_find_header_end (su_pre_body sub3) of
           None \<Rightarrow> sub3
         | Some hdr_end \<Rightarrow>
             (let body_tail = drop hdr_end (su_pre_body sub3);
                  sub4 = sub3\<lparr>su_pre_body := [], su_state := SubReadingBody\<rparr>
              in if body_tail \<noteq> [] then feed_body H clock body_tail sub4 else sub4))"

definition set_stream :: "(sock \<Rightarrow> sock) \<Rightarrow> 'h subscriber \<Rightarrow> 'h subscriber" where
  "set_stream f sub = sub\<lparr>su_stream := f (su_stream sub)\<rparr>"

lemma foldl_on_sse_event_frame:
  "su_state (foldl (on_sse_event H clock) sub evs) = su_state sub
   \<and> su_stream (foldl (on_sse_event H clock) sub evs) = su_stream sub"
  by (induction evs arbitrary: sub)
     (auto simp: on_sse_event_def upd_stats_def Let_def split: sse_event.splits option.splits)

lemma feed_body_frame [simp]:
  "su_state (feed_body H clock d sub) = su_state sub"
  "su_stream (feed_body H clock d sub) = su_stream sub"
  using foldl_on_sse_event_frame [of H clock]
  by (auto simp: feed_body_def Let_def split: prod.splits)

lemma on_header_bytes_frame:
  "su_stream (on_header_bytes H clock d sub) = su_stream sub"
  "su_state (on_header_bytes H clock d sub) = su_state sub
   \<or> su_state (on_header_bytes H clock d sub) = SubReadingBody"
  by (auto simp: on_header_bytes_def count_bytes_def upd_stats_def Let_def split: option.splits)

function drive_subscriber ::
  "'h hist_ops \<Rightarrow> (nat \<Rightarrow> instant) \<Rightarrow> bytes \<Rightarrow> 'h subscriber \<Rightarrow> 'h subscriber \<times> drive_outcome" where
  "drive_subscriber H clock request sub =
     (case su_state sub of
        SubConnectingTcp \<Rightarrow>
          (case so_peer (su_stream sub) of
             PeerOk # ps \<Rightarrow>
               drive_subscriber H clock request
                 ((set_stream (\<lambda>s. s\<lparr>so_peer := ps\<rparr>) sub)
                    \<lparr>su_state := (if so_handshaking (su_stream sub) then SubTlsHandshaking else SubWritingRequest)\<rparr>)
           | PeerErr # ps \<Rightarrow> (bump_connect (set_stream (\<lambda>s. s\<lparr>so_peer := ps\<rparr>) sub), Dead)
           | PeerNotConnected # ps \<Rightarrow> (set_stream (\<lambda>s. s\<lparr>so_peer := ps\<rparr>) sub, Alive)
           | [] \<Rightarrow> (sub, Alive))
      | SubTlsHandshaking \<Rightarrow>
          (case so_tls (su_stream sub) of
             [] \<Rightarrow> (sub, Alive)
           | (ok, busy) # ts \<Rightarrow>
               (let sub1 = set_stream (\<lambda>s. s\<lparr>so_tls := ts, so_handshaking := busy\<rparr>) sub in
                if \<not> ok then (bump_connect sub1, Dead)
                else if busy then (sub1, Alive)
                else drive_subscriber H clock request (sub1\<lparr>su_state := SubWritingRequest\<rparr>)))
      | SubWritingRequest \<Rightarrow>
          (case write_loop (length request) (so_writes (su_stream sub)) (su_write_pos sub) of
             (ws, pos, e) \<Rightarrow>
               (let sub1 = (set_stream (\<lambda>s. s\<lparr>so_writes := ws\<rparr>) sub)\<lparr>su_write_pos := pos\<rparr> in
                case e of
                  WeDone \<Rightarrow> drive_subscriber H clock request
                    (sub1\<lparr>su_t_request_sent := Some (clock (su_ticks sub1)), su_ticks := Suc (su_ticks sub1),
                          su_state := SubReadingHeaders\<rparr>)
                | WeBlocked \<Rightarrow> (sub1, Alive)
                | WeFailed \<Rightarrow> (bump_connect sub1, Dead)))
      | SubReadingHeaders \<Rightarrow>
          (case so_reads (su_stream sub) of
             [] \<Rightarrow> (sub, Alive)
           | r # rs \<Rightarrow>
               (let sub1 = set_stream (\<lambda>s. s\<lparr>so_reads := rs\<rparr>) sub in
                case r of
                  ReadOk d \<Rightarrow>
                    (if d = [] then (bump_read sub1, Dead)
                     else drive_subscriber H clock request (on_header_bytes H clock d sub1))
                | ReadWouldBlock \<Rightarrow> (sub1, Alive)
                | ReadErr \<Rightarrow> (bump_read sub1, Dead)))
      | SubReadingBody \<Rightarrow>
          (case so_reads (su_stream sub) of
             [] \<Rightarrow> (sub, Alive)
           | r # rs \<Rightarrow>
               (let sub1 = set_stream (\<lambda>s. s\<lparr>so_reads := rs\<rparr>) sub in
                case r of
                  ReadOk d \<Rightarrow>
                    (if d = [] then (sub1, Dead)
                     else drive_subscriber H clock request (feed_body H clock d (count_bytes (length d) sub1)))
                | ReadWouldBlock \<Rightarrow> (sub1, Alive)
                | ReadErr \<Rightarrow> (bump_read sub1, Dead)))
      | SubDead \<Rightarrow> (sub, Dead))"
  by pat_completeness auto
termination
proof (relation "measures [\<lambda>(_, _, _, sub). sub_rank (su_state sub), \<lambda>(_, _, _, sub). length (so_reads (su_stream sub))]",
    goal_cases)
  case (5 H clock request sub r rs sub1 d)
  then show ?case using on_header_bytes_frame [of H clock d sub1] by (auto simp: set_stream_def)
qed (auto simp: set_stream_def count_bytes_def upd_stats_def)

declare drive_subscriber.simps [simp del]

section \<open>The event loop\<close>

record 'h hold_loop =
  hl_subs :: "'h subscriber option list"
  hl_alive :: nat

text \<open>
  One readiness event: its token and flags, what \<open>take_error\<close> returned, the clock reading taken
  before a reconnect and the outcome of that reconnect's \<open>create_subscriber\<close>.
\<close>

record poll_event =
  pe_token :: nat
  pe_is_error :: bool
  pe_took_error :: bool
  pe_now :: instant
  pe_fresh :: "sock option"

definition dead :: "'h subscriber \<Rightarrow> 'h subscriber" where
  "dead sub = sub\<lparr>su_state := SubDead\<rparr>"

definition hold_on_event ::
  "'h hist_ops \<Rightarrow> (nat \<Rightarrow> instant) \<Rightarrow> bytes \<Rightarrow> bool \<Rightarrow> instant \<Rightarrow> poll_event \<Rightarrow> 'h hold_loop \<Rightarrow> 'h hold_loop" where
  "hold_on_event H clock request reconnect wall_deadline ev l =
     (let idx = pe_token ev in
      if length (hl_subs l) \<le> idx then l
      else (case hl_subs l ! idx of
          None \<Rightarrow> l
        | Some sub \<Rightarrow>
            (if su_state sub = SubDead then l
             else if pe_is_error ev then
               (let sub1 = (if pe_took_error ev then
                      (if su_t_request_sent sub = None then bump_connect sub else bump_read sub)
                    else sub)
                in l\<lparr>hl_subs := (hl_subs l)[idx := Some (dead sub1)], hl_alive := hl_alive l - 1\<rparr>)
             else (case drive_subscriber H clock request sub of
                 (sub1, Alive) \<Rightarrow> l\<lparr>hl_subs := (hl_subs l)[idx := Some sub1]\<rparr>
               | (sub1, Dead) \<Rightarrow>
                   (let l1 = l\<lparr>hl_subs := (hl_subs l)[idx := Some (dead sub1)], hl_alive := hl_alive l - 1\<rparr> in
                    if reconnect \<and> pe_now ev < wall_deadline then
                      (case pe_fresh ev of
                         Some s \<Rightarrow>
                           l1\<lparr>hl_subs := (hl_subs l1)[idx := Some ((create_subscriber H s (su_ticks sub1) (su_recorded sub1))
                                 \<lparr>su_stats := su_stats sub1, su_last_event_at := su_last_event_at sub1\<rparr>)],
                              hl_alive := hl_alive l1 + 1\<rparr>
                       | None \<Rightarrow> l1\<lparr>hl_subs := (hl_subs l1)[idx := None]\<rparr>)
                    else l1)))))"

text \<open>The creation loop: a failed creation is a connect error of the roll-up.\<close>

definition hold_start :: "'h hist_ops \<Rightarrow> sock option list \<Rightarrow> 'h hold_loop" where
  "hold_start H socks =
     (let subs = map (map_option (\<lambda>s. create_subscriber H s 0 [])) socks in
      \<lparr>hl_subs = subs, hl_alive = length (filter (\<lambda>s. s \<noteq> None) subs)\<rparr>)"

record 'h rollup =
  ru_ttfb :: 'h
  ru_event_gap :: 'h
  ru_events :: u64
  ru_bytes_received :: u64
  ru_streams_completed :: u64
  ru_errors_connect :: u64
  ru_errors_read :: u64

definition rollup_new :: "'h hist_ops \<Rightarrow> u64 \<Rightarrow> 'h rollup" where
  "rollup_new H errors_connect =
     \<lparr>ru_ttfb = new_hist H, ru_event_gap = new_hist H, ru_events = 0, ru_bytes_received = 0,
      ru_streams_completed = 0, ru_errors_connect = errors_connect, ru_errors_read = 0\<rparr>"

definition rollup_add :: "'h hist_ops \<Rightarrow> 'h rollup \<Rightarrow> 'h subscriber \<Rightarrow> 'h rollup" where
  "rollup_add H r sub =
     (let s = su_stats sub in
      \<lparr>ru_ttfb = (case ho_ttfb s of Some t \<Rightarrow> h_record H (ru_ttfb r) (duration_to_hist_ns t) | None \<Rightarrow> ru_ttfb r),
       ru_event_gap = h_add H (ru_event_gap r) (ho_event_gap s),
       ru_events = sat_add (ru_events r) (ho_events s),
       ru_bytes_received = sat_add (ru_bytes_received r) (ho_bytes_received s),
       ru_streams_completed = (if ho_saw_done s then sat_add (ru_streams_completed r) 1
                               else ru_streams_completed r),
       ru_errors_connect = sat_add (ru_errors_connect r) (ho_errors_connect s),
       ru_errors_read = sat_add (ru_errors_read r) (ho_errors_read s)\<rparr>)"

definition hold_rollup :: "'h hist_ops \<Rightarrow> u64 \<Rightarrow> 'h hold_loop \<Rightarrow> 'h rollup" where
  "hold_rollup H failed l =
     foldl (rollup_add H) (rollup_new H failed) (concat (map (\<lambda>s. case s of Some x \<Rightarrow> [x] | None \<Rightarrow> []) (hl_subs l)))"

section \<open>The request\<close>

definition hold_request :: "target \<Rightarrow> string \<Rightarrow> bytes" where
  "hold_request t path =
     (let host = (if (tg_tls t \<and> tg_port t = 443) \<or> (\<not> tg_tls t \<and> tg_port t = 80) then tg_host t
                  else tg_host t @ '':'' @ dec (unat (tg_port t)))
      in ''GET '' @ path @ '' HTTP/1.1'' @ CRLF @ ''Host: '' @ host @ CRLF @
         ''Accept: text/event-stream'' @ CRLF @ ''Cache-Control: no-cache'' @ CRLF @
         ''Connection: keep-alive'' @ CRLF @ CRLF)"

text \<open>\<open>extract_path\<close> after the template's expansion.\<close>

definition extract_path :: "bytes \<Rightarrow> string" where
  "extract_path buf =
     (let s = from_utf8_lossy buf in
      case find_sub ''://'' s of
        None \<Rightarrow> ''/''
      | Some i \<Rightarrow>
          (case find_pos (\<lambda>c. c = CHR ''/'') (drop (i + 3) s) of
             None \<Rightarrow> ''/''
           | Some j \<Rightarrow> drop (i + 3 + j) s))"

section \<open>Lemmas on the pipeline\<close>

fun payloads :: "sse_event list \<Rightarrow> bytes list" where
  "payloads [] = []"
| "payloads (SseData p # es) = p # payloads es"
| "payloads (_ # es) = payloads es"

lemma payloads_append: "payloads (a @ b) = payloads a @ payloads b"
  by (induction a rule: payloads.induct) auto

lemma payloads_data: "payloads (map (\<lambda>x. SseData (f x)) xs) = map f xs"
  by (induction xs) auto

lemma unat_sat_add: "unat a + unat b < 2 ^ 64 \<Longrightarrow> unat (sat_add a b) = unat a + unat b"
  using unat_add_lem [of a b] by (simp add: sat_add_def)

lemma on_sse_event_effect:
  assumes "unat (ho_events (su_stats sub)) + length (payloads [ev]) < 2 ^ 64"
  shows "let sub' = on_sse_event H clock sub ev in
     su_decoder sub' = su_decoder sub \<and> su_parser sub' = su_parser sub
     \<and> map snd (su_recorded sub') = map snd (su_recorded sub) @ map length (payloads [ev])
     \<and> unat (ho_events (su_stats sub')) = unat (ho_events (su_stats sub)) + length (payloads [ev])
     \<and> ho_bytes_received (su_stats sub') = ho_bytes_received (su_stats sub)
     \<and> ho_errors_connect (su_stats sub') = ho_errors_connect (su_stats sub)
     \<and> ho_errors_read (su_stats sub') = ho_errors_read (su_stats sub)"
  using assms
  by (cases ev) (auto simp: on_sse_event_def upd_stats_def Let_def unat_sat_add split: option.splits)

definition same_counts :: "'h subscriber \<Rightarrow> sse_event list \<Rightarrow> nat \<Rightarrow> 'h subscriber \<Rightarrow> bool" where
  "same_counts sub evs n sub' =
     (map snd (su_recorded sub') = map snd (su_recorded sub) @ map length (payloads evs)
      \<and> unat (ho_events (su_stats sub')) = unat (ho_events (su_stats sub)) + length (payloads evs)
      \<and> unat (ho_bytes_received (su_stats sub')) = unat (ho_bytes_received (su_stats sub)) + n
      \<and> ho_errors_connect (su_stats sub') = ho_errors_connect (su_stats sub)
      \<and> ho_errors_read (su_stats sub') = ho_errors_read (su_stats sub))"

lemma same_counts_trans:
  "same_counts a e1 n1 b \<Longrightarrow> same_counts b e2 n2 c \<Longrightarrow> same_counts a (e1 @ e2) (n1 + n2) c"
  by (simp add: same_counts_def payloads_append)

lemma fold_sse_events:
  assumes "unat (ho_events (su_stats sub)) + length (payloads evs) < 2 ^ 64"
  shows "same_counts sub evs 0 (foldl (on_sse_event H clock) sub evs)
    \<and> su_decoder (foldl (on_sse_event H clock) sub evs) = su_decoder sub
    \<and> su_parser (foldl (on_sse_event H clock) sub evs) = su_parser sub"
  using assms
proof (induction evs arbitrary: sub)
  case (Cons ev evs)
  have ev: "payloads (ev # evs) = payloads [ev] @ payloads evs"
    using payloads_append [of "[ev]" evs] by simp
  note one = on_sse_event_effect [of sub ev H clock]
  show ?case using Cons.IH [of "on_sse_event H clock sub ev"] one Cons.prems ev
    by (simp add: same_counts_def Let_def)
qed (simp add: same_counts_def)

lemma feed_body_pipe:
  assumes "body.pipe (su_decoder sub, su_parser sub) d = ((cd, p), evs)"
    and "unat (ho_events (su_stats sub)) + length (payloads evs) < 2 ^ 64"
  shows "same_counts sub evs 0 (feed_body H clock d sub)
    \<and> su_decoder (feed_body H clock d sub) = cd \<and> su_parser (feed_body H clock d sub) = p"
proof -
  obtain out b where dec: "chunk_decode (su_decoder sub) d = (cd, out, b)" "sse_feed (su_parser sub) out = (p, evs)"
    using assms(1) by (auto simp: body.pipe_def chunk_feed_def split: prod.splits)
  let ?s = "sub\<lparr>su_decoder := cd, su_parser := p\<rparr>"
  have "feed_body H clock d sub = foldl (on_sse_event H clock) ?s evs"
  proof (cases "out = []")
    case True
    then have "p = su_parser sub" "evs = []" using dec(2) by (simp_all add: stream_simps)
    then show ?thesis using True dec(1) by (cases sub) (simp add: feed_body_def)
  next
    case False
    then show ?thesis by (simp add: feed_body_def dec)
  qed
  then show ?thesis using fold_sse_events [of ?s evs H clock] assms(2) by (simp add: same_counts_def)
qed

lemma unat_sat_add_nat:
  "unat a + n < 2 ^ 64 \<Longrightarrow> unat (sat_add a (word_of_nat n)) = unat a + n"
  using unat_sat_add [of a "word_of_nat n"] by (simp add: unat_of_nat)

lemma count_bytes_counts:
  assumes "unat (ho_bytes_received (su_stats sub)) + n < 2 ^ 64"
  shows "same_counts sub [] n (count_bytes n sub)"
  using unat_sat_add_nat [OF assms] by (simp add: same_counts_def count_bytes_def upd_stats_def)

text \<open>The reading state drains what has arrived.\<close>

lemma drive_body:
  assumes "su_state sub = SubReadingBody" "so_reads (su_stream sub) = map ReadOk cs"
    and "\<forall>c \<in> set cs. c \<noteq> []"
    and "body.pipe (su_decoder sub, su_parser sub) (concat cs) = ((cd, p), evs)"
    and "unat (ho_events (su_stats sub)) + length (payloads evs) < 2 ^ 64"
    and "unat (ho_bytes_received (su_stats sub)) + length (concat cs) < 2 ^ 64"
  shows "\<exists>sub'. drive_subscriber H clock request sub = (sub', Alive)
    \<and> same_counts sub evs (length (concat cs)) sub' \<and> su_decoder sub' = cd \<and> su_parser sub' = p"
  using assms
proof (induction cs arbitrary: sub evs)
  case Nil
  then show ?case
    by (simp add: drive_subscriber.simps [of H clock request sub] same_counts_def body.piped.feed_nil)
next
  case (Cons c cs)
  let ?s1 = "set_stream (\<lambda>s. s\<lparr>so_reads := map ReadOk cs\<rparr>) sub"
  let ?s2 = "count_bytes (length c) ?s1"
  let ?s3 = "feed_body H clock c ?s2"
  obtain cd1 p1 e1 where f1: "body.pipe (su_decoder sub, su_parser sub) c = ((cd1, p1), e1)"
    by (metis prod.exhaust)
  obtain e2 where f2: "body.pipe (cd1, p1) (concat cs) = ((cd, p), e2)" "evs = e1 @ e2"
    using Cons.prems(4) by (auto simp: body.piped.feed_append f1 split: prod.splits) (metis prod.collapse)
  have s1: "same_counts sub [] 0 ?s1" "su_decoder ?s2 = su_decoder sub" "su_parser ?s2 = su_parser sub"
    "su_state ?s2 = SubReadingBody" "so_reads (su_stream ?s2) = map ReadOk cs"
    using Cons.prems(1) by (simp_all add: same_counts_def set_stream_def count_bytes_def upd_stats_def)
  have s2: "same_counts ?s1 [] (length c) ?s2"
    using Cons.prems(6) by (intro count_bytes_counts) (simp add: set_stream_def)
  have s12: "same_counts sub [] (length c) ?s2" using same_counts_trans [OF s1(1) s2] by simp
  have s3: "same_counts ?s2 e1 0 ?s3" "su_decoder ?s3 = cd1" "su_parser ?s3 = p1"
    using feed_body_pipe [of ?s2 c cd1 p1 e1 H clock] s1 f1 f2(2) s12 Cons.prems(5)
    by (simp_all add: same_counts_def payloads_append)
  have s13: "same_counts sub e1 (length c) ?s3" using same_counts_trans [OF s12 s3(1)] by simp
  have step: "drive_subscriber H clock request sub = drive_subscriber H clock request ?s3"
    using Cons.prems(1-3) by (simp add: drive_subscriber.simps [of H clock request sub] Let_def)
  have "\<exists>sub'. drive_subscriber H clock request ?s3 = (sub', Alive)
    \<and> same_counts ?s3 e2 (length (concat cs)) sub' \<and> su_decoder sub' = cd \<and> su_parser sub' = p"
  proof (rule Cons.IH)
    show "body.pipe (su_decoder ?s3, su_parser ?s3) (concat cs) = ((cd, p), e2)" using s3 f2 by simp
    show "unat (ho_events (su_stats ?s3)) + length (payloads e2) < 2 ^ 64"
      "unat (ho_bytes_received (su_stats ?s3)) + length (concat cs) < 2 ^ 64"
      using s13 Cons.prems(5,6) f2(2) by (simp_all add: same_counts_def payloads_append)
  qed (use s1 Cons.prems(3) in simp_all)
  then show ?case using step same_counts_trans [OF s13, of e2 "length (concat cs)"] f2(2) by auto
qed

section \<open>Response heads\<close>

text \<open>Lines of a response head: non-empty, without CR or LF.\<close>

definition resp_line :: "string \<Rightarrow> bool" where
  "resp_line l = (head_line l \<and> LF \<notin> set l)"

lemma find_sub_too_short: "length xs < length n \<Longrightarrow> find_sub n xs = None"
  by (induction n xs rule: find_sub.induct) (auto dest: is_prefix_length)

lemma find_pos2_sub: "find_pos2 n xs = find_sub n xs"
  by (simp add: find_pos2_def find_sub_too_short)

text \<open>In a head every LF follows a CR, so no prefix of it has two in a row.\<close>

lemma head_lf_after_cr:
  assumes "\<forall>l \<in> set ls. LF \<notin> set l" "i < length (http_head ls)" "http_head ls ! i = LF"
  shows "0 < i \<and> http_head ls ! (i - 1) = CR"
  using assms
proof (induction ls arbitrary: i)
  case Nil
  then show ?case by (cases i) (auto simp: http_head_def CRLF_def nth_Cons split: nat.splits)
next
  case (Cons l ls)
  have h: "http_head (l # ls) = l @ CR # LF # http_head ls" by (simp add: http_head_def CRLF_def)
  have "i \<noteq> length l" using Cons.prems(3) by (auto simp: h nth_append)
  moreover have "\<not> i < length l"
  proof
    assume i: "i < length l"
    then have "l ! i \<in> set l" by simp
    moreover have "l ! i = LF" using Cons.prems(3) i by (simp add: h nth_append)
    ultimately show False using Cons.prems(1) by simp
  qed
  ultimately consider "i = Suc (length l)" | j where "i = Suc (Suc (length l)) + j"
    by (metis add.commute less_iff_Suc_add linorder_neqE_nat not_less_eq nat_neq_iff less_antisym le_Suc_ex Suc_leI)
  then show ?case
  proof cases
    case 1
    then show ?thesis by (simp add: h nth_append)
  next
    case 2
    then have j: "http_head ls ! j = LF" "j < length (http_head ls)"
      using Cons.prems(2,3) by (simp_all add: h nth_append)
    then have "0 < j \<and> http_head ls ! (j - 1) = CR" using Cons.IH Cons.prems(1) by simp
    then show ?thesis using 2 by (auto simp: h nth_append gr0_conv_Suc)
  qed
qed

lemma two_at:
  assumes "i + 2 \<le> length xs" "take 2 (drop i xs) = [a, b]"
  shows "xs ! i = a" "xs ! Suc i = b"
proof -
  have "take 2 (drop i xs) ! 0 = xs ! i" "take 2 (drop i xs) ! 1 = xs ! Suc i"
    using assms(1) by simp_all
  then show "xs ! i = a" "xs ! Suc i = b" using assms(2) by simp_all
qed

lemma head_no_lf_lf:
  assumes "\<forall>l \<in> set ls. LF \<notin> set l"
  shows "find_sub [LF, LF] (take n (http_head ls)) = None"
proof (rule ccontr)
  let ?h = "take n (http_head ls)"
  assume "find_sub [LF, LF] ?h \<noteq> None"
  then obtain i where i: "find_sub [LF, LF] ?h = Some i" by blast
  have f: "i + 2 \<le> length ?h" "take 2 (drop i ?h) = [LF, LF]"
    using find_sub_SomeD [OF i] by (simp_all add: numeral_2_eq_2)
  have "?h ! i = LF" "?h ! Suc i = LF" by (rule two_at [OF f])+
  moreover have "Suc i < length ?h" using f by simp
  ultimately have "http_head ls ! i = LF" "http_head ls ! Suc i = LF" "Suc i < length (http_head ls)" by simp_all
  then show False using head_lf_after_cr [OF assms, of "Suc i"] by simp
qed

lemma hold_head_end:
  assumes "ls \<noteq> []" "\<forall>l \<in> set ls. resp_line l"
  shows "hold_find_header_end (http_head ls @ rest) = Some (length (http_head ls))"
    and "n < length (http_head ls) \<Longrightarrow> hold_find_header_end (take n (http_head ls)) = None"
proof -
  have ls: "\<forall>l \<in> set ls. head_line l" "\<forall>l \<in> set ls. LF \<notin> set l"
    using assms(2) by (simp_all add: resp_line_def)
  have len: "4 \<le> length (http_head ls)" using assms(1) by (cases ls) (simp_all add: http_head_def CRLF_def)
  note fnd = find_blank_line [OF assms(1) ls(1)]
  show "hold_find_header_end (http_head ls @ rest) = Some (length (http_head ls))"
    using fnd [of rest] len by (simp add: hold_find_header_end_def find_pos2_sub)
  assume n: "n < length (http_head ls)"
  have "find_sub (CRLF @ CRLF) (take n (http_head ls)) = None"
  proof (rule ccontr)
    assume "find_sub (CRLF @ CRLF) (take n (http_head ls)) \<noteq> None"
    then obtain i where i: "find_sub (CRLF @ CRLF) (take n (http_head ls)) = Some i" by blast
    then have "find_sub (CRLF @ CRLF) (http_head ls) = Some i"
      using find_sub_append [OF i, of "drop n (http_head ls)"] by simp
    then have "i = length (http_head ls) - 4" using fnd [of "[]"] by simp
    moreover have "i + 4 \<le> n" using find_sub_SomeD [OF i] n by (simp add: CRLF_def)
    ultimately show False using n len by simp
  qed
  then show "hold_find_header_end (take n (http_head ls)) = None"
    using head_no_lf_lf [OF ls(2), of n] by (simp add: hold_find_header_end_def find_pos2_sub)
qed

section \<open>A whole session\<close>

definition header_pre :: "(nat \<Rightarrow> instant) \<Rightarrow> bytes \<Rightarrow> 'h subscriber \<Rightarrow> 'h subscriber" where
  "header_pre clock d sub =
     (let now = clock (su_ticks sub);
          sub0 = sub\<lparr>su_ticks := Suc (su_ticks sub)\<rparr>
      in if su_first_byte_at sub0 = None then
           (let s = sub0\<lparr>su_first_byte_at := Some now\<rparr> in
            case su_t_request_sent s of
              Some t \<Rightarrow> upd_stats (\<lambda>x. x\<lparr>ho_ttfb := Some (now - t)\<rparr>) s
            | None \<Rightarrow> s)
         else sub0)"

lemma header_pre_counts:
  "same_counts sub [] 0 (header_pre clock d sub)"
  "su_decoder (header_pre clock d sub) = su_decoder sub" "su_parser (header_pre clock d sub) = su_parser sub"
  "su_state (header_pre clock d sub) = su_state sub" "su_stream (header_pre clock d sub) = su_stream sub"
  "su_pre_body (header_pre clock d sub) = su_pre_body sub"
  by (auto simp: header_pre_def same_counts_def upd_stats_def Let_def split: option.splits)

lemma on_header_bytes_alt:
  "on_header_bytes H clock d sub =
     (let sub2 = count_bytes (length d) (header_pre clock d sub);
          sub3 = sub2\<lparr>su_pre_body := su_pre_body sub2 @ d\<rparr>
      in case hold_find_header_end (su_pre_body sub3) of
           None \<Rightarrow> sub3
         | Some hdr_end \<Rightarrow>
             (let body_tail = drop hdr_end (su_pre_body sub3);
                  sub4 = sub3\<lparr>su_pre_body := [], su_state := SubReadingBody\<rparr>
              in if body_tail \<noteq> [] then feed_body H clock body_tail sub4 else sub4))"
  by (simp add: on_header_bytes_def header_pre_def Let_def)

lemma same_counts_upd [simp]:
  "same_counts a e n (b\<lparr>su_pre_body := x\<rparr>) = same_counts a e n b"
  "same_counts a e n (b\<lparr>su_state := y\<rparr>) = same_counts a e n b"
  by (simp_all add: same_counts_def)

lemma count_bytes_frame [simp]:
  "su_decoder (count_bytes n sub) = su_decoder sub" "su_parser (count_bytes n sub) = su_parser sub"
  "su_state (count_bytes n sub) = su_state sub" "su_stream (count_bytes n sub) = su_stream sub"
  "su_pre_body (count_bytes n sub) = su_pre_body sub"
  by (simp_all add: count_bytes_def upd_stats_def)

lemma counted_header:
  assumes "unat (ho_bytes_received (su_stats sub)) + length d < 2 ^ 64"
  shows "same_counts sub [] (length d) (count_bytes (length d) (header_pre clock d sub))"
proof -
  let ?p = "header_pre clock d sub"
  have "unat (ho_bytes_received (su_stats ?p)) + length d < 2 ^ 64"
    using header_pre_counts(1) [of sub clock d] assms by (simp add: same_counts_def)
  then show ?thesis
    using same_counts_trans [OF header_pre_counts(1) count_bytes_counts, of clock d sub "length d"] by simp
qed

lemma on_header_more:
  fixes H :: "'h hist_ops" and clock :: "nat \<Rightarrow> instant" and sub :: "'h subscriber"
  assumes "hold_find_header_end (su_pre_body sub @ d) = None"
    and "unat (ho_bytes_received (su_stats sub)) + length d < 2 ^ 64"
  defines "s \<equiv> on_header_bytes H clock d sub"
  shows "same_counts sub [] (length d) s" "su_decoder s = su_decoder sub" "su_parser s = su_parser sub"
    "su_state s = su_state sub" "su_stream s = su_stream sub" "su_pre_body s = su_pre_body sub @ d"
  using counted_header [OF assms(2), of clock] assms(1)
  by (simp_all add: s_def on_header_bytes_alt header_pre_counts Let_def)

lemma on_header_end:
  fixes H :: "'h hist_ops" and clock :: "nat \<Rightarrow> instant" and sub :: "'h subscriber"
  assumes "hold_find_header_end (su_pre_body sub @ d) = Some k"
    and "unat (ho_bytes_received (su_stats sub)) + length d < 2 ^ 64"
    and "body.pipe (su_decoder sub, su_parser sub) (drop k (su_pre_body sub @ d)) = ((cd, p), evs)"
    and "unat (ho_events (su_stats sub)) + length (payloads evs) < 2 ^ 64"
  defines "s \<equiv> on_header_bytes H clock d sub"
  shows "same_counts sub evs (length d) s" "su_decoder s = cd" "su_parser s = p"
    "su_state s = SubReadingBody" "su_stream s = su_stream sub"
proof -
  let ?tail = "drop k (su_pre_body sub @ d)"
  let ?c = "count_bytes (length d) (header_pre clock d sub)"
  let ?s4 = "?c\<lparr>su_pre_body := [], su_state := SubReadingBody\<rparr>"
  have c: "same_counts sub [] (length d) ?s4" using counted_header [OF assms(2), of clock] by simp
  have s: "s = (if ?tail \<noteq> [] then feed_body H clock ?tail ?s4 else ?s4)"
    using assms(1) by (simp add: s_def on_header_bytes_alt header_pre_counts Let_def)
  have "same_counts ?s4 evs 0 s \<and> su_decoder s = cd \<and> su_parser s = p"
  proof (cases "?tail = []")
    case True
    then have "cd = su_decoder sub" "p = su_parser sub" "evs = []"
      using assms(3) by (simp_all add: body.piped.feed_nil)
    then show ?thesis using s True by (simp add: same_counts_def header_pre_counts)
  next
    case False
    then show ?thesis
      using feed_body_pipe [of ?s4 ?tail cd p evs H clock] s c assms(3,4)
      by (simp add: header_pre_counts same_counts_def)
  qed
  then show "same_counts sub evs (length d) s" "su_decoder s = cd" "su_parser s = p"
    using same_counts_trans [OF c] by (metis append_Nil add_0_right)+
  show "su_state s = SubReadingBody" "su_stream s = su_stream sub"
    using s by (simp_all add: header_pre_counts)
qed

lemma drive_headers:
  assumes "ls \<noteq> []" "\<forall>l \<in> set ls. resp_line l"
    and "su_state sub = SubReadingHeaders" "so_reads (su_stream sub) = map ReadOk cs" "\<forall>c \<in> set cs. c \<noteq> []"
    and "su_pre_body sub @ concat cs = http_head ls @ bd" "length (su_pre_body sub) < length (http_head ls)"
    and "body.pipe (su_decoder sub, su_parser sub) bd = ((cd, p), evs)"
    and "unat (ho_events (su_stats sub)) + length (payloads evs) < 2 ^ 64"
    and "unat (ho_bytes_received (su_stats sub)) + length (concat cs) < 2 ^ 64"
  shows "\<exists>sub'. drive_subscriber H clock request sub = (sub', Alive)
    \<and> same_counts sub evs (length (concat cs)) sub' \<and> su_decoder sub' = cd \<and> su_parser sub' = p"
  using assms(3-)
proof (induction cs arbitrary: sub)
  case Nil
  have "length (su_pre_body sub) = length (http_head ls @ bd)" using Nil.prems(4) by simp
  then show ?case using Nil.prems(5) by simp
next
  case (Cons c cs)
  let ?s1 = "set_stream (\<lambda>s. s\<lparr>so_reads := map ReadOk cs\<rparr>) sub"
  let ?s2 = "on_header_bytes H clock c ?s1"
  have s1: "su_pre_body ?s1 = su_pre_body sub" "su_decoder ?s1 = su_decoder sub" "su_parser ?s1 = su_parser sub"
    "su_state ?s1 = SubReadingHeaders" "so_reads (su_stream ?s1) = map ReadOk cs" "su_stats ?s1 = su_stats sub"
    "same_counts sub [] 0 ?s1"
    using Cons.prems(1) by (simp_all add: set_stream_def same_counts_def)
  have step: "drive_subscriber H clock request sub = drive_subscriber H clock request ?s2"
    using Cons.prems(1-3) by (simp add: drive_subscriber.simps [of H clock request sub] Let_def)
  have b: "unat (ho_bytes_received (su_stats ?s1)) + length c < 2 ^ 64" using Cons.prems(8) s1 by simp
  have all: "(su_pre_body sub @ c) @ concat cs = http_head ls @ bd" using Cons.prems(4) by simp
  show ?case
  proof (cases "length (su_pre_body sub @ c) < length (http_head ls)")
    case True
    then have pre: "su_pre_body sub @ c = take (length (su_pre_body sub @ c)) (http_head ls)"
      using arg_cong [OF all, of "take (length (su_pre_body sub @ c))"] by simp
    have none: "hold_find_header_end (su_pre_body ?s1 @ c) = None"
      unfolding s1(1) by (subst pre) (rule hold_head_end(2) [OF assms(1,2) True])
    note m = on_header_more [OF none b, of H clock]
    have s12: "same_counts sub [] (length c) ?s2" using same_counts_trans [OF s1(7) m(1)] by simp
    have "\<exists>sub'. drive_subscriber H clock request ?s2 = (sub', Alive)
      \<and> same_counts ?s2 evs (length (concat cs)) sub' \<and> su_decoder sub' = cd \<and> su_parser sub' = p"
    proof (rule Cons.IH)
      show "su_pre_body ?s2 @ concat cs = http_head ls @ bd" "length (su_pre_body ?s2) < length (http_head ls)"
        using m(6) s1 all True by simp_all
      show "unat (ho_events (su_stats ?s2)) + length (payloads evs) < 2 ^ 64"
        "unat (ho_bytes_received (su_stats ?s2)) + length (concat cs) < 2 ^ 64"
        using s12 Cons.prems(7,8) by (simp_all add: same_counts_def)
    qed (use m s1 Cons.prems(3,6) in simp_all)
    then show ?thesis using step same_counts_trans [OF s12] by fastforce
  next
    case False
    let ?k = "length (http_head ls)"
    define tl where "tl = drop ?k (su_pre_body sub @ c)"
    have pre: "su_pre_body sub @ c = http_head ls @ tl"
      using arg_cong [OF all, of "take ?k"] False unfolding tl_def
      by (metis append_eq_conv_conj append_take_drop_id le_eq_less_or_eq not_le take_append take_all_iff append_Nil2 diff_is_0_eq take_0)
    have bd: "bd = tl @ concat cs" using all pre by simp
    have some: "hold_find_header_end (su_pre_body ?s1 @ c) = Some ?k"
      using hold_head_end(1) [OF assms(1,2), of tl] pre s1 by simp
    obtain cd1 p1 e1 where f1: "body.pipe (su_decoder sub, su_parser sub) tl = ((cd1, p1), e1)"
      by (metis prod.exhaust)
    obtain e2 where f2: "body.pipe (cd1, p1) (concat cs) = ((cd, p), e2)" "evs = e1 @ e2"
      using Cons.prems(6) by (auto simp: bd body.piped.feed_append f1 split: prod.splits) (metis prod.collapse)
    have "body.pipe (su_decoder ?s1, su_parser ?s1) (drop ?k (su_pre_body ?s1 @ c)) = ((cd1, p1), e1)"
      "unat (ho_events (su_stats ?s1)) + length (payloads e1) < 2 ^ 64"
      using f1 f2 s1 pre Cons.prems(7) by (simp_all add: payloads_append)
    note m = on_header_end [OF some b this, of H clock]
    have s12: "same_counts sub e1 (length c) ?s2" using same_counts_trans [OF s1(7) m(1)] by simp
    have "\<exists>sub'. drive_subscriber H clock request ?s2 = (sub', Alive)
      \<and> same_counts ?s2 e2 (length (concat cs)) sub' \<and> su_decoder sub' = cd \<and> su_parser sub' = p"
      using m s1 f2 s12 Cons.prems(3,7,8)
      by (intro drive_body) (simp_all add: same_counts_def payloads_append)
    then show ?thesis using step same_counts_trans [OF s12] f2(2) by fastforce
  qed
qed

lemma write_loop_ok:
  "\<forall>n \<in> set ns. 0 < n \<Longrightarrow> len \<le> pos + sum_list ns \<Longrightarrow>
     \<exists>ws pos'. write_loop len (map WroteOk ns) pos = (ws, pos', WeDone)"
proof (induction ns arbitrary: pos)
  case Nil
  then show ?case by (simp add: write_loop.simps)
next
  case (Cons n ns)
  then show ?case using Cons.IH [of "pos + n"]
    by (simp add: write_loop.simps [of len "WroteOk n # map WroteOk ns"])
qed

lemma drive_connected:
  assumes "\<forall>n \<in> set ns. 0 < n" "length request \<le> sum_list ns"
    and s0_def: "s0 = \<lparr>so_peer = [PeerOk], so_handshaking = False, so_tls = [], so_writes = map WroteOk ns,
      so_reads = rs\<rparr>"
  shows "\<exists>sub. drive_subscriber H clock request (create_subscriber H s0 0 []) = drive_subscriber H clock request sub
    \<and> su_state sub = SubReadingHeaders \<and> so_reads (su_stream sub) = rs \<and> su_pre_body sub = []
    \<and> su_decoder sub = chunk_new \<and> su_parser sub = sse_new \<and> su_stats sub = hold_stats_new H
    \<and> su_recorded sub = []"
proof -
  let ?c = "create_subscriber H s0 0 []"
  let ?w = "(set_stream (\<lambda>s. s\<lparr>so_peer := []\<rparr>) ?c)\<lparr>su_state := SubWritingRequest\<rparr>"
  have 1: "drive_subscriber H clock request ?c = drive_subscriber H clock request ?w"
    by (subst drive_subscriber.simps) (simp add: create_subscriber_def s0_def set_stream_def)
  obtain ws pos where w: "write_loop (length request) (map WroteOk ns) 0 = (ws, pos, WeDone)"
    using write_loop_ok [OF assms(1), of "length request" 0] assms(2) by auto
  let ?s1 = "(set_stream (\<lambda>s. s\<lparr>so_writes := ws\<rparr>) ?w)\<lparr>su_write_pos := pos\<rparr>"
  let ?h = "?s1\<lparr>su_t_request_sent := Some (clock (su_ticks ?s1)), su_ticks := Suc (su_ticks ?s1),
      su_state := SubReadingHeaders\<rparr>"
  have "drive_subscriber H clock request ?w = drive_subscriber H clock request ?h"
    using w by (subst drive_subscriber.simps) (simp add: Let_def create_subscriber_def s0_def set_stream_def)
  with 1 show ?thesis
    by (intro exI [of _ ?h]) (simp add: create_subscriber_def s0_def set_stream_def)
qed

section \<open>The count of live subscribers\<close>

definition live :: "'h subscriber option \<Rightarrow> bool" where
  "live x = (case x of Some s \<Rightarrow> su_state s \<noteq> SubDead | None \<Rightarrow> False)"

definition alive_ok :: "'h hold_loop \<Rightarrow> bool" where
  "alive_ok l = (hl_alive l = length (filter live (hl_subs l)))"

lemma drive_alive_state:
  "drive_subscriber H clock request sub = (sub', Alive) \<Longrightarrow> su_state sub' \<noteq> SubDead"
proof (induction H clock request sub arbitrary: sub' rule: drive_subscriber.induct)
  case (1 H clock request sub)
  note IH = "1.IH" and prem = "1.prems" [unfolded drive_subscriber.simps [of H clock request sub]]
  show ?case
  proof (cases "su_state sub")
    case SubConnectingTcp
    then show ?thesis using prem IH(1) [OF SubConnectingTcp]
      by (auto simp: set_stream_def split: list.splits peer_answer.splits)
  next
    case SubTlsHandshaking
    then show ?thesis using prem IH(2) [OF SubTlsHandshaking]
      by (auto simp: set_stream_def Let_def split: list.splits prod.splits if_splits)
  next
    case SubWritingRequest
    then show ?thesis using prem IH(3) [OF SubWritingRequest]
      by (auto simp: set_stream_def Let_def split: prod.splits write_end.splits)
  next
    case SubReadingHeaders
    then show ?thesis using prem IH(4) [OF SubReadingHeaders]
      by (auto simp: set_stream_def Let_def split: list.splits read_answer.splits if_splits)
  next
    case SubReadingBody
    then show ?thesis using prem IH(5) [OF SubReadingBody]
      by (auto simp: set_stream_def Let_def split: list.splits read_answer.splits if_splits)
  next
    case SubDead
    then show ?thesis using prem by simp
  qed
qed

lemma filter_update_length:
  "i < length xs \<Longrightarrow> length (filter P (xs[i := y])) + (if P (xs ! i) then 1 else 0)
     = length (filter P xs) + (if P y then 1 else 0)"
proof (induction xs arbitrary: i)
  case (Cons x xs)
  then show ?case by (cases i) auto
qed simp

lemma alive_kill:
  assumes "alive_ok l" "i < length (hl_subs l)" "live (hl_subs l ! i)" "\<not> live y"
  shows "alive_ok (l\<lparr>hl_subs := (hl_subs l)[i := y], hl_alive := hl_alive l - 1\<rparr>)"
  using filter_update_length [OF assms(2), of live y] assms by (simp add: alive_ok_def)

lemma alive_keep:
  assumes "alive_ok l" "i < length (hl_subs l)" "live (hl_subs l ! i)" "live y"
  shows "alive_ok (l\<lparr>hl_subs := (hl_subs l)[i := y]\<rparr>)"
  using filter_update_length [OF assms(2), of live y] assms by (simp add: alive_ok_def)

lemma alive_revive:
  assumes "alive_ok l" "i < length (hl_subs l)" "live (hl_subs l ! i)" "live y"
  shows "alive_ok (l\<lparr>hl_subs := (hl_subs l)[i := y], hl_alive := hl_alive l - 1 + 1\<rparr>)"
proof -
  have "0 < hl_alive l"
    using assms nth_mem [of i "hl_subs l"] by (auto simp: alive_ok_def filter_empty_conv)
  then show ?thesis using alive_keep [OF assms] by (simp add: alive_ok_def)
qed

lemma alive_on_event:
  assumes "alive_ok l"
  shows "alive_ok (hold_on_event H clock request reconnect wall_deadline ev l)"
proof -
  let ?i = "pe_token ev" and ?r = "hold_on_event H clock request reconnect wall_deadline ev l"
  show ?thesis
  proof (cases "?i < length (hl_subs l) \<and> live (hl_subs l ! ?i)")
    case False
    then have "?r = l" by (auto simp: hold_on_event_def live_def Let_def split: option.splits)
    then show ?thesis using assms by simp
  next
    case True
    then obtain sub where sub: "hl_subs l ! ?i = Some sub" "su_state sub \<noteq> SubDead"
      by (auto simp: live_def split: option.splits)
    have i: "?i < length (hl_subs l)" "live (hl_subs l ! ?i)" using True by simp_all
    note kill = alive_kill [OF assms i] and keep = alive_keep [OF assms i] and revive = alive_revive [OF assms i]
    have d: "\<not> live (Some (dead s))" for s :: "'a subscriber" by (simp add: live_def dead_def)
    obtain sub1 out where dr: "drive_subscriber H clock request sub = (sub1, out)" by fastforce
    show ?thesis
    proof (cases "pe_is_error ev")
      case True
      then show ?thesis using i sub kill [OF d] by (simp add: hold_on_event_def Let_def)
    next
      case ok: False
      show ?thesis
      proof (cases out)
        case Alive
        then have "live (Some sub1)" using drive_alive_state dr by (fastforce simp: live_def)
        then show ?thesis using i sub ok dr Alive keep by (simp add: hold_on_event_def Let_def)
      next
        case Dead
        show ?thesis
        proof (cases "reconnect \<and> pe_now ev < wall_deadline")
          case False
          then show ?thesis using i sub ok dr Dead kill [OF d] by (auto simp: hold_on_event_def Let_def)
        next
          case rc: True
          show ?thesis
          proof (cases "pe_fresh ev")
            case None
            have "\<not> live (None :: 'a subscriber option)" by (simp add: live_def)
            from kill [OF this] show ?thesis
              using i sub ok dr Dead rc None by (simp add: hold_on_event_def alive_ok_def Let_def)
          next
            case (Some s)
            let ?y = "Some ((create_subscriber H s (su_ticks sub1) (su_recorded sub1))
                        \<lparr>su_stats := su_stats sub1, su_last_event_at := su_last_event_at sub1\<rparr>)"
            have "live ?y" by (simp add: live_def create_subscriber_def)
            from revive [OF this] show ?thesis
              using i sub ok dr Dead rc Some by (simp add: hold_on_event_def alive_ok_def Let_def)
          qed
        qed
      qed
    qed
  qed
qed

section \<open>Properties\<close>

text \<open>
  The chunked decoder of the SSE readers inverts chunked encoding under any cut of the
  network: sizes in hexadecimal with optional extensions, chunks of any length, bytes handed over
  in any pieces give back exactly the body, and leave the decoder where it started.
\<close>

lemma chunk_roundtrip:
  assumes "\<forall>(ext, data) \<in> set cks. ext_ok ext \<and> data_ok data"
    and "concat cuts = concat (map (\<lambda>(ext, data). chunk_bytes ext data) cks)"
  shows "chunk.feeds chunk_new cuts = (chunk_new, concat (map snd cks))"
  using chunk_feed_chunks [OF assms(1)] by (simp add: chunk.feeds_concat assms(2))



text \<open>
  A body that is not chunked is lost: the decoder runs whatever the transfer coding,
  and if the body's first line does not start with a hexadecimal digit, as in a stream that
  opens with a comment, the line is read as size 0 and no event of the stream is ever emitted.
\<close>

lemma hold_identity_body_lost:
  assumes "LF \<notin> set l" "l = [] \<or> \<not> is_hex (hd l)" "concat cuts = l @ [LF] @ rest"
  shows "snd (body.piped.feeds (chunk_new, sse_new) cuts) = []"
proof -
  let ?d1 = "chunk_new\<lparr>cd_size_buf := l\<rparr>" and ?d2 = "chunk_new\<lparr>cd_state := CsDone\<rparr>"
  have s1: "chunk_feed chunk_new l = (?d1, [])"
    using fold_chunk_size [OF assms(1), of chunk_new] by (simp add: chunk_decode_fold chunk_new_def)
  have "strip_cr l = [] \<or> \<not> is_hex (hd (strip_cr l))"
    using assms(2) by (cases l) (auto simp: strip_cr_def last_is_def)
  then have "parse_hex (strip_cr l) = 0"
    using parse_hex_from_stop [of "strip_cr l" 0 "[]"] by (simp add: parse_hex_def)
  then have s2: "chunk_feed ?d1 [LF] = (?d2, [])"
    by (simp add: chunk_decode_fold chunk_byte.simps chunk_new_def)
  have s3: "chunk_feed ?d2 rest = (?d2, [])"
    using fold_chunk_done [of ?d2 rest] by (simp add: chunk_decode_fold)
  have "chunk_feed chunk_new (l @ [LF] @ rest) = (?d2, [])"
    by (simp only: chunk.feed_append s1 s2 s3 fst_conv snd_conv append_Nil)
  then have "body.pipe (chunk_new, sse_new) (concat cuts) = ((?d2, sse_new), [])"
    by (simp add: body.pipe_def assms(3) stream_simps)
  then show ?thesis by (simp add: body.piped.feeds_concat)
qed

text \<open>
  The loop's count of live subscribers is exact: after any sequence of readiness
  events on the subscribers created at the start, with errors, ends of stream, reconnects and
  failed reconnects, it is the number of slots with a subscriber that is not dead, so the loop
  ends exactly when none is left.
\<close>

lemma hold_alive_exact:
  "alive_ok (foldl (\<lambda>l ev. hold_on_event H clock request reconnect wall_deadline ev l) (hold_start H socks) evs)"
proof -
  have "alive_ok (hold_start H socks)"
    by (induction socks) (auto simp: hold_start_def alive_ok_def live_def create_subscriber_def Let_def)
  moreover have "alive_ok l \<Longrightarrow>
      alive_ok (foldl (\<lambda>l ev. hold_on_event H clock request reconnect wall_deadline ev l) l evs)" for l :: "'a hold_loop"
    by (induction evs arbitrary: l) (simp_all add: alive_on_event)
  ultimately show ?thesis by blast
qed

text \<open>
  A failed reconnect drops what the subscriber had counted: the roll-up is then that of
  the other subscribers, without its events and without a connect error for the failure.
\<close>

lemma hold_failed_reconnect:
  assumes "pe_token ev < length (hl_subs l)" "hl_subs l ! pe_token ev = Some sub" "su_state sub \<noteq> SubDead"
    and "\<not> pe_is_error ev" "drive_subscriber H clock request sub = (sub1, Dead)"
    and "pe_now ev < wall_deadline" "pe_fresh ev = None"
  shows "hold_rollup H failed (hold_on_event H clock request True wall_deadline ev l)
    = hold_rollup H failed (l\<lparr>hl_subs := (hl_subs l)[pe_token ev := None]\<rparr>)"
  using assms by (simp add: hold_on_event_def hold_rollup_def Let_def)

end
