(* ===== verification/WsFrame.thy ===== *)
theory WsFrame
  imports Prelude
begin

unbundle bit_operations_syntax

text \<open>
  The RFC 6455 frame codec of \<open>zerobench-backends/src/ws/frame.rs\<close>: opcodes, the masked client
  encoder, the server-frame decoder with its error cases, and the Close payload helpers. A buffer
  is a list of \<open>8 word\<close>; a 4-byte mask is a 4-tuple. The lemmas relate encoder and decoder
  through \<open>frame_bytes\<close>, the unmasked RFC layout, and state how decoding behaves on partial input.
\<close>

section \<open>Opcodes, headers, errors\<close>

datatype opcode = OpContinuation | OpText | OpBinary | OpClose | OpPing | OpPong

definition opcode_from_bits :: "u8 \<Rightarrow> opcode option" where
  "opcode_from_bits b =
     (let n = b AND 0x0F in
      if n = 0x0 then Some OpContinuation
      else if n = 0x1 then Some OpText
      else if n = 0x2 then Some OpBinary
      else if n = 0x8 then Some OpClose
      else if n = 0x9 then Some OpPing
      else if n = 0xA then Some OpPong
      else None)"

fun opcode_bits :: "opcode \<Rightarrow> u8" where
  "opcode_bits OpContinuation = 0x0"
| "opcode_bits OpText = 0x1"
| "opcode_bits OpBinary = 0x2"
| "opcode_bits OpClose = 0x8"
| "opcode_bits OpPing = 0x9"
| "opcode_bits OpPong = 0xA"

definition is_control :: "opcode \<Rightarrow> bool" where
  "is_control opc = (opc \<in> {OpClose, OpPing, OpPong})"

record frame_header =
  fh_fin :: bool
  fh_opcode :: opcode
  fh_payload_len :: nat
  fh_payload_start :: nat
  fh_total_len :: nat

datatype frame_error =
    NeedMore nat
  | ReservedBitSet u8
  | UnknownOpcode u8
  | ServerFrameMasked
  | ControlFrameTooLarge nat
  | FragmentedControlFrame
  | PayloadTooLarge nat
  | ProtocolOther string

definition MAX_PAYLOAD :: nat where "MAX_PAYLOAD = 64 * 1024 * 1024"

section \<open>Big-endian integers\<close>

text \<open>\<open>to_be_bytes\<close> and \<open>from_be_bytes\<close> of a k-byte integer; the truncating cast is the
  \<open>mod\<close> implied by keeping k bytes.\<close>

fun be_bytes :: "nat \<Rightarrow> nat \<Rightarrow> u8 list" where
  "be_bytes 0 n = []"
| "be_bytes (Suc k) n = be_bytes k (n div 256) @ [word_of_nat n]"

definition from_be :: "u8 list \<Rightarrow> nat" where
  "from_be bs = foldl (\<lambda>acc b. acc * 256 + unat b) 0 bs"

lemma length_be_bytes [simp]: "length (be_bytes k n) = k"
  by (induction k n rule: be_bytes.induct) auto

lemma from_be_snoc: "from_be (xs @ [x]) = from_be xs * 256 + unat x"
  by (simp add: from_be_def)

lemma from_be_be_bytes: "from_be (be_bytes k n) = n mod 256 ^ k"
proof (induction k n rule: be_bytes.induct)
  case (1 n)
  then show ?case by (simp add: from_be_def)
next
  case (2 k n)
  have "n mod 256 ^ Suc k = 256 * ((n div 256) mod 256 ^ k) + n mod 256"
    by (simp add: mod_mult2_eq)
  with 2 show ?case by (simp add: from_be_snoc unat_of_nat)
qed

section \<open>Encoding\<close>

type_synonym mask4 = "u8 \<times> u8 \<times> u8 \<times> u8"

fun mask_at :: "mask4 \<Rightarrow> nat \<Rightarrow> u8" where
  "mask_at (a, b, c, d) i = (if i = 0 then a else if i = 1 then b else if i = 2 then c else d)"

fun mask_bytes :: "mask4 \<Rightarrow> u8 list" where
  "mask_bytes (a, b, c, d) = [a, b, c, d]"

text \<open>\<open>payload.iter().enumerate()\<close>, pushing \<open>b ^ mask[i & 3]\<close>; \<open>i\<close> is the running index.\<close>

fun mask_from :: "mask4 \<Rightarrow> nat \<Rightarrow> u8 list \<Rightarrow> u8 list" where
  "mask_from m i [] = []"
| "mask_from m i (b # bs) = (b XOR mask_at m (i mod 4)) # mask_from m (Suc i) bs"

definition encode_frame :: "opcode \<Rightarrow> u8 list \<Rightarrow> mask4 \<Rightarrow> u8 list \<Rightarrow> u8 list \<times> nat" where
  "encode_frame opc payload key out =
     (let len = length payload;
          start = length out;
          out1 = out @ [0x80 OR opcode_bits opc];
          out2 = (if len < 126 then out1 @ [0x80 OR word_of_nat len]
                  else if len < 65536 then out1 @ [0x80 OR 126] @ be_bytes 2 len
                  else out1 @ [0x80 OR 127] @ be_bytes 8 len);
          out3 = out2 @ mask_bytes key;
          out4 = out3 @ mask_from key 0 payload
      in (out4, length out4 - start))"

definition encode_close :: "u16 \<Rightarrow> u8 list \<Rightarrow> mask4 \<Rightarrow> u8 list \<Rightarrow> u8 list \<times> nat" where
  "encode_close cd reason key out =
     (let reason_len = min (length reason) 123;
          payload = be_bytes 2 (unat cd) @ take reason_len reason
      in encode_frame OpClose payload key out)"

section \<open>Decoding\<close>

text \<open>The length field: the 7-bit value, or the 16-bit or 64-bit extension.\<close>

definition decode_len :: "u8 list \<Rightarrow> nat \<Rightarrow> frame_error + (nat \<times> nat)" where
  "decode_len buf short_len =
     (if short_len \<le> 125 then Inr (short_len, 2)
      else if short_len = 126 then
        (if length buf < 4 then Inl (NeedMore (4 - length buf))
         else Inr (from_be [buf ! 2, buf ! 3], 4))
      else
        (if length buf < 10 then Inl (NeedMore (10 - length buf))
         else (let n = from_be [buf ! 2, buf ! 3, buf ! 4, buf ! 5,
                                buf ! 6, buf ! 7, buf ! 8, buf ! 9] in
               if MAX_PAYLOAD < n then Inl (PayloadTooLarge n) else Inr (n, 10))))"

definition decode_frame :: "u8 list \<Rightarrow> frame_error + frame_header" where
  "decode_frame buf =
     (if length buf < 2 then Inl (NeedMore (2 - length buf))
      else
        let b0 = buf ! 0; b1 = buf ! 1;
            fin = (b0 AND 0x80 \<noteq> 0);
            rsv = drop_bit 4 (b0 AND 0x70)
        in if rsv \<noteq> 0 then Inl (ReservedBitSet rsv)
        else case opcode_from_bits b0 of
          None \<Rightarrow> Inl (UnknownOpcode (b0 AND 0x0F))
        | Some opc \<Rightarrow>
            if b1 AND 0x80 \<noteq> 0 then Inl ServerFrameMasked
            else case decode_len buf (unat (b1 AND 0x7F)) of
              Inl e \<Rightarrow> Inl e
            | Inr (payload_len, header_len) \<Rightarrow>
                if is_control opc \<and> \<not> fin then Inl FragmentedControlFrame
                else if is_control opc \<and> 125 < payload_len
                  then Inl (ControlFrameTooLarge payload_len)
                else
                  let total_len = header_len + payload_len in
                  if length buf < total_len then Inl (NeedMore (total_len - length buf))
                  else Inr \<lparr>fh_fin = fin, fh_opcode = opc, fh_payload_len = payload_len,
                            fh_payload_start = header_len, fh_total_len = total_len\<rparr>)"

text \<open>
  The Close payload: the code, and the reason bytes that \<open>from_utf8_lossy\<close> turns into a string.
\<close>

definition char_of_u8 :: "u8 \<Rightarrow> char" where "char_of_u8 b = char_of (unat b)"

definition parse_close_payload :: "u8 list \<Rightarrow> u16 \<times> string" where
  "parse_close_payload payload =
     (if length payload < 2 then (1005, [])
      else (word_of_nat (from_be [payload ! 0, payload ! 1]),
            from_utf8_lossy (map char_of_u8 (drop 2 payload))))"

section \<open>The unmasked RFC layout\<close>

text \<open>What a server sends: the specification side of the round trip.\<close>

definition len_bytes :: "nat \<Rightarrow> u8 list" where
  "len_bytes len =
     (if len < 126 then [word_of_nat len]
      else if len < 65536 then 126 # be_bytes 2 len
      else 127 # be_bytes 8 len)"

definition frame_bytes :: "bool \<Rightarrow> opcode \<Rightarrow> u8 list \<Rightarrow> u8 list" where
  "frame_bytes fin opc payload =
     ((if fin then 0x80 else 0) OR opcode_bits opc) # len_bytes (length payload) @ payload"

definition frame_ok :: "bool \<Rightarrow> opcode \<Rightarrow> u8 list \<Rightarrow> bool" where
  "frame_ok fin opc payload =
     (length payload \<le> MAX_PAYLOAD \<and> (is_control opc \<longrightarrow> fin \<and> length payload \<le> 125))"

text \<open>What a server does with a client frame: drop the mask bit and key, unmask the payload.\<close>

definition ext_len :: "u8 \<Rightarrow> nat" where
  "ext_len b1 = (if b1 AND 0x7F = 126 then 2 else if b1 AND 0x7F = 127 then 8 else 0)"

fun unmask_wire :: "u8 list \<Rightarrow> u8 list" where
  "unmask_wire (b0 # b1 # r) =
     (let n = ext_len b1; k = drop n r in
      b0 # (b1 AND 0x7F) # take n r @ mask_from (k ! 0, k ! 1, k ! 2, k ! 3) 0 (drop 4 k))"
| "unmask_wire r = r"

section \<open>Lemmas\<close>

lemma length_mask_from [simp]: "length (mask_from m i bs) = length bs"
  by (induction bs arbitrary: i) auto

lemma mask_from_involution [simp]: "mask_from m i (mask_from m i bs) = bs"
  by (induction bs arbitrary: i) (auto simp: xor.assoc)

lemma opcode_first_byte:
  "opcode_from_bits ((if fin then 0x80 else 0) OR opcode_bits opc) = Some opc"
  "((if fin then 0x80 else 0) OR opcode_bits opc) AND 0x70 = 0"
  "(((if fin then 0x80 else 0) OR opcode_bits opc) AND 0x80 \<noteq> 0) = fin"
  by (cases fin; cases opc; simp add: opcode_from_bits_def)+

lemma opcode_roundtrip: "opcode_from_bits (opcode_bits opc) = Some opc"
  by (cases opc) (simp_all add: opcode_from_bits_def)

lemma small_len_byte:
  assumes "n < 126"
  shows "(word_of_nat n :: u8) AND 0x80 = 0" "unat ((word_of_nat n :: u8) AND 0x7F) = n"
    "(0x80 OR word_of_nat n :: u8) AND 0x7F = word_of_nat n"
proof -
  let ?w = "word_of_nat n :: u8"
  have w: "unat ?w = n" using assms by (simp add: unat_of_nat)
  have "?w < 2 ^ 7" using assms by (simp add: word_less_nat_alt w)
  then have "?w AND mask 7 = ?w" by (rule less_mask_eq)
  then have m: "?w AND 0x7F = ?w" by (simp add: mask_eq_exp_minus_1)
  have "?w AND 0x80 = (?w AND 0x7F) AND 0x80" by (simp only: m)
  also have "\<dots> = 0" by (simp add: and.assoc)
  finally show "?w AND 0x80 = 0" .
  show "unat (?w AND 0x7F) = n" using m w by simp
  have "(0x80 OR ?w) AND 0x7F = (0x80 AND 0x7F) OR (?w AND 0x7F)"
    by (rule bit.conj_disj_distrib2)
  then show "(0x80 OR ?w) AND 0x7F = ?w" by (simp add: m)
qed

lemma ext_len_word:
  "ext_len (0x80 OR 126) = 2" "ext_len (0x80 OR 127) = 8"
  "n < 126 \<Longrightarrow> ext_len (0x80 OR word_of_nat n) = 0"
proof -
  show "ext_len (0x80 OR 126) = 2" "ext_len (0x80 OR 127) = 8" by (simp_all add: ext_len_def)
  assume n: "n < 126"
  then have u: "unat (word_of_nat n :: u8) = n" by (simp add: unat_of_nat)
  have "(word_of_nat n :: u8) \<noteq> 126" "(word_of_nat n :: u8) \<noteq> 127"
    using n u by auto
  then show "ext_len (0x80 OR word_of_nat n) = 0"
    using small_len_byte(3) [OF n] by (simp add: ext_len_def)
qed

lemma from_be_explicit:
  "length bs = 8 \<Longrightarrow> from_be [bs ! 0, bs ! 1, bs ! 2, bs ! 3, bs ! 4, bs ! 5, bs ! 6, bs ! 7] = from_be bs"
  "length cs = 2 \<Longrightarrow> from_be [cs ! 0, cs ! 1] = from_be cs"
  by (auto simp: numeral_eq_Suc length_Suc_conv)


lemma decode_len_bytes:
  fixes b0 :: u8 and t :: "u8 list"
  assumes "n \<le> MAX_PAYLOAD"
  defines "buf \<equiv> b0 # len_bytes n @ t"
  shows "decode_len buf (unat (buf ! 1 AND 0x7F)) = Inr (n, Suc (length (len_bytes n)))"
    "buf ! 1 AND 0x80 = 0"
proof -
  have "decode_len buf (unat (buf ! 1 AND 0x7F)) = Inr (n, Suc (length (len_bytes n)))
        \<and> buf ! 1 AND 0x80 = 0"
  proof (cases "n < 126")
    case True
    then show ?thesis
      using small_len_byte [OF True] by (simp add: buf_def len_bytes_def decode_len_def)
  next
    case big: False
    show ?thesis
    proof (cases "n < 65536")
      case True
      have "from_be [be_bytes 2 n ! 0, be_bytes 2 n ! 1] = n"
        using True from_be_explicit(2) [of "be_bytes 2 n"] from_be_be_bytes [of 2 n] by simp
      then show ?thesis using big True
        by (simp add: buf_def len_bytes_def decode_len_def nth_append)
    next
      case False
      have "n < 256 ^ 8" using assms(1) by (simp add: MAX_PAYLOAD_def)
      then have "from_be (map ((!) (be_bytes 8 n)) [0, 1, 2, 3, 4, 5, 6, 7]) = n"
        using from_be_explicit(1) [of "be_bytes 8 n"] from_be_be_bytes [of 8 n] by simp
      then show ?thesis using big False assms(1)
        by (simp add: buf_def len_bytes_def decode_len_def nth_append)
    qed
  qed
  then show "decode_len buf (unat (buf ! 1 AND 0x7F)) = Inr (n, Suc (length (len_bytes n)))"
    "buf ! 1 AND 0x80 = 0" by simp_all
qed

lemma len_bytes_nonempty: "1 \<le> length (len_bytes n)"
  by (simp add: len_bytes_def)

lemma decode_frame_bytes_eq:
  assumes "frame_ok fin opc p"
  defines "hl \<equiv> Suc (length (len_bytes (length p)))"
  shows "decode_frame (frame_bytes fin opc p @ rest) =
           Inr \<lparr>fh_fin = fin, fh_opcode = opc, fh_payload_len = length p,
                fh_payload_start = hl, fh_total_len = hl + length p\<rparr>"
proof -
  define b0 where "b0 = ((if fin then 0x80 else 0) OR opcode_bits opc :: u8)"
  define buf where "buf = b0 # len_bytes (length p) @ (p @ rest)"
  have buf: "frame_bytes fin opc p @ rest = buf" by (simp add: buf_def b0_def frame_bytes_def)
  have n: "length p \<le> MAX_PAYLOAD" using assms(1) by (simp add: frame_ok_def)
  note dl = decode_len_bytes [OF n, of b0 "p @ rest", folded buf_def]
  have b0: "buf ! 0 = b0" by (simp add: buf_def)
  have len: "length buf = hl + length p + length rest" by (simp add: buf_def hl_def)
  have f: "opcode_from_bits b0 = Some opc" "b0 AND 0x70 = 0" "(b0 AND 0x80 \<noteq> 0) = fin"
    unfolding b0_def by (rule opcode_first_byte)+
  have hl: "2 \<le> hl" using len_bytes_nonempty [of "length p"] by (simp add: hl_def)
  have c: "\<not> (is_control opc \<and> \<not> fin)" "\<not> (is_control opc \<and> 125 < length p)"
    using assms(1) by (auto simp: frame_ok_def)
  have "\<not> length buf < 2" "\<not> length buf < hl + length p" using len hl by simp_all
  then show ?thesis
    unfolding buf decode_frame_def Let_def
    using dl f c b0 by (simp add: hl_def [symmetric])
qed

lemma frame_bytes_payload:
  "take (length p) (drop (Suc (length (len_bytes (length p)))) (frame_bytes fin opc p @ rest)) = p"
  by (simp add: frame_bytes_def)

lemma encode_frame_append:
  "fst (encode_frame opc p key out) = out @ fst (encode_frame opc p key [])"
  "snd (encode_frame opc p key out) = length (fst (encode_frame opc p key []))"
  by (simp_all add: encode_frame_def Let_def)

lemma unmask_encode_frame:
  "unmask_wire (fst (encode_frame opc p key [])) = frame_bytes True opc p"
proof -
  obtain a b c d where key: "key = (a, b, c, d)" by (cases key)
  consider "length p < 126" | "\<not> length p < 126" "length p < 65536" | "\<not> length p < 65536"
    by linarith
  then show ?thesis
  proof cases
    case 1
    then show ?thesis using small_len_byte(3) [OF 1] ext_len_word(3) [OF 1]
      by (simp add: encode_frame_def frame_bytes_def len_bytes_def Let_def key)
  next
    case 2
    then show ?thesis
      by (simp add: encode_frame_def frame_bytes_def len_bytes_def Let_def key ext_len_def nth_append)
  next
    case 3
    then show ?thesis
      by (simp add: encode_frame_def frame_bytes_def len_bytes_def Let_def key ext_len_def nth_append)
  qed
qed


section \<open>Partial input\<close>

lemma decode_len_stable:
  assumes "\<forall>k. decode_len buf s \<noteq> Inl (NeedMore k)"
  shows "decode_len (buf @ x) s = decode_len buf s"
proof -
  consider "s \<le> 125" | "s = 126" "4 \<le> length buf" | "\<not> s \<le> 126" "10 \<le> length buf"
    using assms by (cases "length buf < 4"; cases "length buf < 10"; cases "s \<le> 125"; cases "s = 126")
      (auto simp: decode_len_def)
  then show ?thesis by cases (simp_all add: decode_len_def nth_append)
qed

lemma decode_len_need_more:
  assumes "decode_len buf s = Inl (NeedMore k)"
  shows "0 < k" "length x < k \<Longrightarrow> \<exists>j. decode_len (buf @ x) s = Inl (NeedMore j)"
  using assms by (auto simp: decode_len_def Let_def split: if_splits)

lemma decode_frame_need_moreD:
  assumes d: "decode_frame buf = Inl (NeedMore k)"
  shows "0 < k \<and> (length x < k \<longrightarrow> (\<exists>j. decode_frame (buf @ x) = Inl (NeedMore j)))"
proof (cases "length buf < 2")
  case True
  then show ?thesis using d by (auto simp: decode_frame_def)
next
  case False
  let ?b0 = "buf ! 0" and ?s = "unat (buf ! 1 AND 0x7F)"
  have nth: "(buf @ x) ! 0 = ?b0" "(buf @ x) ! 1 = buf ! 1" using False by (auto simp: nth_append)
  have len2: "\<not> length (buf @ x) < 2" using False by simp
  from d False have rsv: "drop_bit 4 (?b0 AND 0x70) = 0"
    by (auto simp: decode_frame_def Let_def split: if_splits)
  from d False rsv obtain opc where opc: "opcode_from_bits ?b0 = Some opc"
    by (auto simp: decode_frame_def Let_def split: option.splits)
  from d False rsv opc have m: "buf ! 1 AND 0x80 = 0"
    by (auto simp: decode_frame_def Let_def split: if_splits)
  show ?thesis
  proof (cases "decode_len buf ?s")
    case (Inl e)
    then have e: "e = NeedMore k" using d False rsv opc m by (simp add: decode_frame_def Let_def)
    have "\<exists>j. decode_frame (buf @ x) = Inl (NeedMore j)" if "length x < k"
      using decode_len_need_more(2) [OF Inl [unfolded e] that] rsv opc m nth len2
      by (auto simp: decode_frame_def Let_def)
    then show ?thesis using decode_len_need_more(1) [OF Inl [unfolded e]] by blast
  next
    case (Inr pr)
    obtain pl hl where pr: "pr = (pl, hl)" by (cases pr)
    have st: "decode_len (buf @ x) ?s = Inr (pl, hl)"
      using decode_len_stable [of buf ?s x] Inr pr by simp
    from d False rsv opc m Inr pr have c: "\<not> (is_control opc \<and> ?b0 AND 0x80 = 0)"
      "\<not> (is_control opc \<and> 125 < pl)" and k: "length buf < hl + pl" "k = hl + pl - length buf"
      by (auto simp: decode_frame_def Let_def split: if_splits)
    show ?thesis using rsv opc m nth len2 st c k by (auto simp: decode_frame_def Let_def)
  qed
qed

lemma decode_frame_stable_aux:
  assumes "\<And>k. decode_frame buf \<noteq> Inl (NeedMore k)"
  shows "decode_frame (buf @ x) = decode_frame buf"
proof -
  have len: "\<not> length buf < 2"
    using assms [of "2 - length buf"] by (auto simp: decode_frame_def)
  have nth: "(buf @ x) ! 0 = buf ! 0" "(buf @ x) ! 1 = buf ! 1"
    using len by (auto simp: nth_append)
  have nm: "decode_len buf (unat (buf ! 1 AND 0x7F)) \<noteq> Inl (NeedMore k)"
    if "drop_bit 4 (buf ! 0 AND 0x70) = 0" "opcode_from_bits (buf ! 0) = Some opc"
      "buf ! 1 AND 0x80 = 0" for k opc
    using assms [of k] len that by (auto simp: decode_frame_def Let_def)
  show ?thesis
  proof (cases "drop_bit 4 (buf ! 0 AND 0x70) = 0 \<and> opcode_from_bits (buf ! 0) \<noteq> None
                 \<and> buf ! 1 AND 0x80 = 0")
    case False
    then show ?thesis using len nth
      by (auto simp: decode_frame_def Let_def split: option.splits)
  next
    case True
    then obtain opc where opc: "opcode_from_bits (buf ! 0) = Some opc" by auto
    have st: "decode_len (buf @ x) (unat (buf ! 1 AND 0x7F)) = decode_len buf (unat (buf ! 1 AND 0x7F))"
      using decode_len_stable nm True opc by blast
    show ?thesis
    proof (cases "decode_len buf (unat (buf ! 1 AND 0x7F))")
      case (Inl e)
      then show ?thesis using len nth st True opc by (simp add: decode_frame_def Let_def)
    next
      case (Inr pr)
      obtain pl hl where pr: "pr = (pl, hl)" by (cases pr)
      have "\<not> length buf < hl + pl \<or> is_control opc \<and> (buf ! 0 AND 0x80 = 0 \<or> 125 < pl)"
        using assms [of "hl + pl - length buf"] len True opc Inr pr
        by (auto simp: decode_frame_def Let_def split: if_splits)
      then show ?thesis using len nth st True opc Inr pr
        by (auto simp: decode_frame_def Let_def)
    qed
  qed
qed

lemma unat_lt_256: "unat (b :: u8) < 256"
  using unsigned_less [of b] by simp

lemma from_be_two: "from_be [a, b] \<le> 65535"
proof -
  have "unat a \<le> 255" "unat b \<le> 255" using unat_lt_256 [of a] unat_lt_256 [of b] by simp_all
  then show ?thesis by (simp add: from_be_def)
qed

lemma decode_len_bounds:
  "decode_len buf s = Inr (pl, hl) \<Longrightarrow> 2 \<le> hl \<and> hl \<le> 10 \<and> (hl = 2 \<or> hl \<le> length buf) \<and> pl \<le> MAX_PAYLOAD"
  using from_be_two [of "buf ! 2" "buf ! 3"]
  by (auto simp: decode_len_def Let_def MAX_PAYLOAD_def split: if_splits)

lemma decode_frame_InrD:
  assumes "decode_frame buf = Inr h"
  shows "opcode_from_bits (buf ! 0) = Some (fh_opcode h)"
    "fh_payload_start h + fh_payload_len h = fh_total_len h"
    "fh_total_len h \<le> length buf" "2 \<le> fh_payload_start h" "fh_payload_start h \<le> 10"
    "fh_payload_len h \<le> MAX_PAYLOAD"
    "is_control (fh_opcode h) \<Longrightarrow> fh_fin h \<and> fh_payload_len h \<le> 125"
  using assms
  by (auto simp: decode_frame_def Let_def dest: decode_len_bounds
      split: if_splits option.splits sum.splits prod.splits)


section \<open>Properties\<close>



text \<open>
  Decoding is monotone in the input: a verdict other than \<open>NeedMore\<close> (a frame or
  a protocol error) never changes when more bytes arrive, and \<open>NeedMore k\<close> is a positive lower
  bound: with fewer than k further bytes the answer is still \<open>NeedMore\<close>.
\<close>

lemma decode_frame_incremental:
  "case decode_frame buf of
     Inl (NeedMore k) \<Rightarrow> 0 < k \<and> (length x < k \<longrightarrow> (\<exists>j. decode_frame (buf @ x) = Inl (NeedMore j)))
   | v \<Rightarrow> decode_frame (buf @ x) = v"
proof (cases "\<exists>k. decode_frame buf = Inl (NeedMore k)")
  case True
  then show ?thesis using decode_frame_need_moreD by auto
next
  case False
  then have "decode_frame (buf @ x) = decode_frame buf" using decode_frame_stable_aux by blast
  then show ?thesis using False by (auto split: sum.split frame_error.split)
qed

text \<open>
  A frame the decoder accepts lies inside the buffer: header and payload make up the
  total length, which the buffer covers; the payload respects the 64 MiB cap; and a control frame
  is final and at most 125 bytes long.
\<close>

lemma decode_frame_bounds:
  assumes "decode_frame buf = Inr h"
  shows "fh_payload_start h + fh_payload_len h = fh_total_len h \<and> fh_total_len h \<le> length buf
    \<and> 2 \<le> fh_payload_start h \<and> fh_payload_len h \<le> MAX_PAYLOAD
    \<and> (is_control (fh_opcode h) \<longrightarrow> fh_fin h \<and> fh_payload_len h \<le> 125)"
  using decode_frame_InrD [OF assms] by simp

text \<open>
  A Close frame survives the round trip: whatever the reason, the encoder's frame is
  within the control-frame limit, and parsing the payload the peer sees gives back the code and
  the first 123 bytes of the reason.
\<close>

lemma encode_close_roundtrip:
  "let wire = unmask_wire (fst (encode_close cd reason key [])) in
   \<exists>h. decode_frame wire = Inr h \<and> fh_opcode h = OpClose \<and> fh_payload_len h \<le> 125
    \<and> parse_close_payload (take (fh_payload_len h) (drop (fh_payload_start h) wire))
       = (cd, from_utf8_lossy (map char_of_u8 (take 123 reason)))"
proof -
  let ?p = "be_bytes 2 (unat cd) @ take (min (length reason) 123) reason"
  have ok: "frame_ok True OpClose ?p" by (simp add: frame_ok_def MAX_PAYLOAD_def)
  have w: "unmask_wire (fst (encode_close cd reason key [])) = frame_bytes True OpClose ?p"
    by (simp add: encode_close_def Let_def unmask_encode_frame del: be_bytes.simps)
  have "unat cd < 65536" using unsigned_less [of cd] by simp
  then have "from_be [be_bytes 2 (unat cd) ! 0, be_bytes 2 (unat cd) ! 1] = unat cd"
    using from_be_explicit(2) [of "be_bytes 2 (unat cd)"] from_be_be_bytes [of 2 "unat cd"] by simp
  then have "parse_close_payload ?p = (cd, from_utf8_lossy (map char_of_u8 (take 123 reason)))"
    by (simp add: parse_close_payload_def nth_append min_def)
  then show ?thesis
    using decode_frame_bytes_eq [OF ok, of "[]"] frame_bytes_payload [of ?p True OpClose "[]"]
    unfolding Let_def w by (simp add: frame_bytes_def)
qed

end
