(* ===== verification/WsHandshake.thy ===== *)
theory WsHandshake
  imports Transport
begin

text \<open>
  The RFC 6455 opening handshake of \<open>zerobench-backends/src/ws/handshake.rs\<close>: the Upgrade request
  builder, the validation of the server's response in the code's order of checks, and the search
  for the end of the header block. SHA-1, Base64 and the random nonce come from other packages and
  are arguments; a parsed header (httparse) is a pair of name and value bytes.
\<close>

definition WS_GUID :: string where "WS_GUID = ''258EAFA5-E914-47DA-95CA-C5AB0DC85B11''"

datatype handshake_error =
    NotSwitching nat
  | MissingHeader string
  | AcceptMismatch
  | UnparseableResponse string
  | HeadersTooBig

type_synonym header = "string \<times> bytes"

definition generate_key :: "(bytes \<Rightarrow> string) \<Rightarrow> bytes \<Rightarrow> string \<times> bytes" where
  "generate_key b64 key_bytes = (b64 key_bytes, key_bytes)"

definition compute_accept :: "(bytes \<Rightarrow> string) \<Rightarrow> (bytes \<Rightarrow> bytes) \<Rightarrow> string \<Rightarrow> string" where
  "compute_accept b64 sha1 key_b64 = b64 (sha1 (key_b64 @ WS_GUID))"

definition build_request :: "target \<Rightarrow> string \<Rightarrow> string \<Rightarrow> (string \<times> string) list \<Rightarrow> bytes" where
  "build_request t path key_b64 extra_headers =
     ''GET '' @ path @ '' HTTP/1.1'' @ CRLF @
     ''Host: '' @ target_addr t @ CRLF @
     ''Upgrade: websocket'' @ CRLF @ ''Connection: Upgrade'' @ CRLF @
     ''Sec-WebSocket-Key: '' @ key_b64 @ CRLF @ ''Sec-WebSocket-Version: 13'' @ CRLF @
     concat (map (\<lambda>(name, value). name @ '': '' @ value @ CRLF) extra_headers) @
     CRLF"

definition utf8_or_empty :: "bytes \<Rightarrow> string" where
  "utf8_or_empty v = (if valid_utf8 v then v else [])"

definition has_token :: "string \<Rightarrow> string \<Rightarrow> bool" where
  "has_token tok v = (\<exists>p \<in> set (split_on (CHR '','') v). eq_icase (trim p) tok)"

record hs_scan =
  hs_upgrade :: bool
  hs_connection :: bool
  hs_accept :: "bytes option"

text \<open>One iteration of the header loop: the three name tests exclude each other in order.\<close>

definition scan_header :: "hs_scan \<Rightarrow> header \<Rightarrow> hs_scan" where
  "scan_header st h =
     (case h of (name, value) \<Rightarrow>
       if eq_icase name ''upgrade'' then
         (if has_token ''websocket'' (utf8_or_empty value) then st\<lparr>hs_upgrade := True\<rparr> else st)
       else if eq_icase name ''connection'' then
         (if has_token ''upgrade'' (utf8_or_empty value) then st\<lparr>hs_connection := True\<rparr> else st)
       else if eq_icase name ''sec-websocket-accept'' then st\<lparr>hs_accept := Some value\<rparr>
       else st)"

definition validate_response ::
  "(bytes \<Rightarrow> string) \<Rightarrow> (bytes \<Rightarrow> bytes) \<Rightarrow> nat \<Rightarrow> header list \<Rightarrow> string \<Rightarrow> handshake_error option" where
  "validate_response b64 sha1 status headers sent_key_b64 =
     (if status \<noteq> 101 then Some (NotSwitching status)
      else
        let expected_accept = compute_accept b64 sha1 sent_key_b64;
            st = foldl scan_header \<lparr>hs_upgrade = False, hs_connection = False, hs_accept = None\<rparr> headers
        in if \<not> hs_upgrade st then Some (MissingHeader ''Upgrade'')
        else if \<not> hs_connection st then Some (MissingHeader ''Connection'')
        else (case hs_accept st of
            None \<Rightarrow> Some (MissingHeader ''Sec-WebSocket-Accept'')
          | Some v \<Rightarrow> (if trim (utf8_or_empty v) \<noteq> expected_accept then Some AcceptMismatch else None)))"

definition find_headers_end :: "bytes \<Rightarrow> nat option" where
  "find_headers_end buf =
     (if length buf < 4 then None
      else map_option (\<lambda>p. p + 4) (find_sub (CRLF @ CRLF) buf))"

section \<open>Lemmas\<close>

definition named :: "string \<Rightarrow> header list \<Rightarrow> bytes list" where
  "named n hs = map snd (filter (\<lambda>(name, _). eq_icase name n) hs)"

lemma eq_icase_trans: "eq_icase a b \<Longrightarrow> eq_icase a c \<Longrightarrow> eq_icase b c"
  by (simp add: eq_icase_def)

lemma header_names_distinct:
  "\<not> eq_icase ''upgrade'' ''connection''" "\<not> eq_icase ''upgrade'' ''sec-websocket-accept''"
  "\<not> eq_icase ''connection'' ''sec-websocket-accept''"
  by (simp_all add: eq_icase_def)

lemma named_Nil: "named n [] = []"
  by (simp add: named_def)

lemma named_Cons: "named n (h # hs) = (if eq_icase (fst h) n then [snd h] else []) @ named n hs"
  by (simp add: named_def split_beta)

lemma scan_headers:
  "foldl scan_header st hs =
     \<lparr>hs_upgrade = (hs_upgrade st \<or> (\<exists>v \<in> set (named ''upgrade'' hs). has_token ''websocket'' (utf8_or_empty v))),
      hs_connection = (hs_connection st \<or> (\<exists>v \<in> set (named ''connection'' hs). has_token ''upgrade'' (utf8_or_empty v))),
      hs_accept = (if named ''sec-websocket-accept'' hs = [] then hs_accept st
                   else Some (last (named ''sec-websocket-accept'' hs)))\<rparr>"
proof (induction hs arbitrary: st)
  case Nil
  then show ?case by (simp add: named_def)
next
  case (Cons h hs)
  obtain n v where h: "h = (n, v)" by (cases h)
  note distinct = eq_icase_trans header_names_distinct
  consider "eq_icase n ''upgrade''" | "eq_icase n ''connection''" | "eq_icase n ''sec-websocket-accept''"
    | "\<not> eq_icase n ''upgrade''" "\<not> eq_icase n ''connection''" "\<not> eq_icase n ''sec-websocket-accept''"
    by blast
  then show ?case
  proof cases
    case 1
    then have "\<not> eq_icase n ''connection''" "\<not> eq_icase n ''sec-websocket-accept''"
      using distinct by blast+
    moreover have "scan_header st h =
        (if has_token ''websocket'' (utf8_or_empty v) then st\<lparr>hs_upgrade := True\<rparr> else st)"
      using 1 by (simp add: h scan_header_def)
    ultimately show ?thesis using 1 by (simp add: Cons h named_Cons)
  next
    case 2
    then have *: "\<not> eq_icase n ''upgrade''" "\<not> eq_icase n ''sec-websocket-accept''"
      using distinct by blast+
    moreover have "scan_header st h =
        (if has_token ''upgrade'' (utf8_or_empty v) then st\<lparr>hs_connection := True\<rparr> else st)"
      using 2 * by (simp add: h scan_header_def)
    ultimately show ?thesis using 2 by (simp add: Cons h named_Cons)
  next
    case 3
    then have *: "\<not> eq_icase n ''upgrade''" "\<not> eq_icase n ''connection''"
      using distinct by blast+
    moreover have "scan_header st h = st\<lparr>hs_accept := Some v\<rparr>"
      using 3 * by (simp add: h scan_header_def)
    ultimately show ?thesis using 3 by (simp add: Cons h named_Cons)
  next
    case 4
    moreover have "scan_header st h = st" using 4 by (simp add: h scan_header_def)
    ultimately show ?thesis by (simp add: Cons h named_Cons)
  qed
qed

section \<open>Properties\<close>

text \<open>
  The response check accepts exactly the conforming upgrades: status 101, some
  \<open>Upgrade\<close> header with token \<open>websocket\<close>, some \<open>Connection\<close> header with token \<open>upgrade\<close>
  (names and tokens up to ASCII case), and a last \<open>Sec-WebSocket-Accept\<close> header whose trimmed
  value is the Base64 of the SHA-1 of the key sent and the GUID.
\<close>

lemma validate_response_iff:
  "validate_response b64 sha1 status hs key = None \<longleftrightarrow>
     status = 101
     \<and> (\<exists>v \<in> set (named ''upgrade'' hs). has_token ''websocket'' (utf8_or_empty v))
     \<and> (\<exists>v \<in> set (named ''connection'' hs). has_token ''upgrade'' (utf8_or_empty v))
     \<and> named ''sec-websocket-accept'' hs \<noteq> []
     \<and> trim (utf8_or_empty (last (named ''sec-websocket-accept'' hs))) = b64 (sha1 (key @ WS_GUID))"
  by (auto simp: validate_response_def scan_headers compute_accept_def Let_def)

text \<open>
  The upgrade request is exactly one header block: when path, key and the user's
  headers hold no carriage return (the host neither), the first blank line of the bytes sent is
  their end, so nothing the builder writes can be read as a body or as a second request.
\<close>

lemma build_request_single_head:
  assumes "CR \<notin> set path" "CR \<notin> set (tg_host t)" "CR \<notin> set key"
    and "\<forall>(n, v) \<in> set hdrs. CR \<notin> set n \<and> CR \<notin> set v"
  shows "find_headers_end (build_request t path key hdrs) = Some (length (build_request t path key hdrs))"
proof -
  let ?ls = "[''GET '' @ path @ '' HTTP/1.1'', ''Host: '' @ target_addr t, ''Upgrade: websocket'',
      ''Connection: Upgrade'', ''Sec-WebSocket-Key: '' @ key, ''Sec-WebSocket-Version: 13'']
      @ map (\<lambda>(n, v). n @ '': '' @ v) hdrs"
  have eq: "build_request t path key hdrs = http_head ?ls"
    by (simp add: build_request_def http_head_def split_def o_def)
  have "CR \<notin> set (dec n)" for n
    using dec_digits [of n] by (auto simp: is_digit_def code_def)
  then have "CR \<notin> set (target_addr t)" using assms(2) by (simp add: target_addr_def)
  then have "\<forall>l \<in> set ?ls. head_line l" using assms(1,3,4) by (auto simp: head_line_def)
  then have "find_sub (CRLF @ CRLF) (http_head ?ls @ []) = Some (length (http_head ?ls) - 4)"
    by (intro find_blank_line) simp_all
  moreover have "4 \<le> length (http_head ?ls)" by (simp add: http_head_def CRLF_def)
  ultimately show ?thesis unfolding eq find_headers_end_def by simp
qed

end
