(* ===== verification/WsConn.thy ===== *)
theory WsConn
  imports WsFrame WsHandshake
begin

text \<open>
  The WebSocket connection of \<open>zerobench-backends/src/ws/conn.rs\<close>: the upgrade exchange, the
  masked senders, the frame dispatcher with fragment reassembly, automatic Pong and Close replies,
  and the blocking and timed receivers. The socket is the script of what it answers: the results
  of successive reads and writes, and of successive clock readings; a call that uses up its script
  has not returned (\<open>Blocked\<close>). The mask generator is the sequence of masks it draws.
\<close>

section \<open>Sockets and results\<close>

datatype io_kind = IoWriteZero | IoUnexpectedEof | IoOther nat

datatype ws_error =
    WsHandshake handshake_error
  | WsFrame frame_error
  | WsClosed u16 string
  | WsIo io_kind
  | WsTls string

datatype 'a io = Done 'a | Fail ws_error | Panic | Blocked

datatype read_event = RData "u8 list" | RWouldBlock | RErr nat

datatype write_event = WOk nat | WWouldBlock | WErr nat

datatype data_frame = DText "u8 list" | DBinary "u8 list" | DPong "u8 list"

fun df_bytes :: "data_frame \<Rightarrow> u8 list" where
  "df_bytes (DText b) = b"
| "df_bytes (DBinary b) = b"
| "df_bytes (DPong b) = b"

record ws_conn =
  cn_reads :: "read_event list"
  cn_writes :: "write_event list"
  cn_clock :: "instant list"
  cn_sent :: "u8 list"
  cn_recv_buf :: "u8 list"
  cn_masks :: "nat \<Rightarrow> mask4"
  cn_drawn :: nat
  cn_fragment :: "(opcode \<times> u8 list) option"
  cn_close_sent :: bool

definition generate_mask :: "ws_conn \<Rightarrow> mask4 \<times> ws_conn" where
  "generate_mask c = (cn_masks c (cn_drawn c), c\<lparr>cn_drawn := Suc (cn_drawn c)\<rparr>)"

section \<open>Socket loops\<close>

text \<open>\<open>write_all_mio\<close>: the rest of the data, and what the peer has been sent so far.\<close>

fun write_all_mio ::
  "write_event list \<Rightarrow> u8 list \<Rightarrow> u8 list \<Rightarrow> write_event list \<times> u8 list \<times> unit io" where
  "write_all_mio ws [] sent = (ws, sent, Done ())"
| "write_all_mio [] data sent = ([], sent, Blocked)"
| "write_all_mio (WOk n # ws) data sent =
     (if n = 0 then (ws, sent, Fail (WsIo IoWriteZero))
      else write_all_mio ws (drop n data) (sent @ take n data))"
| "write_all_mio (WWouldBlock # ws) data sent = write_all_mio ws data sent"
| "write_all_mio (WErr k # ws) data sent = (ws, sent, Fail (WsIo (IoOther k)))"

definition conn_write :: "u8 list \<Rightarrow> ws_conn \<Rightarrow> ws_conn \<times> unit io" where
  "conn_write data c =
     (case write_all_mio (cn_writes c) data (cn_sent c) of
        (ws, sent, r) \<Rightarrow> (c\<lparr>cn_writes := ws, cn_sent := sent\<rparr>, r))"

text \<open>\<open>read_some_bytes_into\<close>: one non-empty read, waiting out \<open>WouldBlock\<close>.\<close>

fun read_some_bytes_into :: "read_event list \<Rightarrow> u8 list \<Rightarrow> read_event list \<times> u8 list \<times> unit io" where
  "read_some_bytes_into [] buf = ([], buf, Blocked)"
| "read_some_bytes_into (RData d # rs) buf =
     (if d = [] then (rs, buf, Fail (WsIo IoUnexpectedEof)) else (rs, buf @ d, Done ()))"
| "read_some_bytes_into (RWouldBlock # rs) buf = read_some_bytes_into rs buf"
| "read_some_bytes_into (RErr k # rs) buf = (rs, buf, Fail (WsIo (IoOther k)))"

text \<open>\<open>read_some_mio\<close>, used for the handshake, differs in the error of an early end of file.\<close>

fun read_some_mio :: "read_event list \<Rightarrow> u8 list \<Rightarrow> read_event list \<times> u8 list \<times> unit io" where
  "read_some_mio [] buf = ([], buf, Blocked)"
| "read_some_mio (RData d # rs) buf =
     (if d = [] then (rs, buf, Fail (WsHandshake (UnparseableResponse
          ''server closed before sending handshake response'')))
      else (rs, buf @ d, Done ()))"
| "read_some_mio (RWouldBlock # rs) buf = read_some_mio rs buf"
| "read_some_mio (RErr k # rs) buf = (rs, buf, Fail (WsIo (IoOther k)))"

text \<open>\<open>read_some_timed\<close>: the clock is read once per \<open>WouldBlock\<close>.\<close>

fun read_some_timed ::
  "instant \<Rightarrow> read_event list \<Rightarrow> instant list \<Rightarrow> u8 list
     \<Rightarrow> read_event list \<times> instant list \<times> u8 list \<times> bool io" where
  "read_some_timed deadline [] ts buf = ([], ts, buf, Blocked)"
| "read_some_timed deadline (RData d # rs) ts buf =
     (if d = [] then (rs, ts, buf, Fail (WsIo IoUnexpectedEof)) else (rs, ts, buf @ d, Done True))"
| "read_some_timed deadline (RWouldBlock # rs) [] buf = (rs, [], buf, Blocked)"
| "read_some_timed deadline (RWouldBlock # rs) (now # ts) buf =
     (if deadline \<le> now then (rs, ts, buf, Done False) else read_some_timed deadline rs ts buf)"
| "read_some_timed deadline (RErr k # rs) ts buf = (rs, ts, buf, Fail (WsIo (IoOther k)))"

lemma read_some_bytes_into_shrinks:
  "read_some_bytes_into rs buf = (rs', buf', Done u) \<Longrightarrow>
     length rs' < length rs \<and> length buf' + length rs' + sum_list (map size rs') \<le> length buf' + length rs + sum_list (map size rs)"
  by (induction rs buf rule: read_some_bytes_into.induct) (auto split: if_splits)

text \<open>\<open>fill_recv_buf\<close>: read until at least \<open>max min_new 1\<close> new bytes are there.\<close>

function fill_from ::
  "nat \<Rightarrow> nat \<Rightarrow> read_event list \<Rightarrow> u8 list \<Rightarrow> read_event list \<times> u8 list \<times> unit io" where
  "fill_from before min_new rs buf =
     (if length buf - before < max min_new 1 then
        (case read_some_bytes_into rs buf of
           (rs', buf', Done _) \<Rightarrow> fill_from before min_new rs' buf'
         | (rs', buf', Fail e) \<Rightarrow> (rs', buf', Fail e)
         | (rs', buf', Panic) \<Rightarrow> (rs', buf', Panic)
         | (rs', buf', Blocked) \<Rightarrow> (rs', buf', Blocked))
      else (rs, buf, Done ()))"
  by pat_completeness auto
termination
  by (relation "measure (\<lambda>(_, _, rs, _). length rs)")
     (auto dest: read_some_bytes_into_shrinks [OF sym])

declare fill_from.simps [simp del]

definition fill_recv_buf :: "nat \<Rightarrow> ws_conn \<Rightarrow> ws_conn \<times> unit io" where
  "fill_recv_buf min_new c =
     (case fill_from (length (cn_recv_buf c)) min_new (cn_reads c) (cn_recv_buf c) of
        (rs, buf, r) \<Rightarrow> (c\<lparr>cn_reads := rs, cn_recv_buf := buf\<rparr>, r))"

section \<open>Sending\<close>

definition send_frame :: "opcode \<Rightarrow> u8 list \<Rightarrow> ws_conn \<Rightarrow> ws_conn \<times> unit io" where
  "send_frame opc payload c =
     (case generate_mask c of (m, c1) \<Rightarrow> conn_write (fst (encode_frame opc payload m [])) c1)"

definition send_text :: "u8 list \<Rightarrow> ws_conn \<Rightarrow> ws_conn \<times> unit io" where
  "send_text payload c = send_frame OpText payload c"

definition send_binary :: "u8 list \<Rightarrow> ws_conn \<Rightarrow> ws_conn \<times> unit io" where
  "send_binary payload c = send_frame OpBinary payload c"

definition send_pong :: "u8 list \<Rightarrow> ws_conn \<Rightarrow> ws_conn \<times> unit io" where
  "send_pong payload c =
     (if 125 < length payload then (c, Fail (WsFrame (ControlFrameTooLarge (length payload))))
      else send_frame OpPong payload c)"

definition send_ping :: "u8 list \<Rightarrow> ws_conn \<Rightarrow> ws_conn \<times> unit io" where
  "send_ping payload c =
     (if 125 < length payload then (c, Fail (WsFrame (ControlFrameTooLarge (length payload))))
      else send_frame OpPing payload c)"

definition ws_close :: "u16 \<Rightarrow> u8 list \<Rightarrow> ws_conn \<Rightarrow> ws_conn \<times> unit io" where
  "ws_close cd reason c =
     (if cn_close_sent c then (c, Done ())
      else (case generate_mask c of
        (m, c1) \<Rightarrow> conn_write (fst (encode_close cd reason m [])) (c1\<lparr>cn_close_sent := True\<rparr>)))"

section \<open>Receiving\<close>

text \<open>The message of a finished fragment; the opcodes outside Text and Binary are \<open>unreachable!\<close>.\<close>

fun data_of :: "opcode \<Rightarrow> u8 list \<Rightarrow> data_frame option io" where
  "data_of OpText b = Done (Some (DText b))"
| "data_of OpBinary b = Done (Some (DBinary b))"
| "data_of _ b = Panic"

definition handle_frame :: "frame_header \<Rightarrow> u8 list \<Rightarrow> ws_conn \<Rightarrow> ws_conn \<times> data_frame option io" where
  "handle_frame hdr frame c =
     (let payload = take (fh_payload_len hdr) (drop (fh_payload_start hdr) frame) in
      case fh_opcode hdr of
        OpContinuation \<Rightarrow>
          (case cn_fragment c of
             None \<Rightarrow> (c, Fail (WsFrame (ProtocolOther
               ''continuation frame without preceding text/binary'')))
           | Some (opc, buf) \<Rightarrow>
               (if fh_fin hdr then (c\<lparr>cn_fragment := None\<rparr>, data_of opc (buf @ payload))
                else (c\<lparr>cn_fragment := Some (opc, buf @ payload)\<rparr>, Done None)))
      | OpPing \<Rightarrow>
          (case send_pong payload c of
             (c', Done _) \<Rightarrow> (c', Done None)
           | (c', Fail e) \<Rightarrow> (c', Fail e)
           | (c', Panic) \<Rightarrow> (c', Panic)
           | (c', Blocked) \<Rightarrow> (c', Blocked))
      | OpPong \<Rightarrow> (c, Done (Some (DPong payload)))
      | OpClose \<Rightarrow>
          (case parse_close_payload payload of
             (cd, reason) \<Rightarrow>
               (if cn_close_sent c then (c, Fail (WsClosed cd reason))
                else (case generate_mask c of (m, c1) \<Rightarrow>
                  (case conn_write (fst (encode_close cd [] m [])) c1 of
                     (c2, Blocked) \<Rightarrow> (c2, Blocked)
                   | (c2, _) \<Rightarrow> (c2\<lparr>cn_close_sent := True\<rparr>, Fail (WsClosed cd reason))))))
      | opc \<Rightarrow>
          (if cn_fragment c \<noteq> None then (c, Fail (WsFrame (ProtocolOther
             ''new data frame without finishing previous fragment'')))
           else if fh_fin hdr then (c, data_of opc payload)
           else (c\<lparr>cn_fragment := Some (opc, payload)\<rparr>, Done None)))"

text \<open>The bytes still to come: what bounds the receive loop.\<close>

fun ev_size :: "read_event \<Rightarrow> nat" where
  "ev_size (RData d) = Suc (length d)"
| "ev_size _ = 1"

definition pending :: "ws_conn \<Rightarrow> nat" where
  "pending c = length (cn_recv_buf c) + sum_list (map ev_size (cn_reads c))"

lemma handle_frame_input:
  "handle_frame hdr fr c = (c', r) \<Longrightarrow>
     cn_recv_buf c' = cn_recv_buf c \<and> cn_reads c' = cn_reads c \<and> cn_clock c' = cn_clock c"
  by (auto simp: handle_frame_def send_pong_def send_frame_def generate_mask_def conn_write_def Let_def
      split: opcode.splits option.splits prod.splits if_splits io.splits)

lemma read_some_pending:
  "read_some_bytes_into rs buf = (rs', buf', Done u) \<Longrightarrow>
     length buf' + sum_list (map ev_size rs') < length buf + sum_list (map ev_size rs)"
  by (induction rs buf rule: read_some_bytes_into.induct) (auto split: if_splits)

lemma fill_from_pending:
  "fill_from before n rs buf = (rs', buf', Done u) \<Longrightarrow>
     length buf' + sum_list (map ev_size rs') \<le> length buf + sum_list (map ev_size rs)
     \<and> (length buf \<le> before \<longrightarrow>
        length buf' + sum_list (map ev_size rs') < length buf + sum_list (map ev_size rs))"
proof (induction before n rs buf rule: fill_from.induct)
  case (1 before n rs buf)
  show ?case
  proof (cases "length buf - before < max n 1")
    case False
    then show ?thesis using "1.prems" by (auto simp: fill_from.simps [of before n rs buf])
  next
    case True
    then obtain rs1 buf1 u1 where step: "read_some_bytes_into rs buf = (rs1, buf1, Done u1)"
      and rest: "fill_from before n rs1 buf1 = (rs', buf', Done u)"
      using "1.prems" by (auto simp: fill_from.simps [of before n rs buf] split: prod.splits io.splits)
    then show ?thesis using "1.IH" [OF True] read_some_pending [OF step] by fastforce
  qed
qed

lemma fill_recv_buf_pending:
  "fill_recv_buf n c = (c', Done u) \<Longrightarrow> pending c' < pending c"
  by (auto simp: fill_recv_buf_def pending_def dest: fill_from_pending split: prod.splits)

lemma handle_frame_pending:
  assumes "decode_frame (cn_recv_buf c) = Inr hdr"
    and "handle_frame hdr fr (c\<lparr>cn_recv_buf := drop (fh_total_len hdr) (cn_recv_buf c)\<rparr>) = (c', r)"
  shows "pending c' < pending c"
proof -
  have "cn_recv_buf c' = drop (fh_total_len hdr) (cn_recv_buf c)" "cn_reads c' = cn_reads c"
    using handle_frame_input [OF assms(2)] by simp_all
  moreover have "0 < fh_total_len hdr" "fh_total_len hdr \<le> length (cn_recv_buf c)"
    using decode_frame_InrD [OF assms(1)] by linarith+
  ultimately show ?thesis by (simp add: pending_def)
qed

function recv :: "ws_conn \<Rightarrow> ws_conn \<times> data_frame io" where
  "recv c =
     (case decode_frame (cn_recv_buf c) of
        Inr hdr \<Rightarrow>
          (case handle_frame hdr (take (fh_total_len hdr) (cn_recv_buf c))
                  (c\<lparr>cn_recv_buf := drop (fh_total_len hdr) (cn_recv_buf c)\<rparr>) of
             (c', Done (Some f)) \<Rightarrow> (c', Done f)
           | (c', Done None) \<Rightarrow> recv c'
           | (c', Fail e) \<Rightarrow> (c', Fail e)
           | (c', Panic) \<Rightarrow> (c', Panic)
           | (c', Blocked) \<Rightarrow> (c', Blocked))
      | Inl (NeedMore needed) \<Rightarrow>
          (case fill_recv_buf needed c of
             (c', Done _) \<Rightarrow> recv c'
           | (c', Fail e) \<Rightarrow> (c', Fail e)
           | (c', Panic) \<Rightarrow> (c', Panic)
           | (c', Blocked) \<Rightarrow> (c', Blocked))
      | Inl e \<Rightarrow> (c, Fail (WsFrame e)))"
  by pat_completeness auto
termination
  by (relation "measure pending")
     (auto intro: handle_frame_pending fill_recv_buf_pending dest: sym)

declare recv.simps [simp del]

text \<open>\<open>try_recv\<close>: every \<open>Instant::now()\<close> takes the next clock reading.\<close>

definition next_instant :: "ws_conn \<Rightarrow> (instant \<times> ws_conn) option" where
  "next_instant c =
     (case cn_clock c of [] \<Rightarrow> None | t # ts \<Rightarrow> Some (t, c\<lparr>cn_clock := ts\<rparr>))"

definition read_timed :: "duration \<Rightarrow> ws_conn \<Rightarrow> ws_conn \<times> bool io" where
  "read_timed timeout c =
     (case next_instant c of
        None \<Rightarrow> (c, Blocked)
      | Some (t, c1) \<Rightarrow>
          (case read_some_timed (t + timeout) (cn_reads c1) (cn_clock c1) (cn_recv_buf c1) of
             (rs, ts, buf, r) \<Rightarrow> (c1\<lparr>cn_reads := rs, cn_clock := ts, cn_recv_buf := buf\<rparr>, r)))"

lemma read_some_timed_pending:
  "read_some_timed d rs ts buf = (rs', ts', buf', Done True) \<Longrightarrow>
     length buf' + sum_list (map ev_size rs') < length buf + sum_list (map ev_size rs)"
  by (induction d rs ts buf rule: read_some_timed.induct) (auto split: if_splits)

lemma read_timed_pending: "read_timed d c = (c', Done True) \<Longrightarrow> pending c' < pending c"
  by (auto simp: read_timed_def next_instant_def pending_def dest!: read_some_timed_pending
      split: prod.splits option.splits list.splits)

lemma next_instant_pending: "next_instant c = Some (t, c') \<Longrightarrow> pending c' = pending c"
  by (auto simp: next_instant_def pending_def split: list.splits)

lemma read_after_clock:
  "next_instant c = Some (t, c1) \<Longrightarrow> read_timed d c1 = (c', Done True) \<Longrightarrow> pending c' < pending c"
  using next_instant_pending read_timed_pending by fastforce

function try_recv_until :: "instant \<Rightarrow> ws_conn \<Rightarrow> ws_conn \<times> data_frame option io" where
  "try_recv_until deadline c =
     (case decode_frame (cn_recv_buf c) of
        Inr hdr \<Rightarrow>
          (case handle_frame hdr (take (fh_total_len hdr) (cn_recv_buf c))
                  (c\<lparr>cn_recv_buf := drop (fh_total_len hdr) (cn_recv_buf c)\<rparr>) of
             (c', Done (Some f)) \<Rightarrow> (c', Done (Some f))
           | (c', Done None) \<Rightarrow> try_recv_until deadline c'
           | (c', Fail e) \<Rightarrow> (c', Fail e)
           | (c', Panic) \<Rightarrow> (c', Panic)
           | (c', Blocked) \<Rightarrow> (c', Blocked))
      | Inl (NeedMore needed) \<Rightarrow>
          (case next_instant c of
             None \<Rightarrow> (c, Blocked)
           | Some (now, c1) \<Rightarrow>
               (if deadline \<le> now then (c1, Done None)
                else (case read_timed (deadline - now) c1 of
                   (c', Done True) \<Rightarrow> try_recv_until deadline c'
                 | (c', Done False) \<Rightarrow> (c', Done None)
                 | (c', Fail e) \<Rightarrow> (c', Fail e)
                 | (c', Panic) \<Rightarrow> (c', Panic)
                 | (c', Blocked) \<Rightarrow> (c', Blocked))))
      | Inl e \<Rightarrow> (c, Fail (WsFrame e)))"
  by pat_completeness auto
termination
  by (relation "measure (\<lambda>(_, c). pending c)")
     (auto intro: handle_frame_pending [OF _ sym] dest: read_after_clock [OF _ sym])

declare try_recv_until.simps [simp del]

definition try_recv :: "duration \<Rightarrow> ws_conn \<Rightarrow> ws_conn \<times> data_frame option io" where
  "try_recv timeout c =
     (case next_instant c of
        None \<Rightarrow> (c, Blocked)
      | Some (t, c1) \<Rightarrow> try_recv_until (t + timeout) c1)"

section \<open>The upgrade exchange\<close>

definition MAX_HEADER_BYTES :: nat where "MAX_HEADER_BYTES = 16 * 1024"

text \<open>The header loop of \<open>connect\<close>: the raw bytes and the position after the blank line.\<close>

lemma read_some_mio_shrinks:
  "read_some_mio rs buf = (rs', buf', Done u) \<Longrightarrow> length rs' < length rs"
  by (induction rs buf rule: read_some_mio.induct) (auto split: if_splits)

definition text_of :: "u8 list \<Rightarrow> bytes" where "text_of bs = map char_of_u8 bs"

definition u8_of_char :: "char \<Rightarrow> u8" where "u8_of_char c = word_of_nat (code c)"

function read_head :: "read_event list \<Rightarrow> u8 list \<Rightarrow> read_event list \<times> u8 list \<times> nat io" where
  "read_head rs raw =
     (case find_headers_end (text_of raw) of
        Some p \<Rightarrow> (rs, raw, Done p)
      | None \<Rightarrow>
          (if MAX_HEADER_BYTES \<le> length raw then (rs, raw, Fail (WsHandshake HeadersTooBig))
           else (case read_some_mio rs raw of
               (rs', raw', Done _) \<Rightarrow> read_head rs' raw'
             | (rs', raw', Fail e) \<Rightarrow> (rs', raw', Fail e)
             | (rs', raw', Panic) \<Rightarrow> (rs', raw', Panic)
             | (rs', raw', Blocked) \<Rightarrow> (rs', raw', Blocked))))"
  by pat_completeness auto
termination
  by (relation "measure (\<lambda>(rs, _). length rs)") (auto dest: read_some_mio_shrinks [OF sym])

declare read_head.simps [simp del]

definition PARTIAL_MSG :: string where
  "PARTIAL_MSG = (let bs = CHR 0x5C; crlf = [bs, CHR ''r'', bs, CHR ''n''] in
     ''httparse: partial after '' @ crlf @ crlf @ '' seen'')"

text \<open>
  \<open>connect\<close> from the established (TCP or TLS) stream on. The header parser (httparse) is the
  argument \<open>parse\<close>: an error message, an incomplete head (\<open>None\<close>), or the status code, if any,
  and the headers. The first draw of the generator gives the key bytes, which \<open>b64\<close> encodes.
\<close>

type_synonym head_parser = "bytes \<Rightarrow> string + (nat option \<times> header list) option"

definition upgrade ::
  "head_parser \<Rightarrow> (bytes \<Rightarrow> string) \<Rightarrow> (bytes \<Rightarrow> bytes) \<Rightarrow> target \<Rightarrow> string \<Rightarrow> (string \<times> string) list
     \<Rightarrow> bytes \<Rightarrow> ws_conn \<Rightarrow> ws_conn \<times> unit io" where
  "upgrade parse b64 sha1 t path extra_headers key_draw c =
     (let key_b64 = fst (generate_key b64 key_draw);
          req = build_request t path key_b64 extra_headers
      in case conn_write (map u8_of_char req) c of
        (c1, Done _) \<Rightarrow>
          (case read_head (cn_reads c1) [] of
             (rs, raw, Done p) \<Rightarrow>
               (let c2 = c1\<lparr>cn_reads := rs\<rparr> in
                case parse (text_of (take p raw)) of
                  Inl msg \<Rightarrow> (c2, Fail (WsHandshake (UnparseableResponse msg)))
                | Inr None \<Rightarrow> (c2, Fail (WsHandshake (UnparseableResponse PARTIAL_MSG)))
                | Inr (Some (status, headers)) \<Rightarrow>
                    (case validate_response b64 sha1 (case status of None \<Rightarrow> 0 | Some s \<Rightarrow> s) headers key_b64 of
                       Some e \<Rightarrow> (c2, Fail (WsHandshake e))
                     | None \<Rightarrow> (c2\<lparr>cn_recv_buf := (if p < length raw then drop p raw else []),
                                  cn_fragment := None, cn_close_sent := False\<rparr>, Done ())))
           | (rs, raw, Fail e) \<Rightarrow> (c1\<lparr>cn_reads := rs\<rparr>, Fail e)
           | (rs, raw, Panic) \<Rightarrow> (c1\<lparr>cn_reads := rs\<rparr>, Panic)
           | (rs, raw, Blocked) \<Rightarrow> (c1\<lparr>cn_reads := rs\<rparr>, Blocked))
      | (c1, r) \<Rightarrow> (c1, r))"

section \<open>What a server sends, and how it arrives\<close>

text \<open>A live script: every read is data or a wait, no end of file and no error.\<close>

fun ev_data :: "read_event \<Rightarrow> u8 list" where
  "ev_data (RData d) = d"
| "ev_data _ = []"

fun ev_live :: "read_event \<Rightarrow> bool" where
  "ev_live (RData d) = (d \<noteq> [])"
| "ev_live RWouldBlock = True"
| "ev_live (RErr k) = False"

definition arrivals :: "read_event list \<Rightarrow> u8 list" where
  "arrivals rs = concat (map ev_data rs)"

definition stream :: "ws_conn \<Rightarrow> u8 list" where
  "stream c = cn_recv_buf c @ arrivals (cn_reads c)"

lemma arrivals_Cons [stream_simps]: "arrivals (r # rs) = ev_data r @ arrivals rs"
  by (simp add: arrivals_def)

lemma arrivals_Nil [stream_simps]: "arrivals [] = []"
  by (simp add: arrivals_def)

lemma read_some_live:
  assumes "list_all ev_live rs" "arrivals rs \<noteq> []"
  shows "\<exists>rs' d. read_some_bytes_into rs buf = (rs', buf @ d, Done ()) \<and> d \<noteq> []
           \<and> arrivals rs = d @ arrivals rs' \<and> list_all ev_live rs'"
  using assms
  by (induction rs buf rule: read_some_bytes_into.induct) (auto simp: stream_simps)

lemma fill_from_live:
  assumes "list_all ev_live rs" "before \<le> length buf" "0 < n"
    and "n \<le> length buf - before + length (arrivals rs)"
  shows "\<exists>rs' d. fill_from before n rs buf = (rs', buf @ d, Done ())
           \<and> arrivals rs = d @ arrivals rs' \<and> list_all ev_live rs'"
  using assms
proof (induction before n rs buf rule: fill_from.induct)
  case (1 before n rs buf)
  show ?case
  proof (cases "length buf - before < max n 1")
    case False
    then show ?thesis using "1.prems" by (simp add: fill_from.simps [of before n rs buf])
  next
    case True
    then have "arrivals rs \<noteq> []" using "1.prems" by (auto simp: max_def split: if_splits)
    then obtain rs1 d1 where s: "read_some_bytes_into rs buf = (rs1, buf @ d1, Done ())"
      "arrivals rs = d1 @ arrivals rs1" "list_all ev_live rs1"
      using read_some_live "1.prems"(1) by blast
    have "\<exists>rs' d. fill_from before n rs1 (buf @ d1) = (rs', (buf @ d1) @ d, Done ())
           \<and> arrivals rs1 = d @ arrivals rs' \<and> list_all ev_live rs'"
      using "1.prems" s by (intro "1.IH" [OF True s(1) [symmetric]]) auto
    then show ?thesis using s True by (auto simp: fill_from.simps [of before n rs buf])
  qed
qed

lemma fill_recv_buf_live:
  assumes "list_all ev_live (cn_reads c)" "0 < n" "n \<le> length (arrivals (cn_reads c))"
  shows "\<exists>rs' buf'. fill_recv_buf n c = (c\<lparr>cn_reads := rs', cn_recv_buf := buf'\<rparr>, Done ())
           \<and> buf' @ arrivals rs' = stream c \<and> list_all ev_live rs'"
  using fill_from_live [OF assms(1) le_refl assms(2), of "cn_recv_buf c"] assms(3)
  by (fastforce simp: fill_recv_buf_def stream_def)

text \<open>What the dispatcher does depends on the frame's flag, opcode and payload only.\<close>

definition hdr_of :: "bool \<Rightarrow> opcode \<Rightarrow> u8 list \<Rightarrow> frame_header" where
  "hdr_of fin opc p =
     \<lparr>fh_fin = fin, fh_opcode = opc, fh_payload_len = length p,
      fh_payload_start = Suc (length (len_bytes (length p))),
      fh_total_len = Suc (length (len_bytes (length p))) + length p\<rparr>"

definition on_frame :: "bool \<Rightarrow> opcode \<Rightarrow> u8 list \<Rightarrow> ws_conn \<Rightarrow> ws_conn \<times> data_frame option io" where
  "on_frame fin opc p c = handle_frame (hdr_of fin opc p) (frame_bytes fin opc p) c"

definition resume :: "ws_conn \<times> data_frame option io \<Rightarrow> ws_conn \<times> data_frame io" where
  "resume cr = (case cr of
     (c', Done (Some f)) \<Rightarrow> (c', Done f)
   | (c', Done None) \<Rightarrow> recv c'
   | (c', Fail e) \<Rightarrow> (c', Fail e)
   | (c', Panic) \<Rightarrow> (c', Panic)
   | (c', Blocked) \<Rightarrow> (c', Blocked))"

lemma length_frame_bytes: "length (frame_bytes fin opc p) = fh_total_len (hdr_of fin opc p)"
  by (simp add: frame_bytes_def hdr_of_def)

text \<open>However the bytes of a frame are cut into reads, the receiver dispatches that frame.\<close>

lemma recv_dispatch:
  assumes "list_all ev_live (cn_reads c)" "frame_ok fin opc p"
    and "stream c = frame_bytes fin opc p @ rest"
  shows "\<exists>rs buf. recv c = resume (on_frame fin opc p (c\<lparr>cn_reads := rs, cn_recv_buf := buf\<rparr>))
           \<and> buf @ arrivals rs = rest \<and> list_all ev_live rs"
  using assms
proof (induction c rule: recv.induct)
  case (1 c)
  let ?b = "cn_recv_buf c"
  have dec: "decode_frame (stream c) = Inr (hdr_of fin opc p)"
    using decode_frame_bytes_eq [OF "1.prems"(2), of rest] by (simp add: "1.prems"(3) hdr_of_def)
  show ?case
  proof (cases "\<exists>k. decode_frame ?b = Inl (NeedMore k)")
    case False
    then have "decode_frame ?b = Inr (hdr_of fin opc p)"
      using decode_frame_stable_aux [of ?b "arrivals (cn_reads c)"] dec by (auto simp: stream_def)
    moreover have "fh_total_len (hdr_of fin opc p) \<le> length ?b"
      using decode_frame_InrD(3) calculation by blast
    then have "?b = frame_bytes fin opc p @ drop (fh_total_len (hdr_of fin opc p)) ?b"
      "drop (fh_total_len (hdr_of fin opc p)) ?b @ arrivals (cn_reads c) = rest"
      using arg_cong [OF "1.prems"(3), of "take (fh_total_len (hdr_of fin opc p))"]
        arg_cong [OF "1.prems"(3), of "drop (fh_total_len (hdr_of fin opc p))"]
      by (simp_all add: stream_def length_frame_bytes) (metis append_take_drop_id)
    then have "take (fh_total_len (hdr_of fin opc p)) ?b = frame_bytes fin opc p"
      by (metis append_eq_conv_conj length_frame_bytes)
    ultimately have "recv c = resume (on_frame fin opc p
        (c\<lparr>cn_reads := cn_reads c, cn_recv_buf := drop (fh_total_len (hdr_of fin opc p)) ?b\<rparr>))"
      by (simp add: recv.simps [of c] on_frame_def resume_def)
    then show ?thesis
      using \<open>drop _ ?b @ arrivals (cn_reads c) = rest\<close> "1.prems"(1) by blast
  next
    case True
    then obtain k where k: "decode_frame ?b = Inl (NeedMore k)" by blast
    have "\<not> length (arrivals (cn_reads c)) < k" "0 < k"
      using decode_frame_need_moreD [OF k, of "arrivals (cn_reads c)"] dec by (auto simp: stream_def)
    then obtain rs1 buf1 where f: "fill_recv_buf k c = (c\<lparr>cn_reads := rs1, cn_recv_buf := buf1\<rparr>, Done ())"
      "buf1 @ arrivals rs1 = stream c" "list_all ev_live rs1"
      using fill_recv_buf_live [OF "1.prems"(1), of k] by auto
    let ?c1 = "c\<lparr>cn_reads := rs1, cn_recv_buf := buf1\<rparr>"
    have "recv c = recv ?c1" by (simp add: recv.simps [of c] k f(1))
    moreover have "\<exists>rs buf. recv ?c1 = resume (on_frame fin opc p (?c1\<lparr>cn_reads := rs, cn_recv_buf := buf\<rparr>))
           \<and> buf @ arrivals rs = rest \<and> list_all ev_live rs"
      using f "1.prems" by (intro "1.IH"(1) [OF k refl f(1) [symmetric] refl]) (auto simp: stream_def)
    ultimately show ?thesis by simp
  qed
qed

section \<open>Messages\<close>

text \<open>
  A message on the wire: its pieces, the first with the message's opcode, the others
  continuations, the last final, each preceded by Pings the server chose to interleave.
\<close>

type_synonym piece = "u8 list list \<times> u8 list"

fun msg_wire :: "opcode \<Rightarrow> piece list \<Rightarrow> u8 list" where
  "msg_wire opc [] = []"
| "msg_wire opc ((pings, p) # ps) =
     concat (map (frame_bytes True OpPing) pings) @
     frame_bytes (ps = []) opc p @ msg_wire OpContinuation ps"

definition piece_ok :: "piece \<Rightarrow> bool" where
  "piece_ok pc = (length (snd pc) \<le> MAX_PAYLOAD \<and> (\<forall>q \<in> set (fst pc). length q \<le> 125))"

fun data_frame_of :: "opcode \<Rightarrow> u8 list \<Rightarrow> data_frame" where
  "data_frame_of OpText b = DText b"
| "data_frame_of opc b = DBinary b"

text \<open>The Pongs owed for a list of Pings, masked by successive draws.\<close>

fun pongs :: "(nat \<Rightarrow> mask4) \<Rightarrow> nat \<Rightarrow> u8 list list \<Rightarrow> u8 list" where
  "pongs ms i [] = []"
| "pongs ms i (q # qs) = fst (encode_frame OpPong q (ms i) []) @ pongs ms (Suc i) qs"

lemma pongs_append: "pongs ms i (a @ b) = pongs ms i a @ pongs ms (i + length a) b"
  by (induction a arbitrary: i) auto

text \<open>A socket that takes a whole control frame per write, at least n times.\<close>

definition roomy :: "nat \<Rightarrow> ws_conn \<Rightarrow> bool" where
  "roomy n c = (n \<le> length (cn_writes c) \<and> (\<forall>w \<in> set (cn_writes c). \<exists>k. w = WOk k \<and> 131 \<le> k))"

lemma conn_write_roomy:
  assumes "roomy (Suc n) c" "length data \<le> 131" "data \<noteq> []"
  shows "\<exists>ws. conn_write data c = (c\<lparr>cn_writes := ws, cn_sent := cn_sent c @ data\<rparr>, Done ())
           \<and> roomy n (c\<lparr>cn_writes := ws\<rparr>)"
proof -
  obtain w ws where w: "cn_writes c = w # ws" using assms(1) by (cases "cn_writes c") (auto simp: roomy_def)
  then obtain k where k: "w = WOk k" "131 \<le> k" using assms(1) by (auto simp: roomy_def)
  obtain x xs where x: "data = x # xs" using assms(3) by (cases data) auto
  have "write_all_mio (cn_writes c) data (cn_sent c) = (ws, cn_sent c @ data, Done ())"
    using k assms(2) by (simp add: w x)
  then show ?thesis using assms(1) w by (auto simp: conn_write_def roomy_def)
qed

lemma length_encode_control:
  "length q \<le> 125 \<Longrightarrow> length (fst (encode_frame opc q m [])) \<le> 131"
  by (cases m) (simp add: encode_frame_def Let_def)

lemma on_ping:
  assumes "roomy (Suc n) c" "length q \<le> 125"
  shows "\<exists>ws. on_frame True OpPing q c =
           (c\<lparr>cn_writes := ws, cn_sent := cn_sent c @ pongs (cn_masks c) (cn_drawn c) [q],
              cn_drawn := Suc (cn_drawn c)\<rparr>, Done None)
         \<and> roomy n (c\<lparr>cn_writes := ws\<rparr>)"
proof -
  let ?c1 = "c\<lparr>cn_drawn := Suc (cn_drawn c)\<rparr>"
  let ?d = "fst (encode_frame OpPong q (cn_masks c (cn_drawn c)) [])"
  have "roomy (Suc n) ?c1" using assms(1) by (simp add: roomy_def)
  moreover have "?d \<noteq> []" by (simp add: encode_frame_def Let_def)
  ultimately obtain ws where "conn_write ?d ?c1 = (?c1\<lparr>cn_writes := ws, cn_sent := cn_sent ?c1 @ ?d\<rparr>, Done ())"
    "roomy n (?c1\<lparr>cn_writes := ws\<rparr>)"
    using conn_write_roomy [of n ?c1 ?d] length_encode_control [OF assms(2)] by blast
  moreover have "take (length q) (drop (Suc (length (len_bytes (length q)))) (frame_bytes True OpPing q)) = q"
    using frame_bytes_payload [of q True OpPing "[]"] by simp
  ultimately show ?thesis using assms(2)
    by (intro exI [of _ ws]) (simp add: on_frame_def handle_frame_def hdr_of_def send_pong_def
        send_frame_def generate_mask_def roomy_def Let_def)
qed

lemma payload_eq:
  "take (length p) (drop (Suc (length (len_bytes (length p)))) (frame_bytes fin opc p)) = p"
  using frame_bytes_payload [of p fin opc "[]"] by simp

text \<open>Pings are answered and swallowed.\<close>

lemma recv_pings:
  assumes "list_all ev_live (cn_reads c)" "\<forall>q \<in> set qs. length q \<le> 125"
    and "roomy (length qs + n) c"
    and "stream c = concat (map (frame_bytes True OpPing) qs) @ rest"
  shows "\<exists>rs buf ws. recv c = recv (c\<lparr>cn_reads := rs, cn_recv_buf := buf, cn_writes := ws,
             cn_sent := cn_sent c @ pongs (cn_masks c) (cn_drawn c) qs,
             cn_drawn := cn_drawn c + length qs\<rparr>)
           \<and> buf @ arrivals rs = rest \<and> list_all ev_live rs \<and> roomy n (c\<lparr>cn_writes := ws\<rparr>)"
  using assms
proof (induction qs arbitrary: c)
  case Nil
  have "c = c\<lparr>cn_reads := cn_reads c, cn_recv_buf := cn_recv_buf c, cn_writes := cn_writes c,
             cn_sent := cn_sent c @ pongs (cn_masks c) (cn_drawn c) [], cn_drawn := cn_drawn c + length []\<rparr>"
    by simp
  moreover have "roomy n (c\<lparr>cn_writes := cn_writes c\<rparr>)" using Nil by simp
  ultimately show ?case using Nil unfolding stream_def by (metis append_Nil concat.simps(1) list.map(1))
next
  case (Cons q qs)
  have "frame_ok True OpPing q" using Cons.prems(2) by (simp add: frame_ok_def MAX_PAYLOAD_def)
  then obtain rs buf where r: "recv c = resume (on_frame True OpPing q (c\<lparr>cn_reads := rs, cn_recv_buf := buf\<rparr>))"
    "buf @ arrivals rs = concat (map (frame_bytes True OpPing) qs) @ rest" "list_all ev_live rs"
    using recv_dispatch [OF Cons.prems(1), of True OpPing q] Cons.prems(4) by auto
  let ?c0 = "c\<lparr>cn_reads := rs, cn_recv_buf := buf\<rparr>"
  obtain ws where p: "on_frame True OpPing q ?c0 =
       (?c0\<lparr>cn_writes := ws, cn_sent := cn_sent ?c0 @ pongs (cn_masks ?c0) (cn_drawn ?c0) [q],
          cn_drawn := Suc (cn_drawn ?c0)\<rparr>, Done None)" "roomy (length qs + n) (?c0\<lparr>cn_writes := ws\<rparr>)"
    using on_ping [of "length qs + n" ?c0 q] Cons.prems(2,3) by (auto simp: roomy_def)
  let ?c1 = "?c0\<lparr>cn_writes := ws, cn_sent := cn_sent ?c0 @ pongs (cn_masks ?c0) (cn_drawn ?c0) [q],
          cn_drawn := Suc (cn_drawn ?c0)\<rparr>"
  have "recv c = recv ?c1" using r(1) p(1) by (simp add: resume_def)
  moreover have "\<exists>rs' buf' ws'. recv ?c1 = recv (?c1\<lparr>cn_reads := rs', cn_recv_buf := buf', cn_writes := ws',
             cn_sent := cn_sent ?c1 @ pongs (cn_masks ?c1) (cn_drawn ?c1) qs,
             cn_drawn := cn_drawn ?c1 + length qs\<rparr>)
           \<and> buf' @ arrivals rs' = rest \<and> list_all ev_live rs' \<and> roomy n (?c1\<lparr>cn_writes := ws'\<rparr>)"
    using Cons.prems(2) p(2) r by (intro Cons.IH) (auto simp: stream_def roomy_def)
  ultimately show ?case by (fastforce simp: roomy_def)
qed

text \<open>One piece, with what was collected before it.\<close>

definition collected :: "opcode \<Rightarrow> u8 list option \<Rightarrow> (opcode \<times> u8 list) option" where
  "collected opc acc = map_option (\<lambda>b. (opc, b)) acc"

definition so_far :: "u8 list option \<Rightarrow> u8 list" where
  "so_far acc = (case acc of None \<Rightarrow> [] | Some b \<Rightarrow> b)"

lemma on_piece:
  assumes "opc = OpText \<or> opc = OpBinary" "cn_fragment c = collected opc acc"
  shows "on_frame fin (if acc = None then opc else OpContinuation) p c =
     (if fin then (c\<lparr>cn_fragment := None\<rparr>, Done (Some (data_frame_of opc (so_far acc @ p))))
      else (c\<lparr>cn_fragment := collected opc (Some (so_far acc @ p))\<rparr>, Done None))"
proof (cases acc)
  case None
  then have "cn_fragment c = None" using assms(2) by (simp add: collected_def)
  then have "c\<lparr>cn_fragment := None\<rparr> = c" by (cases c) simp
  then show ?thesis using assms(1) None \<open>cn_fragment c = None\<close>
    by (auto simp: on_frame_def handle_frame_def hdr_of_def collected_def so_far_def payload_eq Let_def)
next
  case (Some b)
  then show ?thesis using assms
    by (auto simp: on_frame_def handle_frame_def hdr_of_def collected_def so_far_def payload_eq Let_def)
qed

lemma recv_pieces:
  assumes "opc = OpText \<or> opc = OpBinary" "ps \<noteq> []"
    and "list_all ev_live (cn_reads c)" "\<forall>pc \<in> set ps. piece_ok pc"
    and "roomy (length (concat (map fst ps))) c"
    and "cn_fragment c = collected opc acc"
    and "stream c = msg_wire (if acc = None then opc else OpContinuation) ps @ rest"
  shows "\<exists>c'. recv c = (c', Done (data_frame_of opc (so_far acc @ concat (map snd ps))))
           \<and> stream c' = rest \<and> list_all ev_live (cn_reads c') \<and> cn_fragment c' = None
           \<and> cn_sent c' = cn_sent c @ pongs (cn_masks c) (cn_drawn c) (concat (map fst ps))
           \<and> cn_close_sent c' = cn_close_sent c"
  using assms(2-7)
proof (induction ps arbitrary: c acc)
  case (Cons pc ps)
  obtain qs p where pc: "pc = (qs, p)" by (cases pc)
  let ?o = "if acc = None then opc else OpContinuation"
  let ?rest = "msg_wire OpContinuation ps @ rest"
  have ok: "piece_ok (qs, p)" using Cons.prems(3) pc by simp
  obtain rs buf ws where pings: "recv c = recv (c\<lparr>cn_reads := rs, cn_recv_buf := buf, cn_writes := ws,
             cn_sent := cn_sent c @ pongs (cn_masks c) (cn_drawn c) qs, cn_drawn := cn_drawn c + length qs\<rparr>)"
    "buf @ arrivals rs = frame_bytes (ps = []) ?o p @ ?rest" "list_all ev_live rs"
    "roomy (length (concat (map fst ps))) (c\<lparr>cn_writes := ws\<rparr>)"
    using recv_pings [OF Cons.prems(2), of qs "length (concat (map fst ps))"] ok Cons.prems(4,6)
    by (auto simp: pc piece_ok_def)
  let ?c1 = "c\<lparr>cn_reads := rs, cn_recv_buf := buf, cn_writes := ws,
             cn_sent := cn_sent c @ pongs (cn_masks c) (cn_drawn c) qs, cn_drawn := cn_drawn c + length qs\<rparr>"
  have fo: "frame_ok (ps = []) ?o p" using ok assms(1) by (auto simp: frame_ok_def piece_ok_def is_control_def)
  have "list_all ev_live (cn_reads ?c1)" "stream ?c1 = frame_bytes (ps = []) ?o p @ ?rest"
    using pings by (simp_all add: stream_def)
  from recv_dispatch [OF this(1) fo this(2)]
  obtain rs' buf' where d: "recv ?c1 = resume (on_frame (ps = []) ?o p (?c1\<lparr>cn_reads := rs', cn_recv_buf := buf'\<rparr>))"
    "buf' @ arrivals rs' = ?rest" "list_all ev_live rs'" by blast
  let ?c2 = "?c1\<lparr>cn_reads := rs', cn_recv_buf := buf'\<rparr>"
  have frag: "cn_fragment ?c2 = collected opc acc" using Cons.prems(5) by simp
  note piece = on_piece [OF assms(1) frag, of "ps = []" p]
  show ?case
  proof (cases "ps = []")
    case True
    then have "recv c = (?c2\<lparr>cn_fragment := None\<rparr>, Done (data_frame_of opc (so_far acc @ p)))"
      using pings(1) d(1) piece by (simp add: resume_def)
    then show ?thesis using True d pc by (simp add: stream_def)
  next
    case False
    let ?c3 = "?c2\<lparr>cn_fragment := collected opc (Some (so_far acc @ p))\<rparr>"
    have "recv c = recv ?c3" using pings(1) d(1) piece False by (simp add: resume_def)
    moreover have "\<exists>c'. recv ?c3 = (c', Done (data_frame_of opc (so_far (Some (so_far acc @ p)) @ concat (map snd ps))))
           \<and> stream c' = rest \<and> list_all ev_live (cn_reads c') \<and> cn_fragment c' = None
           \<and> cn_sent c' = cn_sent ?c3 @ pongs (cn_masks ?c3) (cn_drawn ?c3) (concat (map fst ps))
           \<and> cn_close_sent c' = cn_close_sent ?c3"
      using False Cons.prems(3) pings(4) d by (intro Cons.IH) (auto simp: stream_def roomy_def)
    ultimately show ?thesis using pc by (auto simp: so_far_def pongs_append)
  qed
qed simp

section \<open>Reachable connections\<close>

text \<open>One call of the connection's interface, from the state the caller has to the one it gets.\<close>

inductive ws_step :: "ws_conn \<Rightarrow> ws_conn \<Rightarrow> bool" where
  step_text: "send_text p c = (c', r) \<Longrightarrow> ws_step c c'"
| step_binary: "send_binary p c = (c', r) \<Longrightarrow> ws_step c c'"
| step_ping: "send_ping p c = (c', r) \<Longrightarrow> ws_step c c'"
| step_close: "ws_close cd reason c = (c', r) \<Longrightarrow> ws_step c c'"
| step_recv: "recv c = (c', r') \<Longrightarrow> ws_step c c'"
| step_try: "try_recv d c = (c', r'') \<Longrightarrow> ws_step c c'"

inductive_cases ws_stepE: "ws_step c c'"

inductive ws_reach :: "ws_conn \<Rightarrow> ws_conn \<Rightarrow> bool" for c0 where
  reach_refl: "ws_reach c0 c0"
| reach_step: "ws_reach c0 c \<Longrightarrow> ws_step c c' \<Longrightarrow> ws_reach c0 c'"

fun frag_fine :: "(opcode \<times> u8 list) option \<Rightarrow> bool" where
  "frag_fine None = True"
| "frag_fine (Some (opc, b)) = (opc = OpText \<or> opc = OpBinary)"

definition frag_ok :: "ws_conn \<Rightarrow> bool" where
  "frag_ok c = frag_fine (cn_fragment c)"

lemma conn_write_frame:
  "conn_write d c = (c', r) \<Longrightarrow>
     cn_fragment c' = cn_fragment c \<and> cn_close_sent c' = cn_close_sent c \<and> r \<noteq> Panic"
proof -
  have "snd (snd (write_all_mio ws d s)) \<noteq> Panic" for ws s
    by (induction ws d s rule: write_all_mio.induct) auto
  moreover assume "conn_write d c = (c', r)"
  ultimately show ?thesis by (auto simp: conn_write_def split: prod.splits) (metis snd_conv)
qed

lemma send_frame_frag:
  "send_frame opc p c = (c', r) \<Longrightarrow>
     cn_fragment c' = cn_fragment c \<and> cn_close_sent c' = cn_close_sent c \<and> r \<noteq> Panic"
  by (auto simp: send_frame_def generate_mask_def dest: conn_write_frame)

lemma send_pong_frag:
  "send_pong p c = (c', r) \<Longrightarrow>
     cn_fragment c' = cn_fragment c \<and> cn_close_sent c' = cn_close_sent c \<and> r \<noteq> Panic"
  by (auto simp: send_pong_def dest: send_frame_frag split: if_splits)

lemma handle_frame_ok:
  assumes "handle_frame hdr fr c = (c', r)" "frag_ok c"
  shows "frag_ok c' \<and> r \<noteq> Panic \<and> (cn_close_sent c \<longrightarrow> cn_close_sent c')"
  using assms
  by (cases "fh_opcode hdr")
     (auto simp: handle_frame_def Let_def frag_ok_def generate_mask_def
        dest!: send_pong_frag conn_write_frame split: option.splits prod.splits if_splits io.splits)

lemma fill_recv_buf_frame:
  assumes "fill_recv_buf n c = (c', r)"
  shows "cn_fragment c' = cn_fragment c \<and> cn_close_sent c' = cn_close_sent c \<and> r \<noteq> Panic"
proof -
  have step: "snd (snd (read_some_bytes_into rs b)) \<noteq> Panic" for rs b
    by (induction rs b rule: read_some_bytes_into.induct) auto
  have "snd (snd (fill_from bf m rs b)) \<noteq> Panic" for bf m rs b
  proof (induction bf m rs b rule: fill_from.induct)
    case (1 bf m rs b)
    then show ?case using step [of rs b]
      by (subst fill_from.simps) (auto split: prod.splits io.splits)
  qed
  then show ?thesis using assms by (auto simp: fill_recv_buf_def split: prod.splits) (metis snd_conv)
qed

lemma recv_ok:
  "recv c = (c', r) \<Longrightarrow> frag_ok c \<Longrightarrow> frag_ok c' \<and> r \<noteq> Panic \<and> (cn_close_sent c \<longrightarrow> cn_close_sent c')"
proof (induction c arbitrary: c' r rule: recv.induct)
  case (1 c)
  show ?case
  proof (cases "decode_frame (cn_recv_buf c)")
    case (Inr hdr)
    let ?c0 = "c\<lparr>cn_recv_buf := drop (fh_total_len hdr) (cn_recv_buf c)\<rparr>"
    obtain c1 r1 where h: "handle_frame hdr (take (fh_total_len hdr) (cn_recv_buf c)) ?c0 = (c1, r1)"
      by fastforce
    have ok: "frag_ok c1 \<and> r1 \<noteq> Panic \<and> (cn_close_sent c \<longrightarrow> cn_close_sent c1)"
      using handle_frame_ok [OF h] "1.prems"(2) by (simp add: frag_ok_def)
    show ?thesis
    proof (cases "r1 = Done None")
      case True
      then have "recv c1 = (c', r)" using "1.prems"(1) by (simp add: recv.simps [of c] Inr h)
      then show ?thesis using "1.IH"(2) [OF Inr h [symmetric] True refl] ok by blast
    next
      case False
      then show ?thesis using "1.prems"(1) ok
        by (auto simp: recv.simps [of c] Inr h split: io.splits option.splits)
    qed
  next
    case (Inl e)
    show ?thesis
    proof (cases "\<exists>k. e = NeedMore k")
      case True
      then obtain k where k: "e = NeedMore k" by blast
      obtain c1 r1 where f: "fill_recv_buf k c = (c1, r1)" by fastforce
      note fr = fill_recv_buf_frame [OF f]
      show ?thesis
      proof (cases "r1 = Done ()")
        case True
        then have "recv c1 = (c', r)" using "1.prems"(1) by (simp add: recv.simps [of c] Inl k f)
        moreover have "frag_ok c1" using fr "1.prems"(2) by (simp add: frag_ok_def)
        ultimately show ?thesis using "1.IH"(1) [OF Inl k f [symmetric] True] fr by simp
      next
        case False
        then show ?thesis using "1.prems" fr
          by (auto simp: recv.simps [of c] Inl k f frag_ok_def split: io.splits)
      qed
    next
      case False
      then show ?thesis using "1.prems"
        by (auto simp: recv.simps [of c] Inl split: frame_error.splits)
    qed
  qed
qed

lemma next_instant_frame:
  "next_instant c = Some (t, c') \<Longrightarrow> cn_fragment c' = cn_fragment c \<and> cn_close_sent c' = cn_close_sent c"
  by (auto simp: next_instant_def split: list.splits)

lemma read_timed_frame:
  assumes "read_timed d c = (c', r)"
  shows "cn_fragment c' = cn_fragment c \<and> cn_close_sent c' = cn_close_sent c \<and> r \<noteq> Panic"
proof -
  have np: "snd (snd (snd (read_some_timed d rs ts b))) \<noteq> Panic" for d rs ts b
    by (induction d rs ts b rule: read_some_timed.induct) auto
  show ?thesis
  proof (cases "next_instant c")
    case None
    then show ?thesis using assms by (auto simp: read_timed_def)
  next
    case (Some tc)
    obtain t c1 where tc: "tc = (t, c1)" by (cases tc)
    obtain rs ts b r1 where x: "read_some_timed (t + d) (cn_reads c1) (cn_clock c1) (cn_recv_buf c1)
        = (rs, ts, b, r1)" by (metis prod_cases4)
    have "r1 \<noteq> Panic" using np [of "t + d" "cn_reads c1" "cn_clock c1" "cn_recv_buf c1"] x by simp
    moreover have "c' = c1\<lparr>cn_reads := rs, cn_clock := ts, cn_recv_buf := b\<rparr>" "r = r1"
      using assms x by (simp_all add: read_timed_def Some tc)
    ultimately show ?thesis using next_instant_frame [OF Some [unfolded tc]] by simp
  qed
qed

lemma try_recv_until_ok:
  "try_recv_until d c = (c', r) \<Longrightarrow> frag_ok c \<Longrightarrow>
     frag_ok c' \<and> r \<noteq> Panic \<and> (cn_close_sent c \<longrightarrow> cn_close_sent c')"
proof (induction d c arbitrary: c' r rule: try_recv_until.induct)
  case (1 d c)
  show ?case
  proof (cases "decode_frame (cn_recv_buf c)")
    case (Inr hdr)
    let ?c0 = "c\<lparr>cn_recv_buf := drop (fh_total_len hdr) (cn_recv_buf c)\<rparr>"
    obtain c1 r1 where h: "handle_frame hdr (take (fh_total_len hdr) (cn_recv_buf c)) ?c0 = (c1, r1)"
      by fastforce
    have ok: "frag_ok c1 \<and> r1 \<noteq> Panic \<and> (cn_close_sent c \<longrightarrow> cn_close_sent c1)"
      using handle_frame_ok [OF h] "1.prems"(2) by (simp add: frag_ok_def)
    show ?thesis
    proof (cases "r1 = Done None")
      case True
      then have "try_recv_until d c1 = (c', r)"
        using "1.prems"(1) by (simp add: try_recv_until.simps [of d c] Inr h)
      then show ?thesis using "1.IH"(2) [OF Inr h [symmetric] True refl] ok by blast
    next
      case False
      then show ?thesis using "1.prems"(1) ok
        by (auto simp: try_recv_until.simps [of d c] Inr h split: io.splits option.splits)
    qed
  next
    case (Inl e)
    show ?thesis
    proof (cases "\<exists>k. e = NeedMore k")
      case False
      then show ?thesis using "1.prems"
        by (auto simp: try_recv_until.simps [of d c] Inl split: frame_error.splits)
    next
      case True
      then obtain k where k: "e = NeedMore k" by blast
      show ?thesis
      proof (cases "next_instant c")
        case None
        then show ?thesis using "1.prems" by (auto simp: try_recv_until.simps [of d c] Inl k)
      next
        case (Some tc)
        obtain t c1 where tc: "tc = (t, c1)" by (cases tc)
        note nf = next_instant_frame [OF Some [unfolded tc]]
        obtain c2 r2 where f: "read_timed (d - t) c1 = (c2, r2)" by fastforce
        note fr = read_timed_frame [OF f]
        have c2: "frag_ok c2" "cn_close_sent c2 = cn_close_sent c" "frag_ok c1"
          using fr nf "1.prems"(2) by (simp_all add: frag_ok_def)
        show ?thesis
        proof (cases "\<not> d \<le> t \<and> r2 = Done True")
          case True
          then have "try_recv_until d c2 = (c', r)"
            using "1.prems"(1) f by (simp add: try_recv_until.simps [of d c] Inl k Some tc)
          then show ?thesis
            using "1.IH"(1) [OF Inl k Some tc [symmetric] _ f [symmetric] _ refl] True c2 by auto
        next
          case False
          then show ?thesis using "1.prems"(1) f fr nf c2
            by (auto simp: try_recv_until.simps [of d c] Inl k Some tc split: io.splits if_splits bool.splits)
        qed
      qed
    qed
  qed
qed

lemma try_recv_ok:
  "try_recv d c = (c', r) \<Longrightarrow> frag_ok c \<Longrightarrow>
     frag_ok c' \<and> r \<noteq> Panic \<and> (cn_close_sent c \<longrightarrow> cn_close_sent c')"
  by (auto simp: try_recv_def frag_ok_def dest!: try_recv_until_ok next_instant_frame split: option.splits)

lemma ws_close_frame:
  "ws_close cd reason c = (c', r) \<Longrightarrow> cn_fragment c' = cn_fragment c \<and> cn_close_sent c'"
  by (auto simp: ws_close_def generate_mask_def split: if_splits dest: conn_write_frame)

lemma ws_step_ok:
  "ws_step c c' \<Longrightarrow> frag_ok c \<Longrightarrow> frag_ok c' \<and> (cn_close_sent c \<longrightarrow> cn_close_sent c')"
  by (erule ws_stepE)
     (auto simp: send_text_def send_binary_def send_ping_def frag_ok_def split: if_splits
       dest: send_frame_frag ws_close_frame recv_ok [unfolded frag_ok_def] try_recv_ok [unfolded frag_ok_def])

lemma ws_reach_ok:
  "ws_reach c c' \<Longrightarrow> frag_ok c \<Longrightarrow> frag_ok c' \<and> (cn_close_sent c \<longrightarrow> cn_close_sent c')"
  by (induction rule: ws_reach.induct) (auto dest: ws_step_ok)

section \<open>Properties\<close>

text \<open>
  Property C6. Messages are reassembled whatever the server's fragmentation and the network's
  segmentation: if the bytes buffered and still to arrive are a Text or Binary message cut into
  one or more frames, with any Pings between the frames, then one call of \<open>recv\<close> returns, its
  result is the one message with the concatenated payload, each Ping has been answered by a Pong
  with the same payload in the order of arrival, and the bytes after the message are still there.
\<close>

theorem recv_reassembles:
  assumes "opc = OpText \<or> opc = OpBinary" "ps \<noteq> []" "\<forall>pc \<in> set ps. piece_ok pc"
    and "list_all ev_live (cn_reads c)" "roomy (length (concat (map fst ps))) c"
    and "cn_fragment c = None" "stream c = msg_wire opc ps @ rest"
  shows "\<exists>c'. recv c = (c', Done (data_frame_of opc (concat (map snd ps))))
           \<and> stream c' = rest \<and> cn_fragment c' = None
           \<and> cn_sent c' = cn_sent c @ pongs (cn_masks c) (cn_drawn c) (concat (map fst ps))"
  using recv_pieces [OF assms(1,2,4,3,5), of None rest] assms(6,7)
  by (auto simp: collected_def so_far_def)

definition demo_conn :: "read_event list \<Rightarrow> ws_conn" where
  "demo_conn rs = \<lparr>cn_reads = rs, cn_writes = [WOk 200], cn_clock = [], cn_sent = [], cn_recv_buf = [],
     cn_masks = (\<lambda>_. (1, 2, 3, 4)), cn_drawn = 0, cn_fragment = None, cn_close_sent = False\<rparr>"

lemma recv_reassembles_witness:
  "\<exists>c'. recv (demo_conn [RData [0x01], RWouldBlock, RData [1, 65, 0x89, 0], RData [0x80, 1, 66, 7]])
      = (c', Done (DText [65, 66])) \<and> stream c' = [7] \<and> cn_fragment c' = None
      \<and> cn_sent c' = [0x8A, 0x80, 1, 2, 3, 4]"
  using recv_reassembles [where opc = OpText and ps = "[([], [65]), ([[]], [66])]" and rest = "[7]"
      and c = "demo_conn [RData [0x01], RWouldBlock, RData [1, 65, 0x89, 0], RData [0x80, 1, 66, 7]]"]
  by (simp add: demo_conn_def roomy_def piece_ok_def MAX_PAYLOAD_def stream_def stream_simps
      frame_bytes_def len_bytes_def encode_frame_def Let_def)

text \<open>
  Property C11. The two \<open>unreachable!\<close> arms of the dispatcher are unreachable: after any sequence of
  sends, receives, timed receives and closes on a fresh connection, whatever bytes the server
  sends, neither receiver panics, and a pending fragment is of a Text or Binary message.
\<close>

theorem recv_never_panics:
  assumes "cn_fragment c0 = None" "ws_reach c0 c"
  shows "frag_ok c \<and> snd (recv c) \<noteq> Panic \<and> snd (try_recv d c) \<noteq> Panic"
proof -
  have "frag_ok c" using ws_reach_ok [OF assms(2)] assms(1) by (simp add: frag_ok_def)
  then show ?thesis using recv_ok [of c] try_recv_ok [of d c] by (metis prod.collapse)
qed

lemma recv_never_panics_witness:
  "snd (try_recv 5 (fst (ws_close 1000 [] (demo_conn [RData [0x80, 0]])))) \<noteq> Panic"
proof -
  let ?c = "demo_conn [RData [0x80, 0]]"
  have "ws_step ?c (fst (ws_close 1000 [] ?c))"
    by (rule step_close [of 1000 "[]" _ _ "snd (ws_close 1000 [] ?c)"]) simp
  then have "ws_reach ?c (fst (ws_close 1000 [] ?c))" by (blast intro: reach_refl reach_step)
  then show ?thesis using recv_never_panics [of ?c] by (simp add: demo_conn_def)
qed

text \<open>
  A connection sends at most one Close: once the flag is set it stays set along every
  sequence of calls, \<open>close\<close> is then a successful no-op, and a further Close frame from the server
  is reported without a write.
\<close>

lemma close_sent_once:
  assumes "cn_close_sent c" "frag_ok c" "ws_reach c c'"
  shows "cn_close_sent c' \<and> ws_close cd reason c' = (c', Done ())
    \<and> on_frame True OpClose p c' = (c', Fail (case parse_close_payload p of (k, s) \<Rightarrow> WsClosed k s))"
  using ws_reach_ok [OF assms(3,2)] assms(1)
  by (simp add: ws_close_def on_frame_def handle_frame_def hdr_of_def payload_eq split: prod.splits)

text \<open>
  The reply to the server's first Close echoes its code: 1005 when the Close had no
  code, a value the protocol reserves and forbids on the wire.
\<close>

lemma close_reply:
  assumes "\<not> cn_close_sent c" "roomy 1 c" "length p \<le> 125"
  defines "cd \<equiv> (if length p < 2 then 1005 else word_of_nat (from_be [p ! 0, p ! 1]))"
  shows "\<exists>c' s. on_frame True OpClose p c = (c', Fail (WsClosed cd s)) \<and> cn_close_sent c'
           \<and> cn_sent c' = cn_sent c @ fst (encode_close cd [] (cn_masks c (cn_drawn c)) [])"
proof -
  let ?c1 = "c\<lparr>cn_drawn := Suc (cn_drawn c)\<rparr>"
  let ?d = "fst (encode_close cd [] (cn_masks c (cn_drawn c)) [])"
  obtain s where s: "parse_close_payload p = (cd, s)"
    by (cases "length p < 2") (auto simp: parse_close_payload_def cd_def)
  have "roomy (Suc 0) ?c1" using assms(2) by (simp add: roomy_def)
  moreover have "length ?d \<le> 131" "?d \<noteq> []"
    using length_encode_control [of "be_bytes 2 (unat cd)"]
    by (simp_all add: encode_close_def encode_frame_def Let_def del: be_bytes.simps)
  ultimately obtain ws where "conn_write ?d ?c1 = (?c1\<lparr>cn_writes := ws, cn_sent := cn_sent ?c1 @ ?d\<rparr>, Done ())"
    using conn_write_roomy by blast
  then show ?thesis using assms(1) s
    by (simp add: on_frame_def handle_frame_def hdr_of_def payload_eq generate_mask_def)
qed

end
