(* ===== verification/Backends.thy ===== *)
theory Backends
  imports Plans Live H1Common
begin

text \<open>
  What the thread-per-scenario backends (\<open>sse/hold.rs\<close>, \<open>sse/fanout.rs\<close>, \<open>sse/reconnect_storm.rs\<close>,
  \<open>ws/hold.rs\<close>, \<open>ws/echo_rtt.rs\<close>, \<open>ws/server_push_rtt.rs\<close>, \<open>ws/fanout.rs\<close>) share: the loop over the
  scenarios of a plan, the deadline of a scenario, and the task statistics one scenario is reported
  in. The contract of a scenario's runner is a locale; each backend's theory interprets it.
\<close>

section \<open>The loop over the scenarios\<close>

fun find_map :: "('a \<Rightarrow> 'b option) \<Rightarrow> 'a list \<Rightarrow> 'b option" where
  "find_map f [] = None"
| "find_map f (x # xs) = (case f x of Some y \<Rightarrow> Some y | None \<Rightarrow> find_map f xs)"

text \<open>The scenarios a backend runs: those of its protocol with a step of its kind, by index.\<close>

definition backend_scenarios :: "protocol \<Rightarrow> (step \<Rightarrow> 'p option) \<Rightarrow> plan \<Rightarrow> (nat \<times> 'p) list" where
  "backend_scenarios proto pick pl =
     concat (map (\<lambda>sid. let sn = pl_scenarios pl ! sid in
        if scenario_protocol sn \<noteq> proto then []
        else (case find_map pick (sn_steps sn) of None \<Rightarrow> [] | Some p \<Rightarrow> [(sid, p)]))
       [0..<length (pl_scenarios pl)])"

text \<open>\<open>run\<close> is given the number of scenarios of the plan, the index and the step; it may skip.\<close>

definition run_backend ::
  "protocol \<Rightarrow> (step \<Rightarrow> 'p option) \<Rightarrow> (nat \<Rightarrow> nat \<Rightarrow> 'p \<Rightarrow> 'h task_stats option) \<Rightarrow> plan \<Rightarrow> 'h task_stats list" where
  "run_backend proto pick run pl =
     List.map_filter (\<lambda>(sid, p). run (length (pl_scenarios pl)) sid p) (backend_scenarios proto pick pl)"

definition wall_deadline :: "instant \<Rightarrow> duration \<Rightarrow> duration \<Rightarrow> instant" where
  "wall_deadline started dur hold_for = started + min dur (if hold_for = 0 then dur else hold_for)"

text \<open>
  A template outside any scenario: no variables, a counter of its own. What it leaves of the process
  state is not followed.
\<close>

definition render_template :: "'r world \<Rightarrow> 'r \<Rightarrow> proc_state \<Rightarrow> template \<Rightarrow> string" where
  "render_template W rng g tpl =
     from_utf8_lossy (fst (expand_into W tpl [] (expand_ctx_of (context_new 0 rng) g)))"

definition path_of_url :: "string \<Rightarrow> string" where
  "path_of_url s =
     (case find_sub ''://'' s of
        None \<Rightarrow> ''/''
      | Some i \<Rightarrow>
          (case find_pos (\<lambda>c. c = CHR ''/'') (drop (i + 3) s) of
             None \<Rightarrow> ''/''
           | Some j \<Rightarrow> drop (i + 3 + j) s))"

definition wire_host :: "target \<Rightarrow> string" where
  "wire_host t = (if (tg_tls t \<and> tg_port t = 443) \<or> (\<not> tg_tls t \<and> tg_port t = 80) then tg_host t
                  else tg_host t @ '':'' @ dec (unat (tg_port t)))"

text \<open>\<open>x > 0.0\<close> on the bit pattern: sign clear, not zero, at most infinity.\<close>

definition f64_positive :: "f64 \<Rightarrow> bool" where
  "f64_positive x = (0 < x \<and> x \<le> 0x7FF0000000000000)"

section \<open>The statistics of one scenario\<close>

text \<open>
  A task whose only used row is that of the scenario; \<open>extras\<close> fills in the protocol's part of it.
\<close>

record scenario_totals =
  st_requests :: u64
  st_bytes_sent :: u64
  st_bytes_recv :: u64
  st_connect :: u64
  st_read :: u64
  st_write :: u64

definition scenario_task ::
  "'h hist_ops \<Rightarrow> nat \<Rightarrow> nat \<Rightarrow> scenario_totals \<Rightarrow> ('h scenario_stats \<Rightarrow> 'h scenario_stats) \<Rightarrow> 'h task_stats" where
  "scenario_task H num_scenarios sid x extras =
     (let task = task_stats_new H num_scenarios in
      if sid < length (ts_per_scenario task) then
        task\<lparr>ts_requests := st_requests x, ts_bytes_sent := st_bytes_sent x, ts_bytes_recv := st_bytes_recv x,
          ts_errors := (ts_errors task)\<lparr>ec_connect := ec_connect (ts_errors task) + st_connect x,
            ec_read := ec_read (ts_errors task) + st_read x, ec_write := ec_write (ts_errors task) + st_write x\<rparr>,
          ts_per_scenario := update_at sid (\<lambda>sc. extras (sc\<lparr>sc_requests := st_requests x,
              sc_errors := (sc_errors sc)\<lparr>ec_connect := st_connect x, ec_read := st_read x, ec_write := st_write x\<rparr>\<rparr>))
            (ts_per_scenario task)\<rparr>
      else task)"

text \<open>Extras leave the counters alone.\<close>

definition extras_ok :: "('h scenario_stats \<Rightarrow> 'h scenario_stats) \<Rightarrow> bool" where
  "extras_ok f = (\<forall>sc. sc_requests (f sc) = sc_requests sc \<and> sc_errors (f sc) = sc_errors sc)"

lemma scenario_task_rolled_up:
  assumes "extras_ok f"
  shows "rolled_up (scenario_task H n sid x f) \<and> length (ts_per_scenario (scenario_task H n sid x f)) = n"
proof (cases "sid < n")
  case True
  have z: "sc_requests (scenario_stats_new H i) = 0" "sc_errors (scenario_stats_new H i) = ec_default" for i
    by (simp_all add: scenario_stats_new_def)
  have t: "ts_errors (task_stats_new H n) = ec_default" by (simp add: task_stats_new_def)
  have len: "sid < length (ts_per_scenario (task_stats_new H n))" using True by (simp add: count_simps)
  show ?thesis
    using rolled_up_new [of H n] assms
    by (simp add: scenario_task_def Let_def True rolled_up_def sum_list_update_at [OF len] z t extras_ok_def
        count_simps ec_default_def ec_total_def ec_hard_total_def ec_soft_total_def)
qed (simp add: scenario_task_def Let_def rolled_up_new count_simps)

section \<open>The contract of a backend\<close>

lemma rolled_up_merge:
  assumes "rolled_up a" "rolled_up b" "length (ts_per_scenario a) = length (ts_per_scenario b)"
  shows "rolled_up (task_merge H a b) \<and> length (ts_per_scenario (task_merge H a b)) = length (ts_per_scenario a)"
proof -
  have "sum_list (map sc_requests (merge_scenarios H xs ys)) = sum_list (map sc_requests xs) + sum_list (map sc_requests ys)
    \<and> sum_list (map (\<lambda>s. ec_total (sc_errors s)) (merge_scenarios H xs ys))
      = sum_list (map (\<lambda>s. ec_total (sc_errors s)) xs) + sum_list (map (\<lambda>s. ec_total (sc_errors s)) ys)"
    if "length xs = length ys" for xs ys
    using that
  proof (induction xs ys rule: list_induct2)
    case (Cons x xs y ys)
    then show ?case by (simp add: acc_scenario.merge_adds acc_sc_errors.merge_adds ac_simps)
  qed simp
  from this [OF assms(3)] assms show ?thesis
    by (simp add: rolled_up_def task_merge_def count_simps)
qed

lemma rolled_up_summary:
  assumes "ts \<noteq> []" "\<forall>t \<in> set ts. rolled_up t \<and> length (ts_per_scenario t) = n"
  shows "rolled_up (sm_stats (summary_merge H ts d)) \<and> length (ts_per_scenario (sm_stats (summary_merge H ts d))) = n"
proof -
  have "rolled_up (foldl (task_merge H) t ts) \<and> length (ts_per_scenario (foldl (task_merge H) t ts)) = n"
    if "rolled_up t" "length (ts_per_scenario t) = n" "\<forall>t \<in> set ts. rolled_up t \<and> length (ts_per_scenario t) = n" for t
    using that by (induction ts arbitrary: t) (auto simp: rolled_up_merge)
  from this [of "task_stats_new H n"] assms show ?thesis
    by (cases ts) (auto simp: summary_merge_def rolled_up_new count_simps)
qed

text \<open>
  A runner of one scenario: what it reports rolls up and has one row per scenario of the plan. Then
  so does everything the backend reports, and the summary made of it.
\<close>

locale scenario_backend =
  fixes run :: "nat \<Rightarrow> nat \<Rightarrow> 'p \<Rightarrow> 'h task_stats option"
  assumes reports: "run n sid p = Some t \<Longrightarrow> rolled_up t \<and> length (ts_per_scenario t) = n"
begin

lemma tasks_roll_up:
  "t \<in> set (run_backend proto pick run pl) \<Longrightarrow> rolled_up t \<and> length (ts_per_scenario t) = length (pl_scenarios pl)"
  by (auto simp: run_backend_def map_filter_def dest: reports)

lemma summary_rolls_up:
  assumes "run_backend proto pick run pl \<noteq> []"
  shows "rolled_up (sm_stats (summary_merge H (run_backend proto pick run pl) d))
    \<and> length (ts_per_scenario (sm_stats (summary_merge H (run_backend proto pick run pl) d))) = length (pl_scenarios pl)"
  using rolled_up_summary [OF assms] tasks_roll_up by blast

end

text \<open>Which scenarios are run.\<close>

lemma find_map_Some: "find_map f xs = Some y \<Longrightarrow> \<exists>x \<in> set xs. f x = Some y"
  by (induction xs) (auto split: option.splits)

lemma backend_scenarios_sid:
  "(sid, p) \<in> set (backend_scenarios proto pick pl) \<longleftrightarrow>
     sid < length (pl_scenarios pl) \<and> scenario_protocol (pl_scenarios pl ! sid) = proto
     \<and> find_map pick (sn_steps (pl_scenarios pl ! sid)) = Some p"
  by (auto simp: backend_scenarios_def Let_def split: option.splits if_splits)

end
