(* ===== verification/BlockingIo.thy ===== *)
theory BlockingIo
  imports SseHold Backends
begin

text \<open>
  The blocking connections of the one-socket backends (\<open>sse/fanout.rs\<close>, \<open>sse/reconnect_storm.rs\<close>,
  \<open>http/simple_post.rs\<close>): setting up the stream, writing the request, waiting for readiness, and the
  reader of an SSE response. Each answer of the operating system is a parameter.
\<close>

section \<open>Waiting\<close>

text \<open>
  One turn of a wait: the clock, and the poll's result, which is an error or whether an event of the
  kind waited for was in the batch.
\<close>

datatype wait_end = WaitReady | WaitTimedOut | WaitPollError | WaitPending

fun wait_for :: "instant \<Rightarrow> (instant \<times> bool option) list \<Rightarrow> wait_end" where
  "wait_for deadline [] = WaitPending"
| "wait_for deadline ((now, r) # ts) =
     (if deadline \<le> now then WaitTimedOut
      else (case r of
              None \<Rightarrow> WaitPollError
            | Some True \<Rightarrow> WaitReady
            | Some False \<Rightarrow> wait_for deadline ts))"

section \<open>Opening the stream\<close>

datatype open_end =
    OpenOk
  | OpenResolve
  | OpenPoll
  | OpenConnect
  | OpenRegister
  | OpenWait
  | OpenPeer
  | OpenNoTls
  | OpenTls
  | OpenHandshakeSlow
  | OpenHandshake
  | OpenPending

text \<open>The handshake loop: time since its start, whether the I/O worked, whether it still goes on.\<close>

fun drive_handshake :: "(duration \<times> bool \<times> bool) list \<Rightarrow> open_end" where
  "drive_handshake [] = OpenPending"
| "drive_handshake ((elapsed, ok, handshaking) # hs) =
     (if 5000000000 < elapsed then OpenHandshakeSlow
      else if \<not> ok then OpenHandshake
      else if \<not> handshaking then OpenOk
      else drive_handshake hs)"

record open_env =
  oe_resolve :: bool
  oe_poll :: bool
  oe_connect :: bool
  oe_register :: bool
  oe_wait :: wait_end
  oe_peer :: bool
  oe_tls_config :: bool
  oe_tls_new :: bool
  oe_handshake :: "(duration \<times> bool \<times> bool) list"

text \<open>The fanout subscriber does not look at \<open>peer_addr\<close>; the other two do.\<close>

definition open_stream :: "bool \<Rightarrow> target \<Rightarrow> open_env \<Rightarrow> open_end" where
  "open_stream check_peer t E =
     (if \<not> oe_resolve E then OpenResolve
      else if \<not> oe_poll E then OpenPoll
      else if \<not> oe_connect E then OpenConnect
      else if \<not> oe_register E then OpenRegister
      else if oe_wait E \<noteq> WaitReady then OpenWait
      else if check_peer \<and> \<not> oe_peer E then OpenPeer
      else if \<not> tg_tls t then OpenOk
      else if \<not> oe_tls_config E then OpenNoTls
      else if \<not> oe_tls_new E then OpenTls
      else drive_handshake (oe_handshake E))"

section \<open>Writing the request\<close>

text \<open>A write, and for one that would block whether the wait for writability ended well.\<close>

datatype send_end = SendOk | SendZero | SendWait | SendError | SendPending

fun send_all :: "nat \<Rightarrow> (write_answer \<times> bool) list \<Rightarrow> nat \<Rightarrow> send_end" where
  "send_all len [] pos = (if len \<le> pos then SendOk else SendPending)"
| "send_all len ((w, ready) # ws) pos =
     (if len \<le> pos then SendOk
      else (case w of
              WroteOk n \<Rightarrow> (if n = 0 then SendZero else send_all len ws (pos + n))
            | WroteWouldBlock \<Rightarrow> (if ready then send_all len ws pos else SendWait)
            | WroteErr \<Rightarrow> SendError))"

section \<open>Reading an SSE response\<close>

text \<open>The state of the read loop: header bytes so far, and the body's decoder and framer.\<close>

record sse_reader =
  rd_pre_body :: bytes
  rd_header_done :: bool
  rd_decoder :: chunk_decoder
  rd_parser :: sse_parser

definition reader_new :: sse_reader where
  "reader_new = \<lparr>rd_pre_body = [], rd_header_done = False, rd_decoder = chunk_new, rd_parser = sse_new\<rparr>"

definition reader_body :: "bytes \<Rightarrow> sse_reader \<Rightarrow> sse_reader \<times> sse_event list" where
  "reader_body body r =
     (case chunk_decode (rd_decoder r) body of
        (d', decoded, _) \<Rightarrow>
          (if decoded = [] then (r\<lparr>rd_decoder := d'\<rparr>, [])
           else (case sse_feed (rd_parser r) decoded of
                   (p', evs) \<Rightarrow> (r\<lparr>rd_decoder := d', rd_parser := p'\<rparr>, evs))))"

definition reader_feed :: "bytes \<Rightarrow> sse_reader \<Rightarrow> sse_reader \<times> sse_event list" where
  "reader_feed d r =
     (if rd_header_done r then reader_body d r
      else (let pre = rd_pre_body r @ d; r1 = r\<lparr>rd_pre_body := pre\<rparr> in
            case map_option (\<lambda>p. p + 4) (find_sub (CRLF @ CRLF) pre) of
              None \<Rightarrow> (r1, [])
            | Some hdr_end \<Rightarrow>
                (let grown = length pre - length d
                 in reader_body (drop (hdr_end - grown) d) (r1\<lparr>rd_header_done := True\<rparr>))))"

fun reader_feeds :: "bytes list \<Rightarrow> sse_reader \<Rightarrow> sse_reader \<times> sse_event list" where
  "reader_feeds [] r = (r, [])"
| "reader_feeds (d # ds) r =
     (case reader_feed d r of (r1, e1) \<Rightarrow> (case reader_feeds ds r1 of (r2, e2) \<Rightarrow> (r2, e1 @ e2)))"

text \<open>
  What a response that has arrived so far amounts to: nothing before its head is complete, then what
  the chunk decoder and the framer make of the rest at once.
\<close>

definition body_seen :: "bytes \<Rightarrow> (chunk_decoder \<times> sse_parser) \<times> sse_event list" where
  "body_seen x = (case find_sub (CRLF @ CRLF) x of
     None \<Rightarrow> ((chunk_new, sse_new), [])
   | Some p \<Rightarrow> body.pipe (chunk_new, sse_new) (drop (p + 4) x))"

definition reader_at :: "bytes \<Rightarrow> sse_reader \<Rightarrow> bool" where
  "reader_at x r = ((rd_decoder r, rd_parser r) = fst (body_seen x)
     \<and> rd_header_done r = (find_sub (CRLF @ CRLF) x \<noteq> None) \<and> (\<not> rd_header_done r \<longrightarrow> rd_pre_body r = x))"

lemma reader_body_pipe:
  "body.pipe (rd_decoder r, rd_parser r) d = ((cd, p), evs) \<Longrightarrow>
     reader_body d r = (r\<lparr>rd_decoder := cd, rd_parser := p\<rparr>, evs)"
  by (cases r) (auto simp: reader_body_def body.pipe_def chunk_feed_def stream_simps split: prod.splits)

lemma find_sub_late:
  assumes "find_sub n x = None" "find_sub n (x @ d) = Some p"
  shows "length x < p + length n"
proof (rule ccontr)
  assume "\<not> length x < p + length n"
  then have "find_sub n x = Some p" using find_sub_append_bound [OF assms(2)] by simp
  then show False using assms(1) by simp
qed

lemma reader_step:
  assumes "reader_at x r" "reader_feed d r = (r', evs)"
  shows "reader_at (x @ d) r' \<and> snd (body_seen (x @ d)) = snd (body_seen x) @ evs"
proof (cases "find_sub (CRLF @ CRLF) x")
  case (Some p)
  then have dn: "rd_header_done r" "body_seen x = body.pipe (chunk_new, sse_new) (drop (p + 4) x)"
    using assms(1) by (simp_all add: reader_at_def body_seen_def)
  have xd: "find_sub (CRLF @ CRLF) (x @ d) = Some p" using find_sub_append [OF Some] .
  have "p + 4 \<le> length x" using find_sub_SomeD [OF Some] by (simp add: CRLF_def)
  then have seen: "body_seen (x @ d) = body.pipe (chunk_new, sse_new) (drop (p + 4) x @ d)"
    by (simp add: body_seen_def xd)
  obtain cd q es where pipe: "body.pipe (rd_decoder r, rd_parser r) d = ((cd, q), es)" by (metis prod_cases3 prod.collapse)
  have at: "fst (body_seen x) = (rd_decoder r, rd_parser r)" using assms(1) by (simp add: reader_at_def)
  have "body_seen (x @ d) = ((cd, q), snd (body_seen x) @ es)"
    unfolding seen body.piped.feed_append using at pipe dn(2) by simp
  moreover have "reader_feed d r = (r\<lparr>rd_decoder := cd, rd_parser := q\<rparr>, es)"
    using reader_body_pipe [OF pipe] dn(1) by (simp add: reader_feed_def)
  ultimately show ?thesis using assms(2) xd dn(1) by (auto simp: reader_at_def)
next
  case None
  then have r: "\<not> rd_header_done r" "rd_pre_body r = x" "rd_decoder r = chunk_new" "rd_parser r = sse_new" "body_seen x = ((chunk_new, sse_new), [])"
    using assms(1) by (simp_all add: reader_at_def body_seen_def)
  show ?thesis
  proof (cases "find_sub (CRLF @ CRLF) (x @ d)")
    case n: None
    then show ?thesis using r assms(2) by (auto simp: reader_feed_def reader_at_def body_seen_def Let_def)
  next
    case (Some p)
    have "length x < p + 4" using find_sub_late [OF None Some] by (simp add: CRLF_def)
    then have rest: "drop (p + 4) (x @ d) = drop (p + 4 - length x) d" by simp
    obtain cd q es where pipe: "body.pipe (chunk_new, sse_new) (drop (p + 4 - length x) d) = ((cd, q), es)"
      by (metis prod_cases3 prod.collapse)
    let ?r1 = "r\<lparr>rd_pre_body := x @ d, rd_header_done := True\<rparr>"
    have "reader_body (drop (p + 4 - length x) d) ?r1 = (?r1\<lparr>rd_decoder := cd, rd_parser := q\<rparr>, es)"
      using reader_body_pipe [of ?r1 "drop (p + 4 - length x) d"] pipe r by simp
    then have "reader_feed d r = (?r1\<lparr>rd_decoder := cd, rd_parser := q\<rparr>, es)"
      using r Some by (simp add: reader_feed_def Let_def)
    moreover have "body_seen (x @ d) = ((cd, q), es)" using rest pipe by (simp add: body_seen_def Some)
    ultimately show ?thesis using assms(2) Some r by (auto simp: reader_at_def)
  qed
qed

lemma reader_feeds_from:
  "reader_at x r \<Longrightarrow> reader_feeds ds r = (r', evs) \<Longrightarrow>
     reader_at (x @ concat ds) r' \<and> snd (body_seen (x @ concat ds)) = snd (body_seen x) @ evs"
proof (induction ds arbitrary: x r evs)
  case (Cons d ds)
  obtain r1 e1 where s: "reader_feed d r = (r1, e1)" by fastforce
  obtain e2 where t: "reader_feeds ds r1 = (r', e2)" "evs = e1 @ e2"
    using Cons.prems(2) s by (auto split: prod.splits)
  note st = reader_step [OF Cons.prems(1) s]
  show ?case using Cons.IH [OF conjunct1 [OF st] t(1)] st t(2) by simp
qed simp

text \<open>However a response is cut, the events are those of the whole response.\<close>

lemma reader_any_split:
  "snd (reader_feeds ds reader_new) = snd (body_seen (concat ds))"
proof -
  have "reader_at [] reader_new" by (simp add: reader_at_def reader_new_def body_seen_def CRLF_def)
  from reader_feeds_from [OF this, of ds "fst (reader_feeds ds reader_new)" "snd (reader_feeds ds reader_new)"]
  show ?thesis by (simp add: body_seen_def CRLF_def)
qed

lemma reader_feeds_append:
  "reader_feeds (xs @ ys) r = (case reader_feeds xs r of (r1, e1) \<Rightarrow> (case reader_feeds ys r1 of (r2, e2) \<Rightarrow> (r2, e1 @ e2)))"
  by (induction xs arbitrary: r) (simp_all split: prod.splits)

text \<open>A whole response with a head of \<open>ls\<close> and a chunked stream of rendered events.\<close>

lemma body_seen_response:
  assumes "ls \<noteq> []" "\<forall>l \<in> set ls. head_line l" "\<forall>(ext, data) \<in> set cks. ext_ok ext \<and> data_ok data"
  shows "snd (body_seen (http_head ls @ concat (map (\<lambda>(ext, data). chunk_bytes ext data) cks)))
    = snd (sse_feed sse_new (concat (map snd cks)))"
proof -
  have "find_sub (CRLF @ CRLF) (http_head ls @ concat (map (\<lambda>(ext, data). chunk_bytes ext data) cks))
      = Some (length (http_head ls) - 4)"
    using find_blank_line assms(1,2) by blast
  moreover have "4 \<le> length (http_head ls)" using assms(1) by (cases ls) (simp_all add: http_head_def CRLF_def)
  ultimately show ?thesis
    using chunk_feed_chunks [OF assms(3)] by (simp add: body_seen_def body.pipe_def split: prod.splits)
qed

end
