(* ===== verification/SseHoldRun.thy ===== *)
theory SseHoldRun
  imports SseHold Backends
begin

text \<open>
  The hold backend around the event handler of \<open>sse/hold.rs\<close>: the event loop with its deadline, the
  run of one scenario and the driver over the scenarios of a plan. What resolution, connecting, the
  clock and the poll give is the environment of a scenario.
\<close>

section \<open>The event loop\<close>

text \<open>
  One turn: the stop flag and the clock as read at its top, and the poll's result (\<open>None\<close> an error).
\<close>

record hold_turn =
  ht_stop :: bool
  ht_now :: instant
  ht_events :: "poll_event list option"

fun hold_loop ::
  "'h hist_ops \<Rightarrow> (nat \<Rightarrow> instant) \<Rightarrow> bytes \<Rightarrow> bool \<Rightarrow> instant \<Rightarrow> hold_turn list \<Rightarrow> 'h hold_loop \<Rightarrow> 'h hold_loop" where
  "hold_loop H clock request reconnect deadline [] l = l"
| "hold_loop H clock request reconnect deadline (tn # tns) l =
     (if hl_alive l = 0 then l
      else if ht_stop tn \<or> deadline \<le> ht_now tn then l
      else (case ht_events tn of
              None \<Rightarrow> l
            | Some evs \<Rightarrow>
                hold_loop H clock request reconnect deadline tns
                  (foldl (\<lambda>l ev. hold_on_event H clock request reconnect deadline ev l) l evs)))"

section \<open>One scenario\<close>

record hold_env =
  he_started :: instant
  he_resolves :: bool
  he_polls :: bool
  he_socks :: "nat \<Rightarrow> sock option"
  he_clock :: "nat \<Rightarrow> instant"
  he_turns :: "hold_turn list"

text \<open>The subscribers' streams, in slot order, and the loop's state when it ends.\<close>

definition hold_socks :: "hold_env \<Rightarrow> sse_hold_plan \<Rightarrow> sock option list" where
  "hold_socks E p = map (he_socks E) [0..<max (unat (shp_subscribers p)) 1]"

definition hold_final ::
  "'h hist_ops \<Rightarrow> (template \<Rightarrow> bytes) \<Rightarrow> target \<Rightarrow> hold_env \<Rightarrow> duration \<Rightarrow> sse_hold_plan \<Rightarrow> 'h hold_loop" where
  "hold_final H expand t E dur p =
     hold_loop H (he_clock E) (hold_request t (extract_path (expand (shp_url p)))) (shp_reconnect p)
       (wall_deadline (he_started E) dur (shp_hold_for p)) (he_turns E) (hold_start H (hold_socks E p))"

definition run_hold_scenario ::
  "'h hist_ops \<Rightarrow> (template \<Rightarrow> bytes) \<Rightarrow> target \<Rightarrow> hold_env \<Rightarrow> duration \<Rightarrow> sse_hold_plan \<Rightarrow> 'h rollup" where
  "run_hold_scenario H expand t E dur p =
     (if \<not> he_resolves E \<or> \<not> he_polls E then rollup_new H (word_of_nat (length (hold_socks E p)))
      else hold_rollup H (word_of_nat (length (filter (\<lambda>s. s = None) (hold_socks E p)))) (hold_final H expand t E dur p))"

definition hold_extras :: "'h hist_ops \<Rightarrow> 'h rollup \<Rightarrow> 'h scenario_stats \<Rightarrow> 'h scenario_stats" where
  "hold_extras H r sc =
     sc\<lparr>sc_sse := Some \<lparr>se_ttfb = ru_ttfb r, se_chunk_gap = ru_event_gap r, se_chunks = ru_events r,
          se_streams_completed = ru_streams_completed r, se_bytes_received = ru_bytes_received r,
          se_broadcast_rtt = new_hist H\<rparr>\<rparr>"

definition hold_task :: "'h hist_ops \<Rightarrow> nat \<Rightarrow> nat \<Rightarrow> 'h rollup \<Rightarrow> 'h task_stats" where
  "hold_task H num_scenarios sid r =
     scenario_task H num_scenarios sid
       \<lparr>st_requests = ru_events r, st_bytes_sent = 0, st_bytes_recv = ru_bytes_received r,
        st_connect = ru_errors_connect r, st_read = ru_errors_read r, st_write = 0\<rparr> (hold_extras H r)"

fun hold_step :: "step \<Rightarrow> sse_hold_plan option" where
  "hold_step (SseHold p) = Some p"
| "hold_step _ = None"

definition hold_run ::
  "'h hist_ops \<Rightarrow> (template \<Rightarrow> bytes) \<Rightarrow> target \<Rightarrow> (nat \<Rightarrow> hold_env) \<Rightarrow> duration
     \<Rightarrow> nat \<Rightarrow> nat \<Rightarrow> sse_hold_plan \<Rightarrow> 'h task_stats option" where
  "hold_run H expand t env dur n sid p = Some (hold_task H n sid (run_hold_scenario H expand t (env sid) dur p))"

definition run_sse_hold ::
  "'h hist_ops \<Rightarrow> (template \<Rightarrow> bytes) \<Rightarrow> target \<Rightarrow> (nat \<Rightarrow> hold_env) \<Rightarrow> duration \<Rightarrow> plan \<Rightarrow> 'h task_stats list" where
  "run_sse_hold H expand t env dur pl = run_backend Sse hold_step (hold_run H expand t env dur) pl"

interpretation sse_hold: scenario_backend "hold_run H expand t env dur" for H expand t env dur
proof unfold_locales
  fix n sid p t'
  assume "hold_run H expand t env dur n sid p = Some t'"
  then show "rolled_up t' \<and> length (ts_per_scenario t') = n"
    using scenario_task_rolled_up [of "hold_extras H _"]
    by (auto simp: hold_run_def hold_task_def extras_ok_def hold_extras_def)
qed

section \<open>Lemmas on the loop\<close>

text \<open>The invariant of the loop's count carries over to the whole run.\<close>

lemma foldl_on_event_alive:
  "alive_ok l \<Longrightarrow> alive_ok (foldl (\<lambda>l ev. hold_on_event H clock request reconnect deadline ev l) l evs)"
  by (induction evs arbitrary: l) (simp_all add: alive_on_event)

lemma hold_loop_alive: "alive_ok l \<Longrightarrow> alive_ok (hold_loop H clock request reconnect deadline tns l)"
  by (induction tns arbitrary: l) (auto simp: foldl_on_event_alive split: option.splits)

lemma hold_start_alive: "alive_ok (hold_start H socks)"
  by (induction socks) (auto simp: hold_start_def alive_ok_def live_def create_subscriber_def Let_def)

lemma hold_on_event_slots: "length (hl_subs (hold_on_event H clock request reconnect deadline ev l)) = length (hl_subs l)"
  by (auto simp: hold_on_event_def Let_def split: option.splits prod.splits drive_outcome.splits)

lemma foldl_on_event_slots:
  "length (hl_subs (foldl (\<lambda>l ev. hold_on_event H clock request reconnect deadline ev l) l evs)) = length (hl_subs l)"
  by (induction evs arbitrary: l) (simp_all add: hold_on_event_slots)

lemma hold_loop_slots: "length (hl_subs (hold_loop H clock request reconnect deadline tns l)) = length (hl_subs l)"
  by (induction tns arbitrary: l) (auto simp: foldl_on_event_slots split: option.splits)

section \<open>Saturating sums\<close>

lemma unat_sat_add_min: "unat (sat_add a b) = min (2 ^ 64 - 1) (unat a + unat b)"
proof (cases "2 ^ 64 \<le> unat a + unat b")
  case True
  then show ?thesis by (simp add: sat_add_def unsigned_minus_1_eq_mask mask_eq_exp_minus_1)
next
  case False
  then have "unat (a + b) = unat a + unat b" by (simp add: unat_word_ariths)
  then show ?thesis using False by (simp add: sat_add_def)
qed

lemma sat_add_fold:
  assumes "\<And>r x. get (step r x) = sat_add (get r) (val x)"
  shows "unat (get (foldl step r xs)) = min (2 ^ 64 - 1) (unat (get r) + sum_list (map (\<lambda>x. unat (val x)) xs))"
proof (induction xs arbitrary: r)
  case Nil
  have "unat (get r) < 2 ^ 64" using unsigned_less [of "get r"] by simp
  then show ?case by simp
next
  case (Cons x xs)
  show ?case by (simp add: Cons.IH assms unat_sat_add_min)
qed

definition slot_subs :: "'h hold_loop \<Rightarrow> 'h subscriber list" where
  "slot_subs l = concat (map (\<lambda>s. case s of Some x \<Rightarrow> [x] | None \<Rightarrow> []) (hl_subs l))"

definition held_sum :: "('h hold_stats \<Rightarrow> u64) \<Rightarrow> 'h hold_loop \<Rightarrow> nat" where
  "held_sum f l = sum_list (map (\<lambda>s. unat (f (su_stats s))) (slot_subs l))"

section \<open>Properties\<close>

text \<open>
  The statistics of a hold scenario are the saturating sums over its subscribers: with
  the loop's state at the end of the run, the reported requests are the events of the
  subscribers in the slots, the bytes their bytes, the read errors their read errors, and the
  connect errors their connect errors and one for every subscriber that could not be created.
  Nothing is counted twice, and no sum wraps around. The loop's count of live subscribers is exact
  there, whatever errors, ends of stream, reconnects and failed reconnects it went through.
\<close>

lemma hold_scenario_sums:
  fixes H :: "'h hist_ops" and E dur p expand t n sid
  defines "l \<equiv> hold_final H expand t E dur p"
    and "tk \<equiv> hold_task H n sid (run_hold_scenario H expand t E dur p)"
  assumes "he_resolves E" "he_polls E" "sid < n"
  shows "length (hl_subs l) = length (hold_socks E p) \<and> hl_alive l = length (filter live (hl_subs l))
    \<and> unat (ts_requests tk) = min (2 ^ 64 - 1) (held_sum ho_events l)
    \<and> unat (ts_bytes_recv tk) = min (2 ^ 64 - 1) (held_sum ho_bytes_received l)
    \<and> unat (ec_read (ts_errors tk)) = min (2 ^ 64 - 1) (held_sum ho_errors_read l)
    \<and> unat (ec_connect (ts_errors tk)) = min (2 ^ 64 - 1)
        (length (filter (\<lambda>s. s = None) (hold_socks E p)) + held_sum ho_errors_connect l)"
proof -
  let ?failed = "length (filter (\<lambda>s. s = None) (hold_socks E p))"
  define r where "r = run_hold_scenario H expand t E dur p"
  have r: "r = foldl (rollup_add H) (rollup_new H (word_of_nat ?failed)) (slot_subs l)"
    using assms(3,4) by (simp add: r_def run_hold_scenario_def hold_rollup_def slot_subs_def l_def)
  have "?failed \<le> max (unat (shp_subscribers p)) 1"
    using length_filter_le [of "\<lambda>s. s = None" "hold_socks E p"] by (simp add: hold_socks_def)
  moreover have "unat (shp_subscribers p) < 2 ^ 32" using unsigned_less [of "shp_subscribers p"] by simp
  ultimately have "unat (word_of_nat ?failed :: u64) = ?failed" by (simp add: unat_of_nat)
  then have sums: "unat (ru_events r) = min (2 ^ 64 - 1) (held_sum ho_events l)"
    "unat (ru_bytes_received r) = min (2 ^ 64 - 1) (held_sum ho_bytes_received l)"
    "unat (ru_errors_read r) = min (2 ^ 64 - 1) (held_sum ho_errors_read l)"
    "unat (ru_errors_connect r) = min (2 ^ 64 - 1) (?failed + held_sum ho_errors_connect l)"
    unfolding r held_sum_def
    by (subst sat_add_fold, simp_all add: rollup_add_def Let_def rollup_new_def)+
  have "sid < length (ts_per_scenario (task_stats_new H n))" using assms(5) by (simp add: count_simps)
  then have "ts_requests tk = ru_events r" "ts_bytes_recv tk = ru_bytes_received r"
    "ec_read (ts_errors tk) = ru_errors_read r" "ec_connect (ts_errors tk) = ru_errors_connect r"
    by (simp_all add: tk_def r_def [symmetric] hold_task_def scenario_task_def Let_def task_stats_new_def ec_default_def)
  moreover have "length (hl_subs l) = length (hold_socks E p)" "alive_ok l"
    using hold_loop_alive [OF hold_start_alive]
    by (simp_all add: l_def hold_final_def hold_loop_slots) (simp add: hold_start_def Let_def)
  ultimately show ?thesis using sums by (simp add: alive_ok_def)
qed

definition demo_env :: hold_env where
  "demo_env = \<lparr>he_started = 5, he_resolves = True, he_polls = True, he_socks = (\<lambda>_. None),
     he_clock = (\<lambda>n. n), he_turns = []\<rparr>"

definition demo_sse_hold :: sse_hold_plan where
  "demo_sse_hold = \<lparr>shp_url = template_literal ''http://h/s'', shp_headers = [], shp_subscribers = 3,
     shp_hold_for = 0, shp_reconnect = True\<rparr>"

end
