(* ===== verification/SseStorm.thy ===== *)
theory SseStorm
  imports BlockingIo
begin

text \<open>
  The reconnect-storm backend, \<open>sse/reconnect_storm.rs\<close>: one session of a subscriber from connecting
  to the end of its read loop, the subscriber that is killed and reconnects with \<open>Last-Event-ID\<close>,
  and the roll-up over the subscribers. The clock, the random kill times and the answers of the
  operating system are parameters.
\<close>

section \<open>One session\<close>

record session_outcome =
  sx_events :: u64
  sx_bytes_received :: u64
  sx_ttfb :: "duration option"
  sx_first_byte_at :: "instant option"
  sx_last_event_id :: "string option"
  sx_saw_prior_id :: bool

definition storm_request :: "target \<Rightarrow> string \<Rightarrow> string option \<Rightarrow> bytes" where
  "storm_request t path last_event_id =
     ''GET '' @ path @ '' HTTP/1.1'' @ CRLF @ ''Host: '' @ wire_host t @ CRLF @
     ''Accept: text/event-stream'' @ CRLF @ ''Cache-Control: no-cache'' @ CRLF @
     ''Connection: keep-alive'' @ CRLF @
     (case last_event_id of Some i \<Rightarrow> ''Last-Event-ID: '' @ i @ CRLF | None \<Rightarrow> []) @ CRLF"

text \<open>The callback of the framer.\<close>

definition storm_event :: "string option \<Rightarrow> session_outcome \<Rightarrow> sse_event \<Rightarrow> session_outcome" where
  "storm_event expected out ev =
     (case ev of
        SseData _ \<Rightarrow> out\<lparr>sx_events := sx_events out + 1\<rparr>
      | SseId val \<Rightarrow>
          (if valid_utf8 val then
             (let trimmed = trim val;
                  out1 = (if expected = Some trimmed then out\<lparr>sx_saw_prior_id := True\<rparr> else out)
              in out1\<lparr>sx_last_event_id := Some trimmed\<rparr>)
           else out)
      | _ \<Rightarrow> out)"

text \<open>One turn of the read loop; \<open>rt_now\<close> is the clock read after the socket.\<close>

record read_turn =
  rt_stop :: bool
  rt_check :: instant
  rt_read :: read_answer
  rt_now :: instant

definition on_storm_bytes ::
  "string option \<Rightarrow> instant \<Rightarrow> instant \<Rightarrow> bytes \<Rightarrow> sse_reader \<times> session_outcome \<Rightarrow> sse_reader \<times> session_outcome" where
  "on_storm_bytes expected t_sent now d ro =
     (case ro of (r, out) \<Rightarrow>
        (let out1 = (if sx_first_byte_at out = None then
                       out\<lparr>sx_first_byte_at := Some now, sx_ttfb := Some (now - t_sent)\<rparr> else out);
             out2 = out1\<lparr>sx_bytes_received := sx_bytes_received out1 + word_of_nat (length d)\<rparr>
         in (case reader_feed d r of (r', evs) \<Rightarrow> (r', foldl (storm_event expected) out2 evs))))"

text \<open>The loop over its turns; it has ended when they are used up.\<close>

fun storm_read ::
  "string option \<Rightarrow> instant \<Rightarrow> instant \<Rightarrow> string \<Rightarrow> read_turn list \<Rightarrow> sse_reader \<times> session_outcome
     \<Rightarrow> transport_error + session_outcome" where
  "storm_read expected t_sent deadline msg [] ro = Inr (snd ro)"
| "storm_read expected t_sent deadline msg (tn # tns) ro =
     (if rt_stop tn \<or> deadline \<le> rt_check tn then Inr (snd ro)
      else (case rt_read tn of
              ReadOk d \<Rightarrow>
                (if d = [] then Inr (snd ro)
                 else storm_read expected t_sent deadline msg tns (on_storm_bytes expected t_sent (rt_now tn) d ro))
            | ReadWouldBlock \<Rightarrow>
                (if deadline \<le> rt_now tn then Inr (snd ro)
                 else storm_read expected t_sent deadline msg tns ro)
            | ReadErr \<Rightarrow> Inl (TeRead msg)))"

definition outcome_new :: "string option \<Rightarrow> session_outcome" where
  "outcome_new expected = \<lparr>sx_events = 0, sx_bytes_received = 0, sx_ttfb = None, sx_first_byte_at = None,
     sx_last_event_id = expected, sx_saw_prior_id = False\<rparr>"

text \<open>\<open>se_msg\<close> is the text of whatever error the operating system reports.\<close>

record session_env =
  sn_open :: open_env
  sn_msg :: string
  sn_writes :: "(write_answer \<times> bool) list"
  sn_t_sent :: instant
  sn_turns :: "read_turn list"

fun open_error :: "string \<Rightarrow> open_end \<Rightarrow> transport_error option" where
  "open_error msg OpenOk = None"
| "open_error msg OpenResolve = Some (TeConnect ''dns'')"
| "open_error msg OpenNoTls = Some (TeTls ''tls config missing'')"
| "open_error msg OpenTls = Some (TeTls msg)"
| "open_error msg OpenHandshake = Some (TeTls (''handshake: '' @ msg))"
| "open_error msg OpenHandshakeSlow = Some TeTimeout"
| "open_error msg _ = Some (TeConnect msg)"

fun send_error :: "string \<Rightarrow> send_end \<Rightarrow> transport_error option" where
  "send_error msg SendZero = Some (TeWrite ''peer closed during request write'')"
| "send_error msg SendWait = Some TeTimeout"
| "send_error msg SendError = Some (TeWrite msg)"
| "send_error msg _ = None"

definition run_one_session ::
  "target \<Rightarrow> string \<Rightarrow> session_env \<Rightarrow> instant \<Rightarrow> string option \<Rightarrow> transport_error + session_outcome" where
  "run_one_session t path E deadline expected =
     (case open_error (sn_msg E) (open_stream True t (sn_open E)) of
        Some e \<Rightarrow> Inl e
      | None \<Rightarrow>
          (case send_error (sn_msg E) (send_all (length (storm_request t path expected)) (sn_writes E) 0) of
             Some e \<Rightarrow> Inl e
           | None \<Rightarrow>
               storm_read expected (sn_t_sent E) deadline (sn_msg E) (sn_turns E) (reader_new, outcome_new expected)))"

section \<open>One subscriber\<close>

record storm_stats =
  ss_events :: u64
  ss_bytes_received :: u64
  ss_attempted :: u64
  ss_succeeded :: u64
  ss_resumed :: u64
  ss_errors_connect :: u64
  ss_errors_read :: u64

definition storm_stats_new :: storm_stats where
  "storm_stats_new = \<lparr>ss_events = 0, ss_bytes_received = 0, ss_attempted = 0, ss_succeeded = 0,
     ss_resumed = 0, ss_errors_connect = 0, ss_errors_read = 0\<rparr>"

record storm_sub =
  sb_stats :: storm_stats
  sb_first_ttfb :: "duration option"
  sb_gaps :: "duration list"
  sb_last_event_id :: "string option"
  sb_first_connect :: bool
  sb_prior_end :: "instant option"

definition storm_sub_new :: storm_sub where
  "storm_sub_new = \<lparr>sb_stats = storm_stats_new, sb_first_ttfb = None, sb_gaps = [],
     sb_last_event_id = None, sb_first_connect = True, sb_prior_end = None\<rparr>"

text \<open>
  One turn of the subscriber's loop: the checks at its top, the drawn life time of the session (used
  when the kill rate is positive), the clock when it starts and ends, and the session's environment.
\<close>

record storm_turn =
  sm_stop :: bool
  sm_check :: instant
  sm_kill :: duration
  sm_start :: instant
  sm_env :: session_env
  sm_end :: instant

definition session_deadline :: "bool \<Rightarrow> instant \<Rightarrow> storm_turn \<Rightarrow> instant" where
  "session_deadline kills deadline tn =
     min (sm_start tn + (if kills then sm_kill tn else deadline - sm_start tn)) deadline"

definition prior_id :: "storm_sub \<Rightarrow> string option" where
  "prior_id s = (if sb_first_connect s then None else sb_last_event_id s)"

definition bump :: "(storm_stats \<Rightarrow> storm_stats) \<Rightarrow> storm_sub \<Rightarrow> storm_sub" where
  "bump f s = s\<lparr>sb_stats := f (sb_stats s)\<rparr>"

definition session_ok :: "string option \<Rightarrow> instant \<Rightarrow> session_outcome \<Rightarrow> storm_sub \<Rightarrow> storm_sub" where
  "session_ok prior ended x s =
     (let s1 = (if sb_first_ttfb s = None then s\<lparr>sb_first_ttfb := sx_ttfb x\<rparr> else s);
          s2 = bump (\<lambda>u. u\<lparr>ss_events := ss_events u + sx_events x,
                        ss_bytes_received := ss_bytes_received u + sx_bytes_received x\<rparr>) s1;
          s3 = (case sx_last_event_id x of Some i \<Rightarrow> s2\<lparr>sb_last_event_id := Some i\<rparr> | None \<Rightarrow> s2);
          s4 = (if sb_first_connect s then s3
                else (let u1 = bump (\<lambda>u. u\<lparr>ss_succeeded := ss_succeeded u + 1\<rparr>) s3;
                          u2 = (case (sb_prior_end s, sx_first_byte_at x) of
                                  (Some e, Some b) \<Rightarrow> u1\<lparr>sb_gaps := sb_gaps u1 @ [b - e]\<rparr>
                                | _ \<Rightarrow> u1)
                      in if prior \<noteq> None \<and> 0 < sx_events x \<and> \<not> sx_saw_prior_id x
                         then bump (\<lambda>u. u\<lparr>ss_resumed := ss_resumed u + 1\<rparr>) u2 else u2))
      in s4\<lparr>sb_prior_end := Some ended\<rparr>)"

definition session_failed :: "transport_error \<Rightarrow> storm_sub \<Rightarrow> storm_sub" where
  "session_failed e s =
     (if classify e = EkConnect then bump (\<lambda>u. u\<lparr>ss_errors_connect := ss_errors_connect u + 1\<rparr>) s
      else bump (\<lambda>u. u\<lparr>ss_errors_read := ss_errors_read u + 1\<rparr>) s)"

definition storm_session :: "target \<Rightarrow> string \<Rightarrow> bool \<Rightarrow> instant \<Rightarrow> storm_turn \<Rightarrow> storm_sub \<Rightarrow> storm_sub" where
  "storm_session t path kills deadline tn s =
     (let prior = prior_id s;
          s1 = (if sb_first_connect s then s else bump (\<lambda>u. u\<lparr>ss_attempted := ss_attempted u + 1\<rparr>) s);
          s2 = (case run_one_session t path (sm_env tn) (session_deadline kills deadline tn) prior of
                  Inr x \<Rightarrow> session_ok prior (sm_end tn) x s1
                | Inl e \<Rightarrow> session_failed e s1)
      in s2\<lparr>sb_first_connect := False\<rparr>)"

fun storm_subscriber :: "target \<Rightarrow> string \<Rightarrow> bool \<Rightarrow> instant \<Rightarrow> storm_turn list \<Rightarrow> storm_sub \<Rightarrow> storm_sub" where
  "storm_subscriber t path kills deadline [] s = s"
| "storm_subscriber t path kills deadline (tn # tns) s =
     (if sm_stop tn \<or> deadline \<le> sm_check tn then s
      else storm_subscriber t path kills deadline tns (storm_session t path kills deadline tn s))"

section \<open>One scenario\<close>

definition storm_add :: "storm_stats \<Rightarrow> storm_sub \<Rightarrow> storm_stats" where
  "storm_add r s =
     (let u = sb_stats s in
      \<lparr>ss_events = ss_events r + ss_events u, ss_bytes_received = ss_bytes_received r + ss_bytes_received u,
       ss_attempted = ss_attempted r + ss_attempted u, ss_succeeded = ss_succeeded r + ss_succeeded u,
       ss_resumed = ss_resumed r + ss_resumed u, ss_errors_connect = ss_errors_connect r + ss_errors_connect u,
       ss_errors_read = ss_errors_read r + ss_errors_read u\<rparr>)"

definition sat_sub :: "u64 \<Rightarrow> u64 \<Rightarrow> u64" where "sat_sub a b = (if b \<le> a then a - b else 0)"

definition storm_extras :: "'h hist_ops \<Rightarrow> storm_stats \<Rightarrow> storm_sub list \<Rightarrow> 'h scenario_stats \<Rightarrow> 'h scenario_stats" where
  "storm_extras H r subs sc =
     sc\<lparr>sc_sse := Some
         \<lparr>se_ttfb = foldl (\<lambda>h s. case sb_first_ttfb s of Some d \<Rightarrow> h_record H h (duration_to_hist_ns d) | None \<Rightarrow> h)
             (new_hist H) subs,
          se_chunk_gap = foldl (h_record H) (new_hist H) (map duration_to_hist_ns (concat (map sb_gaps subs))),
          se_chunks = ss_events r, se_streams_completed = ss_succeeded r,
          se_bytes_received = ss_bytes_received r, se_broadcast_rtt = new_hist H\<rparr>\<rparr>"

definition storm_task :: "'h hist_ops \<Rightarrow> nat \<Rightarrow> nat \<Rightarrow> bool \<Rightarrow> storm_sub list \<Rightarrow> 'h task_stats" where
  "storm_task H num_scenarios sid verify subs =
     (let r = foldl storm_add storm_stats_new subs;
          resume_failures = sat_sub (ss_succeeded r) (ss_resumed r)
      in scenario_task H num_scenarios sid
           \<lparr>st_requests = ss_events r, st_bytes_sent = 0, st_bytes_recv = ss_bytes_received r,
            st_connect = ss_errors_connect r,
            st_read = ss_errors_read r + (if verify then resume_failures else 0), st_write = 0\<rparr>
           (storm_extras H r subs))"

fun storm_step :: "step \<Rightarrow> sse_storm_plan option" where
  "storm_step (SseReconnectStorm p) = Some p"
| "storm_step _ = None"

text \<open>The turns of each subscriber of each scenario, and the clock at the start of a scenario.\<close>

definition storm_run ::
  "'h hist_ops \<Rightarrow> (template \<Rightarrow> string) \<Rightarrow> target \<Rightarrow> (nat \<Rightarrow> instant) \<Rightarrow> (nat \<Rightarrow> nat \<Rightarrow> storm_turn list) \<Rightarrow> duration
     \<Rightarrow> nat \<Rightarrow> nat \<Rightarrow> sse_storm_plan \<Rightarrow> 'h task_stats option" where
  "storm_run H render t started turns dur n sid p =
     (let deadline = wall_deadline (started sid) dur (shp_hold_for (ssp_subscribers p));
          sub_count = max (unat (shp_subscribers (ssp_subscribers p))) 1;
          path = path_of_url (render (shp_url (ssp_subscribers p)));
          subs = map (\<lambda>i. storm_subscriber t path (f64_positive (ssp_kill_rate_per_s p)) deadline (turns sid i) storm_sub_new)
                   [0..<sub_count]
      in Some (storm_task H n sid (ssp_verify_last_event_id p) subs))"

definition run_sse_storm ::
  "'h hist_ops \<Rightarrow> (template \<Rightarrow> string) \<Rightarrow> target \<Rightarrow> (nat \<Rightarrow> instant) \<Rightarrow> (nat \<Rightarrow> nat \<Rightarrow> storm_turn list) \<Rightarrow> duration
     \<Rightarrow> plan \<Rightarrow> 'h task_stats list" where
  "run_sse_storm H render t started turns dur pl = run_backend Sse storm_step (storm_run H render t started turns dur) pl"

interpretation sse_storm: scenario_backend "storm_run H render t started turns dur" for H render t started turns dur
proof unfold_locales
  fix n sid p t'
  assume "storm_run H render t started turns dur n sid p = Some t'"
  then show "rolled_up t' \<and> length (ts_per_scenario t') = n"
    using scenario_task_rolled_up [of "storm_extras H _ _"]
    by (auto simp: storm_run_def storm_task_def extras_ok_def storm_extras_def Let_def)
qed

section \<open>Lemmas on the read loop\<close>

text \<open>A turn in which the loop goes on: bytes, or a wait before the deadline.\<close>

definition turn_live :: "instant \<Rightarrow> read_turn \<Rightarrow> bool" where
  "turn_live deadline tn = (\<not> rt_stop tn \<and> rt_check tn < deadline
     \<and> (case rt_read tn of ReadOk d \<Rightarrow> d \<noteq> [] | ReadWouldBlock \<Rightarrow> rt_now tn < deadline | ReadErr \<Rightarrow> False))"

fun turn_data :: "read_turn \<Rightarrow> bytes list" where
  "turn_data tn = (case rt_read tn of ReadOk d \<Rightarrow> [d] | _ \<Rightarrow> [])"

definition arrived :: "read_turn list \<Rightarrow> bytes list" where "arrived tns = concat (map turn_data tns)"

text \<open>What a session learns from a list of events.\<close>

definition id_after :: "string option \<Rightarrow> sse_event list \<Rightarrow> string option" where
  "id_after i evs = foldl (\<lambda>i ev. case ev of SseId v \<Rightarrow> if valid_utf8 v then Some (trim v) else i | _ \<Rightarrow> i) i evs"

definition saw_id :: "string option \<Rightarrow> sse_event list \<Rightarrow> bool" where
  "saw_id expected evs = (\<exists>v. SseId v \<in> set evs \<and> valid_utf8 v \<and> expected = Some (trim v))"

lemma fold_storm_events:
  "sx_events (foldl (storm_event e) out evs) = sx_events out + of_nat (length (payloads evs))
   \<and> sx_last_event_id (foldl (storm_event e) out evs) = id_after (sx_last_event_id out) evs
   \<and> sx_saw_prior_id (foldl (storm_event e) out evs) = (sx_saw_prior_id out \<or> saw_id e evs)
   \<and> sx_bytes_received (foldl (storm_event e) out evs) = sx_bytes_received out"
proof (induction evs arbitrary: out)
  case (Cons ev evs)
  show ?case
  proof (cases ev)
    case (SseId v)
    then show ?thesis using Cons.IH [of "storm_event e out ev"]
      by (auto simp: storm_event_def id_after_def saw_id_def Let_def)
  qed (use Cons.IH [of "storm_event e out ev"] in \<open>auto simp: storm_event_def id_after_def saw_id_def ac_simps\<close>)
qed (simp add: id_after_def saw_id_def)

lemma id_after_append: "id_after i (a @ b) = id_after (id_after i a) b"
  by (simp add: id_after_def)

lemma storm_read_live:
  assumes "list_all (turn_live deadline) tns" "reader_feeds (arrived tns) r = (r', evs)"
  shows "\<exists>out'. storm_read e t_sent deadline msg tns (r, out) = Inr out'
    \<and> sx_events out' = sx_events out + of_nat (length (payloads evs))
    \<and> sx_bytes_received out' = sx_bytes_received out + of_nat (length (concat (arrived tns)))
    \<and> sx_last_event_id out' = id_after (sx_last_event_id out) evs
    \<and> sx_saw_prior_id out' = (sx_saw_prior_id out \<or> saw_id e evs)"
  using assms
proof (induction tns arbitrary: r out evs)
  case Nil
  then show ?case by (auto simp: arrived_def id_after_def saw_id_def)
next
  case (Cons tn tns)
  have live: "turn_live deadline tn" "list_all (turn_live deadline) tns" using Cons.prems(1) by simp_all
  show ?case
  proof (cases "rt_read tn")
    case (ReadOk d)
    then have data: "arrived (tn # tns) = d # arrived tns" "d \<noteq> []" using live(1) by (simp_all add: arrived_def turn_live_def)
    obtain r1 e1 where f: "reader_feed d r = (r1, e1)" by fastforce
    obtain e2 where g: "reader_feeds (arrived tns) r1 = (r', e2)" "evs = e1 @ e2"
      using Cons.prems(2) f data(1) by (auto split: prod.splits)
    let ?o1 = "if sx_first_byte_at out = None
        then out\<lparr>sx_first_byte_at := Some (rt_now tn), sx_ttfb := Some (rt_now tn - t_sent)\<rparr> else out"
    let ?o2 = "?o1\<lparr>sx_bytes_received := sx_bytes_received ?o1 + word_of_nat (length d)\<rparr>"
    let ?o3 = "foldl (storm_event e) ?o2 e1"
    have step: "storm_read e t_sent deadline msg (tn # tns) (r, out) = storm_read e t_sent deadline msg tns (r1, ?o3)"
      using live(1) ReadOk f by (simp add: turn_live_def on_storm_bytes_def Let_def)
    have o3: "sx_events ?o3 = sx_events out + of_nat (length (payloads e1))"
      "sx_bytes_received ?o3 = sx_bytes_received out + of_nat (length d)"
      "sx_last_event_id ?o3 = id_after (sx_last_event_id out) e1"
      "sx_saw_prior_id ?o3 = (sx_saw_prior_id out \<or> saw_id e e1)"
      using fold_storm_events [of e ?o2 e1] by simp_all
    have saw: "saw_id e (e1 @ e2) = (saw_id e e1 \<or> saw_id e e2)" by (auto simp: saw_id_def)
    from Cons.IH [OF live(2) g(1), of ?o3] show ?thesis
      unfolding step o3 g(2) data(1) saw by (auto simp: payloads_append id_after_append)
  next
    case ReadWouldBlock
    then have "arrived (tn # tns) = arrived tns"
      "storm_read e t_sent deadline msg (tn # tns) (r, out) = storm_read e t_sent deadline msg tns (r, out)"
      using live(1) by (simp_all add: arrived_def turn_live_def)
    then show ?thesis using Cons.IH [OF live(2)] Cons.prems(2) by simp
  qed (use live(1) in \<open>simp add: turn_live_def\<close>)
qed

section \<open>Lemmas on the counters\<close>

definition counts_ok :: "nat \<Rightarrow> storm_sub \<Rightarrow> bool" where
  "counts_ok n s =
     (let u = sb_stats s; done = unat (ss_succeeded u) + unat (ss_errors_connect u) + unat (ss_errors_read u) in
      unat (ss_resumed u) \<le> unat (ss_succeeded u) \<and> unat (ss_succeeded u) \<le> unat (ss_attempted u)
      \<and> unat (ss_attempted u) \<le> done \<and> done \<le> unat (ss_attempted u) + 1
      \<and> (if sb_first_connect s then n = 0 \<and> done = 0 else n = Suc (unat (ss_attempted u))))"

lemma unat_Suc: "unat (w :: u64) < n \<Longrightarrow> n < 2 ^ 64 \<Longrightarrow> unat (w + 1) = Suc (unat w)"
  using unat_add_lem [of w 1] by simp

lemma session_ok_counts:
  "sb_stats (session_ok prior ended x s) =
     (let u = sb_stats s in
      u\<lparr>ss_events := ss_events u + sx_events x, ss_bytes_received := ss_bytes_received u + sx_bytes_received x,
        ss_succeeded := (if sb_first_connect s then ss_succeeded u else ss_succeeded u + 1),
        ss_resumed := (if \<not> sb_first_connect s \<and> prior \<noteq> None \<and> 0 < sx_events x \<and> \<not> sx_saw_prior_id x
                       then ss_resumed u + 1 else ss_resumed u)\<rparr>)
   \<and> sb_first_connect (session_ok prior ended x s) = sb_first_connect s"
  by (simp add: session_ok_def bump_def Let_def split: option.splits)

lemma storm_session_counts_ok:
  assumes "counts_ok n s" "Suc n < 2 ^ 64"
  shows "counts_ok (Suc n) (storm_session t path kills deadline tn s)"
proof -
  define u where "u = sb_stats s"
  have b: "unat (ss_attempted u) \<le> n" "unat (ss_succeeded u) \<le> n" "unat (ss_resumed u) \<le> n"
    "unat (ss_errors_connect u) \<le> n" "unat (ss_errors_read u) \<le> n"
    using assms(1) by (auto simp: counts_ok_def Let_def u_def [symmetric] split: if_splits)
  have up: "unat (w + 1) = Suc (unat w)" if "unat w \<le> n" for w :: u64
    using unat_Suc [of w "Suc n"] that assms(2) by simp
  note inc = up [OF b(1)] up [OF b(2)] up [OF b(3)] up [OF b(4)] up [OF b(5)]
  let ?r = "run_one_session t path (sm_env tn) (session_deadline kills deadline tn) (prior_id s)"
  have u: "sb_stats s = u" by (simp add: u_def)
  show ?thesis
  proof (cases ?r)
    case (Inl e)
    then show ?thesis using assms(1) inc
      by (auto simp: counts_ok_def storm_session_def session_failed_def bump_def Let_def u split: if_splits)
  next
    case (Inr x)
    show ?thesis
    proof (cases "sb_first_connect s")
      case True
      then have "prior_id s = None" by (simp add: prior_id_def)
      then show ?thesis using assms(1) inc Inr True
        by (simp add: counts_ok_def storm_session_def session_ok_counts Let_def u)
    next
      case False
      then show ?thesis using assms(1) inc Inr
        by (simp add: counts_ok_def storm_session_def session_ok_counts bump_def Let_def u)
    qed
  qed
qed

lemma storm_subscriber_counts_ok:
  "counts_ok n s \<Longrightarrow> n + length tns < 2 ^ 64 \<Longrightarrow>
     \<exists>k \<le> n + length tns. counts_ok k (storm_subscriber t path kills deadline tns s)"
proof (induction tns arbitrary: n s)
  case (Cons tn tns)
  have "counts_ok (Suc n) (storm_session t path kills deadline tn s)"
    using storm_session_counts_ok [OF Cons.prems(1)] Cons.prems(2) by simp
  note IH = Cons.IH [OF this]
  show ?case
  proof (cases "sm_stop tn \<or> deadline \<le> sm_check tn")
    case True
    then show ?thesis using Cons.prems by (intro exI [of _ n]) auto
  next
    case False
    then show ?thesis using IH Cons.prems(2) by auto
  qed
qed auto

section \<open>Properties\<close>



text \<open>
  The storm's counters stay consistent, whatever the server and the network do: of the
  reconnects attempted, at most as many succeed, and of these at most as many are resumed, so the
  subtraction behind the resume failures never saturates; every attempt ends as a success or as
  exactly one counted error, the first session being the only one that is not an attempt.
\<close>

lemma storm_counters:
  fixes t path kills deadline tns
  assumes "length tns < 2 ^ 64"
  defines "u \<equiv> sb_stats (storm_subscriber t path kills deadline tns storm_sub_new)"
  shows "unat (ss_resumed u) \<le> unat (ss_succeeded u) \<and> unat (ss_succeeded u) \<le> unat (ss_attempted u)
    \<and> unat (ss_attempted u) \<le> length tns - 1
    \<and> unat (ss_succeeded u) + unat (ss_errors_connect u) + unat (ss_errors_read u)
        \<in> {unat (ss_attempted u), unat (ss_attempted u) + 1}"
proof -
  have "counts_ok 0 storm_sub_new" by (simp add: counts_ok_def storm_sub_new_def storm_stats_new_def)
  from storm_subscriber_counts_ok [OF this, of tns t path kills deadline] assms(1) obtain k where
    k: "k \<le> length tns" "counts_ok k (storm_subscriber t path kills deadline tns storm_sub_new)" by auto
  show ?thesis using k by (auto simp: counts_ok_def Let_def u_def [symmetric] split: if_splits)
qed

definition demo_open :: open_env where
  "demo_open = \<lparr>oe_resolve = True, oe_poll = True, oe_connect = False, oe_register = True, oe_wait = WaitReady,
     oe_peer = True, oe_tls_config = False, oe_tls_new = False, oe_handshake = []\<rparr>"

definition demo_storm_turn :: storm_turn where
  "demo_storm_turn = \<lparr>sm_stop = False, sm_check = 1, sm_kill = 5, sm_start = 2,
     sm_env = \<lparr>sn_open = demo_open, sn_msg = ''refused'', sn_writes = [], sn_t_sent = 0, sn_turns = []\<rparr>, sm_end = 3\<rparr>"

end
