(* ===== verification/Fanout.thy ===== *)
theory Fanout
  imports BlockingIo "HOL-Library.Sublist"
begin

text \<open>
  Broadcast latency: the trigger loop of \<open>fanout_core.rs\<close> with the one-shot POST of
  \<open>http/simple_post.rs\<close>, the field scanner of \<open>zerobench-runtime/src/json_scan.rs\<close>, and the fanout backend
  \<open>sse/fanout.rs\<close> with the correlation of triggers and events, which \<open>ws/fanout.rs\<close> repeats.
\<close>

section \<open>The one-shot POST\<close>

definition post_request :: "target \<Rightarrow> string \<Rightarrow> bytes \<Rightarrow> bytes" where
  "post_request t path body =
     ''POST '' @ path @ '' HTTP/1.1'' @ CRLF @ ''Host: '' @ wire_host t @ CRLF @
     ''Content-Length: '' @ dec (length body) @ CRLF @ ''Connection: close'' @ CRLF @ CRLF @ body"

datatype post_end = PostOk | PostOpen open_end | PostSend send_end | PostTimeout | PostRead

text \<open>Drain until the end of the stream or the deadline; the clock is read before every read.\<close>

fun drain_response :: "instant \<Rightarrow> bool \<Rightarrow> (instant \<times> read_answer) list \<Rightarrow> post_end option" where
  "drain_response deadline got_any [] = None"
| "drain_response deadline got_any ((now, r) # rs) =
     (if deadline \<le> now then Some (if got_any then PostOk else PostTimeout)
      else (case r of
              ReadOk d \<Rightarrow> (if d = [] then Some PostOk else drain_response deadline True rs)
            | ReadWouldBlock \<Rightarrow> drain_response deadline got_any rs
            | ReadErr \<Rightarrow> Some PostRead))"

record post_env =
  po_open :: open_env
  po_writes :: "(write_answer \<times> bool) list"
  po_deadline :: instant
  po_reads :: "(instant \<times> read_answer) list"

definition fire_http_post :: "target \<Rightarrow> string \<Rightarrow> bytes \<Rightarrow> post_env \<Rightarrow> post_end option" where
  "fire_http_post t path body E =
     (case open_stream True t (po_open E) of
        OpenOk \<Rightarrow>
          (case send_all (length (post_request t path body)) (po_writes E) 0 of
             SendOk \<Rightarrow> drain_response (po_deadline E) False (po_reads E)
           | SendPending \<Rightarrow> None
           | e \<Rightarrow> Some (PostSend e))
      | OpenPending \<Rightarrow> None
      | e \<Rightarrow> Some (PostOpen e))"

text \<open>The trigger sends no body, whatever body the plan gives it.\<close>

definition fire_trigger :: "target \<Rightarrow> string \<Rightarrow> post_env \<Rightarrow> post_end option" where
  "fire_trigger t url E = fire_http_post t (path_of_url url) [] E"

section \<open>The trigger loop\<close>

definition TRIGGER_INTERVAL :: duration where "TRIGGER_INTERVAL = 500 * 1000000"

text \<open>
  One turn: the stop flag and the two clock readings at its top, the one before the POST, the POST's
  environment, and the reading after it. A POST that never ends holds the loop.
\<close>

record trigger_turn =
  tt_stop :: bool
  tt_check :: instant
  tt_now :: instant
  tt_sent :: instant
  tt_env :: post_env
  tt_after :: instant

fun trigger_loop ::
  "'r world \<Rightarrow> target \<Rightarrow> template \<Rightarrow> instant \<Rightarrow> trigger_turn list \<Rightarrow> instant \<times> 'r expand_ctx \<Rightarrow> instant list" where
  "trigger_loop W t tpl deadline [] nc = []"
| "trigger_loop W t tpl deadline (tn # tns) (next_at, x) =
     (if tt_stop tn \<or> deadline \<le> tt_check tn then []
      else if tt_now tn < next_at then trigger_loop W t tpl deadline tns (next_at, x)
      else (case expand_into W tpl [] x of
              (url, x') \<Rightarrow>
                (case fire_trigger t (from_utf8_lossy url) (tt_env tn) of
                   None \<Rightarrow> []
                 | Some e \<Rightarrow>
                     (if e = PostOk then [tt_sent tn] else [])
                     @ trigger_loop W t tpl deadline tns (tt_after tn + TRIGGER_INTERVAL, x'))))"

section \<open>The field scanner\<close>

definition json_ws :: "char \<Rightarrow> bool" where "json_ws c = (code c \<in> {32, 9, 13, 10})"

text \<open>The digit loop with its checked arithmetic: the value so far, and whether a digit was seen.\<close>

fun json_digits :: "nat \<Rightarrow> bool \<Rightarrow> bytes \<Rightarrow> nat option" where
  "json_digits n any [] = (if any then Some n else None)"
| "json_digits n any (c # cs) =
     (if is_digit c then
        (if 2 ^ 64 \<le> n * 10 then None
         else if 2 ^ 64 \<le> n * 10 + (code c - 48) then None
         else json_digits (n * 10 + (code c - 48)) True cs)
      else if any then Some n else None)"

definition find_json_u64_field :: "bytes \<Rightarrow> bytes \<Rightarrow> nat option" where
  "find_json_u64_field payload field =
     (let needle = CHR 0x22 # field @ [CHR 0x22] in
      case find_sub needle payload of
        None \<Rightarrow> None
      | Some start \<Rightarrow>
          (case dropWhile json_ws (drop (start + length needle) payload) of
             [] \<Rightarrow> None
           | c # cs \<Rightarrow> (if c = CHR '':'' then json_digits 0 False (dropWhile json_ws cs) else None)))"

section \<open>Correlation\<close>

text \<open>What a subscriber hands back, for both protocols: \<open>fs_start\<close> is the first-byte or handshake time.\<close>

record fan_sub =
  fs_events :: "(instant \<times> nat option) list"
  fs_start :: "duration option"
  fs_bytes_received :: u64
  fs_errors_connect :: u64
  fs_errors_read :: u64

definition fan_sub_new :: fan_sub where
  "fan_sub_new = \<lparr>fs_events = [], fs_start = None, fs_bytes_received = 0, fs_errors_connect = 0, fs_errors_read = 0\<rparr>"

definition clamp_hist :: "nat \<Rightarrow> nat" where
  "clamp_hist ns = min (max ns HIST_LO_NS) HIST_HI_NS"

text \<open>Each trigger takes the first event not before it; an event it skips or takes is gone.\<close>

fun correlate :: "'h hist_ops \<Rightarrow> instant list \<Rightarrow> instant list \<Rightarrow> 'h \<times> u64 \<Rightarrow> 'h \<times> u64" where
  "correlate H [] evs he = he"
| "correlate H (t # ts) evs (h, errs) =
     (case dropWhile (\<lambda>e. e < t) evs of
        [] \<Rightarrow> correlate H ts [] (h, sat_add errs 1)
      | e # rest \<Rightarrow> correlate H ts rest (h_record H h (clamp_hist (duration_to_hist_ns (e - t))), errs))"

text \<open>
  The mode with server timestamps: \<open>unix\<close> gives, for the n-th event looked at, the wall clock and
  the time since the event was received.
\<close>

fun stamped :: "'h hist_ops \<Rightarrow> (nat \<Rightarrow> nat \<times> nat) \<Rightarrow> nat \<Rightarrow> (instant \<times> nat option) list \<Rightarrow> 'h \<times> u64 \<Rightarrow> 'h \<times> u64" where
  "stamped H unix n [] he = he"
| "stamped H unix n ((received_at, emit) # evs) (h, errs) =
     (case emit of
        None \<Rightarrow> stamped H unix (Suc n) evs (h, sat_add errs 1)
      | Some emit_ns \<Rightarrow>
          (case unix n of
             (now_unix, ago) \<Rightarrow>
               stamped H unix (Suc n) evs (h_record H h (clamp_hist ((now_unix - ago) - emit_ns)), errs)))"

record 'h fan_totals =
  ft_events :: u64
  ft_bytes :: u64
  ft_connect :: u64
  ft_read :: u64
  ft_start :: 'h
  ft_rtt :: 'h

definition fan_totals_new :: "'h hist_ops \<Rightarrow> 'h fan_totals" where
  "fan_totals_new H = \<lparr>ft_events = 0, ft_bytes = 0, ft_connect = 0, ft_read = 0, ft_start = new_hist H, ft_rtt = new_hist H\<rparr>"

text \<open>One subscriber in the pass over all of them.\<close>

definition fan_add ::
  "'h hist_ops \<Rightarrow> bool \<Rightarrow> instant list \<Rightarrow> 'h fan_totals \<Rightarrow> fan_sub \<times> (nat \<Rightarrow> nat \<times> nat) \<Rightarrow> 'h fan_totals" where
  "fan_add H timestamps triggers r su =
     (case su of (s, unix) \<Rightarrow>
        (let errs = ft_read r + fs_errors_read s;
             (rtt, errs') = (if timestamps then stamped H unix 0 (fs_events s) (ft_rtt r, errs)
                             else correlate H triggers (map fst (fs_events s)) (ft_rtt r, errs))
         in \<lparr>ft_events = ft_events r + word_of_nat (length (fs_events s)),
             ft_bytes = ft_bytes r + fs_bytes_received s, ft_connect = ft_connect r + fs_errors_connect s,
             ft_read = errs',
             ft_start = (case fs_start s of Some d \<Rightarrow> h_record H (ft_start r) (duration_to_hist_ns d) | None \<Rightarrow> ft_start r),
             ft_rtt = rtt\<rparr>))"

section \<open>An SSE subscriber\<close>

record fan_turn =
  fu_stop :: bool
  fu_check :: instant
  fu_read :: read_answer
  fu_now :: instant
  fu_clock :: "nat \<Rightarrow> instant"

definition fan_event :: "string option \<Rightarrow> sse_event \<Rightarrow> (nat \<Rightarrow> instant) \<times> nat \<times> fan_sub \<Rightarrow> (nat \<Rightarrow> instant) \<times> nat \<times> fan_sub" where
  "fan_event emit_field ev cns =
     (case cns of (clock, n, s) \<Rightarrow>
        (case ev of
           SseData payload \<Rightarrow>
             (clock, Suc n, s\<lparr>fs_events := fs_events s
                @ [(clock n, Option.bind emit_field (find_json_u64_field payload))]\<rparr>)
         | _ \<Rightarrow> cns))"

definition on_fan_bytes :: "string option \<Rightarrow> instant \<Rightarrow> fan_turn \<Rightarrow> bytes \<Rightarrow> sse_reader \<times> fan_sub \<Rightarrow> sse_reader \<times> fan_sub" where
  "on_fan_bytes emit_field t_sent tn d rs =
     (case rs of (r, s) \<Rightarrow>
        (let s1 = (if fs_start s = None then s\<lparr>fs_start := Some (fu_now tn - t_sent)\<rparr> else s);
             s2 = s1\<lparr>fs_bytes_received := sat_add (fs_bytes_received s1) (word_of_nat (length d))\<rparr>
         in (case reader_feed d r of
               (r', evs) \<Rightarrow> (r', snd (snd (foldl (\<lambda>a ev. fan_event emit_field ev a) (fu_clock tn, 0, s2) evs))))))"

fun fan_read :: "string option \<Rightarrow> instant \<Rightarrow> instant \<Rightarrow> fan_turn list \<Rightarrow> sse_reader \<times> fan_sub \<Rightarrow> fan_sub" where
  "fan_read emit_field t_sent deadline [] rs = snd rs"
| "fan_read emit_field t_sent deadline (tn # tns) rs =
     (if fu_stop tn \<or> deadline \<le> fu_check tn then snd rs
      else (case fu_read tn of
              ReadOk d \<Rightarrow>
                (if d = [] then snd rs
                 else fan_read emit_field t_sent deadline tns (on_fan_bytes emit_field t_sent tn d rs))
            | ReadWouldBlock \<Rightarrow> fan_read emit_field t_sent deadline tns rs
            | ReadErr \<Rightarrow> (snd rs)\<lparr>fs_errors_read := fs_errors_read (snd rs) + 1\<rparr>))"

record fan_env =
  fe_open :: open_env
  fe_writes :: "(write_answer \<times> bool) list"
  fe_t_sent :: instant
  fe_turns :: "fan_turn list"

definition subscribe_request :: "target \<Rightarrow> string \<Rightarrow> bytes" where
  "subscribe_request t path =
     ''GET '' @ path @ '' HTTP/1.1'' @ CRLF @ ''Host: '' @ wire_host t @ CRLF @
     ''Accept: text/event-stream'' @ CRLF @ ''Cache-Control: no-cache'' @ CRLF @
     ''Connection: keep-alive'' @ CRLF @ CRLF"

definition run_fan_subscriber :: "target \<Rightarrow> bytes \<Rightarrow> string option \<Rightarrow> instant \<Rightarrow> fan_env \<Rightarrow> fan_sub" where
  "run_fan_subscriber t request emit_field deadline E =
     (if open_stream False t (fe_open E) \<noteq> OpenOk then fan_sub_new\<lparr>fs_errors_connect := 1\<rparr>
      else if send_all (length request) (fe_writes E) 0 \<noteq> SendOk then fan_sub_new\<lparr>fs_errors_connect := 1\<rparr>
      else fan_read emit_field (fe_t_sent E) deadline (fe_turns E) (reader_new, fan_sub_new))"

section \<open>One SSE fanout scenario\<close>

fun emit_field_of :: "fanout_mode \<Rightarrow> string option" where
  "emit_field_of TriggerRtt = None"
| "emit_field_of (Timestamp f) = Some f"

fun trigger_url :: "trigger_spec \<Rightarrow> template option" where
  "trigger_url (HttpPost url _) = Some url"
| "trigger_url (DedicatedWsConnection _) = None"

definition fan_extras :: "'h hist_ops \<Rightarrow> nat \<Rightarrow> 'h fan_totals \<Rightarrow> 'h scenario_stats \<Rightarrow> 'h scenario_stats" where
  "fan_extras H fired r sc =
     sc\<lparr>sc_sse := Some \<lparr>se_ttfb = ft_start r, se_chunk_gap = new_hist H, se_chunks = ft_events r,
          se_streams_completed = word_of_nat fired, se_bytes_received = ft_bytes r,
          se_broadcast_rtt = ft_rtt r\<rparr>\<rparr>"

definition fan_row :: "'h fan_totals \<Rightarrow> scenario_totals" where
  "fan_row r = \<lparr>st_requests = ft_events r, st_bytes_sent = 0, st_bytes_recv = ft_bytes r,
     st_connect = ft_connect r, st_read = ft_read r, st_write = 0\<rparr>"

record 'r fan_world =
  fw_started :: "nat \<Rightarrow> instant"
  fw_trigger_at :: "nat \<Rightarrow> instant"
  fw_trigger_ctx :: "nat \<Rightarrow> 'r expand_ctx"
  fw_trigger_turns :: "nat \<Rightarrow> trigger_turn list"
  fw_subs :: "nat \<Rightarrow> nat \<Rightarrow> fan_env"
  fw_unix :: "nat \<Rightarrow> nat \<Rightarrow> nat \<Rightarrow> nat \<times> nat"

fun fanout_step :: "step \<Rightarrow> sse_fanout_plan option" where
  "fanout_step (SseFanout p) = Some p"
| "fanout_step _ = None"

definition fanout_run ::
  "'h hist_ops \<Rightarrow> 'r world \<Rightarrow> (template \<Rightarrow> string) \<Rightarrow> target \<Rightarrow> 'r fan_world \<Rightarrow> duration
     \<Rightarrow> nat \<Rightarrow> nat \<Rightarrow> sse_fanout_plan \<Rightarrow> 'h task_stats option" where
  "fanout_run H W render t E dur n sid p =
     (case trigger_url (sfp_trigger p) of
        None \<Rightarrow> None
      | Some url \<Rightarrow>
          (let emit_field = emit_field_of (sfp_mode p);
               deadline = wall_deadline (fw_started E sid) dur (shp_hold_for (sfp_subscribers p));
               sub_count = max (unat (shp_subscribers (sfp_subscribers p))) 1;
               request = subscribe_request t (path_of_url (render (shp_url (sfp_subscribers p))));
               subs = map (\<lambda>i. run_fan_subscriber t request emit_field deadline (fw_subs E sid i)) [0..<sub_count];
               triggers = trigger_loop W t url deadline (fw_trigger_turns E sid)
                            (fw_trigger_at E sid + TRIGGER_INTERVAL, fw_trigger_ctx E sid);
               r = foldl (fan_add H (emit_field \<noteq> None) triggers) (fan_totals_new H)
                     (map (\<lambda>i. (subs ! i, fw_unix E sid i)) [0..<sub_count])
           in Some (scenario_task H n sid (fan_row r) (fan_extras H (length triggers) r))))"

definition run_sse_fanout ::
  "'h hist_ops \<Rightarrow> 'r world \<Rightarrow> (template \<Rightarrow> string) \<Rightarrow> target \<Rightarrow> 'r fan_world \<Rightarrow> duration \<Rightarrow> plan \<Rightarrow> 'h task_stats list" where
  "run_sse_fanout H W render t E dur pl = run_backend Sse fanout_step (fanout_run H W render t E dur) pl"

interpretation sse_fanout: scenario_backend "fanout_run H W render t E dur" for H W render t E dur
proof unfold_locales
  fix n sid p t'
  assume "fanout_run H W render t E dur n sid p = Some t'"
  then show "rolled_up t' \<and> length (ts_per_scenario t') = n"
    using scenario_task_rolled_up [of "fan_extras H _ _"]
    by (auto simp: fanout_run_def extras_ok_def fan_extras_def Let_def split: option.splits)
qed

section \<open>Lemmas on the scanner\<close>

lemma parse_digits_dec_overflow: "mx < n \<Longrightarrow> parse_digits 10 mx 0 (dec n) = None"
proof (induction n rule: dec.induct)
  case (1 n)
  show ?case
  proof (cases "n < 10")
    case True
    then show ?thesis using 1 by (subst dec.simps) (simp add: digit_val_digit_char)
  next
    case False
    show ?thesis
    proof (cases "mx < n div 10")
      case True
      then show ?thesis using 1 False by (subst dec.simps) (simp add: parse_digits_append)
    next
      case le: False
      then have "parse_digits 10 mx 0 (dec (n div 10)) = Some (n div 10)" by (simp add: parse_digits_dec)
      then show ?thesis using False 1 by (subst dec.simps) (simp add: parse_digits_append digit_val_digit_char)
    qed
  qed
qed

lemma digit_val_digit: "is_digit c \<Longrightarrow> digit_val 10 c = Some (code c - 48)"
  by (auto simp: digit_val_def is_digit_def Let_def)

lemma json_digits_parse:
  assumes "\<forall>c \<in> set ds. is_digit c" "rest = [] \<or> \<not> is_digit (hd rest)" "ds \<noteq> [] \<or> any" "n < 2 ^ 64"
  shows "json_digits n any (ds @ rest) = parse_digits 10 (2 ^ 64 - 1) n ds"
  using assms(1,3,4)
proof (induction ds arbitrary: n any)
  case Nil
  then show ?case using assms(2) by (cases rest) simp_all
next
  case (Cons c ds)
  obtain v where v: "code c - 48 = v" by blast
  have c: "is_digit c" "digit_val 10 c = Some v" using Cons.prems(1) digit_val_digit [of c] v by simp_all
  show ?case
  proof (cases "2 ^ 64 \<le> n * 10 + v")
    case True
    then show ?thesis using c v by simp
  next
    case False
    then show ?thesis using Cons.prems Cons.IH [of True "n * 10 + v"] c v by simp
  qed
qed

lemma dropWhile_skip: "\<forall>c \<in> set w. P c \<Longrightarrow> \<not> P c \<Longrightarrow> dropWhile P (w @ c # r) = c # r"
  by (induction w) auto

lemma json_ws_not: "\<not> json_ws (CHR '':'')" "is_digit c \<Longrightarrow> \<not> json_ws c"
  by (auto simp: json_ws_def code_def is_digit_def)

section \<open>Lemmas on the correlation\<close>

text \<open>The pairs the loop makes, and any other way to give triggers later events in order.\<close>

fun pairs :: "instant list \<Rightarrow> instant list \<Rightarrow> (instant \<times> instant) list" where
  "pairs [] evs = []"
| "pairs (t # ts) evs =
     (case dropWhile (\<lambda>e. e < t) evs of [] \<Rightarrow> pairs ts [] | e # rest \<Rightarrow> (t, e) # pairs ts rest)"

definition matching :: "instant list \<Rightarrow> instant list \<Rightarrow> (instant \<times> instant) list \<Rightarrow> bool" where
  "matching ts evs m = (subseq (map fst m) ts \<and> subseq (map snd m) evs \<and> list_all (\<lambda>(t, e). t \<le> e) m)"

lemma pairs_Nil [simp]: "pairs ts [] = []"
  by (induction ts) auto

lemma subseq_dropWhile: "subseq xs ys \<Longrightarrow> \<forall>x \<in> set xs. \<not> P x \<Longrightarrow> subseq xs (dropWhile P ys)"
proof (induction ys arbitrary: xs)
  case (Cons y ys)
  then show ?case by (cases xs) (auto split: if_splits)
qed simp

lemma dropWhile_ConsD: "dropWhile P xs = y # ys \<Longrightarrow> \<not> P y \<and> subseq (y # ys) xs"
  by (induction xs) (auto split: if_splits)

lemma pairs_matching: "matching ts evs (pairs ts evs)"
proof (induction ts evs rule: pairs.induct)
  case (2 t ts evs)
  show ?case
  proof (cases "dropWhile (\<lambda>e. e < t) evs")
    case Nil
    have "pairs (t # ts) evs = []" unfolding pairs.simps Nil by simp
    then show ?thesis by (simp add: matching_def)
  next
    case (Cons e rest)
    note d = dropWhile_ConsD [OF Cons]
    have m: "matching ts rest (pairs ts rest)" using 2(2) Cons by simp
    then have "subseq (e # map snd (pairs ts rest)) (e # rest)" by (simp add: matching_def)
    then have "subseq (e # map snd (pairs ts rest)) evs" using d subseq_order.trans by blast
    then show ?thesis using Cons m d by (simp add: matching_def)
  qed
qed (simp add: matching_def)

lemma subseq_setD: "subseq xs ys \<Longrightarrow> x \<in> set xs \<Longrightarrow> x \<in> set ys"
  by (induction xs ys rule: list_emb.induct) auto

lemma subseq_tail: "subseq (x # xs) (y # ys) \<Longrightarrow> subseq xs ys"
  using subseq_Cons' [of x xs ys] by (simp split: if_splits)

lemma pairs_most: "sorted ts \<Longrightarrow> matching ts evs m \<Longrightarrow> length m \<le> length (pairs ts evs)"
proof (induction ts evs arbitrary: m rule: pairs.induct)
  case (2 t ts evs)
  show ?case
  proof (cases m)
    case (Cons p m')
    have pt: "subseq (map fst m) (t # ts)" "subseq (map snd m) evs" "list_all (\<lambda>(t, e). t \<le> e) m"
      using 2(4) by (simp_all add: matching_def)
    have late: "\<forall>x \<in> set (map snd m). \<not> x < t"
    proof
      fix x assume "x \<in> set (map snd m)"
      then obtain u where u: "(u, x) \<in> set m" by auto
      then have "u \<in> set (map fst m)" by force
      then have "t \<le> u" using subseq_setD [OF pt(1)] 2(3) by auto
      moreover have "u \<le> x" using pt(3) u by (auto simp: list_all_iff)
      ultimately show "\<not> x < t" by simp
    qed
    then have sub: "subseq (map snd m) (dropWhile (\<lambda>e. e < t) evs)" by (rule subseq_dropWhile [OF pt(2)])
    have "length m = Suc (length m')" using Cons by simp
    then have "0 < length (dropWhile (\<lambda>e. e < t) evs)" using list_emb_length [OF sub, unfolded length_map] by linarith
    then obtain e rest where er: "dropWhile (\<lambda>e. e < t) evs = e # rest" by (metis length_greater_0_conv list.exhaust)
    have "subseq (map fst m') ts" using pt(1) unfolding Cons list.map by (rule subseq_tail)
    moreover have "subseq (map snd m') rest" using sub unfolding Cons er list.map by (rule subseq_tail)
    ultimately have "matching ts rest m'" using pt(3) Cons by (simp add: matching_def)
    then show ?thesis using 2(2) [OF er] 2(3) er Cons by simp
  qed simp
qed (auto simp: matching_def dest: list_emb_length)

lemma clamp_hist_bounds: "HIST_LO_NS \<le> clamp_hist n" "clamp_hist n \<le> HIST_HI_NS"
  by (auto simp: clamp_hist_def HIST_LO_NS_def HIST_HI_NS_def)

lemma correlate_pairs:
  assumes "hist_ok H len" "correlate H ts evs (h, errs) = (h', errs')" "unat errs + length ts < 2 ^ 64"
  shows "len h' = len h + length (pairs ts evs) \<and> unat errs' = unat errs + (length ts - length (pairs ts evs))
    \<and> length (pairs ts evs) \<le> length ts"
  using assms(2,3)
proof (induction ts evs arbitrary: h errs rule: pairs.induct)
  case (2 t ts evs)
  show ?case
  proof (cases "dropWhile (\<lambda>e. e < t) evs")
    case Nil
    have s: "unat (sat_add errs 1) = unat errs + 1" using unat_sat_add [of errs 1] 2(4) by simp
    have "pairs (t # ts) evs = []" "correlate H ts [] (h, sat_add errs 1) = (h', errs')"
      using 2(3) unfolding pairs.simps correlate.simps Nil by simp_all
    then show ?thesis using 2(1) [OF Nil, of h "sat_add errs 1"] 2(4) s by simp
  next
    case (Cons e rest)
    have "len (h_record H h (clamp_hist n)) = Suc (len h)" for n
      using assms(1) clamp_hist_bounds [of n] by (simp add: hist_ok_def)
    then show ?thesis using 2(2) [OF Cons] 2(3,4) Cons by simp
  qed
qed simp

text \<open>A clock that does not run backwards.\<close>

fun trigger_clock :: "instant \<Rightarrow> trigger_turn list \<Rightarrow> bool" where
  "trigger_clock now [] = True"
| "trigger_clock now (tn # tns) =
     (now \<le> tt_check tn \<and> tt_check tn \<le> tt_now tn \<and> tt_now tn \<le> tt_sent tn \<and> tt_sent tn \<le> tt_after tn
      \<and> trigger_clock (tt_after tn) tns)"

lemma trigger_loop_spaced:
  "trigger_clock t0 tns \<Longrightarrow>
     sorted_wrt (\<lambda>a b. a + TRIGGER_INTERVAL \<le> b) (trigger_loop W t tpl deadline tns (nx, x))
     \<and> list_all (\<lambda>a. nx \<le> a) (trigger_loop W t tpl deadline tns (nx, x))"
proof (induction tns arbitrary: t0 nx x)
  case (Cons tn tns)
  have clk: "tt_now tn \<le> tt_sent tn" "tt_sent tn \<le> tt_after tn" "trigger_clock (tt_after tn) tns"
    using Cons.prems by simp_all
  show ?case
  proof (cases "tt_stop tn \<or> deadline \<le> tt_check tn \<or> tt_now tn < nx")
    case True
    then show ?thesis using Cons.IH [OF clk(3)] by auto
  next
    case False
    obtain url x' where e: "expand_into W tpl [] x = (url, x')" by fastforce
    note IH = Cons.IH [OF clk(3), of "tt_after tn + TRIGGER_INTERVAL" x']
    show ?thesis
    proof (cases "fire_trigger t (from_utf8_lossy url) (tt_env tn)")
      case None
      then show ?thesis using False e by simp
    next
      case (Some r)
      let ?rest = "trigger_loop W t tpl deadline tns (tt_after tn + TRIGGER_INTERVAL, x')"
      have "list_all (\<lambda>a. tt_sent tn + TRIGGER_INTERVAL \<le> a) ?rest" "list_all (\<lambda>a. nx \<le> a) ?rest"
        using IH clk False by (auto simp: list_all_iff)
      then show ?thesis using IH False e Some clk by (auto simp: list_all_iff)
    qed
  qed
qed simp

section \<open>Properties\<close>

text \<open>
  Property C38. The correlation of a fanout run is as good as it can be: every trigger is either a
  latency sample or one counted read error, the samples pair triggers with events not before
  them, in order and no event twice, and no other such pairing has more of them.
\<close>

theorem fanout_correlation_best:
  assumes "hist_ok H len" "sorted ts" "unat errs + length ts < 2 ^ 64" "correlate H ts evs (h, errs) = (h', errs')"
  shows "\<exists>m. matching ts evs m \<and> len h' = len h + length m \<and> unat errs' + length m = unat errs + length ts
    \<and> (\<forall>m'. matching ts evs m' \<longrightarrow> length m' \<le> length m)"
  using correlate_pairs [OF assms(1,4,3)] pairs_matching pairs_most [OF assms(2)]
  by (intro exI [of _ "pairs ts evs"]) auto

lemma fanout_correlation_best_witness:
  "\<exists>h' errs'. correlate sample_hist [5, 9, 20] [3, 6, 7, 12] ([], 0) = (h', errs') \<and> length h' + unat errs' = 3"
proof -
  obtain h' errs' where c: "correlate sample_hist [5, 9, 20] [3, 6, 7, 12] ([], 0) = (h', errs')" by fastforce
  from fanout_correlation_best [OF sample_hist_ok _ _ c] c show ?thesis by auto
qed

text \<open>
  Triggers keep their distance: when the clock does not run backwards, the recorded
  triggers are in order and at least the trigger interval apart, and none is sent before the first
  interval is over.
\<close>

lemma triggers_spaced:
  assumes "trigger_clock t0 tns"
  shows "sorted_wrt (\<lambda>a b. a + TRIGGER_INTERVAL \<le> b) (trigger_loop W t tpl deadline tns (t0 + TRIGGER_INTERVAL, x))
    \<and> list_all (\<lambda>a. t0 + TRIGGER_INTERVAL \<le> a) (trigger_loop W t tpl deadline tns (t0 + TRIGGER_INTERVAL, x))"
  by (rule trigger_loop_spaced [OF assms])

definition demo_post :: post_env where
  "demo_post = \<lparr>po_open = \<lparr>oe_resolve = True, oe_poll = True, oe_connect = True, oe_register = True, oe_wait = WaitReady,
     oe_peer = True, oe_tls_config = False, oe_tls_new = False, oe_handshake = []\<rparr>,
     po_writes = [(WroteOk 500, True)], po_deadline = 9, po_reads = [(1, ReadOk [])]\<rparr>"

text \<open>
  The scanner reads the first field of its name: behind the first occurrence of the
  quoted name, spaces around the colon are skipped and a number in 64 bits is returned, a larger one
  refused. What follows the digits is not looked at: a fraction is read as its whole part.
\<close>

lemma json_field_value:
  fixes f pre w1 w2 rest n
  defines "needle \<equiv> CHR 0x22 # f @ [CHR 0x22]"
  assumes "find_sub needle (pre @ needle) = Some (length pre)"
    and "\<forall>c \<in> set w1. json_ws c" "\<forall>c \<in> set w2. json_ws c" "rest = [] \<or> \<not> is_digit (hd rest)"
  shows "find_json_u64_field (pre @ needle @ w1 @ '':'' @ w2 @ dec n @ rest) f = (if n < 2 ^ 64 then Some n else None)"
proof -
  let ?tail = "w1 @ '':'' @ w2 @ dec n @ rest"
  obtain d ds where d: "dec n = d # ds" "is_digit d" using dec_digits [of n] by (cases "dec n") auto
  have "find_sub needle (pre @ needle @ ?tail) = Some (length pre)"
    using find_sub_append [OF assms(2), of ?tail] by simp
  moreover have "drop (length pre + length needle) (pre @ needle @ ?tail) = ?tail" by simp
  moreover have "dropWhile json_ws ?tail = CHR '':'' # w2 @ dec n @ rest"
    using dropWhile_skip [of w1 json_ws "CHR '':''"] assms(3) json_ws_not by simp
  moreover have "dropWhile json_ws (w2 @ dec n @ rest) = dec n @ rest"
    using dropWhile_skip [of w2 json_ws d] assms(4) json_ws_not(2) [OF d(2)] d(1) by simp
  moreover have "json_digits 0 False (dec n @ rest) = parse_digits 10 (2 ^ 64 - 1) 0 (dec n)"
    using json_digits_parse [of "dec n" rest False 0] dec_digits [of n] assms(5) by simp
  ultimately have "find_json_u64_field (pre @ needle @ ?tail) f = parse_digits 10 (2 ^ 64 - 1) 0 (dec n)"
    unfolding find_json_u64_field_def needle_def [symmetric] Let_def by simp
  then show ?thesis using parse_digits_dec [of n "2 ^ 64 - 1"] parse_digits_dec_overflow [of "2 ^ 64 - 1" n]
    by (cases "n < 2 ^ 64") auto
qed

end
