(* ===== verification/WsEcho.thy ===== *)
theory WsEcho
  imports WsConn Backends
begin

text \<open>
  The echo backend, \<open>ws/echo_rtt.rs\<close>: sending at a pace, matching the frames that come back to the
  message sent, and the roll-up over the connections. The result of connecting, the clock and the
  pace (a floating-point quotient) are parameters; the connection is the one of \<open>WsConn\<close>.
\<close>

section \<open>Matching\<close>

datatype match_key = Prefix16 "u8 list" | ExactBytes nat | Substring "u8 list" | AnyFrame

fun key_matches :: "match_key \<Rightarrow> data_frame \<Rightarrow> bool" where
  "key_matches key (DPong b) = (case key of ExactBytes n \<Rightarrow> length b = n | _ \<Rightarrow> False)"
| "key_matches key f =
     (case key of
        Prefix16 i \<Rightarrow> 16 \<le> length (df_bytes f) \<and> take 16 (df_bytes f) = i
      | ExactBytes _ \<Rightarrow> False
      | Substring marker \<Rightarrow> find_sub marker (df_bytes f) \<noteq> None
      | AnyFrame \<Rightarrow> True)"

text \<open>The text of a read error is not followed.\<close>

datatype match_end = Matched nat | MatchTimeout | MatchProtocol | MatchRead | MatchPanic | MatchBlocked

text \<open>Up to \<open>n\<close> frames; every attempt first reads the stop flag and the clock.\<close>

fun recv_matching ::
  "match_key \<Rightarrow> instant \<Rightarrow> nat \<Rightarrow> (bool \<times> instant) list \<Rightarrow> ws_conn \<Rightarrow> ws_conn \<times> match_end" where
  "recv_matching key deadline 0 ts c = (c, MatchProtocol)"
| "recv_matching key deadline (Suc n) [] c = (c, MatchBlocked)"
| "recv_matching key deadline (Suc n) ((stop, now) # ts) c =
     (if stop then (c, MatchTimeout)
      else if deadline \<le> now then (c, MatchTimeout)
      else (case try_recv (deadline - now) c of
              (c', Done (Some f)) \<Rightarrow>
                (if key_matches key f then (c', Matched (length (df_bytes f)))
                 else recv_matching key deadline n ts c')
            | (c', Done None) \<Rightarrow> (c', MatchTimeout)
            | (c', Fail e) \<Rightarrow> (c', (case e of WsClosed _ _ \<Rightarrow> MatchTimeout | _ \<Rightarrow> MatchRead))
            | (c', Panic) \<Rightarrow> (c', MatchPanic)
            | (c', Blocked) \<Rightarrow> (c', MatchBlocked)))"

definition MAX_FRAMES :: nat where "MAX_FRAMES = 100"

section \<open>One connection\<close>

definition hex_digit :: "nat \<Rightarrow> u8" where
  "hex_digit n = (if n < 10 then word_of_nat (48 + n) else word_of_nat (87 + n))"

definition write_hex16 :: "u64 \<Rightarrow> u8 list" where
  "write_hex16 v = map (\<lambda>i. hex_digit (unat (drop_bit (i * 4) v) mod 16)) (rev [0..<16])"

record 'h echo_stats =
  ek_handshake :: "duration option"
  ek_rtt :: 'h
  ek_messages_sent :: u64
  ek_messages_recv :: u64
  ek_bytes_sent :: u64
  ek_bytes_recv :: u64
  ek_errors_connect :: u64
  ek_errors_read :: u64
  ek_errors_write :: u64

definition echo_stats_new :: "'h hist_ops \<Rightarrow> 'h echo_stats" where
  "echo_stats_new H = \<lparr>ek_handshake = None, ek_rtt = new_hist H, ek_messages_sent = 0, ek_messages_recv = 0,
     ek_bytes_sent = 0, ek_bytes_recv = 0, ek_errors_connect = 0, ek_errors_read = 0, ek_errors_write = 0\<rparr>"

record 'h echo_state =
  es_stats :: "'h echo_stats"
  es_conn :: ws_conn
  es_seq :: u64
  es_intended :: u64
  es_rec :: "'h recorder"

text \<open>
  The readings of one turn: stop flag and clock at the top, the clock of the pacing (or of the
  unpaced start), the time since the base for the id, those of the matching, the clock at the end.
\<close>

record echo_turn =
  et_stop :: bool
  et_check :: instant
  et_now :: instant
  et_elapsed :: nat
  et_recv :: "(bool \<times> instant) list"
  et_done :: instant

text \<open>What a turn sends, by strategy, and the key to look for.\<close>

definition echo_message :: "correlate_strategy \<Rightarrow> u64 \<Rightarrow> u8 list \<Rightarrow> u8 list \<times> match_key" where
  "echo_message strategy id_ns suffix =
     (case strategy of
        PingPong \<Rightarrow> (let buf = write_hex16 id_ns in (buf, ExactBytes (length buf)))
      | MonotonicIdPrepend \<Rightarrow>
          (let buf = write_hex16 id_ns @ [124] @ suffix in (buf, Prefix16 (take 16 buf)))
      | PayloadSubstring marker \<Rightarrow> (suffix, Substring (map u8_of_char marker))
      | FirstTextFrame \<Rightarrow> (suffix, AnyFrame))"

definition echo_send :: "correlate_strategy \<Rightarrow> u8 list \<Rightarrow> ws_conn \<Rightarrow> ws_conn \<times> unit io" where
  "echo_send strategy buf c = (case strategy of PingPong \<Rightarrow> send_ping buf c | _ \<Rightarrow> send_text buf c)"

datatype echo_next = EchoGoOn | EchoStop | EchoPanic | EchoBlocked

definition upd_echo :: "('h echo_stats \<Rightarrow> 'h echo_stats) \<Rightarrow> 'h echo_state \<Rightarrow> 'h echo_state" where
  "upd_echo f s = s\<lparr>es_stats := f (es_stats s)\<rparr>"

text \<open>After the message is sent.\<close>

definition echo_receive ::
  "'h hist_ops \<Rightarrow> nat \<Rightarrow> u16 \<Rightarrow> instant \<Rightarrow> instant \<Rightarrow> nat \<Rightarrow> match_key \<Rightarrow> echo_turn \<Rightarrow> 'h echo_state
     \<Rightarrow> 'h echo_state \<times> echo_next" where
  "echo_receive H sh sid deadline intended sent_len key tn s =
     (case recv_matching key deadline MAX_FRAMES (et_recv tn) (es_conn s) of
        (c, Matched n) \<Rightarrow>
          (let rtt_ns = duration_to_hist_ns (et_done tn - intended)
           in ((upd_echo (\<lambda>u. u\<lparr>ek_rtt := h_record H (ek_rtt u) rtt_ns, ek_messages_recv := ek_messages_recv u + 1,
                   ek_bytes_recv := sat_add (ek_bytes_recv u) (word_of_nat n)\<rparr>) s)
                \<lparr>es_conn := c, es_rec := rec_record_ns H sh sid rtt_ns (word_of_nat sent_len) (word_of_nat n) (es_rec s)\<rparr>,
               EchoGoOn))
      | (c, MatchTimeout) \<Rightarrow> (s\<lparr>es_conn := c\<rparr>, EchoStop)
      | (c, MatchProtocol) \<Rightarrow>
          ((upd_echo (\<lambda>u. u\<lparr>ek_errors_read := ek_errors_read u + 1\<rparr>) s)\<lparr>es_conn := c\<rparr>, EchoGoOn)
      | (c, MatchRead) \<Rightarrow>
          ((upd_echo (\<lambda>u. u\<lparr>ek_errors_read := ek_errors_read u + 1\<rparr>) s)\<lparr>es_conn := c\<rparr>, EchoStop)
      | (c, MatchPanic) \<Rightarrow> (s\<lparr>es_conn := c\<rparr>, EchoPanic)
      | (c, MatchBlocked) \<Rightarrow> (s\<lparr>es_conn := c\<rparr>, EchoBlocked))"

definition echo_exchange ::
  "'h hist_ops \<Rightarrow> nat \<Rightarrow> u16 \<Rightarrow> correlate_strategy \<Rightarrow> u8 list \<Rightarrow> instant \<Rightarrow> instant \<Rightarrow> echo_turn \<Rightarrow> 'h echo_state
     \<Rightarrow> 'h echo_state \<times> echo_next" where
  "echo_exchange H sh sid strategy suffix deadline intended tn s =
     (let seq = es_seq s + 1;
          (buf, key) = echo_message strategy (word_of_nat (et_elapsed tn) XOR seq) suffix;
          s1 = s\<lparr>es_seq := seq\<rparr>
      in case echo_send strategy buf (es_conn s1) of
           (c, Done _) \<Rightarrow>
             echo_receive H sh sid deadline intended (length buf) key tn
               ((upd_echo (\<lambda>u. u\<lparr>ek_messages_sent := ek_messages_sent u + 1,
                    ek_bytes_sent := sat_add (ek_bytes_sent u) (word_of_nat (length buf))\<rparr>) s1)\<lparr>es_conn := c\<rparr>)
         | (c, Fail _) \<Rightarrow>
             ((upd_echo (\<lambda>u. u\<lparr>ek_errors_write := ek_errors_write u + 1\<rparr>) s1)\<lparr>es_conn := c\<rparr>, EchoStop)
         | (c, Panic) \<Rightarrow> (s1\<lparr>es_conn := c\<rparr>, EchoPanic)
         | (c, Blocked) \<Rightarrow> (s1\<lparr>es_conn := c\<rparr>, EchoBlocked))"

text \<open>
  The loop. With an interval the message is due at its slot, and the loop sleeps while the slot is
  more than five microseconds away; without one it is due now.
\<close>

fun echo_loop ::
  "'h hist_ops \<Rightarrow> nat \<Rightarrow> u16 \<Rightarrow> correlate_strategy \<Rightarrow> u8 list \<Rightarrow> instant \<Rightarrow> u64 \<Rightarrow> instant \<Rightarrow> echo_turn list
     \<Rightarrow> 'h echo_state \<Rightarrow> 'h echo_state \<times> echo_next" where
  "echo_loop H sh sid strategy suffix base interval deadline [] s = (s, EchoStop)"
| "echo_loop H sh sid strategy suffix base interval deadline (tn # tns) s =
     (if et_stop tn \<or> deadline \<le> et_check tn then (s, EchoStop)
      else if 0 < interval \<and> 5000 < (base + unat (es_intended s)) - et_now tn then
        echo_loop H sh sid strategy suffix base interval deadline tns s
      else (let intended = (if 0 < interval then base + unat (es_intended s) else et_now tn);
                s1 = (if 0 < interval then s\<lparr>es_intended := sat_add (es_intended s) interval\<rparr> else s)
            in case echo_exchange H sh sid strategy suffix deadline intended tn s1 of
                 (s2, EchoGoOn) \<Rightarrow> echo_loop H sh sid strategy suffix base interval deadline tns s2
               | (s2, e) \<Rightarrow> (s2, e)))"

text \<open>\<open>ev_conn\<close> is \<open>None\<close> when connecting failed.\<close>

record echo_env =
  ev_conn :: "ws_conn option"
  ev_handshake :: duration
  ev_base :: instant
  ev_interval :: "f64 \<Rightarrow> u64"
  ev_turns :: "echo_turn list"
  ev_shard :: nat

definition run_one_echo_rtt ::
  "'h hist_ops \<Rightarrow> (template \<Rightarrow> u8 list) \<Rightarrow> ws_echo_plan \<Rightarrow> u16 \<Rightarrow> instant \<Rightarrow> 'h live_snapshot option \<Rightarrow> echo_env
     \<Rightarrow> 'h echo_state option \<times> 'h echo_stats" where
  "run_one_echo_rtt H expand p sid deadline live E =
     (case ev_conn E of
        None \<Rightarrow> (None, (echo_stats_new H)\<lparr>ek_errors_connect := 1\<rparr>)
      | Some c \<Rightarrow>
          (let interval = (if f64_positive (wep_msg_rate_per_conn p) then ev_interval E (wep_msg_rate_per_conn p) else 0);
               s0 = \<lparr>es_stats = (echo_stats_new H)\<lparr>ek_handshake := Some (ev_handshake E)\<rparr>, es_conn = c, es_seq = 0,
                      es_intended = 0, es_rec = \<lparr>rc_task = None, rc_live = live\<rparr>\<rparr>;
               (s, _) = echo_loop H (ev_shard E) sid (wep_correlate p) (expand (wep_payload p)) (ev_base E) interval
                          deadline (ev_turns E) s0
           in (Some (s\<lparr>es_conn := fst (ws_close 1000 [98, 121, 101] (es_conn s))\<rparr>), es_stats s)))"

section \<open>One scenario\<close>

definition echo_add :: "'h hist_ops \<Rightarrow> 'h echo_stats \<times> 'h \<Rightarrow> 'h echo_stats \<Rightarrow> 'h echo_stats \<times> 'h" where
  "echo_add H rh u =
     (case rh of (r, handshakes) \<Rightarrow>
        (r\<lparr>ek_rtt := h_add H (ek_rtt r) (ek_rtt u), ek_messages_sent := ek_messages_sent r + ek_messages_sent u,
           ek_messages_recv := ek_messages_recv r + ek_messages_recv u, ek_bytes_sent := ek_bytes_sent r + ek_bytes_sent u,
           ek_bytes_recv := ek_bytes_recv r + ek_bytes_recv u,
           ek_errors_connect := ek_errors_connect r + ek_errors_connect u,
           ek_errors_read := ek_errors_read r + ek_errors_read u,
           ek_errors_write := ek_errors_write r + ek_errors_write u\<rparr>,
         (case ek_handshake u of Some d \<Rightarrow> h_record H handshakes (duration_to_hist_ns d) | None \<Rightarrow> handshakes)))"

definition echo_extras :: "'h hist_ops \<Rightarrow> 'h echo_stats \<times> 'h \<Rightarrow> 'h scenario_stats \<Rightarrow> 'h scenario_stats" where
  "echo_extras H rh sc =
     (case rh of (r, handshakes) \<Rightarrow>
        sc\<lparr>sc_ws := Some \<lparr>we_handshake = handshakes, we_rtt = ek_rtt r, we_messages_sent = ek_messages_sent r,
             we_messages_recv = ek_messages_recv r, we_bytes_sent = ek_bytes_sent r, we_bytes_recv = ek_bytes_recv r,
             we_broadcast_rtt = new_hist H\<rparr>\<rparr>)"

definition echo_task :: "'h hist_ops \<Rightarrow> nat \<Rightarrow> nat \<Rightarrow> 'h echo_stats list \<Rightarrow> 'h task_stats" where
  "echo_task H num_scenarios sid us =
     (let rh = foldl (echo_add H) (echo_stats_new H, new_hist H) us; r = fst rh
      in scenario_task H num_scenarios sid
           \<lparr>st_requests = ek_messages_recv r, st_bytes_sent = ek_bytes_sent r, st_bytes_recv = ek_bytes_recv r,
            st_connect = ek_errors_connect r, st_read = ek_errors_read r, st_write = ek_errors_write r\<rparr>
           (echo_extras H rh))"

fun echo_step :: "step \<Rightarrow> ws_echo_plan option" where
  "echo_step (WsEchoRtt p) = Some p"
| "echo_step _ = None"

definition echo_run ::
  "'h hist_ops \<Rightarrow> (template \<Rightarrow> u8 list) \<Rightarrow> (nat \<Rightarrow> instant) \<Rightarrow> 'h live_snapshot option \<Rightarrow> (nat \<Rightarrow> nat \<Rightarrow> echo_env) \<Rightarrow> duration
     \<Rightarrow> nat \<Rightarrow> nat \<Rightarrow> ws_echo_plan \<Rightarrow> 'h task_stats option" where
  "echo_run H expand started live env dur n sid p =
     Some (echo_task H n sid (map (\<lambda>i. snd (run_one_echo_rtt H expand p (word_of_nat sid) (started sid + dur) live (env sid i)))
       [0..<max (unat (wep_connections p)) 1]))"

definition run_ws_echo_rtt ::
  "'h hist_ops \<Rightarrow> (template \<Rightarrow> u8 list) \<Rightarrow> (nat \<Rightarrow> instant) \<Rightarrow> 'h live_snapshot option \<Rightarrow> (nat \<Rightarrow> nat \<Rightarrow> echo_env) \<Rightarrow> duration
     \<Rightarrow> plan \<Rightarrow> 'h task_stats list" where
  "run_ws_echo_rtt H expand started live env dur pl = run_backend Ws echo_step (echo_run H expand started live env dur) pl"

lemma echo_extras_ok: "extras_ok (echo_extras H rh)"
  by (cases rh) (simp add: extras_ok_def echo_extras_def)

interpretation ws_echo: scenario_backend "echo_run H expand started live env dur" for H expand started live env dur
proof unfold_locales
  fix n sid p t'
  assume "echo_run H expand started live env dur n sid p = Some t'"
  then show "rolled_up t' \<and> length (ts_per_scenario t') = n"
    by (auto simp: echo_run_def echo_task_def Let_def scenario_task_rolled_up [OF echo_extras_ok])
qed

section \<open>Lemmas on the matching\<close>

text \<open>Frames got from a connection one call at a time.\<close>

inductive gets :: "ws_conn \<Rightarrow> data_frame list \<Rightarrow> ws_conn \<Rightarrow> bool" where
  gets_none: "gets c [] c"
| gets_frame: "gets c fs c1 \<Longrightarrow> try_recv d c1 = (c2, Done (Some f)) \<Longrightarrow> gets c (fs @ [f]) c2"

lemma gets_first: "try_recv d c = (c1, Done (Some f)) \<Longrightarrow> gets c1 fs c2 \<Longrightarrow> gets c (f # fs) c2"
proof (induction fs arbitrary: c2 rule: rev_induct)
  case Nil
  then have "c2 = c1" by (auto elim: gets.cases)
  then show ?case using gets_frame [OF gets_none Nil(1)] by simp
next
  case (snoc g fs)
  from snoc.prems(2) obtain c3 e where "gets c1 fs c3" "try_recv e c3 = (c2, Done (Some g))"
    by (auto elim: gets.cases)
  then show ?case using snoc.IH snoc.prems(1) gets_frame by (metis append_Cons)
qed

lemma recv_matching_found:
  "recv_matching key deadline n ts c = (c', Matched k) \<Longrightarrow>
     \<exists>fs f. gets c (fs @ [f]) c' \<and> length fs < n \<and> key_matches key f \<and> k = length (df_bytes f)
       \<and> list_all (\<lambda>g. \<not> key_matches key g) fs"
proof (induction key deadline n ts c rule: recv_matching.induct)
  case (3 key deadline n stop now ts c)
  then obtain c1 f where f: "try_recv (deadline - now) c = (c1, Done (Some f))"
    "\<not> stop" "\<not> deadline \<le> now"
    by (auto split: if_splits prod.splits io.splits option.splits ws_error.splits)
  show ?case
  proof (cases "key_matches key f")
    case True
    then have "c' = c1" "k = length (df_bytes f)" using f 3(2) by simp_all
    then show ?thesis using True gets_frame [OF gets_none f(1)] by (intro exI [of _ "[]"] exI [of _ f]) simp
  next
    case False
    then have "recv_matching key deadline n ts c1 = (c', Matched k)" using f 3(2) by simp
    then obtain fs g where g: "gets c1 (fs @ [g]) c'" "length fs < n" "key_matches key g" "k = length (df_bytes g)"
      "list_all (\<lambda>g. \<not> key_matches key g) fs"
      using 3(1) [OF f(2,3) f(1) [symmetric] refl refl False] by blast
    show ?thesis using g False gets_first [OF f(1) g(1)] by (intro exI [of _ "f # fs"] exI [of _ g]) simp
  qed
qed simp_all

text \<open>The id is read back from its digits.\<close>

definition hex_value :: "u8 \<Rightarrow> nat" where
  "hex_value b = (if unat b < 58 then unat b - 48 else unat b - 87)"

lemma hex_value_digit: "n < 16 \<Longrightarrow> hex_value (hex_digit n) = n"
  by (cases "n < 10") (simp_all add: hex_value_def hex_digit_def unat_of_nat del: of_nat_add)

lemma write_hex16_nth:
  assumes "i < 16"
  shows "hex_value (write_hex16 v ! i) = unat (drop_bit ((15 - i) * 4) v) mod 16"
  using assms by (simp add: write_hex16_def rev_nth hex_value_digit)

lemma length_write_hex16 [simp]: "length (write_hex16 v) = 16"
  by (simp add: write_hex16_def)

lemma write_hex16_inj:
  assumes "write_hex16 v = write_hex16 w"
  shows "v = w"
proof (rule bit_word_eqI)
  fix n assume n: "n < LENGTH(64)"
  then have n64: "n < 64" by simp
  have nib: "unat (drop_bit (k * 4) v) mod 16 = unat (drop_bit (k * 4) w) mod 16" if "k < 16" for k
  proof -
    have "15 - k < 16" "15 - (15 - k) = k" using that by simp_all
    then show ?thesis using write_hex16_nth [of "15 - k" v] write_hex16_nth [of "15 - k" w] assms by simp
  qed
  have bit: "bit x n = odd ((unat (drop_bit ((n div 4) * 4) x) mod 16) div 2 ^ (n mod 4))" for x :: u64
  proof -
    have m: "n mod 4 < 4" by simp
    have "bit x n = bit (unat (drop_bit ((n div 4) * 4) x)) (n mod 4)"
      by (simp add: bit_unsigned_iff bit_drop_bit_eq n64)
    also have "\<dots> = bit (take_bit 4 (unat (drop_bit ((n div 4) * 4) x))) (n mod 4)"
      using m by (simp add: bit_take_bit_iff)
    also have "\<dots> = odd ((unat (drop_bit ((n div 4) * 4) x) mod 16) div 2 ^ (n mod 4))"
      by (simp add: take_bit_eq_mod bit_iff_odd)
    finally show ?thesis .
  qed
  have "n div 4 < 16" using n64 by simp
  then show "bit v n = bit w n" unfolding bit using nib by simp
qed

section \<open>Lemmas on the counters\<close>

text \<open>
  Every message sent is answered, counted as a read error, or was the last one, \<open>lost\<close> being then 1;
  \<open>n\<close> bounds the messages by the turns.
\<close>

definition echo_ok :: "('h \<Rightarrow> nat) \<Rightarrow> nat \<Rightarrow> nat \<Rightarrow> 'h echo_stats \<Rightarrow> bool" where
  "echo_ok len n lost u =
     (len (ek_rtt u) = unat (ek_messages_recv u)
      \<and> unat (ek_messages_sent u) = unat (ek_messages_recv u) + unat (ek_errors_read u) + lost
      \<and> unat (ek_messages_sent u) \<le> n)"

lemma unat_inc: "unat (w :: u64) < n \<Longrightarrow> n < 2 ^ 64 \<Longrightarrow> unat (w + 1) = Suc (unat w)"
  using unat_add_lem [of w 1] by simp

lemma echo_receive_ok:
  assumes "echo_ok len n 1 (es_stats s)" "hist_ok H len" "n < 2 ^ 64"
    and "echo_receive H sh sid deadline intended m key tn s = (s', nx)"
  shows "echo_ok len n (if nx = EchoGoOn then 0 else 1) (es_stats s') \<or> echo_ok len n 0 (es_stats s')"
proof -
  have rec: "len (h_record H h (duration_to_hist_ns d)) = Suc (len h)" for h d
    using assms(2) duration_to_hist_bounds [of d] by (simp add: hist_ok_def)
  have inc: "unat (ek_messages_recv (es_stats s) + 1) = Suc (unat (ek_messages_recv (es_stats s)))"
    "unat (ek_errors_read (es_stats s) + 1) = Suc (unat (ek_errors_read (es_stats s)))"
    using assms(1,3) by (auto intro!: unat_inc [of _ n] simp: echo_ok_def)
  obtain c e where r: "recv_matching key deadline MAX_FRAMES (et_recv tn) (es_conn s) = (c, e)" by fastforce
  show ?thesis
    using assms(1,4) r inc by (cases e) (auto simp: echo_receive_def echo_ok_def upd_echo_def rec Let_def)
qed

lemma echo_exchange_ok:
  assumes "echo_ok len n 0 (es_stats s)" "hist_ok H len" "Suc n < 2 ^ 64"
    and "echo_exchange H sh sid strategy suffix deadline intended tn s = (s', nx)"
  shows "(nx = EchoGoOn \<longrightarrow> echo_ok len (Suc n) 0 (es_stats s')) \<and> (\<exists>lost \<le> 1. echo_ok len (Suc n) lost (es_stats s'))"
proof -
  obtain buf key where m: "echo_message strategy (word_of_nat (et_elapsed tn) XOR (es_seq s + 1)) suffix = (buf, key)"
    by fastforce
  obtain c r where r: "echo_send strategy buf (es_conn s) = (c, r)" by fastforce
  have inc: "unat (ek_messages_sent (es_stats s) + 1) = Suc (unat (ek_messages_sent (es_stats s)))"
    using assms(1,3) by (intro unat_inc [of _ "Suc n"]) (auto simp: echo_ok_def)
  show ?thesis
  proof (cases r)
    case (Done x)
    let ?s = "(upd_echo (\<lambda>u. u\<lparr>ek_messages_sent := ek_messages_sent u + 1,
        ek_bytes_sent := sat_add (ek_bytes_sent u) (word_of_nat (length buf))\<rparr>) (s\<lparr>es_seq := es_seq s + 1\<rparr>))\<lparr>es_conn := c\<rparr>"
    have "echo_receive H sh sid deadline intended (length buf) key tn ?s = (s', nx)"
      using assms(4) m r Done by (simp add: echo_exchange_def Let_def)
    moreover have "echo_ok len (Suc n) 1 (es_stats ?s)"
      using assms(1) inc by (auto simp: echo_ok_def upd_echo_def)
    ultimately have "echo_ok len (Suc n) (if nx = EchoGoOn then 0 else 1) (es_stats s') \<or> echo_ok len (Suc n) 0 (es_stats s')"
      using echo_receive_ok [of len "Suc n" ?s H] assms(2,3) by blast
    then show ?thesis by (auto split: if_splits)
  qed (use assms(1,4) m r in \<open>auto simp: echo_exchange_def Let_def upd_echo_def echo_ok_def\<close>)
qed

lemma echo_loop_ok:
  assumes "hist_ok H len" "echo_loop H sh sid strategy suffix base interval deadline tns s = (s', nx)"
    and "echo_ok len n 0 (es_stats s)" "n + length tns < 2 ^ 64"
  shows "\<exists>lost \<le> 1. echo_ok len (n + length tns) lost (es_stats s')"
  using assms(2-4)
proof (induction tns arbitrary: s n)
  case Nil
  then show ?case by (auto intro: exI [of _ 0])
next
  case (Cons tn tns)
  have weaken: "echo_ok len k lost u \<Longrightarrow> k \<le> k' \<Longrightarrow> echo_ok len k' lost u" for k k' lost u
    by (auto simp: echo_ok_def)
  consider "et_stop tn \<or> deadline \<le> et_check tn" | "\<not> (et_stop tn \<or> deadline \<le> et_check tn)"
      "0 < interval \<and> 5000 < (base + unat (es_intended s)) - et_now tn"
    | "\<not> (et_stop tn \<or> deadline \<le> et_check tn)" "\<not> (0 < interval \<and> 5000 < (base + unat (es_intended s)) - et_now tn)"
    by blast
  then show ?case
  proof cases
    case 1
    then have "s' = s" using Cons.prems(1) by auto
    then show ?thesis using weaken [OF Cons.prems(2), of "n + length (tn # tns)"] by (auto intro: exI [of _ 0])
  next
    case 2
    then have "echo_loop H sh sid strategy suffix base interval deadline tns s = (s', nx)" using Cons.prems(1) by simp
    from Cons.IH [OF this Cons.prems(2)] Cons.prems(3) obtain lost where
      "lost \<le> 1" "echo_ok len (n + length tns) lost (es_stats s')" by auto
    then show ?thesis using weaken [of "n + length tns" lost _ "n + length (tn # tns)"] by auto
  next
    case 3
    let ?intended = "if 0 < interval then base + unat (es_intended s) else et_now tn"
    let ?s1 = "if 0 < interval then s\<lparr>es_intended := sat_add (es_intended s) interval\<rparr> else s"
    obtain s2 e where x: "echo_exchange H sh sid strategy suffix deadline ?intended tn ?s1 = (s2, e)" by fastforce
    have "echo_ok len n 0 (es_stats ?s1)" using Cons.prems(2) by simp
    from echo_exchange_ok [OF this assms(1) _ x] Cons.prems(3)
    have ok: "e = EchoGoOn \<Longrightarrow> echo_ok len (Suc n) 0 (es_stats s2)" "\<exists>lost \<le> 1. echo_ok len (Suc n) lost (es_stats s2)"
      by auto
    have step: "echo_loop H sh sid strategy suffix base interval deadline (tn # tns) s
        = (case (s2, e) of (s2, EchoGoOn) \<Rightarrow> echo_loop H sh sid strategy suffix base interval deadline tns s2 | (s2, e) \<Rightarrow> (s2, e))"
      unfolding x [symmetric] echo_loop.simps Let_def by (simp only: 3 if_False)
    show ?thesis
    proof (cases "e = EchoGoOn")
      case True
      then have "echo_loop H sh sid strategy suffix base interval deadline tns s2 = (s', nx)"
        using Cons.prems(1) step by simp
      from Cons.IH [OF this ok(1) [OF True]] Cons.prems(3) show ?thesis by simp
    next
      case False
      then have "s' = s2" using Cons.prems(1) step by (cases e) simp_all
      then show ?thesis using ok(2) weaken [of "Suc n" _ _ "n + length (tn # tns)"] by auto
    qed
  qed
qed

section \<open>Properties\<close>


definition demo_echo_conn :: "u8 list \<Rightarrow> ws_conn" where
  "demo_echo_conn bs = (demo_conn [])\<lparr>cn_recv_buf := bs, cn_clock := [1, 2, 3]\<rparr>"

lemma demo_echo_recv:
  "\<exists>c'. try_recv 9 (demo_echo_conn (frame_bytes True OpText (write_hex16 5))) = (c', Done (Some (DText (write_hex16 5))))"
proof -
  let ?c = "demo_echo_conn (frame_bytes True OpText (write_hex16 5))"
  have d: "decode_frame (frame_bytes True OpText (write_hex16 5)) = Inr (hdr_of True OpText (write_hex16 5))"
    using decode_frame_bytes_eq [of True OpText "write_hex16 5" "[]"]
    by (simp add: hdr_of_def frame_ok_def MAX_PAYLOAD_def)
  show ?thesis
    by (simp add: try_recv_def next_instant_def demo_echo_conn_def demo_conn_def)
       (subst try_recv_until.simps, use payload_eq [of "write_hex16 5" True OpText] in
          \<open>simp add: d hdr_of_def handle_frame_def length_frame_bytes\<close>)
qed


text \<open>
  No round trip is invented and none is dropped silently but the last: over a whole run
  of a connection the histogram has one sample per message received, and every message sent was
  received, counted as a read error, or was the one in flight when the run ended.
\<close>

lemma echo_accounting:
  assumes "run_one_echo_rtt H expand p sid deadline live E = (so, u)" "hist_ok H len" "length (ev_turns E) < 2 ^ 64"
  shows "len (ek_rtt u) = unat (ek_messages_recv u)
    \<and> unat (ek_messages_sent u) - (unat (ek_messages_recv u) + unat (ek_errors_read u)) \<in> {0, 1}
    \<and> unat (ek_messages_recv u) + unat (ek_errors_read u) \<le> unat (ek_messages_sent u)"
proof (cases "ev_conn E")
  case None
  then show ?thesis using assms(1,2) by (auto simp: run_one_echo_rtt_def echo_stats_new_def hist_ok_def new_hist_def)
next
  case (Some c)
  let ?interval = "if f64_positive (wep_msg_rate_per_conn p) then ev_interval E (wep_msg_rate_per_conn p) else 0"
  let ?s0 = "\<lparr>es_stats = (echo_stats_new H)\<lparr>ek_handshake := Some (ev_handshake E)\<rparr>, es_conn = c, es_seq = 0,
      es_intended = 0, es_rec = \<lparr>rc_task = None, rc_live = live\<rparr>\<rparr>"
  obtain s e where l: "echo_loop H (ev_shard E) sid (wep_correlate p) (expand (wep_payload p)) (ev_base E) ?interval
      deadline (ev_turns E) ?s0 = (s, e)" by fastforce
  have "echo_ok len 0 0 (es_stats ?s0)"
    using assms(2) by (simp add: echo_ok_def echo_stats_new_def hist_ok_def new_hist_def)
  from echo_loop_ok [OF assms(2) l this] assms(3) obtain lost where
    "lost \<le> 1" "echo_ok len (length (ev_turns E)) lost (es_stats s)" by auto
  moreover have "u = es_stats s" using assms(1) Some l by (simp add: run_one_echo_rtt_def Let_def)
  ultimately show ?thesis by (auto simp: echo_ok_def)
qed

definition demo_echo :: ws_echo_plan where
  "demo_echo = \<lparr>wep_url = template_literal ''ws://h/'', wep_headers = [], wep_connections = 1,
     wep_msg_rate_per_conn = 0, wep_correlate = FirstTextFrame, wep_payload = template_literal ''hi''\<rparr>"

definition demo_echo_env :: echo_env where
  "demo_echo_env = \<lparr>ev_conn = Some (demo_conn []), ev_handshake = 80, ev_base = 1, ev_interval = (\<lambda>_. 0),
     ev_turns = [\<lparr>et_stop = False, et_check = 2, et_now = 3, et_elapsed = 4, et_recv = [(True, 5)], et_done = 6\<rparr>],
     ev_shard = 0\<rparr>"

end
