(* ===== verification/WsStreams.thy ===== *)
theory WsStreams
  imports WsEcho Fanout
begin

text \<open>
  The other WebSocket backends: connections held open with heartbeats (\<open>ws/hold.rs\<close>), pushes of the
  server timed by their gaps (\<open>ws/server_push_rtt.rs\<close>), and broadcasts (\<open>ws/fanout.rs\<close>), whose triggers and
  correlation are those of \<open>Fanout\<close>. The result of connecting and the clock are parameters; so is the
  floating-point comparison of rates that tells a stalled push.
\<close>

section \<open>Live counters\<close>

text \<open>The pair of calls a worker makes when there is a live snapshot.\<close>

definition live_op ::
  "'h hist_ops \<Rightarrow> nat \<Rightarrow> u16 \<Rightarrow> nat \<Rightarrow> u64 \<Rightarrow> u64 \<Rightarrow> 'h live_snapshot option \<Rightarrow> 'h live_snapshot option" where
  "live_op H sh sid ns bs br lv =
     map_option (\<lambda>l. run_acts H (live_record sh ns bs br @ live_record_scenario (length (lv_scenarios l)) sh sid ns bs br) l) lv"

section \<open>Held connections\<close>

record whold_stats =
  wh_handshake :: "duration option"
  wh_bytes_sent :: u64
  wh_bytes_recv :: u64
  wh_heartbeats_sent :: u64
  wh_frames_recv :: u64
  wh_errors_connect :: u64
  wh_errors_read :: u64
  wh_errors_write :: u64
  wh_completed :: bool

definition whold_new :: whold_stats where
  "whold_new = \<lparr>wh_handshake = None, wh_bytes_sent = 0, wh_bytes_recv = 0, wh_heartbeats_sent = 0,
     wh_frames_recv = 0, wh_errors_connect = 0, wh_errors_read = 0, wh_errors_write = 0, wh_completed = False\<rparr>"

text \<open>One turn: the stop flag, the two clock readings at the top, and the one after a heartbeat.\<close>

record whold_turn =
  wt_stop :: bool
  wt_check :: instant
  wt_now :: instant
  wt_after :: instant

record 'h whold_state =
  ws_stats :: whold_stats
  ws_conn_of :: ws_conn
  ws_live :: "'h live_snapshot option"

definition HEARTBEAT :: "u8 list" where "HEARTBEAT = [122, 98, 45, 104, 98]"

definition send_heartbeat :: "heartbeat_frame \<Rightarrow> ws_conn \<Rightarrow> ws_conn \<times> unit io" where
  "send_heartbeat k c = (case k of HbPing \<Rightarrow> send_ping HEARTBEAT c | HbTextApp \<Rightarrow> send_text HEARTBEAT c)"

definition upd_hold :: "(whold_stats \<Rightarrow> whold_stats) \<Rightarrow> 'h whold_state \<Rightarrow> 'h whold_state" where
  "upd_hold f s = s\<lparr>ws_stats := f (ws_stats s)\<rparr>"

text \<open>The loop, left by returning early or, on the stop flag or the deadline, as completed.\<close>

fun whold_loop ::
  "'h hist_ops \<Rightarrow> nat \<Rightarrow> u16 \<Rightarrow> heartbeat_frame \<Rightarrow> duration \<Rightarrow> instant \<Rightarrow> whold_turn list \<Rightarrow> instant
     \<Rightarrow> 'h whold_state \<Rightarrow> 'h whold_state" where
  "whold_loop H sh sid kind interval deadline [] next_hb s = s"
| "whold_loop H sh sid kind interval deadline (tn # tns) next_hb s =
     (if wt_stop tn \<or> deadline \<le> wt_check tn then
        (upd_hold (\<lambda>u. u\<lparr>wh_completed := True\<rparr>) s)\<lparr>ws_conn_of := fst (ws_close 1000 [98, 121, 101] (ws_conn_of s))\<rparr>
      else if wt_now tn < min next_hb deadline then
        (case try_recv (min (min next_hb deadline - wt_now tn) (500 * 1000000)) (ws_conn_of s) of
           (c, Done (Some f)) \<Rightarrow>
             (let n = word_of_nat (length (df_bytes f));
                  s1 = upd_hold (\<lambda>u. u\<lparr>wh_frames_recv := wh_frames_recv u + 1,
                                    wh_bytes_recv := sat_add (wh_bytes_recv u) n\<rparr>) s
              in whold_loop H sh sid kind interval deadline tns next_hb
                   (s1\<lparr>ws_conn_of := c, ws_live := live_op H sh sid 1 0 n (ws_live s1)\<rparr>))
         | (c, Done None) \<Rightarrow> whold_loop H sh sid kind interval deadline tns next_hb (s\<lparr>ws_conn_of := c\<rparr>)
         | (c, Fail e) \<Rightarrow>
             (case e of
                WsClosed _ _ \<Rightarrow> s\<lparr>ws_conn_of := c\<rparr>
              | _ \<Rightarrow> (upd_hold (\<lambda>u. u\<lparr>wh_errors_read := wh_errors_read u + 1\<rparr>) s)\<lparr>ws_conn_of := c\<rparr>)
         | (c, _) \<Rightarrow> s\<lparr>ws_conn_of := c\<rparr>)
      else
        (case send_heartbeat kind (ws_conn_of s) of
           (c, Done _) \<Rightarrow>
             whold_loop H sh sid kind interval deadline tns (wt_after tn + interval)
               ((upd_hold (\<lambda>u. u\<lparr>wh_heartbeats_sent := wh_heartbeats_sent u + 1,
                    wh_bytes_sent := sat_add (wh_bytes_sent u) (word_of_nat (length HEARTBEAT))\<rparr>) s)\<lparr>ws_conn_of := c\<rparr>)
         | (c, Fail _) \<Rightarrow> (upd_hold (\<lambda>u. u\<lparr>wh_errors_write := wh_errors_write u + 1\<rparr>) s)\<lparr>ws_conn_of := c\<rparr>
         | (c, _) \<Rightarrow> s\<lparr>ws_conn_of := c\<rparr>))"

record whold_env =
  wv_conn :: "ws_conn option"
  wv_handshake :: duration
  wv_base :: instant
  wv_turns :: "whold_turn list"
  wv_shard :: nat

definition heartbeat_interval :: "ws_hold_plan \<Rightarrow> duration" where
  "heartbeat_interval p = (if whp_heartbeat p = 0 then 25 * 1000000000 else whp_heartbeat p)"

definition run_one_hold ::
  "'h hist_ops \<Rightarrow> ws_hold_plan \<Rightarrow> u16 \<Rightarrow> instant \<Rightarrow> 'h live_snapshot option \<Rightarrow> whold_env \<Rightarrow> whold_stats" where
  "run_one_hold H p sid deadline lv E =
     (case wv_conn E of
        None \<Rightarrow> whold_new\<lparr>wh_errors_connect := 1\<rparr>
      | Some c \<Rightarrow>
          ws_stats (whold_loop H (wv_shard E) sid (whp_heartbeat_frame p) (heartbeat_interval p) deadline (wv_turns E)
            (wv_base E + heartbeat_interval p)
            \<lparr>ws_stats = whold_new\<lparr>wh_handshake := Some (wv_handshake E)\<rparr>, ws_conn_of = c, ws_live = lv\<rparr>))"

definition whold_sum :: "(whold_stats \<Rightarrow> u64) \<Rightarrow> whold_stats list \<Rightarrow> u64" where
  "whold_sum f us = sum_list (map f us)"

definition record_handshakes :: "'h hist_ops \<Rightarrow> duration option list \<Rightarrow> 'h" where
  "record_handshakes H ds =
     foldl (\<lambda>h d. case d of Some x \<Rightarrow> h_record H h (duration_to_hist_ns x) | None \<Rightarrow> h) (new_hist H) ds"

definition whold_extras :: "'h hist_ops \<Rightarrow> whold_stats list \<Rightarrow> 'h scenario_stats \<Rightarrow> 'h scenario_stats" where
  "whold_extras H us sc =
     sc\<lparr>sc_ws := Some \<lparr>we_handshake = record_handshakes H (map wh_handshake us), we_rtt = new_hist H,
          we_messages_sent = 0, we_messages_recv = whold_sum wh_frames_recv us,
          we_bytes_sent = whold_sum wh_bytes_sent us, we_bytes_recv = whold_sum wh_bytes_recv us,
          we_broadcast_rtt = new_hist H\<rparr>\<rparr>"

definition whold_task :: "'h hist_ops \<Rightarrow> nat \<Rightarrow> nat \<Rightarrow> whold_stats list \<Rightarrow> 'h task_stats" where
  "whold_task H num_scenarios sid us =
     scenario_task H num_scenarios sid
       \<lparr>st_requests = whold_sum (\<lambda>u. if wh_completed u then 1 else 0) us,
        st_bytes_sent = whold_sum wh_bytes_sent us, st_bytes_recv = whold_sum wh_bytes_recv us,
        st_connect = whold_sum wh_errors_connect us, st_read = whold_sum wh_errors_read us,
        st_write = whold_sum wh_errors_write us\<rparr> (whold_extras H us)"

fun whold_step :: "step \<Rightarrow> ws_hold_plan option" where
  "whold_step (WsHold p) = Some p"
| "whold_step _ = None"

definition whold_run ::
  "'h hist_ops \<Rightarrow> (nat \<Rightarrow> instant) \<Rightarrow> 'h live_snapshot option \<Rightarrow> (nat \<Rightarrow> nat \<Rightarrow> whold_env) \<Rightarrow> duration
     \<Rightarrow> nat \<Rightarrow> nat \<Rightarrow> ws_hold_plan \<Rightarrow> 'h task_stats option" where
  "whold_run H started lv env dur n sid p =
     Some (whold_task H n sid
       (map (\<lambda>i. run_one_hold H p (word_of_nat sid) (wall_deadline (started sid) dur (whp_hold_for p)) lv (env sid i))
         [0..<max (unat (whp_connections p)) 1]))"

definition run_ws_hold ::
  "'h hist_ops \<Rightarrow> (nat \<Rightarrow> instant) \<Rightarrow> 'h live_snapshot option \<Rightarrow> (nat \<Rightarrow> nat \<Rightarrow> whold_env) \<Rightarrow> duration \<Rightarrow> plan
     \<Rightarrow> 'h task_stats list" where
  "run_ws_hold H started lv env dur pl = run_backend Ws whold_step (whold_run H started lv env dur) pl"

lemma whold_extras_ok: "extras_ok (whold_extras H us)"
  by (simp add: extras_ok_def whold_extras_def)

interpretation ws_hold: scenario_backend "whold_run H started lv env dur" for H started lv env dur
proof unfold_locales
  fix n sid p t'
  assume "whold_run H started lv env dur n sid p = Some t'"
  then show "rolled_up t' \<and> length (ts_per_scenario t') = n"
    by (auto simp: whold_run_def whold_task_def scenario_task_rolled_up [OF whold_extras_ok])
qed

section \<open>Server pushes\<close>

record 'h push_stats =
  pu_handshake :: "duration option"
  pu_gap :: 'h
  pu_messages_recv :: u64
  pu_bytes_recv :: u64
  pu_errors_connect :: u64
  pu_errors_read :: u64
  pu_stalled :: bool

definition push_new :: "'h hist_ops \<Rightarrow> 'h push_stats" where
  "push_new H = \<lparr>pu_handshake = None, pu_gap = new_hist H, pu_messages_recv = 0, pu_bytes_recv = 0,
     pu_errors_connect = 0, pu_errors_read = 0, pu_stalled = False\<rparr>"

text \<open>The clock at the top, the one the budget is computed from, and the one after a message.\<close>

record recv_turn =
  rv_stop :: bool
  rv_check :: instant
  rv_budget :: instant
  rv_now :: instant

record 'h push_state =
  ps_stats :: "'h push_stats"
  ps_conn :: ws_conn
  ps_live :: "'h live_snapshot option"
  ps_last :: "instant option"

text \<open>One message of \<open>n\<close> bytes at \<open>now\<close>.\<close>

definition on_push :: "'h hist_ops \<Rightarrow> nat \<Rightarrow> u16 \<Rightarrow> instant \<Rightarrow> nat \<Rightarrow> 'h push_state \<Rightarrow> 'h push_state" where
  "on_push H sh sid now n s =
     (let s1 = (case ps_last s of
                  Some prev \<Rightarrow>
                    (let gap = clamp_hist (duration_to_hist_ns (now - prev))
                     in s\<lparr>ps_stats := (ps_stats s)\<lparr>pu_gap := h_record H (pu_gap (ps_stats s)) gap\<rparr>,
                          ps_live := live_op H sh sid gap 0 (word_of_nat n) (ps_live s)\<rparr>)
                | None \<Rightarrow> s);
          u = ps_stats s1
      in s1\<lparr>ps_last := Some now,
            ps_stats := u\<lparr>pu_messages_recv := pu_messages_recv u + 1,
                          pu_bytes_recv := sat_add (pu_bytes_recv u) (word_of_nat n)\<rparr>\<rparr>)"

text \<open>The loop, and whether it was left to the stall check or by returning with an error.\<close>

fun push_loop ::
  "'h hist_ops \<Rightarrow> nat \<Rightarrow> u16 \<Rightarrow> instant \<Rightarrow> recv_turn list \<Rightarrow> 'h push_state \<Rightarrow> 'h push_state \<times> bool" where
  "push_loop H sh sid deadline [] s = (s, True)"
| "push_loop H sh sid deadline (tn # tns) s =
     (if rv_stop tn \<or> deadline \<le> rv_check tn then (s, True)
      else if deadline - rv_budget tn = 0 then (s, True)
      else (case try_recv (min (deadline - rv_budget tn) (250 * 1000000)) (ps_conn s) of
              (c, Done (Some (DPong _))) \<Rightarrow> push_loop H sh sid deadline tns (s\<lparr>ps_conn := c\<rparr>)
            | (c, Done (Some f)) \<Rightarrow>
                push_loop H sh sid deadline tns (on_push H sh sid (rv_now tn) (length (df_bytes f)) (s\<lparr>ps_conn := c\<rparr>))
            | (c, Done None) \<Rightarrow> push_loop H sh sid deadline tns (s\<lparr>ps_conn := c\<rparr>)
            | (c, Fail e) \<Rightarrow>
                (case e of
                   WsClosed _ _ \<Rightarrow> (s\<lparr>ps_conn := c\<rparr>, True)
                 | _ \<Rightarrow> (s\<lparr>ps_conn := c, ps_stats := (ps_stats s)\<lparr>pu_errors_read := pu_errors_read (ps_stats s) + 1\<rparr>\<rparr>, False))
            | (c, _) \<Rightarrow> (s\<lparr>ps_conn := c\<rparr>, False)))"

record push_env =
  pv_conn :: "ws_conn option"
  pv_handshake :: duration
  pv_turns :: "recv_turn list"
  pv_elapsed :: duration
  pv_shard :: nat

text \<open>\<open>slow rate n elapsed\<close>: \<open>n\<close> messages in that time are less than half the expected rate.\<close>

definition run_one_push ::
  "'h hist_ops \<Rightarrow> (f64 \<Rightarrow> u64 \<Rightarrow> duration \<Rightarrow> bool) \<Rightarrow> ws_push_plan \<Rightarrow> u16 \<Rightarrow> instant \<Rightarrow> 'h live_snapshot option \<Rightarrow> push_env
     \<Rightarrow> 'h push_stats" where
  "run_one_push H slow p sid deadline lv E =
     (case pv_conn E of
        None \<Rightarrow> (push_new H)\<lparr>pu_errors_connect := 1\<rparr>
      | Some c \<Rightarrow>
          (case push_loop H (pv_shard E) sid deadline (pv_turns E)
                  \<lparr>ps_stats = (push_new H)\<lparr>pu_handshake := Some (pv_handshake E)\<rparr>, ps_conn = c, ps_live = lv, ps_last = None\<rparr> of
             (s, ended) \<Rightarrow>
               (let u = ps_stats s; rate = wpp_expected_rate_per_conn p
                in if ended \<and> f64_positive rate \<and> slow rate (pu_messages_recv u) (pv_elapsed E)
                   then u\<lparr>pu_stalled := True\<rparr> else u)))"

definition push_sum :: "('h push_stats \<Rightarrow> u64) \<Rightarrow> 'h push_stats list \<Rightarrow> u64" where
  "push_sum f us = sum_list (map f us)"

definition push_extras :: "'h hist_ops \<Rightarrow> 'h push_stats list \<Rightarrow> 'h scenario_stats \<Rightarrow> 'h scenario_stats" where
  "push_extras H us sc =
     sc\<lparr>sc_ws := Some \<lparr>we_handshake = record_handshakes H (map pu_handshake us),
          we_rtt = foldl (h_add H) (new_hist H) (map pu_gap us),
          we_messages_sent = 0, we_messages_recv = push_sum pu_messages_recv us,
          we_bytes_sent = 0, we_bytes_recv = push_sum pu_bytes_recv us, we_broadcast_rtt = new_hist H\<rparr>\<rparr>"

definition push_task :: "'h hist_ops \<Rightarrow> nat \<Rightarrow> nat \<Rightarrow> 'h push_stats list \<Rightarrow> 'h task_stats" where
  "push_task H num_scenarios sid us =
     scenario_task H num_scenarios sid
       \<lparr>st_requests = push_sum pu_messages_recv us, st_bytes_sent = 0, st_bytes_recv = push_sum pu_bytes_recv us,
        st_connect = push_sum pu_errors_connect us,
        st_read = push_sum pu_errors_read us + push_sum (\<lambda>u. if pu_stalled u then 1 else 0) us, st_write = 0\<rparr>
       (push_extras H us)"

fun push_step :: "step \<Rightarrow> ws_push_plan option" where
  "push_step (WsServerPushRtt p) = Some p"
| "push_step _ = None"

definition push_run ::
  "'h hist_ops \<Rightarrow> (f64 \<Rightarrow> u64 \<Rightarrow> duration \<Rightarrow> bool) \<Rightarrow> (nat \<Rightarrow> instant) \<Rightarrow> 'h live_snapshot option \<Rightarrow> (nat \<Rightarrow> nat \<Rightarrow> push_env)
     \<Rightarrow> duration \<Rightarrow> nat \<Rightarrow> nat \<Rightarrow> ws_push_plan \<Rightarrow> 'h task_stats option" where
  "push_run H slow started lv env dur n sid p =
     Some (push_task H n sid
       (map (\<lambda>i. run_one_push H slow p (word_of_nat sid) (wall_deadline (started sid) dur (wpp_hold_for p)) lv (env sid i))
         [0..<max (unat (wpp_connections p)) 1]))"

definition run_ws_push ::
  "'h hist_ops \<Rightarrow> (f64 \<Rightarrow> u64 \<Rightarrow> duration \<Rightarrow> bool) \<Rightarrow> (nat \<Rightarrow> instant) \<Rightarrow> 'h live_snapshot option \<Rightarrow> (nat \<Rightarrow> nat \<Rightarrow> push_env)
     \<Rightarrow> duration \<Rightarrow> plan \<Rightarrow> 'h task_stats list" where
  "run_ws_push H slow started lv env dur pl = run_backend Ws push_step (push_run H slow started lv env dur) pl"

lemma push_extras_ok: "extras_ok (push_extras H us)"
  by (simp add: extras_ok_def push_extras_def)

interpretation ws_push: scenario_backend "push_run H slow started lv env dur" for H slow started lv env dur
proof unfold_locales
  fix n sid p t'
  assume "push_run H slow started lv env dur n sid p = Some t'"
  then show "rolled_up t' \<and> length (ts_per_scenario t') = n"
    by (auto simp: push_run_def push_task_def scenario_task_rolled_up [OF push_extras_ok])
qed

section \<open>Broadcasts\<close>

definition on_broadcast :: "string option \<Rightarrow> instant \<Rightarrow> u8 list \<Rightarrow> fan_sub \<Rightarrow> fan_sub" where
  "on_broadcast emit_field now b s =
     s\<lparr>fs_events := fs_events s @ [(now, Option.bind emit_field (find_json_u64_field (text_of b)))],
       fs_bytes_received := sat_add (fs_bytes_received s) (word_of_nat (length b))\<rparr>"

fun wfan_loop :: "string option \<Rightarrow> instant \<Rightarrow> recv_turn list \<Rightarrow> ws_conn \<times> fan_sub \<Rightarrow> ws_conn \<times> fan_sub" where
  "wfan_loop emit_field deadline [] cs = cs"
| "wfan_loop emit_field deadline (tn # tns) (c0, s) =
     (if rv_stop tn \<or> deadline \<le> rv_check tn then (c0, s)
      else if deadline - rv_budget tn = 0 then (c0, s)
      else (case try_recv (min (deadline - rv_budget tn) (250 * 1000000)) c0 of
              (c, Done (Some (DPong _))) \<Rightarrow> wfan_loop emit_field deadline tns (c, s)
            | (c, Done (Some f)) \<Rightarrow> wfan_loop emit_field deadline tns (c, on_broadcast emit_field (rv_now tn) (df_bytes f) s)
            | (c, Done None) \<Rightarrow> wfan_loop emit_field deadline tns (c, s)
            | (c, Fail e) \<Rightarrow>
                (case e of
                   WsClosed _ _ \<Rightarrow> (c, s)
                 | _ \<Rightarrow> (c, s\<lparr>fs_errors_read := fs_errors_read s + 1\<rparr>))
            | (c, _) \<Rightarrow> (c, s)))"

record wfan_env =
  wf_conn :: "ws_conn option"
  wf_handshake :: duration
  wf_turns :: "recv_turn list"

definition run_wfan_subscriber :: "string option \<Rightarrow> instant \<Rightarrow> wfan_env \<Rightarrow> fan_sub" where
  "run_wfan_subscriber emit_field deadline E =
     (case wf_conn E of
        None \<Rightarrow> fan_sub_new\<lparr>fs_errors_connect := 1\<rparr>
      | Some c \<Rightarrow> snd (wfan_loop emit_field deadline (wf_turns E) (c, fan_sub_new\<lparr>fs_start := Some (wf_handshake E)\<rparr>)))"

definition wfan_extras :: "'h hist_ops \<Rightarrow> 'h fan_totals \<Rightarrow> 'h scenario_stats \<Rightarrow> 'h scenario_stats" where
  "wfan_extras H r sc =
     sc\<lparr>sc_ws := Some \<lparr>we_handshake = ft_start r, we_rtt = new_hist H, we_messages_sent = 0,
          we_messages_recv = ft_events r, we_bytes_sent = 0, we_bytes_recv = ft_bytes r,
          we_broadcast_rtt = ft_rtt r\<rparr>\<rparr>"

record 'r wfan_world =
  wx_started :: "nat \<Rightarrow> instant"
  wx_trigger_at :: "nat \<Rightarrow> instant"
  wx_trigger_ctx :: "nat \<Rightarrow> 'r expand_ctx"
  wx_trigger_turns :: "nat \<Rightarrow> trigger_turn list"
  wx_subs :: "nat \<Rightarrow> nat \<Rightarrow> wfan_env"
  wx_unix :: "nat \<Rightarrow> nat \<Rightarrow> nat \<Rightarrow> nat \<times> nat"

fun wfan_step :: "step \<Rightarrow> ws_fanout_plan option" where
  "wfan_step (WsFanout p) = Some p"
| "wfan_step _ = None"

definition wfan_run ::
  "'h hist_ops \<Rightarrow> 'r world \<Rightarrow> target \<Rightarrow> 'r wfan_world \<Rightarrow> duration \<Rightarrow> nat \<Rightarrow> nat \<Rightarrow> ws_fanout_plan \<Rightarrow> 'h task_stats option" where
  "wfan_run H W t E dur n sid p =
     (case trigger_url (wfp_trigger p) of
        None \<Rightarrow> None
      | Some url \<Rightarrow>
          (let emit_field = emit_field_of (wfp_mode p);
               deadline = wall_deadline (wx_started E sid) dur (whp_hold_for (wfp_subscribers p));
               sub_count = max (unat (whp_connections (wfp_subscribers p))) 1;
               subs = map (\<lambda>i. run_wfan_subscriber emit_field deadline (wx_subs E sid i)) [0..<sub_count];
               triggers = trigger_loop W t url deadline (wx_trigger_turns E sid)
                            (wx_trigger_at E sid + TRIGGER_INTERVAL, wx_trigger_ctx E sid);
               r = foldl (fan_add H (emit_field \<noteq> None) triggers) (fan_totals_new H)
                     (map (\<lambda>i. (subs ! i, wx_unix E sid i)) [0..<sub_count])
           in Some (scenario_task H n sid (fan_row r) (wfan_extras H r))))"

definition run_ws_fanout ::
  "'h hist_ops \<Rightarrow> 'r world \<Rightarrow> target \<Rightarrow> 'r wfan_world \<Rightarrow> duration \<Rightarrow> plan \<Rightarrow> 'h task_stats list" where
  "run_ws_fanout H W t E dur pl = run_backend Ws wfan_step (wfan_run H W t E dur) pl"

lemma wfan_extras_ok: "extras_ok (wfan_extras H r)"
  by (simp add: extras_ok_def wfan_extras_def)

interpretation ws_fanout: scenario_backend "wfan_run H W t E dur" for H W t E dur
proof unfold_locales
  fix n sid p t'
  assume "wfan_run H W t E dur n sid p = Some t'"
  then show "rolled_up t' \<and> length (ts_per_scenario t') = n"
    by (auto simp: wfan_run_def Let_def scenario_task_rolled_up [OF wfan_extras_ok] split: option.splits)
qed

section \<open>Invariants of the loops\<close>

text \<open>Of a held connection after \<open>n\<close> turns.\<close>

definition whold_going :: "nat \<Rightarrow> whold_stats \<Rightarrow> bool" where
  "whold_going n u =
     (wh_errors_connect u = 0 \<and> wh_errors_read u = 0 \<and> wh_errors_write u = 0 \<and> \<not> wh_completed u
      \<and> unat (wh_heartbeats_sent u) \<le> n \<and> unat (wh_bytes_sent u) = 5 * unat (wh_heartbeats_sent u))"

definition whold_left :: "whold_stats \<Rightarrow> bool" where
  "whold_left u =
     (unat (wh_errors_connect u) + unat (wh_errors_read u) + unat (wh_errors_write u)
        + (if wh_completed u then 1 else 0) \<le> 1
      \<and> unat (wh_bytes_sent u) = 5 * unat (wh_heartbeats_sent u))"

lemma whold_going_left: "whold_going n u \<Longrightarrow> whold_left u"
  by (simp add: whold_going_def whold_left_def)

lemma whold_leaves:
  assumes "whold_going n u"
  shows "whold_left (u\<lparr>wh_completed := True\<rparr>)" "whold_left (u\<lparr>wh_errors_read := wh_errors_read u + 1\<rparr>)"
    "whold_left (u\<lparr>wh_errors_write := wh_errors_write u + 1\<rparr>)"
  using assms by (simp_all add: whold_going_def whold_left_def)

lemma whold_heartbeat:
  assumes "whold_going n u" "n < 2 ^ 60"
  shows "whold_going (Suc n) (u\<lparr>wh_heartbeats_sent := wh_heartbeats_sent u + 1,
    wh_bytes_sent := sat_add (wh_bytes_sent u) (word_of_nat (length HEARTBEAT))\<rparr>)"
proof -
  have i: "unat (wh_heartbeats_sent u + 1) = Suc (unat (wh_heartbeats_sent u))"
    using assms by (intro unat_inc [of _ "Suc n"]) (auto simp: whold_going_def)
  have "unat (wh_bytes_sent u) + 5 < 2 ^ 64" using assms by (simp add: whold_going_def)
  then have "unat (sat_add (wh_bytes_sent u) 5) = unat (wh_bytes_sent u) + 5"
    using unat_add_lem [of "wh_bytes_sent u" 5] by (simp add: sat_add_def)
  then show ?thesis using assms(1) i by (simp add: whold_going_def HEARTBEAT_def)
qed

lemma whold_loop_left:
  assumes "whold_going n (ws_stats s)" "n + length tns \<le> 2 ^ 60"
  shows "whold_left (ws_stats (whold_loop H sh sid kind interval deadline tns next_hb s))"
  using assms
proof (induction tns arbitrary: n s next_hb)
  case Nil
  then show ?case by (simp add: whold_going_left)
next
  case (Cons tn tns)
  note left = whold_leaves [OF Cons.prems(1)] whold_going_left [OF Cons.prems(1)]
  have mono: "whold_going (Suc n) (ws_stats s)" using Cons.prems(1) by (simp add: whold_going_def)
  have room: "Suc n + length tns \<le> 2 ^ 60" "n < 2 ^ 60" using Cons.prems(2) by simp_all
  have frame: "whold_going (Suc n) ((ws_stats s)\<lparr>wh_frames_recv := x, wh_bytes_recv := y\<rparr>)" for x y
    using mono by (simp add: whold_going_def)
  consider "wt_stop tn \<or> deadline \<le> wt_check tn"
    | "\<not> (wt_stop tn \<or> deadline \<le> wt_check tn)" "wt_now tn < min next_hb deadline"
    | "\<not> (wt_stop tn \<or> deadline \<le> wt_check tn)" "\<not> wt_now tn < min next_hb deadline" by blast
  then show ?case
  proof cases
    case 1
    then show ?thesis using left(1) by (auto simp: upd_hold_def)
  next
    case 2
    obtain c r where r: "try_recv (min (min next_hb deadline - wt_now tn) (500 * 1000000)) (ws_conn_of s) = (c, r)"
      by fastforce
    show ?thesis unfolding whold_loop.simps
      using left Cons.IH [OF _ room(1)] frame mono
      by (simp only: 2 if_False if_True r)
         (auto simp: upd_hold_def Let_def split: io.splits option.splits ws_error.splits)
  next
    case 3
    obtain c r where r: "send_heartbeat kind (ws_conn_of s) = (c, r)" by fastforce
    show ?thesis unfolding whold_loop.simps
      using left Cons.IH [OF _ room(1)] whold_heartbeat [OF Cons.prems(1) room(2)]
      by (simp only: 3 if_False r) (auto simp: upd_hold_def split: io.splits)
  qed
qed

text \<open>Of a push connection: one gap per message after the first, of at most \<open>n\<close> messages.\<close>

definition push_ok :: "('h \<Rightarrow> nat) \<Rightarrow> nat \<Rightarrow> 'h push_state \<Rightarrow> bool" where
  "push_ok len n s =
     (len (pu_gap (ps_stats s)) = unat (pu_messages_recv (ps_stats s)) - 1
      \<and> (ps_last s = None \<longleftrightarrow> pu_messages_recv (ps_stats s) = 0) \<and> unat (pu_messages_recv (ps_stats s)) \<le> n
      \<and> pu_errors_connect (ps_stats s) = 0 \<and> pu_errors_read (ps_stats s) = 0 \<and> \<not> pu_stalled (ps_stats s))"

lemma on_push_ok:
  assumes "push_ok len n s" "hist_ok H len" "Suc n < 2 ^ 64"
  shows "push_ok len (Suc n) (on_push H sh sid now m s)"
proof -
  let ?k = "pu_messages_recv (ps_stats s)"
  have i: "unat (?k + 1) = Suc (unat ?k)" using assms by (intro unat_inc [of _ "Suc n"]) (auto simp: push_ok_def)
  then have nz: "?k + 1 \<noteq> 0" by (metis nat.simps(3) unat_0)
  have bounds: "HIST_LO_NS \<le> clamp_hist v \<and> clamp_hist v \<le> HIST_HI_NS" for v
    by (simp add: clamp_hist_def HIST_LO_NS_def HIST_HI_NS_def)
  have "0 < unat ?k" if "?k \<noteq> 0" using that by (simp add: unat_gt_0)
  then show ?thesis
    using assms(1,2) i nz bounds
    by (auto simp: push_ok_def on_push_def Let_def hist_ok_def split: option.splits)
qed

lemma push_loop_ok:
  assumes "push_loop H sh sid deadline tns s = (s', ended)" "push_ok len n s" "hist_ok H len" "n + length tns < 2 ^ 64"
  shows "len (pu_gap (ps_stats s')) = unat (pu_messages_recv (ps_stats s')) - 1
    \<and> pu_errors_connect (ps_stats s') = 0 \<and> \<not> pu_stalled (ps_stats s')
    \<and> pu_errors_read (ps_stats s') \<le> 1 \<and> (ended \<longrightarrow> pu_errors_read (ps_stats s') = 0)"
  using assms
proof (induction tns arbitrary: n s)
  case Nil
  then show ?case by (auto simp: push_ok_def)
next
  case (Cons tn tns)
  have room: "Suc n + length tns < 2 ^ 64" "Suc n < 2 ^ 64" using Cons.prems(4) by simp_all
  have here: "len (pu_gap (ps_stats s)) = unat (pu_messages_recv (ps_stats s)) - 1"
    "pu_errors_connect (ps_stats s) = 0" "\<not> pu_stalled (ps_stats s)" "pu_errors_read (ps_stats s) = 0"
    using Cons.prems(2) by (simp_all add: push_ok_def)
  have same: "push_ok len (Suc n) (s\<lparr>ps_conn := c\<rparr>)" for c using Cons.prems(2) by (simp add: push_ok_def)
  have grow: "push_ok len (Suc n) (on_push H sh sid (rv_now tn) m (s\<lparr>ps_conn := c\<rparr>))" for c m
  proof -
    have "push_ok len n (s\<lparr>ps_conn := c\<rparr>)" using Cons.prems(2) by (simp add: push_ok_def)
    then show ?thesis by (rule on_push_ok [OF _ Cons.prems(3) room(2)])
  qed
  note next_turn = Cons.IH [OF _ _ Cons.prems(3) room(1)]
  obtain c r where r: "try_recv (min (deadline - rv_budget tn) (250 * 1000000)) (ps_conn s) = (c, r)" by fastforce
  show ?case
  proof (cases "(rv_stop tn \<or> deadline \<le> rv_check tn) \<or> deadline - rv_budget tn = 0")
    case True
    then have "s' = s \<and> ended" using Cons.prems(1) by (auto split: if_splits)
    then show ?thesis using here by simp
  next
    case False
    then show ?thesis
      using Cons.prems(1) next_turn [OF _ same] next_turn [OF _ grow] here
      unfolding push_loop.simps r by (auto split: io.splits option.splits data_frame.splits ws_error.splits)
  qed
qed

section \<open>Properties\<close>

text \<open>
  A held connection ends in at most one of the reported ways (a connect, read or write
  error, or completion) and reports five bytes per heartbeat sent, whatever the server sends.
\<close>

lemma held_connection_ends_once:
  assumes "length (wv_turns E) \<le> 2 ^ 60" "u = run_one_hold H p sid deadline lv E"
  shows "unat (wh_errors_connect u) + unat (wh_errors_read u) + unat (wh_errors_write u)
      + (if wh_completed u then 1 else 0) \<le> 1
    \<and> unat (wh_bytes_sent u) = 5 * unat (wh_heartbeats_sent u)"
proof (cases "wv_conn E")
  case None
  then show ?thesis by (simp add: assms(2) run_one_hold_def whold_new_def)
next
  case (Some c)
  have "whold_going 0 (whold_new\<lparr>wh_handshake := Some (wv_handshake E)\<rparr>)" by (simp add: whold_going_def whold_new_def)
  then have "whold_left u" unfolding assms(2) run_one_hold_def Some option.case
    by (intro whold_loop_left [of 0]) (use assms(1) in simp_all)
  then show ?thesis by (simp add: whold_left_def)
qed

definition demo_whold :: ws_hold_plan where
  "demo_whold = \<lparr>whp_url = template_literal ''ws://h/'', whp_headers = [], whp_connections = 1,
     whp_heartbeat = 4, whp_heartbeat_frame = HbPing, whp_hold_for = 0\<rparr>"

definition demo_whold_env :: whold_env where
  "demo_whold_env = \<lparr>wv_conn = Some (demo_conn []), wv_handshake = 80, wv_base = 1,
     wv_turns = [\<lparr>wt_stop = False, wt_check = 6, wt_now = 6, wt_after = 6\<rparr>, \<lparr>wt_stop = True, wt_check = 8, wt_now = 8, wt_after = 8\<rparr>],
     wv_shard = 0\<rparr>"

text \<open>
  A push connection records exactly one gap per message after the first, and reports at
  most one of a connect error, a read error and a stall.
\<close>

lemma push_gap_per_message:
  assumes "hist_ok H len" "length (pv_turns E) < 2 ^ 64" "u = run_one_push H slow p sid deadline lv E"
  shows "len (pu_gap u) = unat (pu_messages_recv u) - 1
    \<and> unat (pu_errors_connect u) + unat (pu_errors_read u) + (if pu_stalled u then 1 else 0) \<le> 1"
proof (cases "pv_conn E")
  case None
  then show ?thesis using assms(1)
    by (simp add: assms(3) run_one_push_def push_new_def hist_ok_def new_hist_def)
next
  case (Some c)
  let ?s0 = "\<lparr>ps_stats = (push_new H)\<lparr>pu_handshake := Some (pv_handshake E)\<rparr>, ps_conn = c, ps_live = lv, ps_last = None\<rparr>"
  obtain s ended where l: "push_loop H (pv_shard E) sid deadline (pv_turns E) ?s0 = (s, ended)" by fastforce
  have "push_ok len 0 ?s0" using assms(1) by (simp add: push_ok_def push_new_def hist_ok_def new_hist_def)
  note k = push_loop_ok [OF l this assms(1)]
  have "unat (pu_errors_read (ps_stats s)) \<le> 1" using k assms(2) by (simp add: word_le_nat_alt)
  then show ?thesis using k assms(2) l by (auto simp: assms(3) run_one_push_def Some Let_def)
qed

definition demo_push :: ws_push_plan where
  "demo_push = \<lparr>wpp_url = template_literal ''ws://h/'', wpp_headers = [], wpp_connections = 1,
     wpp_expected_rate_per_conn = 0, wpp_hold_for = 0\<rparr>"

end
