(* ===== verification/ColdConnect.thy ===== *)
theory ColdConnect
  imports MioH1 BlockingIo
begin

text \<open>
  The cold-connect backend, \<open>zerobench-backends/src/http/cold_connect.rs\<close>: a fresh connection for every
  operation. The workers of a scenario share the pacing counter, the live snapshot and the process
  state; their interleaving is the sequence of turns. Clock readings, answers of the operating system
  and of the TLS layer, and the header parser (httparse) are parameters. Times inside an operation
  count from its start.
\<close>

section \<open>The response of one operation\<close>

text \<open>The last Content-Length that parses.\<close>

fun cold_length :: "resp_headers \<Rightarrow> nat option \<Rightarrow> nat option" where
  "cold_length [] n = n"
| "cold_length ((name, value) # hs) n =
     cold_length hs
       (if eq_icase name ''content-length'' \<and> valid_utf8 value
        then (case parse_uint 10 usize_max (trim value) of Some k \<Rightarrow> Some k | None \<Rightarrow> n)
        else n)"

record cold_reader =
  cr_buf :: bytes
  cr_header_end :: "nat option"
  cr_status :: u16
  cr_length :: "nat option"
  cr_chunked :: "chunked_decoder option"
  cr_captured :: "(bytes \<times> bytes) list"

definition cold_reader_new :: cold_reader where
  "cold_reader_new = \<lparr>cr_buf = [], cr_header_end = None, cr_status = 0, cr_length = None, cr_chunked = None,
     cr_captured = []\<rparr>"

datatype cold_verdict = CvMore | CvDone | CvFail transport_error

definition cold_body :: "nat \<Rightarrow> cold_reader \<Rightarrow> cold_reader \<times> cold_verdict" where
  "cold_body hdr r =
     (case cr_chunked r of
        Some d \<Rightarrow>
          (case advance d (drop hdr (cr_buf r)) of
             (d', CpDone _) \<Rightarrow> (r\<lparr>cr_chunked := Some d'\<rparr>, CvDone)
           | (d', CpNeedMore) \<Rightarrow> (r\<lparr>cr_chunked := Some d'\<rparr>, CvMore)
           | (d', CpErr msg) \<Rightarrow> (r\<lparr>cr_chunked := Some d'\<rparr>, CvFail (TeProtocol (''chunked response: '' @ msg))))
      | None \<Rightarrow>
          (r, case cr_length r of
                Some n \<Rightarrow> (if n \<le> length (cr_buf r) - hdr then CvDone else CvMore)
              | None \<Rightarrow> CvMore))"

text \<open>A read of \<open>d\<close>.\<close>

definition cold_data :: "(bytes \<Rightarrow> parsed_head) \<Rightarrow> bytes \<Rightarrow> cold_reader \<Rightarrow> cold_reader \<times> cold_verdict" where
  "cold_data parse d r =
     (let r1 = r\<lparr>cr_buf := cr_buf r @ d\<rparr> in
      case cr_header_end r of
        Some hdr \<Rightarrow> cold_body hdr r1
      | None \<Rightarrow>
          (case find_header_end (cr_buf r1) of
             None \<Rightarrow> (r1, CvMore)
           | Some pos \<Rightarrow>
               (let r2 = r1\<lparr>cr_header_end := Some pos\<rparr> in
                case parse (take pos (cr_buf r1)) of
                  HeadComplete _ code_opt hs \<Rightarrow>
                    (let chunked = find_transfer_encoding_chunked hs
                     in cold_body pos
                          (r2\<lparr>cr_status := (case code_opt of Some s \<Rightarrow> s | None \<Rightarrow> 0),
                              cr_chunked := (if chunked then Some chunked_new else None),
                              cr_length := (if chunked then None else cold_length hs None),
                              cr_captured := capture_headers hs\<rparr>))
                | _ \<Rightarrow> (r2, CvFail (TeProtocol ''malformed HTTP/1 response headers'')))))"

text \<open>
  The read loop. Each turn has the clock reading of the deadline check and the socket's answer; one
  that would block has the clock reading after it and whether the wait for readability succeeded.
\<close>

datatype cold_read = CrData bytes | CrBlock duration bool | CrErr

datatype cold_end = CeDone | CeErr transport_error | CePending

fun cold_reads ::
  "(bytes \<Rightarrow> parsed_head) \<Rightarrow> string \<Rightarrow> duration \<Rightarrow> (duration \<times> cold_read) list \<Rightarrow> cold_reader
     \<Rightarrow> cold_reader \<times> cold_end" where
  "cold_reads parse msg deadline [] r = (r, CePending)"
| "cold_reads parse msg deadline ((now, a) # rs) r =
     (if deadline \<le> now then (r, CeErr TeTimeout)
      else (case a of
              CrData d \<Rightarrow>
                (if d = [] then
                   (r, if cr_header_end r = None
                       then CeErr (TeProtocol ''EOF before response headers received'') else CeDone)
                 else (case cold_data parse d r of
                         (r', CvMore) \<Rightarrow> cold_reads parse msg deadline rs r'
                       | (r', CvDone) \<Rightarrow> (r', CeDone)
                       | (r', CvFail e) \<Rightarrow> (r', CeErr e)))
            | CrBlock t ready \<Rightarrow>
                (if deadline \<le> t \<or> \<not> ready then (r, CeErr TeTimeout) else cold_reads parse msg deadline rs r)
            | CrErr \<Rightarrow> (r, CeErr (TeRead msg))))"

section \<open>One operation\<close>

text \<open>
  \<open>ce_msg\<close> is the text of the I/O error that ended the operation, if one did. A turn of the handshake:
  the time since its start, whether the I/O worked, whether it still goes on, whether the poll worked.
\<close>

record cold_env =
  ce_msg :: string
  ce_connect :: bool
  ce_tls_new :: bool
  ce_registry :: bool
  ce_register :: bool
  ce_wait :: wait_end
  ce_peer :: bool
  ce_handshake :: "(duration \<times> bool \<times> bool \<times> bool) list"
  ce_writes :: "(write_answer \<times> bool) list"
  ce_write_done :: duration
  ce_read_at :: duration
  ce_reads :: "(duration \<times> cold_read) list"
  ce_first_byte :: duration
  ce_completed :: duration

fun cold_handshake :: "string \<Rightarrow> (duration \<times> bool \<times> bool \<times> bool) list \<Rightarrow> cold_end" where
  "cold_handshake msg [] = CePending"
| "cold_handshake msg ((elapsed, ok, handshaking, polled) # hs) =
     (if 5000000000 < elapsed then CeErr TeTimeout
      else if \<not> ok then CeErr (TeTls (''handshake: '' @ msg))
      else if \<not> handshaking then CeDone
      else if \<not> polled then CeErr (TeConnect msg)
      else cold_handshake msg hs)"

text \<open>Up to the established connection.\<close>

definition cold_connect :: "target \<Rightarrow> bool \<Rightarrow> cold_env \<Rightarrow> cold_end" where
  "cold_connect t tls_config E =
     (if \<not> ce_connect E then CeErr (TeConnect (ce_msg E))
      else if tg_tls t \<and> \<not> tls_config then
        CeErr (TeTls ''https:// target but no TLS config was provided by the caller'')
      else if tg_tls t \<and> \<not> ce_tls_new E then CeErr (TeTls (''init: '' @ ce_msg E))
      else if \<not> ce_registry E \<or> \<not> ce_register E then CeErr (TeConnect (ce_msg E))
      else (case ce_wait E of
              WaitPending \<Rightarrow> CePending
            | WaitTimedOut \<Rightarrow> CeErr (TeConnect ''cold-connect wait timeout'')
            | WaitPollError \<Rightarrow> CeErr (TeConnect (ce_msg E))
            | WaitReady \<Rightarrow>
                (if \<not> ce_peer E then CeErr (TeConnect (ce_msg E))
                 else if tg_tls t then cold_handshake (ce_msg E) (ce_handshake E)
                 else CeDone)))"

definition cold_write :: "nat \<Rightarrow> cold_env \<Rightarrow> cold_end" where
  "cold_write n E =
     (case send_all n (ce_writes E) 0 of
        SendOk \<Rightarrow> CeDone
      | SendZero \<Rightarrow> CeErr (TeWrite ''peer closed during request write'')
      | SendWait \<Rightarrow> CeErr TeTimeout
      | SendError \<Rightarrow> CeErr (TeWrite (ce_msg E))
      | SendPending \<Rightarrow> CePending)"

record cold_outcome =
  co_handshake :: duration
  co_ttfb :: duration
  co_completed :: duration
  co_status :: u16
  co_request_bytes :: u64
  co_response_bytes :: u64
  co_extracted :: "(bytes \<times> bytes) list"

datatype op_end = OpDone cold_outcome | OpFailed transport_error | OpPending

fun op_stop :: "cold_end \<Rightarrow> op_end" where
  "op_stop (CeErr e) = OpFailed e"
| "op_stop _ = OpPending"

text \<open>A response that is complete has had a first byte, so the time to it is known.\<close>

definition do_one_op ::
  "'r world \<Rightarrow> (bytes \<Rightarrow> parsed_head) \<Rightarrow> target \<Rightarrow> transport_opts \<Rightarrow> request_plan \<Rightarrow> bool \<Rightarrow> cold_env
     \<Rightarrow> 'r scenario_context \<times> proc_state \<Rightarrow> op_end \<times> 'r scenario_context \<times> proc_state" where
  "do_one_op W parse t opts rp tls_config E cg =
     (case cold_connect t tls_config E of
        CeDone \<Rightarrow>
          (case build_raw_request W rp t CloseConn [] cg of
             (request, cg') \<Rightarrow>
               ((case cold_write (length request) E of
                   CeDone \<Rightarrow>
                     (case cold_reads parse (ce_msg E) (ce_read_at E + to_request_timeout opts) (ce_reads E) cold_reader_new of
                        (r, CeDone) \<Rightarrow>
                          OpDone \<lparr>co_handshake = ce_write_done E, co_ttfb = ce_first_byte E - ce_write_done E,
                            co_completed = ce_completed E, co_status = cr_status r,
                            co_request_bytes = of_nat (length request), co_response_bytes = of_nat (length (cr_buf r)),
                            co_extracted = cr_captured r\<rparr>
                      | (r, e) \<Rightarrow> op_stop e)
                 | e \<Rightarrow> op_stop e), cg'))
      | e \<Rightarrow> (op_stop e, cg))"

section \<open>A worker\<close>

record 'r cold_config =
  cf_world :: "'r world"
  cf_parse :: "bytes \<Rightarrow> parsed_head"
  cf_target :: target
  cf_opts :: transport_opts
  cf_request :: request_plan
  cf_tls_config :: bool
  cf_base :: instant
  cf_deadline :: instant
  cf_interval :: u64
  cf_scenario_id :: u16

record 'h cold_shared =
  cs_elapsed :: u64
  cs_proc :: proc_state
  cs_live :: "'h live_snapshot option"

text \<open>\<open>cw_left\<close>: the worker has returned, or is still inside its last operation.\<close>

record ('r, 'h) cold_worker =
  cw_task :: "'h task_stats"
  cw_ctx :: "'r scenario_context"
  cw_addr :: bool
  cw_shard :: nat
  cw_left :: bool

text \<open>
  A turn: the stop flag, the clock at its top, by how much the sleep oversleeps, and the operation.
  Pacing yields the intended start, the sleep, whether the slot was missed, and the counter, whose
  atomic addition wraps.
\<close>

record cold_turn =
  ct_stop :: bool
  ct_now :: instant
  ct_late :: duration
  ct_env :: cold_env

definition cold_pace :: "u64 \<Rightarrow> instant \<Rightarrow> instant \<Rightarrow> u64 \<Rightarrow> instant \<times> duration \<times> bool \<times> u64" where
  "cold_pace interval base now elapsed =
     (if interval = 0 then (now, 0, False, elapsed)
      else (let target_at = base + unat elapsed
            in (target_at,
                if now < target_at \<and> 5000 < target_at - now then min (target_at - now) 100000000 else 0,
                target_at \<le> now, elapsed + interval)))"

definition on_outcome ::
  "'h hist_ops \<Rightarrow> 'r cold_config \<Rightarrow> nat \<Rightarrow> duration \<Rightarrow> cold_outcome \<Rightarrow> 'h recorder \<Rightarrow> 'h recorder" where
  "on_outcome H F sh latency x r =
     (let sid = cf_scenario_id F;
          r1 = rec_record H sh sid
                 \<lparr>sa_latency = latency, sa_ttfb = co_handshake x + co_ttfb x, sa_bytes_sent = co_request_bytes x,
                  sa_bytes_recv = co_response_bytes x\<rparr> r
      in record_failures H sid (check_assertions (cf_request F) (co_status x) latency)
           (record_status H sid (co_status x) r1))"

definition cold_turn_step ::
  "'h hist_ops \<Rightarrow> 'r cold_config \<Rightarrow> cold_turn \<Rightarrow> 'h cold_shared \<times> ('r, 'h) cold_worker
     \<Rightarrow> 'h cold_shared \<times> ('r, 'h) cold_worker" where
  "cold_turn_step H F tn sw =
     (case sw of (s, w) \<Rightarrow>
        if cw_left w then (s, w)
        else if ct_stop tn \<or> cf_deadline F \<le> ct_now tn then (s, w\<lparr>cw_left := True\<rparr>)
        else (case cold_pace (cf_interval F) (cf_base F) (ct_now tn) (cs_elapsed s) of
                (intended, slept, missed, elapsed) \<Rightarrow>
                  (let sid = cf_scenario_id F;
                       s1 = s\<lparr>cs_elapsed := elapsed\<rparr>;
                       r0 = \<lparr>rc_task = Some (cw_task w), rc_live = cs_live s\<rparr>;
                       r1 = (if missed then rec_record_error H sid EkKeepup r0 else r0);
                       keep = (\<lambda>r. (s1\<lparr>cs_live := rc_live r\<rparr>, w\<lparr>cw_task := the (rc_task r)\<rparr>))
                   in if \<not> cw_addr w then keep (rec_record_error H sid EkConnect r1)
                      else (case do_one_op (cf_world F) (cf_parse F) (cf_target F) (cf_opts F) (cf_request F)
                                   (cf_tls_config F) (ct_env tn) (cw_ctx w, cs_proc s) of
                              (e, ctx, g) \<Rightarrow>
                                (case e of
                                   OpDone x \<Rightarrow>
                                     (let latency = (ct_now tn + slept + ct_late tn + co_completed x) - intended;
                                          (s2, w2) = keep (on_outcome H F (cw_shard w) latency x r1)
                                      in (s2\<lparr>cs_proc := g\<rparr>,
                                          w2\<lparr>cw_ctx := clear_all (apply_extractions (cf_request F) (co_status x) (co_extracted x) ctx)\<rparr>))
                                 | OpFailed err \<Rightarrow>
                                     (let (s2, w2) = keep (rec_record_error H sid (classify err) r1)
                                      in (s2\<lparr>cs_proc := g\<rparr>, w2\<lparr>cw_ctx := ctx\<rparr>))
                                 | OpPending \<Rightarrow>
                                     (let (s2, w2) = keep r1
                                      in (s2\<lparr>cs_proc := g\<rparr>, w2\<lparr>cw_ctx := ctx, cw_left := True\<rparr>)))))))"

text \<open>The workers of a scenario, interleaved as the schedule says.\<close>

fun cold_steps ::
  "'h hist_ops \<Rightarrow> 'r cold_config \<Rightarrow> (nat \<times> cold_turn) list \<Rightarrow> 'h cold_shared \<times> ('r, 'h) cold_worker list
     \<Rightarrow> 'h cold_shared \<times> ('r, 'h) cold_worker list" where
  "cold_steps H F [] sw = sw"
| "cold_steps H F ((i, tn) # tns) (s, ws) =
     (if i < length ws then
        (case cold_turn_step H F tn (s, ws ! i) of (s', w') \<Rightarrow> cold_steps H F tns (s', ws[i := w']))
      else cold_steps H F tns (s, ws))"

text \<open>What a worker starts from: whether its poll and the resolution of the target work, its generator.\<close>

record 'r cold_start =
  cb_poll :: bool
  cb_addr :: bool
  cb_rng :: 'r
  cb_shard :: nat

definition cold_worker_new :: "'h hist_ops \<Rightarrow> nat \<Rightarrow> nat \<Rightarrow> 'r cold_start \<Rightarrow> ('r, 'h) cold_worker" where
  "cold_worker_new H num_vars num_scenarios b =
     \<lparr>cw_task = task_stats_new H num_scenarios, cw_ctx = context_new num_vars (cb_rng b), cw_addr = cb_addr b,
      cw_shard = cb_shard b, cw_left = \<not> cb_poll b\<rparr>"

definition cold_report :: "'h hist_ops \<Rightarrow> nat \<Rightarrow> ('r, 'h) cold_worker list \<Rightarrow> 'h task_stats" where
  "cold_report H num_scenarios ws = foldl (task_merge H) (task_stats_new H num_scenarios) (map cw_task ws)"

section \<open>The driver\<close>

fun cold_step :: "step \<Rightarrow> request_plan option" where
  "cold_step (HttpColdConnect rp) = Some rp"
| "cold_step _ = None"

definition cold_indices :: "plan \<Rightarrow> nat list" where
  "cold_indices pl =
     filter (\<lambda>i. scenario_protocol (pl_scenarios pl ! i) = Http
                 \<and> list_ex (\<lambda>st. cold_step st \<noteq> None) (sn_steps (pl_scenarios pl ! i)))
       [0..<length (pl_scenarios pl)]"

definition cold_interval :: "(f64 \<Rightarrow> u64) \<Rightarrow> f64 option \<Rightarrow> u64" where
  "cold_interval interval_of target_rps =
     (case target_rps of Some r \<Rightarrow> (if f64_positive r then interval_of r else 0) | None \<Rightarrow> 0)"

record 'r cold_world =
  cz_world_of :: "'r world"
  cz_parse :: "bytes \<Rightarrow> parsed_head"
  cz_opts :: transport_opts
  cz_tls_config :: bool
  cz_base :: instant
  cz_interval_of :: "f64 \<Rightarrow> u64"
  cz_workers :: "nat \<Rightarrow> nat \<Rightarrow> 'r cold_start"
  cz_schedule :: "nat \<Rightarrow> (nat \<times> cold_turn) list"

text \<open>The scenarios one after the other; \<open>None\<close> is the panic of the missing step.\<close>

fun cold_scenarios ::
  "'h hist_ops \<Rightarrow> 'r cold_world \<Rightarrow> target \<Rightarrow> plan \<Rightarrow> nat \<Rightarrow> u64 \<Rightarrow> instant \<Rightarrow> nat list \<Rightarrow> 'h cold_shared
     \<Rightarrow> 'h task_stats list option" where
  "cold_scenarios H E t pl conns interval deadline [] s = Some []"
| "cold_scenarios H E t pl conns interval deadline (sid # sids) s =
     (case find_map cold_step (sn_steps (pl_scenarios pl ! sid)) of
        None \<Rightarrow> None
      | Some rp \<Rightarrow>
          (let n = length (pl_scenarios pl);
               F = \<lparr>cf_world = cz_world_of E, cf_parse = cz_parse E, cf_target = t, cf_opts = cz_opts E,
                    cf_request = rp, cf_tls_config = cz_tls_config E, cf_base = cz_base E, cf_deadline = deadline,
                    cf_interval = interval, cf_scenario_id = word_of_nat sid\<rparr>;
               ws = map (\<lambda>i. cold_worker_new H (registry_len (pl_vars pl)) n (cz_workers E sid i)) [0..<max conns 1];
               (s', ws') = cold_steps H F (cz_schedule E sid) (s, ws)
           in map_option (Cons (cold_report H n ws')) (cold_scenarios H E t pl conns interval deadline sids s')))"

definition run_cold_connect ::
  "'h hist_ops \<Rightarrow> 'r cold_world \<Rightarrow> target \<Rightarrow> nat \<Rightarrow> f64 option \<Rightarrow> proc_state \<Rightarrow> 'h live_snapshot option \<Rightarrow> duration
     \<Rightarrow> plan \<Rightarrow> 'h task_stats list option" where
  "run_cold_connect H E t conns target_rps g lv dur pl =
     cold_scenarios H E t pl conns (cold_interval (cz_interval_of E) target_rps) (cz_base E + dur) (cold_indices pl)
       \<lparr>cs_elapsed = 0, cs_proc = g, cs_live = lv\<rparr>"

section \<open>Reading in pieces\<close>

text \<open>A body as the backend understands the head: in chunks, or of the last Content-Length.\<close>

definition cold_framed :: "resp_headers \<Rightarrow> bytes \<Rightarrow> bool" where
  "cold_framed hs body =
     (if find_transfer_encoding_chunked hs
      then (\<exists>cs ts. (\<forall>c \<in> set cs. h1_chunk_ok c) \<and> (\<forall>t \<in> set ts. head_line t) \<and> body = h1_body cs ts)
      else cold_length hs None = Some (length body))"

text \<open>The reader once the bytes \<open>x\<close> have arrived, of a response whose head has \<open>h\<close> bytes.\<close>

definition reader_after :: "nat \<Rightarrow> u16 \<Rightarrow> resp_headers \<Rightarrow> bytes \<Rightarrow> cold_reader" where
  "reader_after h status hs x =
     (if length x < h then cold_reader_new\<lparr>cr_buf := x\<rparr>
      else \<lparr>cr_buf = x, cr_header_end = Some h, cr_status = status,
            cr_length = (if find_transfer_encoding_chunked hs then None else cold_length hs None),
            cr_chunked = (if find_transfer_encoding_chunked hs
                          then Some (fst (advance chunked_new (drop h x))) else None),
            cr_captured = capture_headers hs\<rparr>)"

lemma cold_framed_chunked:
  assumes "cold_framed hs body" "find_transfer_encoding_chunked hs"
  shows "snd (advance chunked_new (take k body)) = (if k < length body then CpNeedMore else CpDone (length body))"
proof -
  obtain cs ts where b: "\<forall>c \<in> set cs. h1_chunk_ok c" "\<forall>t \<in> set ts. head_line t" "body = h1_body cs ts"
    using assms by (auto simp: cold_framed_def)
  show ?thesis using advance_prefix [OF b(1,2), of k] advance_full [OF b(1,2), of "[]"] b(3) by simp
qed

lemma advance_again:
  assumes "snd (advance chunked_new (take k b)) = CpNeedMore" "k \<le> k'"
  shows "advance (fst (advance chunked_new (take k b))) (take k' b) = advance chunked_new (take k' b)"
proof -
  obtain d where d: "advance chunked_new (take k b) = (d, CpNeedMore)" using assms(1) by (metis prod.collapse)
  have "take k' b = take k b @ take (k' - k) (drop k b)"
    using assms(2) by (metis le_add_diff_inverse take_add)
  then show ?thesis using advance_resume [OF d, of "take (k' - k) (drop k b)"] d by simp
qed

text \<open>A response the header parser accepts, with a body its head announces.\<close>

definition cold_response ::
  "(bytes \<Rightarrow> parsed_head) \<Rightarrow> string list \<Rightarrow> u16 \<Rightarrow> resp_headers \<Rightarrow> bytes \<Rightarrow> bool" where
  "cold_response parse ls status hs body =
     (ls \<noteq> [] \<and> (\<forall>l \<in> set ls. head_line l)
      \<and> (\<exists>n. parse (http_head ls) = HeadComplete n (Some status) hs) \<and> cold_framed hs body)"

lemma cold_data_step:
  assumes resp: "cold_response parse ls status hs body"
    and "j < length (http_head ls @ body)" "j < j'" "j' \<le> length (http_head ls @ body)"
  shows "cold_data parse (drop j (take j' (http_head ls @ body)))
      (reader_after (length (http_head ls)) status hs (take j (http_head ls @ body)))
    = (reader_after (length (http_head ls)) status hs (take j' (http_head ls @ body)),
       if j' < length (http_head ls @ body) then CvMore else CvDone)"
proof -
  have head: "ls \<noteq> []" "\<forall>l \<in> set ls. head_line l" and body: "cold_framed hs body"
    using resp by (simp_all add: cold_response_def)
  obtain hl where parses: "parse (http_head ls) = HeadComplete hl (Some status) hs"
    using resp by (auto simp: cold_response_def)
  note assms = assms(2-)
  let ?h = "length (http_head ls)" and ?wire = "http_head ls @ body"
  let ?r = "reader_after ?h status hs (take j ?wire)"
  have x: "take j ?wire @ drop j (take j' ?wire) = take j' ?wire"
    using assms(2) by (metis append_take_drop_id less_imp_le min.absorb1 take_take)
  have dr: "drop ?h (take k ?wire) = take (k - ?h) body" if "?h \<le> k" for k
    using that by (simp add: drop_take)
  have len: "length (take k ?wire) = k" if "k \<le> length ?wire" for k using that by simp
  have buf: "cr_buf ?r = take j ?wire" by (simp add: reader_after_def)
  note hd = header_end_head [OF head]
  have step: "cold_body ?h r = (reader_after ?h status hs (take j' ?wire), if j' < length ?wire then CvMore else CvDone)"
    if h: "?h \<le> j'" and r: "r\<lparr>cr_chunked := None\<rparr> = (reader_after ?h status hs (take j' ?wire))\<lparr>cr_chunked := None\<rparr>"
      "case cr_chunked r of None \<Rightarrow> \<not> find_transfer_encoding_chunked hs
        | Some d \<Rightarrow> find_transfer_encoding_chunked hs \<and> advance d (take (j' - ?h) body) = advance chunked_new (take (j' - ?h) body)"
    for r
  proof -
    have b: "cr_buf r = take j' ?wire" "cr_length r = (if find_transfer_encoding_chunked hs then None else cold_length hs None)"
      using arg_cong [OF r(1), of cr_buf] arg_cong [OF r(1), of cr_length] h len [OF assms(3)]
      by (simp_all add: reader_after_def)
    show ?thesis
    proof (cases "find_transfer_encoding_chunked hs")
      case True
      then obtain d where d: "cr_chunked r = Some d"
        "advance d (take (j' - ?h) body) = advance chunked_new (take (j' - ?h) body)"
        using r(2) by (auto split: option.splits)
      obtain d' p where a: "advance chunked_new (take (j' - ?h) body) = (d', p)" by fastforce
      have p: "p = (if j' < length ?wire then CpNeedMore else CpDone (length body))"
        using cold_framed_chunked [OF body True, of "j' - ?h"] a h by auto
      have "r\<lparr>cr_chunked := Some d'\<rparr> = reader_after ?h status hs (take j' ?wire)"
        using r(1) h True a dr [OF h] len [OF assms(3)] by (cases r) (auto simp: reader_after_def)
      then show ?thesis using d a p b(1) dr [OF h] by (auto simp: cold_body_def)
    next
      case False
      then have n: "cr_chunked r = None" "cold_length hs None = Some (length body)"
        using r(2) body by (auto simp: cold_framed_def split: option.splits)
      then have "r = reader_after ?h status hs (take j' ?wire)"
        using r(1) h False len [OF assms(3)] by (cases r) (auto simp: reader_after_def)
      then show ?thesis using n b False h assms(3) by (auto simp: cold_body_def)
    qed
  qed
  show ?thesis
  proof (cases "?h \<le> j")
    case True
    let ?r1 = "?r\<lparr>cr_buf := take j' ?wire\<rparr>"
    have "cold_data parse (drop j (take j' ?wire)) ?r = cold_body ?h ?r1"
      using True len [of j] assms(1) x by (simp add: cold_data_def reader_after_def)
    also have "\<dots> = (reader_after ?h status hs (take j' ?wire), if j' < length ?wire then CvMore else CvDone)"
    proof (rule step)
      show "?h \<le> j'" using True assms(2) by simp
      then show "?r1\<lparr>cr_chunked := None\<rparr> = (reader_after ?h status hs (take j' ?wire))\<lparr>cr_chunked := None\<rparr>"
        using True len [of j] len [OF assms(3)] assms(1) by (simp add: reader_after_def)
      show "case cr_chunked ?r1 of None \<Rightarrow> \<not> find_transfer_encoding_chunked hs
        | Some d \<Rightarrow> find_transfer_encoding_chunked hs \<and> advance d (take (j' - ?h) body) = advance chunked_new (take (j' - ?h) body)"
        using True len [of j] assms(1,2) dr [OF True] cold_framed_chunked [OF body, of "j - ?h"]
          advance_again [of "j - ?h" body "j' - ?h"]
        by (auto simp: reader_after_def)
    qed
    finally show ?thesis .
  next
    case False
    then have r: "?r = cold_reader_new\<lparr>cr_buf := take j ?wire\<rparr>" using len [of j] assms(1) by (simp add: reader_after_def)
    show ?thesis
    proof (cases "?h \<le> j'")
      case True
      then have fe: "find_header_end (take j' ?wire) = Some ?h" "take ?h (take j' ?wire) = http_head ls"
        using hd(1) [of "take (j' - ?h) body"] by simp_all
      let ?r1 = "\<lparr>cr_buf = take j' ?wire, cr_header_end = Some ?h, cr_status = status,
            cr_length = (if find_transfer_encoding_chunked hs then None else cold_length hs None),
            cr_chunked = (if find_transfer_encoding_chunked hs then Some chunked_new else None),
            cr_captured = capture_headers hs\<rparr>"
      have "cold_data parse (drop j (take j' ?wire)) ?r = cold_body ?h ?r1"
        unfolding r using x fe parses by (simp add: cold_data_def cold_reader_new_def)
      also have "\<dots> = (reader_after ?h status hs (take j' ?wire), if j' < length ?wire then CvMore else CvDone)"
        by (rule step [OF True]) (use True len [OF assms(3)] in \<open>simp_all add: reader_after_def\<close>)
      finally show ?thesis .
    next
      case False
      then have "find_header_end (take j' ?wire) = None" using hd(2) by simp
      then show ?thesis unfolding r using x False len [OF assms(3)]
        by (simp add: cold_data_def cold_reader_new_def reader_after_def)
    qed
  qed
qed

lemma cold_reads_pieces:
  assumes resp: "cold_response parse ls status hs body"
    and "\<forall>p \<in> set ps. p \<noteq> []" "take j (http_head ls @ body) @ concat ps = take k (http_head ls @ body)"
    and "j < length (http_head ls @ body)" "now < deadline"
  shows "cold_reads parse msg deadline (map (\<lambda>p. (now, CrData p)) ps @ rs)
      (reader_after (length (http_head ls)) status hs (take j (http_head ls @ body)))
    = (if k < length (http_head ls @ body)
       then cold_reads parse msg deadline rs (reader_after (length (http_head ls)) status hs (take k (http_head ls @ body)))
       else (reader_after (length (http_head ls)) status hs (http_head ls @ body), CeDone))"
  using assms(2-)
proof (induction ps arbitrary: j)
  case Nil
  then have "length (take j (http_head ls @ body)) = length (take k (http_head ls @ body))" by simp
  then have "min (length (http_head ls @ body)) j = min (length (http_head ls @ body)) k" by (simp only: length_take)
  then have "j = k" using Nil(3) by (auto simp: min_def split: if_splits)
  then show ?case using Nil by simp
next
  case (Cons p ps)
  let ?wire = "http_head ls @ body" let ?j = "j + length p"
  have "(take j ?wire @ p) @ concat ps = take k ?wire" using Cons.prems(2) by simp
  moreover have l: "length (take j ?wire @ p) = ?j" using Cons.prems(3) by simp
  ultimately have pj: "take j ?wire @ p = take ?j (take k ?wire)" "?j \<le> length (take k ?wire)"
    by (metis append_eq_conv_conj) (metis l \<open>(take j ?wire @ p) @ concat ps = take k ?wire\<close> le_add1 length_append)
  have le: "?j \<le> length ?wire" "?j \<le> k" using pj(2) by simp_all
  then have pj: "take j ?wire @ p = take ?j ?wire" using pj(1) by (simp only: take_take min.absorb1)
  have lt: "j < ?j" using Cons.prems(1) by simp
  have pd: "p = drop j (take ?j ?wire)" using pj Cons.prems(3) by (metis append_eq_conv_conj length_take less_imp_le min.absorb2)
  have cat: "take ?j ?wire @ concat ps = take k ?wire" using Cons.prems(2) pj by (metis append.assoc concat.simps(2))
  note st = cold_data_step [OF resp Cons.prems(3) lt le(1), folded pd]
  show ?case
  proof (cases "?j < length ?wire")
    case True
    then show ?thesis using Cons.IH [OF _ cat True] Cons.prems(1,4) st by simp
  next
    case False
    then have "?j = length ?wire" using le(1) by simp
    then have "\<not> k < length ?wire" using arg_cong [OF cat, of length] by auto
    then show ?thesis using Cons.prems(1,4) st False by simp
  qed
qed

section \<open>Accounting\<close>

text \<open>What an operation is counted as: a request, or an error of connecting, waiting, writing or reading.\<close>

definition op_count :: "'h task_stats \<Rightarrow> u64" where
  "op_count t = ts_requests t + ec_connect (ts_errors t) + ec_timeout (ts_errors t) + ec_write (ts_errors t)
     + ec_read (ts_errors t)"

interpretation acc_ops: accumulator "task_merge H" op_count for H
  by unfold_locales (simp add: op_count_def task_merge_def ec_merge_def)

lemma op_count_new: "op_count (task_stats_new H n) = 0"
  by (simp add: op_count_def task_stats_new_def ec_default_def)

definition rec_count :: "'h recorder \<Rightarrow> u64" where
  "rec_count r = (case rc_task r of Some t \<Rightarrow> op_count t | None \<Rightarrow> 0)"

definition has_task :: "'h recorder \<Rightarrow> bool" where "has_task r = (rc_task r \<noteq> None)"

lemma has_task_kept [simp]:
  "has_task (rec_record_error H sid k r) = has_task r" "has_task (rec_record H sh sid x r) = has_task r"
  "has_task (record_status H sid st r) = has_task r"
  by (simp_all add: has_task_def rec_record_error_def rec_record_def on_live_def Let_def record_status_def)

lemma rec_count_error:
  "has_task r \<Longrightarrow> rec_count (rec_record_error H sid k r)
     = rec_count r + (if k \<in> {EkConnect, EkTimeout, EkWrite, EkRead} then 1 else 0)"
  by (cases k) (auto simp: has_task_def rec_count_def rec_record_error_def on_live_def task_record_error_def op_count_def)

lemma rec_count_failures:
  "has_task r \<Longrightarrow> has_task (record_failures H sid n r) \<and> rec_count (record_failures H sid n r) = rec_count r"
proof -
  have "has_task r \<Longrightarrow> has_task ((rec_record_error H sid EkAssertionFailed ^^ m) r)
      \<and> rec_count ((rec_record_error H sid EkAssertionFailed ^^ m) r) = rec_count r" for m
    by (induction m) (auto simp: rec_count_error)
  then show "has_task r \<Longrightarrow> ?thesis" by (simp add: record_failures_def)
qed

lemma rec_count_status: "has_task r \<Longrightarrow> rec_count (record_status H sid st r) = rec_count r"
  by (simp add: record_status_def rec_count_error)

lemma rec_count_record: "has_task r \<Longrightarrow> rec_count (rec_record H sh sid x r) = rec_count r + 1"
  by (auto simp: has_task_def rec_count_def rec_record_def on_live_def Let_def task_record_def op_count_def)

lemma on_outcome_count:
  assumes "has_task r"
  shows "has_task (on_outcome H F sh latency x r) \<and> rec_count (on_outcome H F sh latency x r) = rec_count r + 1"
  using assms by (simp add: on_outcome_def Let_def rec_count_failures rec_count_status rec_count_record)

lemma classify_counts: "classify e \<in> {EkConnect, EkTimeout, EkWrite, EkRead}"
  by (cases e) simp_all

lemma rec_count_task: "has_task r \<Longrightarrow> op_count (the (rc_task r)) = rec_count r"
  by (auto simp: has_task_def rec_count_def)

text \<open>A turn counts its operation, unless the worker leaves in it.\<close>

lemma cold_turn_count:
  assumes "cold_turn_step H F tn (s, w) = (s', w')" "\<not> cw_left w"
  shows "op_count (cw_task w') = op_count (cw_task w) + (if cw_left w' then 0 else 1)"
proof (cases "ct_stop tn \<or> cf_deadline F \<le> ct_now tn")
  case True
  then show ?thesis using assms by (auto simp: cold_turn_step_def)
next
  case False
  obtain intended slept missed elapsed where p:
    "cold_pace (cf_interval F) (cf_base F) (ct_now tn) (cs_elapsed s) = (intended, slept, missed, elapsed)"
    by (metis prod_cases4)
  let ?r0 = "\<lparr>rc_task = Some (cw_task w), rc_live = cs_live s\<rparr>"
  define r1 where "r1 = (if missed then rec_record_error H (cf_scenario_id F) EkKeepup ?r0 else ?r0)"
  have r1: "has_task r1" "rec_count r1 = op_count (cw_task w)"
  proof -
    have r0: "has_task ?r0" "rec_count ?r0 = op_count (cw_task w)" by (simp_all add: has_task_def rec_count_def)
    show "has_task r1" "rec_count r1 = op_count (cw_task w)" using r0 by (simp_all add: r1_def rec_count_error)
  qed
  show ?thesis
  proof (cases "cw_addr w")
    case addr: True
    obtain e ctx g where o: "do_one_op (cf_world F) (cf_parse F) (cf_target F) (cf_opts F) (cf_request F)
        (cf_tls_config F) (ct_env tn) (cw_ctx w, cs_proc s) = (e, ctx, g)" by (metis prod_cases3)
    show ?thesis
    proof (cases e)
      case (OpDone x)
      let ?r = "on_outcome H F (cw_shard w) ((ct_now tn + slept + ct_late tn + co_completed x) - intended) x r1"
      have "cw_task w' = the (rc_task ?r)" "cw_left w' = cw_left w"
        using assms(1) False p addr o OpDone assms(2) by (auto simp: cold_turn_step_def Let_def r1_def)
      then show ?thesis using on_outcome_count [OF r1(1), of H F] r1(2) assms(2) by (simp add: rec_count_task)
    next
      case (OpFailed err)
      let ?r = "rec_record_error H (cf_scenario_id F) (classify err) r1"
      have "cw_task w' = the (rc_task ?r)" "cw_left w' = cw_left w"
        using assms(1) False p addr o OpFailed assms(2) by (auto simp: cold_turn_step_def Let_def r1_def)
      then show ?thesis using r1 assms(2) classify_counts [of err] by (simp add: rec_count_task rec_count_error)
    next
      case OpPending
      have "cw_task w' = the (rc_task r1)" "cw_left w'"
        using assms(1) False p addr o OpPending assms(2) by (auto simp: cold_turn_step_def Let_def r1_def)
      then show ?thesis using r1 by (simp add: rec_count_task)
    qed
  next
    case addr: False
    let ?r = "rec_record_error H (cf_scenario_id F) EkConnect r1"
    have "cw_task w' = the (rc_task ?r)" "cw_left w' = cw_left w"
      using assms(1) False p addr assms(2) by (auto simp: cold_turn_step_def Let_def r1_def)
    then show ?thesis using r1 assms(2) by (simp add: rec_count_task rec_count_error)
  qed
qed

text \<open>The turns of a schedule that performed an operation.\<close>

fun cold_performed ::
  "'h hist_ops \<Rightarrow> 'r cold_config \<Rightarrow> (nat \<times> cold_turn) list \<Rightarrow> 'h cold_shared \<times> ('r, 'h) cold_worker list \<Rightarrow> nat" where
  "cold_performed H F [] sw = 0"
| "cold_performed H F ((i, tn) # tns) (s, ws) =
     (if i < length ws then
        (case cold_turn_step H F tn (s, ws ! i) of
           (s', w') \<Rightarrow> (if cw_left w' then 0 else 1) + cold_performed H F tns (s', ws[i := w']))
      else cold_performed H F tns (s, ws))"

lemma sum_list_set_word:
  fixes f :: "'a \<Rightarrow> u64"
  shows "i < length xs \<Longrightarrow> f y = f (xs ! i) + d \<Longrightarrow> (\<Sum>x \<leftarrow> xs[i := y]. f x) = (\<Sum>x \<leftarrow> xs. f x) + d"
proof (induction xs arbitrary: i)
  case (Cons x xs)
  then show ?case by (cases i) (simp_all add: ac_simps)
qed simp

lemma cold_left_kept: "cw_left w \<Longrightarrow> cold_turn_step H F tn (s, w) = (s, w)"
  by (simp add: cold_turn_step_def)

lemma cold_steps_count:
  "cold_steps H F tns (s, ws) = (s', ws') \<Longrightarrow>
     (\<Sum>w \<leftarrow> ws'. op_count (cw_task w)) = (\<Sum>w \<leftarrow> ws. op_count (cw_task w)) + of_nat (cold_performed H F tns (s, ws))"
proof (induction tns arbitrary: s ws)
  case (Cons t tns)
  obtain i tn where t: "t = (i, tn)" by fastforce
  show ?case
  proof (cases "i < length ws")
    case True
    obtain s1 w1 where st: "cold_turn_step H F tn (s, ws ! i) = (s1, w1)" by fastforce
    have "op_count (cw_task w1) = op_count (cw_task (ws ! i)) + (if cw_left w1 then 0 else 1)"
    proof (cases "cw_left (ws ! i)")
      case True
      then show ?thesis using st cold_left_kept [OF True] by simp
    qed (rule cold_turn_count [OF st])
    from sum_list_set_word [OF True, of "\<lambda>w. op_count (cw_task w)", OF this]
    show ?thesis using Cons.IH [of s1 "ws[i := w1]"] Cons.prems t st True by simp
  qed (use Cons t in simp)
qed simp

section \<open>The contract of a backend\<close>

definition cold_ok :: "nat \<Rightarrow> ('r, 'h) cold_worker \<Rightarrow> bool" where
  "cold_ok n w = (rolled_up (cw_task w) \<and> length (ts_per_scenario (cw_task w)) = n)"

lemma on_outcome_ok: "rec_ok n r \<Longrightarrow> unat (cf_scenario_id F) < n \<Longrightarrow> rec_ok n (on_outcome H F sh latency x r)"
  by (auto simp: on_outcome_def Let_def record_failures_def intro!: rec_errors_ok record_status_ok)

lemma cold_turn_ok:
  assumes "cold_turn_step H F tn (s, w) = (s', w')" "cold_ok n w" "unat (cf_scenario_id F) < n"
  shows "cold_ok n w'"
proof (cases "cw_left w \<or> ct_stop tn \<or> cf_deadline F \<le> ct_now tn")
  case True
  then show ?thesis using assms by (auto simp: cold_turn_step_def cold_ok_def split: if_splits)
next
  case False
  obtain intended slept missed elapsed where p:
    "cold_pace (cf_interval F) (cf_base F) (ct_now tn) (cs_elapsed s) = (intended, slept, missed, elapsed)"
    by (metis prod_cases4)
  let ?r0 = "\<lparr>rc_task = Some (cw_task w), rc_live = cs_live s\<rparr>"
  define r1 where "r1 = (if missed then rec_record_error H (cf_scenario_id F) EkKeepup ?r0 else ?r0)"
  have r0: "rec_ok n ?r0" using assms(2) by (simp add: cold_ok_def rec_ok_def)
  then have r1: "rec_ok n r1" using assms(3) by (auto simp: r1_def)
  have keep: "cold_ok n w'" if "cw_task w' = the (rc_task r)" "rec_ok n r" for r
    using that by (auto simp: cold_ok_def rec_ok_def)
  obtain e ctx g where o: "do_one_op (cf_world F) (cf_parse F) (cf_target F) (cf_opts F) (cf_request F)
      (cf_tls_config F) (ct_env tn) (cw_ctx w, cs_proc s) = (e, ctx, g)" by (metis prod_cases3)
  show ?thesis
  proof (cases "cw_addr w")
    case addr: True
    show ?thesis
    proof (cases e)
      case (OpDone x)
      let ?r = "on_outcome H F (cw_shard w) ((ct_now tn + slept + ct_late tn + co_completed x) - intended) x r1"
      have "cw_task w' = the (rc_task ?r)" using assms(1) False p addr o OpDone by (auto simp: cold_turn_step_def Let_def r1_def)
      then show ?thesis using keep on_outcome_ok [OF r1 assms(3)] by blast
    next
      case (OpFailed err)
      have "cw_task w' = the (rc_task (rec_record_error H (cf_scenario_id F) (classify err) r1))"
        using assms(1) False p addr o OpFailed by (auto simp: cold_turn_step_def Let_def r1_def)
      then show ?thesis using keep rec_error_ok [OF r1 assms(3)] by blast
    next
      case OpPending
      have "cw_task w' = the (rc_task r1)" using assms(1) False p addr o OpPending by (auto simp: cold_turn_step_def Let_def r1_def)
      then show ?thesis using keep r1 by blast
    qed
  next
    case addr: False
    have "cw_task w' = the (rc_task (rec_record_error H (cf_scenario_id F) EkConnect r1))"
      using assms(1) False p addr by (auto simp: cold_turn_step_def Let_def r1_def)
    then show ?thesis using keep rec_error_ok [OF r1 assms(3)] by blast
  qed
qed

lemma cold_steps_ok:
  "cold_steps H F tns (s, ws) = (s', ws') \<Longrightarrow> \<forall>w \<in> set ws. cold_ok n w \<Longrightarrow> unat (cf_scenario_id F) < n
     \<Longrightarrow> \<forall>w \<in> set ws'. cold_ok n w"
proof (induction tns arbitrary: s ws)
  case (Cons t tns)
  obtain i tn where t: "t = (i, tn)" by fastforce
  show ?case
  proof (cases "i < length ws")
    case True
    obtain s1 w1 where st: "cold_turn_step H F tn (s, ws ! i) = (s1, w1)" by fastforce
    have "cold_ok n w1" using cold_turn_ok [OF st _ Cons.prems(3)] Cons.prems(2) True by simp
    then have "\<forall>w \<in> set (ws[i := w1]). cold_ok n w" using Cons.prems(2) set_update_subset_insert [of ws i w1] by auto
    moreover have "cold_steps H F tns (s1, ws[i := w1]) = (s', ws')" using Cons.prems(1) t st True by simp
    ultimately show ?thesis using Cons.IH Cons.prems(3) by blast
  qed (use Cons t in simp)
qed simp

lemma cold_report_ok:
  assumes "\<forall>w \<in> set ws. cold_ok n w"
  shows "rolled_up (cold_report H n ws) \<and> length (ts_per_scenario (cold_report H n ws)) = n"
proof -
  have "rolled_up (foldl (task_merge H) t ts) \<and> length (ts_per_scenario (foldl (task_merge H) t ts)) = n"
    if "rolled_up t" "length (ts_per_scenario t) = n" "\<forall>t \<in> set ts. rolled_up t \<and> length (ts_per_scenario t) = n" for t ts
    using that by (induction ts arbitrary: t) (auto simp: rolled_up_merge)
  from this [of "task_stats_new H n" "map cw_task ws"] assms show ?thesis
    by (auto simp: cold_report_def cold_ok_def rolled_up_new count_simps)
qed

lemma find_map_cold: "list_ex (\<lambda>st. cold_step st \<noteq> None) ss \<Longrightarrow> find_map cold_step ss \<noteq> None"
  by (induction ss) (auto split: option.splits)

lemma cold_scenarios_ok:
  assumes "\<forall>sid \<in> set sids. sid < length (pl_scenarios pl) \<and> find_map cold_step (sn_steps (pl_scenarios pl ! sid)) \<noteq> None"
  shows "\<exists>ts. cold_scenarios H E t pl conns interval deadline sids s = Some ts \<and> length ts = length sids
    \<and> (\<forall>t \<in> set ts. rolled_up t \<and> length (ts_per_scenario t) = length (pl_scenarios pl))"
  using assms
proof (induction sids arbitrary: s)
  case (Cons sid sids)
  let ?n = "length (pl_scenarios pl)"
  obtain rp where rp: "find_map cold_step (sn_steps (pl_scenarios pl ! sid)) = Some rp" using Cons.prems by auto
  define F where "F = \<lparr>cf_world = cz_world_of E, cf_parse = cz_parse E, cf_target = t, cf_opts = cz_opts E,
      cf_request = rp, cf_tls_config = cz_tls_config E, cf_base = cz_base E, cf_deadline = deadline,
      cf_interval = interval, cf_scenario_id = word_of_nat sid\<rparr>"
  define ws where "ws = map (\<lambda>i. cold_worker_new H (registry_len (pl_vars pl)) ?n (cz_workers E sid i)) [0..<max conns 1]"
  obtain s' ws' where st: "cold_steps H F (cz_schedule E sid) (s, ws) = (s', ws')" by fastforce
  have sid: "unat (cf_scenario_id F) < ?n"
    using Cons.prems by (auto simp: F_def unat_of_nat intro: le_less_trans [OF mod_less_eq_dividend])
  have "\<forall>w \<in> set ws. cold_ok ?n w"
    by (simp add: ws_def cold_worker_new_def cold_ok_def rolled_up_new count_simps)
  from cold_report_ok [OF cold_steps_ok [OF st this sid]]
  have r: "rolled_up (cold_report H ?n ws') \<and> length (ts_per_scenario (cold_report H ?n ws')) = ?n" .
  obtain ts where ts: "cold_scenarios H E t pl conns interval deadline sids s' = Some ts" "length ts = length sids"
    "\<forall>t \<in> set ts. rolled_up t \<and> length (ts_per_scenario t) = ?n" using Cons by force
  have "cold_scenarios H E t pl conns interval deadline (sid # sids) s = Some (cold_report H ?n ws' # ts)"
    using rp st ts(1) by (simp add: Let_def F_def [symmetric] ws_def [symmetric] del: One_nat_def)
  then show ?case using r ts by auto
qed simp

lemma run_cold_connect_ok:
  "\<exists>ts. run_cold_connect H E t conns rps g lv dur pl = Some ts \<and> length ts = length (cold_indices pl)
    \<and> (\<forall>t \<in> set ts. rolled_up t \<and> length (ts_per_scenario t) = length (pl_scenarios pl))"
  unfolding run_cold_connect_def
  by (rule cold_scenarios_ok) (auto simp: cold_indices_def intro: find_map_cold [THEN not_None_eq [THEN iffD1]])

section \<open>Properties\<close>

text \<open>
  Property C35. Every operation is counted once: under any interleaving of a scenario's workers, what
  the scenario reports as requests and as errors of connecting, waiting, writing and reading adds up
  to the operations performed.
\<close>

theorem cold_accounting:
  assumes "cold_steps H F tns (s, map (cold_worker_new H v n) bs) = (s', ws)"
  shows "op_count (cold_report H n ws) = of_nat (cold_performed H F tns (s, map (cold_worker_new H v n) bs))"
proof -
  have "(\<Sum>w \<leftarrow> map (cold_worker_new H v n) bs. op_count (cw_task w)) = 0"
    by (induction bs) (simp_all add: cold_worker_new_def op_count_new)
  then have "(\<Sum>w \<leftarrow> ws. op_count (cw_task w)) = of_nat (cold_performed H F tns (s, map (cold_worker_new H v n) bs))"
    using cold_steps_count [OF assms] by simp
  then show ?thesis by (simp add: cold_report_def acc_ops.fold_adds op_count_new comp_def)
qed

text \<open>
  Property C36. What an operation makes of a response, in any pieces: it ends with the last byte, not
  before; and when the server closes early, the operation fails if the head is incomplete, and
  otherwise counts as complete with its status, however much of the announced body is missing.
\<close>

theorem cold_response_outcome:
  assumes "cold_response parse ls status hs body" "\<forall>p \<in> set ps. p \<noteq> []"
    and "concat ps = take k (http_head ls @ body)" "now < deadline"
  shows "snd (cold_reads parse msg deadline (map (\<lambda>p. (now, CrData p)) ps) cold_reader_new)
       = (if k < length (http_head ls @ body) then CePending else CeDone)
    \<and> (\<exists>r. cold_reads parse msg deadline (map (\<lambda>p. (now, CrData p)) ps @ [(now, CrData [])]) cold_reader_new
         = (r, if k < length (http_head ls)
               then CeErr (TeProtocol ''EOF before response headers received'') else CeDone)
       \<and> (length (http_head ls) \<le> k \<longrightarrow> cr_status r = status))"
proof -
  let ?wire = "http_head ls @ body" and ?h = "length (http_head ls)"
  have "0 < ?h" using assms(1) by (cases ls) (simp_all add: cold_response_def http_head_def CRLF_def)
  then have start: "cold_reader_new = reader_after ?h status hs (take 0 ?wire)" "0 < length ?wire"
    by (simp_all add: reader_after_def cold_reader_new_def)
  note r = cold_reads_pieces [OF assms(1,2) _ start(2) assms(4), of k msg, folded start(1)]
  have k: "min (length ?wire) k = k" if "k < length ?wire" using that by simp
  show ?thesis using r [of "[]"] r [of "[(now, CrData [])]"] assms(3,4) k \<open>0 < ?h\<close>
    by (auto simp: reader_after_def cold_reader_new_def)
qed

lemma demo_cold_response:
  "cold_response (demo_parse [''HTTP/1.1 200 OK'', ''Content-Length: 2''] [(''Content-Length'', ''2'')])
     [''HTTP/1.1 200 OK'', ''Content-Length: 2''] 200 [(''Content-Length'', ''2'')] ''hi''"
proof -
  let ?hs = "[(''Content-Length'', ''2'')]"
  have "\<not> find_transfer_encoding_chunked ?hs"
    by (simp add: find_transfer_encoding_chunked_def te_has_chunked_def content_length_lower)
  moreover from this have "find_content_length_raw ?hs = ClPresent 2"
    using demo_framed(1) by (simp add: framed_def)
  ultimately have "cold_framed ?hs ''hi''"
    by (auto simp: cold_framed_def content_length_lower split: option.splits if_splits)
  then show ?thesis using demo_head_line by (simp add: cold_response_def demo_parse_def)
qed

lemma cold_response_outcome_witness:
  "\<exists>r. cold_reads (demo_parse [''HTTP/1.1 200 OK'', ''Content-Length: 2''] [(''Content-Length'', ''2'')]) [] 9
      ([(5, CrData (http_head [''HTTP/1.1 200 OK'', ''Content-Length: 2'']))] @ [(5, CrData [])]) cold_reader_new
    = (r, CeDone) \<and> cr_status r = 200"
proof -
  let ?ls = "[''HTTP/1.1 200 OK'', ''Content-Length: 2'']"
  have "concat [h] = take (length h) (h @ b)" for h b :: bytes by simp
  note whole = this [of "http_head ?ls" "''hi''"]
  have "http_head ?ls \<noteq> []" by (simp add: http_head_def)
  with cold_response_outcome [OF demo_cold_response _ whole, of 5 9 "[]"] show ?thesis by fastforce
qed

lemma latency_kept:
  "map_option ts_latency (rc_task (record_failures H sid n (record_status H sid st r))) = map_option ts_latency (rc_task r)"
  "map_option ts_requests (rc_task (record_failures H sid n (record_status H sid st r))) = map_option ts_requests (rc_task r)"
proof -
  have e: "map_option ts_latency (rc_task (rec_record_error H sid k r)) = map_option ts_latency (rc_task r)"
    "map_option ts_requests (rc_task (rec_record_error H sid k r)) = map_option ts_requests (rc_task r)" for k r
    by (auto simp: rec_record_error_def on_live_def task_record_error_def option.map_comp comp_def)
  have "map_option ts_latency (rc_task ((rec_record_error H sid k ^^ m) r)) = map_option ts_latency (rc_task r)"
    "map_option ts_requests (rc_task ((rec_record_error H sid k ^^ m) r)) = map_option ts_requests (rc_task r)" for k m r
    by (induction m) (simp_all add: e)
  then show "map_option ts_latency (rc_task (record_failures H sid n (record_status H sid st r))) = map_option ts_latency (rc_task r)"
    "map_option ts_requests (rc_task (record_failures H sid n (record_status H sid st r))) = map_option ts_requests (rc_task r)"
    by (simp_all add: record_failures_def record_status_def e)
qed

text \<open>
  Slow rates are not kept: an operation whose slot is more than a tenth of a second away
  is started after sleeping a tenth of a second only, and when it completes before its slot it is
  recorded with the least latency the histogram has, whatever it took.
\<close>

lemma cold_early_start:
  assumes "cold_turn_step H F tn (s, w) = (s', w')" "\<not> cw_left w" "cw_addr w"
    and "\<not> ct_stop tn" "ct_now tn < cf_deadline F" "cf_interval F \<noteq> 0"
    and "do_one_op (cf_world F) (cf_parse F) (cf_target F) (cf_opts F) (cf_request F) (cf_tls_config F) (ct_env tn)
           (cw_ctx w, cs_proc s) = (OpDone x, ctx, g)"
    and "ct_now tn + 100000000 + ct_late tn + co_completed x < cf_base F + unat (cs_elapsed s)"
  shows "ts_requests (cw_task w') = ts_requests (cw_task w) + 1
    \<and> ts_latency (cw_task w') = h_record H (ts_latency (cw_task w)) HIST_LO_NS"
proof -
  let ?at = "cf_base F + unat (cs_elapsed s)" and ?from = "\<lparr>rc_task = Some (cw_task w), rc_live = cs_live s\<rparr>"
  have p: "cold_pace (cf_interval F) (cf_base F) (ct_now tn) (cs_elapsed s)
      = (?at, 100000000, False, cs_elapsed s + cf_interval F)"
    using assms(6,8) by (simp add: cold_pace_def Let_def)
  let ?full = "on_outcome H F (cw_shard w) 0 x ?from"
  have late: "ct_now tn + 100000000 + ct_late tn + co_completed x - ?at = 0" using assms(8) by simp
  have w': "cw_task w' = the (rc_task ?full)"
    using assms(1-5,7) p late by (auto simp: cold_turn_step_def Let_def)
  let ?recorded = "rec_record H (cw_shard w) (cf_scenario_id F)
      \<lparr>sa_latency = 0, sa_ttfb = co_handshake x + co_ttfb x, sa_bytes_sent = co_request_bytes x,
       sa_bytes_recv = co_response_bytes x\<rparr> ?from"
  let ?t = "task_record H (cf_scenario_id F) 0 (co_handshake x + co_ttfb x) (co_request_bytes x) (co_response_bytes x) (cw_task w)"
  have t: "rc_task ?recorded = Some ?t" by (simp add: rec_record_def on_live_def Let_def)
  have r: "map_option ts_latency (rc_task ?full) = Some (ts_latency ?t)" "map_option ts_requests (rc_task ?full) = Some (ts_requests ?t)"
    unfolding on_outcome_def Let_def latency_kept t option.map by (rule refl)+
  have v: "ts_latency ?t = h_record H (ts_latency (cw_task w)) HIST_LO_NS" "ts_requests ?t = ts_requests (cw_task w) + 1"
    by (simp_all add: task_record_def Let_def duration_to_hist_ns_def HIST_LO_NS_def)
  have "ts_latency (cw_task w') = ts_latency ?t" "ts_requests (cw_task w') = ts_requests ?t" using r w' by auto
  then show ?thesis unfolding v by simp
qed

definition demo_cold_env :: "nat \<Rightarrow> cold_env" where
  "demo_cold_env n = \<lparr>ce_msg = [], ce_connect = True, ce_tls_new = True, ce_registry = True, ce_register = True,
     ce_wait = WaitReady, ce_peer = True, ce_handshake = [], ce_writes = [(WroteOk n, True)], ce_write_done = 4,
     ce_read_at = 5, ce_reads = [(6, CrData (http_head [''HTTP/1.1 200 OK'', ''Content-Length: 2''] @ ''hi''))],
     ce_first_byte = 7, ce_completed = 8\<rparr>"

definition demo_cold_config :: "nat cold_config" where
  "demo_cold_config = \<lparr>cf_world = demo_world,
     cf_parse = demo_parse [''HTTP/1.1 200 OK'', ''Content-Length: 2''] [(''Content-Length'', ''2'')],
     cf_target = demo_target, cf_opts = default_transport_opts, cf_request = demo_request, cf_tls_config = False,
     cf_base = 0, cf_deadline = 10 ^ 10, cf_interval = 10 ^ 9, cf_scenario_id = 0\<rparr>"

lemma demo_cold_op:
  "\<exists>n x ctx g. do_one_op (cf_world demo_cold_config) (cf_parse demo_cold_config) (cf_target demo_cold_config)
     (cf_opts demo_cold_config) (cf_request demo_cold_config) (cf_tls_config demo_cold_config) (demo_cold_env n) cg
     = (OpDone x, ctx, g) \<and> co_completed x = 8"
proof -
  let ?ls = "[''HTTP/1.1 200 OK'', ''Content-Length: 2'']"
  let ?parse = "demo_parse ?ls [(''Content-Length'', ''2'')]"
  obtain request ctx g where b: "build_raw_request demo_world demo_request demo_target CloseConn [] cg = (request, ctx, g)"
    by (metis prod_cases3)
  let ?n = "Suc (length request)"
  have w: "cold_write (length request) (demo_cold_env ?n) = CeDone"
    by (simp add: cold_write_def demo_cold_env_def)
  have nonempty: "\<forall>p \<in> set [http_head ?ls @ ''hi'']. p \<noteq> []" by simp
  have one: "concat [x] = take (length x) x" for x :: bytes by simp
  note r = cold_reads_pieces [OF demo_cold_response nonempty, of 0 "length (http_head ?ls @ ''hi'')" 6 "5 + 30 * 10 ^ 9" "[]" "[]"]
  have h: "0 < length (http_head ?ls)" by (simp add: http_head_def CRLF_def)
  obtain rd where "cold_reads ?parse [] (5 + 30 * 10 ^ 9) [(6, CrData (http_head ?ls @ ''hi''))] cold_reader_new = (rd, CeDone)"
    using r h by (simp add: reader_after_def cold_reader_new_def)
  then show ?thesis
    using b w
    by (intro exI [of _ ?n]) (simp add: do_one_op_def demo_cold_config_def cold_connect_def demo_cold_env_def
        demo_target_def default_transport_opts_def)
qed

lemma cold_accounting_witness:
  "\<exists>n. op_count (cold_report sample_hist 1 (snd (cold_steps sample_hist demo_cold_config
       [(0, \<lparr>ct_stop = False, ct_now = 5, ct_late = 0, ct_env = demo_cold_env n\<rparr>)]
       (\<lparr>cs_elapsed = 0, cs_proc = demo_proc, cs_live = None\<rparr>,
        map (cold_worker_new sample_hist 2 1) [\<lparr>cb_poll = True, cb_addr = True, cb_rng = 0, cb_shard = 0\<rparr>])))) = 1"
proof -
  let ?bs = "[\<lparr>cb_poll = True, cb_addr = True, cb_rng = 0, cb_shard = 0\<rparr>] :: nat cold_start list"
  let ?w = "cold_worker_new sample_hist 2 1 (hd ?bs) :: (nat, nat list) cold_worker"
  let ?s = "\<lparr>cs_elapsed = 0, cs_proc = demo_proc, cs_live = None\<rparr> :: nat list cold_shared"
  obtain n x ctx g where o: "do_one_op (cf_world demo_cold_config) (cf_parse demo_cold_config) (cf_target demo_cold_config)
     (cf_opts demo_cold_config) (cf_request demo_cold_config) (cf_tls_config demo_cold_config) (demo_cold_env n)
     (cw_ctx ?w, cs_proc ?s) = (OpDone x, ctx, g)" using demo_cold_op [of "(cw_ctx ?w, cs_proc ?s)"] by blast
  let ?tns = "[(0, \<lparr>ct_stop = False, ct_now = 5, ct_late = 0, ct_env = demo_cold_env n\<rparr>)]"
  obtain s' ws where st: "cold_steps sample_hist demo_cold_config ?tns (?s, map (cold_worker_new sample_hist 2 1) ?bs) = (s', ws)"
    by fastforce
  have w: "cw_addr ?w" "\<not> cw_left ?w" "cf_deadline demo_cold_config = 10 ^ 10"
    by (simp_all add: cold_worker_new_def demo_cold_config_def)
  have "cold_performed sample_hist demo_cold_config ?tns (?s, map (cold_worker_new sample_hist 2 1) ?bs) = 1"
  proof -
    obtain s1 w1 where t: "cold_turn_step sample_hist demo_cold_config (snd (hd ?tns)) (?s, ?w) = (s1, w1)" by fastforce
    then have "\<not> cw_left w1" using o w by (auto simp: cold_turn_step_def Let_def split: prod.splits)
    then show ?thesis using t by simp
  qed
  then show ?thesis using cold_accounting [OF st] st by (intro exI [of _ n]) simp
qed

end
