(* ===== verification/RequestFile.thy ===== *)
theory RequestFile
  imports Plans Transport "HOL-Library.Char_ord" "HOL-Library.List_Lexorder"
begin

text \<open>
  Request files: \<open>zerobench-core/src/request_file.rs\<close>. The parser of a \<open>.http\<close> file
  (the split of head and body, the line scanner, the request line, the headers, the choice of the
  connection target, the compilation of the templates) and the reader of a scenario directory with
  its \<open>scenarios.toml\<close>. The method grammar of the \<open>http\<close> crate is the parameter \<open>pm\<close>;
  the file system, the TOML reader and \<open>f32\<close> arithmetic are records of functions. Error values
  keep the field a template error arose in; their rendering is left out.
\<close>

section \<open>Errors and results\<close>

datatype tpl_field =
    FieldUrl string
  | FieldHeaderName string string
  | FieldHeaderValue string string
  | FieldBody string

datatype scenario_error =
    NotDirectory string
  | NoHttpFiles string
  | TomlSyntax string
  | ReferencedMissing string string
  | ReferencedUnmatched string string

datatype request_file_error =
    RfIo string
  | RfEmpty
  | RfMissingRequestLine string
  | RfInvalidRequestLine string
  | RfUnsupportedVersion string
  | RfMalformedHeader string
  | RfMissingBlankLine string
  | RfMissingHost string
  | RfTemplate tpl_field template_error
  | RfTarget target_error
  | RfScenario scenario_error

record parsed_request =
  pr_method :: string
  pr_target :: target
  pr_url :: template
  pr_headers :: headers
  pr_body :: "body_source option"

section \<open>Text helpers of the standard library\<close>

text \<open>\<open>str::lines\<close>: line feeds end lines, a carriage return before one belongs to it.\<close>

definition strip_line_cr :: "string \<Rightarrow> string" where
  "strip_line_cr l = (if last_is CR l then butlast l else l)"

definition str_lines :: "string \<Rightarrow> string list" where
  "str_lines s =
     (let ls = split_on LF s
      in map strip_line_cr (butlast ls) @ (if List.last ls = [] then [] else [List.last ls]))"

text \<open>\<open>str::split_whitespace\<close>: the maximal runs without white space.\<close>

function ws_tokens :: "string \<Rightarrow> string \<Rightarrow> string list" where
  "ws_tokens acc s =
     (case strip_any ws_seqs s of
        Some t \<Rightarrow> (if acc = [] then [] else [acc]) @ ws_tokens [] t
      | None \<Rightarrow> (case s of
            [] \<Rightarrow> if acc = [] then [] else [acc]
          | c # r \<Rightarrow> ws_tokens (acc @ [c]) r))"
  by pat_completeness auto
termination
  by (relation "measure (\<lambda>(_, s). length s)") (auto dest: strip_any_shorter)

declare ws_tokens.simps [simp del]

definition split_whitespace :: "string \<Rightarrow> string list" where
  "split_whitespace s = ws_tokens [] s"

section \<open>Head and body\<close>

definition find_subseq :: "bytes \<Rightarrow> bytes \<Rightarrow> nat option" where
  "find_subseq hay needle =
     (if needle = [] \<or> length hay < length needle then None else find_sub needle hay)"

definition find_header_body_split :: "bytes \<Rightarrow> nat \<times> nat" where
  "find_header_body_split bs =
     (case find_subseq bs (CRLF @ CRLF) of
        Some idx \<Rightarrow> (idx, idx + 4)
      | None \<Rightarrow> (case find_subseq bs [LF, LF] of
            Some idx \<Rightarrow> (idx, idx + 2)
          | None \<Rightarrow> (length bs, length bs)))"

section \<open>Request line\<close>

definition located :: "string \<Rightarrow> nat \<Rightarrow> string \<Rightarrow> string" where
  "located source line_no msg = source @ '':'' @ dec line_no @ '': '' @ msg"

definition parse_request_line ::
  "(string \<Rightarrow> string option) \<Rightarrow> string \<Rightarrow> string \<Rightarrow> nat
     \<Rightarrow> request_file_error + (string \<times> string \<times> string)" where
  "parse_request_line pm line source line_no =
     (let err = Inl (RfInvalidRequestLine (located source line_no line)) in
      case split_whitespace line of
        [method_str, tgt, version] \<Rightarrow>
          (case pm method_str of
             None \<Rightarrow> err
           | Some method \<Rightarrow> Inr (method, tgt, version))
      | _ \<Rightarrow> err)"

definition validate_version :: "string \<Rightarrow> string \<Rightarrow> nat \<Rightarrow> request_file_error + unit" where
  "validate_version version source line_no =
     (if version = ''HTTP/1.1'' \<or> version = ''HTTP/1.0'' then Inr ()
      else if eq_icase version ''HTTP/1.1'' \<or> eq_icase version ''HTTP/1.0'' then Inr ()
      else Inl (RfUnsupportedVersion (located source line_no version)))"

definition looks_like_absolute_url :: "string \<Rightarrow> bool" where
  "looks_like_absolute_url tgt =
     (is_prefix ''http://'' tgt \<or> is_prefix ''https://'' tgt
      \<or> is_prefix ''ws://'' tgt \<or> is_prefix ''wss://'' tgt)"

section \<open>Lines and headers\<close>

text \<open>The line scanner: the first line that is neither blank nor a comment, and the later ones.\<close>

fun scan_lines ::
  "nat \<Rightarrow> string list \<Rightarrow> (nat \<times> string) option \<Rightarrow> (nat \<times> string) list
     \<Rightarrow> (nat \<times> string) option \<times> (nat \<times> string) list" where
  "scan_lines i [] request_line header_lines = (request_line, header_lines)"
| "scan_lines i (line # ls) request_line header_lines =
     (let line_no = i + 1; trimmed = trim line;
          skip = (trimmed = [] \<or> is_prefix ''#'' trimmed) in
      case request_line of
        None \<Rightarrow>
          if skip then scan_lines (i + 1) ls None header_lines
          else scan_lines (i + 1) ls (Some (line_no, trimmed)) header_lines
      | Some _ \<Rightarrow>
          if skip then scan_lines (i + 1) ls request_line header_lines
          else scan_lines (i + 1) ls request_line (header_lines @ [(line_no, line)]))"

fun parse_header_lines ::
  "string \<Rightarrow> (nat \<times> string) list \<Rightarrow> string option \<Rightarrow> (string \<times> string) list
     \<Rightarrow> request_file_error + (string option \<times> (string \<times> string) list)" where
  "parse_header_lines source [] host_value raw_headers = Inr (host_value, raw_headers)"
| "parse_header_lines source ((line_no, line) # ls) host_value raw_headers =
     (case split_once (CHR '':'') line of
        None \<Rightarrow> Inl (RfMalformedHeader (located source line_no line))
      | Some (name, val) \<Rightarrow>
          (let name_trimmed = trim name in
           if name_trimmed = [] then Inl (RfMalformedHeader (located source line_no line))
           else
             (let v = (if is_prefix '' '' val then drop 1 val else val);
                  hv = (if eq_icase name_trimmed ''host'' then Some v else host_value)
              in parse_header_lines source ls hv (raw_headers @ [(name_trimmed, v)]))))"

text \<open>The check that no text follows the last line ending when there was no blank line.\<close>

definition trailing_text :: "bytes \<Rightarrow> bool" where
  "trailing_text bs =
     (let trailing_start = (case rfind_pos (\<lambda>b. b = LF) bs of Some i \<Rightarrow> i + 1 | None \<Rightarrow> length bs);
          trailing = drop trailing_start bs
      in trailing \<noteq> [] \<and> \<not> list_all ascii_ws trailing)"

text \<open>The connection target and the full URL: absolute form, or scheme http and the Host header.\<close>

definition choose_target ::
  "string \<Rightarrow> string option \<Rightarrow> string \<Rightarrow> request_file_error + (target \<times> string)" where
  "choose_target raw_target host_value source =
     (if looks_like_absolute_url raw_target then
        (case target_parse raw_target of
           Inl e \<Rightarrow> Inl (RfTarget e)
         | Inr t \<Rightarrow> Inr (t, raw_target))
      else
        (case host_value of
           None \<Rightarrow> Inl (RfMissingHost source)
         | Some hv \<Rightarrow>
             (let host = trim hv in
              if host = [] then Inl (RfMissingHost source)
              else
                (let full = ''http://'' @ host @ raw_target in
                 case target_parse full of
                   Inl e \<Rightarrow> Inl (RfTarget e)
                 | Inr t \<Rightarrow> Inr (t, full)))))"

fun compile_header_list ::
  "'r world \<Rightarrow> string \<Rightarrow> (string \<times> string) list \<Rightarrow> comp_state \<Rightarrow> headers
     \<Rightarrow> comp_state \<times> (request_file_error + headers)" where
  "compile_header_list W source [] st acc = (st, Inr acc)"
| "compile_header_list W source ((name, val) # hs) st acc =
     (case compile_template W name st of
        (st1, Inl e) \<Rightarrow> (st1, Inl (RfTemplate (FieldHeaderName source name) e))
      | (st1, Inr name_tpl) \<Rightarrow>
          (case compile_template W val st1 of
             (st2, Inl e) \<Rightarrow> (st2, Inl (RfTemplate (FieldHeaderValue source name) e))
           | (st2, Inr value_tpl) \<Rightarrow>
               compile_header_list W source hs st2 (acc @ [(name_tpl, value_tpl)])))"

definition compile_body ::
  "'r world \<Rightarrow> string \<Rightarrow> bytes \<Rightarrow> comp_state \<Rightarrow> comp_state \<times> (request_file_error + body_source option)" where
  "compile_body W source body_bytes st =
     (if body_bytes = [] then (st, Inr None)
      else if valid_utf8 body_bytes then
        (case compile_template W body_bytes st of
           (st', Inl e) \<Rightarrow> (st', Inl (RfTemplate (FieldBody source) e))
         | (st', Inr t) \<Rightarrow> (st', Inr (Some (BodyTemplate t))))
      else (st, Inr (Some (BodyStatic body_bytes))))"

text \<open>The templates are compiled in the order URL, headers, body, on one registry.\<close>

definition compile_request ::
  "'r world \<Rightarrow> string \<Rightarrow> string \<Rightarrow> target \<Rightarrow> string \<Rightarrow> (string \<times> string) list \<Rightarrow> bytes \<Rightarrow> comp_state
     \<Rightarrow> comp_state \<times> (request_file_error + parsed_request)" where
  "compile_request W source method tgt full_url raw_headers body_bytes st =
     (case compile_template W full_url st of
        (st1, Inl e) \<Rightarrow> (st1, Inl (RfTemplate (FieldUrl source) e))
      | (st1, Inr url_tpl) \<Rightarrow>
          (case compile_header_list W source raw_headers st1 [] of
             (st2, Inl e) \<Rightarrow> (st2, Inl e)
           | (st2, Inr hs) \<Rightarrow>
               (case compile_body W source body_bytes st2 of
                  (st3, Inl e) \<Rightarrow> (st3, Inl e)
                | (st3, Inr body) \<Rightarrow>
                    (st3, Inr \<lparr>pr_method = method, pr_target = tgt, pr_url = url_tpl,
                           pr_headers = hs, pr_body = body\<rparr>))))"

definition parse_request_bytes ::
  "'r world \<Rightarrow> (string \<Rightarrow> string option) \<Rightarrow> bytes \<Rightarrow> string \<Rightarrow> comp_state
     \<Rightarrow> comp_state \<times> (request_file_error + parsed_request)" where
  "parse_request_bytes W pm bs source st =
     (if bs = [] then (st, Inl RfEmpty)
      else
        (let (header_end, body_start) = find_header_body_split bs;
             has_blank_line_terminator = (header_end < body_start);
             header_bytes = take header_end bs
         in if \<not> valid_utf8 header_bytes
            then (st, Inl (RfInvalidRequestLine (source @ '': header region is not valid UTF-8'')))
            else
              (case scan_lines 0 (str_lines header_bytes) None [] of
                 (None, _) \<Rightarrow> (st, Inl (RfMissingRequestLine source))
               | (Some (req_line_no, request_line), header_lines) \<Rightarrow>
                   (case parse_request_line pm request_line source req_line_no of
                      Inl e \<Rightarrow> (st, Inl e)
                    | Inr (method, raw_target, version) \<Rightarrow>
                        (case validate_version version source req_line_no of
                           Inl e \<Rightarrow> (st, Inl e)
                         | Inr _ \<Rightarrow>
                             (case parse_header_lines source header_lines None [] of
                                Inl e \<Rightarrow> (st, Inl e)
                              | Inr (host_value, raw_headers) \<Rightarrow>
                                  if \<not> has_blank_line_terminator \<and> raw_headers \<noteq> [] \<and> trailing_text bs
                                  then (st, Inl (RfMissingBlankLine source))
                                  else
                                    (case choose_target raw_target host_value source of
                                       Inl e \<Rightarrow> (st, Inl e)
                                     | Inr (tgt, full_url) \<Rightarrow>
                                         compile_request W source method tgt full_url raw_headers
                                           (drop body_start bs) st)))))))"

section \<open>Scenario directories\<close>

text \<open>Paths of the standard library, on their text: joining, the file name, the stem, the extension.\<close>

definition path_join :: "string \<Rightarrow> string \<Rightarrow> string" where
  "path_join dir f =
     (if is_prefix ''/'' f then f else if dir = [] \<or> last_is (CHR ''/'') dir then dir @ f else dir @ ''/'' @ f)"

definition path_file_name :: "string \<Rightarrow> string option" where
  "path_file_name p =
     (let segs = filter (\<lambda>s. s \<noteq> [] \<and> s \<noteq> ''.'') (split_on (CHR ''/'') p)
      in if segs = [] \<or> List.last segs = ''..'' then None else Some (List.last segs))"

definition split_at_dot :: "string \<Rightarrow> string \<times> string option" where
  "split_at_dot name =
     (case rsplit_once (CHR ''.'') name of
        None \<Rightarrow> (name, None)
      | Some (before, after) \<Rightarrow> if before = [] then (name, None) else (before, Some after))"

definition path_stem :: "string \<Rightarrow> string option" where
  "path_stem p = map_option (\<lambda>n. fst (split_at_dot n)) (path_file_name p)"

definition utf8_or :: "string \<Rightarrow> string option \<Rightarrow> string" where
  "utf8_or dflt n = (case n of Some s \<Rightarrow> (if valid_utf8 s then s else dflt) | None \<Rightarrow> dflt)"

text \<open>
  The file system as the program sees it, and \<open>f32\<close> arithmetic. \<open>fs_hash_order\<close> is the
  order in which a hash map is traversed.
\<close>

record dir_entry =
  de_name :: string
  de_is_file :: bool

record file_system =
  fs_is_dir :: "string \<Rightarrow> bool"
  fs_read_dir :: "string \<Rightarrow> string + (string + dir_entry) list"
  fs_exists :: "string \<Rightarrow> bool"
  fs_read :: "string \<Rightarrow> string + bytes"
  fs_read_to_string :: "string \<Rightarrow> string + string"
  fs_hash_order :: "string list \<Rightarrow> string list"

record 'f float_ops =
  fo_zero :: 'f
  fo_one :: 'f
  fo_of_nat :: "nat \<Rightarrow> 'f"
  fo_sum :: "'f list \<Rightarrow> 'f"
  fo_div :: "'f \<Rightarrow> 'f \<Rightarrow> 'f"
  fo_max :: "'f \<Rightarrow> 'f \<Rightarrow> 'f"
  fo_nonpos :: "'f \<Rightarrow> bool"
  fo_finite :: "'f \<Rightarrow> bool"

record 'f scenario_entry =
  se_name :: string
  se_file :: string
  se_weight :: 'f

definition upsert :: "'k \<Rightarrow> 'v \<Rightarrow> ('k \<times> 'v) list \<Rightarrow> ('k \<times> 'v) list" where
  "upsert k v kvs = filter (\<lambda>(k', _). k' \<noteq> k) kvs @ [(k, v)]"

definition toml_name :: "string \<Rightarrow> string" where
  "toml_name file =
     (if is_prefix (rev ''.http'') (rev file) then utf8_or file (path_stem file) else file)"

fun toml_weights ::
  "file_system \<Rightarrow> 'f float_ops \<Rightarrow> string \<Rightarrow> (string \<times> 'f option) list \<Rightarrow> (string \<times> 'f) list
     \<Rightarrow> request_file_error + (string \<times> 'f) list" where
  "toml_weights FS F dir [] acc = Inr acc"
| "toml_weights FS F dir ((file, w) # scs) acc =
     (let name = toml_name file;
          weight = fo_max F (case w of Some x \<Rightarrow> x | None \<Rightarrow> fo_zero F) (fo_zero F)
      in if fs_exists FS (path_join dir file) \<or> fs_exists FS (path_join dir (name @ ''.http''))
         then toml_weights FS F dir scs (upsert name weight acc)
         else Inl (RfScenario (ReferencedMissing file dir)))"

text \<open>\<open>toml\<close> is the deserialisation of the text into its list of entries.\<close>

definition parse_scenarios_toml ::
  "(string \<Rightarrow> string + (string \<times> 'f option) list) \<Rightarrow> file_system \<Rightarrow> 'f float_ops \<Rightarrow> string \<Rightarrow> string
     \<Rightarrow> request_file_error + (string \<times> 'f) list" where
  "parse_scenarios_toml toml FS F text_in dir =
     (case toml text_in of
        Inl e \<Rightarrow> Inl (RfScenario (TomlSyntax e))
      | Inr scs \<Rightarrow> toml_weights FS F dir scs [])"

definition is_scenario_file :: "dir_entry \<Rightarrow> bool" where
  "is_scenario_file d =
     (\<not> is_prefix ''.'' (de_name d) \<and> de_is_file d
      \<and> (case snd (split_at_dot (de_name d)) of Some e \<Rightarrow> eq_icase e ''http'' | None \<Rightarrow> False))"

fun collect_entries :: "(string + dir_entry) list \<Rightarrow> string list \<Rightarrow> request_file_error + string list" where
  "collect_entries [] acc = Inr acc"
| "collect_entries (Inl e # ds) acc = Inl (RfIo e)"
| "collect_entries (Inr d # ds) acc =
     collect_entries ds (if is_scenario_file d then acc @ [de_name d] else acc)"

definition normalise_weights :: "'f float_ops \<Rightarrow> 'f scenario_entry list \<Rightarrow> 'f scenario_entry list" where
  "normalise_weights F es =
     (let s = fo_sum F (map se_weight es) in
      if fo_nonpos F s \<or> \<not> fo_finite F s
      then map (\<lambda>e. e\<lparr>se_weight := fo_div F (fo_one F) (fo_of_nat F (length es))\<rparr>) es
      else map (\<lambda>e. e\<lparr>se_weight := fo_div F (se_weight e) s\<rparr>) es)"

definition parse_scenario_dir ::
  "(string \<Rightarrow> string + (string \<times> 'f option) list) \<Rightarrow> file_system \<Rightarrow> 'f float_ops \<Rightarrow> string
     \<Rightarrow> request_file_error + 'f scenario_entry list" where
  "parse_scenario_dir toml FS F dir =
     (if \<not> fs_is_dir FS dir then Inl (RfScenario (NotDirectory dir))
      else (case fs_read_dir FS dir of
        Inl e \<Rightarrow> Inl (RfIo e)
      | Inr ds \<Rightarrow> (case collect_entries ds [] of
          Inl e \<Rightarrow> Inl e
        | Inr found \<Rightarrow>
            (let http_files = sort found in
             if http_files = [] then Inl (RfScenario (NoHttpFiles dir))
             else (case (if fs_exists FS (path_join dir ''scenarios.toml'')
                         then (case fs_read_to_string FS (path_join dir ''scenarios.toml'') of
                                 Inl e \<Rightarrow> Inl (RfIo e)
                               | Inr txt_in \<Rightarrow> (case parse_scenarios_toml toml FS F txt_in dir of
                                     Inl e \<Rightarrow> Inl e | Inr m \<Rightarrow> Inr (Some m)))
                         else Inr None) of
                 Inl e \<Rightarrow> Inl e
               | Inr weight_map \<Rightarrow>
                   (let entries = map (\<lambda>f.
                          let name = utf8_or ''scenario'' (Some (fst (split_at_dot f))) in
                          \<lparr>se_name = name, se_file = path_join dir f,
                           se_weight = (case weight_map of
                               Some m \<Rightarrow> (case map_of m name of Some w \<Rightarrow> w | None \<Rightarrow> fo_zero F)
                             | None \<Rightarrow> fo_one F)\<rparr>) http_files;
                        keys = (case weight_map of Some m \<Rightarrow> fs_hash_order FS (map fst m) | None \<Rightarrow> [])
                    in case find (\<lambda>k. k \<notin> set (map se_name entries)) keys of
                         Some k \<Rightarrow> Inl (RfScenario (ReferencedUnmatched k dir))
                       | None \<Rightarrow> Inr (normalise_weights F entries)))))))"

section \<open>Lemmas on lines\<close>

fun join :: "'a list \<Rightarrow> 'a list list \<Rightarrow> 'a list" where
  "join sep [] = []"
| "join sep [l] = l"
| "join sep (l # ls) = l @ sep @ join sep ls"

lemma split_on_line:
  "c \<notin> set a \<Longrightarrow> split_on c (a @ c # b) = a # split_on c b"
  by (induction a) auto

lemma split_on_none: "c \<notin> set a \<Longrightarrow> split_on c a = [a]"
  by (induction a) auto

lemma split_on_join:
  assumes "ls \<noteq> []" "\<forall>l \<in> set ls. c \<notin> set l" "c \<notin> set e"
  shows "split_on c (join (e @ [c]) ls) = map (\<lambda>l. l @ e) (butlast ls) @ [List.last ls]"
  using assms(1,2)
proof (induction "e @ [c]" ls rule: join.induct)
  case (3 l l' ls)
  then show ?case using split_on_line [of c "l @ e" "join (e @ [c]) (l' # ls)"] assms(3) by simp
qed (simp_all add: split_on_none)

text \<open>The two line ends, and the lines of a head: not empty, ended by neither.\<close>

definition eol_ok :: "string \<Rightarrow> bool" where "eol_ok e = (e = [] \<or> e = [CR])"

definition file_line :: "string \<Rightarrow> bool" where
  "file_line l = (l \<noteq> [] \<and> CR \<notin> set l \<and> LF \<notin> set l)"

lemma eol_fresh: "eol_ok e \<Longrightarrow> LF \<notin> set e"
  by (auto simp: eol_ok_def)

lemma strip_line_cr_line:
  assumes "eol_ok e" "file_line l"
  shows "strip_line_cr (l @ e) = l"
proof -
  have "\<not> last_is CR l" using assms(2) last_in_set [of l] by (metis file_line_def last_is_def)
  then show ?thesis using assms(1) by (auto simp: eol_ok_def strip_line_cr_def last_is_def)
qed

lemma str_lines_join:
  assumes "eol_ok e" "ls \<noteq> []" "\<forall>l \<in> set ls. file_line l"
  shows "str_lines (join (e @ [LF]) ls) = ls"
proof -
  have "List.last ls \<noteq> []" using assms(2,3) by (simp add: file_line_def)
  moreover have "map strip_line_cr (map (\<lambda>l. l @ e) (butlast ls)) = butlast ls"
    using assms(1,3) by (simp add: map_idI in_set_butlastD strip_line_cr_line)
  ultimately show ?thesis
    using split_on_join [of ls LF e] assms eol_fresh [OF assms(1)]
    by (simp add: str_lines_def file_line_def)
qed

lemma join_cr: "\<forall>l \<in> set ls. file_line l \<Longrightarrow> CR \<notin> set (join [LF] ls)"
  by (induction "[LF]" ls rule: join.induct) (auto simp: file_line_def)

lemma http_head_join: "ls \<noteq> [] \<Longrightarrow> http_head ls = join CRLF ls @ CRLF @ CRLF"
proof (induction CRLF ls rule: join.induct)
  case (3 l l' ls)
  then show ?case by (simp add: http_head_def)
qed (simp_all add: http_head_def)

lemma find_blank_lf:
  assumes "ls \<noteq> []" "\<forall>l \<in> set ls. file_line l"
  shows "find_sub [LF, LF] (join [LF] ls @ LF # LF # body) = Some (length (join [LF] ls))"
  using assms
proof (induction "[LF]" ls rule: join.induct)
  case (2 l)
  then show ?case using find_sub_fresh [of "[LF, LF]" l body] by (simp add: file_line_def)
next
  case (3 l l' ls)
  obtain c r where c: "join [LF] (l' # ls) = c # r" "c \<noteq> LF"
    using 3 by (cases l'; cases ls) (auto simp: file_line_def)
  have "find_sub [LF, LF] (LF # join [LF] (l' # ls) @ LF # LF # body)
      = Some (Suc (length (join [LF] (l' # ls))))"
    using 3 c by simp
  then show ?case using 3 find_sub_skip [of "[LF, LF]" l] by (simp add: file_line_def)
qed simp

text \<open>Where a written file is split.\<close>

lemma split_written:
  assumes "eol_ok e" "ls \<noteq> []" "\<forall>l \<in> set ls. file_line l"
    and "e = [] \<Longrightarrow> find_sub (CRLF @ CRLF) body = None"
  shows "find_header_body_split (join (e @ [LF]) ls @ e @ LF # e @ LF # body)
       = (length (join (e @ [LF]) ls), length (join (e @ [LF]) ls) + 2 * length (e @ [LF]))"
proof (cases "e = []")
  case False
  then have e: "e = [CR]" using assms(1) by (simp add: eol_ok_def)
  have "\<forall>l \<in> set ls. head_line l" using assms(3) by (auto simp: head_line_def file_line_def)
  then have "find_sub (CRLF @ CRLF) (http_head ls @ body) = Some (length (http_head ls) - 4)"
    by (rule find_blank_line [OF assms(2)])
  then have "find_sub (CRLF @ CRLF) (join CRLF ls @ CRLF @ CRLF @ body) = Some (length (join CRLF ls))"
    using http_head_join [OF assms(2)] by (simp add: CRLF_def)
  then show ?thesis unfolding e
    by (simp add: find_header_body_split_def find_subseq_def CRLF_def)
next
  case True
  have "find_sub (CRLF @ CRLF) (join [LF] ls @ LF # LF # body)
      = map_option ((+) (length (join [LF] ls))) (find_sub (CRLF @ CRLF) (LF # LF # body))"
    using join_cr [OF assms(3)] by (intro find_sub_skip) (simp_all add: CRLF_def)
  also have "find_sub (CRLF @ CRLF) (LF # LF # body) = None"
    using assms(4) [OF True] by (simp add: CRLF_def)
  finally have "find_sub (CRLF @ CRLF) (join [LF] ls @ LF # LF # body) = None" by simp
  then show ?thesis using True find_blank_lf [OF assms(2,3)]
    by (simp add: find_header_body_split_def find_subseq_def)
qed

section \<open>Lemmas on tokens\<close>

definition visible :: "char \<Rightarrow> bool" where "visible c = (33 \<le> code c \<and> code c < 127)"

definition token :: "string \<Rightarrow> bool" where "token s = (s \<noteq> [] \<and> (\<forall>c \<in> set s. visible c))"

lemma ws_seqs_invisible: "\<forall>w \<in> set ws_seqs. w \<noteq> [] \<and> (\<forall>c \<in> set w. \<not> visible c)"
  by (simp add: ws_seqs_def visible_def code_def)

lemma strip_any_visible: "visible c \<Longrightarrow> strip_any ws_seqs (c # s) = None"
  by (rule strip_any_ascii) (use ws_seqs_invisible in \<open>auto simp: visible_def\<close>)

lemma ws_tokens_visible:
  "\<forall>c \<in> set t. visible c \<Longrightarrow> ws_tokens acc (t @ s) = ws_tokens (acc @ t) s"
proof (induction t arbitrary: acc)
  case (Cons c t)
  then show ?case by (subst ws_tokens.simps) (simp add: strip_any_visible)
qed simp

lemma strip_any_space: "strip_any ws_seqs (CHR '' '' # s) = Some s"
  by (simp add: ws_seqs_def)

lemma ws_tokens_token: "token t \<Longrightarrow> ws_tokens [] (t @ CHR '' '' # s) = t # ws_tokens [] s"
  using ws_tokens_visible [of t "[]" "CHR '' '' # s"] ws_tokens.simps [of t "CHR '' '' # s"]
  by (simp add: token_def strip_any_space)

lemma ws_tokens_last: "token t \<Longrightarrow> ws_tokens [] t = [t]"
  using ws_tokens_visible [of t "[]" "[]"] ws_tokens.simps [of t "[]"]
  by (simp add: token_def ws_seqs_def)

lemma trim_token: "token t \<Longrightarrow> trim t = t"
  by (rule trim_plain) (auto simp: token_def visible_def)

lemma trim_with_keeps:
  assumes "\<forall>w \<in> set ws. c \<notin> set w"
  shows "\<exists>s'. trim_with ws (s @ [c]) = s' @ [c]"
proof (induction s rule: length_induct)
  case (1 s)
  show ?case
  proof (cases "strip_any ws (s @ [c])")
    case None
    then show ?thesis by (simp add: trim_with.simps)
  next
    case (Some t)
    have "\<exists>w \<in> set ws. w \<noteq> [] \<and> is_prefix w (s @ [c]) \<and> t = drop (length w) (s @ [c])"
      using Some by (induction ws) (auto split: if_splits)
    then obtain w where w0: "w \<in> set ws" "w \<noteq> []" "is_prefix w (s @ [c])" "t = drop (length w) (s @ [c])"
      by blast
    then obtain r where "s @ [c] = w @ r" by (auto simp: is_prefix_iff)
    with w0 have w: "w \<in> set ws" "w \<noteq> []" "s @ [c] = w @ r" "t = r" by simp_all
    then have "r \<noteq> []" using assms by (metis append_Nil2 in_set_conv_decomp)
    then obtain r' where r': "r = r' @ [c]" using w(3) by (metis append_butlast_last_id last_appendR last_snoc)
    then have "length r' < length s" using w(2,3) by simp
    then show ?thesis using 1 Some w(4) r' by (subst trim_with.simps) simp
  qed
qed

text \<open>Trimming a line that starts visibly keeps its first character.\<close>

lemma trim_starts: "visible c \<Longrightarrow> \<exists>s'. trim (c # s) = c # s'"
proof -
  assume c: "visible c"
  have "trim_start (c # s) = c # s"
    using c by (simp add: trim_start_def trim_with.simps strip_any_visible)
  moreover have "\<forall>w \<in> set (map rev ws_seqs). c \<notin> set w" using ws_seqs_invisible c by auto
  then obtain s' where "trim_with (map rev ws_seqs) (rev s @ [c]) = s' @ [c]"
    using trim_with_keeps by blast
  ultimately show ?thesis by (simp add: trim_def trim_end_def)
qed

section \<open>Written files\<close>

text \<open>
  A file as a user writes it: a request line, header lines and comments, a blank line, a body. The
  line end is LF (\<open>e = []\<close>) or CRLF (\<open>e = [CR]\<close>).
\<close>

datatype file_item = Field string string | Remark string

fun item_line :: "file_item \<Rightarrow> string" where
  "item_line (Field n v) = n @ '': '' @ v"
| "item_line (Remark s) = ''#'' @ s"

fun item_fields :: "file_item list \<Rightarrow> (string \<times> string) list" where
  "item_fields [] = []"
| "item_fields (Field n v # is) = (n, v) # item_fields is"
| "item_fields (Remark s # is) = item_fields is"

definition printable :: "string \<Rightarrow> bool" where
  "printable s = (\<forall>c \<in> set s. 32 \<le> code c \<and> code c < 127)"

fun item_ok :: "file_item \<Rightarrow> bool" where
  "item_ok (Field n v) = (token n \<and> hd n \<noteq> CHR ''#'' \<and> CHR '':'' \<notin> set n \<and> printable v)"
| "item_ok (Remark s) = printable s"

fun last_host :: "(string \<times> string) list \<Rightarrow> string option \<Rightarrow> string option" where
  "last_host [] h = h"
| "last_host ((n, v) # fs) h = last_host fs (if eq_icase n ''host'' then Some v else h)"

definition request_text :: "string \<Rightarrow> string \<Rightarrow> string" where
  "request_text m p = m @ '' '' @ p @ '' HTTP/1.1''"

definition file_head :: "string \<Rightarrow> string \<Rightarrow> string \<Rightarrow> file_item list \<Rightarrow> bytes" where
  "file_head e m p items = join (e @ [LF]) (request_text m p # map item_line items)"

definition request_file :: "string \<Rightarrow> string \<Rightarrow> string \<Rightarrow> file_item list \<Rightarrow> bytes \<Rightarrow> bytes" where
  "request_file e m p items body = file_head e m p items @ e @ LF # e @ LF # body"

text \<open>A text in which the template engine sees no expression and no escape.\<close>

definition literal_text :: "string \<Rightarrow> bool" where
  "literal_text s = (find_sub ''{{'' s = None \<and> find_sub ''}}}}'' s = None)"

definition text_template :: "string \<Rightarrow> template" where
  "text_template s = (if s = [] then template_empty else template_literal s)"

lemma compile_literal_loop:
  "literal_text s \<Longrightarrow> compile_loop W i s lit parts st = (st, Inr (flush_literal (lit @ s) parts))"
proof (induction s arbitrary: i lit)
  case Nil
  then show ?case by (simp add: compile_loop.simps)
next
  case (Cons c s)
  have "\<not> (c = CHR ''{'' \<and> is_prefix ''{'' s)" "\<not> (c = CHR ''}'' \<and> is_prefix ''}}}'' s)" "literal_text s"
    using Cons.prems by (auto simp: literal_text_def split: if_splits)
  then show ?case using Cons.IH by (subst compile_loop.simps) (simp only: list.case if_False, simp)
qed

lemma compile_literal: "literal_text s \<Longrightarrow> compile_template W s st = (st, Inr (text_template s))"
  by (simp add: compile_template_def compile_literal_loop flush_literal_def text_template_def
      coalesce_literals_def template_empty_def template_literal_def)

lemma printable_fresh: "printable s \<Longrightarrow> CR \<notin> set s \<and> LF \<notin> set s"
  by (auto simp: printable_def code_def)

lemma token_printable: "token s \<Longrightarrow> printable s"
  by (auto simp: token_def printable_def visible_def)

lemma item_line_ok: "item_ok i \<Longrightarrow> file_line (item_line i)"
  using printable_fresh token_printable
  by (cases i) (auto simp: file_line_def dest: printable_fresh token_printable)

lemma item_printable: "item_ok i \<Longrightarrow> printable (item_line i)"
  by (cases i) (auto simp: printable_def token_def visible_def code_def)

lemma request_line_ok: "token m \<Longrightarrow> token p \<Longrightarrow> file_line (request_text m p)"
  using printable_fresh [OF token_printable, of m] printable_fresh [OF token_printable, of p]
  by (auto simp: file_line_def request_text_def)

lemma field_skip:
  assumes "item_ok (Field n v)"
  shows "trim (item_line (Field n v)) \<noteq> [] \<and> \<not> is_prefix ''#'' (trim (item_line (Field n v)))"
proof -
  obtain c r where n: "n = c # r" "visible c" "c \<noteq> CHR ''#''"
    using assms by (cases n) (auto simp: token_def)
  obtain s where "trim (c # (r @ '': '' @ v)) = c # s" using trim_starts [OF n(2)] by blast
  then show ?thesis using n by simp
qed

lemma remark_skip: "is_prefix ''#'' (trim (item_line (Remark s)))"
  using trim_starts [of "CHR ''#''" s] by (auto simp: visible_def code_def)

definition number_fields :: "nat \<Rightarrow> file_item list \<Rightarrow> (nat \<times> string) list" where
  "number_fields i items = filter (\<lambda>(n, l). \<not> is_prefix ''#'' l) (zip [Suc i..<Suc (i + length items)] (map item_line items))"

lemma number_fields_Cons:
  "number_fields i (it # items) =
     (if is_prefix ''#'' (item_line it) then [] else [(Suc i, item_line it)]) @ number_fields (Suc i) items"
proof -
  have "[Suc i..<Suc (i + length (it # items))] = Suc i # [Suc (Suc i)..<Suc (Suc i + length items)]"
    by (simp add: upt_rec)
  then show ?thesis by (simp add: number_fields_def del: upt_Suc)
qed

lemma scan_items:
  assumes "\<forall>i \<in> set items. item_ok i"
  shows "scan_lines i (map item_line items) (Some rl) hs = (Some rl, hs @ number_fields i items)"
  using assms
proof (induction items arbitrary: i hs)
  case Nil
  then show ?case by (simp add: number_fields_def)
next
  case (Cons it items)
  show ?case
  proof (cases it)
    case (Field n v)
    then have "\<not> is_prefix ''#'' (item_line it)" using Cons.prems by (cases n) (auto simp: token_def)
    then show ?thesis using Cons field_skip [of n v] Field
      by (simp add: number_fields_Cons Let_def del: item_line.simps)
  next
    case (Remark s)
    then have "is_prefix ''#'' (item_line it)" by simp
    then show ?thesis using Cons remark_skip [of s] Remark
      by (simp add: number_fields_Cons Let_def del: item_line.simps)
  qed
qed

lemma parse_items:
  assumes "\<forall>i \<in> set items. item_ok i"
  shows "parse_header_lines source (number_fields i items) hv acc
       = Inr (last_host (item_fields items) hv, acc @ item_fields items)"
  using assms
proof (induction items arbitrary: i hv acc)
  case Nil
  then show ?case by (simp add: number_fields_def)
next
  case (Cons it items)
  show ?case
  proof (cases it)
    case (Field n v)
    then have f: "\<not> is_prefix ''#'' (item_line it)" "token n" "CHR '':'' \<notin> set n"
      using Cons.prems by (cases n; auto simp: token_def)+
    have "split_once (CHR '':'') (n @ CHR '':'' # CHR '' '' # v) = Some (n, CHR '' '' # v)"
      by (rule split_once_fresh [OF f(3)])
    then show ?thesis using Cons f Field trim_token [OF f(2)]
      by (simp add: number_fields_Cons Let_def) (auto simp: token_def)
  next
    case (Remark s)
    then show ?thesis using Cons by (simp add: number_fields_Cons)
  qed
qed

lemma parse_request_text:
  assumes "token m" "token p" "pm m = Some m"
  shows "parse_request_line pm (request_text m p) source n = Inr (m, p, ''HTTP/1.1'')"
proof -
  have "token ''HTTP/1.1''" by (simp add: token_def visible_def code_def)
  then have "ws_tokens [] (m @ CHR '' '' # p @ CHR '' '' # ''HTTP/1.1'') = [m, p, ''HTTP/1.1'']"
    using assms by (simp add: ws_tokens_token ws_tokens_last)
  then show ?thesis using assms(3)
    by (simp add: parse_request_line_def split_whitespace_def request_text_def)
qed

lemma trim_request_text:
  assumes "token m"
  shows "trim (request_text m p) = request_text m p" "\<not> is_prefix ''#'' m \<Longrightarrow> \<not> is_prefix ''#'' (request_text m p)"
proof -
  obtain c r where m: "m = c # r" "visible c" using assms by (cases m) (auto simp: token_def)
  have "List.last (request_text m p) = CHR ''1''" by (simp add: request_text_def)
  then show "trim (request_text m p) = request_text m p"
    using m by (intro trim_plain) (auto simp: request_text_def visible_def code_def)
  show "\<not> is_prefix ''#'' m \<Longrightarrow> \<not> is_prefix ''#'' (request_text m p)"
    using m by (simp add: request_text_def)
qed

lemma scan_file:
  assumes "token m" "\<not> is_prefix ''#'' m" "\<forall>i \<in> set items. item_ok i"
  shows "scan_lines 0 (request_text m p # map item_line items) None []
       = (Some (1, request_text m p), number_fields 1 items)"
  using trim_request_text [OF assms(1), of p] assms(2) scan_items [OF assms(3), of 1]
  by (simp add: Let_def request_text_def)

lemma file_lines:
  assumes "token m" "token p" "\<forall>i \<in> set items. item_ok i"
  shows "\<forall>l \<in> set (request_text m p # map item_line items). file_line l"
  using assms request_line_ok item_line_ok by auto

lemma join_set: "set (join sep ls) \<subseteq> set sep \<union> \<Union> (set (map set ls))"
  by (induction sep ls rule: join.induct) auto

lemma file_head_ascii:
  assumes "eol_ok e" "token m" "token p" "\<forall>i \<in> set items. item_ok i"
  shows "valid_utf8 (file_head e m p items)"
proof -
  have "printable (request_text m p)"
    using token_printable [OF assms(2)] token_printable [OF assms(3)]
    by (auto simp: request_text_def printable_def code_def)
  then have "\<forall>l \<in> set (request_text m p # map item_line items). \<forall>c \<in> set l. code c < 128"
    using assms(4) item_printable by (fastforce simp: printable_def)
  moreover have "\<forall>c \<in> set (e @ [LF]). code c < 128" using assms(1) by (auto simp: eol_ok_def code_def)
  ultimately have "\<forall>c \<in> set (file_head e m p items). code c < 128"
    using join_set [of "e @ [LF]" "request_text m p # map item_line items"]
    unfolding file_head_def by (auto 0 4)
  then show ?thesis by (rule valid_utf8_ascii)
qed

text \<open>What is left of a written file after scanning: the choice of the target and the templates.\<close>

lemma parse_written:
  assumes "eol_ok e" "token m" "\<not> is_prefix ''#'' m" "pm m = Some m" "token p" "\<forall>i \<in> set items. item_ok i"
    and "e = [] \<Longrightarrow> find_sub (CRLF @ CRLF) body = None"
  shows "parse_request_bytes W pm (request_file e m p items body) source st =
     (case choose_target p (last_host (item_fields items) None) source of
        Inl err \<Rightarrow> (st, Inl err)
      | Inr (tgt, full) \<Rightarrow> compile_request W source m tgt full (item_fields items) body st)"
proof -
  let ?ls = "request_text m p # map item_line items"
  let ?h = "file_head e m p items"
  have ls: "\<forall>l \<in> set ?ls. file_line l" using file_lines [OF assms(2,5,6)] .
  have split: "find_header_body_split (request_file e m p items body) = (length ?h, length ?h + 2 * length (e @ [LF]))"
    using split_written [OF assms(1) _ ls assms(7)] unfolding request_file_def file_head_def by simp
  have head: "take (length ?h) (request_file e m p items body) = ?h" by (simp add: request_file_def)
  have rest: "drop (length ?h + 2 * length (e @ [LF])) (request_file e m p items body) = body"
    by (simp add: request_file_def)
  have lines: "str_lines ?h = ?ls"
    using str_lines_join [OF assms(1) _ ls] by (simp add: file_head_def)
  have ne: "request_file e m p items body \<noteq> []" by (simp add: request_file_def)
  have v: "validate_version ''HTTP/1.1'' source 1 = Inr ()" by (simp add: validate_version_def)
  have one: "(0::nat) < 2 * length (e @ [LF])" by simp
  show ?thesis
    unfolding parse_request_bytes_def split Let_def prod.case head rest lines
    using ne file_head_ascii [OF assms(1,2,5,6)] one
    by (simp add: scan_file [OF assms(2,3,6)] parse_request_text [where pm = pm, OF assms(2,5,4)] v parse_items [OF assms(6)]
        del: One_nat_def scan_lines.simps)
qed

lemma compile_literal_headers:
  "\<forall>(n, v) \<in> set hs. literal_text n \<and> literal_text v \<Longrightarrow>
   compile_header_list W source hs st acc = (st, Inr (acc @ map (\<lambda>(n, v). (text_template n, text_template v)) hs))"
  by (induction hs arbitrary: acc) (auto simp: compile_literal)

lemma compile_literal_body:
  "literal_text body \<Longrightarrow> valid_utf8 body \<Longrightarrow>
   compile_body W source body st = (st, Inr (if body = [] then None else Some (BodyTemplate (text_template body))))"
  by (simp add: compile_body_def compile_literal)

section \<open>Properties\<close>

text \<open>What the parser returns for a written file of literal texts.\<close>

lemma request_file_read:
  assumes "eol_ok e" "token m" "\<not> is_prefix ''#'' m" "pm m = Some m" "token p" "\<forall>i \<in> set items. item_ok i"
    and "e = [] \<longrightarrow> find_sub (CRLF @ CRLF) body = None" "valid_utf8 body"
    and "looks_like_absolute_url p \<and> full = p
       \<or> \<not> looks_like_absolute_url p \<and> last_host (item_fields items) None = Some h \<and> token h \<and> full = ''http://'' @ h @ p"
    and "target_parse full = Inr tgt"
    and "literal_text full" "literal_text body" "\<forall>(n, v) \<in> set (item_fields items). literal_text n \<and> literal_text v"
  shows "parse_request_bytes W pm (request_file e m p items body) source st =
     (st, Inr \<lparr>pr_method = m, pr_target = tgt, pr_url = text_template full,
        pr_headers = map (\<lambda>(n, v). (text_template n, text_template v)) (item_fields items),
        pr_body = (if body = [] then None else Some (BodyTemplate (text_template body)))\<rparr>)"
proof -
  have "choose_target p (last_host (item_fields items) None) source = Inr (tgt, full)"
    using assms(9,10) trim_token [of h] by (auto simp: choose_target_def token_def)
  then show ?thesis
    using parse_written [where pm = pm and body = body and W = W and source = source and st = st, OF assms(1-6)] assms(7)
    by (simp add: compile_request_def compile_literal [OF assms(11)]
        compile_literal_headers [OF assms(13)] compile_literal_body [OF assms(12,8)])
qed

text \<open>
  Property C27. A written request file is read back: with LF or CRLF line ends, comments among the
  headers, any header values and any valid UTF-8 body, the parser returns the method, the URL made
  of the last \<open>Host\<close> header and the path (or the absolute URL of the request line), the
  headers in order with their exact values, and the body, and leaves the registry alone. (Texts
  with template expressions are compiled instead, in the same order.) A file with LF line ends
  may not have an empty CRLF line in its body.
\<close>

theorem request_file_roundtrip:
  assumes "eol_ok e" "token m" "\<not> is_prefix ''#'' m" "pm m = Some m" "token p" "\<forall>i \<in> set items. item_ok i"
    and "e = [] \<longrightarrow> find_sub (CRLF @ CRLF) body = None" "valid_utf8 body"
    and "looks_like_absolute_url p \<and> full = p
       \<or> \<not> looks_like_absolute_url p \<and> last_host (item_fields items) None = Some h \<and> token h \<and> full = ''http://'' @ h @ p"
    and "target_parse full = Inr tgt"
    and "literal_text full" "literal_text body" "\<forall>(n, v) \<in> set (item_fields items). literal_text n \<and> literal_text v"
  shows "parse_request_bytes W pm (request_file e m p items body) source st =
     (st, Inr \<lparr>pr_method = m, pr_target = tgt, pr_url = text_template full,
        pr_headers = map (\<lambda>(n, v). (text_template n, text_template v)) (item_fields items),
        pr_body = (if body = [] then None else Some (BodyTemplate (text_template body)))\<rparr>)"
  by (rule request_file_read [where pm = pm, OF assms])

lemma request_file_roundtrip_witness:
  "parse_request_bytes demo_world Some
     (request_file [CR] ''POST'' ''/a'' [Field ''Host'' ''h:81'', Remark '' x: y'', Field ''X'' ''1 ''] ''{}'')
     ''f.http'' \<lparr>co_vars = registry_new, co_cursors = 0\<rparr> =
   (\<lparr>co_vars = registry_new, co_cursors = 0\<rparr>,
    Inr \<lparr>pr_method = ''POST'',
      pr_target = \<lparr>tg_host = ''h'', tg_port = 81, tg_tls = False, tg_sni = None, tg_family = FamAny\<rparr>,
      pr_url = text_template ''http://h:81/a'',
      pr_headers = [(text_template ''Host'', text_template ''h:81''), (text_template ''X'', text_template ''1 '')],
      pr_body = Some (BodyTemplate (text_template ''{}''))\<rparr>)"
proof -
  have t: "target_parse ''http://h:81/a'' =
     Inr \<lparr>tg_host = ''h'', tg_port = 81, tg_tls = False, tg_sni = None, tg_family = FamAny\<rparr>"
    by (simp add: target_parse_def split_once_str_def scheme_tls_def url_delim_def split_authority_def
        rsplit_once_def rfind_pos_def parse_u16_def parse_uint_def digit_val_def code_def Let_def)
  have u: "valid_utf8 ''{}''" by (rule valid_utf8_ascii) (simp add: code_def)
  have i: "\<forall>i \<in> set [Field ''Host'' ''h:81'', Remark '' x: y'', Field ''X'' ''1 '']. item_ok i"
    by (simp add: token_def visible_def code_def printable_def)
  have k: "token ''POST''" "token ''/a''" "token ''h:81''" by (simp_all add: token_def visible_def code_def)
  have n: "\<not> looks_like_absolute_url ''/a''" by (simp add: looks_like_absolute_url_def)
  have h: "last_host (item_fields [Field ''Host'' ''h:81'', Remark '' x: y'', Field ''X'' ''1 '']) None = Some ''h:81''"
    by code_simp
  have l: "literal_text ''http://h:81/a''" "literal_text ''{}''"
    "\<forall>(n, v) \<in> set (item_fields [Field ''Host'' ''h:81'', Remark '' x: y'', Field ''X'' ''1 '']).
       literal_text n \<and> literal_text v"
    by (simp_all add: literal_text_def)
  have o: "looks_like_absolute_url ''/a'' \<and> ''http://h:81/a'' = ''/a''
     \<or> \<not> looks_like_absolute_url ''/a''
       \<and> last_host (item_fields [Field ''Host'' ''h:81'', Remark '' x: y'', Field ''X'' ''1 '']) None = Some ''h:81''
       \<and> token ''h:81'' \<and> ''http://h:81/a'' = ''http://'' @ ''h:81'' @ ''/a''"
    using n h k by simp
  have e: "eol_ok [CR]" by (simp add: eol_ok_def)
  show ?thesis
    using request_file_roundtrip [where pm = Some and W = demo_world and source = "''f.http''" and body = "''{}''"
        and st = "\<lparr>co_vars = registry_new, co_cursors = 0\<rparr>", OF e k(1) _ _ k(2) i _ u o t l(1,2,3)]
    by simp
qed

text \<open>Heads without a blank line.\<close>

lemma join_snoc: "ls \<noteq> [] \<Longrightarrow> join sep (ls @ [l]) = join sep ls @ sep @ l"
  by (induction sep ls rule: join.induct) auto

lemma find_sub_absent: "n \<noteq> [] \<Longrightarrow> hd n \<notin> set s \<Longrightarrow> find_sub n s = None"
  using find_sub_skip [of n s "[]"] by simp

lemma join_no_blank:
  assumes "eol_ok e" "ls \<noteq> []" "\<forall>l \<in> set ls. file_line l"
  shows "find_sub [LF, LF] (join (e @ [LF]) ls) = None \<and> find_sub (CRLF @ CRLF) (join (e @ [LF]) ls) = None"
  using assms(2,3)
proof (induction "e @ [LF]" ls rule: join.induct)
  case (2 l)
  then show ?case by (simp add: find_sub_absent file_line_def CRLF_def)
next
  case (3 l l' ls)
  obtain c r where c: "join (e @ [LF]) (l' # ls) = c # r" "c \<noteq> LF" "c \<noteq> CR"
    using 3 by (cases l'; cases ls) (auto simp: file_line_def)
  have IH: "find_sub [LF, LF] (c # r) = None" "find_sub (CRLF @ CRLF) (c # r) = None"
    using 3 c by simp_all
  have l: "CR \<notin> set l" "LF \<notin> set l" using 3 by (simp_all add: file_line_def)
  have j: "join (e @ [LF]) (l # l' # ls) = l @ e @ LF # c # r" using c by simp
  have "find_sub [LF, LF] (l @ e @ LF # c # r) = None"
    using find_sub_skip [of "[LF, LF]" "l @ e" "LF # c # r"] l eol_fresh [OF assms(1)] IH c by simp
  moreover have "find_sub (CRLF @ CRLF) (e @ LF # c # r) = None"
    using assms(1) IH(2) find_blank_shift [OF c(3), of r] by (auto simp: eol_ok_def) (simp_all add: CRLF_def)
  then have "find_sub (CRLF @ CRLF) (l @ e @ LF # c # r) = None"
    using find_sub_skip [of "CRLF @ CRLF" l "e @ LF # c # r"] l by (simp add: CRLF_def)
  ultimately show ?case unfolding j by simp
qed simp

lemma split_unended:
  assumes "eol_ok e" "token m" "token p" "\<forall>i \<in> set items. item_ok i"
  shows "find_header_body_split (file_head e m p items) = (length (file_head e m p items), length (file_head e m p items))"
  using join_no_blank [OF assms(1) _ file_lines [OF assms(2-4)]]
  by (simp add: find_header_body_split_def find_subseq_def file_head_def)

lemma trailing_unended:
  assumes "item_ok (Field n v)"
  shows "trailing_text (file_head e m p (items @ [Field n v]))"
proof -
  let ?l = "item_line (Field n v)"
  have "file_head e m p (items @ [Field n v])
      = (join (e @ [LF]) (request_text m p # map item_line items) @ e) @ LF # ?l"
    using join_snoc [of "request_text m p # map item_line items" "e @ [LF]" ?l]
    by (simp add: file_head_def)
  moreover have "\<forall>x \<in> set ?l. x \<noteq> LF" using item_line_ok [OF assms] by (auto simp: file_line_def simp del: item_line.simps)
  moreover obtain c r where c: "?l = c # r" "visible c" using assms by (cases n) (auto simp: token_def)
  then have "\<not> ascii_ws c" by (auto simp: visible_def ascii_ws_def)
  ultimately show ?thesis
    using rfind_pos_last [of "\<lambda>b. b = LF" LF ?l "join (e @ [LF]) (request_text m p # map item_line items) @ e"] c
    by (simp add: trailing_text_def Let_def del: item_line.simps)
qed

text \<open>
  A file without a blank line whose last header line is not ended is refused with
  the error for a missing blank line, although it has no body (the documentation of the error says
  such a file parses).
\<close>

lemma unended_file_refused:
  assumes "eol_ok e" "token m" "\<not> is_prefix ''#'' m" "pm m = Some m" "token p"
    and "\<forall>i \<in> set (items @ [Field n v]). item_ok i"
  shows "parse_request_bytes W pm (file_head e m p (items @ [Field n v])) source st = (st, Inl (RfMissingBlankLine source))"
proof -
  let ?is = "items @ [Field n v]"
  let ?h = "file_head e m p ?is"
  have ne: "?h \<noteq> []" by (cases "map item_line ?is") (simp_all add: file_head_def request_text_def)
  have lines: "str_lines ?h = request_text m p # map item_line ?is"
    using str_lines_join [OF assms(1) _ file_lines [OF assms(2,5,6)]] by (simp add: file_head_def)
  have f: "item_fields ?is \<noteq> []"
  proof (induction items)
    case (Cons a items)
    then show ?case by (cases a) simp_all
  qed simp
  have t: "trailing_text ?h" using assms(6) by (intro trailing_unended) simp
  have w: "validate_version ''HTTP/1.1'' source 1 = Inr ()" by (simp add: validate_version_def)
  show ?thesis
    unfolding parse_request_bytes_def split_unended [OF assms(1,2,5,6)] Let_def prod.case take_all [OF order_refl] lines
    using ne file_head_ascii [OF assms(1,2,5,6)] f t
    by (simp add: scan_file [OF assms(2,3,6)] parse_request_text [where pm = pm, OF assms(2,5,4)] w parse_items [OF assms(6)]
        del: One_nat_def map_append scan_lines.simps)
qed

end
