(* ===== verification/Cli.thy ===== *)
theory Cli
  imports RequestFile H1Common
begin

text \<open>
  The command line: the flag parsers of \<open>zerobench-cli/src/cli_args.rs\<close> and the construction of a
  plan in \<open>plan_from_cli.rs\<close>, from a URL, a request file or a directory of request files. Clap
  itself, Base64, the method grammar of the \<open>http\<close> crate, the file system and floating-point
  parsing and multiplication are parameters. Warnings on the error stream are left out.
\<close>

section \<open>Flag parsers\<close>

text \<open>
  Durations. Multiplying out minutes and hours wraps at 64 bits (the release profile has no
  overflow checks); adding two durations panics beyond \<open>2 ^ 64\<close> seconds.
\<close>

datatype duration_result = DurNone | DurPanic | DurOk duration

definition duration_limit :: nat where "duration_limit = 2 ^ 64 * 1000000000"

definition unit_duration :: "string \<Rightarrow> u64 \<Rightarrow> duration option" where
  "unit_duration unit n =
     (if unit = ''ns'' then Some (unat n)
      else if unit = ''us'' \<or> unit = [CHR 0xC2, CHR 0xB5, CHR ''s''] then Some (unat n * 1000)
      else if unit = ''ms'' then Some (unat n * 1000000)
      else if unit = ''s'' \<or> unit = [] then Some (secs (unat n))
      else if unit = ''m'' then Some (secs (unat (n * 60)))
      else if unit = ''h'' then Some (secs (unat (n * 3600)))
      else None)"

function duration_loop :: "string \<Rightarrow> duration \<Rightarrow> duration_result" where
  "duration_loop bs acc =
     (if bs = [] then DurOk acc
      else
        (let digits = takeWhile is_digit bs; rest = dropWhile is_digit bs in
         if digits = [] then DurNone
         else (case parse_uint 10 (2 ^ 64 - 1) digits of
            None \<Rightarrow> DurNone
          | Some n \<Rightarrow>
              (let unit = trim (takeWhile (\<lambda>c. \<not> is_digit c) rest) in
               case unit_duration unit (word_of_nat n) of
                 None \<Rightarrow> DurNone
               | Some d \<Rightarrow>
                   if duration_limit \<le> acc + d then DurPanic
                   else duration_loop (dropWhile (\<lambda>c. \<not> is_digit c) rest) (acc + d)))))"
  by pat_completeness auto
termination
proof (relation "measure (\<lambda>(bs, _). length bs)")
  fix bs :: string and acc :: duration and digits rest n unit d
  assume "bs \<noteq> []" "digits = takeWhile is_digit bs" "rest = dropWhile is_digit bs" "digits \<noteq> []"
  then have "length rest < length bs" by (cases bs) (auto simp: le_imp_less_Suc length_dropWhile_le split: if_splits)
  then have "length (dropWhile (\<lambda>c. \<not> is_digit c) rest) < length bs"
    using length_dropWhile_le [of "\<lambda>c. \<not> is_digit c" rest] by linarith
  then show "((dropWhile (\<lambda>c. \<not> is_digit c) rest, acc + d), bs, acc) \<in> measure (\<lambda>(bs, _). length bs)"
    by simp
qed simp

declare duration_loop.simps [simp del]

definition parse_duration :: "string \<Rightarrow> duration_result" where
  "parse_duration s0 = (let s = trim s0 in if s = [] then DurNone else duration_loop s 0)"

text \<open>
  Rates: \<open>fparse\<close> reads an \<open>f64\<close>, \<open>fmul\<close> multiplies by 1, 1000 or 1000000.
\<close>

datatype rate_scale = ByOne | ByThousand | ByMillion

datatype flag_error = FlagEmpty | FlagInvalid string

definition rate_positive :: "f64 \<Rightarrow> bool" where
  "rate_positive x = (0 < x \<and> x < 0x7FF0000000000000)"

definition parse_rate_flag ::
  "(string \<Rightarrow> f64 option) \<Rightarrow> (f64 \<Rightarrow> rate_scale \<Rightarrow> f64) \<Rightarrow> string \<Rightarrow> flag_error + f64" where
  "parse_rate_flag fparse fmul s0 =
     (let s = trim s0 in
      if s = [] then Inl FlagEmpty
      else
        (let c = List.last s;
             (num, mult) = (if c = CHR ''k'' \<or> c = CHR ''K'' then (butlast s, ByThousand)
                            else if c = CHR ''m'' \<or> c = CHR ''M'' then (butlast s, ByMillion)
                            else (s, ByOne))
         in case fparse num of
              None \<Rightarrow> Inl (FlagInvalid s)
            | Some n \<Rightarrow> (if \<not> rate_positive n then Inl (FlagInvalid s) else Inr (fmul n mult))))"

definition parse_header_flag :: "string \<Rightarrow> flag_error + (string \<times> string)" where
  "parse_header_flag s =
     (case split_once (CHR '':'') s of
        None \<Rightarrow> Inl (FlagInvalid s)
      | Some (name, val) \<Rightarrow> Inr (trim name, trim val))"

text \<open>Thresholds: finite and not negative (a negative zero counts as zero).\<close>

definition f64_finite :: "f64 \<Rightarrow> bool" where
  "f64_finite x = (unat x mod 2 ^ 63 < 0x7FF0000000000000)"

definition f64_negative :: "f64 \<Rightarrow> bool" where
  "f64_negative x = (0x8000000000000000 < x \<and> x \<le> 0xFFF0000000000000)"

definition parse_threshold_flag :: "(string \<Rightarrow> f64 option) \<Rightarrow> string \<Rightarrow> flag_error + f64" where
  "parse_threshold_flag fparse s =
     (case fparse s of
        None \<Rightarrow> Inl (FlagInvalid s)
      | Some n \<Rightarrow> (if \<not> f64_finite n \<or> f64_negative n then Inl (FlagInvalid s) else Inr n))"

fun sequence :: "'a option list \<Rightarrow> 'a list option" where
  "sequence [] = Some []"
| "sequence (None # xs) = None"
| "sequence (Some x # xs) = map_option (Cons x) (sequence xs)"

definition parse_status_list :: "string \<Rightarrow> flag_error + u16 list" where
  "parse_status_list s =
     (case sequence (map (\<lambda>t. parse_u16 (trim t)) (split_on (CHR '','') s)) of
        Some codes \<Rightarrow> Inr codes
      | None \<Rightarrow> Inl (FlagInvalid s))"

definition parse_basic_auth_flag :: "string \<Rightarrow> flag_error + string" where
  "parse_basic_auth_flag s =
     (if s = [] then Inl FlagEmpty
      else if CHR '':'' \<notin> set s then Inl (FlagInvalid s)
      else Inr s)"

text \<open>\<open>trim_start_matches(':')\<close> of the text from a colon on.\<close>

definition after_colons :: "string \<Rightarrow> string" where
  "after_colons s = dropWhile (\<lambda>c. c = CHR '':'') s"

definition parse_resolve_flag :: "string \<Rightarrow> flag_error + (string \<times> u16 \<times> string)" where
  "parse_resolve_flag s =
     (case rfind_pos (\<lambda>c. c = CHR '':'') s of
        None \<Rightarrow> Inl (FlagInvalid s)
      | Some lastc \<Rightarrow>
          (let head = take lastc s; addr = after_colons (drop lastc s) in
           case rfind_pos (\<lambda>c. c = CHR '':'') head of
             None \<Rightarrow> Inl (FlagInvalid s)
           | Some mid \<Rightarrow>
               (let host = take mid head; port_str = after_colons (drop mid head) in
                case parse_u16 port_str of
                  None \<Rightarrow> Inl (FlagInvalid s)
                | Some port \<Rightarrow>
                    if host = [] \<or> addr = [] then Inl FlagEmpty else Inr (host, port, addr))))"

section \<open>The arguments\<close>

datatype cli_color = ColorAlways | ColorAuto | ColorNever

datatype cli_http_version = CliAuto | CliH1 | CliH2

datatype cli_format = FmtTerminal | FmtJson | FmtJsonl | FmtProm

text \<open>\<open>'c\<close> is the type of the sub-commands, which the plan construction never reads.\<close>

record 'c cli_args =
  ca_command :: "'c option"
  ca_url :: "string option"
  ca_request_file :: "string option"
  ca_requests :: "string option"
  ca_threads :: nat
  ca_connections :: nat
  ca_duration :: duration
  ca_saturate :: bool
  ca_rate :: "f64 option"
  ca_warmup :: "duration option"
  ca_method :: "string option"
  ca_headers :: "(string \<times> string) list"
  ca_body :: "string option"
  ca_body_file :: "string option"
  ca_json :: "string option"
  ca_form :: "string option"
  ca_basic_auth :: "string option"
  ca_bearer :: "string option"
  ca_expect_status :: "u16 option"
  ca_expect_status_in :: "u16 list option"
  ca_http_version :: cli_http_version
  ca_http2_prior_knowledge :: bool
  ca_connect_timeout :: duration
  ca_request_timeout :: duration
  ca_insecure :: bool
  ca_resolve :: "(string \<times> u16 \<times> string) list"
  ca_color :: cli_color
  ca_format :: cli_format
  ca_tui :: bool
  ca_output :: "string option"
  ca_dry_run :: bool

section \<open>Building a plan\<close>

datatype build_error =
    BeTarget target_error
  | BeTemplate template_error
  | BeInvalidMethod string
  | BeIo string
  | BeRequestFile request_file_error
  | BeMissingInput
  | BeMultipleHosts string

text \<open>The surroundings of the construction.\<close>

record ('r, 'f) cli_world =
  cw_world :: "'r world"
  cw_files :: file_system
  cw_method :: "string \<Rightarrow> string option"
  cw_base64 :: "bytes \<Rightarrow> string"
  cw_toml :: "string \<Rightarrow> string + (string \<times> 'f option) list"
  cw_float :: "'f float_ops"
  cw_share :: "f64 \<Rightarrow> 'f \<Rightarrow> f64"

definition build_checks :: "'c cli_args \<Rightarrow> assertion list" where
  "build_checks args =
     (case ca_expect_status args of Some c \<Rightarrow> [StatusEq c] | None \<Rightarrow> [])
     @ (case ca_expect_status_in args of Some l \<Rightarrow> [StatusIn l] | None \<Rightarrow> [])"

definition pick_rate_profile :: "('r, 'f) cli_world \<Rightarrow> 'c cli_args \<Rightarrow> 'f \<Rightarrow> rate_profile" where
  "pick_rate_profile CW args weight =
     (if ca_saturate args then Saturate (ca_connections args)
      else (case ca_rate args of
              Some total_rps \<Rightarrow> Constant (cw_share CW total_rps weight)
            | None \<Rightarrow> Saturate (ca_connections args)))"

definition format_authority :: "target \<Rightarrow> string" where
  "format_authority t =
     (if tg_tls t then ''https'' else ''http'') @ ''://'' @ tg_host t @ '':'' @ dec (unat (tg_port t))"

text \<open>Compiling a header pair onto the list.\<close>

definition push_header ::
  "'r world \<Rightarrow> string \<Rightarrow> string \<Rightarrow> comp_state \<times> headers \<Rightarrow> build_error + (comp_state \<times> headers)" where
  "push_header W name val sh =
     (case compile_template W name (fst sh) of
        (st1, Inl e) \<Rightarrow> Inl (BeTemplate e)
      | (st1, Inr n) \<Rightarrow>
          (case compile_template W val st1 of
             (st2, Inl e) \<Rightarrow> Inl (BeTemplate e)
           | (st2, Inr v) \<Rightarrow> Inr (st2, snd sh @ [(n, v)])))"

fun push_user_headers ::
  "'r world \<Rightarrow> (string \<times> string) list \<Rightarrow> comp_state \<times> headers \<Rightarrow> build_error + (comp_state \<times> headers)" where
  "push_user_headers W [] sh = Inr sh"
| "push_user_headers W ((n, v) # hs) sh =
     (case push_header W n v sh of Inl e \<Rightarrow> Inl e | Inr sh' \<Rightarrow> push_user_headers W hs sh')"

definition user_has :: "string \<Rightarrow> (string \<times> string) list \<Rightarrow> bool" where
  "user_has name hs = list_ex (\<lambda>(n, _). eq_icase n name) hs"

definition push_auth_header ::
  "('r, 'f) cli_world \<Rightarrow> 'c cli_args \<Rightarrow> bool \<Rightarrow> comp_state \<times> headers \<Rightarrow> build_error + (comp_state \<times> headers)" where
  "push_auth_header CW args user_has_auth_header sh =
     (let auth_value = (case ca_basic_auth args of
             Some user_pass \<Rightarrow> Some (''Basic '' @ cw_base64 CW user_pass)
           | None \<Rightarrow> map_option (\<lambda>t. ''Bearer '' @ t) (ca_bearer args))
      in case auth_value of
           None \<Rightarrow> Inr sh
         | Some val \<Rightarrow>
             if user_has_auth_header then Inr sh
             else push_header (cw_world CW) ''Authorization'' val sh)"

definition push_content_type ::
  "'r world \<Rightarrow> string \<Rightarrow> (string \<times> string) list \<Rightarrow> comp_state \<times> headers \<Rightarrow> build_error + (comp_state \<times> headers)" where
  "push_content_type W ct user_headers sh =
     (if user_has ''Content-Type'' user_headers then Inr sh
      else push_header W ''Content-Type'' ct sh)"

definition text_body :: "'r world \<Rightarrow> string \<Rightarrow> comp_state \<times> headers \<Rightarrow> build_error + (comp_state \<times> headers \<times> body_source option)" where
  "text_body W s sh =
     (case compile_template W s (fst sh) of
        (st, Inl e) \<Rightarrow> Inl (BeTemplate e)
      | (st, Inr t) \<Rightarrow> Inr (st, snd sh, Some (BodyTemplate t)))"

text \<open>The body: inline, file, JSON, form, in this order of precedence.\<close>

definition build_body ::
  "('r, 'f) cli_world \<Rightarrow> 'c cli_args \<Rightarrow> comp_state \<times> headers
     \<Rightarrow> build_error + (comp_state \<times> headers \<times> body_source option)" where
  "build_body CW args sh =
     (let W = cw_world CW;
          typed = (\<lambda>ct s. case push_content_type W ct (ca_headers args) sh of
                     Inl e \<Rightarrow> Inl e | Inr sh' \<Rightarrow> text_body W s sh')
      in case ca_body args of
           Some s \<Rightarrow> text_body W s sh
         | None \<Rightarrow> (case ca_body_file args of
             Some path \<Rightarrow> (case fs_read (cw_files CW) path of
                 Inl e \<Rightarrow> Inl (BeIo e)
               | Inr bs \<Rightarrow> Inr (fst sh, snd sh, Some (BodyStatic bs)))
           | None \<Rightarrow> (case ca_json args of
               Some s \<Rightarrow> typed ''application/json'' s
             | None \<Rightarrow> (case ca_form args of
                 Some s \<Rightarrow> typed ''application/x-www-form-urlencoded'' s
               | None \<Rightarrow> Inr (fst sh, snd sh, None)))))"

definition has_body_hint :: "'c cli_args \<Rightarrow> bool" where
  "has_body_hint args =
     (ca_body args \<noteq> None \<or> ca_body_file args \<noteq> None \<or> ca_json args \<noteq> None \<or> ca_form args \<noteq> None)"

definition new_builder :: "'c cli_args \<Rightarrow> plan_builder" where
  "new_builder args = builder_new\<lparr>pb_duration := ca_duration args,
     pb_warmup := (case ca_warmup args of Some w \<Rightarrow> w | None \<Rightarrow> 0)\<rparr>"

definition comp_new :: comp_state where
  "comp_new = \<lparr>co_vars = registry_new, co_cursors = 0\<rparr>"

definition build_from_url ::
  "('r, 'f) cli_world \<Rightarrow> 'c cli_args \<Rightarrow> transport_opts \<Rightarrow> string \<Rightarrow> build_error + (plan \<times> target \<times> transport_opts)" where
  "build_from_url CW args opts url =
     (case target_parse url of
        Inl e \<Rightarrow> Inl (BeTarget e)
      | Inr tgt \<Rightarrow>
     (let method_raw = (case ca_method args of
             Some m \<Rightarrow> m
           | None \<Rightarrow> if has_body_hint args then ''POST'' else ''GET'')
      in case cw_method CW method_raw of
           None \<Rightarrow> Inl (BeInvalidMethod method_raw)
         | Some method \<Rightarrow>
     (case compile_template (cw_world CW) url comp_new of
        (st1, Inl e) \<Rightarrow> Inl (BeTemplate e)
      | (st1, Inr url_tpl) \<Rightarrow>
     (case push_user_headers (cw_world CW) (ca_headers args) (st1, []) of
        Inl e \<Rightarrow> Inl e
      | Inr sh \<Rightarrow>
     (case push_auth_header CW args (user_has ''Authorization'' (ca_headers args)) sh of
        Inl e \<Rightarrow> Inl e
      | Inr sh' \<Rightarrow>
     (case build_body CW args sh' of
        Inl e \<Rightarrow> Inl e
      | Inr (st, hs, body) \<Rightarrow>
          (let request = \<lparr>rq_method = method, rq_url = url_tpl, rq_headers = hs, rq_body = body,
                 rq_extract = [], rq_checks = build_checks args, rq_expect_streaming = False\<rparr>;
               rate = pick_rate_profile CW args (fo_one (cw_float CW));
               b = push_scenario (scenario_http_request ''cli'' rate request) (new_builder args)
           in Inr (builder_finalize (b\<lparr>pb_vars := co_vars st\<rparr>), tgt, opts))))))))"

definition parsed_plan :: "'c cli_args \<Rightarrow> parsed_request \<Rightarrow> request_plan" where
  "parsed_plan args p =
     \<lparr>rq_method = pr_method p, rq_url = pr_url p, rq_headers = pr_headers p, rq_body = pr_body p,
      rq_extract = [], rq_checks = build_checks args, rq_expect_streaming = False\<rparr>"

definition build_from_request_file ::
  "('r, 'f) cli_world \<Rightarrow> 'c cli_args \<Rightarrow> transport_opts \<Rightarrow> string \<Rightarrow> build_error + (plan \<times> target \<times> transport_opts)" where
  "build_from_request_file CW args opts path =
     (case fs_read (cw_files CW) path of
        Inl e \<Rightarrow> Inl (BeIo e)
      | Inr bs \<Rightarrow>
          (let source_name = utf8_or ''request-file'' (path_file_name path) in
           case parse_request_bytes (cw_world CW) (cw_method CW) bs source_name comp_new of
             (st, Inl e) \<Rightarrow> Inl (BeRequestFile e)
           | (st, Inr parsed) \<Rightarrow>
               (let rate = pick_rate_profile CW args (fo_one (cw_float CW));
                    name = utf8_or ''request'' (path_stem path);
                    b = push_scenario (scenario_http_request name rate (parsed_plan args parsed)) (new_builder args)
                in Inr (builder_finalize (b\<lparr>pb_vars := co_vars st\<rparr>), pr_target parsed, opts))))"

text \<open>The loop over a directory: scenarios, the file names with their authorities, the first target.\<close>

fun dir_loop ::
  "('r, 'f) cli_world \<Rightarrow> 'c cli_args \<Rightarrow> 'f scenario_entry list \<Rightarrow> comp_state \<Rightarrow> plan_builder
     \<Rightarrow> (string \<times> target) option \<Rightarrow> (string \<times> string) list
     \<Rightarrow> build_error + (comp_state \<times> plan_builder \<times> (string \<times> target) option \<times> (string \<times> string) list)" where
  "dir_loop CW args [] st b first summary = Inr (st, b, first, summary)"
| "dir_loop CW args (e # es) st b first summary =
     (case fs_read (cw_files CW) (se_file e) of
        Inl x \<Rightarrow> Inl (BeIo x)
      | Inr bs \<Rightarrow>
          (let source_name = utf8_or ''request-file'' (path_file_name (se_file e)) in
           case parse_request_bytes (cw_world CW) (cw_method CW) bs source_name st of
             (st', Inl x) \<Rightarrow> Inl (BeRequestFile x)
           | (st', Inr parsed) \<Rightarrow>
               (let rate = pick_rate_profile CW args (se_weight e);
                    b' = push_scenario (scenario_http_request (se_name e) rate (parsed_plan args parsed)) b;
                    first' = (case first of None \<Rightarrow> Some (source_name, pr_target parsed) | Some f \<Rightarrow> Some f)
                in dir_loop CW args es st' b' first'
                     (summary @ [(source_name, format_authority (pr_target parsed))]))))"

definition build_from_request_dir ::
  "('r, 'f) cli_world \<Rightarrow> 'c cli_args \<Rightarrow> transport_opts \<Rightarrow> string \<Rightarrow> (build_error + (plan \<times> target \<times> transport_opts)) option" where
  "build_from_request_dir CW args opts dir =
     (case parse_scenario_dir (cw_toml CW) (cw_files CW) (cw_float CW) dir of
        Inl e \<Rightarrow> Some (Inl (BeRequestFile e))
      | Inr entries \<Rightarrow>
          (if entries = [] then Some (Inl BeMissingInput)
           else (case dir_loop CW args entries comp_new (new_builder args) None [] of
              Inl e \<Rightarrow> Some (Inl e)
            | Inr (st, b, first_target, host_summary) \<Rightarrow>
                (case first_target of
                   None \<Rightarrow> None
                 | Some (first_file, first) \<Rightarrow>
                     (let first_authority = format_authority first in
                      if \<not> list_all (\<lambda>(_, a). a = first_authority) host_summary
                      then Some (Inl (BeMultipleHosts
                        (join [LF] ((''  '' @ first_file @ '': '' @ first_authority)
                           # map (\<lambda>(n, a). ''  '' @ n @ '': '' @ a) (filter (\<lambda>(n, _). n \<noteq> first_file) host_summary)))))
                      else Some (Inr (builder_finalize (b\<lparr>pb_vars := co_vars st\<rparr>), first, opts)))))))"

definition build_opts :: "'c cli_args \<Rightarrow> transport_opts" where
  "build_opts args =
     \<lparr>to_connect_timeout = ca_connect_timeout args, to_request_timeout = ca_request_timeout args,
      to_max_conns = ca_connections args, to_tcp_nodelay = True, to_insecure_tls = ca_insecure args,
      to_http_version = (if ca_http2_prior_knowledge args then HvHttp2
         else (case ca_http_version args of CliAuto \<Rightarrow> HvAuto | CliH1 \<Rightarrow> HvHttp1 | CliH2 \<Rightarrow> HvHttp2)),
      to_resolve_overrides = ca_resolve args\<rparr>"

text \<open>\<open>None\<close> is the panic of \<open>expect\<close> on the first target.\<close>

definition build :: "('r, 'f) cli_world \<Rightarrow> 'c cli_args \<Rightarrow> (build_error + (plan \<times> target \<times> transport_opts)) option" where
  "build CW args =
     (let opts = build_opts args in
      case ca_request_file args of
        Some path \<Rightarrow> Some (build_from_request_file CW args opts path)
      | None \<Rightarrow> (case ca_requests args of
          Some dir \<Rightarrow> build_from_request_dir CW args opts dir
        | None \<Rightarrow> (case ca_url args of
            None \<Rightarrow> Some (Inl BeMissingInput)
          | Some url \<Rightarrow> Some (build_from_url CW args opts url))))"

section \<open>Durations as users write them\<close>

datatype time_unit = Nanos | Micros | Millis | Seconds | Minutes | Hours

fun unit_text :: "time_unit \<Rightarrow> string" where
  "unit_text Nanos = ''ns''"
| "unit_text Micros = ''us''"
| "unit_text Millis = ''ms''"
| "unit_text Seconds = ''s''"
| "unit_text Minutes = ''m''"
| "unit_text Hours = ''h''"

fun unit_nanos :: "time_unit \<Rightarrow> nat" where
  "unit_nanos Nanos = 1"
| "unit_nanos Micros = 1000"
| "unit_nanos Millis = 1000000"
| "unit_nanos Seconds = 1000000000"
| "unit_nanos Minutes = 60000000000"
| "unit_nanos Hours = 3600000000000"

definition duration_text :: "(nat \<times> time_unit) list \<Rightarrow> string" where
  "duration_text ps = concat (map (\<lambda>(n, u). dec n @ unit_text u) ps)"

definition duration_value :: "(nat \<times> time_unit) list \<Rightarrow> duration" where
  "duration_value ps = sum_list (map (\<lambda>(n, u). n * unit_nanos u) ps)"

lemma unit_text_letters: "unit_text u \<noteq> [] \<and> (\<forall>c \<in> set (unit_text u). \<not> is_digit c) \<and> token (unit_text u)"
  by (cases u) (simp_all add: is_digit_def code_def token_def visible_def)

lemma unit_duration_exact:
  assumes "n * unit_nanos u < duration_limit" "n < 2 ^ 64"
  shows "unit_duration (unit_text u) (word_of_nat n) = Some (n * unit_nanos u)"
proof -
  have n: "unat (word_of_nat n :: u64) = n" using assms(2) by (simp add: unat_of_nat)
  have w: "unat (word_of_nat n * word_of_nat k :: u64) = n * k" if "n * k < 2 ^ 64" for k
    using that by (simp add: unat_of_nat flip: of_nat_mult)
  have "n * 60 < 2 ^ 64" if "u = Minutes" using assms(1) that by (simp add: duration_limit_def)
  moreover have "n * 3600 < 2 ^ 64" if "u = Hours" using assms(1) that by (simp add: duration_limit_def)
  ultimately show ?thesis using n w [of 60] w [of 3600]
    by (cases u) (simp_all add: unit_duration_def secs_def)
qed

lemma digits_then:
  assumes "\<forall>c \<in> set u. \<not> is_digit c" "u \<noteq> []"
  shows "takeWhile is_digit (dec n @ u @ r) = dec n" "dropWhile is_digit (dec n @ u @ r) = u @ r"
proof -
  have "takeWhile is_digit (u @ r) = []" "dropWhile is_digit (u @ r) = u @ r"
    using assms by (cases u; simp)+
  then show "takeWhile is_digit (dec n @ u @ r) = dec n" "dropWhile is_digit (dec n @ u @ r) = u @ r"
    using dec_digits [of n] by (simp_all add: takeWhile_append dropWhile_append)
qed

lemma unit_then:
  assumes "\<forall>c \<in> set u. \<not> is_digit c" "r = [] \<or> is_digit (hd r)"
  shows "takeWhile (\<lambda>c. \<not> is_digit c) (u @ r) = u" "dropWhile (\<lambda>c. \<not> is_digit c) (u @ r) = r"
  using assms by (cases r; simp add: takeWhile_append dropWhile_append)+

lemma duration_step:
  assumes "\<forall>c \<in> set u. \<not> is_digit c" "u \<noteq> []" "r = [] \<or> is_digit (hd r)" "n < 2 ^ 64"
    and "unit_duration (trim u) (word_of_nat n) = Some d"
  shows "duration_loop (dec n @ u @ r) acc = (if duration_limit \<le> acc + d then DurPanic else duration_loop r (acc + d))"
proof -
  have "parse_uint 10 (2 ^ 64 - 1) (dec n) = Some n" using assms(4) by (intro parse_uint_dec) simp
  then show ?thesis using assms(5)
    by (subst duration_loop.simps)
       (simp add: digits_then [OF assms(1,2)] unit_then [OF assms(1,3)] Let_def del: dropWhile_eq_Nil_conv)
qed

lemma duration_text_digit: "duration_text ps = [] \<or> is_digit (hd (duration_text ps))"
proof (cases ps)
  case (Cons p qs)
  obtain c r where "dec (fst p) = c # r" by (cases "dec (fst p)") auto
  then show ?thesis using Cons dec_digits [of "fst p"] by (cases p) (simp add: duration_text_def)
qed (simp add: duration_text_def)

lemma duration_loop_text:
  assumes "\<forall>(n, u) \<in> set ps. n < 2 ^ 64" "acc + duration_value ps < duration_limit"
  shows "duration_loop (duration_text ps) acc = DurOk (acc + duration_value ps)"
  using assms
proof (induction ps arbitrary: acc)
  case Nil
  then show ?case by (simp add: duration_text_def duration_value_def duration_loop.simps)
next
  case (Cons p ps)
  obtain n u where p: "p = (n, u)" by (cases p)
  have v: "duration_value (p # ps) = n * unit_nanos u + duration_value ps"
    and t: "duration_text (p # ps) = dec n @ unit_text u @ duration_text ps"
    by (simp_all add: p duration_value_def duration_text_def)
  have n: "n < 2 ^ 64" "n * unit_nanos u < duration_limit" using Cons.prems p v by auto
  have l: "\<forall>c \<in> set (unit_text u). \<not> is_digit c" "unit_text u \<noteq> []" "token (unit_text u)"
    using unit_text_letters by simp_all
  show ?case unfolding t
    using duration_step [OF l(1,2) duration_text_digit [of ps] n(1), of "n * unit_nanos u" acc]
      unit_duration_exact [OF n(2,1)] trim_token [OF l(3)] Cons v by (simp add: add.assoc)
qed

lemma duration_text_trim:
  assumes "ps \<noteq> []"
  shows "trim (duration_text ps) = duration_text ps" "duration_text ps \<noteq> []"
proof -
  have d: "visible c" if "is_digit c" for c using that by (simp add: is_digit_def visible_def)
  have "\<forall>c \<in> set (duration_text ps). visible c"
    using dec_digits d unit_text_letters by (fastforce simp: duration_text_def token_def)
  moreover show "duration_text ps \<noteq> []" using assms by (cases ps) (auto simp: duration_text_def)
  ultimately show "trim (duration_text ps) = duration_text ps"
    by (intro trim_token) (simp add: token_def)
qed

section \<open>Resolve overrides\<close>

lemma resolve_parts:
  assumes "CHR '':'' \<notin> set addr" "addr \<noteq> []" "CHR '':'' \<notin> set p" "p \<noteq> []"
  shows "parse_resolve_flag (host @ '':'' @ p @ '':'' @ addr) =
     (case parse_u16 p of
        None \<Rightarrow> Inl (FlagInvalid (host @ '':'' @ p @ '':'' @ addr))
      | Some port \<Rightarrow> if host = [] then Inl FlagEmpty else Inr (host, port, addr))"
proof -
  have 1: "rfind_pos (\<lambda>c. c = CHR '':'') ((host @ CHR '':'' # p) @ CHR '':'' # addr) = Some (length (host @ CHR '':'' # p))"
    using assms(1) by (intro rfind_pos_last) auto
  have 2: "rfind_pos (\<lambda>c. c = CHR '':'') (host @ CHR '':'' # p) = Some (length host)"
    using assms(3) by (intro rfind_pos_last) auto
  have 3: "after_colons (CHR '':'' # x) = x" if "CHR '':'' \<notin> set x" "x \<noteq> []" for x
    using that by (cases x) (auto simp: after_colons_def)
  show ?thesis using 1 2 3 [OF assms(1,2)] 3 [OF assms(3,4)] assms(2)
    by (simp add: parse_resolve_flag_def Let_def split: option.splits)
qed

section \<open>Plans of the command line\<close>

text \<open>Every scenario is one HTTP request.\<close>

definition request_scenario :: "scenario \<Rightarrow> bool" where
  "request_scenario sn = (case sn_steps sn of [Request _] \<Rightarrow> True | _ \<Rightarrow> False)"

definition request_plan_ok :: "plan \<Rightarrow> bool" where
  "request_plan_ok pl = (pl_scenarios pl \<noteq> [] \<and> list_all request_scenario (pl_scenarios pl))"

lemma request_scenarioD: "request_scenario sn \<Longrightarrow> \<exists>rq. sn_steps sn = [Request rq]"
  by (auto simp: request_scenario_def split: list.splits step.splits)

lemma request_plan_steps:
  assumes "request_plan_ok pl" "sn \<in> set (pl_scenarios pl)"
  shows "\<exists>rq. sn_steps sn = [Request rq]"
proof -
  have "request_scenario sn" using assms by (simp add: request_plan_ok_def list_all_iff)
  then show ?thesis by (rule request_scenarioD)
qed

lemma built_one:
  "request_plan_ok (builder_finalize (push_scenario (scenario_http_request name rate rq) (new_builder args)\<lparr>pb_vars := v\<rparr>))"
  by (simp add: request_plan_ok_def builder_finalize_def push_scenario_def scenario_http_request_def
      new_builder_def builder_new_def request_scenario_def)

lemma build_from_url_ok:
  "build_from_url CW args opts url = Inr (pl, tgt, opts') \<Longrightarrow> request_plan_ok pl \<and> length (pl_scenarios pl) = 1
     \<and> target_parse url = Inr tgt"
  by (auto simp: build_from_url_def Let_def built_one split: sum.splits option.splits prod.splits)
     (auto simp: builder_finalize_def push_scenario_def new_builder_def builder_new_def)

lemma build_from_request_file_ok:
  "build_from_request_file CW args opts path = Inr (pl, tgt, opts') \<Longrightarrow> request_plan_ok pl \<and> length (pl_scenarios pl) = 1"
  by (auto simp: build_from_request_file_def Let_def built_one split: sum.splits option.splits prod.splits)
     (auto simp: builder_finalize_def push_scenario_def new_builder_def builder_new_def)

subsection \<open>Directories\<close>

lemma format_authority_inj:
  assumes "format_authority t = format_authority u"
  shows "tg_tls t = tg_tls u \<and> tg_host t = tg_host u \<and> tg_port t = tg_port u"
proof -
  have tls: "tg_tls t = tg_tls u"
    using assms by (auto simp: format_authority_def split: if_splits)
  then have "tg_host t @ CHR '':'' # dec (unat (tg_port t)) = tg_host u @ CHR '':'' # dec (unat (tg_port u))"
    using assms by (auto simp: format_authority_def split: if_splits)
  then have "rsplit_once (CHR '':'') (tg_host t @ CHR '':'' # dec (unat (tg_port t)))
      = rsplit_once (CHR '':'') (tg_host u @ CHR '':'' # dec (unat (tg_port u)))" by simp
  then have e: "tg_host t = tg_host u" "dec (unat (tg_port t)) = dec (unat (tg_port u))"
    using rsplit_once_fresh [OF dec_no_delim(1)] by simp_all
  have "parse_u16 (dec (unat (tg_port t))) = parse_u16 (dec (unat (tg_port u)))" using e(2) by simp
  then show ?thesis using tls e(1) by (simp add: parse_u16_dec)
qed

text \<open>What a file of the directory was read as.\<close>

definition read_as :: "('r, 'f) cli_world \<Rightarrow> 'f scenario_entry \<Rightarrow> parsed_request \<Rightarrow> bool" where
  "read_as CW e p =
     (\<exists>bs st st'. fs_read (cw_files CW) (se_file e) = Inr bs
        \<and> parse_request_bytes (cw_world CW) (cw_method CW) bs (utf8_or ''request-file'' (path_file_name (se_file e))) st
            = (st', Inr p))"

definition entry_scenario :: "('r, 'f) cli_world \<Rightarrow> 'c cli_args \<Rightarrow> 'f scenario_entry \<times> parsed_request \<Rightarrow> scenario" where
  "entry_scenario CW args ep =
     scenario_http_request (se_name (fst ep)) (pick_rate_profile CW args (se_weight (fst ep))) (parsed_plan args (snd ep))"

lemma dir_loop_reads:
  assumes "dir_loop CW args es st b first sm = Inr (st', b', first', sm')"
  shows "\<exists>ps. length ps = length es \<and> list_all2 (read_as CW) es ps
    \<and> pb_scenarios b' = pb_scenarios b @ map (entry_scenario CW args) (zip es ps)
    \<and> map snd sm' = map snd sm @ map (\<lambda>p. format_authority (pr_target p)) ps
    \<and> map_option snd first' = (case first of Some f \<Rightarrow> Some (snd f)
         | None \<Rightarrow> (case ps of [] \<Rightarrow> None | p # _ \<Rightarrow> Some (pr_target p)))"
  using assms
proof (induction es arbitrary: st b first sm)
  case Nil
  then show ?case by (auto split: option.splits)
next
  case (Cons e es)
  obtain bs where bs: "fs_read (cw_files CW) (se_file e) = Inr bs"
    using Cons.prems by (cases "fs_read (cw_files CW) (se_file e)") simp_all
  let ?src = "utf8_or ''request-file'' (path_file_name (se_file e))"
  obtain st1 r where r: "parse_request_bytes (cw_world CW) (cw_method CW) bs ?src st = (st1, r)"
    by (cases "parse_request_bytes (cw_world CW) (cw_method CW) bs ?src st")
  obtain p where p: "r = Inr p" using Cons.prems bs r by (cases r) (simp_all add: Let_def)
  obtain ps where ps: "length ps = length es" "list_all2 (read_as CW) es ps"
    "pb_scenarios b' = pb_scenarios b @ [entry_scenario CW args (e, p)] @ map (entry_scenario CW args) (zip es ps)"
    "map snd sm' = map snd sm @ [format_authority (pr_target p)] @ map (\<lambda>p. format_authority (pr_target p)) ps"
    "map_option snd first' = Some (case first of Some f \<Rightarrow> snd f | None \<Rightarrow> pr_target p)"
    using Cons.prems bs r p Cons.IH
    by (force simp: Let_def push_scenario_def entry_scenario_def split: option.splits)
  have "read_as CW e p" using bs r p by (auto simp: read_as_def)
  then show ?case using ps by (intro exI [of _ "p # ps"]) (auto split: option.splits)
qed

lemma collect_found:
  "collect_entries ds acc = Inr found \<Longrightarrow>
   \<exists>xs. ds = map Inr xs \<and> found = acc @ map de_name (filter is_scenario_file xs)"
proof (induction ds acc rule: collect_entries.induct)
  case (3 d ds acc)
  then obtain xs where "ds = map Inr xs" "found = (if is_scenario_file d then acc @ [de_name d] else acc)
      @ map de_name (filter is_scenario_file xs)" by auto
  then show ?case by (intro exI [of _ "d # xs"]) simp
qed auto

lemma normalise_files [simp]: "map se_file (normalise_weights F es) = map se_file es" "map se_name (normalise_weights F es) = map se_name es"
  by (simp_all add: normalise_weights_def Let_def comp_def)

text \<open>The entries of a directory are its visible request files, in the order of their names.\<close>

lemma scenario_dir_files:
  assumes "parse_scenario_dir toml FS F dir = Inr es"
  shows "\<exists>xs. fs_read_dir FS dir = Inr (map Inr xs) \<and> es \<noteq> []
    \<and> map se_file es = map (path_join dir) (sort (map de_name (filter is_scenario_file xs)))"
proof -
  obtain ds where ds: "fs_read_dir FS dir = Inr ds"
    using assms by (auto simp: parse_scenario_dir_def split: if_splits sum.splits)
  obtain found where f: "collect_entries ds [] = Inr found"
    using assms ds by (auto simp: parse_scenario_dir_def split: if_splits sum.splits)
  obtain xs where xs: "ds = map Inr xs" "found = map de_name (filter is_scenario_file xs)"
    using collect_found [OF f] by auto
  have "sort found \<noteq> []" using assms ds f by (auto simp: parse_scenario_dir_def Let_def split: if_splits)
  moreover have "map se_file es = map (path_join dir) (sort found)"
    using assms ds f
    by (auto simp: parse_scenario_dir_def Let_def comp_def split: if_splits sum.splits option.splits)
  ultimately show ?thesis using ds xs by (intro exI [of _ xs]) auto
qed

lemma dir_built:
  assumes "build_from_request_dir CW args opts dir = Some (Inr (pl, tgt, opts'))"
  shows "\<exists>es ps. parse_scenario_dir (cw_toml CW) (cw_files CW) (cw_float CW) dir = Inr es
    \<and> list_all2 (read_as CW) es ps
    \<and> pl_scenarios pl = map (entry_scenario CW args) (zip es ps)
    \<and> (\<forall>p \<in> set ps. tg_tls (pr_target p) = tg_tls tgt \<and> tg_host (pr_target p) = tg_host tgt \<and> tg_port (pr_target p) = tg_port tgt)"
proof -
  obtain es where es: "parse_scenario_dir (cw_toml CW) (cw_files CW) (cw_float CW) dir = Inr es" "es \<noteq> []"
    using assms by (auto simp: build_from_request_dir_def split: sum.splits if_splits)
  obtain st b ft sm where l: "dir_loop CW args es comp_new (new_builder args) None [] = Inr (st, b, ft, sm)"
    using assms es by (auto simp: build_from_request_dir_def split: sum.splits)
  obtain ps where ps: "length ps = length es" "list_all2 (read_as CW) es ps"
    "pb_scenarios b = map (entry_scenario CW args) (zip es ps)"
    "map snd sm = map (\<lambda>p. format_authority (pr_target p)) ps"
    "map_option snd ft = (case ps of [] \<Rightarrow> None | p # _ \<Rightarrow> Some (pr_target p))"
    using dir_loop_reads [OF l] by (auto simp: new_builder_def builder_new_def)
  obtain f0 t0 where ft: "ft = Some (f0, t0)" using ps(1,5) es(2) by (cases ps; cases ft) auto
  have all: "list_all (\<lambda>(_, a). a = format_authority t0) sm"
    and r: "tgt = t0" "pl = builder_finalize (b\<lparr>pb_vars := co_vars st\<rparr>)"
    using assms es l ft by (auto simp: build_from_request_dir_def Let_def split: if_splits)
  have "\<forall>a \<in> set (map snd sm). a = format_authority tgt" using all r(1) by (auto simp: list_all_iff)
  then have "\<forall>p \<in> set ps. format_authority (pr_target p) = format_authority tgt" by (simp add: ps(4))
  then have "\<forall>p \<in> set ps. tg_tls (pr_target p) = tg_tls tgt \<and> tg_host (pr_target p) = tg_host tgt \<and> tg_port (pr_target p) = tg_port tgt"
    using format_authority_inj by blast
  then show ?thesis using es(1) ps(2,3) r(2)
    by (intro exI [of _ es] exI [of _ ps]) (simp add: builder_finalize_def)
qed

lemma dir_returns: "build_from_request_dir CW args opts dir \<noteq> None"
proof (cases "parse_scenario_dir (cw_toml CW) (cw_files CW) (cw_float CW) dir")
  case (Inl e)
  then show ?thesis by (simp add: build_from_request_dir_def)
next
  case (Inr es)
  show ?thesis
  proof (cases "es = []")
    case True
    then show ?thesis using Inr by (simp add: build_from_request_dir_def)
  next
    case ne: False
    show ?thesis
    proof (cases "dir_loop CW args es comp_new (new_builder args) None []")
      case (Inl e)
      then show ?thesis using Inr ne by (simp add: build_from_request_dir_def)
    next
      case l: (Inr q)
      obtain st b ft sm where q: "q = (st, b, ft, sm)" by (cases q) auto
      obtain ps :: "parsed_request list" where "length ps = length es" "map_option snd ft = (case ps of [] \<Rightarrow> None | p # _ \<Rightarrow> Some (pr_target p))"
        using dir_loop_reads [OF l [unfolded q], simplified] by blast
      then obtain f where "ft = Some f" using ne by (cases ps; cases ft) auto
      then show ?thesis using Inr ne l q by (cases f) (simp add: build_from_request_dir_def Let_def)
    qed
  qed
qed

lemma entry_scenario_request: "request_scenario (entry_scenario CW args ep)"
  by (simp add: entry_scenario_def scenario_http_request_def request_scenario_def)

lemma build_plan_ok:
  assumes "build CW args = Some (Inr (pl, tgt, opts))"
  shows "request_plan_ok pl"
proof -
  consider (one) p where "build_from_request_file CW args (build_opts args) p = Inr (pl, tgt, opts)"
    | (many) d where "build_from_request_dir CW args (build_opts args) d = Some (Inr (pl, tgt, opts))"
    | (from_url) u where "build_from_url CW args (build_opts args) u = Inr (pl, tgt, opts)"
    using assms by (auto simp: build_def Let_def split: option.splits)
  then show ?thesis
  proof cases
    case one
    then show ?thesis using build_from_request_file_ok by blast
  next
    case from_url
    then show ?thesis using build_from_url_ok by blast
  next
    case many
    obtain es ps where d: "parse_scenario_dir (cw_toml CW) (cw_files CW) (cw_float CW) d = Inr es"
      "list_all2 (read_as CW) es ps" "pl_scenarios pl = map (entry_scenario CW args) (zip es ps)"
      using dir_built [OF many] by blast
    have "es \<noteq> []" using scenario_dir_files [OF d(1)] by auto
    then have "zip es ps \<noteq> []" using list_all2_lengthD [OF d(2)] by (cases es; cases ps) auto
    then show ?thesis using d(3) entry_scenario_request
      by (auto simp: request_plan_ok_def list_all_iff)
  qed
qed

section \<open>Requests on the wire\<close>

lemma expand_text_template: "expand_into W (text_template s) out x = (out @ s, x)"
  by (simp add: text_template_def template_empty_def template_literal_def expand_into_def)

lemma expand_text_headers:
  "expand_headers W (map (\<lambda>(n, v). (text_template n, text_template v)) hs) (out, x)
     = (out @ concat (map (\<lambda>h. header_text h @ CRLF) hs), x)"
  by (induction hs arbitrary: out) (auto simp: expand_text_template header_text_def)

lemma connection_text:
  "\<forall>(n, v) \<in> set hs. n \<noteq> [] \<Longrightarrow>
   user_has_connection (map (\<lambda>(n, v). (text_template n, text_template v)) hs) = user_has ''connection'' hs"
  by (induction hs) (auto simp: user_has_connection_def user_has_def text_template_def static_literal_def template_literal_def)

definition plain_lines :: "string \<Rightarrow> string \<Rightarrow> target \<Rightarrow> (string \<times> string) list \<Rightarrow> bytes \<Rightarrow> string list" where
  "plain_lines m p t hs body =
     [m @ '' '' @ p @ '' HTTP/1.1'', ''Host: '' @ target_addr t]
     @ (if user_has ''connection'' hs then [] else [''Connection: keep-alive''])
     @ map header_text hs
     @ (if body = [] then [] else [''Content-Length: '' @ dec (length body)])"

lemma wire_of_text_request:
  assumes "rq_method pl = m" "rq_url pl = text_template url" "origin_form url = p"
    and "rq_headers pl = map (\<lambda>(n, v). (text_template n, text_template v)) hs" "\<forall>(n, v) \<in> set hs. n \<noteq> []"
    and "rq_body pl = (if body = [] then None else Some (BodyTemplate (text_template body)))"
  shows "fst (build_raw_request W pl t KeepAlive [] (c, g)) = http_head (plain_lines m p t hs body) @ body"
  using assms
  by (simp add: build_raw_request_def Let_def expand_text_template expand_text_headers connection_text
      plain_lines_def http_head_def content_length_line_def comp_def)

section \<open>What a command line asks for\<close>

text \<open>The headers and the body of a URL run, as texts.\<close>

definition auth_pair :: "('r, 'f) cli_world \<Rightarrow> 'c cli_args \<Rightarrow> (string \<times> string) list" where
  "auth_pair CW args =
     (if user_has ''Authorization'' (ca_headers args) then []
      else (case ca_basic_auth args of
              Some up \<Rightarrow> [(''Authorization'', ''Basic '' @ cw_base64 CW up)]
            | None \<Rightarrow> (case ca_bearer args of
                Some t \<Rightarrow> [(''Authorization'', ''Bearer '' @ t)] | None \<Rightarrow> [])))"

definition type_pair :: "'c cli_args \<Rightarrow> (string \<times> string) list" where
  "type_pair args =
     (if user_has ''Content-Type'' (ca_headers args) \<or> ca_body args \<noteq> None then []
      else if ca_json args \<noteq> None then [(''Content-Type'', ''application/json'')]
      else if ca_form args \<noteq> None then [(''Content-Type'', ''application/x-www-form-urlencoded'')]
      else [])"

definition url_headers :: "('r, 'f) cli_world \<Rightarrow> 'c cli_args \<Rightarrow> (string \<times> string) list" where
  "url_headers CW args = ca_headers args @ auth_pair CW args @ type_pair args"

definition url_body :: "'c cli_args \<Rightarrow> string option" where
  "url_body args =
     (case ca_body args of Some s \<Rightarrow> Some s
      | None \<Rightarrow> (case ca_json args of Some s \<Rightarrow> Some s | None \<Rightarrow> ca_form args))"

definition url_method :: "'c cli_args \<Rightarrow> string" where
  "url_method args = (case ca_method args of Some m \<Rightarrow> m
     | None \<Rightarrow> if url_body args \<noteq> None then ''POST'' else ''GET'')"

abbreviation lit_header :: "string \<times> string \<Rightarrow> template \<times> template" where
  "lit_header \<equiv> \<lambda>(n, v). (text_template n, text_template v)"

definition lit_pair :: "string \<times> string \<Rightarrow> bool" where
  "lit_pair h = (fst h \<noteq> [] \<and> literal_text (fst h) \<and> literal_text (snd h))"

lemma push_header_text:
  "lit_pair (n, v) \<Longrightarrow> push_header W n v (st, hs) = Inr (st, hs @ [lit_header (n, v)])"
  by (simp add: push_header_def compile_literal lit_pair_def)

lemma push_user_text:
  "list_all lit_pair us \<Longrightarrow> push_user_headers W us (st, hs) = Inr (st, hs @ map lit_header us)"
  by (induction us arbitrary: hs) (auto simp: push_header_text)

lemma push_auth_text:
  "list_all lit_pair (auth_pair CW args) \<Longrightarrow>
   push_auth_header CW args (user_has ''Authorization'' (ca_headers args)) (st, hs) = Inr (st, hs @ map lit_header (auth_pair CW args))"
  by (auto simp: push_auth_header_def auth_pair_def push_header_text Let_def split: option.splits)

lemma text_body_text:
  "literal_text s \<Longrightarrow> text_body W s (st, hs) = Inr (st, hs, Some (BodyTemplate (text_template s)))"
  by (simp add: text_body_def compile_literal)

lemma lit_types: "lit_pair (''Content-Type'', ''application/json'')" "lit_pair (''Content-Type'', ''application/x-www-form-urlencoded'')"
  by (simp_all add: lit_pair_def literal_text_def)

lemma build_body_text:
  assumes "ca_body_file args = None" "\<forall>s. url_body args = Some s \<longrightarrow> literal_text s"
  shows "build_body CW args (st, hs) = Inr (st, hs @ map lit_header (type_pair args),
     map_option (\<lambda>s. BodyTemplate (text_template s)) (url_body args))"
  using assms lit_types
  by (auto simp: build_body_def url_body_def type_pair_def push_content_type_def push_header_text text_body_text Let_def
      split: option.splits)

lemma build_url_text:
  assumes "ca_body_file args = None" "\<forall>s. url_body args = Some s \<longrightarrow> literal_text s"
    and "list_all lit_pair (url_headers CW args)" "literal_text url" "target_parse url = Inr tgt"
    and "cw_method CW (url_method args) = Some m"
  shows "\<exists>pl. build_from_url CW args opts url = Inr (pl, tgt, opts)
    \<and> pl_scenarios pl = [scenario_http_request ''cli'' (pick_rate_profile CW args (fo_one (cw_float CW)))
         \<lparr>rq_method = m, rq_url = text_template url, rq_headers = map lit_header (url_headers CW args),
          rq_body = map_option (\<lambda>s. BodyTemplate (text_template s)) (url_body args), rq_extract = [],
          rq_checks = build_checks args, rq_expect_streaming = False\<rparr>]
    \<and> pl_duration pl = ca_duration args"
proof -
  have hint: "has_body_hint args = (url_body args \<noteq> None)"
    using assms(1) by (auto simp: has_body_hint_def url_body_def split: option.splits)
  have m: "cw_method CW (case ca_method args of Some m \<Rightarrow> m | None \<Rightarrow> if has_body_hint args then ''POST'' else ''GET'') = Some m"
    using assms(6) unfolding url_method_def hint .
  have l: "list_all lit_pair (ca_headers args)" "list_all lit_pair (auth_pair CW args)"
    using assms(3) by (simp_all add: url_headers_def)
  show ?thesis
    by (simp add: build_from_url_def assms(5) m compile_literal [OF assms(4)] push_user_text [OF l(1)]
        push_auth_text [OF l(2)] build_body_text [OF assms(1,2)] url_headers_def push_scenario_def
        builder_finalize_def new_builder_def builder_new_def)
qed

lemma last_host_in:
  "last_host fs h0 = Some h \<Longrightarrow> h0 = Some h \<or> (\<exists>n v. (n, v) \<in> set fs \<and> eq_icase n ''host'')"
proof (induction fs h0 rule: last_host.induct)
  case (2 n v fs h0)
  then have "(if eq_icase n ''host'' then Some v else h0) = Some h \<or> (\<exists>n v. (n, v) \<in> set fs \<and> eq_icase n ''host'')"
    by simp
  then show ?case by (cases "eq_icase n ''host''") auto
qed simp

section \<open>Properties\<close>

text \<open>
  A plan built from the command line, from a URL, a request file or a directory, has
  at least one scenario, and every scenario is a single HTTP request; the construction returns (the
  \<open>expect\<close> on the first target of a directory never fails).
\<close>

lemma cli_plan_shape:
  "build CW args \<noteq> None
   \<and> (\<forall>pl tgt opts. build CW args = Some (Inr (pl, tgt, opts)) \<longrightarrow>
        pl_scenarios pl \<noteq> [] \<and> (\<forall>sn \<in> set (pl_scenarios pl). \<exists>rq. sn_steps sn = [Request rq]))"
proof -
  have "build CW args \<noteq> None" using dir_returns by (auto simp: build_def Let_def split: option.splits)
  then show ?thesis using build_plan_ok [of CW args] request_scenarioD
    by (auto simp: request_plan_ok_def list_all_iff)
qed

text \<open>Arguments and surroundings for the examples; all weights are one number.\<close>

definition demo_args :: "unit cli_args" where
  "demo_args = \<lparr>ca_command = None, ca_url = Some ''http://h:81/a'', ca_request_file = None, ca_requests = None,
     ca_threads = 1, ca_connections = 50, ca_duration = secs 30, ca_saturate = False, ca_rate = None, ca_warmup = None,
     ca_method = None, ca_headers = [(''X'', ''1'')], ca_body = None, ca_body_file = None, ca_json = Some ''{}'',
     ca_form = None, ca_basic_auth = None, ca_bearer = Some ''k'', ca_expect_status = Some 200,
     ca_expect_status_in = None, ca_http_version = CliAuto, ca_http2_prior_knowledge = False,
     ca_connect_timeout = secs 5, ca_request_timeout = secs 30, ca_insecure = False, ca_resolve = [],
     ca_color = ColorAuto, ca_format = FmtTerminal, ca_tui = False, ca_output = None, ca_dry_run = False\<rparr>"

definition demo_file :: bytes where
  "demo_file = request_file [] ''POST'' ''/a'' [Field ''Host'' ''h:81''] ''{}''"

definition demo_cli :: "(nat, unit) cli_world" where
  "demo_cli = \<lparr>cw_world = demo_world,
     cw_files = \<lparr>fs_is_dir = (\<lambda>d. d = ''d''),
       fs_read_dir = (\<lambda>d. Inr [Inr \<lparr>de_name = ''b.http'', de_is_file = True\<rparr>, Inr \<lparr>de_name = ''a.http'', de_is_file = True\<rparr>]),
       fs_exists = (\<lambda>_. False), fs_read = (\<lambda>_. Inr demo_file), fs_read_to_string = (\<lambda>_. Inl ''no file''), fs_hash_order = (\<lambda>ks. ks)\<rparr>,
     cw_method = Some, cw_base64 = (\<lambda>b. b), cw_toml = (\<lambda>_. Inr []),
     cw_float = \<lparr>fo_zero = (), fo_one = (), fo_of_nat = (\<lambda>_. ()), fo_sum = (\<lambda>_. ()), fo_div = (\<lambda>_ _. ()),
       fo_max = (\<lambda>_ _. ()), fo_nonpos = (\<lambda>_. False), fo_finite = (\<lambda>_. True)\<rparr>,
     cw_share = (\<lambda>r w. r)\<rparr>"

lemma demo_url_target:
  "target_parse ''http://h:81/a'' = Inr \<lparr>tg_host = ''h'', tg_port = 81, tg_tls = False, tg_sni = None, tg_family = FamAny\<rparr>"
  by (simp add: target_parse_def split_once_str_def scheme_tls_def url_delim_def split_authority_def
      rsplit_once_def rfind_pos_def parse_u16_def parse_uint_def digit_val_def code_def Let_def)

lemma demo_url_built:
  "\<exists>pl. build demo_cli demo_args = Some (Inr (pl, \<lparr>tg_host = ''h'', tg_port = 81, tg_tls = False, tg_sni = None, tg_family = FamAny\<rparr>,
      build_opts demo_args))"
proof -
  have "user_has ''Authorization'' [(''X'', ''1'')] = False" "user_has ''Content-Type'' [(''X'', ''1'')] = False"
    by (simp_all add: user_has_def eq_icase_def)
  then have h: "list_all lit_pair (url_headers demo_cli demo_args)"
    by (simp add: url_headers_def auth_pair_def type_pair_def demo_args_def lit_pair_def literal_text_def)
  have "\<exists>pl. build_from_url demo_cli demo_args (build_opts demo_args) ''http://h:81/a''
      = Inr (pl, \<lparr>tg_host = ''h'', tg_port = 81, tg_tls = False, tg_sni = None, tg_family = FamAny\<rparr>, build_opts demo_args)"
    using build_url_text [OF _ _ h _ demo_url_target, of "url_method demo_args"]
    by (auto simp: demo_args_def demo_cli_def url_body_def literal_text_def)
  then show ?thesis by (simp add: build_def demo_args_def)
qed

text \<open>
  Property C25. A URL run sends what its flags say. For literal texts, the construction returns one
  scenario with the checks asked for, and its request goes out as one message: the method (POST when
  a body is given and none was named), the origin form of the URL, the Host of the target, the user's
  headers, then the Authorization of \<open>--basic-auth\<close> or \<open>--bearer\<close> and the Content-Type of
  \<open>--json\<close> or \<open>--form\<close>, each unless the user gave one, and the body with its length.
\<close>

theorem url_run_on_the_wire:
  assumes "ca_request_file args = None" "ca_requests args = None" "ca_url args = Some url" "ca_body_file args = None"
    and "\<forall>s. url_body args = Some s \<longrightarrow> s \<noteq> [] \<and> literal_text s"
    and "list_all lit_pair (url_headers CW args)" "literal_text url" "target_parse url = Inr tgt"
    and "cw_method CW (url_method args) = Some m"
  shows "\<exists>pl rq. build CW args = Some (Inr (pl, tgt, build_opts args))
    \<and> pl_scenarios pl = [scenario_http_request ''cli'' (pick_rate_profile CW args (fo_one (cw_float CW))) rq]
    \<and> rq_checks rq = build_checks args
    \<and> (\<forall>(W :: 'w world) cg. fst (build_raw_request W rq tgt KeepAlive [] cg)
         = http_head (plain_lines m (origin_form url) tgt (url_headers CW args) (case url_body args of Some s \<Rightarrow> s | None \<Rightarrow> []))
           @ (case url_body args of Some s \<Rightarrow> s | None \<Rightarrow> []))"
proof -
  define body where "body = (case url_body args of Some s \<Rightarrow> s | None \<Rightarrow> [])"
  have b: "map_option (\<lambda>s. BodyTemplate (text_template s)) (url_body args)
      = (if body = [] then None else Some (BodyTemplate (text_template body)))"
    using assms(5) by (cases "url_body args") (auto simp: body_def)
  have ne: "\<forall>(n, v) \<in> set (url_headers CW args). n \<noteq> []" using assms(6) by (auto simp: list_all_iff lit_pair_def)
  obtain pl where pl: "build_from_url CW args (build_opts args) url = Inr (pl, tgt, build_opts args)"
    "pl_scenarios pl = [scenario_http_request ''cli'' (pick_rate_profile CW args (fo_one (cw_float CW)))
         \<lparr>rq_method = m, rq_url = text_template url, rq_headers = map lit_header (url_headers CW args),
          rq_body = map_option (\<lambda>s. BodyTemplate (text_template s)) (url_body args), rq_extract = [],
          rq_checks = build_checks args, rq_expect_streaming = False\<rparr>]"
    using build_url_text [OF assms(4) _ assms(6-9)] assms(5) by blast
  define rq where "rq = \<lparr>rq_method = m, rq_url = text_template url, rq_headers = map lit_header (url_headers CW args),
          rq_body = map_option (\<lambda>s. BodyTemplate (text_template s)) (url_body args), rq_extract = [],
          rq_checks = build_checks args, rq_expect_streaming = False\<rparr>"
  have "fst (build_raw_request W rq tgt KeepAlive [] cg)
      = http_head (plain_lines m (origin_form url) tgt (url_headers CW args) body) @ body" for W :: "'w world" and cg
    using wire_of_text_request [of rq m url "origin_form url" "url_headers CW args" body W tgt "fst cg" "snd cg"] ne b
    by (simp add: rq_def)
  then show ?thesis using pl assms(1-3)
    by (intro exI [of _ pl] exI [of _ rq]) (simp add: build_def rq_def body_def)
qed

lemma url_run_on_the_wire_witness:
  "\<exists>pl rq. build demo_cli demo_args = Some (Inr (pl, \<lparr>tg_host = ''h'', tg_port = 81, tg_tls = False, tg_sni = None, tg_family = FamAny\<rparr>,
        build_opts demo_args))
    \<and> length (pl_scenarios pl) = 1
    \<and> fst (build_raw_request demo_world rq \<lparr>tg_host = ''h'', tg_port = 81, tg_tls = False, tg_sni = None, tg_family = FamAny\<rparr>
        KeepAlive [] (context_new 0 0, demo_proc))
      = http_head [''POST /a HTTP/1.1'', ''Host: h:81'', ''Connection: keep-alive'', ''X: 1'',
          ''Authorization: Bearer k'', ''Content-Type: application/json'', ''Content-Length: 2''] @ ''{}''"
proof -
  let ?t = "\<lparr>tg_host = ''h'', tg_port = 81, tg_tls = False, tg_sni = None, tg_family = FamAny\<rparr>"
  have u: "user_has n [(''X'', ''1'')] = False" if "n \<in> {''Authorization'', ''Content-Type''}" for n
    using that by (auto simp: user_has_def eq_icase_def)
  have hs: "url_headers demo_cli demo_args = [(''X'', ''1''), (''Authorization'', ''Bearer k''), (''Content-Type'', ''application/json'')]"
    by (simp add: url_headers_def auth_pair_def type_pair_def demo_args_def u)
  have h: "list_all lit_pair (url_headers demo_cli demo_args)" by (simp add: hs lit_pair_def literal_text_def)
  have m: "cw_method demo_cli (url_method demo_args) = Some ''POST''"
    by (simp add: url_method_def url_body_def demo_args_def demo_cli_def)
  have b: "url_body demo_args = Some ''{}''" by (simp add: url_body_def demo_args_def)
  have o: "origin_form ''http://h:81/a'' = ''/a''"
    by (simp add: origin_form_def find_subsequence_def is_path_start_def strip_fragment_def Let_def eval_nat_numeral)
  have c: "user_has ''connection'' (url_headers demo_cli demo_args) = False"
    unfolding hs by (simp add: user_has_def) (simp add: eq_icase_def ascii_lower_def code_def)
  have d: "dec (Suc (Suc 0)) = ''2''"
    unfolding numeral_2_eq_2 [symmetric] by (subst dec.simps) (simp add: digit_char_def digit_lits)
  obtain pl rq where p: "build demo_cli demo_args = Some (Inr (pl, ?t, build_opts demo_args))"
    "pl_scenarios pl = [scenario_http_request ''cli'' (pick_rate_profile demo_cli demo_args (fo_one (cw_float demo_cli))) rq]"
    "\<forall>(W :: nat world) cg. fst (build_raw_request W rq ?t KeepAlive [] cg)
         = http_head (plain_lines ''POST'' (origin_form ''http://h:81/a'') ?t (url_headers demo_cli demo_args)
             (case url_body demo_args of Some s \<Rightarrow> s | None \<Rightarrow> []))
           @ (case url_body demo_args of Some s \<Rightarrow> s | None \<Rightarrow> [])"
    using url_run_on_the_wire [where 'w = nat, OF _ _ _ _ _ h _ demo_url_target m] b
    by (auto simp: demo_args_def literal_text_def)
  have l: "plain_lines ''POST'' ''/a'' ?t (url_headers demo_cli demo_args) ''{}''
      = [''POST /a HTTP/1.1'', ''Host: h:81'', ''Connection: keep-alive'', ''X: 1'',
          ''Authorization: Bearer k'', ''Content-Type: application/json'', ''Content-Length: 2'']"
    unfolding plain_lines_def c by (simp add: hs header_text_def target_addr_def d dec.simps [of 81] dec.simps [of 8] digit_char_def digit_lits)
  show ?thesis using p by (intro exI [of _ pl] exI [of _ rq]) (simp add: b o l)
qed

text \<open>
  Property C26. A request file goes out as written, with generated lines around it: for literal texts
  and a path in the request line, the plan of \<open>--request-file\<close> sends the method, the path, the
  Host of the target, then every header of the file in order, its Host header included, so the
  message carries two Host lines; then the length of the body and the body.
\<close>

theorem request_file_on_the_wire:
  assumes "ca_request_file args = Some path" "fs_read (cw_files CW) path = Inr (request_file e m p items body)"
    and "eol_ok e" "token m" "\<not> is_prefix ''#'' m" "cw_method CW m = Some m" "token p" "hd p = CHR ''/''" "CHR ''#'' \<notin> set p"
    and "\<forall>i \<in> set items. item_ok i" "e = [] \<longrightarrow> find_sub (CRLF @ CRLF) body = None" "valid_utf8 body"
    and "last_host (item_fields items) None = Some h" "token h" "\<forall>c \<in> set h. \<not> is_path_start c"
    and "target_parse (''http://'' @ h @ p) = Inr tgt"
    and "literal_text (''http://'' @ h @ p)" "literal_text body" "\<forall>(n, v) \<in> set (item_fields items). literal_text n \<and> literal_text v"
  shows "\<exists>pl rq name. build CW args = Some (Inr (pl, tgt, build_opts args))
    \<and> pl_scenarios pl = [scenario_http_request name (pick_rate_profile CW args (fo_one (cw_float CW))) rq]
    \<and> rq_checks rq = build_checks args
    \<and> (\<forall>(W :: 'w world) cg. fst (build_raw_request W rq tgt KeepAlive [] cg)
         = http_head (plain_lines m p tgt (item_fields items) body) @ body)
    \<and> 2 \<le> length (filter (\<lambda>l. eq_icase (takeWhile (\<lambda>c. c \<noteq> CHR '':'') l) ''host'') (plain_lines m p tgt (item_fields items) body))"
proof -
  define parsed where "parsed = \<lparr>pr_method = m, pr_target = tgt, pr_url = text_template (''http://'' @ h @ p),
        pr_headers = map lit_header (item_fields items),
        pr_body = (if body = [] then None else Some (BodyTemplate (text_template body)))\<rparr>"
  have t: "pr_target parsed = tgt" by (simp add: parsed_def)
  obtain p' where p': "p = CHR ''/'' # p'" using assms(7,8) by (cases p) (auto simp: token_def)
  have rel: "\<not> looks_like_absolute_url p" by (simp add: looks_like_absolute_url_def p')
  have read: "parse_request_bytes (cw_world CW) (cw_method CW) (request_file e m p items body) source comp_new
      = (comp_new, Inr parsed)" for source
    unfolding parsed_def using assms rel
    by (intro request_file_read [where h = h]) auto
  have names: "\<forall>(n, v) \<in> set (item_fields items). n \<noteq> [] \<and> CHR '':'' \<notin> set n"
    using assms(10) by (induction items rule: item_fields.induct) (auto simp: token_def)
  then have ne: "\<forall>(n, v) \<in> set (item_fields items). n \<noteq> []" by blast
  have o: "origin_form (''http://'' @ h @ p) = p"
    using origin_form_absolute [of "''http''" h p "[]"] assms(9,15) p' by simp
  have wire: "fst (build_raw_request W (parsed_plan args parsed) tgt KeepAlive [] cg)
      = http_head (plain_lines m p tgt (item_fields items) body) @ body" for W :: "'w world" and cg
    using wire_of_text_request [of "parsed_plan args parsed" m "''http://'' @ h @ p" p "item_fields items" body W tgt "fst cg" "snd cg"]
      ne o by (simp add: parsed_plan_def parsed_def)
  have "eq_icase ''Host'' ''host''" by code_simp
  moreover obtain n v where nv: "(n, v) \<in> set (item_fields items)" "eq_icase n ''host''"
    using last_host_in [OF assms(13)] by auto
  let ?host = "\<lambda>l. eq_icase (takeWhile (\<lambda>c. c \<noteq> CHR '':'') l) ''host''"
  have "takeWhile (\<lambda>c. c \<noteq> CHR '':'') (header_text (n, v)) = n"
    using names nv(1) by (auto simp: header_text_def takeWhile_append takeWhile_eq_all_conv)
  then have "filter ?host (map header_text (item_fields items)) \<noteq> []"
    using nv by (force simp: filter_empty_conv)
  ultimately have "2 \<le> length (filter ?host (plain_lines m p tgt (item_fields items) body))"
    by (cases "filter ?host (map header_text (item_fields items))") (simp_all add: plain_lines_def)
  moreover have "\<exists>pl name. build CW args = Some (Inr (pl, tgt, build_opts args))
      \<and> pl_scenarios pl = [scenario_http_request name (pick_rate_profile CW args (fo_one (cw_float CW))) (parsed_plan args parsed)]"
    using assms(1,2) read t
    by (intro exI [of _ "builder_finalize (push_scenario (scenario_http_request (utf8_or ''request'' (path_stem path))
            (pick_rate_profile CW args (fo_one (cw_float CW))) (parsed_plan args parsed)) (new_builder args)\<lparr>pb_vars := co_vars comp_new\<rparr>)"]
          exI [of _ "utf8_or ''request'' (path_stem path)"])
       (simp add: build_def build_from_request_file_def push_scenario_def builder_finalize_def new_builder_def builder_new_def Let_def)
  moreover have "rq_checks (parsed_plan args parsed) = build_checks args" by (simp add: parsed_plan_def)
  ultimately show ?thesis using wire by blast
qed

lemma request_file_on_the_wire_witness:
  "\<exists>pl rq. build demo_cli (demo_args\<lparr>ca_request_file := Some ''b.http''\<rparr>)
      = Some (Inr (pl, \<lparr>tg_host = ''h'', tg_port = 81, tg_tls = False, tg_sni = None, tg_family = FamAny\<rparr>,
          build_opts (demo_args\<lparr>ca_request_file := Some ''b.http''\<rparr>)))
    \<and> fst (build_raw_request demo_world rq \<lparr>tg_host = ''h'', tg_port = 81, tg_tls = False, tg_sni = None, tg_family = FamAny\<rparr>
        KeepAlive [] (context_new 0 0, demo_proc))
      = http_head (plain_lines ''POST'' ''/a'' \<lparr>tg_host = ''h'', tg_port = 81, tg_tls = False, tg_sni = None, tg_family = FamAny\<rparr>
          [(''Host'', ''h:81'')] ''{}'') @ ''{}''"
proof -
  let ?t = "\<lparr>tg_host = ''h'', tg_port = 81, tg_tls = False, tg_sni = None, tg_family = FamAny\<rparr>"
  have r: "fs_read (cw_files demo_cli) ''b.http'' = Inr (request_file [] ''POST'' ''/a'' [Field ''Host'' ''h:81''] ''{}'')"
    by (simp add: demo_cli_def demo_file_def)
  have k: "eol_ok []" "token ''POST''" "token ''/a''" "token ''h:81''" "\<forall>i \<in> set [Field ''Host'' ''h:81'']. item_ok i"
    "\<forall>c \<in> set ''h:81''. \<not> is_path_start c"
    by (simp_all add: eol_ok_def token_def visible_def code_def printable_def is_path_start_def)
  have u: "valid_utf8 ''{}''" by (rule valid_utf8_ascii) (simp add: code_def)
  have h: "last_host (item_fields [Field ''Host'' ''h:81'']) None = Some ''h:81''" by code_simp
  have l: "literal_text (''http://'' @ ''h:81'' @ ''/a'')" "literal_text ''{}''"
    "\<forall>(n, v) \<in> set (item_fields [Field ''Host'' ''h:81'']). literal_text n \<and> literal_text v"
    by (simp_all add: literal_text_def)
  have tgt: "target_parse (''http://'' @ ''h:81'' @ ''/a'') = Inr ?t" using demo_url_target by simp
  show ?thesis
    using request_file_on_the_wire [where 'w = nat and args = "demo_args\<lparr>ca_request_file := Some ''b.http''\<rparr>",
        OF _ r k(1,2) _ _ k(3) _ _ k(5) _ u h k(4,6) tgt l]
    by (fastforce simp: demo_cli_def CRLF_def)
qed

text \<open>
  Property C32. A directory of request files becomes one plan: its scenarios are the visible
  \<open>.http\<close> files in the order of their names, each read from its file and given the rate of its
  weight, and every file's target has the scheme, host and port of the target the run connects to.
\<close>

theorem dir_plan_one_target:
  assumes "ca_request_file args = None" "ca_requests args = Some dir" "build CW args = Some (Inr (pl, tgt, opts))"
  shows "\<exists>es ps xs. fs_read_dir (cw_files CW) dir = Inr (map Inr xs)
    \<and> map se_file es = map (path_join dir) (sort (map de_name (filter is_scenario_file xs)))
    \<and> list_all2 (read_as CW) es ps
    \<and> pl_scenarios pl = map (entry_scenario CW args) (zip es ps)
    \<and> (\<forall>p \<in> set ps. tg_tls (pr_target p) = tg_tls tgt \<and> tg_host (pr_target p) = tg_host tgt \<and> tg_port (pr_target p) = tg_port tgt)"
proof -
  have "build_from_request_dir CW args (build_opts args) dir = Some (Inr (pl, tgt, opts))"
    using assms by (simp add: build_def)
  from dir_built [OF this] obtain es ps where d:
    "parse_scenario_dir (cw_toml CW) (cw_files CW) (cw_float CW) dir = Inr es" "list_all2 (read_as CW) es ps"
    "pl_scenarios pl = map (entry_scenario CW args) (zip es ps)"
    "\<forall>p \<in> set ps. tg_tls (pr_target p) = tg_tls tgt \<and> tg_host (pr_target p) = tg_host tgt \<and> tg_port (pr_target p) = tg_port tgt"
    by blast
  then show ?thesis using scenario_dir_files [OF d(1)] by blast
qed

lemma demo_read:
  "parse_request_bytes demo_world Some demo_file source st =
     (st, Inr \<lparr>pr_method = ''POST'', pr_target = \<lparr>tg_host = ''h'', tg_port = 81, tg_tls = False, tg_sni = None, tg_family = FamAny\<rparr>,
        pr_url = text_template ''http://h:81/a'', pr_headers = [(text_template ''Host'', text_template ''h:81'')],
        pr_body = Some (BodyTemplate (text_template ''{}''))\<rparr>)"
proof -
  let ?is = "[Field ''Host'' ''h:81'']"
  have k: "eol_ok []" "token ''POST''" "token ''/a''" "token ''h:81''" "\<forall>i \<in> set ?is. item_ok i"
    by (simp_all add: eol_ok_def token_def visible_def code_def printable_def)
  have u: "valid_utf8 ''{}''" by (rule valid_utf8_ascii) (simp add: code_def)
  have h: "last_host (item_fields ?is) None = Some ''h:81''" by code_simp
  have f: "looks_like_absolute_url ''/a'' \<and> ''http://h:81/a'' = ''/a''
     \<or> \<not> looks_like_absolute_url ''/a'' \<and> last_host (item_fields ?is) None = Some ''h:81'' \<and> token ''h:81''
       \<and> ''http://h:81/a'' = ''http://'' @ ''h:81'' @ ''/a''"
    using h k(4) by (simp add: looks_like_absolute_url_def)
  have l: "literal_text ''http://h:81/a''" "literal_text ''{}''"
    "\<forall>(n, v) \<in> set (item_fields ?is). literal_text n \<and> literal_text v"
    by (simp_all add: literal_text_def)
  show ?thesis unfolding demo_file_def
    using request_file_read [where pm = Some and W = demo_world and source = source and st = st,
        OF k(1,2) _ _ k(3,5) _ u f demo_url_target l]
    by (simp add: CRLF_def)
qed

lemma dir_plan_one_target_witness:
  "\<exists>pl tgt opts es ps. build demo_cli (demo_args\<lparr>ca_requests := Some ''d''\<rparr>) = Some (Inr (pl, tgt, opts))
    \<and> map se_file es = [''d/a.http'', ''d/b.http''] \<and> list_all2 (read_as demo_cli) es ps
    \<and> (\<forall>p \<in> set ps. tg_port (pr_target p) = tg_port tgt)"
proof -
  let ?args = "demo_args\<lparr>ca_requests := Some ''d''\<rparr>"
  have s: "sort [''b.http'', ''a.http''] = [''a.http'', ''b.http'']" by code_simp
  have f: "filter is_scenario_file [\<lparr>de_name = ''b.http'', de_is_file = True\<rparr>, \<lparr>de_name = ''a.http'', de_is_file = True\<rparr>]
      = [\<lparr>de_name = ''b.http'', de_is_file = True\<rparr>, \<lparr>de_name = ''a.http'', de_is_file = True\<rparr>]" by code_simp
  have ds: "fs_read_dir (cw_files demo_cli) ''d''
      = Inr (map Inr [\<lparr>de_name = ''b.http'', de_is_file = True\<rparr>, \<lparr>de_name = ''a.http'', de_is_file = True\<rparr>])"
    by (simp add: demo_cli_def)
  have "\<exists>es. parse_scenario_dir (cw_toml demo_cli) (cw_files demo_cli) (cw_float demo_cli) ''d'' = Inr es \<and> length es = 2"
    using f s by (simp add: parse_scenario_dir_def demo_cli_def normalise_weights_def Let_def split: if_splits)
  then obtain e1 e2 where es: "parse_scenario_dir (cw_toml demo_cli) (cw_files demo_cli) (cw_float demo_cli) ''d'' = Inr [e1, e2]"
    by (auto simp: eval_nat_numeral length_Suc_conv)
  have rd: "fs_read (cw_files demo_cli) x = Inr demo_file" "cw_world demo_cli = demo_world" "cw_method demo_cli = Some" for x
    by (simp_all add: demo_cli_def)
  have "\<exists>pl tgt opts. build demo_cli ?args = Some (Inr (pl, tgt, opts))"
    using es by (simp add: build_def demo_args_def build_from_request_dir_def rd demo_read Let_def)
  then obtain pl tgt opts where b: "build demo_cli ?args = Some (Inr (pl, tgt, opts))" by blast
  from dir_plan_one_target [OF _ _ this, of "''d''"] obtain es ps xs where
    "fs_read_dir (cw_files demo_cli) ''d'' = Inr (map Inr xs)"
    "map se_file es = map (path_join ''d'') (sort (map de_name (filter is_scenario_file xs)))"
    "list_all2 (read_as demo_cli) es ps" "\<forall>p \<in> set ps. tg_port (pr_target p) = tg_port tgt"
    by (auto simp: demo_args_def)
  moreover from this(1) ds have "xs = [\<lparr>de_name = ''b.http'', de_is_file = True\<rparr>, \<lparr>de_name = ''a.http'', de_is_file = True\<rparr>]"
    by (simp add: inj_map_eq_map del: list.simps(9))
  moreover have "map (path_join ''d'') [''a.http'', ''b.http''] = [''d/a.http'', ''d/b.http'']" by code_simp
  ultimately show ?thesis using b s f
    by (intro exI [of _ pl] exI [of _ tgt] exI [of _ opts] exI [of _ es] exI [of _ ps]) simp
qed

text \<open>
  Durations are read as written: any sequence of numbers with units, from nanoseconds to
  hours, in any order and with repetitions, is parsed to the sum of its parts, as long as that is
  below \<open>2 ^ 64\<close> seconds.
\<close>

lemma duration_roundtrip:
  assumes "ps \<noteq> []" "\<forall>(n, u) \<in> set ps. n < 2 ^ 64" "duration_value ps < 2 ^ 64 * 1000000000"
  shows "parse_duration (duration_text ps) = DurOk (duration_value ps)"
  using duration_loop_text [OF assms(2), of 0] duration_text_trim [OF assms(1)] assms(3)
  by (simp add: parse_duration_def duration_limit_def)

text \<open>A number of minutes is multiplied in 64 bits, so a large one wraps around to a short duration.\<close>

lemma duration_minutes_wrap:
  "parse_duration ''307445734561825861m'' = DurOk (secs 44)"
proof -
  have t: "trim ''307445734561825861m'' = ''307445734561825861m''"
    by (rule trim_token) (simp add: token_def visible_def code_def)
  have p: "parse_uint 10 (2 ^ 64 - 1) ''307445734561825861'' = Some 307445734561825861"
    by (simp add: parse_uint_def digit_val_def code_def)
  have u: "trim ''m'' = ''m''" by (rule trim_token) (simp add: token_def visible_def code_def)
  show ?thesis
    unfolding parse_duration_def t Let_def
    by (subst duration_loop.simps, subst duration_loop.simps)
       (simp add: is_digit_def code_def p [simplified] u unit_duration_def secs_def duration_limit_def)
qed

text \<open>
  A \<open>--resolve HOST:PORT:ADDR\<close> whose address has no colon is parsed into its parts,
  whatever the host, and then decides the address of the target of that host and port: the
  connection goes to \<open>ADDR\<close> without asking the resolver.
\<close>

lemma resolve_override_used:
  assumes "tg_host t \<noteq> []" "addr \<noteq> []" "CHR '':'' \<notin> set addr" "parse_ip addr = Some ip"
  shows "\<exists>r. parse_resolve_flag (tg_host t @ '':'' @ dec (unat (tg_port t)) @ '':'' @ addr) = Inr r
    \<and> target_resolve parse_ip dns is_v4 is_v6 t (build_opts (args\<lparr>ca_resolve := [r]\<rparr>)) = Inr (SockIp ip (tg_port t))"
  using resolve_parts [OF assms(3,2) dec_no_delim(1) dec_nonempty, of "tg_host t" "unat (tg_port t)"] assms(1,4)
  by (simp add: parse_u16_dec build_opts_def target_resolve_def eq_icase_def)

text \<open>An IPv6 address is not: its own colons are taken for the separators.\<close>

lemma resolve_ipv6_split:
  "parse_resolve_flag ''h:80:[fe80::1:2]'' = Inr (''h:80:[fe80:'', 1, ''2]'')"
  using resolve_parts [of "''2]''" "''1''" "''h:80:[fe80:''"]
  by (simp add: parse_u16_def parse_uint_def digit_val_def code_def)

end
