(* ===== verification/Dsl.thy ===== *)
theory Dsl
  imports Cli
begin

text \<open>
  The scripting front end: the builders of \<open>zerobench-dsl/src/builders.rs\<close>, the parsers of
  \<open>parse.rs\<close> and the loader of \<open>lib.rs\<close>. A builder is shared by reference: a handle names a cell of
  a store, every fluent call changes the cell in place, and finalisation takes the states out of the
  cells. The Rhai engine is a parameter: a strategy that, from the answers to the functions it has
  called so far, chooses the next call or ends. So are JSON text, header names, files, the
  environment and floating-point arithmetic.
\<close>

section \<open>Surroundings\<close>

text \<open>
  Floating point: reading a number, the operations the code uses, and \<open>from_secs_f64\<close>, which
  panics (\<open>None\<close>) on negative, too large and undefined values.
\<close>

record f64_arith =
  fa_parse :: "string \<Rightarrow> f64 option"
  fa_scale :: "f64 \<Rightarrow> rate_scale \<Rightarrow> f64"
  fa_add :: "f64 \<Rightarrow> f64 \<Rightarrow> f64"
  fa_mul :: "f64 \<Rightarrow> f64 \<Rightarrow> f64"
  fa_div :: "f64 \<Rightarrow> f64 \<Rightarrow> f64"
  fa_of_int :: "int \<Rightarrow> f64"
  fa_duration :: "f64 \<Rightarrow> duration option"

text \<open>Constants, as bit patterns, and the comparison with zero.\<close>

abbreviation F0 :: f64 where "F0 \<equiv> 0"
abbreviation F1 :: f64 where "F1 \<equiv> 0x3FF0000000000000"
abbreviation F60 :: f64 where "F60 \<equiv> 0x404E000000000000"
abbreviation F_tenth :: f64 where "F_tenth \<equiv> 0x3FB999999999999A"
abbreviation F_epsilon :: f64 where "F_epsilon \<equiv> 0x3CB0000000000000"

definition f64_above_zero :: "f64 \<Rightarrow> bool" where
  "f64_above_zero x = (0 < x \<and> x \<le> 0x7FF0000000000000)"

text \<open>\<open>x.max(EPSILON)\<close> of a number above zero: positive patterns are ordered like their numbers.\<close>

definition f64_max_epsilon :: "f64 \<Rightarrow> f64" where
  "f64_max_epsilon x = (if x < F_epsilon then F_epsilon else x)"

text \<open>Script values as \<open>.json\<close> takes them, and the JSON values they become.\<close>

datatype dyn =
    DynUnit
  | DynBool bool
  | DynInt int
  | DynFloat f64
  | DynChar string
  | DynStr string
  | DynArray "dyn list"
  | DynMap "(string \<times> dyn) list"
  | DynOther string

datatype json =
    JNull
  | JBool bool
  | JInt int
  | JFloat f64
  | JString string
  | JArray "json list"
  | JObject "(string \<times> json) list"

record 'r dsl_world =
  dw_world :: "'r world"
  dw_files :: file_system
  dw_float :: f64_arith
  dw_json :: "json \<Rightarrow> string"
  dw_header_name :: "string \<Rightarrow> string option"

section \<open>Errors\<close>

text \<open>The text that names the place of a template, as a value.\<close>

datatype field_label =
    FieldUrl string string
  | FieldHeaderName string string
  | FieldHeaderValue string string string
  | FieldTriggerUrl string string
  | FieldNoTrigger string
  | FieldPayload
  | FieldBody

datatype script_error =
    ScIo string string
  | ScParse string
  | ScEval string
  | ScTemplate string field_label template_error
  | ScMissingDuration
  | ScNoScenarios
  | ScConflictingRate
  | ScMissingEnv string
  | ScNoRequestSteps
  | ScTemplatedHost string
  | ScInvalidUrl string target_error

text \<open>What a registered function raises inside the engine, and how a call ends.\<close>

datatype call_error =
    FunctionNotFound
  | MismatchType string
  | BadRate flag_error
  | BadDuration string string
  | BadTransport string
  | EnvNotSet string
  | SlotError var_error
  | BodyFileError string string
  | JsonType string
  | BadHeaderName string
  | BadHeartbeat string
  | BadCorrelate string
  | EmptyMarker
  | BadMode string
  | EmptyField
  | BadNumber string

datatype 'a call_result = Ret 'a | Raise call_error | Abort

section \<open>Parsers\<close>

definition lower :: "string \<Rightarrow> string" where "lower s = map ascii_lower s"

definition strip_prefix :: "string \<Rightarrow> string \<Rightarrow> string option" where
  "strip_prefix p s = (if is_prefix p s then Some (drop (length p) s) else None)"

definition strip_suffix :: "string \<Rightarrow> string \<Rightarrow> string option" where
  "strip_suffix p s = map_option rev (strip_prefix (rev p) (rev s))"

text \<open>
  The crate has its own copies of two parsers. The duration parser is the one of the command line,
  whose loop is shared here; the rate parser also takes a \<open>/s\<close>.
\<close>

definition dsl_parse_duration :: "string \<Rightarrow> duration_result" where
  "dsl_parse_duration s0 = (let s = trim s0 in if s = [] then DurNone else duration_loop s 0)"

definition parse_rate_with_unit :: "f64_arith \<Rightarrow> string \<Rightarrow> flag_error + f64" where
  "parse_rate_with_unit F s0 =
     (let s = trim s0;
          (n_part, unit_part) = (case rsplit_once (CHR ''/'') s of
             Some (l, r) \<Rightarrow> (trim l, Some (trim r)) | None \<Rightarrow> (s, None)) in
      if (case unit_part of Some u \<Rightarrow> u \<noteq> ''s'' \<and> u \<noteq> [] | None \<Rightarrow> False) then Inl (FlagInvalid s)
      else if n_part = [] then Inl FlagEmpty
      else
        (let c = List.last n_part;
             (num, mult) = (if c = CHR ''k'' \<or> c = CHR ''K'' then (butlast n_part, ByThousand)
                            else if c = CHR ''m'' \<or> c = CHR ''M'' then (butlast n_part, ByMillion)
                            else (n_part, ByOne))
         in case fa_parse F num of
              None \<Rightarrow> Inl (FlagInvalid s)
            | Some n \<Rightarrow> (if \<not> rate_positive n then Inl (FlagInvalid s) else Inr (fa_scale F n mult))))"

definition parse_duration_str :: "f64_arith \<Rightarrow> string \<Rightarrow> duration_result" where
  "parse_duration_str F s0 =
     (let s = trim s0;
          of_f64 = (\<lambda>x. case fa_duration F x of Some d \<Rightarrow> DurOk d | None \<Rightarrow> DurPanic) in
      case strip_suffix ''ms'' s of
        Some n \<Rightarrow> (case parse_uint 10 (2 ^ 64 - 1) (trim n) of
            Some k \<Rightarrow> DurOk (k * 1000000) | None \<Rightarrow> DurNone)
      | None \<Rightarrow> (case strip_suffix ''s'' s of
            Some n \<Rightarrow> (case fa_parse F (trim n) of Some x \<Rightarrow> of_f64 x | None \<Rightarrow> DurNone)
          | None \<Rightarrow> (case strip_suffix ''m'' s of
                Some n \<Rightarrow> (case fa_parse F (trim n) of Some x \<Rightarrow> of_f64 (fa_mul F x F60) | None \<Rightarrow> DurNone)
              | None \<Rightarrow> (case parse_uint 10 (2 ^ 64 - 1) s of
                    Some k \<Rightarrow> DurOk (secs k) | None \<Rightarrow> DurNone))))"

text \<open>\<open>parse_duration_str(s).unwrap_or(d)\<close>; \<open>None\<close> is the panic.\<close>

definition duration_or :: "f64_arith \<Rightarrow> duration \<Rightarrow> string \<Rightarrow> duration option" where
  "duration_or F d s = (case parse_duration_str F s of DurOk x \<Rightarrow> Some x | DurNone \<Rightarrow> Some d | DurPanic \<Rightarrow> None)"

definition hold_for_from_str :: "f64_arith \<Rightarrow> string \<Rightarrow> duration option" where
  "hold_for_from_str F s = duration_or F (secs 60) s"

definition hold_for_from_secs :: "int \<Rightarrow> duration" where
  "hold_for_from_secs n = secs (if n \<le> 0 then 60 else nat n)"

definition parse_heartbeat_frame :: "string \<Rightarrow> call_error + heartbeat_frame" where
  "parse_heartbeat_frame s =
     (let l = lower s in
      if l = ''ping'' then Inr HbPing
      else if l \<in> {''text'', ''textapp'', ''text_app''} then Inr HbTextApp
      else Inl (BadHeartbeat l))"

definition parse_correlate :: "string \<Rightarrow> call_error + correlate_strategy" where
  "parse_correlate s =
     (let norm = lower (trim s) in
      case strip_prefix ''substring:'' norm of
        Some marker \<Rightarrow>
          (if marker = [] then Inl EmptyMarker else Inr (PayloadSubstring (drop 10 (trim s))))
      | None \<Rightarrow>
          (if norm \<in> {''pingpong'', ''ping_pong'', ''ping-pong''} then Inr PingPong
           else if norm \<in> {''monotonicidprepend'', ''monotonic_id_prepend'', ''monotonic-id-prepend'', ''prepend''}
             then Inr MonotonicIdPrepend
           else if norm \<in> {''firsttextframe'', ''first_text_frame'', ''first-text-frame'', ''first_text''}
             then Inr FirstTextFrame
           else Inl (BadCorrelate norm)))"

definition parse_fanout_mode :: "string \<Rightarrow> call_error + fanout_mode" where
  "parse_fanout_mode s =
     (let norm = lower (trim s) in
      case strip_prefix ''timestamp:'' norm of
        Some field \<Rightarrow> (if field = [] then Inl EmptyField else Inr (Timestamp (drop 10 (trim s))))
      | None \<Rightarrow>
          (if norm \<in> {''triggerrtt'', ''trigger_rtt'', ''trigger-rtt''} then Inr TriggerRtt
           else if norm = ''timestamp'' then Inr (Timestamp ''emit_ns'')
           else Inl (BadMode norm)))"

text \<open>\<open>n as u32\<close> keeps the low 32 bits.\<close>

definition clamp_u32_min1 :: "int \<Rightarrow> u32" where
  "clamp_u32_min1 n = (if n < 1 then 1 else max (word_of_int n) 1)"

definition clamp_u16 :: "int \<Rightarrow> u16" where
  "clamp_u16 c = (if c < 0 then 0 else if 65535 < c then 65535 else word_of_int c)"

fun dynamic_to_serde :: "dyn \<Rightarrow> call_error + json"
  and serde_items :: "dyn list \<Rightarrow> call_error + json list"
  and serde_fields :: "(string \<times> dyn) list \<Rightarrow> call_error + (string \<times> json) list" where
  "dynamic_to_serde DynUnit = Inr JNull"
| "dynamic_to_serde (DynBool b) = Inr (JBool b)"
| "dynamic_to_serde (DynInt i) = Inr (JInt i)"
| "dynamic_to_serde (DynFloat f) = Inr (if f64_finite f then JFloat f else JNull)"
| "dynamic_to_serde (DynChar c) = Inr (JString c)"
| "dynamic_to_serde (DynStr s) = Inr (JString s)"
| "dynamic_to_serde (DynArray xs) = (case serde_items xs of Inl e \<Rightarrow> Inl e | Inr js \<Rightarrow> Inr (JArray js))"
| "dynamic_to_serde (DynMap m) = (case serde_fields m of Inl e \<Rightarrow> Inl e | Inr js \<Rightarrow> Inr (JObject js))"
| "dynamic_to_serde (DynOther t) = Inl (JsonType t)"
| "serde_items [] = Inr []"
| "serde_items (x # xs) =
     (case dynamic_to_serde x of
        Inl e \<Rightarrow> Inl e
      | Inr j \<Rightarrow> (case serde_items xs of Inl e \<Rightarrow> Inl e | Inr js \<Rightarrow> Inr (j # js)))"
| "serde_fields [] = Inr []"
| "serde_fields ((k, x) # m) =
     (case dynamic_to_serde x of
        Inl e \<Rightarrow> Inl e
      | Inr j \<Rightarrow> (case serde_fields m of Inl e \<Rightarrow> Inl e | Inr js \<Rightarrow> Inr ((k, j) # js)))"

definition dynamic_to_json :: "'r dsl_world \<Rightarrow> dyn \<Rightarrow> call_error + string" where
  "dynamic_to_json W v = (case dynamic_to_serde v of Inl e \<Rightarrow> Inl e | Inr j \<Rightarrow> Inr (dw_json W j))"

section \<open>Builders\<close>

text \<open>
  What the builders hold. A step is the handle of its builder, whose type tells the kind of the
  step; the two pauses exist in the type but no registered function makes one.
\<close>

datatype step_source = SrcBuilder nat | SrcPause duration | SrcPauseRandom duration duration

datatype body_spec = SpecRaw bytes | SpecTemplate string | SpecJsonTemplate string

record scenario_state =
  sc_name :: string
  sc_weight :: "f64 option"
  sc_rate :: "rate_profile option"
  sc_steps :: "step_source list"

record request_state =
  rb_method :: string
  rb_url :: string
  rb_headers :: "(string \<times> string) list"
  rb_body :: "body_spec option"
  rb_extract :: "extraction list"
  rb_checks :: "assertion list"
  rb_cold :: bool

record sse_hold_state =
  hb_url :: string
  hb_headers :: "(string \<times> string) list"
  hb_subscribers :: u32
  hb_hold_for :: duration
  hb_reconnect :: bool

record sse_fanout_state =
  fb_url :: string
  fb_headers :: "(string \<times> string) list"
  fb_subscribers :: u32
  fb_hold_for :: duration
  fb_reconnect :: bool
  fb_trigger_url :: string
  fb_mode :: fanout_mode

record sse_storm_state =
  sb_url :: string
  sb_headers :: "(string \<times> string) list"
  sb_subscribers :: u32
  sb_hold_for :: duration
  sb_kill_rate_per_s :: f64
  sb_verify_last_event_id :: bool

record ws_echo_state =
  eb_url :: string
  eb_headers :: "(string \<times> string) list"
  eb_connections :: u32
  eb_msg_rate_per_conn :: f64
  eb_payload :: string
  eb_correlate :: correlate_strategy

record ws_hold_state =
  wb_url :: string
  wb_headers :: "(string \<times> string) list"
  wb_connections :: u32
  wb_heartbeat :: duration
  wb_heartbeat_frame :: heartbeat_frame
  wb_hold_for :: duration

record ws_push_state =
  pu_url :: string
  pu_headers :: "(string \<times> string) list"
  pu_connections :: u32
  pu_expected_rate_per_conn :: f64
  pu_hold_for :: duration

record ws_fanout_state =
  wf_url :: string
  wf_headers :: "(string \<times> string) list"
  wf_connections :: u32
  wf_hold_for :: duration
  wf_heartbeat :: duration
  wf_heartbeat_frame :: heartbeat_frame
  wf_trigger_url :: string
  wf_mode :: fanout_mode

text \<open>The constructors; what \<open>new\<close> is not given has the default of its type.\<close>

definition scenario_builder_new :: "string \<Rightarrow> f64 option \<Rightarrow> scenario_state" where
  "scenario_builder_new name weight = \<lparr>sc_name = name, sc_weight = weight, sc_rate = None, sc_steps = []\<rparr>"

definition request_builder_new :: "string \<Rightarrow> string \<Rightarrow> request_state" where
  "request_builder_new m url = \<lparr>rb_method = m, rb_url = url, rb_headers = [], rb_body = None,
     rb_extract = [], rb_checks = [], rb_cold = False\<rparr>"

definition sse_hold_new :: "string \<Rightarrow> u32 \<Rightarrow> duration \<Rightarrow> sse_hold_state" where
  "sse_hold_new url n d = \<lparr>hb_url = url, hb_headers = [], hb_subscribers = max n 1, hb_hold_for = d,
     hb_reconnect = True\<rparr>"

definition sse_fanout_new :: "string \<Rightarrow> u32 \<Rightarrow> duration \<Rightarrow> sse_fanout_state" where
  "sse_fanout_new url n d = \<lparr>fb_url = url, fb_headers = [], fb_subscribers = max n 1, fb_hold_for = d,
     fb_reconnect = True, fb_trigger_url = [], fb_mode = TriggerRtt\<rparr>"

definition sse_storm_new :: "string \<Rightarrow> u32 \<Rightarrow> duration \<Rightarrow> sse_storm_state" where
  "sse_storm_new url n d = \<lparr>sb_url = url, sb_headers = [], sb_subscribers = max n 1, sb_hold_for = d,
     sb_kill_rate_per_s = F_tenth, sb_verify_last_event_id = True\<rparr>"

definition ws_echo_new :: "string \<Rightarrow> u32 \<Rightarrow> f64 \<Rightarrow> ws_echo_state" where
  "ws_echo_new url n r = \<lparr>eb_url = url, eb_headers = [], eb_connections = max n 1, eb_msg_rate_per_conn = r,
     eb_payload = ''ping'', eb_correlate = MonotonicIdPrepend\<rparr>"

definition ws_hold_new :: "string \<Rightarrow> u32 \<Rightarrow> duration \<Rightarrow> ws_hold_state" where
  "ws_hold_new url n d = \<lparr>wb_url = url, wb_headers = [], wb_connections = max n 1, wb_heartbeat = secs 25,
     wb_heartbeat_frame = HbPing, wb_hold_for = d\<rparr>"

definition ws_push_new :: "string \<Rightarrow> u32 \<Rightarrow> duration \<Rightarrow> ws_push_state" where
  "ws_push_new url n d = \<lparr>pu_url = url, pu_headers = [], pu_connections = max n 1,
     pu_expected_rate_per_conn = F0, pu_hold_for = d\<rparr>"

definition ws_fanout_new :: "string \<Rightarrow> u32 \<Rightarrow> duration \<Rightarrow> ws_fanout_state" where
  "ws_fanout_new url n d = \<lparr>wf_url = url, wf_headers = [], wf_connections = max n 1, wf_hold_for = d,
     wf_heartbeat = secs 25, wf_heartbeat_frame = HbPing, wf_trigger_url = [], wf_mode = TriggerRtt\<rparr>"

text \<open>A cell of the store, and the default state that \<open>mem::take\<close> leaves in it.\<close>

datatype builder =
    BScenario scenario_state
  | BRequest request_state
  | BHold sse_hold_state
  | BFanout sse_fanout_state
  | BStorm sse_storm_state
  | BEcho ws_echo_state
  | BWsHold ws_hold_state
  | BPush ws_push_state
  | BWsFanout ws_fanout_state

fun builder_default :: "builder \<Rightarrow> builder" where
  "builder_default (BScenario _) = BScenario \<lparr>sc_name = [], sc_weight = None, sc_rate = None, sc_steps = []\<rparr>"
| "builder_default (BRequest _) = BRequest \<lparr>rb_method = ''GET'', rb_url = [], rb_headers = [], rb_body = None,
     rb_extract = [], rb_checks = [], rb_cold = False\<rparr>"
| "builder_default (BHold _) = BHold \<lparr>hb_url = [], hb_headers = [], hb_subscribers = 0, hb_hold_for = 0,
     hb_reconnect = False\<rparr>"
| "builder_default (BFanout _) = BFanout \<lparr>fb_url = [], fb_headers = [], fb_subscribers = 0, fb_hold_for = 0,
     fb_reconnect = False, fb_trigger_url = [], fb_mode = TriggerRtt\<rparr>"
| "builder_default (BStorm _) = BStorm \<lparr>sb_url = [], sb_headers = [], sb_subscribers = 0, sb_hold_for = 0,
     sb_kill_rate_per_s = F0, sb_verify_last_event_id = False\<rparr>"
| "builder_default (BEcho _) = BEcho \<lparr>eb_url = [], eb_headers = [], eb_connections = 0, eb_msg_rate_per_conn = F0,
     eb_payload = [], eb_correlate = MonotonicIdPrepend\<rparr>"
| "builder_default (BWsHold _) = BWsHold \<lparr>wb_url = [], wb_headers = [], wb_connections = 0, wb_heartbeat = 0,
     wb_heartbeat_frame = HbPing, wb_hold_for = 0\<rparr>"
| "builder_default (BPush _) = BPush \<lparr>pu_url = [], pu_headers = [], pu_connections = 0,
     pu_expected_rate_per_conn = F0, pu_hold_for = 0\<rparr>"
| "builder_default (BWsFanout _) = BWsFanout \<lparr>wf_url = [], wf_headers = [], wf_connections = 0, wf_hold_for = 0,
     wf_heartbeat = 0, wf_heartbeat_frame = HbPing, wf_trigger_url = [], wf_mode = TriggerRtt\<rparr>"

type_synonym store = "builder list"

definition take_state :: "nat \<Rightarrow> store \<Rightarrow> builder \<times> store" where
  "take_state h hp = (hp ! h, hp[h := builder_default (hp ! h)])"

text \<open>The state of the plan, which the top-level functions change.\<close>

record plan_state =
  ps_scenarios :: "nat list"
  ps_vars :: var_registry
  ps_global_rate :: "rate_profile option"
  ps_saturate :: "nat option"
  ps_duration :: "duration option"
  ps_warmup :: "duration option"
  ps_cooldown :: "duration option"
  ps_runs :: "u32 option"
  ps_threads :: "nat option"
  ps_name :: "string option"
  ps_transport :: http_version_pref

definition plan_state_new :: plan_state where
  "plan_state_new = \<lparr>ps_scenarios = [], ps_vars = registry_new, ps_global_rate = None, ps_saturate = None,
     ps_duration = None, ps_warmup = None, ps_cooldown = None, ps_runs = None, ps_threads = None,
     ps_name = None, ps_transport = HvAuto\<rparr>"

record dsl_state =
  ds_plan :: plan_state
  ds_store :: store

definition dsl_new :: dsl_state where "dsl_new = \<lparr>ds_plan = plan_state_new, ds_store = []\<rparr>"

section \<open>Fluent methods\<close>

datatype fluent =
    MHeader string string
  | MBody string
  | MBodyFile string
  | MJson dyn
  | MExpectStatus int
  | MExpectStatusIn "dyn list"
  | MExpectLatencyUnder string
  | MExtractHeader string var_slot
  | MExtractStatus var_slot
  | MColdConnect
  | MReconnect bool
  | MPayload string
  | MCorrelate string
  | MHeartbeat string
  | MHeartbeatFrame string
  | MExpectedRate f64
  | MTriggerUrl string
  | MMode string
  | MKillRate f64
  | MVerifyLastEventId bool
  | MRate string
  | MSaturate int

text \<open>The value of a parser, raised as an error or handed on.\<close>

fun parsed :: "call_error + 'a \<Rightarrow> ('a \<Rightarrow> 'b) \<Rightarrow> 'b call_result" where
  "parsed (Inl e) f = Raise e"
| "parsed (Inr x) f = Ret (f x)"

fun timed :: "duration_result \<Rightarrow> call_error \<Rightarrow> (duration \<Rightarrow> 'b) \<Rightarrow> 'b call_result" where
  "timed DurNone e f = Raise e"
| "timed DurPanic e f = Abort"
| "timed (DurOk d) e f = Ret (f d)"

fun codes_of :: "dyn list \<Rightarrow> call_error + u16 list" where
  "codes_of [] = Inr []"
| "codes_of (DynInt c # xs) = (case codes_of xs of Inl e \<Rightarrow> Inl e | Inr cs \<Rightarrow> Inr (clamp_u16 c # cs))"
| "codes_of (_ # xs) = Inl (MismatchType ''integer'')"

definition set_json :: "string \<Rightarrow> request_state \<Rightarrow> request_state" where
  "set_json j s =
     (let s1 = s\<lparr>rb_body := Some (SpecJsonTemplate j)\<rparr> in
      if list_ex (\<lambda>(n, _). eq_icase n ''content-type'') (rb_headers s) then s1
      else s1\<lparr>rb_headers := rb_headers s1 @ [(''Content-Type'', ''application/json'')]\<rparr>)"

fun request_method :: "'r dsl_world \<Rightarrow> fluent \<Rightarrow> request_state \<Rightarrow> request_state call_result" where
  "request_method W (MHeader n v) s = Ret (s\<lparr>rb_headers := rb_headers s @ [(n, v)]\<rparr>)"
| "request_method W (MBody b) s =
     Ret (s\<lparr>rb_body := Some (if find_sub ''{{'' b \<noteq> None then SpecTemplate b else SpecRaw b)\<rparr>)"
| "request_method W (MBodyFile path) s =
     (case fs_read (dw_files W) path of
        Inl e \<Rightarrow> Raise (BodyFileError path e) | Inr bs \<Rightarrow> Ret (s\<lparr>rb_body := Some (SpecRaw bs)\<rparr>))"
| "request_method W (MJson v) s = parsed (dynamic_to_json W v) (\<lambda>j. set_json j s)"
| "request_method W (MExpectStatus c) s = Ret (s\<lparr>rb_checks := rb_checks s @ [StatusEq (clamp_u16 c)]\<rparr>)"
| "request_method W (MExpectStatusIn xs) s =
     parsed (codes_of xs) (\<lambda>cs. s\<lparr>rb_checks := rb_checks s @ [StatusIn cs]\<rparr>)"
| "request_method W (MExpectLatencyUnder t) s =
     timed (dsl_parse_duration t) (BadDuration ''latency'' t) (\<lambda>d. s\<lparr>rb_checks := rb_checks s @ [LatencyUnder d]\<rparr>)"
| "request_method W (MExtractHeader n slot) s =
     (case dw_header_name W n of
        None \<Rightarrow> Raise (BadHeaderName n)
      | Some name \<Rightarrow> Ret (s\<lparr>rb_extract := rb_extract s @ [ExtractHeader name slot]\<rparr>))"
| "request_method W (MExtractStatus slot) s = Ret (s\<lparr>rb_extract := rb_extract s @ [ExtractStatusCode slot]\<rparr>)"
| "request_method W MColdConnect s = Ret (s\<lparr>rb_cold := True\<rparr>)"
| "request_method W _ s = Raise FunctionNotFound"

fun scenario_method :: "'r dsl_world \<Rightarrow> fluent \<Rightarrow> scenario_state \<Rightarrow> scenario_state call_result" where
  "scenario_method W (MRate spec) s =
     (case parse_rate_with_unit (dw_float W) spec of
        Inl e \<Rightarrow> Raise (BadRate e) | Inr r \<Rightarrow> Ret (s\<lparr>sc_rate := Some (Constant r)\<rparr>))"
| "scenario_method W (MSaturate n) s = Ret (s\<lparr>sc_rate := Some (Saturate (nat (max n 1)))\<rparr>)"
| "scenario_method W _ s = Raise FunctionNotFound"

fun sse_hold_method :: "fluent \<Rightarrow> sse_hold_state \<Rightarrow> sse_hold_state call_result" where
  "sse_hold_method (MHeader n v) s = Ret (s\<lparr>hb_headers := hb_headers s @ [(n, v)]\<rparr>)"
| "sse_hold_method (MReconnect b) s = Ret (s\<lparr>hb_reconnect := b\<rparr>)"
| "sse_hold_method _ s = Raise FunctionNotFound"

fun sse_fanout_method :: "fluent \<Rightarrow> sse_fanout_state \<Rightarrow> sse_fanout_state call_result" where
  "sse_fanout_method (MTriggerUrl u) s = Ret (s\<lparr>fb_trigger_url := u\<rparr>)"
| "sse_fanout_method (MReconnect b) s = Ret (s\<lparr>fb_reconnect := b\<rparr>)"
| "sse_fanout_method (MHeader n v) s = Ret (s\<lparr>fb_headers := fb_headers s @ [(n, v)]\<rparr>)"
| "sse_fanout_method (MMode k) s = parsed (parse_fanout_mode k) (\<lambda>m. s\<lparr>fb_mode := m\<rparr>)"
| "sse_fanout_method _ s = Raise FunctionNotFound"

fun sse_storm_method :: "fluent \<Rightarrow> sse_storm_state \<Rightarrow> sse_storm_state call_result" where
  "sse_storm_method (MKillRate r) s = Ret (s\<lparr>sb_kill_rate_per_s := r\<rparr>)"
| "sse_storm_method (MVerifyLastEventId b) s = Ret (s\<lparr>sb_verify_last_event_id := b\<rparr>)"
| "sse_storm_method (MHeader n v) s = Ret (s\<lparr>sb_headers := sb_headers s @ [(n, v)]\<rparr>)"
| "sse_storm_method _ s = Raise FunctionNotFound"

fun ws_echo_method :: "fluent \<Rightarrow> ws_echo_state \<Rightarrow> ws_echo_state call_result" where
  "ws_echo_method (MHeader n v) s = Ret (s\<lparr>eb_headers := eb_headers s @ [(n, v)]\<rparr>)"
| "ws_echo_method (MPayload t) s = Ret (s\<lparr>eb_payload := t\<rparr>)"
| "ws_echo_method (MCorrelate k) s = parsed (parse_correlate k) (\<lambda>m. s\<lparr>eb_correlate := m\<rparr>)"
| "ws_echo_method _ s = Raise FunctionNotFound"

text \<open>A heartbeat that is not a duration is 25 seconds.\<close>

definition heartbeat_of :: "f64_arith \<Rightarrow> string \<Rightarrow> (duration \<Rightarrow> 'b) \<Rightarrow> 'b call_result" where
  "heartbeat_of F i f = (case duration_or F (secs 25) i of Some d \<Rightarrow> Ret (f d) | None \<Rightarrow> Abort)"

fun ws_hold_method :: "'r dsl_world \<Rightarrow> fluent \<Rightarrow> ws_hold_state \<Rightarrow> ws_hold_state call_result" where
  "ws_hold_method W (MHeartbeat i) s = heartbeat_of (dw_float W) i (\<lambda>d. s\<lparr>wb_heartbeat := d\<rparr>)"
| "ws_hold_method W (MHeader n v) s = Ret (s\<lparr>wb_headers := wb_headers s @ [(n, v)]\<rparr>)"
| "ws_hold_method W (MHeartbeatFrame k) s = parsed (parse_heartbeat_frame k) (\<lambda>m. s\<lparr>wb_heartbeat_frame := m\<rparr>)"
| "ws_hold_method W _ s = Raise FunctionNotFound"

fun ws_push_method :: "fluent \<Rightarrow> ws_push_state \<Rightarrow> ws_push_state call_result" where
  "ws_push_method (MExpectedRate r) s = Ret (s\<lparr>pu_expected_rate_per_conn := r\<rparr>)"
| "ws_push_method (MHeader n v) s = Ret (s\<lparr>pu_headers := pu_headers s @ [(n, v)]\<rparr>)"
| "ws_push_method _ s = Raise FunctionNotFound"

fun ws_fanout_method :: "'r dsl_world \<Rightarrow> fluent \<Rightarrow> ws_fanout_state \<Rightarrow> ws_fanout_state call_result" where
  "ws_fanout_method W (MTriggerUrl u) s = Ret (s\<lparr>wf_trigger_url := u\<rparr>)"
| "ws_fanout_method W (MHeartbeat i) s = heartbeat_of (dw_float W) i (\<lambda>d. s\<lparr>wf_heartbeat := d\<rparr>)"
| "ws_fanout_method W (MHeader n v) s = Ret (s\<lparr>wf_headers := wf_headers s @ [(n, v)]\<rparr>)"
| "ws_fanout_method W (MHeartbeatFrame k) s = parsed (parse_heartbeat_frame k) (\<lambda>m. s\<lparr>wf_heartbeat_frame := m\<rparr>)"
| "ws_fanout_method W (MMode k) s = parsed (parse_fanout_mode k) (\<lambda>m. s\<lparr>wf_mode := m\<rparr>)"
| "ws_fanout_method W _ s = Raise FunctionNotFound"

fun map_result :: "('a \<Rightarrow> 'b) \<Rightarrow> 'a call_result \<Rightarrow> 'b call_result" where
  "map_result f (Ret x) = Ret (f x)"
| "map_result f (Raise e) = Raise e"
| "map_result f Abort = Abort"

fun builder_method :: "'r dsl_world \<Rightarrow> fluent \<Rightarrow> builder \<Rightarrow> builder call_result" where
  "builder_method W m (BScenario s) = map_result BScenario (scenario_method W m s)"
| "builder_method W m (BRequest s) = map_result BRequest (request_method W m s)"
| "builder_method W m (BHold s) = map_result BHold (sse_hold_method m s)"
| "builder_method W m (BFanout s) = map_result BFanout (sse_fanout_method m s)"
| "builder_method W m (BStorm s) = map_result BStorm (sse_storm_method m s)"
| "builder_method W m (BEcho s) = map_result BEcho (ws_echo_method m s)"
| "builder_method W m (BWsHold s) = map_result BWsHold (ws_hold_method W m s)"
| "builder_method W m (BPush s) = map_result BPush (ws_push_method m s)"
| "builder_method W m (BWsFanout s) = map_result BWsFanout (ws_fanout_method W m s)"

end
