(* ===== verification/Script.thy ===== *)
theory Script
  imports Dsl
begin

text \<open>
  From builders to a plan (\<open>compile_step\<close>, \<open>finalize_state\<close> of \<open>zerobench-dsl/src/builders.rs\<close>), the
  functions registered with the engine, and the loader of \<open>zerobench-dsl/src/lib.rs\<close>.
\<close>

section \<open>Compiling steps\<close>

text \<open>Compilation threads the variable registry and stops at the first error.\<close>

type_synonym 'a compile = "comp_state \<Rightarrow> script_error + (comp_state \<times> 'a)"

definition comp_return :: "'a \<Rightarrow> 'a compile" where "comp_return a st = Inr (st, a)"

definition comp_bind :: "'a compile \<Rightarrow> ('a \<Rightarrow> 'b compile) \<Rightarrow> 'b compile" where
  "comp_bind m f st = (case m st of Inl e \<Rightarrow> Inl e | Inr (st', a) \<Rightarrow> f a st')"

fun comp_list :: "('a \<Rightarrow> 'b compile) \<Rightarrow> 'a list \<Rightarrow> 'b list compile" where
  "comp_list f [] = comp_return []"
| "comp_list f (x # xs) = comp_bind (f x) (\<lambda>y. comp_bind (comp_list f xs) (\<lambda>ys. comp_return (y # ys)))"

definition compile_tpl :: "'r dsl_world \<Rightarrow> string \<Rightarrow> string \<Rightarrow> field_label \<Rightarrow> template compile" where
  "compile_tpl W src scenario field st =
     (case compile_template (dw_world W) src st of
        (st', Inl e) \<Rightarrow> Inl (ScTemplate scenario field e)
      | (st', Inr t) \<Rightarrow> Inr (st', t))"

definition compile_headers :: "'r dsl_world \<Rightarrow> (string \<times> string) list \<Rightarrow> string \<Rightarrow> string \<Rightarrow> headers compile" where
  "compile_headers W raw scenario kind =
     comp_list (\<lambda>(name, val).
       comp_bind (compile_tpl W name scenario (FieldHeaderName kind name)) (\<lambda>n.
       comp_bind (compile_tpl W val scenario (FieldHeaderValue kind name val)) (\<lambda>v.
       comp_return (n, v)))) raw"

definition into_step :: "scenario \<Rightarrow> step" where "into_step s = hd (sn_steps s)"

definition compile_spec :: "'r dsl_world \<Rightarrow> body_spec option \<Rightarrow> string \<Rightarrow> body_source option compile" where
  "compile_spec W body scenario =
     (case body of
        None \<Rightarrow> comp_return None
      | Some (SpecRaw bs) \<Rightarrow> comp_return (Some (BodyStatic bs))
      | Some (SpecTemplate src) \<Rightarrow>
          comp_bind (compile_tpl W src scenario FieldBody) (\<lambda>t. comp_return (Some (BodyTemplate t)))
      | Some (SpecJsonTemplate src) \<Rightarrow>
          comp_bind (compile_tpl W src scenario FieldBody) (\<lambda>t. comp_return (Some (BodyTemplate t))))"

definition compile_req :: "'r dsl_world \<Rightarrow> request_state \<Rightarrow> string \<Rightarrow> step compile" where
  "compile_req W s scenario =
     comp_bind (compile_tpl W (rb_url s) scenario (FieldUrl [] (rb_url s))) (\<lambda>url.
     comp_bind (compile_headers W (rb_headers s) scenario ''request'') (\<lambda>hs.
     comp_bind (compile_spec W (rb_body s) scenario) (\<lambda>body.
       (let request = \<lparr>rq_method = rb_method s, rq_url = url, rq_headers = hs, rq_body = body,
              rq_extract = rb_extract s, rq_checks = rb_checks s, rq_expect_streaming = False\<rparr>;
            placeholder = Saturate 1
        in comp_return (into_step
             (if rb_cold s then scenario_http_cold_connect scenario placeholder request
              else scenario_http_request scenario placeholder request))))))"

definition compile_trigger :: "'r dsl_world \<Rightarrow> string \<Rightarrow> string \<Rightarrow> string \<Rightarrow> trigger_spec compile" where
  "compile_trigger W kind url scenario =
     comp_bind (compile_tpl W url scenario (FieldTriggerUrl kind url)) (\<lambda>t. comp_return (HttpPost t None))"

definition no_trigger :: "string \<Rightarrow> string \<Rightarrow> script_error" where
  "no_trigger scenario kind =
     ScTemplate scenario (FieldNoTrigger kind) (NotYetSupported (kind @ '' requires .trigger_url(...)''))"

fun compile_builder :: "'r dsl_world \<Rightarrow> string \<Rightarrow> builder \<Rightarrow> step compile" where
  "compile_builder W scenario (BHold s) =
     comp_bind (compile_tpl W (hb_url s) scenario (FieldUrl ''sse_hold'' (hb_url s))) (\<lambda>url.
     comp_bind (compile_headers W (hb_headers s) scenario ''sse_hold'') (\<lambda>hs.
       comp_return (into_step (scenario_sse_hold scenario (hb_subscribers s) (hb_hold_for s) url hs (hb_reconnect s)))))"
| "compile_builder W scenario (BEcho s) =
     comp_bind (compile_tpl W (eb_url s) scenario (FieldUrl ''ws_echo_rtt'' (eb_url s))) (\<lambda>url.
     comp_bind (compile_headers W (eb_headers s) scenario ''ws_echo_rtt'') (\<lambda>hs.
     comp_bind (compile_tpl W (eb_payload s) scenario FieldPayload) (\<lambda>payload.
       comp_return (into_step (scenario_ws_echo_rtt scenario (Saturate 1) url hs (eb_connections s)
         (eb_msg_rate_per_conn s) payload (eb_correlate s))))))"
| "compile_builder W scenario (BWsHold s) =
     comp_bind (compile_tpl W (wb_url s) scenario (FieldUrl ''ws_hold'' (wb_url s))) (\<lambda>url.
     comp_bind (compile_headers W (wb_headers s) scenario ''ws_hold'') (\<lambda>hs.
       comp_return (into_step (scenario_ws_hold scenario (wb_connections s) (wb_hold_for s) url hs
         (wb_heartbeat s) (wb_heartbeat_frame s)))))"
| "compile_builder W scenario (BFanout s) =
     (if fb_trigger_url s = [] then (\<lambda>st. Inl (no_trigger scenario ''sse_fanout''))
      else
        comp_bind (compile_tpl W (fb_url s) scenario (FieldUrl ''sse_fanout'' (fb_url s))) (\<lambda>url.
        comp_bind (compile_headers W (fb_headers s) scenario ''sse_fanout'') (\<lambda>hs.
        comp_bind (compile_trigger W ''sse_fanout'' (fb_trigger_url s) scenario) (\<lambda>t.
          comp_return (into_step (scenario_sse_fanout scenario (fb_subscribers s) (fb_hold_for s) url hs
            (fb_reconnect s) t (fb_mode s)))))))"
| "compile_builder W scenario (BStorm s) =
     comp_bind (compile_tpl W (sb_url s) scenario (FieldUrl ''sse_reconnect_storm'' (sb_url s))) (\<lambda>url.
     comp_bind (compile_headers W (sb_headers s) scenario ''sse_reconnect_storm'') (\<lambda>hs.
       comp_return (into_step (scenario_sse_reconnect_storm scenario (sb_subscribers s) (sb_hold_for s) url hs
         (sb_kill_rate_per_s s) (sb_verify_last_event_id s)))))"
| "compile_builder W scenario (BWsFanout s) =
     (if wf_trigger_url s = [] then (\<lambda>st. Inl (no_trigger scenario ''ws_fanout''))
      else
        comp_bind (compile_tpl W (wf_url s) scenario (FieldUrl ''ws_fanout'' (wf_url s))) (\<lambda>url.
        comp_bind (compile_headers W (wf_headers s) scenario ''ws_fanout'') (\<lambda>hs.
        comp_bind (compile_trigger W ''ws_fanout'' (wf_trigger_url s) scenario) (\<lambda>t.
          comp_return (into_step (scenario_ws_fanout scenario (wf_connections s) (wf_hold_for s) url hs
            (wf_heartbeat s) (wf_heartbeat_frame s) t (wf_mode s)))))))"
| "compile_builder W scenario (BPush s) =
     comp_bind (compile_tpl W (pu_url s) scenario (FieldUrl ''ws_server_push'' (pu_url s))) (\<lambda>url.
     comp_bind (compile_headers W (pu_headers s) scenario ''ws_server_push'') (\<lambda>hs.
       comp_return (into_step (scenario_ws_server_push_rtt scenario (pu_connections s) (pu_hold_for s) url hs
         (pu_expected_rate_per_conn s)))))"
| "compile_builder W scenario (BRequest s) = compile_req W s scenario"
| "compile_builder W scenario (BScenario s) = (\<lambda>st. Inl (ScEval ''not a step''))"

text \<open>
  Compiling a step takes the state out of its builder. No step is the handle of a scenario
  (lemma \<open>call_keeps\<close>), so the last equation above is never used.
\<close>

fun compile_step :: "'r dsl_world \<Rightarrow> string \<Rightarrow> step_source \<Rightarrow> store
     \<Rightarrow> comp_state \<Rightarrow> script_error + (store \<times> comp_state \<times> step)" where
  "compile_step W scenario (SrcPause d) hp st = Inr (hp, st, Pause d)"
| "compile_step W scenario (SrcPauseRandom a b) hp st = Inr (hp, st, PauseRandom a b)"
| "compile_step W scenario (SrcBuilder h) hp st =
     (let (b, hp') = take_state h hp in
      case compile_builder W scenario b st of
        Inl e \<Rightarrow> Inl e
      | Inr (st', s) \<Rightarrow> Inr (hp', st', s))"

fun compile_steps :: "'r dsl_world \<Rightarrow> string \<Rightarrow> step_source list \<Rightarrow> store
     \<Rightarrow> comp_state \<Rightarrow> script_error + (store \<times> comp_state \<times> step list)" where
  "compile_steps W scenario [] hp st = Inr (hp, st, [])"
| "compile_steps W scenario (x # xs) hp st =
     (case compile_step W scenario x hp st of
        Inl e \<Rightarrow> Inl e
      | Inr (hp1, st1, s) \<Rightarrow>
          (case compile_steps W scenario xs hp1 st1 of
             Inl e \<Rightarrow> Inl e
           | Inr (hp2, st2, ss) \<Rightarrow> Inr (hp2, st2, s # ss)))"

section \<open>Rates\<close>

fun scale_rate :: "f64_arith \<Rightarrow> rate_profile \<Rightarrow> f64 \<Rightarrow> rate_profile" where
  "scale_rate F (Constant r) share = Constant (fa_mul F r share)"
| "scale_rate F (Ramp a b over) share = Ramp (fa_mul F a share) (fa_mul F b share) over"
| "scale_rate F (Stepped pts) share = Stepped (map (\<lambda>(d, r). (d, fa_mul F r share)) pts)"
| "scale_rate F (Saturate n) share = Saturate n"

definition resolve_scenario_rate ::
  "f64_arith \<Rightarrow> rate_profile option \<Rightarrow> rate_profile option \<Rightarrow> nat option \<Rightarrow> f64 option \<Rightarrow> f64 option
     \<Rightarrow> f64 \<Rightarrow> rate_profile" where
  "resolve_scenario_rate F explicit glob satur weight auto_weight total_weight =
     (case explicit of
        Some r \<Rightarrow> r
      | None \<Rightarrow>
          (case glob of
             Some g \<Rightarrow>
               (let share = (case (weight, auto_weight) of
                      (Some w, _) \<Rightarrow> (if f64_above_zero total_weight then fa_div F w (f64_max_epsilon total_weight) else F0)
                    | (None, Some auto) \<Rightarrow> auto
                    | (None, None) \<Rightarrow> F0)
                in scale_rate F g share)
           | None \<Rightarrow> Saturate (case satur of Some n \<Rightarrow> n | None \<Rightarrow> 50)))"

section \<open>Finalisation\<close>

fun scenario_at :: "store \<Rightarrow> nat \<Rightarrow> scenario_state" where
  "scenario_at hp h = (case hp ! h of BScenario s \<Rightarrow> s | _ \<Rightarrow> scenario_builder_new [] None)"

declare scenario_at.simps [simp del]

text \<open>The sum of the explicit weights, in the order of the scenarios, and how many there are.\<close>

definition weights_of :: "store \<Rightarrow> nat list \<Rightarrow> f64 list" where
  "weights_of hp hs = List.map_filter (\<lambda>h. sc_weight (scenario_at hp h)) hs"

definition weight_sum :: "f64_arith \<Rightarrow> store \<Rightarrow> nat list \<Rightarrow> f64" where
  "weight_sum F hp hs = foldl (fa_add F) F0 (weights_of hp hs)"

definition auto_weight_of :: "f64_arith \<Rightarrow> store \<Rightarrow> nat list \<Rightarrow> f64 option" where
  "auto_weight_of F hp hs =
     (if length (weights_of hp hs) = 0 then Some (fa_div F F1 (fa_of_int F (int (length hs)))) else None)"

fun finalize_scenarios :: "'r dsl_world \<Rightarrow> plan_state \<Rightarrow> f64 option \<Rightarrow> f64 \<Rightarrow> nat list \<Rightarrow> store
     \<Rightarrow> comp_state \<Rightarrow> script_error + (comp_state \<times> scenario list)" where
  "finalize_scenarios W ps auto total_weight [] hp st = Inr (st, [])"
| "finalize_scenarios W ps auto total_weight (h # hs) hp st =
     (let s = scenario_at hp h; hp0 = snd (take_state h hp) in
      case compile_steps W (sc_name s) (sc_steps s) hp0 st of
        Inl e \<Rightarrow> Inl e
      | Inr (hp1, st1, steps) \<Rightarrow>
          (let rate = resolve_scenario_rate (dw_float W) (sc_rate s) (ps_global_rate ps) (ps_saturate ps)
                 (sc_weight s) auto total_weight
           in case finalize_scenarios W ps auto total_weight hs hp1 st1 of
                Inl e \<Rightarrow> Inl e
              | Inr (st2, sns) \<Rightarrow> Inr (st2, \<lparr>sn_name = sc_name s, sn_rate = rate, sn_steps = steps\<rparr> # sns)))"

definition or_default :: "'a \<Rightarrow> 'a option \<Rightarrow> 'a" where
  "or_default d x = (case x of Some y \<Rightarrow> y | None \<Rightarrow> d)"

definition plan_out :: "plan_state \<Rightarrow> duration \<Rightarrow> var_registry \<Rightarrow> scenario list \<Rightarrow> plan" where
  "plan_out ps d vars sns =
     \<lparr>pl_scenarios = sns, pl_vars = vars, pl_duration = d, pl_warmup = or_default 0 (ps_warmup ps),
      pl_cooldown = or_default 0 (ps_cooldown ps), pl_runs = max (or_default 1 (ps_runs ps)) 1,
      pl_threads = max (or_default 1 (ps_threads ps)) 1, pl_mode = Measure, pl_name = or_default [] (ps_name ps)\<rparr>"

definition finalize_state :: "'r dsl_world \<Rightarrow> dsl_state \<Rightarrow> script_error + (plan \<times> http_version_pref)" where
  "finalize_state W ds =
     (let ps = ds_plan ds; hp = ds_store ds in
      if ps_scenarios ps = [] then Inl ScNoScenarios
      else case ps_duration ps of
        None \<Rightarrow> Inl ScMissingDuration
      | Some d \<Rightarrow>
          (if ps_global_rate ps \<noteq> None \<and> list_ex (\<lambda>h. sc_rate (scenario_at hp h) \<noteq> None) (ps_scenarios ps)
           then Inl ScConflictingRate
           else case finalize_scenarios W ps (auto_weight_of (dw_float W) hp (ps_scenarios ps))
                  (weight_sum (dw_float W) hp (ps_scenarios ps)) (ps_scenarios ps) hp
                  \<lparr>co_vars = ps_vars ps, co_cursors = 0\<rparr> of
             Inl e \<Rightarrow> Inl e
           | Inr (st, sns) \<Rightarrow> Inr (plan_out ps d (co_vars st) sns, ps_transport ps)))"

text \<open>The URL of the first step on the wire; a pause has none.\<close>

fun builder_url :: "builder \<Rightarrow> string option" where
  "builder_url (BRequest s) = Some (rb_url s)"
| "builder_url (BHold s) = Some (hb_url s)"
| "builder_url (BFanout s) = Some (fb_url s)"
| "builder_url (BStorm s) = Some (sb_url s)"
| "builder_url (BEcho s) = Some (eb_url s)"
| "builder_url (BWsHold s) = Some (wb_url s)"
| "builder_url (BPush s) = Some (pu_url s)"
| "builder_url (BWsFanout s) = Some (wf_url s)"
| "builder_url (BScenario s) = None"

fun source_url :: "store \<Rightarrow> step_source \<Rightarrow> string option" where
  "source_url hp (SrcBuilder h) = builder_url (hp ! h)"
| "source_url hp (SrcPause d) = None"
| "source_url hp (SrcPauseRandom a b) = None"

fun first_found :: "('a \<Rightarrow> 'b option) \<Rightarrow> 'a list \<Rightarrow> 'b option" where
  "first_found f [] = None"
| "first_found f (x # xs) = (case f x of Some y \<Rightarrow> Some y | None \<Rightarrow> first_found f xs)"

lemma first_found_Some: "first_found f xs = Some y \<Longrightarrow> \<exists>x \<in> set xs. f x = Some y"
  by (induction xs) (auto split: option.splits)

definition first_request_url :: "dsl_state \<Rightarrow> string option" where
  "first_request_url ds =
     first_found (\<lambda>h. first_found (source_url (ds_store ds)) (sc_steps (scenario_at (ds_store ds) h)))
       (ps_scenarios (ds_plan ds))"

section \<open>The registered functions\<close>

datatype weight_arg = NoWeight | WeightFloat f64 | WeightInt int

datatype hold_arg = HoldText string | HoldSecs int

datatype rate_arg = RateFloat f64 | RateInt int

datatype call =
    CScenario string weight_arg
  | CRate string
  | CSaturate int
  | CDuration string
  | CWarmup string
  | CCooldown string
  | CRuns int
  | CThreads int
  | CPlanName string
  | CTransport string
  | CEnv string
  | CEnvOr string string
  | CSlot string
  | CParseInt string
  | CParseFloat string
  | CRequest string string
  | CSseHold string int hold_arg
  | CWsEchoRtt string int rate_arg
  | CWsHold string int hold_arg
  | CWsServerPush string int hold_arg
  | CSseFanout string int string
  | CWsFanout string int string
  | CSseReconnectStorm string int string
  | CFluent nat fluent
  | CStep nat nat

datatype answer =
    AUnit
  | ABuilder nat
  | AText string
  | ASlot var_slot string
  | AInt int
  | AFloat f64

definition METHODS :: "string list" where
  "METHODS = [''GET'', ''POST'', ''PUT'', ''DELETE'', ''PATCH'', ''HEAD'', ''OPTIONS'']"

text \<open>A new cell at the end of the store; its handle is the answer.\<close>

definition new_builder_cell :: "builder \<Rightarrow> dsl_state \<Rightarrow> dsl_state \<times> answer call_result" where
  "new_builder_cell b ds = (ds\<lparr>ds_store := ds_store ds @ [b]\<rparr>, Ret (ABuilder (length (ds_store ds))))"

definition set_plan :: "(plan_state \<Rightarrow> plan_state) \<Rightarrow> dsl_state \<Rightarrow> dsl_state \<times> answer call_result" where
  "set_plan f ds = (ds\<lparr>ds_plan := f (ds_plan ds)\<rparr>, Ret AUnit)"

definition plan_duration ::
  "string \<Rightarrow> string \<Rightarrow> (duration \<Rightarrow> plan_state \<Rightarrow> plan_state) \<Rightarrow> dsl_state \<Rightarrow> dsl_state \<times> answer call_result" where
  "plan_duration m spec f ds =
     (case dsl_parse_duration spec of
        DurNone \<Rightarrow> (ds, Raise (BadDuration m spec))
      | DurPanic \<Rightarrow> (ds, Abort)
      | DurOk d \<Rightarrow> set_plan (f d) ds)"

fun weight_of :: "f64_arith \<Rightarrow> weight_arg \<Rightarrow> f64 option" where
  "weight_of F NoWeight = None"
| "weight_of F (WeightFloat w) = Some w"
| "weight_of F (WeightInt w) = Some (fa_of_int F w)"

definition call_scenario :: "'r dsl_world \<Rightarrow> string \<Rightarrow> weight_arg \<Rightarrow> dsl_state \<Rightarrow> dsl_state \<times> answer call_result" where
  "call_scenario W name w ds =
     (let h = length (ds_store ds); ps = ds_plan ds in
      new_builder_cell (BScenario (scenario_builder_new name (weight_of (dw_float W) w)))
        (ds\<lparr>ds_plan := ps\<lparr>ps_scenarios := ps_scenarios ps @ [h]\<rparr>\<rparr>))"

definition call_transport :: "string \<Rightarrow> dsl_state \<Rightarrow> dsl_state \<times> answer call_result" where
  "call_transport which ds =
     (let use = (\<lambda>v. set_plan (\<lambda>ps. ps\<lparr>ps_transport := v\<rparr>) ds) in
      if which = ''auto'' then use HvAuto
      else if which \<in> {''h1'', ''http1''} then use HvHttp1
      else if which \<in> {''h2'', ''http2''} then use HvHttp2
      else (ds, Raise (BadTransport which)))"

definition call_slot :: "string \<Rightarrow> dsl_state \<Rightarrow> dsl_state \<times> answer call_result" where
  "call_slot name ds =
     (case allocate name (ps_vars (ds_plan ds)) of
        (vars, r) \<Rightarrow>
          (ds\<lparr>ds_plan := (ds_plan ds)\<lparr>ps_vars := vars\<rparr>\<rparr>,
           case r of Inl e \<Rightarrow> Raise (SlotError e) | Inr slot \<Rightarrow> Ret (ASlot slot name)))"

fun hold_duration :: "f64_arith \<Rightarrow> hold_arg \<Rightarrow> duration option" where
  "hold_duration F (HoldText s) = hold_for_from_str F s"
| "hold_duration F (HoldSecs n) = Some (hold_for_from_secs n)"

fun echo_rate :: "f64_arith \<Rightarrow> rate_arg \<Rightarrow> f64" where
  "echo_rate F (RateFloat r) = r"
| "echo_rate F (RateInt n) = fa_of_int F n"

text \<open>The constructor of a builder that holds connections for a while.\<close>

definition held_cell ::
  "duration option \<Rightarrow> (duration \<Rightarrow> builder) \<Rightarrow> dsl_state \<Rightarrow> dsl_state \<times> answer call_result" where
  "held_cell d mk ds = (case d of None \<Rightarrow> (ds, Abort) | Some x \<Rightarrow> new_builder_cell (mk x) ds)"

text \<open>A fluent call answers with its receiver, and with unit on a scenario.\<close>

definition fluent_answer :: "builder \<Rightarrow> nat \<Rightarrow> answer" where
  "fluent_answer b h = (case b of BScenario _ \<Rightarrow> AUnit | _ \<Rightarrow> ABuilder h)"

definition call_fluent :: "'r dsl_world \<Rightarrow> nat \<Rightarrow> fluent \<Rightarrow> dsl_state \<Rightarrow> dsl_state \<times> answer call_result" where
  "call_fluent W h m ds =
     (if length (ds_store ds) \<le> h then (ds, Raise FunctionNotFound)
      else (case builder_method W m (ds_store ds ! h) of
         Ret b \<Rightarrow> (ds\<lparr>ds_store := (ds_store ds)[h := b]\<rparr>, Ret (fluent_answer b h))
       | Raise e \<Rightarrow> (ds, Raise e)
       | Abort \<Rightarrow> (ds, Abort)))"

definition call_step :: "nat \<Rightarrow> nat \<Rightarrow> dsl_state \<Rightarrow> dsl_state \<times> answer call_result" where
  "call_step sh h ds =
     (let hp = ds_store ds in
      if length hp \<le> sh \<or> length hp \<le> h then (ds, Raise FunctionNotFound)
      else (case (hp ! sh, hp ! h) of
         (BScenario s, BScenario _) \<Rightarrow> (ds, Raise FunctionNotFound)
       | (BScenario s, _) \<Rightarrow>
           (ds\<lparr>ds_store := hp[sh := BScenario (s\<lparr>sc_steps := sc_steps s @ [SrcBuilder h]\<rparr>)]\<rparr>, Ret AUnit)
       | _ \<Rightarrow> (ds, Raise FunctionNotFound)))"

definition call_number :: "'a option \<Rightarrow> ('a \<Rightarrow> answer) \<Rightarrow> string \<Rightarrow> dsl_state \<Rightarrow> dsl_state \<times> answer call_result" where
  "call_number x f s ds = (ds, case x of Some n \<Rightarrow> Ret (f n) | None \<Rightarrow> Raise (BadNumber s))"

fun dsl_call :: "'r dsl_world \<Rightarrow> call \<Rightarrow> dsl_state \<Rightarrow> dsl_state \<times> answer call_result" where
  "dsl_call W (CScenario name w) ds = call_scenario W name w ds"
| "dsl_call W (CRate spec) ds =
     (case parse_rate_with_unit (dw_float W) spec of
        Inl e \<Rightarrow> (ds, Raise (BadRate e))
      | Inr r \<Rightarrow> set_plan (\<lambda>ps. ps\<lparr>ps_global_rate := Some (Constant r)\<rparr>) ds)"
| "dsl_call W (CSaturate n) ds = set_plan (\<lambda>ps. ps\<lparr>ps_saturate := Some (nat (max n 1))\<rparr>) ds"
| "dsl_call W (CDuration spec) ds = plan_duration ''duration'' spec (\<lambda>d ps. ps\<lparr>ps_duration := Some d\<rparr>) ds"
| "dsl_call W (CWarmup spec) ds = plan_duration ''warmup'' spec (\<lambda>d ps. ps\<lparr>ps_warmup := Some d\<rparr>) ds"
| "dsl_call W (CCooldown spec) ds = plan_duration ''cooldown'' spec (\<lambda>d ps. ps\<lparr>ps_cooldown := Some d\<rparr>) ds"
| "dsl_call W (CRuns n) ds = set_plan (\<lambda>ps. ps\<lparr>ps_runs := Some (word_of_int (max n 1))\<rparr>) ds"
| "dsl_call W (CThreads n) ds = set_plan (\<lambda>ps. ps\<lparr>ps_threads := Some (nat (max n 1))\<rparr>) ds"
| "dsl_call W (CPlanName name) ds = set_plan (\<lambda>ps. ps\<lparr>ps_name := Some name\<rparr>) ds"
| "dsl_call W (CTransport which) ds = call_transport which ds"
| "dsl_call W (CEnv name) ds =
     (ds, case w_env (dw_world W) name of Some v \<Rightarrow> Ret (AText v) | None \<Rightarrow> Raise (EnvNotSet name))"
| "dsl_call W (CEnvOr name dflt) ds =
     (ds, Ret (AText (case w_env (dw_world W) name of Some v \<Rightarrow> v | None \<Rightarrow> dflt)))"
| "dsl_call W (CSlot name) ds = call_slot name ds"
| "dsl_call W (CParseInt s) ds = call_number (parse_i64 (trim s)) AInt s ds"
| "dsl_call W (CParseFloat s) ds = call_number (fa_parse (dw_float W) (trim s)) AFloat s ds"
| "dsl_call W (CRequest m url) ds =
     (if m \<in> set METHODS then new_builder_cell (BRequest (request_builder_new m url)) ds
      else (ds, Raise FunctionNotFound))"
| "dsl_call W (CSseHold url n d) ds =
     held_cell (hold_duration (dw_float W) d) (\<lambda>x. BHold (sse_hold_new url (clamp_u32_min1 n) x)) ds"
| "dsl_call W (CWsEchoRtt url n r) ds =
     new_builder_cell (BEcho (ws_echo_new url (clamp_u32_min1 n) (echo_rate (dw_float W) r))) ds"
| "dsl_call W (CWsHold url n d) ds =
     held_cell (hold_duration (dw_float W) d) (\<lambda>x. BWsHold (ws_hold_new url (clamp_u32_min1 n) x)) ds"
| "dsl_call W (CWsServerPush url n d) ds =
     held_cell (hold_duration (dw_float W) d) (\<lambda>x. BPush (ws_push_new url (clamp_u32_min1 n) x)) ds"
| "dsl_call W (CSseFanout url n d) ds =
     held_cell (hold_for_from_str (dw_float W) d) (\<lambda>x. BFanout (sse_fanout_new url (clamp_u32_min1 n) x)) ds"
| "dsl_call W (CWsFanout url n d) ds =
     held_cell (hold_for_from_str (dw_float W) d) (\<lambda>x. BWsFanout (ws_fanout_new url (clamp_u32_min1 n) x)) ds"
| "dsl_call W (CSseReconnectStorm url n d) ds =
     held_cell (hold_for_from_str (dw_float W) d) (\<lambda>x. BStorm (sse_storm_new url (clamp_u32_min1 n) x)) ds"
| "dsl_call W (CFluent h m) ds = call_fluent W h m ds"
| "dsl_call W (CStep sh h) ds = call_step sh h ds"

section \<open>The loader\<close>

text \<open>
  The engine sees the answers of its calls, errors included, and decides what to do next. It stops
  by itself after ten million operations, of which every call is one; the fuel stands for that.
\<close>

datatype engine_act = DoCall call | EngineOk | EngineErr string bool

type_synonym engine = "string \<Rightarrow> (call_error + answer) list \<Rightarrow> engine_act"

datatype 's script_end = RunEnded 's | RunFailed string bool | RunPanicked

fun run_script :: "'r dsl_world \<Rightarrow> ((call_error + answer) list \<Rightarrow> engine_act) \<Rightarrow> nat
     \<Rightarrow> (call_error + answer) list \<Rightarrow> dsl_state \<Rightarrow> dsl_state script_end" where
  "run_script W E 0 log ds = RunFailed ''Too many operations'' False"
| "run_script W E (Suc n) log ds =
     (case E log of
        EngineOk \<Rightarrow> RunEnded ds
      | EngineErr msg parsing \<Rightarrow> RunFailed msg parsing
      | DoCall c \<Rightarrow>
          (case dsl_call W c ds of
             (ds', Ret a) \<Rightarrow> run_script W E n (log @ [Inr a]) ds'
           | (ds', Raise e) \<Rightarrow> run_script W E n (log @ [Inl e]) ds'
           | (_, Abort) \<Rightarrow> RunPanicked))"

definition MAX_OPERATIONS :: nat where "MAX_OPERATIONS = 10000000"

text \<open>The name between the first two quotes of a message.\<close>

definition quoted_name :: "string \<Rightarrow> string" where
  "quoted_name msg =
     (case find_pos (\<lambda>c. c = CHR 0x22) msg of
        None \<Rightarrow> []
      | Some s \<Rightarrow>
          (let rest = drop (s + 1) msg in
           case find_pos (\<lambda>c. c = CHR 0x22) rest of None \<Rightarrow> [] | Some e \<Rightarrow> take e rest))"

definition script_failure :: "string \<Rightarrow> bool \<Rightarrow> script_error" where
  "script_failure msg parsing =
     (if find_sub ''env variable'' msg \<noteq> None \<and> find_sub ''not set and no default supplied'' msg \<noteq> None
      then ScMissingEnv (quoted_name msg)
      else if parsing then ScParse msg else ScEval msg)"

definition url_authority :: "string \<Rightarrow> string" where
  "url_authority url =
     (let after_scheme = (case find_sub ''://'' url of Some i \<Rightarrow> i + 3 | None \<Rightarrow> 0);
          authority_end = (case find_pos url_delim (drop after_scheme url) of
             Some i \<Rightarrow> after_scheme + i | None \<Rightarrow> length url)
      in take authority_end url)"

definition parse_target_strict :: "string \<Rightarrow> script_error + target" where
  "parse_target_strict url =
     (let authority = url_authority url in
      if find_sub ''{{'' authority \<noteq> None then Inl (ScTemplatedHost url)
      else (case target_parse authority of
              Inl e \<Rightarrow> Inl (ScInvalidUrl url e) | Inr t \<Rightarrow> Inr t))"

record loaded_script =
  lo_plan :: plan
  lo_target :: target
  lo_http_version :: http_version_pref

definition finish_script :: "'r dsl_world \<Rightarrow> dsl_state \<Rightarrow> (script_error + loaded_script) option" where
  "finish_script W ds =
     (let first_url_opt = first_request_url ds in
      case (case first_url_opt of
              None \<Rightarrow> Inr None
            | Some u \<Rightarrow> (case parse_target_strict u of Inl e \<Rightarrow> Inl e | Inr t \<Rightarrow> Inr (Some t))) of
        Inl e \<Rightarrow> Some (Inl e)
      | Inr target_opt \<Rightarrow>
          (case finalize_state W ds of
             Inl e \<Rightarrow> Some (Inl e)
           | Inr (pl, http_version) \<Rightarrow>
               (if first_url_opt = None then Some (Inl ScNoRequestSteps)
                else (case target_opt of
                        None \<Rightarrow> None
                      | Some t \<Rightarrow> Some (Inr \<lparr>lo_plan = pl, lo_target = t, lo_http_version = http_version\<rparr>)))))"

text \<open>\<open>None\<close> is a panic.\<close>

definition load_script_str :: "'r dsl_world \<Rightarrow> engine \<Rightarrow> string \<Rightarrow> (script_error + loaded_script) option" where
  "load_script_str W E src =
     (case run_script W (E src) MAX_OPERATIONS [] dsl_new of
        RunPanicked \<Rightarrow> None
      | RunFailed msg parsing \<Rightarrow> Some (Inl (script_failure msg parsing))
      | RunEnded ds \<Rightarrow> finish_script W ds)"

definition load_script :: "'r dsl_world \<Rightarrow> engine \<Rightarrow> string \<Rightarrow> (script_error + loaded_script) option" where
  "load_script W E path =
     (case fs_read_to_string (dw_files W) path of
        Inl e \<Rightarrow> Some (Inl (ScIo path e))
      | Inr src \<Rightarrow> load_script_str W E src)"

section \<open>Compilation keeps the registry\<close>

lemma parse_expression_registry:
  "parse_expression W e st = (st', r) \<Longrightarrow> registry_ok (co_vars st) \<Longrightarrow> registry_ok (co_vars st')"
  unfolding parse_expression_def Let_def
  by (auto split: if_splits option.splits sum.splits prod.splits dest: allocate_ok)

lemma compile_loop_registry:
  "compile_loop W i bs lit parts st = (st', r) \<Longrightarrow> registry_ok (co_vars st) \<Longrightarrow> registry_ok (co_vars st')"
proof (induction W i bs lit parts st rule: compile_loop.induct)
  case (1 W i bs lit parts st)
  note prems = "1.prems" [unfolded compile_loop.simps [of W i bs lit parts st]]
  show ?case
  proof (cases bs)
    case Nil
    then show ?thesis using prems by simp
  next
    case (Cons b rest)
    consider (open_esc) "b = CHR ''{''" "is_prefix ''{'' rest" "is_prefix ''{{{'' rest"
      | (expr) "b = CHR ''{''" "is_prefix ''{'' rest" "\<not> is_prefix ''{{{'' rest"
      | (close_esc) "b = CHR ''}''" "is_prefix ''}}}'' rest"
      | (plain) "\<not> (b = CHR ''{'' \<and> is_prefix ''{'' rest)" "\<not> (b = CHR ''}'' \<and> is_prefix ''}}}'' rest)"
      by auto
    then show ?thesis
    proof cases
      case open_esc
      then show ?thesis using prems "1.IH"(1) [OF Cons] Cons by simp
    next
      case expr
      then consider n where "find_double_close (drop 2 bs) = Some n" "valid_utf8 (take n (drop 2 bs))"
        | "registry_ok (co_vars st')"
        using prems Cons by (auto simp: Let_def split: option.splits if_splits)
      then show ?thesis
      proof cases
        case (1 n)
        obtain st1 q where q: "parse_expression W (take n (drop 2 bs)) st = (st1, q)" by fastforce
        show ?thesis
        proof (cases q)
          case (Inl e)
          then show ?thesis using prems Cons expr 1 q parse_expression_registry [OF q] by (simp add: Let_def)
        next
          case (Inr part)
          have "compile_loop W (i + n + 4) (drop (n + 4) bs) [] (flush_literal lit parts @ [part]) st1 = (st', r)"
            using prems Cons expr 1 q Inr by (simp add: Let_def)
          then show ?thesis
            using "1.IH"(2) [OF Cons conjI [OF expr(1,2)] expr(3) 1(1) refl, of st1 q part] 1 q Inr
              parse_expression_registry [OF q] "1.prems"(2) by simp
        qed
      qed
    next
      case close_esc
      then show ?thesis using prems "1.IH"(3) [OF Cons] Cons by simp
    next
      case plain
      then show ?thesis using prems "1.IH"(4) [OF Cons] Cons by auto
    qed
  qed
qed

lemma compile_template_registry:
  "compile_template W src st = (st', r) \<Longrightarrow> registry_ok (co_vars st) \<Longrightarrow> registry_ok (co_vars st')"
  by (auto simp: compile_template_def Let_def split: prod.splits sum.splits dest: compile_loop_registry)

text \<open>A compilation that ends well leaves a good registry.\<close>

definition registry_safe :: "'a compile \<Rightarrow> bool" where
  "registry_safe m = (\<forall>st st' a. m st = Inr (st', a) \<longrightarrow> registry_ok (co_vars st) \<longrightarrow> registry_ok (co_vars st'))"

named_theorems safe_intros

lemma safe_return [safe_intros]: "registry_safe (comp_return a)"
  by (simp add: registry_safe_def comp_return_def)

lemma safe_bind [safe_intros]: "registry_safe m \<Longrightarrow> (\<And>a. registry_safe (f a)) \<Longrightarrow> registry_safe (comp_bind m f)"
  unfolding registry_safe_def comp_bind_def
  by (auto split: sum.splits) blast

lemma safe_fail [safe_intros]: "registry_safe (\<lambda>st. Inl e)"
  by (simp add: registry_safe_def)

lemma safe_tpl [safe_intros]: "registry_safe (compile_tpl W src scenario field)"
  by (auto simp: registry_safe_def compile_tpl_def split: prod.splits sum.splits dest: compile_template_registry)

lemma safe_list [safe_intros]: "(\<And>x. registry_safe (f x)) \<Longrightarrow> registry_safe (comp_list f xs)"
  by (induction xs) (auto intro!: safe_intros)

lemma safe_headers [safe_intros]: "registry_safe (compile_headers W raw scenario kind)"
  unfolding compile_headers_def by (intro safe_intros) (auto intro!: safe_intros split: prod.splits)

lemma safe_spec [safe_intros]: "registry_safe (compile_spec W body scenario)"
  by (auto simp: compile_spec_def intro!: safe_intros split: option.splits body_spec.splits)

lemma safe_trigger [safe_intros]: "registry_safe (compile_trigger W kind url scenario)"
  unfolding compile_trigger_def by (intro safe_intros)

lemma safe_builder: "registry_safe (compile_builder W scenario b)"
  by (cases b) (auto simp: compile_req_def Let_def intro!: safe_intros)

lemma comp_bind_Inr:
  "comp_bind m f st = Inr (st', b) \<longleftrightarrow> (\<exists>st1 a. m st = Inr (st1, a) \<and> f a st1 = Inr (st', b))"
  by (auto simp: comp_bind_def split: sum.splits)

lemmas into_steps = into_step_def scenario_http_request_def scenario_http_cold_connect_def scenario_sse_hold_def
  scenario_sse_fanout_def scenario_sse_reconnect_storm_def scenario_ws_echo_rtt_def scenario_ws_hold_def
  scenario_ws_server_push_rtt_def scenario_ws_fanout_def

lemma builder_on_wire: "compile_builder W scenario b st = Inr (st', s) \<Longrightarrow> step_protocol s \<noteq> None"
  by (cases b) (auto simp: compile_req_def comp_bind_Inr comp_return_def into_steps Let_def split: if_splits)

section \<open>The store\<close>

definition is_scenario :: "builder \<Rightarrow> bool" where
  "is_scenario b = (case b of BScenario _ \<Rightarrow> True | _ \<Rightarrow> False)"

lemma is_scenario_simps [simp]:
  "is_scenario (BScenario s)" "\<not> is_scenario (BRequest q)" "\<not> is_scenario (BHold h)" "\<not> is_scenario (BFanout f)"
  "\<not> is_scenario (BStorm t)" "\<not> is_scenario (BEcho e)" "\<not> is_scenario (BWsHold w)" "\<not> is_scenario (BPush p)"
  "\<not> is_scenario (BWsFanout g)"
  by (simp_all add: is_scenario_def)

lemma is_scenarioE: "is_scenario b \<Longrightarrow> (\<And>s. b = BScenario s \<Longrightarrow> P) \<Longrightarrow> P"
  by (cases b) simp_all

text \<open>The step of a scenario is the handle of a builder that is none.\<close>

definition source_ok :: "store \<Rightarrow> step_source \<Rightarrow> bool" where
  "source_ok hp src = (\<exists>h. src = SrcBuilder h \<and> h < length hp \<and> \<not> is_scenario (hp ! h))"

fun cell_ok :: "store \<Rightarrow> builder \<Rightarrow> bool" where
  "cell_ok hp (BScenario s) = list_all (source_ok hp) (sc_steps s)"
| "cell_ok hp _ = True"

definition dsl_ok :: "dsl_state \<Rightarrow> bool" where
  "dsl_ok ds =
     (let hp = ds_store ds; ps = ds_plan ds in
      list_all (cell_ok hp) hp \<and> distinct (ps_scenarios ps)
      \<and> (\<forall>h \<in> set (ps_scenarios ps). h < length hp \<and> is_scenario (hp ! h))
      \<and> registry_ok (ps_vars ps))"

lemma dsl_ok_new: "dsl_ok dsl_new"
  by (simp add: dsl_ok_def dsl_new_def plan_state_new_def registry_ok_def registry_new_def)

lemma source_ok_append: "source_ok hp x \<Longrightarrow> source_ok (hp @ [b]) x"
  by (auto simp: source_ok_def nth_append)

lemma source_ok_update: "source_ok hp x \<Longrightarrow> is_scenario b = is_scenario (hp ! h) \<Longrightarrow> source_ok (hp[h := b]) x"
  unfolding source_ok_def by (metis length_list_update nth_list_update_eq nth_list_update_neq)

lemma cell_ok_append: "cell_ok hp x \<Longrightarrow> cell_ok (hp @ [b]) x"
  by (cases x) (auto simp: list_all_iff intro: source_ok_append)

lemma cell_ok_update: "cell_ok hp x \<Longrightarrow> is_scenario b = is_scenario (hp ! h) \<Longrightarrow> cell_ok (hp[h := b]) x"
  by (cases x) (auto simp: list_all_iff intro: source_ok_update)

text \<open>Adding a cell and replacing one keep the store well-formed.\<close>

lemma dsl_ok_append:
  assumes "dsl_ok ds" "cell_ok (ds_store ds) b"
  shows "dsl_ok (ds\<lparr>ds_store := ds_store ds @ [b]\<rparr>)"
  using assms by (auto simp: dsl_ok_def Let_def list_all_iff nth_append intro: cell_ok_append)

lemma dsl_ok_update:
  assumes "dsl_ok ds" "h < length (ds_store ds)" "is_scenario b = is_scenario (ds_store ds ! h)"
    and "cell_ok (ds_store ds) b"
  shows "dsl_ok (ds\<lparr>ds_store := (ds_store ds)[h := b]\<rparr>)"
proof -
  have "cell_ok ((ds_store ds)[h := b]) x" if "x \<in> set ((ds_store ds)[h := b])" for x
    using assms that set_update_subset_insert [of "ds_store ds" h b]
    by (intro cell_ok_update) (auto simp: dsl_ok_def Let_def list_all_iff)
  then show ?thesis using assms by (auto simp: dsl_ok_def Let_def list_all_iff nth_list_update)
qed

lemma set_plan_ok:
  assumes "dsl_ok ds" "ps_scenarios (f (ds_plan ds)) = ps_scenarios (ds_plan ds)" "ps_vars (f (ds_plan ds)) = ps_vars (ds_plan ds)"
  shows "dsl_ok (fst (set_plan f ds))"
  using assms by (simp add: set_plan_def dsl_ok_def Let_def)

text \<open>A fluent call keeps the kind of its builder and the steps, name and weight of a scenario.\<close>

lemma scenario_method_keeps:
  "scenario_method W m s = Ret s' \<Longrightarrow> sc_steps s' = sc_steps s \<and> sc_name s' = sc_name s \<and> sc_weight s' = sc_weight s"
  by (cases m) (auto split: sum.splits)

lemma map_result_Ret: "map_result f r = Ret b \<longleftrightarrow> (\<exists>x. r = Ret x \<and> b = f x)"
  by (cases r) auto

lemma builder_method_keeps:
  "builder_method W m b = Ret b' \<Longrightarrow> is_scenario b' = is_scenario b \<and> (cell_ok hp b \<longrightarrow> cell_ok hp b')"
  by (cases b) (auto simp: map_result_Ret dest: scenario_method_keeps)

lemma new_cell_ok: "dsl_ok ds \<Longrightarrow> \<not> is_scenario b \<Longrightarrow> dsl_ok (fst (new_builder_cell b ds))"
  by (cases b) (auto simp: new_builder_cell_def intro!: dsl_ok_append)

lemma held_cell_ok: "dsl_ok ds \<Longrightarrow> (\<And>x. \<not> is_scenario (mk x)) \<Longrightarrow> dsl_ok (fst (held_cell d mk ds))"
  by (auto simp: held_cell_def new_cell_ok split: option.splits)

lemma call_scenario_ok:
  assumes "dsl_ok ds"
  shows "dsl_ok (fst (call_scenario W name w ds))"
proof -
  let ?b = "BScenario (scenario_builder_new name (weight_of (dw_float W) w))"
  have "dsl_ok (ds\<lparr>ds_store := ds_store ds @ [?b]\<rparr>)"
    using dsl_ok_append [OF assms, of ?b] by (simp add: scenario_builder_new_def)
  moreover have "length (ds_store ds) \<notin> set (ps_scenarios (ds_plan ds))"
    using assms by (auto simp: dsl_ok_def Let_def)
  ultimately show ?thesis by (simp add: call_scenario_def new_builder_cell_def Let_def dsl_ok_def)
qed

lemma call_fluent_ok:
  assumes "dsl_ok ds"
  shows "dsl_ok (fst (call_fluent W h m ds))"
proof (cases "h < length (ds_store ds) \<and> (\<exists>b. builder_method W m (ds_store ds ! h) = Ret b)")
  case True
  then obtain b where b: "h < length (ds_store ds)" "builder_method W m (ds_store ds ! h) = Ret b" by blast
  have "cell_ok (ds_store ds) (ds_store ds ! h)" using assms b(1) by (auto simp: dsl_ok_def Let_def list_all_iff)
  then have "dsl_ok (ds\<lparr>ds_store := (ds_store ds)[h := b]\<rparr>)"
    using builder_method_keeps [OF b(2)] dsl_ok_update [OF assms b(1)] by blast
  then show ?thesis using b by (simp add: call_fluent_def)
next
  case False
  then show ?thesis using assms by (auto simp: call_fluent_def split: call_result.splits)
qed

lemma call_step_ok:
  assumes "dsl_ok ds"
  shows "dsl_ok (fst (call_step sh h ds))"
proof (cases "\<exists>s. sh < length (ds_store ds) \<and> h < length (ds_store ds) \<and> ds_store ds ! sh = BScenario s
    \<and> \<not> is_scenario (ds_store ds ! h)")
  case True
  then obtain s where s: "sh < length (ds_store ds)" "h < length (ds_store ds)" "ds_store ds ! sh = BScenario s"
    "\<not> is_scenario (ds_store ds ! h)" by blast
  let ?b = "BScenario (s\<lparr>sc_steps := sc_steps s @ [SrcBuilder h]\<rparr>)"
  have "cell_ok (ds_store ds) (ds_store ds ! sh)"
    using assms s(1) by (simp add: dsl_ok_def Let_def list_all_length del: cell_ok.simps)
  then have "cell_ok (ds_store ds) ?b" using s by (simp add: source_ok_def)
  then have "dsl_ok (ds\<lparr>ds_store := (ds_store ds)[sh := ?b]\<rparr>)"
    using dsl_ok_update [OF assms s(1), of ?b] s(3) by simp
  moreover have "fst (call_step sh h ds) = ds\<lparr>ds_store := (ds_store ds)[sh := ?b]\<rparr>"
    using s by (cases "ds_store ds ! h") (auto simp: call_step_def Let_def)
  ultimately show ?thesis by simp
next
  case False
  then show ?thesis using assms
    by (cases "ds_store ds ! sh"; cases "ds_store ds ! h") (auto simp: call_step_def Let_def)
qed

lemma plan_duration_ok:
  assumes "dsl_ok ds" "\<And>d ps. ps_scenarios (f d ps) = ps_scenarios ps \<and> ps_vars (f d ps) = ps_vars ps"
  shows "dsl_ok (fst (plan_duration m spec f ds))"
  using assms by (auto simp: plan_duration_def set_plan_ok split: duration_result.splits)

lemma call_slot_ok: "dsl_ok ds \<Longrightarrow> dsl_ok (fst (call_slot name ds))"
  by (auto simp: call_slot_def dsl_ok_def Let_def split: prod.splits dest: allocate_ok)

text \<open>Every registered function keeps the store well-formed, whatever it answers.\<close>

lemma call_keeps: "dsl_ok ds \<Longrightarrow> dsl_ok (fst (dsl_call W c ds))"
  by (cases c)
    (auto simp: call_scenario_ok call_fluent_ok call_step_ok plan_duration_ok call_slot_ok held_cell_ok new_cell_ok
      set_plan_ok call_transport_def call_number_def Let_def split: sum.splits)

text \<open>What a run has done to the builders is a sequence of calls.\<close>

definition run_calls :: "'r dsl_world \<Rightarrow> call list \<Rightarrow> dsl_state \<Rightarrow> dsl_state" where
  "run_calls W cs ds = fold (\<lambda>c ds. fst (dsl_call W c ds)) cs ds"

lemma run_calls_simps [simp]:
  "run_calls W [] ds = ds" "run_calls W (c # cs) ds = run_calls W cs (fst (dsl_call W c ds))"
  "run_calls W (cs @ cs') ds = run_calls W cs' (run_calls W cs ds)"
  by (simp_all add: run_calls_def)

lemma run_calls_ok: "dsl_ok ds \<Longrightarrow> dsl_ok (run_calls W cs ds)"
  by (induction cs arbitrary: ds) (simp_all add: call_keeps)

lemma run_script_calls: "run_script W E n log ds = RunEnded ds' \<Longrightarrow> \<exists>cs. ds' = run_calls W cs ds"
proof (induction n arbitrary: log ds)
  case (Suc n)
  show ?case
  proof (cases "E log")
    case (DoCall c)
    obtain ds1 r where c: "dsl_call W c ds = (ds1, r)" by fastforce
    then obtain log' where "run_script W E n log' ds1 = RunEnded ds'"
      using Suc.prems DoCall by (cases r) auto
    from Suc.IH [OF this] obtain cs where "ds' = run_calls W cs ds1" by blast
    then have "ds' = run_calls W (c # cs) ds" by (simp add: c)
    then show ?thesis by blast
  qed (use Suc.prems in \<open>auto intro: exI [of _ "[]"]\<close>)
qed simp

lemma run_script_ok: "run_script W E n log ds = RunEnded ds' \<Longrightarrow> dsl_ok ds \<Longrightarrow> dsl_ok ds'"
  using run_script_calls run_calls_ok by blast

section \<open>Finalisation\<close>

text \<open>An error of the compilation names the scenario it is in.\<close>

definition located :: "string \<Rightarrow> 'a compile \<Rightarrow> bool" where
  "located scenario m = (\<forall>st e. m st = Inl e \<longrightarrow> (\<exists>field te. e = ScTemplate scenario field te))"

named_theorems located_intros

lemma located_return [located_intros]: "located sc (comp_return a)"
  by (simp add: located_def comp_return_def)

lemma located_bind [located_intros]: "located sc m \<Longrightarrow> (\<And>a. located sc (f a)) \<Longrightarrow> located sc (comp_bind m f)"
  by (auto simp: located_def comp_bind_def split: sum.splits)

lemma located_trigger_missing [located_intros]: "located sc (\<lambda>st. Inl (no_trigger sc kind))"
  by (simp add: located_def no_trigger_def)

lemma located_tpl [located_intros]: "located sc (compile_tpl W src sc field)"
  by (auto simp: located_def compile_tpl_def split: prod.splits sum.splits)

lemma located_list [located_intros]: "(\<And>x. located sc (f x)) \<Longrightarrow> located sc (comp_list f xs)"
  by (induction xs) (auto intro!: located_intros)

lemma located_headers [located_intros]: "located sc (compile_headers W raw sc kind)"
  unfolding compile_headers_def by (intro located_intros) (auto intro!: located_intros split: prod.splits)

lemma located_spec [located_intros]: "located sc (compile_spec W body sc)"
  by (auto simp: compile_spec_def intro!: located_intros split: option.splits body_spec.splits)

lemma located_trigger [located_intros]: "located sc (compile_trigger W kind url sc)"
  unfolding compile_trigger_def by (intro located_intros)

lemma builder_located: "\<not> is_scenario b \<Longrightarrow> located sc (compile_builder W sc b)"
  by (cases b) (auto simp: compile_req_def Let_def intro!: located_intros)

text \<open>Taking states out keeps the store well-formed and touches only the cells taken.\<close>

definition store_ok :: "store \<Rightarrow> bool" where "store_ok hp = list_all (cell_ok hp) hp"

lemma default_kind [simp]: "is_scenario (builder_default b) = is_scenario b" "cell_ok hp (builder_default b)"
  by (cases b; simp)+

lemma take_store_ok: "store_ok hp \<Longrightarrow> store_ok (hp[h := builder_default (hp ! h)])"
  unfolding store_ok_def list_all_iff
  by (metis cell_ok_update default_kind insert_iff set_update_subset_insert subset_iff)

fun source_handles :: "step_source \<Rightarrow> nat list" where
  "source_handles (SrcBuilder h) = [h]"
| "source_handles _ = []"

definition handles_of :: "step_source list \<Rightarrow> nat list" where
  "handles_of xs = concat (map source_handles xs)"

lemma handles_of_simps [simp]: "handles_of [] = []" "handles_of (x # xs) = source_handles x @ handles_of xs"
  by (simp_all add: handles_of_def)

lemma compile_steps_store:
  "compile_steps W sc xs hp st = Inr (hp', st', ss) \<Longrightarrow> store_ok hp \<Longrightarrow>
   store_ok hp' \<and> length hp' = length hp \<and> (\<forall>k. is_scenario (hp' ! k) = is_scenario (hp ! k))
   \<and> (\<forall>k. k \<notin> set (handles_of xs) \<longrightarrow> hp' ! k = hp ! k)
   \<and> length ss = length xs \<and> (registry_ok (co_vars st) \<longrightarrow> registry_ok (co_vars st'))"
proof (induction xs arbitrary: hp st hp' st' ss)
  case (Cons x xs)
  then obtain hp1 st1 s ss' where one: "compile_step W sc x hp st = Inr (hp1, st1, s)"
    and more: "compile_steps W sc xs hp1 st1 = Inr (hp', st', ss')" and ss: "ss = s # ss'"
    by (auto split: sum.splits prod.splits)
  have reg: "registry_ok (co_vars st) \<longrightarrow> registry_ok (co_vars st1)"
    using one safe_builder unfolding registry_safe_def
    by (cases x) (fastforce simp: take_state_def split: sum.splits prod.splits)+
  have "store_ok hp1 \<and> length hp1 = length hp \<and> (\<forall>k. is_scenario (hp1 ! k) = is_scenario (hp ! k))
      \<and> (\<forall>k. k \<notin> set (source_handles x) \<longrightarrow> hp1 ! k = hp ! k)"
  proof (cases x)
    case (SrcBuilder h)
    then have "hp1 = hp[h := builder_default (hp ! h)]"
      using one by (auto simp: take_state_def split: sum.splits prod.splits)
    moreover have "is_scenario (hp[h := builder_default (hp ! h)] ! k) = is_scenario (hp ! k)" for k
      by (metis default_kind(1) list_update_beyond linorder_not_less nth_list_update_eq nth_list_update_neq)
    ultimately show ?thesis using take_store_ok [OF Cons.prems(2)] SrcBuilder by simp
  qed (use one Cons.prems(2) in simp_all)
  then show ?case using Cons.IH [OF more] reg ss by auto
qed simp

lemma compile_steps_wire:
  "compile_steps W sc xs hp st = Inr (hp', st', ss) \<Longrightarrow> list_all (source_ok hp0) xs \<Longrightarrow>
   \<forall>s \<in> set ss. step_protocol s \<noteq> None"
proof (induction xs arbitrary: hp st hp' st' ss)
  case (Cons x xs)
  then obtain hp1 st1 s ss' where one: "compile_step W sc x hp st = Inr (hp1, st1, s)"
    and more: "compile_steps W sc xs hp1 st1 = Inr (hp', st', ss')" and ss: "ss = s # ss'"
    by (auto split: sum.splits prod.splits)
  have "step_protocol s \<noteq> None"
    using one Cons.prems(2) builder_on_wire by (auto simp: source_ok_def take_state_def split: sum.splits prod.splits)
  then show ?case using Cons.IH [OF more] Cons.prems(2) ss by simp
qed simp

lemma compile_steps_located:
  "compile_steps W sc xs hp st = Inl e \<Longrightarrow> list_all (source_ok hp) xs \<Longrightarrow> \<exists>f te. e = ScTemplate sc f te"
proof (induction xs arbitrary: hp st)
  case (Cons x xs)
  then obtain h where h: "x = SrcBuilder h" "h < length hp" "\<not> is_scenario (hp ! h)" by (auto simp: source_ok_def)
  let ?hp = "hp[h := builder_default (hp ! h)]"
  show ?case
  proof (cases "compile_builder W sc (hp ! h) st")
    case (Inl e')
    then show ?thesis using Cons.prems(1) h builder_located [OF h(3), of sc W] by (auto simp: take_state_def located_def)
  next
    case (Inr r)
    then obtain st1 where "compile_steps W sc xs ?hp st1 = Inl e"
      using Cons.prems(1) h(1) by (auto simp: take_state_def split: prod.splits sum.splits)
    moreover have "list_all (source_ok ?hp) xs"
      using Cons.prems(2) by (auto simp: list_all_iff intro!: source_ok_update)
    ultimately show ?thesis by (rule Cons.IH)
  qed
qed simp

text \<open>The scenarios of a plan: in order, with their names, one step on the wire per step added.\<close>

definition scenario_handles :: "store \<Rightarrow> nat list \<Rightarrow> bool" where
  "scenario_handles hp hs = (distinct hs \<and> (\<forall>h \<in> set hs. h < length hp \<and> is_scenario (hp ! h)))"

lemma scenario_at_cell: "h < length hp \<Longrightarrow> is_scenario (hp ! h) \<Longrightarrow> hp ! h = BScenario (scenario_at hp h)"
  by (auto simp: scenario_at.simps elim: is_scenarioE)

lemma scenario_at_same: "hp' ! h = hp ! h \<Longrightarrow> scenario_at hp' h = scenario_at hp h"
  by (simp add: scenario_at.simps)

lemma scenario_sources: "store_ok hp \<Longrightarrow> h < length hp \<Longrightarrow> is_scenario (hp ! h) \<Longrightarrow> list_all (source_ok hp) (sc_steps (scenario_at hp h))"
  unfolding store_ok_def by (metis cell_ok.simps(1) list_all_length scenario_at_cell)

lemma handles_not_scenarios:
  "list_all (source_ok hp) xs \<Longrightarrow> k \<in> set (handles_of xs) \<Longrightarrow> \<not> is_scenario (hp ! k) \<and> k < length hp"
  by (induction xs) (auto simp: source_ok_def)

text \<open>What is left to finalise is as before once a scenario has been taken and its steps compiled.\<close>

lemma one_scenario:
  assumes "store_ok hp" "scenario_handles hp (h # hs)"
    and "compile_steps W sc (sc_steps (scenario_at hp h)) (snd (take_state h hp)) st = Inr (hp1, st1, steps)"
  shows "store_ok hp1" "scenario_handles hp1 hs" "\<forall>k \<in> set hs. hp1 ! k = hp ! k" "length hp1 = length hp"
    "\<forall>k. k \<noteq> h \<longrightarrow> k \<notin> set (handles_of (sc_steps (scenario_at hp h))) \<longrightarrow> hp1 ! k = hp ! k"
proof -
  let ?hp = "hp[h := builder_default (hp ! h)]" and ?xs = "sc_steps (scenario_at hp h)"
  have h: "h < length hp" "is_scenario (hp ! h)" "h \<notin> set hs" "distinct hs" using assms(2) by (auto simp: scenario_handles_def)
  have kind: "is_scenario (?hp ! k) = is_scenario (hp ! k)" for k
    by (metis default_kind(1) list_update_beyond linorder_not_less nth_list_update_eq nth_list_update_neq)
  have c: "store_ok hp1" "length hp1 = length hp" "\<And>k. is_scenario (hp1 ! k) = is_scenario (hp ! k)"
    "\<And>k. k \<notin> set (handles_of ?xs) \<Longrightarrow> hp1 ! k = ?hp ! k"
    using compile_steps_store [OF assms(3)] take_store_ok [OF assms(1), of h] kind by (simp_all add: take_state_def)
  have out: "k \<notin> set (handles_of ?xs)" if "k \<in> set hs" for k
    using handles_not_scenarios [OF scenario_sources [OF assms(1) h(1,2)]] that assms(2) by (auto simp: scenario_handles_def)
  show "store_ok hp1" "length hp1 = length hp" using c by simp_all
  show "\<forall>k \<in> set hs. hp1 ! k = hp ! k" using c(4) out h(3) by (metis nth_list_update_neq)
  show "\<forall>k. k \<noteq> h \<longrightarrow> k \<notin> set (handles_of ?xs) \<longrightarrow> hp1 ! k = hp ! k" using c(4) by simp
  show "scenario_handles hp1 hs" using assms(2) c(2,3) by (simp add: scenario_handles_def)
qed

lemma finalize_scenarios_shape:
  assumes "finalize_scenarios W ps auto tot hs hp st = Inr (st', sns)" "store_ok hp" "scenario_handles hp hs"
  shows "map (\<lambda>sn. (sn_name sn, length (sn_steps sn))) sns
      = map (\<lambda>h. (sc_name (scenario_at hp h), length (sc_steps (scenario_at hp h)))) hs
    \<and> (\<forall>sn \<in> set sns. \<forall>s \<in> set (sn_steps sn). step_protocol s \<noteq> None)
    \<and> (registry_ok (co_vars st) \<longrightarrow> registry_ok (co_vars st'))"
  using assms
proof (induction hs arbitrary: hp st sns)
  case (Cons h hs)
  let ?s = "scenario_at hp h"
  obtain hp1 st1 steps sns' where one: "compile_steps W (sc_name ?s) (sc_steps ?s) (snd (take_state h hp)) st = Inr (hp1, st1, steps)"
    and more: "finalize_scenarios W ps auto tot hs hp1 st1 = Inr (st', sns')"
    and sns: "sns = \<lparr>sn_name = sc_name ?s, sn_rate = resolve_scenario_rate (dw_float W) (sc_rate ?s) (ps_global_rate ps)
      (ps_saturate ps) (sc_weight ?s) auto tot, sn_steps = steps\<rparr> # sns'"
    using Cons.prems(1) by (auto simp: Let_def split: sum.splits prod.splits)
  note keep = one_scenario [OF Cons.prems(2,3) one]
  have h: "h < length hp" "is_scenario (hp ! h)" using Cons.prems(3) by (auto simp: scenario_handles_def)
  have names: "map (\<lambda>h. (sc_name (scenario_at hp1 h), length (sc_steps (scenario_at hp1 h)))) hs
      = map (\<lambda>h. (sc_name (scenario_at hp h), length (sc_steps (scenario_at hp h)))) hs"
    using keep(3) by (simp add: scenario_at_same [of hp1 _ hp])
  note IH = Cons.IH [OF more keep(1,2), unfolded names]
  have "store_ok (snd (take_state h hp))" using take_store_ok [OF Cons.prems(2)] by (simp add: take_state_def)
  then have "length steps = length (sc_steps ?s)" "registry_ok (co_vars st) \<longrightarrow> registry_ok (co_vars st1)"
    using compile_steps_store [OF one] by blast+
  moreover note compile_steps_wire [OF one scenario_sources [OF Cons.prems(2) h]]
  ultimately show ?case unfolding sns using IH by auto
qed simp

lemma finalize_scenarios_located:
  assumes "finalize_scenarios W ps auto tot hs hp st = Inl e" "store_ok hp" "scenario_handles hp hs"
  shows "\<exists>h \<in> set hs. \<exists>f te. e = ScTemplate (sc_name (scenario_at hp h)) f te"
  using assms
proof (induction hs arbitrary: hp st)
  case (Cons h hs)
  let ?s = "scenario_at hp h" and ?hp = "snd (take_state h hp)"
  have h: "h < length hp" "is_scenario (hp ! h)" using Cons.prems(3) by (auto simp: scenario_handles_def)
  show ?case
  proof (cases "compile_steps W (sc_name ?s) (sc_steps ?s) ?hp st")
    case (Inl e')
    have "list_all (source_ok ?hp) (sc_steps ?s)"
      using scenario_sources [OF Cons.prems(2) h]
      by (auto simp: list_all_iff take_state_def intro!: source_ok_update)
    then show ?thesis using Inl Cons.prems(1) compile_steps_located [OF Inl]
      by (auto simp: Let_def)
  next
    case (Inr r)
    then obtain hp1 st1 steps where one: "compile_steps W (sc_name ?s) (sc_steps ?s) ?hp st = Inr (hp1, st1, steps)"
      by (cases r) auto
    then have "finalize_scenarios W ps auto tot hs hp1 st1 = Inl e"
      using Cons.prems(1) by (auto simp: Let_def split: sum.splits prod.splits)
    from Cons.IH [OF this] obtain k f te where "k \<in> set hs" "e = ScTemplate (sc_name (scenario_at hp1 k)) f te"
      using one_scenario(1,2) [OF Cons.prems(2,3) one] by blast
    moreover from this have "scenario_at hp1 k = scenario_at hp k"
      using one_scenario(3) [OF Cons.prems(2,3) one] scenario_at_same by blast
    ultimately show ?thesis by auto
  qed
qed simp

section \<open>Builders as values\<close>

text \<open>
  The reference: finalisation of builders that are values. The store is only read, so it does not
  matter whether a builder is shared.
\<close>

fun value_step :: "'r dsl_world \<Rightarrow> store \<Rightarrow> string \<Rightarrow> step_source \<Rightarrow> step compile" where
  "value_step W hp sc (SrcBuilder h) = compile_builder W sc (hp ! h)"
| "value_step W hp sc (SrcPause d) = comp_return (Pause d)"
| "value_step W hp sc (SrcPauseRandom a b) = comp_return (PauseRandom a b)"

definition value_scenario :: "'r dsl_world \<Rightarrow> store \<Rightarrow> plan_state \<Rightarrow> f64 option \<Rightarrow> f64 \<Rightarrow> nat \<Rightarrow> scenario compile" where
  "value_scenario W hp ps auto tot h =
     (let s = scenario_at hp h in
      comp_bind (comp_list (value_step W hp (sc_name s)) (sc_steps s)) (\<lambda>steps.
        comp_return \<lparr>sn_name = sc_name s,
          sn_rate = resolve_scenario_rate (dw_float W) (sc_rate s) (ps_global_rate ps) (ps_saturate ps) (sc_weight s) auto tot,
          sn_steps = steps\<rparr>))"

definition value_finalize :: "'r dsl_world \<Rightarrow> dsl_state \<Rightarrow> script_error + (plan \<times> http_version_pref)" where
  "value_finalize W ds =
     (let ps = ds_plan ds; hp = ds_store ds; hs = ps_scenarios ps in
      if hs = [] then Inl ScNoScenarios
      else case ps_duration ps of
        None \<Rightarrow> Inl ScMissingDuration
      | Some d \<Rightarrow>
          (if ps_global_rate ps \<noteq> None \<and> list_ex (\<lambda>h. sc_rate (scenario_at hp h) \<noteq> None) hs
           then Inl ScConflictingRate
           else case comp_list (value_scenario W hp ps (auto_weight_of (dw_float W) hp hs) (weight_sum (dw_float W) hp hs)) hs
                  \<lparr>co_vars = ps_vars ps, co_cursors = 0\<rparr> of
             Inl e \<Rightarrow> Inl e
           | Inr (st, sns) \<Rightarrow> Inr (plan_out ps d (co_vars st) sns, ps_transport ps)))"

definition step_handles :: "store \<Rightarrow> nat list \<Rightarrow> nat list" where
  "step_handles hp hs = concat (map (\<lambda>h. handles_of (sc_steps (scenario_at hp h))) hs)"

lemma step_handles_simps [simp]:
  "step_handles hp [] = []"
  "step_handles hp (h # hs) = handles_of (sc_steps (scenario_at hp h)) @ step_handles hp hs"
  by (simp_all add: step_handles_def)

fun without_store :: "script_error + (store \<times> comp_state \<times> 'a) \<Rightarrow> script_error + (comp_state \<times> 'a)" where
  "without_store (Inl e) = Inl e"
| "without_store (Inr (hp, st, a)) = Inr (st, a)"

lemma compile_steps_value:
  assumes "list_all (source_ok hp0) xs" "distinct (handles_of xs)" "\<forall>h \<in> set (handles_of xs). hp ! h = hp0 ! h"
  shows "without_store (compile_steps W sc xs hp st) = comp_list (value_step W hp0 sc) xs st"
  using assms
proof (induction xs arbitrary: hp st)
  case (Cons x xs)
  then obtain h where h: "x = SrcBuilder h" by (auto simp: source_ok_def)
  let ?hp = "hp[h := builder_default (hp ! h)]"
  have cell: "hp ! h = hp0 ! h" using Cons.prems(3) h by simp
  have "\<forall>k \<in> set (handles_of xs). ?hp ! k = hp0 ! k"
    using Cons.prems(2,3) h by (metis distinct.simps(2) handles_of_simps(2) append_Cons append_Nil nth_list_update_neq
        set_ConsD list.set_intros(2) source_handles.simps(1))
  then have IH: "without_store (compile_steps W sc xs ?hp st1) = comp_list (value_step W hp0 sc) xs st1" for st1
    using Cons.IH [of ?hp st1] Cons.prems(1,2) by simp
  show ?case
  proof (cases "compile_builder W sc (hp0 ! h) st")
    case (Inl e)
    then show ?thesis using h cell by (simp add: take_state_def comp_bind_def)
  next
    case (Inr r)
    then obtain st1 s where r: "compile_builder W sc (hp0 ! h) st = Inr (st1, s)" by (cases r) auto
    show ?thesis using h cell r IH [of st1, symmetric]
      by (cases "compile_steps W sc xs ?hp st1") (auto simp: take_state_def comp_bind_def comp_return_def)
  qed
qed (simp add: comp_return_def)

lemma value_scenario_steps:
  "comp_list (value_step W hp (sc_name (scenario_at hp h))) (sc_steps (scenario_at hp h)) st = Inl e \<Longrightarrow>
   value_scenario W hp ps auto tot h st = Inl e"
  "comp_list (value_step W hp (sc_name (scenario_at hp h))) (sc_steps (scenario_at hp h)) st = Inr (st1, ss) \<Longrightarrow>
   value_scenario W hp ps auto tot h st = Inr (st1, \<lparr>sn_name = sc_name (scenario_at hp h),
     sn_rate = resolve_scenario_rate (dw_float W) (sc_rate (scenario_at hp h)) (ps_global_rate ps) (ps_saturate ps)
       (sc_weight (scenario_at hp h)) auto tot, sn_steps = ss\<rparr>)"
  by (simp_all add: value_scenario_def comp_bind_def comp_return_def Let_def)

lemma finalize_scenarios_value:
  assumes "store_ok hp" "scenario_handles hp hs" "store_ok hp0" "scenario_handles hp0 hs" "distinct (step_handles hp0 hs)"
    and "\<forall>k \<in> set hs \<union> set (step_handles hp0 hs). hp ! k = hp0 ! k"
  shows "finalize_scenarios W ps auto tot hs hp st = comp_list (value_scenario W hp0 ps auto tot) hs st"
  using assms
proof (induction hs arbitrary: hp st)
  case (Cons h hs)
  let ?s = "scenario_at hp0 h" and ?hp = "snd (take_state h hp)"
  have h: "h < length hp0" "is_scenario (hp0 ! h)" using Cons.prems(4) by (auto simp: scenario_handles_def)
  have same: "scenario_at hp h = ?s" using Cons.prems(6) by (simp add: scenario_at.simps)
  note src = scenario_sources [OF Cons.prems(3) h]
  have "h \<noteq> k" if "k \<in> set (handles_of (sc_steps ?s))" for k
    using handles_not_scenarios [OF src that] h(2) by blast
  then have "\<forall>k \<in> set (handles_of (sc_steps ?s)). ?hp ! k = hp0 ! k"
    using Cons.prems(6) by (simp add: take_state_def)
  then have steps: "without_store (compile_steps W (sc_name ?s) (sc_steps ?s) ?hp st)
      = comp_list (value_step W hp0 (sc_name ?s)) (sc_steps ?s) st"
    using compile_steps_value [OF src] Cons.prems(5) by simp
  show ?case
  proof (cases "compile_steps W (sc_name ?s) (sc_steps ?s) ?hp st")
    case (Inl e)
    then show ?thesis using steps [symmetric] same value_scenario_steps(1) [of W hp0 h st e]
      by (simp add: comp_bind_def Let_def)
  next
    case (Inr r)
    then obtain hp1 st1 ss where one: "compile_steps W (sc_name ?s) (sc_steps ?s) ?hp st = Inr (hp1, st1, ss)"
      by (cases r) auto
    note keep = one_scenario [OF Cons.prems(1,2), unfolded same, OF one]
    have kept: "hp1 ! k = hp0 ! k" if "k \<in> set hs \<union> set (step_handles hp0 hs)" for k
    proof (cases "k \<in> set hs")
      case True
      then show ?thesis using keep(3) Cons.prems(6) by simp
    next
      case False
      then have "k \<in> set (step_handles hp0 hs)" using that by blast
      then obtain h' where h': "h' \<in> set hs" "k \<in> set (handles_of (sc_steps (scenario_at hp0 h')))"
        by (auto simp: step_handles_def)
      then have "\<not> is_scenario (hp0 ! k)"
        using Cons.prems(3,4) handles_not_scenarios [OF scenario_sources] by (metis list.set_intros(2) scenario_handles_def)
      then have "k \<noteq> h" using h(2) by blast
      moreover have "k \<notin> set (handles_of (sc_steps ?s))"
        using Cons.prems(5) \<open>k \<in> set (step_handles hp0 hs)\<close> by auto
      ultimately have "hp1 ! k = hp ! k" using keep(5) by blast
      then show ?thesis using Cons.prems(6) \<open>k \<in> set (step_handles hp0 hs)\<close> by simp
    qed
    have "finalize_scenarios W ps auto tot hs hp1 st1 = comp_list (value_scenario W hp0 ps auto tot) hs st1"
      using Cons.IH [OF keep(1,2)] Cons.prems(3-5) kept by (simp add: scenario_handles_def)
    then show ?thesis using steps [symmetric] one same value_scenario_steps(2) [of W hp0 h st st1 ss ps auto tot]
      by (auto simp: comp_bind_def comp_return_def Let_def split: sum.splits)
  qed
qed (simp add: comp_return_def)

text \<open>
  A builder is its own history: the calls on other builders and on the plan do not change it.
\<close>

definition after_fluent :: "'r dsl_world \<Rightarrow> fluent \<Rightarrow> builder \<Rightarrow> builder" where
  "after_fluent W m b = (case builder_method W m b of Ret b' \<Rightarrow> b' | _ \<Rightarrow> b)"

fun fluents_on :: "nat \<Rightarrow> call list \<Rightarrow> fluent list" where
  "fluents_on h [] = []"
| "fluents_on h (CFluent k m # cs) = (if k = h then m # fluents_on h cs else fluents_on h cs)"
| "fluents_on h (_ # cs) = fluents_on h cs"

lemma new_store [simp]: "\<exists>bs. ds_store (fst (new_builder_cell b ds)) = ds_store ds @ bs"
  by (simp add: new_builder_cell_def)

lemma held_store [simp]: "\<exists>bs. ds_store (fst (held_cell d mk ds)) = ds_store ds @ bs"
  by (cases d) (simp_all add: held_cell_def)

lemma plan_store [simp]:
  "ds_store (fst (set_plan f ds)) = ds_store ds" "ds_store (fst (plan_duration m spec g ds)) = ds_store ds"
  "ds_store (fst (call_transport which ds)) = ds_store ds" "ds_store (fst (call_slot name ds)) = ds_store ds"
  "ds_store (fst (call_number x h t ds)) = ds_store ds"
  by (auto simp: set_plan_def plan_duration_def call_transport_def call_slot_def call_number_def Let_def
      split: duration_result.splits prod.splits)

lemma scenario_store [simp]: "\<exists>bs. ds_store (fst (call_scenario W name w ds)) = ds_store ds @ bs"
  by (simp add: call_scenario_def new_builder_cell_def Let_def)

lemma call_store_cases:
  obtains (grow) bs where "ds_store (fst (dsl_call W c ds)) = ds_store ds @ bs" "\<And>h. fluents_on h [c] = []"
    | (step) sh h where "c = CStep sh h"
    | (fluent) h m where "c = CFluent h m"
proof -
  have "(\<exists>bs. ds_store (fst (dsl_call W c ds)) = ds_store ds @ bs) \<and> (\<forall>h. fluents_on h [c] = [])
      \<or> (\<exists>sh h. c = CStep sh h) \<or> (\<exists>h m. c = CFluent h m)"
    by (cases c) (simp_all split: sum.split)
  then show thesis using that by blast
qed

lemma call_cell:
  assumes "h < length (ds_store ds)" "\<not> is_scenario (ds_store ds ! h)"
  shows "h < length (ds_store (fst (dsl_call W c ds)))
    \<and> ds_store (fst (dsl_call W c ds)) ! h = fold (after_fluent W) (fluents_on h [c]) (ds_store ds ! h)"
proof (cases rule: call_store_cases [of W c ds])
  case (grow bs)
  then show ?thesis using assms by (simp add: nth_append)
next
  case (step sh k)
  then show ?thesis using assms
    by (auto simp: call_step_def Let_def nth_list_update split: builder.splits)
next
  case (fluent k m)
  then show ?thesis using assms
    by (cases "builder_method W m (ds_store ds ! k)") (auto simp: call_fluent_def after_fluent_def nth_list_update)
qed

lemma fluents_on_Cons: "fluents_on h (c # cs) = fluents_on h [c] @ fluents_on h cs"
  by (cases c) auto

lemma after_fluents_kind: "is_scenario (fold (after_fluent W) ms b) = is_scenario b"
  by (induction ms arbitrary: b) (auto simp: after_fluent_def split: call_result.splits dest: builder_method_keeps)

lemma run_calls_cell:
  assumes "h < length (ds_store ds)" "\<not> is_scenario (ds_store ds ! h)"
  shows "ds_store (run_calls W cs ds) ! h = fold (after_fluent W) (fluents_on h cs) (ds_store ds ! h)"
  using assms
proof (induction cs arbitrary: ds)
  case (Cons c cs)
  note one = call_cell [OF Cons.prems, of W c]
  then show ?case
    using Cons.IH [of "fst (dsl_call W c ds)"] Cons.prems(2) by (subst fluents_on_Cons) (simp add: after_fluents_kind)
qed simp

section \<open>Scripts that are lists of calls\<close>

definition scripted :: "call list \<Rightarrow> engine" where
  "scripted cs src log = (if length log < length cs then DoCall (cs ! length log) else EngineOk)"

fun no_abort :: "'r dsl_world \<Rightarrow> call list \<Rightarrow> dsl_state \<Rightarrow> bool" where
  "no_abort W [] ds = True"
| "no_abort W (c # cs) ds = (snd (dsl_call W c ds) \<noteq> Abort \<and> no_abort W cs (fst (dsl_call W c ds)))"

lemma no_abort_append: "no_abort W (cs @ cs') ds = (no_abort W cs ds \<and> no_abort W cs' (run_calls W cs ds))"
  by (induction cs arbitrary: ds) auto

lemma run_scripted_from:
  assumes "length cs - length log < n" "length log \<le> length cs" "no_abort W (drop (length log) cs) ds"
  shows "run_script W (scripted cs src) n log ds = RunEnded (run_calls W (drop (length log) cs) ds)"
  using assms
proof (induction n arbitrary: log ds)
  case (Suc n)
  show ?case
  proof (cases "length log < length cs")
    case True
    obtain ds1 r where c: "dsl_call W (cs ! length log) ds = (ds1, r)" by fastforce
    have d: "drop (length log) cs = cs ! length log # drop (Suc (length log)) cs" using True by (simp add: Cons_nth_drop_Suc)
    then have r: "r \<noteq> Abort" "no_abort W (drop (Suc (length log)) cs) ds1" using Suc.prems(3) c by simp_all
    have "run_script W (scripted cs src) n (log @ [x]) ds1 = RunEnded (run_calls W (drop (Suc (length log)) cs) ds1)" for x
      using Suc.IH [of "log @ [x]" ds1] Suc.prems True r(2) by simp
    moreover have "scripted cs src log = DoCall (cs ! length log)" using True by (simp add: scripted_def)
    ultimately show ?thesis using c r(1) d by (cases r) simp_all
  next
    case False
    then show ?thesis using Suc.prems(2) by (simp add: scripted_def)
  qed
qed simp

lemma run_scripted:
  "no_abort W cs dsl_new \<Longrightarrow> length cs < MAX_OPERATIONS \<Longrightarrow>
   load_script_str W (scripted cs) src = finish_script W (run_calls W cs dsl_new)"
  using run_scripted_from [of cs "[]" MAX_OPERATIONS W dsl_new src] by (simp add: load_script_str_def)

text \<open>One request, built by fluent calls, in one scenario.\<close>

definition request_fluents ::
  "(string \<times> string) list \<Rightarrow> string option \<Rightarrow> u16 option \<Rightarrow> u16 list option \<Rightarrow> fluent list" where
  "request_fluents hs body st sts =
     map (\<lambda>(n, v). MHeader n v) hs
     @ (case body of Some b \<Rightarrow> [MBody b] | None \<Rightarrow> [])
     @ (case st of Some c \<Rightarrow> [MExpectStatus (uint c)] | None \<Rightarrow> [])
     @ (case sts of Some l \<Rightarrow> [MExpectStatusIn (map (\<lambda>c. DynInt (uint c)) l)] | None \<Rightarrow> [])"

definition request_script :: "string \<Rightarrow> string \<Rightarrow> string \<Rightarrow> fluent list \<Rightarrow> string \<Rightarrow> nat \<Rightarrow> call list" where
  "request_script name m url fl dur n =
     [CScenario name NoWeight, CRequest m url] @ map (CFluent 1) fl @ [CStep 0 1, CDuration dur, CSaturate (int n)]"

fun fluents_ret :: "'r dsl_world \<Rightarrow> fluent list \<Rightarrow> request_state \<Rightarrow> request_state option" where
  "fluents_ret W [] s = Some s"
| "fluents_ret W (m # ms) s = (case request_method W m s of Ret s' \<Rightarrow> fluents_ret W ms s' | _ \<Rightarrow> None)"

lemma fluents_ret_append:
  "fluents_ret W (ms @ ms') s = (case fluents_ret W ms s of Some s' \<Rightarrow> fluents_ret W ms' s' | None \<Rightarrow> None)"
  by (induction ms arbitrary: s) (auto split: call_result.splits)

lemma fluents_ret_headers:
  "fluents_ret W (map (\<lambda>(n, v). MHeader n v) hs) s = Some (s\<lparr>rb_headers := rb_headers s @ hs\<rparr>)"
  by (induction hs arbitrary: s) auto

lemma codes_of_words: "codes_of (map (\<lambda>c. DynInt (uint c)) l) = Inr l"
proof (induction l)
  case (Cons c l)
  have "uint c < 65536" using uint_lt2p [of c] by simp
  then have "clamp_u16 (uint c) = c" by (simp add: clamp_u16_def)
  then show ?case using Cons by simp
qed simp

lemma request_fluents_ret:
  assumes "\<forall>b. body = Some b \<longrightarrow> literal_text b"
  shows "fluents_ret W (request_fluents hs body st sts) (request_builder_new m url)
    = Some \<lparr>rb_method = m, rb_url = url, rb_headers = hs, rb_body = map_option SpecRaw body, rb_extract = [],
        rb_checks = (case st of Some c \<Rightarrow> [StatusEq c] | None \<Rightarrow> []) @ (case sts of Some l \<Rightarrow> [StatusIn l] | None \<Rightarrow> []),
        rb_cold = False\<rparr>"
proof -
  have c: "clamp_u16 (uint c) = c" for c :: u16
    using uint_lt2p [of c] by (simp add: clamp_u16_def)
  show ?thesis using assms
    by (auto simp: request_fluents_def fluents_ret_append fluents_ret_headers request_builder_new_def codes_of_words c
        literal_text_def split: option.splits)
qed

lemma run_fluents:
  assumes "fluents_ret W ms s = Some s'" "ds_store ds = [a, BRequest s]"
  shows "run_calls W (map (CFluent 1) ms) ds = ds\<lparr>ds_store := [a, BRequest s']\<rparr> \<and> no_abort W (map (CFluent 1) ms) ds"
  using assms
proof (induction ms arbitrary: s ds)
  case (Cons m ms)
  then obtain s1 where s1: "request_method W m s = Ret s1" "fluents_ret W ms s1 = Some s'"
    by (auto split: call_result.splits)
  then have c: "dsl_call W (CFluent 1 m) ds = (ds\<lparr>ds_store := [a, BRequest s1]\<rparr>, Ret (ABuilder 1))"
    using Cons.prems(2) by (simp add: call_fluent_def fluent_answer_def)
  then show ?case using Cons.IH [OF s1(2), of "ds\<lparr>ds_store := [a, BRequest s1]\<rparr>"] by simp
qed simp

lemma request_script_state:
  assumes "fluents_ret W fl (request_builder_new m url) = Some q" "m \<in> set METHODS" "dsl_parse_duration dur = DurOk d" "1 \<le> n"
  shows "run_calls W (request_script name m url fl dur n) dsl_new
      = \<lparr>ds_plan = plan_state_new\<lparr>ps_scenarios := [0], ps_duration := Some d, ps_saturate := Some n\<rparr>,
         ds_store = [BScenario \<lparr>sc_name = name, sc_weight = None, sc_rate = None, sc_steps = [SrcBuilder 1]\<rparr>, BRequest q]\<rparr>"
    and "no_abort W (request_script name m url fl dur n) dsl_new"
proof -
  let ?a = "BScenario (scenario_builder_new name None)"
  let ?ds = "\<lparr>ds_plan = plan_state_new\<lparr>ps_scenarios := [0]\<rparr>, ds_store = [?a, BRequest (request_builder_new m url)]\<rparr>"
  have start: "run_calls W [CScenario name NoWeight, CRequest m url] dsl_new = ?ds"
    "no_abort W [CScenario name NoWeight, CRequest m url] dsl_new"
    using assms(2) by (simp_all add: call_scenario_def new_builder_cell_def dsl_new_def plan_state_new_def)
  have mid: "run_calls W (map (CFluent 1) fl) ?ds = ?ds\<lparr>ds_store := [?a, BRequest q]\<rparr>" "no_abort W (map (CFluent 1) fl) ?ds"
    using run_fluents [OF assms(1), of ?ds ?a] by simp_all
  have n: "nat (max (int n) 1) = n" using assms(4) by simp
  show "run_calls W (request_script name m url fl dur n) dsl_new
      = \<lparr>ds_plan = plan_state_new\<lparr>ps_scenarios := [0], ps_duration := Some d, ps_saturate := Some n\<rparr>,
         ds_store = [BScenario \<lparr>sc_name = name, sc_weight = None, sc_rate = None, sc_steps = [SrcBuilder 1]\<rparr>, BRequest q]\<rparr>"
    and "no_abort W (request_script name m url fl dur n) dsl_new"
    unfolding request_script_def no_abort_append run_calls_simps(3) start(1) mid(1)
    using start(2) mid(2) assms(3) n
    by (simp_all add: call_step_def plan_duration_def set_plan_def scenario_builder_new_def plan_state_new_def)
qed

text \<open>The text compiles to itself.\<close>

lemma compile_literal_tpl: "literal_text s \<Longrightarrow> compile_tpl W s sc f st = Inr (st, text_template s)"
  by (simp add: compile_tpl_def compile_literal)

lemma compile_literal_headers_dsl:
  "list_all lit_pair hs \<Longrightarrow> compile_headers W hs sc kind st = Inr (st, map lit_header hs)"
  by (induction hs)
    (auto simp: compile_headers_def comp_bind_def comp_return_def compile_literal_tpl lit_pair_def split: prod.splits)

lemma static_wire:
  assumes "rq_method pl = m" "rq_url pl = text_template url" "origin_form url = p"
    and "rq_headers pl = map (\<lambda>(n, v). (text_template n, text_template v)) hs" "\<forall>(n, v) \<in> set hs. n \<noteq> []"
    and "rq_body pl = (if body = [] then None else Some (BodyStatic body))"
  shows "fst (build_raw_request W pl t KeepAlive [] (c, g)) = http_head (plain_lines m p t hs body) @ body"
  using assms
  by (simp add: build_raw_request_def Let_def expand_text_template expand_text_headers connection_text
      plain_lines_def http_head_def content_length_line_def comp_def)

text \<open>The target of a script is that of its first URL.\<close>

lemma find_pos_take: "find_pos p xs = Some i \<Longrightarrow> find_pos p (take i xs) = None"
  by (auto simp: find_pos_Some find_pos_None in_set_conv_nth)

lemma target_parse_authority:
  assumes "target_parse url = Inr t"
  shows "target_parse (url_authority url) = Inr t"
proof -
  obtain i where i: "find_sub ''://'' url = Some i"
    using assms by (auto simp: target_parse_def split_once_str_def split: option.splits)
  define rest where "rest = drop (i + 3) url"
  define k where "k = (case find_pos url_delim rest of None \<Rightarrow> length rest | Some j \<Rightarrow> j)"
  have len: "i + 3 \<le> length url" using find_sub_SomeD [OF i] by simp
  have a: "url_authority url = take (i + 3 + k) url"
    using len i by (auto simp: url_authority_def k_def rest_def Let_def split: option.splits)
  have "find_sub ''://'' (take (i + 3 + k) url @ drop (i + 3 + k) url) = Some i" using i by simp
  then have f: "find_sub ''://'' (take (i + 3 + k) url) = Some i"
    by (rule find_sub_append_bound) (use len in simp)
  have r: "drop (i + 3) (take (i + 3 + k) url) = take k rest" by (simp add: rest_def drop_take)
  have none: "find_pos url_delim (take k rest) = None"
    by (cases "find_pos url_delim rest") (auto simp: k_def find_pos_take find_pos_None dest: in_set_takeD)
  have parse: "target_parse u = (case scheme_tls (take i url) of Inl e \<Rightarrow> Inl e | Inr tls \<Rightarrow>
      if take k rest = [] then Inl MissingHost
      else (case split_authority u (take k rest) of Inl e \<Rightarrow> Inl e | Inr (host, port_str) \<Rightarrow>
        if host = [] then Inl MissingHost
        else (case (case port_str of
                 Some s \<Rightarrow> (case parse_u16 s of Some p \<Rightarrow> Inr p | None \<Rightarrow> Inl (InvalidPort s))
               | None \<Rightarrow> Inr (if tls then 443 else 80)) of
           Inl e \<Rightarrow> Inl e
         | Inr port \<Rightarrow> Inr \<lparr>tg_host = host, tg_port = port, tg_tls = tls, tg_sni = None, tg_family = FamAny\<rparr>)))"
    if "split_once_str ''://'' u = Some (take i url, r)"
      "take (case find_pos url_delim r of None \<Rightarrow> length r | Some j \<Rightarrow> j) r = take k rest" for u r
    by (simp only: target_parse_def that option.case prod.case Let_def)
  have s: "split_authority (url_authority url) x = Inr y" if "split_authority url x = Inr y" for x y
    using that by (auto simp: split_authority_def Let_def split: list.splits option.splits if_splits)
  have u1: "split_once_str ''://'' url = Some (take i url, rest)" using i by (simp add: split_once_str_def rest_def eval_nat_numeral)
  have u2: "split_once_str ''://'' (url_authority url) = Some (take i url, take k rest)"
    using f r by (simp add: split_once_str_def a min_def eval_nat_numeral)
  have "take (case find_pos url_delim rest of None \<Rightarrow> length rest | Some j \<Rightarrow> j) rest = take k rest" by (simp add: k_def)
  note whole = parse [OF u1 this]
  have "take (case find_pos url_delim (take k rest) of None \<Rightarrow> length (take k rest) | Some j \<Rightarrow> j) (take k rest) = take k rest"
    using none by (simp add: min_def)
  note part = parse [OF u2 this]
  show ?thesis
  proof (cases "split_authority url (take k rest)")
    case (Inl e)
    then show ?thesis using assms whole by (auto split: sum.splits if_splits)
  next
    case (Inr hp)
    then show ?thesis using assms whole part s [OF Inr]
      by (cases "scheme_tls (take i url)"; cases "take k rest = []") simp_all
  qed
qed

lemma find_sub_take_None: "find_sub n h = None \<Longrightarrow> find_sub n (take k h) = None"
  using find_sub_append [of n "take k h" _ "drop k h"] by (cases "find_sub n (take k h)") auto

lemma target_strict: "target_parse url = Inr t \<Longrightarrow> literal_text url \<Longrightarrow> parse_target_strict url = Inr t"
  using target_parse_authority find_sub_take_None
  by (auto simp: parse_target_strict_def literal_text_def url_authority_def Let_def)

section \<open>Properties\<close>


text \<open>Surroundings for the examples: numbers are not looked at.\<close>

definition demo_dsl :: "nat dsl_world" where
  "demo_dsl = \<lparr>dw_world = demo_world, dw_files = cw_files demo_cli,
     dw_float = \<lparr>fa_parse = (\<lambda>_. Some F1), fa_scale = (\<lambda>x _. x), fa_add = (\<lambda>x _. x), fa_mul = (\<lambda>x _. x),
       fa_div = (\<lambda>x _. x), fa_of_int = (\<lambda>_. F1), fa_duration = (\<lambda>_. Some 0)\<rparr>,
     dw_json = (\<lambda>_. ''{}''), dw_header_name = Some\<rparr>"

abbreviation demo_half_minute :: string where "demo_half_minute \<equiv> duration_text [(30, Seconds)]"

lemma demo_duration: "dsl_parse_duration demo_half_minute = DurOk (secs 30)"
  using duration_loop_text [of "[(30, Seconds)]" 0] duration_text_trim [of "[(30, Seconds)]"]
  by (simp add: dsl_parse_duration_def duration_value_def duration_limit_def secs_def)

definition demo_script :: "call list" where
  "demo_script = request_script ''cli'' ''POST'' ''http://h:81/a''
     (request_fluents [(''X'', ''1'')] (Some ''{}'') (Some 200) None) demo_half_minute 50"

definition demo_request :: request_state where
  "demo_request = \<lparr>rb_method = ''POST'', rb_url = ''http://h:81/a'', rb_headers = [(''X'', ''1'')],
     rb_body = Some (SpecRaw ''{}''), rb_extract = [], rb_checks = [StatusEq 200], rb_cold = False\<rparr>"

lemma demo_script_state:
  "run_calls demo_dsl demo_script dsl_new
      = \<lparr>ds_plan = plan_state_new\<lparr>ps_scenarios := [0], ps_duration := Some (secs 30), ps_saturate := Some 50\<rparr>,
         ds_store = [BScenario \<lparr>sc_name = ''cli'', sc_weight = None, sc_rate = None, sc_steps = [SrcBuilder 1]\<rparr>, BRequest demo_request]\<rparr>"
  "no_abort demo_dsl demo_script dsl_new" "length demo_script < MAX_OPERATIONS"
proof -
  have f: "fluents_ret demo_dsl (request_fluents [(''X'', ''1'')] (Some ''{}'') (Some 200) None) (request_builder_new ''POST'' ''http://h:81/a'')
      = Some demo_request"
    using request_fluents_ret [of "Some ''{}''" demo_dsl "[(''X'', ''1'')]" "Some 200" None "''POST''" "''http://h:81/a''"]
    by (simp add: demo_request_def literal_text_def)
  have m: "''POST'' \<in> set METHODS" by (simp add: METHODS_def)
  show "run_calls demo_dsl demo_script dsl_new
      = \<lparr>ds_plan = plan_state_new\<lparr>ps_scenarios := [0], ps_duration := Some (secs 30), ps_saturate := Some 50\<rparr>,
         ds_store = [BScenario \<lparr>sc_name = ''cli'', sc_weight = None, sc_rate = None, sc_steps = [SrcBuilder 1]\<rparr>, BRequest demo_request]\<rparr>"
    "no_abort demo_dsl demo_script dsl_new"
    using request_script_state [OF f m demo_duration, of 50 "''cli''"] by (simp_all add: demo_script_def)
  show "length demo_script < MAX_OPERATIONS" by (simp add: demo_script_def request_script_def request_fluents_def MAX_OPERATIONS_def)
qed

text \<open>Finishing a script of one request.\<close>

lemma finish_request_script:
  assumes "ds = \<lparr>ds_plan = plan_state_new\<lparr>ps_scenarios := [0], ps_duration := Some d, ps_saturate := Some n\<rparr>,
         ds_store = [BScenario \<lparr>sc_name = name, sc_weight = None, sc_rate = None, sc_steps = [SrcBuilder 1]\<rparr>, BRequest q]\<rparr>"
    and "rb_url q = url" "target_parse url = Inr t" "literal_text url" "list_all lit_pair (rb_headers q)"
    and "rb_body q = map_option SpecRaw body" "\<not> rb_cold q"
  shows "finish_script W ds = Some (Inr \<lparr>lo_plan = plan_out (ds_plan ds) d registry_new
      [\<lparr>sn_name = name, sn_rate = Saturate n, sn_steps = [Request
         \<lparr>rq_method = rb_method q, rq_url = text_template url, rq_headers = map lit_header (rb_headers q),
          rq_body = map_option BodyStatic body, rq_extract = rb_extract q, rq_checks = rb_checks q,
          rq_expect_streaming = False\<rparr>]\<rparr>], lo_target = t, lo_http_version = HvAuto\<rparr>)"
proof -
  have spec: "compile_spec W (rb_body q) sc st = Inr (st, map_option BodyStatic body)" for sc st
    using assms(6) by (cases body) (simp_all add: compile_spec_def comp_return_def)
  have req: "compile_req W q sc st = Inr (st, Request
         \<lparr>rq_method = rb_method q, rq_url = text_template url, rq_headers = map lit_header (rb_headers q),
          rq_body = map_option BodyStatic body, rq_extract = rb_extract q, rq_checks = rb_checks q,
          rq_expect_streaming = False\<rparr>)" for sc st
    using assms(2,4,5,7)
    by (simp add: compile_req_def comp_bind_def compile_literal_tpl compile_literal_headers_dsl spec comp_return_def into_steps)
  have u: "first_request_url ds = Some url"
    using assms(1,2) by (simp add: first_request_url_def scenario_at.simps plan_state_new_def)
  have "finalize_state W ds = Inr (plan_out (ds_plan ds) d registry_new
      [\<lparr>sn_name = name, sn_rate = Saturate n, sn_steps = [Request
         \<lparr>rq_method = rb_method q, rq_url = text_template url, rq_headers = map lit_header (rb_headers q),
          rq_body = map_option BodyStatic body, rq_extract = rb_extract q, rq_checks = rb_checks q,
          rq_expect_streaming = False\<rparr>]\<rparr>], HvAuto)"
    using assms(1) req
    by (simp add: finalize_state_def scenario_at.simps take_state_def plan_state_new_def resolve_scenario_rate_def Let_def)
  then show ?thesis using u target_strict [OF assms(3,4)] by (simp add: finish_script_def)
qed

lemma demo_request_target:
  "finish_script demo_dsl (run_calls demo_dsl demo_script dsl_new) = Some (Inr \<lparr>lo_plan =
      plan_out (ds_plan (run_calls demo_dsl demo_script dsl_new)) (secs 30) registry_new
      [\<lparr>sn_name = ''cli'', sn_rate = Saturate 50, sn_steps = [Request
         \<lparr>rq_method = ''POST'', rq_url = text_template ''http://h:81/a'', rq_headers = map lit_header [(''X'', ''1'')],
          rq_body = Some (BodyStatic ''{}''), rq_extract = [], rq_checks = [StatusEq 200],
          rq_expect_streaming = False\<rparr>]\<rparr>],
      lo_target = \<lparr>tg_host = ''h'', tg_port = 81, tg_tls = False, tg_sni = None, tg_family = FamAny\<rparr>, lo_http_version = HvAuto\<rparr>)"
  using finish_request_script [OF demo_script_state(1) _ demo_url_target, of "Some ''{}''" demo_dsl]
  by (simp add: demo_request_def literal_text_def lit_pair_def)


text \<open>
  Property C24. Handles are shared, but a script sees values: when no builder is used as a step twice,
  finalisation gives what it gives for builders that are values, and the state of a builder at the
  end is its state at any earlier time with its own fluent calls since then applied in order; calls
  on other builders, on the plan or on the scenarios do not matter.
\<close>

theorem script_builders_are_values:
  assumes "run_script W E n [] dsl_new = RunEnded ds" "distinct (step_handles (ds_store ds) (ps_scenarios (ds_plan ds)))"
  shows "finalize_state W ds = value_finalize W ds
    \<and> (\<exists>cs. ds = run_calls W cs dsl_new
        \<and> (\<forall>before since h. cs = before @ since \<longrightarrow> h < length (ds_store (run_calls W before dsl_new))
              \<longrightarrow> \<not> is_scenario (ds_store (run_calls W before dsl_new) ! h) \<longrightarrow>
              ds_store ds ! h = fold (after_fluent W) (fluents_on h since) (ds_store (run_calls W before dsl_new) ! h)))"
proof
  have "dsl_ok ds" using run_script_ok [OF assms(1) dsl_ok_new] .
  then have st: "store_ok (ds_store ds)" "scenario_handles (ds_store ds) (ps_scenarios (ds_plan ds))"
    by (auto simp: dsl_ok_def store_ok_def scenario_handles_def Let_def)
  have "finalize_scenarios W ps auto tot (ps_scenarios (ds_plan ds)) (ds_store ds) cst
      = comp_list (value_scenario W (ds_store ds) ps auto tot) (ps_scenarios (ds_plan ds)) cst" for ps auto tot cst
    by (rule finalize_scenarios_value [OF st st assms(2)]) simp
  then show "finalize_state W ds = value_finalize W ds"
    by (cases "ps_duration (ds_plan ds)") (simp_all add: finalize_state_def value_finalize_def Let_def)
next
  obtain cs where cs: "ds = run_calls W cs dsl_new" using run_script_calls [OF assms(1)] by blast
  then show "\<exists>cs. ds = run_calls W cs dsl_new
        \<and> (\<forall>before since h. cs = before @ since \<longrightarrow> h < length (ds_store (run_calls W before dsl_new))
              \<longrightarrow> \<not> is_scenario (ds_store (run_calls W before dsl_new) ! h) \<longrightarrow>
              ds_store ds ! h = fold (after_fluent W) (fluents_on h since) (ds_store (run_calls W before dsl_new) ! h))"
    by (intro exI [of _ cs] conjI allI impI) (simp_all add: run_calls_cell)
qed

lemma script_builders_are_values_witness:
  "finalize_state demo_dsl (run_calls demo_dsl demo_script dsl_new) = value_finalize demo_dsl (run_calls demo_dsl demo_script dsl_new)"
proof -
  have run: "run_script demo_dsl (scripted demo_script []) MAX_OPERATIONS [] dsl_new = RunEnded (run_calls demo_dsl demo_script dsl_new)"
    using run_scripted_from [of demo_script "[]" MAX_OPERATIONS demo_dsl dsl_new "[]"] demo_script_state(2,3) by simp
  show ?thesis
    using script_builders_are_values [OF run] unfolding demo_script_state(1)
    by (simp add: step_handles_def handles_of_def scenario_at.simps)
qed

text \<open>
  A builder that is a step twice is not: the second step is the empty default request.
\<close>

lemma shared_step_emptied:
  assumes "hp ! h = BRequest q" "h < length hp"
    and "compile_steps W sc [SrcBuilder h, SrcBuilder h] hp st = Inr (hp', st', [s1, s2])"
  shows "s2 = Request (request_get template_empty)"
proof -
  have t: "compile_template W' [] st1 = (st1, Inr template_empty)" for W' :: "'a world" and st1
    using compile_literal [of "[]" W' st1] by (simp add: literal_text_def text_template_def)
  show ?thesis using assms
    by (auto simp: take_state_def compile_req_def comp_bind_Inr compile_headers_def compile_spec_def comp_return_def
        compile_tpl_def t into_steps request_get_def split: sum.splits prod.splits)
qed

text \<open>
  Property C23. A script and the command line describe the same load: for literal texts, the script
  that builds a request with the method, URL, headers, body and checks of the flags, under the same
  duration and concurrency, loads a plan of one scenario with the target, rate, duration and checks
  of the plan the command line builds, and both requests go out as the same bytes.
\<close>

theorem script_like_cli:
  assumes "ca_request_file args = None" "ca_requests args = None" "ca_url args = Some url" "ca_body_file args = None"
    and "\<forall>s. url_body args = Some s \<longrightarrow> s \<noteq> [] \<and> literal_text s"
    and "list_all lit_pair (url_headers CW args)" "literal_text url" "target_parse url = Inr tgt"
    and "cw_method CW (url_method args) = Some m" "m \<in> set METHODS"
    and "ca_saturate args" "1 \<le> ca_connections args" "dsl_parse_duration dur = DurOk (ca_duration args)"
    and "cs = request_script ''cli'' m url (request_fluents (url_headers CW args) (url_body args)
           (ca_expect_status args) (ca_expect_status_in args)) dur (ca_connections args)" "length cs < MAX_OPERATIONS"
  shows "\<exists>pl l rq rq'. build CW args = Some (Inr (pl, tgt, build_opts args))
    \<and> load_script_str W (scripted cs) src = Some (Inr l) \<and> lo_target l = tgt
    \<and> pl_scenarios pl = [\<lparr>sn_name = ''cli'', sn_rate = Saturate (ca_connections args), sn_steps = [Request rq]\<rparr>]
    \<and> pl_scenarios (lo_plan l) = [\<lparr>sn_name = ''cli'', sn_rate = Saturate (ca_connections args), sn_steps = [Request rq']\<rparr>]
    \<and> rq_checks rq' = rq_checks rq \<and> pl_duration (lo_plan l) = pl_duration pl
    \<and> (\<forall>(W :: 'w world) cg. fst (build_raw_request W rq' tgt KeepAlive [] cg) = fst (build_raw_request W rq tgt KeepAlive [] cg))"
proof -
  let ?body = "case url_body args of Some s \<Rightarrow> s | None \<Rightarrow> []" and ?hs = "url_headers CW args"
  define rq where "rq = \<lparr>rq_method = m, rq_url = text_template url, rq_headers = map lit_header ?hs,
          rq_body = map_option (\<lambda>s. BodyTemplate (text_template s)) (url_body args), rq_extract = [],
          rq_checks = build_checks args, rq_expect_streaming = False\<rparr>"
  define q where "q = \<lparr>rb_method = m, rb_url = url, rb_headers = ?hs, rb_body = map_option SpecRaw (url_body args),
     rb_extract = [], rb_checks = build_checks args, rb_cold = False\<rparr>"
  define rq' where "rq' = rq\<lparr>rq_body := map_option BodyStatic (url_body args)\<rparr>"
  obtain pl where pl: "build_from_url CW args (build_opts args) url = Inr (pl, tgt, build_opts args)"
    "pl_scenarios pl = [scenario_http_request ''cli'' (pick_rate_profile CW args (fo_one (cw_float CW))) rq]"
    "pl_duration pl = ca_duration args"
    using build_url_text [OF assms(4) _ assms(6-9), of "build_opts args"] assms(5) unfolding rq_def by blast
  have fl: "fluents_ret W (request_fluents ?hs (url_body args) (ca_expect_status args) (ca_expect_status_in args))
      (request_builder_new m url) = Some q"
    using request_fluents_ret [of "url_body args" W ?hs "ca_expect_status args" "ca_expect_status_in args" m url] assms(5)
    by (simp add: q_def build_checks_def)
  note st = request_script_state [OF fl assms(10,13,12), of "''cli''", folded assms(14)]
  let ?ds = "run_calls W cs dsl_new"
  have fin: "finish_script W ?ds = Some (Inr \<lparr>lo_plan = plan_out (ds_plan ?ds) (ca_duration args) registry_new
      [\<lparr>sn_name = ''cli'', sn_rate = Saturate (ca_connections args), sn_steps = [Request rq']\<rparr>],
      lo_target = tgt, lo_http_version = HvAuto\<rparr>)"
    using finish_request_script [OF st(1) _ assms(8,7), of "url_body args" W] assms(6) by (simp add: q_def rq'_def rq_def)
  have ne: "\<forall>(n, v) \<in> set ?hs. n \<noteq> []" using assms(6) by (auto simp: list_all_iff lit_pair_def)
  have wire: "fst (build_raw_request W rq' tgt KeepAlive [] cg) = fst (build_raw_request W rq tgt KeepAlive [] cg)"
    for W :: "'w world" and cg
  proof -
    have "rq_body rq = (if ?body = [] then None else Some (BodyTemplate (text_template ?body)))"
      "rq_body rq' = (if ?body = [] then None else Some (BodyStatic ?body))"
      using assms(5) by (cases "url_body args"; simp add: rq_def rq'_def)+
    then show ?thesis
      using static_wire [of rq' m url "origin_form url" ?hs ?body W tgt "fst cg" "snd cg"]
        wire_of_text_request [of rq m url "origin_form url" ?hs ?body W tgt "fst cg" "snd cg"] ne
      by (simp add: rq_def rq'_def)
  qed
  show ?thesis
    using pl fin run_scripted [OF st(2) assms(15)] wire assms(1-3,11)
    by (intro exI [of _ pl] exI [of _ rq] exI [of _ rq']) 
      (auto simp: build_def scenario_http_request_def pick_rate_profile_def plan_out_def rq'_def)
qed

lemma script_like_cli_witness:
  "\<exists>pl l rq rq'. build demo_cli (demo_args\<lparr>ca_saturate := True\<rparr>)
        = Some (Inr (pl, \<lparr>tg_host = ''h'', tg_port = 81, tg_tls = False, tg_sni = None, tg_family = FamAny\<rparr>,
            build_opts (demo_args\<lparr>ca_saturate := True\<rparr>)))
    \<and> load_script_str demo_dsl (scripted (request_script ''cli'' ''POST'' ''http://h:81/a''
          (request_fluents [(''X'', ''1''), (''Authorization'', ''Bearer k''), (''Content-Type'', ''application/json'')]
             (Some ''{}'') (Some 200) None) demo_half_minute 50)) [] = Some (Inr l)
    \<and> sn_steps (hd (pl_scenarios pl)) = [Request rq] \<and> sn_steps (hd (pl_scenarios (lo_plan l))) = [Request rq']
    \<and> fst (build_raw_request demo_world rq' (lo_target l) KeepAlive [] (context_new 0 0, demo_proc))
      = fst (build_raw_request demo_world rq (lo_target l) KeepAlive [] (context_new 0 0, demo_proc))"
proof -
  let ?a = "demo_args\<lparr>ca_saturate := True\<rparr>"
  let ?t = "\<lparr>tg_host = ''h'', tg_port = 81, tg_tls = False, tg_sni = None, tg_family = FamAny\<rparr>"
  have u: "user_has n [(''X'', ''1'')] = False" if "n \<in> {''Authorization'', ''Content-Type''}" for n
    using that by (auto simp: user_has_def eq_icase_def)
  have hs: "url_headers demo_cli ?a = [(''X'', ''1''), (''Authorization'', ''Bearer k''), (''Content-Type'', ''application/json'')]"
    by (simp add: url_headers_def auth_pair_def type_pair_def demo_args_def u)
  have h: "list_all lit_pair (url_headers demo_cli ?a)" by (simp add: hs lit_pair_def literal_text_def)
  have b: "url_body ?a = Some ''{}''" by (simp add: url_body_def demo_args_def)
  have m: "cw_method demo_cli (url_method ?a) = Some ''POST''"
    by (simp add: url_method_def b demo_cli_def) (simp add: demo_args_def)
  have len: "length (request_script ''cli'' ''POST'' ''http://h:81/a'' (request_fluents
      [(''X'', ''1''), (''Authorization'', ''Bearer k''), (''Content-Type'', ''application/json'')]
      (Some ''{}'') (Some 200) None) demo_half_minute 50) < MAX_OPERATIONS"
    by (simp add: request_script_def request_fluents_def MAX_OPERATIONS_def)
  note same = script_like_cli [where 'w = nat and args = ?a and CW = demo_cli and W = demo_dsl and src = "[]" and dur = demo_half_minute,
      OF _ _ _ _ _ h _ demo_url_target m _ _ _ _ refl, unfolded hs b]
  obtain pl l rq rq' where p: "build demo_cli ?a = Some (Inr (pl, ?t, build_opts ?a))"
    "load_script_str demo_dsl (scripted (request_script ''cli'' ''POST'' ''http://h:81/a'' (request_fluents
        [(''X'', ''1''), (''Authorization'', ''Bearer k''), (''Content-Type'', ''application/json'')]
        (Some ''{}'') (Some 200) None) demo_half_minute 50)) [] = Some (Inr l)"
    "lo_target l = ?t" "sn_steps (hd (pl_scenarios pl)) = [Request rq]" "sn_steps (hd (pl_scenarios (lo_plan l))) = [Request rq']"
    "\<forall>(W :: nat world) cg. fst (build_raw_request W rq' ?t KeepAlive [] cg) = fst (build_raw_request W rq ?t KeepAlive [] cg)"
    using same len demo_duration by (auto simp: demo_args_def literal_text_def METHODS_def)
  show ?thesis using p(1,2,4,5) p(6) [rule_format, of demo_world] unfolding p(3) [symmetric] by blast
qed



end
