(* ===== verification/WholeRun.thy ===== *)
theory WholeRun
  imports Dispatch MioRun ColdConnect SseHoldRun SseStorm Fanout WsEcho WsStreams Cli
begin

text \<open>
  A whole run: the dispatcher of \<open>dispatch.rs\<close> over the models of all backends, the driver of the
  keep-alive workers, and the measurement loop of \<open>zerobench-cli/src/verbs/measure.rs\<close>, which runs
  the plan several times and summarises. The environment of every backend is a parameter.
\<close>

section \<open>The backends of the dispatcher\<close>

record 'r mio_env =
  me_clock :: "nat \<Rightarrow> instant"
  me_shard :: nat
  me_rng :: 'r
  me_proc :: proc_state
  me_opens :: "nat \<Rightarrow> open_result"
  me_started :: instant
  me_turns :: "h1_turn list"

record ('r, 'h) run_world =
  rw_world :: "'r world"
  rw_target :: target
  rw_parse :: "bytes \<Rightarrow> parsed_head"
  rw_threads :: nat
  rw_connections :: nat
  rw_duration :: duration
  rw_rps :: "f64 option"
  rw_interval :: "nat \<Rightarrow> f64 option \<Rightarrow> duration option"
  rw_live :: "'h live_snapshot option"
  rw_render :: "template \<Rightarrow> string"
  rw_payload :: "template \<Rightarrow> u8 list"
  rw_started :: "nat \<Rightarrow> instant"
  rw_mio :: "nat \<Rightarrow> 'r mio_env"
  rw_cold :: "'r cold_world"
  rw_cold_proc :: proc_state
  rw_hold :: "nat \<Rightarrow> hold_env"
  rw_storm :: "nat \<Rightarrow> nat \<Rightarrow> storm_turn list"
  rw_fanout :: "'r fan_world"
  rw_echo :: "nat \<Rightarrow> nat \<Rightarrow> echo_env"
  rw_ws_hold :: "nat \<Rightarrow> nat \<Rightarrow> whold_env"
  rw_slow :: "f64 \<Rightarrow> u64 \<Rightarrow> duration \<Rightarrow> bool"
  rw_push :: "nat \<Rightarrow> nat \<Rightarrow> push_env"
  rw_ws_fanout :: "'r wfan_world"

text \<open>
  Every keep-alive worker gets its share of the connections and of the rate; \<open>rw_interval\<close> is the
  floating-point division of the rate, \<open>None\<close> when there is none.
\<close>

definition mio_worker ::
  "'h hist_ops \<Rightarrow> ('r, 'h) run_world \<Rightarrow> plan \<Rightarrow> duration option \<Rightarrow> nat \<Rightarrow> nat \<Rightarrow> 'h task_stats option" where
  "mio_worker H E pl interval i conns =
     (let M = rw_mio E i in
      Option.bind (run_mio_worker H (rw_world E) (rw_parse E) pl (rw_target E) interval (me_clock M) (me_shard M)
          (me_rng M) (me_proc M) (rw_live E) (map (me_opens M) [0..<conns]) (me_started M) (me_turns M)) rc_task)"

definition run_mio :: "'h hist_ops \<Rightarrow> ('r, 'h) run_world \<Rightarrow> plan \<Rightarrow> 'h task_stats list option" where
  "run_mio H E pl =
     (let active = length (distribute_conns (rw_connections E) (rw_threads E))
      in run_mio_threaded (mio_worker H E pl (rw_interval E active (rw_rps E))) (rw_threads E) (rw_connections E))"

definition backend_runner :: "'h hist_ops \<Rightarrow> ('r, 'h) run_world \<Rightarrow> 'h runner" where
  "backend_runner H E b pl =
     (let t = rw_target E; dur = rw_duration E; lv = rw_live E in
      case b of
        BMioH1 \<Rightarrow> run_mio H E pl
      | BColdConnect \<Rightarrow> run_cold_connect H (rw_cold E) t (rw_connections E) (rw_rps E) (rw_cold_proc E) lv dur pl
      | BSseHold \<Rightarrow> Some (run_sse_hold H (rw_render E) t (rw_hold E) dur pl)
      | BSseFanout \<Rightarrow> Some (run_sse_fanout H (rw_world E) (rw_render E) t (rw_fanout E) dur pl)
      | BSseStorm \<Rightarrow> Some (run_sse_storm H (rw_render E) t (rw_started E) (rw_storm E) dur pl)
      | BWsEcho \<Rightarrow> Some (run_ws_echo_rtt H (rw_payload E) (rw_started E) lv (rw_echo E) dur pl)
      | BWsHold \<Rightarrow> Some (run_ws_hold H (rw_started E) lv (rw_ws_hold E) dur pl)
      | BWsPush \<Rightarrow> Some (run_ws_push H (rw_slow E) (rw_started E) lv (rw_push E) dur pl)
      | BWsFanout \<Rightarrow> Some (run_ws_fanout H (rw_world E) t (rw_ws_fanout E) dur pl))"

section \<open>The measurement loop\<close>

text \<open>The plan is run once per environment; a summary per run, and one of all the tasks.\<close>

fun measure_runs :: "'h hist_ops \<Rightarrow> ('r, 'h) run_world list \<Rightarrow> plan \<Rightarrow> 'h task_stats list list option" where
  "measure_runs H [] pl = Some []"
| "measure_runs H (E # Es) pl =
     (case run_plan (backend_runner H E) pl of
        None \<Rightarrow> None
      | Some stats \<Rightarrow> map_option (Cons stats) (measure_runs H Es pl))"

definition measure_summary :: "'h hist_ops \<Rightarrow> ('r, 'h) run_world list \<Rightarrow> duration \<Rightarrow> plan \<Rightarrow> ('h summary list \<times> 'h summary) option" where
  "measure_summary H Es dur pl =
     map_option (\<lambda>runs. (map (\<lambda>stats. summary_merge H stats dur) runs,
                         summary_merge H (concat runs) (dur * length Es))) (measure_runs H Es pl)"

section \<open>No backend panics\<close>

text \<open>
  What a plan must have: at most \<open>2 ^ 16\<close> scenarios, and a request in every HTTP scenario unless the
  cold-connect backend takes them. Of the environment: the generator stays in its range and an open
  loop has a positive interval.
\<close>

definition plan_runs :: "plan \<Rightarrow> bool" where
  "plan_runs pl =
     (length (pl_scenarios pl) \<le> 2 ^ 16
      \<and> list_all (\<lambda>sn. scenario_protocol sn = Http \<longrightarrow> first_request (sn_steps sn) \<noteq> None) (pl_scenarios pl))"

definition world_runs :: "('r, 'h) run_world \<Rightarrow> bool" where
  "world_runs E = (world_ok (rw_world E) \<and> (\<forall>n. rw_interval E n (rw_rps E) \<noteq> Some 0))"

definition tasks_ok :: "nat \<Rightarrow> 'h task_stats list option \<Rightarrow> bool" where
  "tasks_ok n r = (\<exists>ts. r = Some ts \<and> (\<forall>t \<in> set ts. rolled_up t \<and> length (ts_per_scenario t) = n))"

lemma tasks_okI: "(\<And>t. t \<in> set ts \<Longrightarrow> rolled_up t \<and> length (ts_per_scenario t) = n) \<Longrightarrow> tasks_ok n (Some ts)"
  by (simp add: tasks_ok_def)

lemma run_mio_ok:
  assumes "plan_runs pl" "world_runs E"
  shows "tasks_ok (length (pl_scenarios pl)) (run_mio H E pl)"
proof -
  let ?n = "length (pl_scenarios pl)"
  define active where "active = length (distribute_conns (rw_connections E) (rw_threads E))"
  define worker where "worker = mio_worker H E pl (rw_interval E active (rw_rps E))"
  have req: "list_all (has_request pl) (http_scenario_indices pl)"
    using assms(1) by (auto simp: plan_runs_def list_all_iff http_scenario_indices_def has_request_def)
  have w: "\<exists>ts. worker i conns = Some ts \<and> rolled_up ts \<and> length (ts_per_scenario ts) = ?n" for i conns
  proof -
    let ?M = "rw_mio E i"
    have "\<exists>r ts. run_mio_worker H (rw_world E) (rw_parse E) pl (rw_target E) (rw_interval E active (rw_rps E))
        (me_clock ?M) (me_shard ?M) (me_rng ?M) (me_proc ?M) (rw_live E) (map (me_opens ?M) [0..<conns]) (me_started ?M)
        (me_turns ?M) = Some r \<and> rc_task r = Some ts \<and> rolled_up ts \<and> length (ts_per_scenario ts) = ?n"
      by (rule worker_returns_totals) (use assms(2) req in \<open>simp_all add: world_runs_def\<close>)
    then show ?thesis by (auto simp: worker_def mio_worker_def Let_def)
  qed
  then have some: "worker i conns \<noteq> None" for i conns by fastforce
  define shares where "shares = distribute_conns (rw_connections E) (rw_threads E)"
  have results: "None \<notin> set (map (\<lambda>i. worker i (shares ! i)) [0..<length shares])"
    using some by (metis (no_types, lifting) imageE list.set_map)
  have "run_mio H E pl = (let results = map (\<lambda>i. worker i (shares ! i)) [0..<length shares]
      in if None \<in> set results then None else Some (map the results))"
    by (simp only: run_mio_def run_mio_threaded_def Let_def worker_def active_def shares_def)
  then have "run_mio H E pl = Some (map (\<lambda>i. the (worker i (shares ! i))) [0..<length shares])"
    using results by (simp add: comp_def)
  moreover have "rolled_up (the (worker i c)) \<and> length (ts_per_scenario (the (worker i c))) = ?n" for i c
    using w [of i c] by auto
  ultimately show ?thesis by (auto simp: tasks_ok_def)
qed

lemma backend_runner_ok:
  assumes "plan_runs pl" "world_runs E"
  shows "tasks_ok (length (pl_scenarios pl)) (backend_runner H E b pl)"
proof (cases b)
  case BMioH1
  then show ?thesis using run_mio_ok [OF assms] by (simp add: backend_runner_def Let_def)
next
  case BColdConnect
  then show ?thesis
    using run_cold_connect_ok [of H "rw_cold E" "rw_target E" "rw_connections E" "rw_rps E" "rw_cold_proc E" "rw_live E"
        "rw_duration E" pl] by (auto simp: backend_runner_def Let_def tasks_ok_def)
next
  case BSseHold
  then show ?thesis unfolding backend_runner_def Let_def run_sse_hold_def
    by (simp, intro tasks_okI sse_hold.tasks_roll_up)
next
  case BSseFanout
  then show ?thesis unfolding backend_runner_def Let_def run_sse_fanout_def
    by (simp, intro tasks_okI sse_fanout.tasks_roll_up)
next
  case BSseStorm
  then show ?thesis unfolding backend_runner_def Let_def run_sse_storm_def
    by (simp, intro tasks_okI sse_storm.tasks_roll_up)
next
  case BWsEcho
  then show ?thesis unfolding backend_runner_def Let_def run_ws_echo_rtt_def
    by (simp, intro tasks_okI ws_echo.tasks_roll_up)
next
  case BWsHold
  then show ?thesis unfolding backend_runner_def Let_def run_ws_hold_def
    by (simp, intro tasks_okI ws_hold.tasks_roll_up)
next
  case BWsPush
  then show ?thesis unfolding backend_runner_def Let_def run_ws_push_def
    by (simp, intro tasks_okI ws_push.tasks_roll_up)
next
  case BWsFanout
  then show ?thesis unfolding backend_runner_def Let_def run_ws_fanout_def
    by (simp, intro tasks_okI ws_fanout.tasks_roll_up)
qed

lemma plan_runs_sub: "plan_runs pl \<Longrightarrow> plan_runs (sub_plan pl p)"
  using le_trans [OF length_filter_le [of "\<lambda>s. scenario_protocol s = p" "pl_scenarios pl"], of "2 ^ 16"]
  by (auto simp: plan_runs_def sub_plan_def list_all_iff)

lemma run_one_protocol_ok:
  assumes "plan_runs pl" "world_runs E"
  shows "tasks_ok (length (pl_scenarios pl)) (run_one_protocol (backend_runner H E) pl)"
proof -
  obtain b where "route pl = Some b" using route_total [of pl] by auto
  then show ?thesis using backend_runner_ok [OF assms] by (simp add: run_one_protocol_def)
qed

lemma run_plan_ok:
  assumes "plan_runs pl" "world_runs E"
  shows "\<exists>ts. run_plan (backend_runner H E) pl = Some ts \<and> (\<forall>t \<in> set ts. rolled_up t)
    \<and> (length (active_protocols pl) \<le> 1 \<longrightarrow> (\<forall>t \<in> set ts. length (ts_per_scenario t) = length (pl_scenarios pl)))"
proof (cases "length (active_protocols pl) \<le> 1")
  case True
  then show ?thesis using run_one_protocol_ok [OF assms, of H] by (auto simp: run_plan_def Let_def tasks_ok_def)
next
  case False
  have "rolled_up t" if "t \<in> set (case run_one_protocol (backend_runner H E) (sub_plan pl p) of
      Some stats \<Rightarrow> stats | None \<Rightarrow> [])" for t p
    using that run_one_protocol_ok [OF plan_runs_sub [OF assms(1)] assms(2), of p H] by (auto simp: tasks_ok_def)
  then show ?thesis using False by (auto simp: run_plan_def Let_def)
qed

section \<open>Properties\<close>


text \<open>A plan and an environment, for the examples.\<close>

definition demo_ws_plan :: plan where
  "demo_ws_plan = plan_new\<lparr>pl_scenarios := [scenario_new ''a'' [WsHold demo_whold], scenario_new ''b'' [WsHold demo_whold]]\<rparr>"

definition demo_run_world :: "(nat, nat list) run_world" where
  "demo_run_world =
     \<lparr>rw_world = demo_world, rw_target = demo_target, rw_parse = demo_parse [] [], rw_threads = 2, rw_connections = 3,
      rw_duration = 50, rw_rps = None, rw_interval = (\<lambda>n r. None), rw_live = None, rw_render = (\<lambda>t. ''ws://h/''),
      rw_payload = (\<lambda>t. [104, 105]), rw_started = (\<lambda>sid. 1),
      rw_mio = (\<lambda>i. \<lparr>me_clock = (\<lambda>n. n), me_shard = i, me_rng = i, me_proc = demo_proc, me_opens = (\<lambda>k. ConnectFails),
         me_started = 1, me_turns = []\<rparr>),
      rw_cold = \<lparr>cz_world_of = demo_world, cz_parse = demo_parse [] [], cz_opts = default_transport_opts,
         cz_tls_config = False, cz_base = 1, cz_interval_of = (\<lambda>r. 0),
         cz_workers = (\<lambda>sid i. \<lparr>cb_poll = True, cb_addr = True, cb_rng = i, cb_shard = i\<rparr>), cz_schedule = (\<lambda>sid. [])\<rparr>,
      rw_cold_proc = demo_proc, rw_hold = (\<lambda>sid. demo_env), rw_storm = (\<lambda>sid i. [demo_storm_turn]),
      rw_fanout = \<lparr>fw_started = (\<lambda>sid. 1), fw_trigger_at = (\<lambda>sid. 1),
         fw_trigger_ctx = (\<lambda>sid. expand_ctx_of (context_new 0 0) demo_proc), fw_trigger_turns = (\<lambda>sid. []),
         fw_subs = (\<lambda>sid i. \<lparr>fe_open = demo_open, fe_writes = [], fe_t_sent = 1, fe_turns = []\<rparr>), fw_unix = (\<lambda>sid i k. (1, 1))\<rparr>,
      rw_echo = (\<lambda>sid i. demo_echo_env), rw_ws_hold = (\<lambda>sid i. demo_whold_env), rw_slow = (\<lambda>_ _ _. False),
      rw_push = (\<lambda>sid i. \<lparr>pv_conn = None, pv_handshake = 1, pv_turns = [], pv_elapsed = 1, pv_shard = i\<rparr>),
      rw_ws_fanout = \<lparr>wx_started = (\<lambda>sid. 1), wx_trigger_at = (\<lambda>sid. 1),
         wx_trigger_ctx = (\<lambda>sid. expand_ctx_of (context_new 0 0) demo_proc), wx_trigger_turns = (\<lambda>sid. []),
         wx_subs = (\<lambda>sid i. \<lparr>wf_conn = None, wf_handshake = 1, wf_turns = []\<rparr>), wx_unix = (\<lambda>sid i k. (1, 1))\<rparr>\<rparr>"

lemma demo_runs: "plan_runs demo_ws_plan" "world_runs demo_run_world" "plan_runs (demo_plan [demo_request])"
  using demo_plan_facts(2)
  by (simp_all add: plan_runs_def demo_ws_plan_def scenario_protocol_def scenario_new_def world_runs_def demo_run_world_def demo_plan_def)

lemma demo_ws_run:
  "length (active_protocols demo_ws_plan) \<le> 1" "run_plan (backend_runner H demo_run_world) demo_ws_plan \<noteq> Some []"
proof -
  have a: "active_protocols demo_ws_plan = [Ws]"
    by (simp add: demo_ws_plan_def active_protocols_def has_protocol_def scenario_protocol_def scenario_new_def)
  then show "length (active_protocols demo_ws_plan) \<le> 1" by simp
  have "route demo_ws_plan = Some BWsHold" by (simp add: route_def first_wire_step_def demo_ws_plan_def scenario_new_def)
  then show "run_plan (backend_runner H demo_run_world) demo_ws_plan \<noteq> Some []"
    using a by (simp add: run_plan_def run_one_protocol_def backend_runner_def Let_def run_ws_hold_def run_backend_def
        backend_scenarios_def demo_ws_plan_def scenario_protocol_def scenario_new_def whold_run_def map_filter_simps upt_rec)
qed


text \<open>
  The measurement loop repeats the plan without losing anything: it ends with one
  summary per run, and requests, bytes, errors and hard errors of the final summary are the sums of
  those of the runs.
\<close>

lemma measure_adds_up:
  assumes "plan_runs pl" "\<forall>E \<in> set Es. world_runs E"
  shows "\<exists>per_run final. measure_summary H Es dur pl = Some (per_run, final) \<and> length per_run = length Es
    \<and> ts_requests (sm_stats final) = (\<Sum>s \<leftarrow> per_run. ts_requests (sm_stats s))
    \<and> ts_bytes_sent (sm_stats final) = (\<Sum>s \<leftarrow> per_run. ts_bytes_sent (sm_stats s))
    \<and> ts_bytes_recv (sm_stats final) = (\<Sum>s \<leftarrow> per_run. ts_bytes_recv (sm_stats s))
    \<and> ec_total (ts_errors (sm_stats final)) = (\<Sum>s \<leftarrow> per_run. ec_total (ts_errors (sm_stats s)))
    \<and> ec_hard_total (ts_errors (sm_stats final)) = (\<Sum>s \<leftarrow> per_run. ec_hard_total (ts_errors (sm_stats s)))"
proof -
  have "\<exists>runs. measure_runs H Es pl = Some runs \<and> length runs = length Es"
    using assms(2)
  proof (induction Es)
    case (Cons E Es)
    then obtain ts where "run_plan (backend_runner H E) pl = Some ts" using run_plan_ok [OF assms(1), of E H] by auto
    with Cons show ?case by auto
  qed simp
  then obtain runs where runs: "measure_runs H Es pl = Some runs" "length runs = length Es" by blast
  have total: "view (sm_stats (summary_merge H (concat runs) d))
      = (\<Sum>s \<leftarrow> map (\<lambda>stats. summary_merge H stats dur) runs. view (sm_stats s))"
    if a: "accumulator (task_merge H) view" "\<And>n. view (task_stats_new H n) = 0" for view :: "'b task_stats \<Rightarrow> u64" and d
  proof -
    have each: "view (sm_stats (summary_merge H ts d)) = sum_list (map view ts)" for ts d
      by (simp add: summary_merge_def Let_def accumulator.fold_adds [OF a(1)] a(2))
    have "sum_list (map view (concat runs)) = (\<Sum>stats \<leftarrow> runs. sum_list (map view stats))"
      by (induction runs) simp_all
    then show ?thesis by (simp add: each comp_def)
  qed
  note t = total [OF acc_requests.accumulator_axioms] total [OF acc_sent.accumulator_axioms]
    total [OF acc_recv.accumulator_axioms] total [OF acc_errors.accumulator_axioms] total [OF acc_hard.accumulator_axioms]
  show ?thesis
    by (intro exI [of _ "map (\<lambda>stats. summary_merge H stats dur) runs"]
          exI [of _ "summary_merge H (concat runs) (dur * length Es)"] conjI t)
       (simp_all add: measure_summary_def runs count_simps)
qed

section \<open>Runs of the command line\<close>

lemma request_plan_http:
  assumes "request_plan_ok pl"
  shows "active_protocols pl = [Http]"
proof -
  have "scenario_protocol sn = Http" if "sn \<in> set (pl_scenarios pl)" for sn
  proof -
    from request_plan_steps [OF assms that] obtain rq where "sn_steps sn = [Request rq]" ..
    then show ?thesis by (simp add: scenario_protocol_def)
  qed
  then have "set (active_protocols pl) = {Http}"
    using assms by (auto simp: active_set request_plan_ok_def neq_Nil_conv)
  then show ?thesis using distinct_one [OF active_distinct] by blast
qed

lemma request_plan_runs:
  assumes "request_plan_ok pl" "length (pl_scenarios pl) \<le> 2 ^ 16"
  shows "plan_runs pl"
proof -
  have "first_request (sn_steps sn) \<noteq> None" if "sn \<in> set (pl_scenarios pl)" for sn
  proof -
    from request_plan_steps [OF assms(1) that] obtain rq where "sn_steps sn = [Request rq]" ..
    then show ?thesis by simp
  qed
  then show ?thesis using assms(2) by (simp add: plan_runs_def list_all_iff)
qed



end
