(* ===== verification/Dashboard.thy ===== *)
theory Dashboard
  imports Live
begin

text \<open>
  The live dashboard: its state and operations (\<open>zerobench-tui/src/state.rs\<close>), the key bindings and
  the frame loop (\<open>zerobench-tui/src/lib.rs\<close>). Percentile queries on histograms, floating-point
  arithmetic and the export to a file are parameters; drawing is left out.
\<close>

section \<open>Tabs\<close>

datatype tab = Overview | Latency | Throughput | ErrorsTab

fun tab_label :: "tab \<Rightarrow> string" where
  "tab_label Overview = ''Overview''"
| "tab_label Latency = ''Latency''"
| "tab_label Throughput = ''Throughput''"
| "tab_label ErrorsTab = ''Errors''"

fun tab_index :: "tab \<Rightarrow> nat" where
  "tab_index Overview = 0"
| "tab_index Latency = 1"
| "tab_index Throughput = 2"
| "tab_index ErrorsTab = 3"

definition tab_from_digit :: "nat \<Rightarrow> tab option" where
  "tab_from_digit d =
     (if d = 1 then Some Overview else if d = 2 then Some Latency
      else if d = 3 then Some Throughput else if d = 4 then Some ErrorsTab else None)"

definition tab_all :: "tab list" where
  "tab_all = [Overview, Latency, Throughput, ErrorsTab]"

fun tab_next :: "tab \<Rightarrow> tab" where
  "tab_next Overview = Latency"
| "tab_next Latency = Throughput"
| "tab_next Throughput = ErrorsTab"
| "tab_next ErrorsTab = Overview"

fun tab_prev :: "tab \<Rightarrow> tab" where
  "tab_prev Overview = ErrorsTab"
| "tab_prev Latency = Overview"
| "tab_prev Throughput = Latency"
| "tab_prev ErrorsTab = Throughput"

text \<open>Tabs are ordered as they are displayed.\<close>

instantiation tab :: linorder
begin

definition less_eq_tab :: "tab \<Rightarrow> tab \<Rightarrow> bool" where "less_eq_tab a b = (tab_index a \<le> tab_index b)"

definition less_tab :: "tab \<Rightarrow> tab \<Rightarrow> bool" where "less_tab a b = (tab_index a < tab_index b)"

instance
proof
  fix a b :: tab
  show "a \<le> b \<Longrightarrow> b \<le> a \<Longrightarrow> a = b" by (cases a; cases b) (simp_all add: less_eq_tab_def)
qed (auto simp: less_eq_tab_def less_tab_def)

end

section \<open>State\<close>

definition MAX_LOG_ENTRIES :: nat where "MAX_LOG_ENTRIES = 100"

definition MAX_TICKS :: nat where "MAX_TICKS = 300"

definition ROLLING_LATENCY_WINDOW :: nat where "ROLLING_LATENCY_WINDOW = 5"

definition DELTA_LOOKBACK :: nat where "DELTA_LOOKBACK = 10"

text \<open>Queries on a histogram: emptiness, and the value at a percentile given in tenths.\<close>

record 'h hist_read =
  hr_empty :: "'h \<Rightarrow> bool"
  hr_value :: "'h \<Rightarrow> nat \<Rightarrow> u64"

text \<open>The arithmetic on \<open>f64\<close> the dashboard uses.\<close>

record 'f dash_float =
  df_zero :: 'f
  df_one :: 'f
  df_of :: "u64 \<Rightarrow> 'f"
  df_less :: "'f \<Rightarrow> 'f \<Rightarrow> bool"
  df_nonpos :: "'f \<Rightarrow> bool"
  df_min :: "'f \<Rightarrow> 'f \<Rightarrow> 'f"
  df_sub :: "'f \<Rightarrow> 'f \<Rightarrow> 'f"
  df_div :: "'f \<Rightarrow> 'f \<Rightarrow> 'f"
  df_percent :: "'f \<Rightarrow> 'f"
  df_clamp :: "nat \<Rightarrow> 'f \<Rightarrow> 'f"
  df_seconds :: "duration \<Rightarrow> 'f"
  df_zoom_in :: "'f \<Rightarrow> 'f"
  df_zoom_out :: "'f \<Rightarrow> 'f"

record log_entry =
  le_timestamp :: duration
  le_category :: string
  le_message :: string

datatype 'f run_mode = ModeSaturate nat | ModeRate 'f

record 'f transport_info =
  ti_mode :: "'f run_mode"
  ti_connections :: nat
  ti_protocol :: string
  ti_tls :: bool
  ti_alpn :: "string option"

datatype marker = HalfBlock | Braille | DotMarker

text \<open>The tick of the live counters with its time and its rows; a row is a tick of one scenario.\<close>

record 'h full_tick = "'h live_tick" +
  tk_elapsed :: duration
  tk_scenarios :: "'h live_tick list"

record scenario_tick_record =
  sr_requests :: u64
  sr_bytes_sent :: u64
  sr_bytes_recv :: u64
  sr_p50_ns :: u64
  sr_p99_ns :: u64
  sr_errors :: error_counters

record 'h tick_record =
  tr_elapsed :: duration
  tr_requests :: u64
  tr_bytes_sent :: u64
  tr_bytes_recv :: u64
  tr_p50_ns :: u64
  tr_p90_ns :: u64
  tr_p99_ns :: u64
  tr_p99_9_ns :: u64
  tr_errors :: error_counters
  tr_latency :: 'h
  tr_rolling_p99_9_ns :: u64
  tr_per_scenario :: "scenario_tick_record list"

definition percentile_or_zero :: "'h hist_read \<Rightarrow> 'h \<Rightarrow> nat \<Rightarrow> u64" where
  "percentile_or_zero R h p = (if hr_empty R h then 0 else hr_value R h p)"

definition scenario_record :: "'h hist_read \<Rightarrow> 'h live_tick \<Rightarrow> scenario_tick_record" where
  "scenario_record R s =
     \<lparr>sr_requests = tk_requests s, sr_bytes_sent = tk_bytes_sent s, sr_bytes_recv = tk_bytes_recv s,
      sr_p50_ns = percentile_or_zero R (tk_latency s) 500, sr_p99_ns = percentile_or_zero R (tk_latency s) 990,
      sr_errors = tk_errors s\<rparr>"

definition from_live :: "'h hist_read \<Rightarrow> 'h full_tick \<Rightarrow> 'h tick_record" where
  "from_live R t =
     \<lparr>tr_elapsed = tk_elapsed t, tr_requests = tk_requests t, tr_bytes_sent = tk_bytes_sent t,
      tr_bytes_recv = tk_bytes_recv t, tr_p50_ns = percentile_or_zero R (tk_latency t) 500,
      tr_p90_ns = percentile_or_zero R (tk_latency t) 900, tr_p99_ns = percentile_or_zero R (tk_latency t) 990,
      tr_p99_9_ns = percentile_or_zero R (tk_latency t) 999, tr_errors = tk_errors t, tr_latency = tk_latency t,
      tr_rolling_p99_9_ns = 0, tr_per_scenario = map (scenario_record R) (tk_scenarios t)\<rparr>"

record ('h, 'f) dashboard =
  ds_started_at :: instant
  ds_target_rate :: "'f option"
  ds_total_duration :: duration
  ds_url_label :: string
  ds_transport :: "'f transport_info"
  ds_ticks :: "'h tick_record list"
  ds_total_requests :: u64
  ds_total_errors :: error_counters
  ds_cumulative_bytes_sent :: u64
  ds_cumulative_bytes_recv :: u64
  ds_peak_rps :: 'f
  ds_min_rps :: "'f option"
  ds_prev_p99_9_ns :: "u64 option"
  ds_current_tab :: tab
  ds_help_visible :: bool
  ds_paused_rendering :: bool
  ds_log_visible :: bool
  ds_exit_requested :: bool
  ds_run_completed :: bool
  ds_y_scale :: 'f
  ds_marker :: marker
  ds_log_entries :: "log_entry list"
  ds_log_scroll :: nat
  ds_last_save_path :: "string option"
  ds_last_save_at :: "instant option"
  ds_auto_export :: bool
  ds_export_path :: "string option"
  ds_scenario_names :: "string list"
  ds_scenario_total_requests :: "u64 list"
  ds_scenario_total_errors :: "error_counters list"

definition dash_new ::
  "'f dash_float \<Rightarrow> instant \<Rightarrow> 'f option \<Rightarrow> duration \<Rightarrow> string \<Rightarrow> 'f transport_info \<Rightarrow> string list \<Rightarrow> ('h, 'f) dashboard" where
  "dash_new F now target_rate total_duration url_label transport scenario_names =
     \<lparr>ds_started_at = now, ds_target_rate = target_rate, ds_total_duration = total_duration,
      ds_url_label = url_label, ds_transport = transport, ds_ticks = [], ds_total_requests = 0,
      ds_total_errors = ec_default, ds_cumulative_bytes_sent = 0, ds_cumulative_bytes_recv = 0,
      ds_peak_rps = df_zero F, ds_min_rps = None, ds_prev_p99_9_ns = None, ds_current_tab = Overview,
      ds_help_visible = False, ds_paused_rendering = False, ds_log_visible = False, ds_exit_requested = False,
      ds_run_completed = False, ds_y_scale = df_one F, ds_marker = Braille, ds_log_entries = [], ds_log_scroll = 0,
      ds_last_save_path = None, ds_last_save_at = None, ds_auto_export = True, ds_export_path = None,
      ds_scenario_names = scenario_names, ds_scenario_total_requests = replicate (length scenario_names) 0,
      ds_scenario_total_errors = replicate (length scenario_names) ec_default\<rparr>"

section \<open>Operations\<close>

text \<open>The window of the newest \<open>n\<close> elements.\<close>

definition newest :: "nat \<Rightarrow> 'a list \<Rightarrow> 'a list" where
  "newest n xs = drop (length xs - n) xs"

definition merge_window :: "'h hist_ops \<Rightarrow> 'h tick_record list \<Rightarrow> 'h" where
  "merge_window H ticks =
     foldl (h_add H) (new_hist H) (map tr_latency (newest ROLLING_LATENCY_WINDOW ticks))"

definition compute_rolling_p99_9_ns :: "'h hist_ops \<Rightarrow> 'h hist_read \<Rightarrow> 'h tick_record list \<Rightarrow> u64" where
  "compute_rolling_p99_9_ns H R ticks =
     (if ticks = [] then 0 else percentile_or_zero R (merge_window H ticks) 999)"

definition add_scenarios ::
  "scenario_tick_record list \<Rightarrow> u64 list \<times> error_counters list \<Rightarrow> u64 list \<times> error_counters list" where
  "add_scenarios rows totals =
     fold (\<lambda>(i, st) (rs, es).
         if i < length rs then (rs[i := rs ! i + sr_requests st], es[i := ec_merge (es ! i) (sr_errors st)]) else (rs, es))
       (zip [0..<length rows] rows) totals"

definition track_rates :: "'f dash_float \<Rightarrow> u64 \<Rightarrow> ('h, 'f) dashboard \<Rightarrow> ('h, 'f) dashboard" where
  "track_rates F requests d =
     (let rps = df_of F requests;
          d1 = (if df_less F (ds_peak_rps d) rps then d\<lparr>ds_peak_rps := rps\<rparr> else d)
      in if df_less F (df_zero F) rps
         then d1\<lparr>ds_min_rps := Some (case ds_min_rps d1 of Some prev \<Rightarrow> df_min F prev rps | None \<Rightarrow> rps)\<rparr>
         else d1)"

definition ingest :: "'h hist_ops \<Rightarrow> 'h hist_read \<Rightarrow> 'f dash_float \<Rightarrow> 'h full_tick \<Rightarrow> ('h, 'f) dashboard \<Rightarrow> ('h, 'f) dashboard" where
  "ingest H R F t d =
     (let d1 = d\<lparr>ds_total_requests := ds_total_requests d + tk_requests t,
                 ds_total_errors := ec_merge (ds_total_errors d) (tk_errors t),
                 ds_cumulative_bytes_sent := ds_cumulative_bytes_sent d + tk_bytes_sent t,
                 ds_cumulative_bytes_recv := ds_cumulative_bytes_recv d + tk_bytes_recv t\<rparr>;
          d2 = track_rates F (tk_requests t) d1;
          rc = from_live R t;
          (rs, es) = add_scenarios (tr_per_scenario rc) (ds_scenario_total_requests d2, ds_scenario_total_errors d2);
          ticks = newest MAX_TICKS (ds_ticks d2 @ [rc]);
          rolling = compute_rolling_p99_9_ns H R ticks;
          ticks' = butlast ticks @ [(List.last ticks)\<lparr>tr_rolling_p99_9_ns := rolling\<rparr>];
          prev = (if DELTA_LOOKBACK \<le> length ticks'
                  then Some (tr_rolling_p99_9_ns (ticks' ! (length ticks' - DELTA_LOOKBACK)))
                  else ds_prev_p99_9_ns d2)
      in d2\<lparr>ds_scenario_total_requests := rs, ds_scenario_total_errors := es, ds_ticks := ticks',
            ds_prev_p99_9_ns := prev\<rparr>)"

definition reset_peaks :: "'f dash_float \<Rightarrow> ('h, 'f) dashboard \<Rightarrow> ('h, 'f) dashboard" where
  "reset_peaks F d = d\<lparr>ds_peak_rps := df_zero F, ds_min_rps := None\<rparr>"

definition back_tick :: "('h, 'f) dashboard \<Rightarrow> 'h tick_record option" where
  "back_tick d = (if ds_ticks d = [] then None else Some (List.last (ds_ticks d)))"

definition requests_per_sec :: "'f dash_float \<Rightarrow> ('h, 'f) dashboard \<Rightarrow> 'f" where
  "requests_per_sec F d = (case back_tick d of Some t \<Rightarrow> df_of F (tr_requests t) | None \<Rightarrow> df_zero F)"

definition avg_rps :: "'f dash_float \<Rightarrow> ('h, 'f) dashboard \<Rightarrow> 'f" where
  "avg_rps F d =
     (if ds_ticks d = [] then df_zero F
      else df_div F (df_of F (sum_list (map tr_requests (ds_ticks d)))) (df_of F (word_of_nat (length (ds_ticks d)))))"

definition actual_vs_target_pct :: "'f dash_float \<Rightarrow> ('h, 'f) dashboard \<Rightarrow> 'f option" where
  "actual_vs_target_pct F d =
     (case ds_target_rate d of
        None \<Rightarrow> None
      | Some target \<Rightarrow>
          if df_nonpos F target then None
          else Some (df_clamp F 200 (df_percent F (df_div F (requests_per_sec F d) target))))"

definition elapsed :: "instant \<Rightarrow> ('h, 'f) dashboard \<Rightarrow> duration" where
  "elapsed now d = now - ds_started_at d"

definition progress :: "'f dash_float \<Rightarrow> instant \<Rightarrow> ('h, 'f) dashboard \<Rightarrow> 'f" where
  "progress F now d =
     (let whole = df_seconds F (ds_total_duration d) in
      if df_nonpos F whole then df_one F
      else df_clamp F 1 (df_div F (df_seconds F (elapsed now d)) whole))"

definition sparkline_data :: "nat \<Rightarrow> ('h, 'f) dashboard \<Rightarrow> u64 list" where
  "sparkline_data max_points d =
     (let n = min (length (ds_ticks d)) max_points
      in rev (map tr_requests (take n (rev (ds_ticks d)))))"

definition rolling_latency :: "'h hist_ops \<Rightarrow> 'h hist_read \<Rightarrow> ('h, 'f) dashboard \<Rightarrow> 'h option" where
  "rolling_latency H R d =
     (if ds_ticks d = [] then None
      else (let hist = merge_window H (ds_ticks d) in if hr_empty R hist then None else Some hist))"

definition rolling_p99_9_ns :: "('h, 'f) dashboard \<Rightarrow> u64" where
  "rolling_p99_9_ns d = (case back_tick d of Some t \<Rightarrow> tr_rolling_p99_9_ns t | None \<Rightarrow> 0)"

definition p99_9_delta_pct :: "'f dash_float \<Rightarrow> ('h, 'f) dashboard \<Rightarrow> 'f option" where
  "p99_9_delta_pct F d =
     (case ds_prev_p99_9_ns d of
        None \<Rightarrow> None
      | Some baseline \<Rightarrow>
          if baseline = 0 then None
          else Some (df_percent F (df_div F (df_sub F (df_of F (rolling_p99_9_ns d)) (df_of F baseline)) (df_of F baseline))))"

definition last_tick_errors :: "('h, 'f) dashboard \<Rightarrow> error_counters" where
  "last_tick_errors d = (case back_tick d of Some t \<Rightarrow> tr_errors t | None \<Rightarrow> ec_default)"

definition last_tick_bytes :: "('h, 'f) dashboard \<Rightarrow> u64 \<times> u64" where
  "last_tick_bytes d = (case back_tick d of Some t \<Rightarrow> (tr_bytes_sent t, tr_bytes_recv t) | None \<Rightarrow> (0, 0))"

definition last_row :: "nat \<Rightarrow> ('h, 'f) dashboard \<Rightarrow> scenario_tick_record option" where
  "last_row idx d =
     (case back_tick d of
        Some t \<Rightarrow> if idx < length (tr_per_scenario t) then Some (tr_per_scenario t ! idx) else None
      | None \<Rightarrow> None)"

definition scenario_rps :: "'f dash_float \<Rightarrow> nat \<Rightarrow> ('h, 'f) dashboard \<Rightarrow> 'f" where
  "scenario_rps F idx d = (case last_row idx d of Some s \<Rightarrow> df_of F (sr_requests s) | None \<Rightarrow> df_zero F)"

definition scenario_p99_ns :: "nat \<Rightarrow> ('h, 'f) dashboard \<Rightarrow> u64" where
  "scenario_p99_ns idx d = (case last_row idx d of Some s \<Rightarrow> sr_p99_ns s | None \<Rightarrow> 0)"

definition push_log :: "log_entry \<Rightarrow> ('h, 'f) dashboard \<Rightarrow> ('h, 'f) dashboard" where
  "push_log e d = d\<lparr>ds_log_entries := newest MAX_LOG_ENTRIES (ds_log_entries d @ [e])\<rparr>"

definition log_scroll_up :: "('h, 'f) dashboard \<Rightarrow> ('h, 'f) dashboard" where
  "log_scroll_up d = d\<lparr>ds_log_scroll := min (Suc (ds_log_scroll d)) usize_max\<rparr>"

definition log_scroll_down :: "('h, 'f) dashboard \<Rightarrow> ('h, 'f) dashboard" where
  "log_scroll_down d = d\<lparr>ds_log_scroll := ds_log_scroll d - 1\<rparr>"

definition log_scroll_top :: "('h, 'f) dashboard \<Rightarrow> ('h, 'f) dashboard" where
  "log_scroll_top d =
     (if ds_log_entries d \<noteq> [] then d\<lparr>ds_log_scroll := length (ds_log_entries d) - 1\<rparr> else d)"

definition log_scroll_bottom :: "('h, 'f) dashboard \<Rightarrow> ('h, 'f) dashboard" where
  "log_scroll_bottom d = d\<lparr>ds_log_scroll := 0\<rparr>"

section \<open>Keys\<close>

datatype key = KChar char | KTab | KBackTab | KEsc | KUp | KDown | KHome | KEnd | KOther

text \<open>\<open>ex\<close> is the export of a report: the path written, or an error.\<close>

definition do_export :: "(('h, 'f) dashboard \<Rightarrow> string + string) \<Rightarrow> instant \<Rightarrow> ('h, 'f) dashboard \<Rightarrow> ('h, 'f) dashboard" where
  "do_export ex now d =
     d\<lparr>ds_last_save_path := Some (case ex d of Inr p \<Rightarrow> p | Inl e \<Rightarrow> ''export failed: '' @ e),
       ds_last_save_at := Some now\<rparr>"

fun marker_next :: "marker \<Rightarrow> marker" where
  "marker_next HalfBlock = Braille"
| "marker_next Braille = DotMarker"
| "marker_next DotMarker = HalfBlock"

definition handle_key ::
  "'f dash_float \<Rightarrow> (('h, 'f) dashboard \<Rightarrow> string + string) \<Rightarrow> instant \<Rightarrow> key \<Rightarrow> bool \<Rightarrow> ('h, 'f) dashboard \<Rightarrow> ('h, 'f) dashboard" where
  "handle_key F ex now k shift d =
     (if ds_help_visible d then
        (if k = KChar (CHR ''?'') \<or> k = KEsc then d\<lparr>ds_help_visible := False\<rparr>
         else if k = KChar (CHR ''q'') \<or> k = KChar (CHR ''Q'') then d\<lparr>ds_exit_requested := True\<rparr>
         else d)
      else if k = KChar (CHR ''q'') \<or> k = KChar (CHR ''Q'') \<or> k = KEsc then d\<lparr>ds_exit_requested := True\<rparr>
      else if k = KChar (CHR ''1'') then d\<lparr>ds_current_tab := Overview\<rparr>
      else if k = KChar (CHR ''2'') then d\<lparr>ds_current_tab := Latency\<rparr>
      else if k = KChar (CHR ''3'') then d\<lparr>ds_current_tab := Throughput\<rparr>
      else if k = KChar (CHR ''4'') then d\<lparr>ds_current_tab := ErrorsTab\<rparr>
      else if k = KTab then
        d\<lparr>ds_current_tab := (if shift then tab_prev (ds_current_tab d) else tab_next (ds_current_tab d))\<rparr>
      else if k = KBackTab then d\<lparr>ds_current_tab := tab_prev (ds_current_tab d)\<rparr>
      else if k = KChar (CHR ''?'') then d\<lparr>ds_help_visible := True\<rparr>
      else if k = KChar (CHR ''p'') \<or> k = KChar (CHR ''P'') then d\<lparr>ds_paused_rendering := \<not> ds_paused_rendering d\<rparr>
      else if k = KChar (CHR ''l'') \<or> k = KChar (CHR ''L'') then d\<lparr>ds_log_visible := \<not> ds_log_visible d\<rparr>
      else if k = KChar (CHR ''r'') \<or> k = KChar (CHR ''R'') then reset_peaks F d
      else if k = KChar (CHR ''s'') \<or> k = KChar (CHR ''S'') then do_export ex now d
      else if (k = KUp \<or> k = KChar (CHR ''k'') \<or> k = KChar (CHR ''K'')) \<and> ds_log_visible d then log_scroll_up d
      else if (k = KDown \<or> k = KChar (CHR ''j'') \<or> k = KChar (CHR ''J'')) \<and> ds_log_visible d then log_scroll_down d
      else if k = KHome \<and> ds_log_visible d then log_scroll_top d
      else if k = KEnd \<and> ds_log_visible d then log_scroll_bottom d
      else if k = KChar (CHR ''+'') \<or> k = KChar (CHR ''='') then d\<lparr>ds_y_scale := df_zoom_in F (ds_y_scale d)\<rparr>
      else if k = KChar (CHR ''-'') then d\<lparr>ds_y_scale := df_zoom_out F (ds_y_scale d)\<rparr>
      else if k = KChar (CHR ''0'') then d\<lparr>ds_y_scale := df_one F\<rparr>
      else if k = KChar (CHR ''m'') \<or> k = KChar (CHR ''M'') then d\<lparr>ds_marker := marker_next (ds_marker d)\<rparr>
      else d)"

section \<open>The frame loop\<close>

definition SNAPSHOT_INTERVAL :: duration where "SNAPSHOT_INTERVAL = 1000000000"

text \<open>What one iteration meets: the stop flag, a key, the clock, and the ticks that swaps return.\<close>

record 'h tui_turn =
  tn_stopped :: bool
  tn_final :: "'h full_tick"
  tn_key :: "(key \<times> bool) option"
  tn_now :: instant
  tn_ticks :: "nat \<Rightarrow> 'h full_tick"

text \<open>\<open>tl_swapped\<close> lists the ticks that were swapped out, \<open>tl_stop\<close> whether the loop tripped the flag.\<close>

record ('h, 'f) tui_loop =
  tl_dash :: "('h, 'f) dashboard"
  tl_next :: instant
  tl_completed :: bool
  tl_swapped :: "'h full_tick list"
  tl_stop :: bool
  tl_exited :: bool

function due_loop ::
  "'h hist_ops \<Rightarrow> 'h hist_read \<Rightarrow> 'f dash_float \<Rightarrow> (nat \<Rightarrow> 'h full_tick) \<Rightarrow> instant \<Rightarrow> nat \<Rightarrow> ('h, 'f) tui_loop \<Rightarrow> ('h, 'f) tui_loop" where
  "due_loop H R F tick now k s =
     (if tl_next s \<le> now then
        due_loop H R F tick now (Suc k)
          (s\<lparr>tl_dash := ingest H R F (tick k) (tl_dash s), tl_swapped := tl_swapped s @ [tick k],
             tl_next := tl_next s + SNAPSHOT_INTERVAL\<rparr>)
      else s)"
  by pat_completeness auto
termination
  by (relation "measure (\<lambda>(_, _, _, _, now, _, s). Suc now - tl_next s)") (auto simp: SNAPSHOT_INTERVAL_def)

declare due_loop.simps [simp del]

definition tui_turn ::
  "'h hist_ops \<Rightarrow> 'h hist_read \<Rightarrow> 'f dash_float \<Rightarrow> (('h, 'f) dashboard \<Rightarrow> string + string) \<Rightarrow> 'h tui_turn
     \<Rightarrow> ('h, 'f) tui_loop \<Rightarrow> ('h, 'f) tui_loop" where
  "tui_turn H R F ex t s =
     (if tl_exited s then s
      else if ds_exit_requested (tl_dash s) then
        s\<lparr>tl_stop := tl_stop s \<or> \<not> tl_completed s, tl_exited := True\<rparr>
      else
        (let s1 = (if \<not> tl_completed s \<and> tn_stopped t then
                     (let d = (ingest H R F (tn_final t) (tl_dash s))\<lparr>ds_run_completed := True\<rparr>
                      in s\<lparr>tl_completed := True, tl_swapped := tl_swapped s @ [tn_final t],
                           tl_dash := (if ds_auto_export d then do_export ex (tn_now t) d else d)\<rparr>)
                   else s);
             s2 = (case tn_key t of
                     Some (k, shift) \<Rightarrow> s1\<lparr>tl_dash := handle_key F ex (tn_now t) k shift (tl_dash s1)\<rparr>
                   | None \<Rightarrow> s1)
         in if tl_completed s2 then s2 else due_loop H R F (tn_ticks t) (tn_now t) 0 s2))"

definition tui_start ::
  "'f dash_float \<Rightarrow> instant \<Rightarrow> 'f option \<Rightarrow> duration \<Rightarrow> string \<Rightarrow> 'f transport_info \<Rightarrow> string list \<Rightarrow> ('h, 'f) tui_loop" where
  "tui_start F start rate dur url ti names =
     \<lparr>tl_dash = dash_new F start rate dur url ti names, tl_next = start + SNAPSHOT_INTERVAL, tl_completed = False,
      tl_swapped = [], tl_stop = False, tl_exited = False\<rparr>"

definition run_tui ::
  "'h hist_ops \<Rightarrow> 'h hist_read \<Rightarrow> 'f dash_float \<Rightarrow> (('h, 'f) dashboard \<Rightarrow> string + string) \<Rightarrow> 'h tui_turn list
     \<Rightarrow> ('h, 'f) tui_loop \<Rightarrow> ('h, 'f) tui_loop" where
  "run_tui H R F ex turns s = fold (tui_turn H R F ex) turns s"

section \<open>Lemmas\<close>

subsection \<open>Windows\<close>

lemma newest_snoc: "newest (Suc n) (xs @ [x]) = newest n xs @ [x]"
  by (simp add: newest_def)

lemma newest_newest: "n \<le> m \<Longrightarrow> newest n (newest m xs) = newest n xs"
  by (cases "m \<le> length xs") (auto simp: newest_def)

lemma newest_map: "map f (newest n xs) = newest n (map f xs)"
  by (simp add: newest_def drop_map)

lemma newest_length: "length (newest n xs) = min n (length xs)"
  by (auto simp: newest_def)

lemma newest_nth:
  "0 < k \<Longrightarrow> k \<le> m \<Longrightarrow> k \<le> length xs \<Longrightarrow> newest m xs ! (length (newest m xs) - k) = xs ! (length xs - k)"
  by (auto simp: newest_def min_def)

subsection \<open>What the dashboard shows\<close>

text \<open>The rolling percentile after the ticks \<open>ts\<close>, from their own histograms, and the records of all ticks.\<close>

definition rolled :: "'h hist_ops \<Rightarrow> 'h hist_read \<Rightarrow> 'h full_tick list \<Rightarrow> u64" where
  "rolled H R ts =
     percentile_or_zero R (foldl (h_add H) (new_hist H) (map tk_latency (newest ROLLING_LATENCY_WINDOW ts))) 999"

fun history :: "'h hist_ops \<Rightarrow> 'h hist_read \<Rightarrow> 'h full_tick list \<Rightarrow> 'h full_tick list \<Rightarrow> 'h tick_record list" where
  "history H R past [] = []"
| "history H R past (t # ts) =
     (from_live R t)\<lparr>tr_rolling_p99_9_ns := rolled H R (past @ [t])\<rparr> # history H R (past @ [t]) ts"

lemma history_snoc:
  "history H R past (ts @ [t]) = history H R past ts @ [(from_live R t)\<lparr>tr_rolling_p99_9_ns := rolled H R (past @ ts @ [t])\<rparr>]"
  by (induction ts arbitrary: past) simp_all

lemma history_length [simp]: "length (history H R past ts) = length ts"
  by (induction ts arbitrary: past) simp_all

lemma history_latency: "map tr_latency (history H R past ts) = map tk_latency ts"
  by (induction ts arbitrary: past) (simp_all add: from_live_def)

lemma history_rolled:
  "i < length ts \<Longrightarrow> tr_rolling_p99_9_ns (history H R past ts ! i) = rolled H R (past @ take (Suc i) ts)"
proof (induction ts arbitrary: past i)
  case (Cons t ts)
  then show ?case by (cases i) simp_all
qed simp

definition row_value :: "(scenario_tick_record \<Rightarrow> u64) \<Rightarrow> 'h hist_read \<Rightarrow> nat \<Rightarrow> 'h full_tick \<Rightarrow> u64" where
  "row_value f R i t = (if i < length (tk_scenarios t) then f (scenario_record R (tk_scenarios t ! i)) else 0)"

text \<open>The dashboard \<open>d\<close>, of \<open>n\<close> scenarios, shows the ticks \<open>ts\<close>.\<close>

definition shows_ticks :: "'h hist_ops \<Rightarrow> 'h hist_read \<Rightarrow> nat \<Rightarrow> 'h full_tick list \<Rightarrow> ('h, 'f) dashboard \<Rightarrow> bool" where
  "shows_ticks H R n ts d =
     (ds_ticks d = newest MAX_TICKS (history H R [] ts)
      \<and> ds_total_requests d = sum_list (map tk_requests ts)
      \<and> ds_cumulative_bytes_sent d = sum_list (map tk_bytes_sent ts)
      \<and> ds_cumulative_bytes_recv d = sum_list (map tk_bytes_recv ts)
      \<and> (\<forall>k. error_get k (ds_total_errors d) = sum_list (map (\<lambda>t. error_get k (tk_errors t)) ts))
      \<and> length (ds_scenario_total_requests d) = n \<and> length (ds_scenario_total_errors d) = n
      \<and> (\<forall>i < n. ds_scenario_total_requests d ! i = sum_list (map (row_value sr_requests R i) ts)
           \<and> (\<forall>k. error_get k (ds_scenario_total_errors d ! i)
                = sum_list (map (row_value (\<lambda>s. error_get k (sr_errors s)) R i) ts)))
      \<and> ds_prev_p99_9_ns d = (if DELTA_LOOKBACK \<le> length ts
           then Some (rolled H R (take (length ts - (DELTA_LOOKBACK - 1)) ts)) else None))"

lemma shows_new: "shows_ticks H R (length names) [] (dash_new F now rate dur url ti names)"
proof -
  have "error_get k ec_default = 0" for k by (cases k) (simp_all add: ec_default_def)
  then show ?thesis
    by (simp add: shows_ticks_def dash_new_def newest_def DELTA_LOOKBACK_def)
qed

lemma error_get_merge: "error_get k (ec_merge a b) = error_get k a + error_get k b"
  by (cases k) (simp_all add: ec_merge_def)

lemma add_scenarios_at:
  assumes "add_scenarios rows (rs, es) = (rs', es')" "length es = length rs"
  shows "length rs' = length rs \<and> length es' = length rs
    \<and> (\<forall>i < length rs. rs' ! i = rs ! i + (if i < length rows then sr_requests (rows ! i) else 0)
        \<and> (\<forall>k. error_get k (es' ! i) = error_get k (es ! i) + (if i < length rows then error_get k (sr_errors (rows ! i)) else 0)))"
  using assms(1)
proof (induction rows arbitrary: rs' es' rule: rev_induct)
  case Nil
  then show ?case using assms(2) by (auto simp: add_scenarios_def)
next
  case (snoc x rows)
  obtain rs1 es1 where 1: "add_scenarios rows (rs, es) = (rs1, es1)" by (cases "add_scenarios rows (rs, es)")
  note IH = snoc.IH [OF 1]
  have "(rs', es') = (if length rows < length rs1
      then (rs1[length rows := rs1 ! length rows + sr_requests x], es1[length rows := ec_merge (es1 ! length rows) (sr_errors x)])
      else (rs1, es1))"
    using snoc.prems 1 by (simp add: add_scenarios_def)
  then show ?case using IH
    by (auto simp: nth_append nth_list_update error_get_merge less_Suc_eq split: if_splits)
qed

lemma track_rates_keeps [simp]:
  "ds_ticks (track_rates F r d) = ds_ticks d" "ds_total_requests (track_rates F r d) = ds_total_requests d"
  "ds_total_errors (track_rates F r d) = ds_total_errors d"
  "ds_cumulative_bytes_sent (track_rates F r d) = ds_cumulative_bytes_sent d"
  "ds_cumulative_bytes_recv (track_rates F r d) = ds_cumulative_bytes_recv d"
  "ds_prev_p99_9_ns (track_rates F r d) = ds_prev_p99_9_ns d"
  "ds_scenario_total_requests (track_rates F r d) = ds_scenario_total_requests d"
  "ds_scenario_total_errors (track_rates F r d) = ds_scenario_total_errors d"
  "ds_log_entries (track_rates F r d) = ds_log_entries d"
  "ds_exit_requested (track_rates F r d) = ds_exit_requested d"
  by (simp_all add: track_rates_def Let_def)

lemma ring_ingest:
  fixes ts :: "'h full_tick list"
  assumes "ticks = newest MAX_TICKS (newest MAX_TICKS (history H R [] ts) @ [from_live R t])"
  shows "butlast ticks @ [(List.last ticks)\<lparr>tr_rolling_p99_9_ns := compute_rolling_p99_9_ns H R ticks\<rparr>]
       = newest MAX_TICKS (history H R [] (ts @ [t]))"
proof -
  let ?old = "newest 299 (history H R [] ts)"
  have m: "MAX_TICKS = Suc 299" by (simp add: MAX_TICKS_def)
  have t: "ticks = ?old @ [from_live R t]"
    unfolding assms m newest_snoc by (simp add: newest_newest)
  have w: "ROLLING_LATENCY_WINDOW = Suc 4" by (simp add: ROLLING_LATENCY_WINDOW_def)
  have "map tr_latency (newest ROLLING_LATENCY_WINDOW ticks) = newest 4 (map tr_latency (history H R [] ts)) @ [tk_latency t]"
    unfolding t w newest_snoc by (simp add: newest_newest newest_map from_live_def)
  also have "\<dots> = map tk_latency (newest ROLLING_LATENCY_WINDOW (ts @ [t]))"
    unfolding w newest_snoc history_latency by (simp add: newest_map)
  finally have "compute_rolling_p99_9_ns H R ticks = rolled H R (ts @ [t])"
    using t by (simp add: compute_rolling_p99_9_ns_def merge_window_def rolled_def)
  then show ?thesis unfolding t m history_snoc newest_snoc by simp
qed

lemma ingest_shows:
  assumes "shows_ticks H R n ts d"
  shows "shows_ticks H R n (ts @ [t]) (ingest H R F t d)"
proof -
  define d1 where "d1 = d\<lparr>ds_total_requests := ds_total_requests d + tk_requests t,
                 ds_total_errors := ec_merge (ds_total_errors d) (tk_errors t),
                 ds_cumulative_bytes_sent := ds_cumulative_bytes_sent d + tk_bytes_sent t,
                 ds_cumulative_bytes_recv := ds_cumulative_bytes_recv d + tk_bytes_recv t\<rparr>"
  define d2 where "d2 = track_rates F (tk_requests t) d1"
  define rc where "rc = from_live R t"
  obtain rs es where rows: "add_scenarios (tr_per_scenario rc) (ds_scenario_total_requests d, ds_scenario_total_errors d) = (rs, es)"
    by (cases "add_scenarios (tr_per_scenario rc) (ds_scenario_total_requests d, ds_scenario_total_errors d)")
  define ticks where "ticks = newest MAX_TICKS (ds_ticks d @ [rc])"
  define ticks' where "ticks' = butlast ticks @ [(List.last ticks)\<lparr>tr_rolling_p99_9_ns := compute_rolling_p99_9_ns H R ticks\<rparr>]"
  define prev where "prev = (if DELTA_LOOKBACK \<le> length ticks'
                  then Some (tr_rolling_p99_9_ns (ticks' ! (length ticks' - DELTA_LOOKBACK))) else ds_prev_p99_9_ns d)"
  have i: "ingest H R F t d = d2\<lparr>ds_scenario_total_requests := rs, ds_scenario_total_errors := es, ds_ticks := ticks',
            ds_prev_p99_9_ns := prev\<rparr>"
    using rows by (simp add: ingest_def d2_def d1_def rc_def ticks_def ticks'_def prev_def Let_def)
  have lens: "length (ds_scenario_total_requests d) = n" "length (ds_scenario_total_errors d) = n"
    using assms by (simp_all add: shows_ticks_def)
  have ring: "ticks' = newest MAX_TICKS (history H R [] (ts @ [t]))"
    unfolding ticks'_def by (rule ring_ingest) (use assms in \<open>simp add: ticks_def rc_def shows_ticks_def\<close>)
  have row: "(if i < length (tr_per_scenario rc) then f (tr_per_scenario rc ! i) else 0) = row_value f R i t" for f i
    by (simp add: rc_def from_live_def row_value_def)
  have rowe: "(if i < length (tr_per_scenario rc) then error_get k (sr_errors (tr_per_scenario rc ! i)) else 0)
      = row_value (\<lambda>s. error_get k (sr_errors s)) R i t" for i k
    using row [where f = "\<lambda>s. error_get k (sr_errors s)"] by simp
  have at: "length rs = n" "length es = n"
    "\<And>i. i < n \<Longrightarrow> rs ! i = ds_scenario_total_requests d ! i + row_value sr_requests R i t"
    "\<And>i k. i < n \<Longrightarrow> error_get k (es ! i) = error_get k (ds_scenario_total_errors d ! i) + row_value (\<lambda>s. error_get k (sr_errors s)) R i t"
    using add_scenarios_at [OF rows] lens row [where f = sr_requests] rowe by simp_all
  have prev: "prev = (if DELTA_LOOKBACK \<le> length (ts @ [t])
      then Some (rolled H R (take (length (ts @ [t]) - (DELTA_LOOKBACK - 1)) (ts @ [t]))) else None)"
  proof (cases "DELTA_LOOKBACK \<le> length (ts @ [t])")
    case True
    let ?ts = "ts @ [t]"
    have len: "DELTA_LOOKBACK \<le> length ticks'" using True by (simp add: ring newest_length MAX_TICKS_def DELTA_LOOKBACK_def)
    have "ticks' ! (length ticks' - DELTA_LOOKBACK) = history H R [] ?ts ! (length ?ts - DELTA_LOOKBACK)"
      unfolding ring using True newest_nth [of DELTA_LOOKBACK MAX_TICKS "history H R [] ?ts"]
      by (simp add: MAX_TICKS_def DELTA_LOOKBACK_def)
    moreover have "length ?ts - DELTA_LOOKBACK < length ?ts" "Suc (length ?ts - DELTA_LOOKBACK) = length ?ts - (DELTA_LOOKBACK - 1)"
      using True by (simp_all add: DELTA_LOOKBACK_def)
    ultimately show ?thesis using True len history_rolled [of "length ?ts - DELTA_LOOKBACK" ?ts H R "[]"] by (simp add: prev_def)
  next
    case False
    then have "\<not> DELTA_LOOKBACK \<le> length ticks'" "\<not> DELTA_LOOKBACK \<le> length ts" by (simp_all add: ring newest_length)
    then show ?thesis using False assms by (simp add: prev_def shows_ticks_def)
  qed
  show ?thesis
    using assms at prev ring unfolding shows_ticks_def i
    by (simp add: d2_def d1_def error_get_merge)
qed

text \<open>Keys, log entries and exports change nothing that was counted.\<close>

definition counts :: "('h, 'f) dashboard \<Rightarrow> 'h tick_record list \<times> u64 \<times> u64 \<times> u64 \<times> error_counters \<times> u64 list \<times> error_counters list \<times> u64 option" where
  "counts d = (ds_ticks d, ds_total_requests d, ds_cumulative_bytes_sent d, ds_cumulative_bytes_recv d, ds_total_errors d,
     ds_scenario_total_requests d, ds_scenario_total_errors d, ds_prev_p99_9_ns d)"

lemma counts_shows: "counts d' = counts d \<Longrightarrow> shows_ticks H R n ts d \<Longrightarrow> shows_ticks H R n ts d'"
  by (simp add: shows_ticks_def counts_def)

lemma handle_key_counts: "counts (handle_key F ex now k shift d) = counts d"
  unfolding handle_key_def
  by (simp add: counts_def reset_peaks_def do_export_def log_scroll_up_def log_scroll_down_def log_scroll_top_def log_scroll_bottom_def)

lemma handle_key_log: "ds_log_entries (handle_key F ex now k shift d) = ds_log_entries d"
  unfolding handle_key_def
  by (simp add: reset_peaks_def do_export_def log_scroll_up_def log_scroll_down_def log_scroll_top_def log_scroll_bottom_def)

lemma push_log_counts: "counts (push_log e d) = counts d"
  by (simp add: counts_def push_log_def)

text \<open>Events of a session, and the ticks among them.\<close>

datatype 'h dash_event = EvTick "'h full_tick" | EvKey key bool instant | EvLog log_entry

fun on_event :: "'h hist_ops \<Rightarrow> 'h hist_read \<Rightarrow> 'f dash_float \<Rightarrow> (('h, 'f) dashboard \<Rightarrow> string + string) \<Rightarrow> 'h dash_event
    \<Rightarrow> ('h, 'f) dashboard \<Rightarrow> ('h, 'f) dashboard" where
  "on_event H R F ex (EvTick t) d = ingest H R F t d"
| "on_event H R F ex (EvKey k shift now) d = handle_key F ex now k shift d"
| "on_event H R F ex (EvLog e) d = push_log e d"

fun event_ticks :: "'h dash_event list \<Rightarrow> 'h full_tick list" where
  "event_ticks [] = []"
| "event_ticks (EvTick t # es) = t # event_ticks es"
| "event_ticks (_ # es) = event_ticks es"

lemma event_shows: "shows_ticks H R n ts d \<Longrightarrow> shows_ticks H R n (ts @ event_ticks [e]) (on_event H R F ex e d)"
  using counts_shows [OF handle_key_counts] counts_shows [OF push_log_counts]
  by (cases e) (auto simp: ingest_shows)

lemma event_ticks_Cons: "event_ticks (e # es) = event_ticks [e] @ event_ticks es"
  by (cases e) simp_all

lemma session_shows: "shows_ticks H R n ts d \<Longrightarrow> shows_ticks H R n (ts @ event_ticks es) (fold (on_event H R F ex) es d)"
proof (induction es arbitrary: ts d)
  case (Cons e es)
  then show ?case using Cons.IH [OF event_shows [OF Cons.prems, of e F ex]]
    by (simp add: event_ticks_Cons [of e es] del: event_ticks.simps(2,3))
qed simp

section \<open>From the live counters to the dashboard\<close>

text \<open>
  A call of \<open>swap_and_snapshot\<close> returns the tick made of what its own actions took; \<open>ticks_of\<close>
  cuts the log of \<open>k\<close> calls of one thread into their ticks.
\<close>

definition full_tick_of :: "'h hist_ops \<Rightarrow> nat \<Rightarrow> duration \<Rightarrow> (live_act \<times> 'h live_out) list \<Rightarrow> 'h full_tick" where
  "full_tick_of H n el l =
     live_tick.extend (slot_tick H Aggregate l)
       (full_tick.fields el (map (\<lambda>i. slot_tick H (OfScenario i) l) [0..<n]))"

fun ticks_of :: "'h hist_ops \<Rightarrow> nat \<Rightarrow> (nat \<Rightarrow> duration) \<Rightarrow> nat \<Rightarrow> (live_act \<times> 'h live_out) list \<Rightarrow> 'h full_tick list" where
  "ticks_of H n el 0 l = []"
| "ticks_of H n el (Suc k) l =
     (let m = length (swap_and_snapshot n)
      in full_tick_of H n (el k) (take m l) # ticks_of H n el k (drop m l))"

fun is_take :: "live_act \<Rightarrow> bool" where
  "is_take (SwapZero r c) = True"
| "is_take (ShardReplace r k) = True"
| "is_take _ = False"

lemma taken_sum:
  "distinct (map fst l) \<Longrightarrow> taken_value (SwapZero r c) l = sum_list (map (\<lambda>(a, x). swapped r c a x) l)"
proof (induction l)
  case (Cons p l)
  obtain a x where p: "p = (a, x)" by (cases p)
  have fresh: "sum_list (map (\<lambda>(b, y). swapped r c b y) l) = 0" if "a = SwapZero r c"
  proof -
    have z: "swapped r c b y = 0" if "(b, y) \<in> set l" for b y
    proof -
      have "b \<noteq> SwapZero r c" using that \<open>a = SwapZero r c\<close> Cons.prems p by force
      then show ?thesis by (cases b; cases y) auto
    qed
    then have "\<forall>q \<in> set l. (\<lambda>(b, y). swapped r c b y) q = 0" by auto
    then show ?thesis by (simp add: sum_list_0 cong: map_cong)
  qed
  show ?case
  proof (cases "a = SwapZero r c")
    case True
    then show ?thesis using fresh p by (cases x) (simp_all add: taken_value_def)
  next
    case False
    then have "swapped r c a x = 0" by (cases a; cases x) auto
    then show ?thesis using Cons False p by (simp add: taken_value_def)
  qed
qed (simp add: taken_value_def)

fun act_ref :: "live_act \<Rightarrow> slot_ref" where
  "act_ref (FetchAdd r c n) = r"
| "act_ref (SwapZero r c) = r"
| "act_ref (ShardRecord r k ns) = r"
| "act_ref (ShardReplace r k) = r"

lemma swap_slot_ref: "a \<in> set (swap_slot r) \<Longrightarrow> act_ref a = r \<and> is_take a"
  by (auto simp: swap_slot_def swap_all_def)

lemma distinct_slot: "distinct (swap_slot r)"
  by (auto simp: swap_slot_def swap_all_def error_kinds_def distinct_map inj_on_def)

lemma distinct_snapshot: "distinct (swap_and_snapshot n)"
proof -
  have "distinct (concat (map (\<lambda>i. swap_slot (OfScenario i)) [0..<n]))"
    by (induction n) (auto simp: distinct_slot dest!: swap_slot_ref)
  then show ?thesis
    by (auto simp: swap_and_snapshot_def distinct_slot dest!: swap_slot_ref)
qed

lemma snapshot_takes: "\<forall>a \<in> set (swap_and_snapshot n). is_take a"
  by (auto simp: swap_and_snapshot_def dest: swap_slot_ref)

lemma slot_tick_errors: "error_get k (tk_errors (slot_tick H r l)) = taken_value (SwapZero r (Errors k)) l"
  by (cases k) (simp_all add: slot_tick_def error_kinds_def)

text \<open>What a tick says of a slot.\<close>

definition tick_at :: "slot_ref \<Rightarrow> 'h full_tick \<Rightarrow> 'h live_tick option" where
  "tick_at r t =
     (case r of Aggregate \<Rightarrow> Some (live_tick.truncate t)
      | OfScenario i \<Rightarrow> if i < length (tk_scenarios t) then Some (tk_scenarios t ! i) else None)"

fun tick_cell :: "cell \<Rightarrow> 'h live_tick \<Rightarrow> u64" where
  "tick_cell Requests t = tk_requests t"
| "tick_cell BytesSent t = tk_bytes_sent t"
| "tick_cell BytesRecv t = tk_bytes_recv t"
| "tick_cell (Errors k) t = error_get k (tk_errors t)"

definition tick_value :: "slot_ref \<Rightarrow> cell \<Rightarrow> 'h full_tick \<Rightarrow> u64" where
  "tick_value r c t = (case tick_at r t of Some x \<Rightarrow> tick_cell c x | None \<Rightarrow> 0)"

lemma slot_tick_cell: "tick_cell c (slot_tick H r l) = taken_value (SwapZero r c) l"
  by (cases c) (simp_all add: slot_tick_errors, simp_all add: slot_tick_def)

lemma full_tick_value:
  "ref_ok n r \<Longrightarrow> tick_value r c (full_tick_of H n el l) = taken_value (SwapZero r c) l"
proof (cases r)
  case Aggregate
  have "live_tick.truncate (full_tick_of H n el l) = slot_tick H Aggregate l"
    by (simp add: full_tick_of_def live_tick.defs full_tick.defs)
  then show ?thesis using Aggregate by (simp add: tick_value_def tick_at_def slot_tick_cell)
qed (simp_all add: tick_value_def tick_at_def full_tick_of_def live_tick.defs full_tick.defs slot_tick_cell)

lemma ticks_of_value:
  assumes "ref_ok n r" "map fst l = concat (replicate k (swap_and_snapshot n))"
  shows "sum_list (map (tick_value r c) (ticks_of H n el k l)) = sum_list (map (\<lambda>(a, x). swapped r c a x) l)"
  using assms(2)
proof (induction k arbitrary: l)
  case (Suc k)
  let ?m = "length (swap_and_snapshot n)"
  have l: "map fst (take ?m l) = swap_and_snapshot n" "map fst (drop ?m l) = concat (replicate k (swap_and_snapshot n))"
    using Suc.prems by (simp_all flip: take_map drop_map)
  have "taken_value (SwapZero r c) (take ?m l) = sum_list (map (\<lambda>(a, x). swapped r c a x) (take ?m l))"
    by (rule taken_sum) (simp add: l(1) distinct_snapshot)
  moreover have "sum_list (map f l) = sum_list (map f (take ?m l)) + sum_list (map f (drop ?m l))" for f :: "live_act \<times> 'a live_out \<Rightarrow> u64"
    by (simp flip: sum_list_append map_append)
  ultimately show ?case using Suc.IH [OF l(2)] by (simp add: Let_def full_tick_value [OF assms(1)])
qed simp

text \<open>The actions of the only thread that takes are in the log in its own order.\<close>

lemma first_thread_order:
  assumes "interleave step c c'" "fst c = t0 # ws" "snd (snd c) = []" "\<forall>a \<in> set t0. p a" "\<forall>w \<in> set ws. \<forall>a \<in> set w. \<not> p a"
  shows "\<exists>t0' ws'. fst c' = t0' # ws' \<and> (\<forall>w \<in> set ws'. \<forall>a \<in> set w. \<not> p a)
    \<and> map fst (filter (\<lambda>q. p (fst q)) (snd (snd c'))) @ t0' = t0"
  using assms
proof (induction rule: interleave.induct)
  case (act c ts s log i a as)
  then obtain t0' ws' where IH: "ts = t0' # ws'" "\<forall>w \<in> set ws'. \<forall>a \<in> set w. \<not> p a"
    "map fst (filter (\<lambda>q. p (fst q)) log) @ t0' = t0" by auto
  show ?case
  proof (cases i)
    case 0
    then have t: "t0' = a # as" using act IH by simp
    then have "p a" using IH(3) act.prems(3) by (metis in_set_conv_decomp)
    then show ?thesis using 0 IH t by (intro exI [of _ as] exI [of _ ws']) simp
  next
    case (Suc j)
    then have w: "ws' ! j = a # as" "j < length ws'" using act IH by simp_all
    then have m: "a # as \<in> set ws'" using nth_mem by metis
    then have "\<not> p a" "\<forall>b \<in> set as. \<not> p b" using IH(2) by fastforce+
    then have "\<forall>w \<in> set (ws'[j := as]). \<forall>b \<in> set w. \<not> p b"
      using IH(2) set_update_subset_insert [of ws' j as] by blast
    then show ?thesis using Suc IH \<open>\<not> p a\<close> by (intro exI [of _ t0'] exI [of _ "ws'[j := as]"]) simp
  qed
qed simp

lemma worker_acts: "k \<noteq> CallTick \<Longrightarrow> a \<in> set (call_acts n k) \<Longrightarrow> \<not> is_take a"
  by (cases k) (auto simp: live_record_def live_record_scenario_def slot_record_def live_record_error_def
      live_record_scenario_error_def split: if_splits)

lemma sum_takes:
  "sum_list (map (\<lambda>(a, x). swapped r c a x) (filter (\<lambda>q. is_take (fst q)) l)) = sum_list (map (\<lambda>(a, x). swapped r c a x) l)"
proof (induction l)
  case (Cons q l)
  obtain a x where q: "q = (a, x)" by (cases q)
  have "swapped r c a x = 0" if "\<not> is_take a" using that by (cases a; cases x) simp_all
  then show ?case using Cons q by simp
qed simp

lemma ticks_conserve:
  fixes H :: "'h hist_ops"
  assumes "ref_ok n r" "concat ts = []" "\<forall>w \<in> set workers. CallTick \<notin> set w"
    and "interleave (do_act H) (map (\<lambda>cs. concat (map (call_acts n) cs)) (replicate k CallTick # workers), live_new H n now, [])
           (ts, s, log)"
  shows "held r c s + sum_list (map (tick_value r c) (ticks_of H n el k (filter (\<lambda>q. is_take (fst q)) log)))
       = sum_list (map (call_gain r c) (concat workers))"
proof -
  let ?s0 = "live_new H n now"
  have ref: "has_ref r ?s0" using assms(1) by (cases r) (simp_all add: has_ref_def live_new_def)
  have zero: "cell_get c (live_slot_new H) = 0"
  proof (cases c)
    case (Errors k)
    then show ?thesis by (cases k) (simp_all add: live_slot_new_def ec_default_def)
  qed (simp_all add: live_slot_new_def)
  have "held r c ?s0 = 0" using zero assms(1) by (cases r) (simp_all add: held_def live_new_def)
  then have cons: "held r c s + sum_list (map (\<lambda>(a, x). swapped r c a x) log) = sum_list (map (\<lambda>(a, _). gained r c a) log)"
    using cells.conserved [OF assms(4), of r c] ref by simp
  have "sum_list (map (\<lambda>(a, _). gained r c a) log) = sum_list (map (call_gain r c) (replicate k CallTick @ concat workers))"
    using log_total [OF assms(4,2), of "gained r c"] call_gained [OF assms(1)] by simp
  then have gain: "sum_list (map (\<lambda>(a, _). gained r c a) log) = sum_list (map (call_gain r c) (concat workers))"
    by (simp add: sum_list_replicate)
  have takes: "\<forall>a \<in> set (concat (map (call_acts n) (replicate k CallTick))). is_take a"
    using snapshot_takes [of n] by auto
  have others: "\<forall>w \<in> set (map (\<lambda>cs. concat (map (call_acts n) cs)) workers). \<forall>a \<in> set w. \<not> is_take a"
    using assms(3) by auto (metis worker_acts)
  obtain t0' ws' where o: "ts = t0' # ws'"
    "map fst (filter (\<lambda>q. is_take (fst q)) log) @ t0' = concat (map (call_acts n) (replicate k CallTick))"
    using first_thread_order [OF assms(4) _ _ takes others] by auto
  then have "map fst (filter (\<lambda>q. is_take (fst q)) log) = concat (replicate k (swap_and_snapshot n))"
    using assms(2) by (simp add: map_replicate_const [symmetric] del: map_replicate_const)
  from ticks_of_value [OF assms(1) this] show ?thesis
    using cons gain by (simp add: sum_takes)
qed

lemma tick_value_total:
  "tick_value Aggregate Requests = tk_requests" "tick_value Aggregate (Errors k) = (\<lambda>t. error_get k (tk_errors t))"
  by (simp_all add: fun_eq_iff tick_value_def tick_at_def live_tick.defs)

lemma tick_value_row: "tick_value (OfScenario i) Requests = row_value sr_requests R i"
  by (simp add: fun_eq_iff tick_value_def tick_at_def row_value_def scenario_record_def)

text \<open>Tabs are cycled both ways; the display order is the order of the type.\<close>

lemma tab_cycle: "tab_prev (tab_next t) = t" "tab_next (tab_prev t) = t" "tab_next (tab_next (tab_next (tab_next t))) = t"
  by (cases t; simp)+

lemma tab_order: "sorted tab_all" "set tab_all = UNIV" "tab_from_digit (Suc (tab_index t)) = Some t"
proof -
  show "sorted tab_all" by (simp add: tab_all_def less_eq_tab_def)
  show "set tab_all = UNIV" using tab.exhaust by (auto simp: tab_all_def)
  show "tab_from_digit (Suc (tab_index t)) = Some t" by (cases t) (simp_all add: tab_from_digit_def)
qed

subsection \<open>The frame loop\<close>

text \<open>
  The loop's invariant: the dashboard shows exactly the ticks swapped out, and the deadline of the
  next swap is one interval further for each of them (the final tick apart).
\<close>

definition loop_inv :: "'h hist_ops \<Rightarrow> 'h hist_read \<Rightarrow> nat \<Rightarrow> instant \<Rightarrow> ('h, 'f) tui_loop \<Rightarrow> bool" where
  "loop_inv H R n start s =
     (shows_ticks H R n (tl_swapped s) (tl_dash s)
      \<and> (if tl_completed s then 1 \<le> length (tl_swapped s) \<and> tl_next s = start + length (tl_swapped s) * SNAPSHOT_INTERVAL
         else tl_next s = start + Suc (length (tl_swapped s)) * SNAPSHOT_INTERVAL))"

lemma due_loop_inv:
  "loop_inv H R n start s \<Longrightarrow> \<not> tl_completed s \<Longrightarrow>
   loop_inv H R n start (due_loop H R F tick now k s) \<and> \<not> tl_completed (due_loop H R F tick now k s)"
proof (induction H R F tick now k s rule: due_loop.induct)
  case (1 H R F tick now k s)
  show ?case
  proof (cases "tl_next s \<le> now")
    case True
    let ?s = "s\<lparr>tl_dash := ingest H R F (tick k) (tl_dash s), tl_swapped := tl_swapped s @ [tick k],
             tl_next := tl_next s + SNAPSHOT_INTERVAL\<rparr>"
    have "loop_inv H R n start ?s" using 1 by (simp add: loop_inv_def ingest_shows)
    then show ?thesis using 1 True by (subst (1 2) due_loop.simps) simp
  next
    case False
    then show ?thesis using 1 by (subst (1 2) due_loop.simps) simp
  qed
qed

lemma key_inv: "loop_inv H R n start s \<Longrightarrow> loop_inv H R n start (s\<lparr>tl_dash := handle_key F ex now k shift (tl_dash s)\<rparr>)"
  using counts_shows [OF handle_key_counts] by (fastforce simp: loop_inv_def)

lemma final_inv:
  assumes "loop_inv H R n start s" "\<not> tl_completed s" "counts d = counts (ingest H R F t (tl_dash s))"
  shows "loop_inv H R n start (s\<lparr>tl_completed := True, tl_swapped := tl_swapped s @ [t], tl_dash := d\<rparr>)"
proof -
  have "shows_ticks H R n (tl_swapped s @ [t]) d"
    using assms(1) by (intro counts_shows [OF assms(3)] ingest_shows) (simp add: loop_inv_def)
  then show ?thesis using assms(1,2) by (simp add: loop_inv_def)
qed

lemma turn_inv: "loop_inv H R n start s \<Longrightarrow> loop_inv H R n start (tui_turn H R F ex t s)"
proof -
  assume inv: "loop_inv H R n start s"
  define d where "d = (ingest H R F (tn_final t) (tl_dash s))\<lparr>ds_run_completed := True\<rparr>"
  define d' where "d' = (if ds_auto_export d then do_export ex (tn_now t) d else d)"
  define s1 where "s1 = (if \<not> tl_completed s \<and> tn_stopped t
      then s\<lparr>tl_completed := True, tl_swapped := tl_swapped s @ [tn_final t], tl_dash := d'\<rparr> else s)"
  define s2 where "s2 = (case tn_key t of Some (k, shift) \<Rightarrow> s1\<lparr>tl_dash := handle_key F ex (tn_now t) k shift (tl_dash s1)\<rparr>
                   | None \<Rightarrow> s1)"
  have "counts d' = counts (ingest H R F (tn_final t) (tl_dash s))"
    by (simp add: d'_def d_def counts_def do_export_def)
  then have "loop_inv H R n start s1" using final_inv [OF inv] inv by (simp add: s1_def)
  then have "loop_inv H R n start s2" using key_inv by (auto simp: s2_def split: option.splits)
  then have "loop_inv H R n start (if tl_completed s2 then s2 else due_loop H R F (tn_ticks t) (tn_now t) 0 s2)"
    using due_loop_inv [of H R n start s2 F "tn_ticks t" "tn_now t" 0] by auto
  moreover have "tui_turn H R F ex t s = (if tl_exited s then s
      else if ds_exit_requested (tl_dash s) then s\<lparr>tl_stop := tl_stop s \<or> \<not> tl_completed s, tl_exited := True\<rparr>
      else if tl_completed s2 then s2 else due_loop H R F (tn_ticks t) (tn_now t) 0 s2)"
    by (simp only: tui_turn_def s2_def s1_def d'_def d_def Let_def)
  ultimately show ?thesis using inv by (auto simp: loop_inv_def)
qed

lemma run_inv: "loop_inv H R n start s \<Longrightarrow> loop_inv H R n start (run_tui H R F ex turns s)"
  unfolding run_tui_def by (induction turns arbitrary: s) (auto intro: turn_inv)

section \<open>Properties\<close>

text \<open>
  Property C21. Nothing is lost between the workers and the screen. However the workers' calls
  interleave with the ticker's, and whatever keys are pressed between the ticks, the totals of the
  dashboard plus what the counters still hold are what the workers recorded: requests, errors of
  each kind, and requests of every scenario.
\<close>

theorem live_to_dashboard:
  fixes H :: "'h hist_ops"
  assumes "concat ts = []" "\<forall>w \<in> set workers. CallTick \<notin> set w"
    and "interleave (do_act H) (map (\<lambda>cs. concat (map (call_acts (length names)) cs)) (replicate k CallTick # workers),
           live_new H (length names) now, []) (ts, s, log)"
    and "event_ticks es = ticks_of H (length names) el k (filter (\<lambda>q. is_take (fst q)) log)"
    and "d = fold (on_event H R F ex) es (dash_new F start rate dur url ti names)"
  shows "held Aggregate Requests s + ds_total_requests d = sum_list (map (call_gain Aggregate Requests) (concat workers))
    \<and> (\<forall>e. held Aggregate (Errors e) s + error_get e (ds_total_errors d) = sum_list (map (call_gain Aggregate (Errors e)) (concat workers)))
    \<and> (\<forall>i < length names. held (OfScenario i) Requests s + ds_scenario_total_requests d ! i
          = sum_list (map (call_gain (OfScenario i) Requests) (concat workers)))"
proof -
  have "shows_ticks H R (length names) (event_ticks es) d"
    using session_shows [OF shows_new, where es = es] assms(5) by simp
  then have d: "ds_total_requests d = sum_list (map (tick_value Aggregate Requests) (event_ticks es))"
    "\<And>e. error_get e (ds_total_errors d) = sum_list (map (tick_value Aggregate (Errors e)) (event_ticks es))"
    "\<And>i. i < length names \<Longrightarrow> ds_scenario_total_requests d ! i = sum_list (map (tick_value (OfScenario i) Requests) (event_ticks es))"
    by (simp_all add: shows_ticks_def tick_value_total tick_value_row [where R = R])
  note c = ticks_conserve [OF _ assms(1,2,3), where el = el]
  show ?thesis
    unfolding d(1,2) assms(4) using c [of Aggregate Requests] c [of Aggregate] c [where c = Requests] d(3) assms(4) by simp
qed

text \<open>Surroundings for the examples: histograms are lists of samples, arithmetic is on natural numbers.\<close>

definition demo_read :: "nat list hist_read" where
  "demo_read = \<lparr>hr_empty = (\<lambda>h. h = []), hr_value = (\<lambda>h p. word_of_nat (Max (set h)))\<rparr>"

definition demo_float :: "nat dash_float" where
  "demo_float = \<lparr>df_zero = 0, df_one = 1, df_of = unat, df_less = (<), df_nonpos = (\<lambda>x. x = 0), df_min = min, df_sub = (-),
     df_div = (div), df_percent = (\<lambda>x. x * 100), df_clamp = (\<lambda>n x. min n x), df_seconds = (\<lambda>d. d div 1000000000),
     df_zoom_in = (\<lambda>x. x), df_zoom_out = (\<lambda>x. x)\<rparr>"

definition demo_info :: "nat transport_info" where
  "demo_info = \<lparr>ti_mode = ModeSaturate 1, ti_connections = 1, ti_protocol = ''H1'', ti_tls = False, ti_alpn = None\<rparr>"

definition demo_tick :: "u64 \<Rightarrow> nat list \<Rightarrow> nat list full_tick" where
  "demo_tick n h = \<lparr>tk_requests = n, tk_bytes_sent = 0, tk_bytes_recv = 0, tk_errors = ec_default, tk_latency = h,
     tk_elapsed = 0, tk_scenarios = []\<rparr>"

lemma event_ticks_map: "event_ticks (map EvTick ts) = ts"
  by (induction ts) simp_all

lemma live_to_dashboard_witness:
  "\<exists>ts s log es. concat ts = [] \<and>
     interleave (do_act sample_hist) (map (\<lambda>cs. concat (map (call_acts (length [''a''])) cs))
         (replicate 2 CallTick # [[CallRecord 3 0 700 10 20, CallError 0 EkRead]]), live_new sample_hist (length [''a'']) 0, []) (ts, s, log)
     \<and> held Aggregate Requests s
         + ds_total_requests (fold (on_event sample_hist demo_read demo_float (\<lambda>_. Inl ''x'')) es
             (dash_new demo_float 0 None 1 ''u'' demo_info [''a''])) = 1"
proof -
  obtain ts s log where run: "concat ts = []"
    "interleave (do_act sample_hist) (map (\<lambda>cs. concat (map (call_acts (length [''a''])) cs))
         (replicate 2 CallTick # [[CallRecord 3 0 700 10 20, CallError 0 EkRead]]), live_new sample_hist (length [''a'']) 0, []) (ts, s, log)"
    using interleave_finish [OF interleave.start] by metis
  have w: "\<forall>w \<in> set [[CallRecord 3 0 700 10 20, CallError 0 EkRead]]. CallTick \<notin> set w" by simp
  show ?thesis
    using live_to_dashboard [OF run(1) w run(2) event_ticks_map refl, where el = "\<lambda>_. 0" and R = demo_read and F = demo_float
        and ex = "\<lambda>_. Inl ''x''" and start = 0 and rate = None and dur = 1 and url = "''u''" and ti = demo_info] run
    by fastforce
qed

text \<open>
  Property C22. The dashboard shows the whole run: after any sequence of ticks, keys and log entries,
  requests and bytes are the sums over all ticks, the ring holds the newest 300 of them in order,
  the log at most 100 entries, the p99.9 shown is that of the newest five histograms, and its
  baseline is the value shown nine ticks earlier (ten ticks are asked for).
\<close>

theorem dashboard_session:
  assumes "d = fold (on_event H R F ex) es (dash_new F now rate dur url ti names)" "ts = event_ticks es"
  shows "ds_total_requests d = sum_list (map tk_requests ts)
    \<and> ds_cumulative_bytes_sent d = sum_list (map tk_bytes_sent ts) \<and> ds_cumulative_bytes_recv d = sum_list (map tk_bytes_recv ts)
    \<and> map tr_requests (ds_ticks d) = newest 300 (map tk_requests ts)
    \<and> length (ds_log_entries d) \<le> 100
    \<and> (ts \<noteq> [] \<longrightarrow> rolling_p99_9_ns d = rolled H R ts)
    \<and> ds_prev_p99_9_ns d = (if 10 \<le> length ts then Some (rolled H R (take (length ts - 9) ts)) else None)"
proof -
  have sh: "shows_ticks H R (length names) ts d"
    using session_shows [OF shows_new, where es = es] assms by simp
  have requests: "map tr_requests (history H R past ts) = map tk_requests ts" for past
    by (induction ts arbitrary: past) (simp_all add: from_live_def)
  have ring: "map tr_requests (ds_ticks d) = newest 300 (map tk_requests ts)"
    using sh by (simp add: shows_ticks_def MAX_TICKS_def newest_map requests)
  have log: "length (ds_log_entries (fold (on_event H R F ex) es d0)) \<le> 100" if "length (ds_log_entries d0) \<le> 100" for d0
    using that
  proof (induction es arbitrary: d0)
    case (Cons e es)
    have "length (ds_log_entries (on_event H R F ex e d0)) \<le> 100"
    proof (cases e)
      case (EvTick t)
      then show ?thesis using Cons.prems by (simp add: ingest_def Let_def split: prod.splits)
    next
      case (EvKey k shift now)
      then show ?thesis using Cons.prems by (simp add: handle_key_log)
    next
      case (EvLog l)
      then show ?thesis by (simp add: push_log_def newest_length MAX_LOG_ENTRIES_def)
    qed
    then show ?case using Cons.IH by simp
  qed simp
  have "length (ds_log_entries d) \<le> 100" using log assms(1) by (simp add: dash_new_def)
  moreover have "rolling_p99_9_ns d = rolled H R ts" if ne: "ts \<noteq> []"
  proof -
    obtain us t where t: "ts = us @ [t]" using append_butlast_last_id [OF ne] by metis
    have ring_snoc: "newest 300 (xs @ [x]) = newest 299 xs @ [x]" for xs and x :: "'a tick_record"
      using newest_snoc [of 299 xs x] by simp
    have "ds_ticks d = newest 299 (history H R [] us) @ [(from_live R t)\<lparr>tr_rolling_p99_9_ns := rolled H R ts\<rparr>]"
      using sh unfolding shows_ticks_def MAX_TICKS_def t history_snoc ring_snoc by simp
    then show ?thesis by (simp add: rolling_p99_9_ns_def back_tick_def)
  qed
  ultimately show ?thesis using sh ring by (simp add: shows_ticks_def DELTA_LOOKBACK_def)
qed

lemma dashboard_session_witness:
  "ds_total_requests (fold (on_event sample_hist demo_read demo_float (\<lambda>_. Inl ''x''))
       [EvTick (demo_tick 3 [7]), EvKey (KChar (CHR ''r'')) False 5, EvTick (demo_tick 4 [9, 8])]
       (dash_new demo_float 0 None 1 ''u'' demo_info [])) = 7"
  using dashboard_session [OF refl refl, where es = "[EvTick (demo_tick 3 [7]), EvKey (KChar (CHR ''r'')) False 5, EvTick (demo_tick 4 [9, 8])]"
      and H = sample_hist and R = demo_read and F = demo_float and ex = "\<lambda>_. Inl ''x''" and now = 0 and rate = None and dur = 1
      and url = "''u''" and ti = demo_info and names = "[]"]
  by (simp add: demo_tick_def)

text \<open>
  The frame loop counts every second once: through any iterations the dashboard shows
  exactly the ticks that were swapped out of the live counters, while the run lasts there is one per
  elapsed second (the next is due one interval after the last), and the only one more is the final tick.
\<close>

lemma tui_loop_counts:
  assumes "s = run_tui H R F ex turns (tui_start F start rate dur url ti names)"
  shows "ds_total_requests (tl_dash s) = sum_list (map tk_requests (tl_swapped s))
    \<and> (\<forall>e. error_get e (ds_total_errors (tl_dash s)) = sum_list (map (\<lambda>t. error_get e (tk_errors t)) (tl_swapped s)))
    \<and> tl_next s = start + (if tl_completed s then length (tl_swapped s) else Suc (length (tl_swapped s))) * 1000000000"
proof -
  have "loop_inv H R (length names) start (tui_start F start rate dur url ti names)"
    by (simp add: loop_inv_def tui_start_def shows_new)
  then have "loop_inv H R (length names) start s" using run_inv assms by blast
  then show ?thesis by (auto simp: loop_inv_def shows_ticks_def SNAPSHOT_INTERVAL_def)
qed

end
