(* ===== verification/Export.thy ===== *)
theory Export
  imports Stats
begin

text \<open>
  The export of a summary, the second half of \<open>zerobench-core/src/stats.rs\<close>: the record that becomes
  \<open>result.json\<close> and the metrics of single runs. Queries on histograms and the division of a count by
  seconds are parameters.
\<close>

section \<open>Percentiles\<close>

record 'h hist_query =
  hq_len :: "'h \<Rightarrow> u64"
  hq_min :: "'h \<Rightarrow> u64"
  hq_max :: "'h \<Rightarrow> u64"
  hq_percentile :: "'h \<Rightarrow> f64 \<Rightarrow> u64"
  hq_mean :: "'h \<Rightarrow> f64"
  hq_stdev :: "'h \<Rightarrow> f64"
  hq_rate :: "u64 \<Rightarrow> duration \<Rightarrow> f64"

abbreviation P50 :: f64 where "P50 \<equiv> 0x4049000000000000"
abbreviation P90 :: f64 where "P90 \<equiv> 0x4056800000000000"
abbreviation P99 :: f64 where "P99 \<equiv> 0x4058C00000000000"
abbreviation P99_9 :: f64 where "P99_9 \<equiv> 0x4058F9999999999A"
abbreviation P99_99 :: f64 where "P99_99 \<equiv> 0x4058FF5C28F5C28F"

record latency_export =
  le_count :: u64
  le_min_ns :: u64
  le_p50_ns :: u64
  le_p90_ns :: u64
  le_p99_ns :: u64
  le_p99_9_ns :: u64
  le_p99_99_ns :: u64
  le_max_ns :: u64
  le_mean_ns :: f64
  le_stddev_ns :: f64

definition latency_default :: latency_export where
  "latency_default = \<lparr>le_count = 0, le_min_ns = 0, le_p50_ns = 0, le_p90_ns = 0, le_p99_ns = 0,
     le_p99_9_ns = 0, le_p99_99_ns = 0, le_max_ns = 0, le_mean_ns = 0, le_stddev_ns = 0\<rparr>"

definition latency_from_hist :: "'h hist_query \<Rightarrow> 'h \<Rightarrow> latency_export" where
  "latency_from_hist Q h =
     \<lparr>le_count = hq_len Q h, le_min_ns = hq_min Q h, le_p50_ns = hq_percentile Q h P50,
      le_p90_ns = hq_percentile Q h P90, le_p99_ns = hq_percentile Q h P99,
      le_p99_9_ns = hq_percentile Q h P99_9, le_p99_99_ns = hq_percentile Q h P99_99,
      le_max_ns = hq_max Q h, le_mean_ns = hq_mean Q h, le_stddev_ns = hq_stdev Q h\<rparr>"

section \<open>Rows\<close>

record errors_export =
  ee_connect :: u64
  ee_read :: u64
  ee_write :: u64
  ee_timeout :: u64
  ee_keepup :: u64
  ee_status_4xx :: u64
  ee_status_5xx :: u64
  ee_assertion_failed :: u64

definition errors_from_counters :: "error_counters \<Rightarrow> errors_export" where
  "errors_from_counters e =
     \<lparr>ee_connect = ec_connect e, ee_read = ec_read e, ee_write = ec_write e, ee_timeout = ec_timeout e,
      ee_keepup = ec_keepup e, ee_status_4xx = ec_status_4xx e, ee_status_5xx = ec_status_5xx e,
      ee_assertion_failed = ec_assertion_failed e\<rparr>"

record sse_export =
  sx_ttfb :: latency_export
  sx_chunk_gap :: latency_export
  sx_chunks :: u64
  sx_streams_completed :: u64
  sx_bytes_received :: u64
  sx_broadcast_rtt :: latency_export

definition sse_export_from :: "'h hist_query \<Rightarrow> 'h sse_extras \<Rightarrow> sse_export" where
  "sse_export_from Q s =
     \<lparr>sx_ttfb = latency_from_hist Q (se_ttfb s), sx_chunk_gap = latency_from_hist Q (se_chunk_gap s),
      sx_chunks = se_chunks s, sx_streams_completed = se_streams_completed s,
      sx_bytes_received = se_bytes_received s, sx_broadcast_rtt = latency_from_hist Q (se_broadcast_rtt s)\<rparr>"

record ws_export =
  wx_handshake :: latency_export
  wx_rtt :: latency_export
  wx_messages_sent :: u64
  wx_messages_recv :: u64
  wx_bytes_sent :: u64
  wx_bytes_recv :: u64
  wx_broadcast_rtt :: latency_export

definition ws_export_from :: "'h hist_query \<Rightarrow> 'h ws_extras \<Rightarrow> ws_export" where
  "ws_export_from Q w =
     \<lparr>wx_handshake = latency_from_hist Q (we_handshake w), wx_rtt = latency_from_hist Q (we_rtt w),
      wx_messages_sent = we_messages_sent w, wx_messages_recv = we_messages_recv w,
      wx_bytes_sent = we_bytes_sent w, wx_bytes_recv = we_bytes_recv w,
      wx_broadcast_rtt = latency_from_hist Q (we_broadcast_rtt w)\<rparr>"

record scenario_export =
  cx_scenario_id :: u16
  cx_requests :: u64
  cx_latency :: latency_export
  cx_errors :: errors_export
  cx_sse :: "sse_export option"
  cx_ws :: "ws_export option"

definition scenario_export_from :: "'h hist_query \<Rightarrow> 'h scenario_stats \<Rightarrow> scenario_export" where
  "scenario_export_from Q s =
     \<lparr>cx_scenario_id = sc_scenario_id s, cx_requests = sc_requests s,
      cx_latency = latency_from_hist Q (sc_latency s), cx_errors = errors_from_counters (sc_errors s),
      cx_sse = map_option (sse_export_from Q) (sc_sse s), cx_ws = map_option (ws_export_from Q) (sc_ws s)\<rparr>"

section \<open>Runs and summaries\<close>

record per_run_metrics =
  pm_index :: u32
  pm_rate_per_s :: f64
  pm_requests :: u64
  pm_errors_total :: u64
  pm_latency :: latency_export
  pm_protocol_latency :: latency_export

record summary_export =
  ex_schema_version :: u32
  ex_duration_ns :: u64
  ex_requests :: u64
  ex_rate_per_s :: f64
  ex_bytes_sent :: u64
  ex_bytes_recv :: u64
  ex_latency :: latency_export
  ex_ttfb :: latency_export
  ex_errors :: errors_export
  ex_scenarios :: "scenario_export list"
  ex_per_run :: "per_run_metrics list"

definition SUMMARY_SCHEMA_VERSION :: u32 where "SUMMARY_SCHEMA_VERSION = 1"

definition requests_per_sec :: "'h hist_query \<Rightarrow> 'h summary \<Rightarrow> f64" where
  "requests_per_sec Q s =
     (if sm_duration s = 0 then 0 else hq_rate Q (ts_requests (sm_stats s)) (sm_duration s))"

text \<open>Nanoseconds as \<open>u64\<close>, clamped at its largest value.\<close>

definition duration_ns :: "duration \<Rightarrow> u64" where
  "duration_ns d = of_nat (min d (2 ^ 64 - 1))"

definition to_export :: "'h hist_query \<Rightarrow> 'h summary \<Rightarrow> summary_export" where
  "to_export Q s =
     (let t = sm_stats s in
      \<lparr>ex_schema_version = SUMMARY_SCHEMA_VERSION, ex_duration_ns = duration_ns (sm_duration s),
       ex_requests = ts_requests t, ex_rate_per_s = requests_per_sec Q s,
       ex_bytes_sent = ts_bytes_sent t, ex_bytes_recv = ts_bytes_recv t,
       ex_latency = latency_from_hist Q (ts_latency t), ex_ttfb = latency_from_hist Q (ts_ttfb t),
       ex_errors = errors_from_counters (ts_errors t),
       ex_scenarios = map (scenario_export_from Q) (ts_per_scenario t), ex_per_run = []\<rparr>)"

section \<open>What an export keeps\<close>

definition errors_export_total :: "errors_export \<Rightarrow> u64" where
  "errors_export_total e =
     ee_connect e + ee_read e + ee_write e + ee_timeout e + ee_keepup e + ee_status_4xx e + ee_status_5xx e
     + ee_assertion_failed e"

lemma errors_export_total [simp]: "errors_export_total (errors_from_counters e) = ec_total e"
  by (simp add: errors_export_total_def errors_from_counters_def ec_total_def ec_hard_total_def ec_soft_total_def)

lemma duration_ns_exact: "d < 2 ^ 64 \<Longrightarrow> unat (duration_ns d) = d"
  by (simp add: duration_ns_def unat_of_nat)

text \<open>The totals of an export of rolled-up statistics are the sums over its rows.\<close>

lemma export_rolls_up:
  assumes "rolled_up (sm_stats s)"
  shows "ex_requests (to_export Q s) = sum_list (map cx_requests (ex_scenarios (to_export Q s)))"
    and "errors_export_total (ex_errors (to_export Q s))
      = sum_list (map (errors_export_total \<circ> cx_errors) (ex_scenarios (to_export Q s)))"
  using assms by (simp_all add: to_export_def scenario_export_from_def rolled_up_def Let_def comp_def)

end
