(* ===== verification/Fingerprint.thy ===== *)
theory Fingerprint
  imports Dsl "HOL-Library.Finite_Map"
begin

text \<open>
  Fingerprints of runs, \<open>zerobench-runtime/src/fingerprint.rs\<close>: the canonical form of a JSON value, the
  hashes of plans and targets over it, and the identifier of a run. SHA-256, the JSON text of a value,
  the JSON value of scenarios and variables, and the printing of time stamps are parameters.
\<close>

section \<open>Canonical JSON\<close>

text \<open>A \<open>BTreeMap\<close> is its list of entries in the order of the keys.\<close>

fun btree_insert :: "'k :: linorder \<Rightarrow> 'v \<Rightarrow> ('k \<times> 'v) list \<Rightarrow> ('k \<times> 'v) list" where
  "btree_insert k v [] = [(k, v)]"
| "btree_insert k v ((k', v') # m) =
     (if k < k' then (k, v) # (k', v') # m
      else if k = k' then (k, v) # m
      else (k', v') # btree_insert k v m)"

definition btree_of :: "('k :: linorder \<times> 'v) list \<Rightarrow> ('k \<times> 'v) list" where
  "btree_of kvs = fold (\<lambda>(k, v). btree_insert k v) kvs []"

primrec canonicalise :: "json \<Rightarrow> json" where
  "canonicalise (JObject m) = JObject (btree_of (map (map_prod id canonicalise) m))"
| "canonicalise (JArray a) = JArray (map canonicalise a)"
| "canonicalise JNull = JNull"
| "canonicalise (JBool b) = JBool b"
| "canonicalise (JInt i) = JInt i"
| "canonicalise (JFloat x) = JFloat x"
| "canonicalise (JString s) = JString s"

record fp_world =
  fp_text :: "json \<Rightarrow> bytes"
  fp_sha256 :: "bytes \<Rightarrow> string"
  fp_scenarios :: "scenario list \<Rightarrow> json"
  fp_vars :: "var_registry \<Rightarrow> json"
  fp_iso :: "nat \<Rightarrow> string option"

definition canonical_sha256 :: "fp_world \<Rightarrow> json \<Rightarrow> string" where
  "canonical_sha256 F v = fp_sha256 F (fp_text F (canonicalise v))"

section \<open>Hashes of plans and targets\<close>

text \<open>The identity of a plan: its scenarios and variables, nothing of how it is run.\<close>

definition identity_projection :: "plan \<Rightarrow> scenario list \<times> var_registry" where
  "identity_projection p = (pl_scenarios p, pl_vars p)"

definition identity_json :: "fp_world \<Rightarrow> scenario list \<times> var_registry \<Rightarrow> json" where
  "identity_json F x = JObject [(''scenarios'', fp_scenarios F (fst x)), (''vars'', fp_vars F (snd x))]"

definition plan_hash :: "fp_world \<Rightarrow> plan \<Rightarrow> string" where
  "plan_hash F p = canonical_sha256 F (identity_json F (identity_projection p))"

datatype ip_family_tag = FamilyAuto | FamilyV4 | FamilyV6

fun ip_family_text :: "ip_family_tag \<Rightarrow> string" where
  "ip_family_text FamilyAuto = ''auto''"
| "ip_family_text FamilyV4 = ''v4''"
| "ip_family_text FamilyV6 = ''v6''"

definition json_option :: "string option \<Rightarrow> json" where
  "json_option x = (case x of None \<Rightarrow> JNull | Some s \<Rightarrow> JString s)"

definition scheme_of :: "target \<Rightarrow> string" where
  "scheme_of t = (if tg_tls t then ''https'' else ''http'')"

definition url_fp_input :: "string \<Rightarrow> target \<Rightarrow> ip_family_tag \<Rightarrow> json" where
  "url_fp_input plan_name t family =
     JObject [(''scheme'', JString (scheme_of t)), (''host'', JString (tg_host t)),
       (''port'', JInt (uint (tg_port t))), (''sni'', json_option (tg_sni t)),
       (''plan_name'', JString plan_name), (''ip_family'', JString (ip_family_text family))]"

definition url_fingerprint_impl :: "fp_world \<Rightarrow> string \<Rightarrow> target \<Rightarrow> ip_family_tag \<Rightarrow> string" where
  "url_fingerprint_impl F plan_name t family = canonical_sha256 F (url_fp_input plan_name t family)"

text \<open>The assertion on the name panics.\<close>

definition url_fingerprint :: "fp_world \<Rightarrow> plan \<Rightarrow> target \<Rightarrow> ip_family_tag \<Rightarrow> string option" where
  "url_fingerprint F p t family = (if pl_name p = [] then None else Some (url_fingerprint_impl F (pl_name p) t family))"

definition url_fingerprint_anonymous :: "fp_world \<Rightarrow> target \<Rightarrow> ip_family_tag \<Rightarrow> string" where
  "url_fingerprint_anonymous F t family = url_fingerprint_impl F ''<anonymous>'' t family"

text \<open>The resolved addresses are given by their printed forms.\<close>

definition target_fp_input :: "target \<Rightarrow> string list \<Rightarrow> string \<Rightarrow> json" where
  "target_fp_input t resolved plan_h =
     JObject [(''scheme'', JString (scheme_of t)), (''host'', JString (tg_host t)),
       (''port'', JInt (uint (tg_port t))), (''sni'', json_option (tg_sni t)),
       (''resolved_ips'', JArray (map JString (sort resolved))), (''plan_hash'', JString plan_h)]"

definition target_fingerprint :: "fp_world \<Rightarrow> target \<Rightarrow> string list \<Rightarrow> string \<Rightarrow> string" where
  "target_fingerprint F t resolved plan_h = canonical_sha256 F (target_fp_input t resolved plan_h)"

section \<open>The identifier of a run\<close>

definition after_plus :: "string \<Rightarrow> string" where
  "after_plus s = (case find_pos (\<lambda>c. c = CHR ''+'') s of Some i \<Rightarrow> take i s @ ''Z'' | None \<Rightarrow> s)"

definition drop_fraction :: "string \<Rightarrow> string" where
  "drop_fraction s =
     (case find_pos (\<lambda>c. c = CHR ''T'') s of
        None \<Rightarrow> s
      | Some t_idx \<Rightarrow>
          (case find_pos (\<lambda>c. c = CHR ''.'') (drop t_idx s) of
             None \<Rightarrow> s
           | Some dot_idx \<Rightarrow>
               (let abs = t_idx + dot_idx;
                    end_idx = (case find_pos (\<lambda>c. \<not> is_digit c) (drop (abs + 1) s) of
                                 Some i \<Rightarrow> abs + 1 + i | None \<Rightarrow> length s)
                in take abs s @ drop end_idx s)))"

definition normalise_iso_utc :: "string \<Rightarrow> string" where
  "normalise_iso_utc s = drop_fraction (after_plus s)"

text \<open>
  \<open>fp_iso\<close> prints the time of the given whole second. The length assertion panics.
\<close>

definition run_id :: "fp_world \<Rightarrow> string \<Rightarrow> string \<Rightarrow> instant \<Rightarrow> string option" where
  "run_id F plan_h target_fp when =
     (if length plan_h < 8 \<or> length target_fp < 8 then None
      else
        (let ts = (case fp_iso F (when div 1000000000) of Some s \<Rightarrow> s | None \<Rightarrow> ''1970-01-01T00:00:00Z'')
         in Some (normalise_iso_utc ts @ ''-'' @ take 8 plan_h @ ''-'' @ take 8 target_fp)))"

section \<open>The canonical form decides equality of values\<close>

text \<open>What a JSON value means: an object is a finite map.\<close>

datatype json_value =
    VNull
  | VBool bool
  | VInt int
  | VFloat f64
  | VString string
  | VArray "json_value list"
  | VObject "(string, json_value) fmap"

primrec json_val :: "json \<Rightarrow> json_value" where
  "json_val (JObject m) = VObject (fmap_of_list (map (map_prod id json_val) m))"
| "json_val (JArray a) = VArray (map json_val a)"
| "json_val JNull = VNull"
| "json_val (JBool b) = VBool b"
| "json_val (JInt i) = VInt i"
| "json_val (JFloat x) = VFloat x"
| "json_val (JString s) = VString s"

text \<open>A \<open>serde_json\<close> map has every key once, at every depth.\<close>

primrec json_ok :: "json \<Rightarrow> bool" where
  "json_ok (JObject m) = (distinct (map fst m) \<and> list_all (\<lambda>(k, b). b) (map (map_prod id json_ok) m))"
| "json_ok (JArray a) = list_all id (map json_ok a)"
| "json_ok JNull = True"
| "json_ok (JBool b) = True"
| "json_ok (JInt i) = True"
| "json_ok (JFloat x) = True"
| "json_ok (JString s) = True"

lemma btree_insert_keys: "fst ` set (btree_insert k v m) = insert k (fst ` set m)"
proof (induction m)
  case (Cons a m)
  then show ?case by (cases a) (simp add: insert_commute)
qed simp

lemma btree_insert_sorted: "sorted_wrt (<) (map fst m) \<Longrightarrow> sorted_wrt (<) (map fst (btree_insert k v m))"
proof (induction m)
  case (Cons a m)
  obtain k' v' where a: "a = (k', v')" by fastforce
  have "k' < fst x" if "x \<in> set (btree_insert k v m)" "k' < k" for x
  proof -
    have "fst x \<in> insert k (fst ` set m)" using that(1) btree_insert_keys [of k v m] by (metis imageI)
    then show ?thesis using Cons.prems that(2) by (auto simp: a)
  qed
  then show ?case using Cons by (auto simp: a)
qed simp

lemma btree_insert_map: "map_of (btree_insert k v m) = (map_of m)(k \<mapsto> v)"
  by (induction m) (auto simp: fun_eq_iff)

lemma btree_fold:
  assumes "distinct (map fst kvs)" "sorted_wrt (<) (map fst m)" "set (map fst kvs) \<inter> set (map fst m) = {}"
  shows "sorted_wrt (<) (map fst (fold (\<lambda>(k, v). btree_insert k v) kvs m))
    \<and> map_of (fold (\<lambda>(k, v). btree_insert k v) kvs m) = map_of m ++ map_of kvs"
  using assms
proof (induction kvs arbitrary: m)
  case (Cons a kvs)
  obtain k v where a: "a = (k, v)" by fastforce
  have "set (map fst kvs) \<inter> set (map fst (btree_insert k v m)) = {}"
    using Cons.prems by (simp add: a btree_insert_keys del: disjoint_iff)
  moreover have "k \<notin> dom (map_of kvs)" using Cons.prems(1) by (simp add: a dom_map_of_conv_image_fst)
  moreover have "(map_of m)(k \<mapsto> v) ++ map_of kvs = (map_of m ++ map_of kvs)(k \<mapsto> v)"
    using calculation(2) by (rule map_add_upd_left)
  ultimately show ?case
    using Cons.IH [of "btree_insert k v m"] Cons.prems
    by (simp add: a btree_insert_sorted btree_insert_map del: fun_upd_apply)
qed simp

lemma btree_of_sorted: "distinct (map fst kvs) \<Longrightarrow> sorted_wrt (<) (map fst (btree_of kvs))"
  and btree_of_map: "distinct (map fst kvs) \<Longrightarrow> map_of (btree_of kvs) = map_of kvs"
  using btree_fold [of kvs "[]"] by (simp_all add: btree_of_def)

text \<open>The entries of a finite map in the order of its keys, and the canonical form of a value.\<close>

definition entries_of :: "(string, 'v) fmap \<Rightarrow> (string \<times> 'v) list" where
  "entries_of m = map (\<lambda>k. (k, the (fmlookup m k))) (sorted_list_of_fset (fmdom m))"

primrec canon_of :: "json_value \<Rightarrow> json" where
  "canon_of (VObject m) = JObject (entries_of (fmmap canon_of m))"
| "canon_of (VArray a) = JArray (map canon_of a)"
| "canon_of VNull = JNull"
| "canon_of (VBool b) = JBool b"
| "canon_of (VInt i) = JInt i"
| "canon_of (VFloat x) = JFloat x"
| "canon_of (VString s) = JString s"

lemma sorted_entries:
  assumes "sorted_wrt (<) (map fst es)"
  shows "es = entries_of (fmap_of_list es)"
proof -
  have "distinct (map fst es)" using assms strict_sorted_iff by blast
  then have vals: "the (map_of es (fst e)) = snd e" if "e \<in> set es" for e
    using that by (cases e) simp
  have "sorted_list_of_set (fst ` set es) = map fst es"
    using assms by (metis list.set_map sorted_list_of_set.idem_if_sorted_distinct strict_sorted_iff)
  moreover have "map (\<lambda>k. (k, the (map_of es k))) (map fst es) = es"
    using vals by (intro nth_equalityI) (auto simp: prod_eq_iff)
  ultimately show ?thesis
    by (simp add: entries_of_def sorted_list_of_fset.rep_eq fmlookup_of_list fset_of_list.rep_eq)
qed

lemma btree_of_entries:
  assumes "distinct (map fst kvs)"
  shows "btree_of kvs = entries_of (fmap_of_list kvs)"
proof -
  have "fmap_of_list (btree_of kvs) = fmap_of_list kvs"
    using btree_of_map [OF assms] by (intro fmap_ext) (simp add: fmlookup_of_list)
  then show ?thesis using sorted_entries [OF btree_of_sorted [OF assms]] by simp
qed

lemma map_of_map_prod: "map_of (map (map_prod id f) kvs) k = map_option f (map_of kvs k)"
  by (induction kvs) auto

lemma fmmap_of_list: "fmmap f (fmap_of_list kvs) = fmap_of_list (map (map_prod id f) kvs)"
  by (intro fmap_ext) (simp add: fmlookup_of_list map_of_map_prod)

lemma canonicalise_meaning: "json_ok v \<Longrightarrow> canonicalise v = canon_of (json_val v)"
proof (induction v)
  case (JObject m)
  have "canonicalise (snd x) = canon_of (json_val (snd x))" if "x \<in> set m" for x
  proof (rule JObject.IH)
    show "x \<in> set m" "snd x \<in> Basic_BNFs.snds x" using that by (auto simp: snds.simps prod_eq_iff)
    show "json_ok (snd x)" using JObject.prems that by (cases x) (auto simp: list_all_iff)
  qed
  then have eq: "map (map_prod id canonicalise) m = map (map_prod id canon_of) (map (map_prod id json_val) m)"
    by (simp add: map_prod_def split_def)
  have "distinct (map fst (map (map_prod id canon_of) (map (map_prod id json_val) m)))"
    using JObject.prems by (simp add: comp_def)
  then show ?case by (simp add: btree_of_entries fmmap_of_list eq del: map_map)
next
  case (JArray a)
  then show ?case by (auto simp: list_all_iff)
qed simp_all

lemma entries_of_fmap: "fmap_of_list (entries_of m) = m"
  by (intro fmap_ext)
    (auto simp: entries_of_def fmlookup_of_list map_of_map_restrict restrict_map_def fmdom'_alt_def
      dest: fmdom_notD fmdomI split: option.splits)

lemma canon_value: "json_val (canon_of x) = x"
proof (induction x)
  case (VObject m)
  have "fmap_of_list (map (map_prod id json_val) (entries_of (fmmap canon_of m))) = fmmap json_val (fmmap canon_of m)"
    by (simp add: fmmap_of_list [symmetric] entries_of_fmap)
  also have "\<dots> = m"
  proof (rule fmap_ext)
    fix k
    show "fmlookup (fmmap json_val (fmmap canon_of m)) k = fmlookup m k"
      using VObject by (cases "fmlookup m k") (auto intro: fmran'I)
  qed
  finally show ?case by simp
next
  case (VArray a)
  then show ?case by (simp add: map_idI)
qed simp_all

text \<open>
  Property C15. Two JSON values in which no object repeats a key have the same canonical form exactly when
  they are the same value, whatever the order of the keys at any depth: fingerprints never depend on the
  order in which fields were put in, and never conflate different inputs before hashing.
\<close>

theorem canonical_same_value:
  assumes "json_ok v" "json_ok w"
  shows "canonicalise v = canonicalise w \<longleftrightarrow> json_val v = json_val w"
  using assms by (metis canonicalise_meaning canon_value)

theorem canonical_same_value_witness:
  "canonicalise (JObject [(''outer'', JObject [(''z'', JInt 1), (''a'', JInt 2)]), (''list'', JArray [JNull])])
    = canonicalise (JObject [(''list'', JArray [JNull]), (''outer'', JObject [(''a'', JInt 2), (''z'', JInt 1)])])"
proof -
  let ?v = "JObject [(''outer'', JObject [(''z'', JInt 1), (''a'', JInt 2)]), (''list'', JArray [JNull])]"
  let ?w = "JObject [(''list'', JArray [JNull]), (''outer'', JObject [(''a'', JInt 2), (''z'', JInt 1)])]"
  have ok: "json_ok ?v" "json_ok ?w" by simp_all
  have "json_val ?v = json_val ?w" by (simp add: fmupd_reorder_neq)
  then show ?thesis using canonical_same_value [OF ok] by blast
qed

end
