(* ===== verification/Archive.thy ===== *)
theory Archive
  imports Fingerprint Export
begin

text \<open>
  The archive of a run: paths, documents and the writer of \<open>zerobench-runtime/src/archive.rs\<close>, and the
  session of \<open>runner.rs\<close> that opens it before the run and completes it afterwards. The file system is a
  disk, the log of the operations issued so far, and the answers of the system to the calls to come: a call
  may give_error, and a failing write may have written a beginning. Serialisation (serde, the HDR log format) is
  a parameter.
\<close>

section \<open>The file system\<close>

datatype io_error = AlreadyExists string | OtherError string | OsError string

text \<open>A file has its bytes, and whether they have been flushed to the device.\<close>

datatype node = DirNode | FileNode bytes bool

type_synonym disk = "(string \<times> node) list"

datatype fs_op =
    MakeDirs string
  | CreateFile string
  | AppendFile string bytes
  | SyncFile string
  | RenameFile string string

datatype fs_answer = FsDone | FsFails nat io_error

record fs =
  fs_disk :: disk
  fs_log :: "fs_op list"
  fs_answers :: "fs_answer list"

type_synonym 'a io = "fs \<Rightarrow> (io_error + 'a) \<times> fs"

definition disk_put :: "string \<Rightarrow> node \<Rightarrow> disk \<Rightarrow> disk" where
  "disk_put p n d = (p, n) # filter (\<lambda>e. fst e \<noteq> p) d"

definition disk_remove :: "string \<Rightarrow> disk \<Rightarrow> disk" where
  "disk_remove p d = filter (\<lambda>e. fst e \<noteq> p) d"

text \<open>The directories on the way to a path, and the path.\<close>

definition dir_chain :: "string \<Rightarrow> string list" where
  "dir_chain p = map (\<lambda>i. take i p) (filter (\<lambda>i. 0 < i \<and> p ! i = CHR ''/'') [0..<length p]) @ [p]"

fun apply_op :: "disk \<Rightarrow> fs_op \<Rightarrow> disk" where
  "apply_op d (MakeDirs p) = foldl (\<lambda>d q. if map_of d q = None then disk_put q DirNode d else d) d (dir_chain p)"
| "apply_op d (CreateFile p) = disk_put p (FileNode [] False) d"
| "apply_op d (AppendFile p b) =
     (case map_of d p of Some (FileNode c s) \<Rightarrow> disk_put p (FileNode (c @ b) False) d | _ \<Rightarrow> d)"
| "apply_op d (SyncFile p) =
     (case map_of d p of Some (FileNode c s) \<Rightarrow> disk_put p (FileNode c True) d | _ \<Rightarrow> d)"
| "apply_op d (RenameFile p q) =
     (case map_of d p of Some n \<Rightarrow> disk_put q n (disk_remove p d) | None \<Rightarrow> d)"

definition issue :: "fs_op list \<Rightarrow> fs \<Rightarrow> fs" where
  "issue ops s = s\<lparr>fs_disk := foldl apply_op (fs_disk s) ops, fs_log := fs_log s @ ops\<rparr>"

text \<open>A call: its operations when it succeeds, and what it did when it fails after \<open>n\<close> bytes.\<close>

definition fs_call :: "fs_op list \<Rightarrow> (nat \<Rightarrow> fs_op list) \<Rightarrow> unit io" where
  "fs_call ok part s =
     (case fs_answers s of
        [] \<Rightarrow> (Inr (), issue ok s)
      | FsDone # as \<Rightarrow> (Inr (), issue ok (s\<lparr>fs_answers := as\<rparr>))
      | FsFails n e # as \<Rightarrow> (Inl e, issue (part n) (s\<lparr>fs_answers := as\<rparr>)))"

text \<open>The operator \<open>?\<close> of Rust.\<close>

definition and_then :: "'a io \<Rightarrow> ('a \<Rightarrow> 'b io) \<Rightarrow> 'b io" where
  "and_then m f s = (case m s of (Inl e, s') \<Rightarrow> (Inl e, s') | (Inr x, s') \<Rightarrow> f x s')"

definition give :: "'a \<Rightarrow> 'a io" where "give x s = (Inr x, s)"

definition give_error :: "io_error \<Rightarrow> 'a io" where "give_error e s = (Inl e, s)"

definition io_of :: "(io_error + 'a) \<Rightarrow> 'a io" where "io_of r s = (r, s)"

definition create_dir_all :: "string \<Rightarrow> unit io" where
  "create_dir_all p = fs_call [MakeDirs p] (\<lambda>_. [])"

definition file_create :: "string \<Rightarrow> unit io" where
  "file_create p = fs_call [CreateFile p] (\<lambda>_. [])"

definition file_write_all :: "string \<Rightarrow> bytes \<Rightarrow> unit io" where
  "file_write_all p b = fs_call [AppendFile p b] (\<lambda>n. [AppendFile p (take n b)])"

definition file_sync_all :: "string \<Rightarrow> unit io" where
  "file_sync_all p = fs_call [SyncFile p] (\<lambda>_. [])"

definition fs_rename :: "string \<Rightarrow> string \<Rightarrow> unit io" where
  "fs_rename p q = fs_call [RenameFile p q] (\<lambda>_. [])"

text \<open>The entries of a directory: the paths one name below it.\<close>

definition in_dir :: "string \<Rightarrow> string \<Rightarrow> bool" where
  "in_dir dir p =
     (let b = path_join dir [] in
      is_prefix b p \<and> drop (length b) p \<noteq> [] \<and> CHR ''/'' \<notin> set (drop (length b) p))"

definition dir_entries :: "disk \<Rightarrow> string \<Rightarrow> string list" where
  "dir_entries d dir = filter (in_dir dir) (map fst d)"

text \<open>Opening a directory, and whether its iterator yields anything (an entry or an error).\<close>

definition read_dir_some :: "string \<Rightarrow> bool io" where
  "read_dir_some dir =
     and_then (fs_call [] (\<lambda>_. [])) (\<lambda>_ s.
       (case fs_call [] (\<lambda>_. []) s of
          (Inl e, s') \<Rightarrow> (Inr True, s')
        | (Inr _, s') \<Rightarrow> (Inr (dir_entries (fs_disk s') dir \<noteq> []), s')))"

section \<open>Paths\<close>

definition archive_resolve :: "(string \<Rightarrow> string option) \<Rightarrow> string" where
  "archive_resolve env =
     (case env ''ZEROBENCH_HOME'' of
        Some p \<Rightarrow> p
      | None \<Rightarrow> (case env ''HOME'' of Some h \<Rightarrow> path_join h ''.zerobench'' | None \<Rightarrow> ''.zerobench''))"

definition runs_dir :: "string \<Rightarrow> string" where "runs_dir root = path_join root ''runs''"

definition url_dir :: "string \<Rightarrow> string \<Rightarrow> string" where "url_dir root url_fp = path_join (runs_dir root) url_fp"

definition run_dir :: "string \<Rightarrow> string \<Rightarrow> string \<Rightarrow> string" where
  "run_dir root url_fp rid = path_join (url_dir root url_fp) rid"

section \<open>Documents\<close>

record schema_versions =
  sv_plan :: u32
  sv_machine :: u32
  sv_env :: u32
  sv_index :: u32
  sv_result :: "u32 option"

record archive_index =
  ai_schema_version :: u32
  ai_schema_versions :: schema_versions
  ai_plan_hash :: string
  ai_target_fingerprint :: string
  ai_url_fingerprint :: string
  ai_replayed_from :: "string option"

record env_record =
  er_schema_version :: u32
  er_tool_version :: string
  er_tool_features :: string
  er_build_profile :: string
  er_git_commit :: string
  er_started_at_unix :: int
  er_ended_at_unix :: "int option"
  er_resolved_ips :: "string list"
  er_tls_version :: "string option"
  er_tls_cipher :: "string option"
  er_context :: "(string \<times> string) list"
  er_force_overload :: bool
  er_calibration_skipped :: bool

definition INDEX_SCHEMA_VERSION :: u32 where "INDEX_SCHEMA_VERSION = 1"
definition ENV_SCHEMA_VERSION :: u32 where "ENV_SCHEMA_VERSION = 1"
definition MACHINE_SCHEMA_VERSION :: u32 where "MACHINE_SCHEMA_VERSION = 1"

text \<open>The system clock reads nanoseconds since 1970, negative before.\<close>

definition unix_seconds :: "int \<Rightarrow> int" where
  "unix_seconds t = (if t < 0 then 0 else t div 1000000000)"

record ('m, 'h) archive_world =
  aw_fp :: fp_world
  aw_query :: "'h hist_query"
  aw_var :: "string \<Rightarrow> string option"
  aw_debug :: bool
  aw_machine :: 'm
  aw_start_wall :: nat
  aw_start_clock :: int
  aw_end_clock :: int
  aw_plan_json :: "plan \<Rightarrow> io_error + bytes"
  aw_machine_json :: "'m \<Rightarrow> io_error + bytes"
  aw_env_json :: "env_record \<Rightarrow> io_error + bytes"
  aw_result_json :: "summary_export \<Rightarrow> io_error + bytes"
  aw_index_json :: "archive_index \<Rightarrow> io_error + bytes"
  aw_histlog :: "'h \<Rightarrow> nat \<Rightarrow> duration \<Rightarrow> string option \<Rightarrow> io_error + bytes"

definition env_started_now :: "('m, 'h) archive_world \<Rightarrow> string \<Rightarrow> env_record" where
  "env_started_now W version =
     \<lparr>er_schema_version = ENV_SCHEMA_VERSION, er_tool_version = version, er_tool_features = [],
      er_build_profile = (if aw_debug W then ''debug'' else ''release''), er_git_commit = [],
      er_started_at_unix = unix_seconds (aw_start_clock W), er_ended_at_unix = None, er_resolved_ips = [],
      er_tls_version = None, er_tls_cipher = None, er_context = [], er_force_overload = False,
      er_calibration_skipped = False\<rparr>"

definition env_set_ended :: "('m, 'h) archive_world \<Rightarrow> env_record \<Rightarrow> env_record" where
  "env_set_ended W env = env\<lparr>er_ended_at_unix := Some (unix_seconds (aw_end_clock W))\<rparr>"

section \<open>The writer\<close>

text \<open>\<open>write_file\<close>: a temporary file, flushed, then renamed.\<close>

definition write_file :: "string \<Rightarrow> string \<Rightarrow> bytes \<Rightarrow> unit io" where
  "write_file dir name b =
     (let tmp = path_join dir (name @ ''.tmp''); final = path_join dir name in
      and_then (file_create tmp) (\<lambda>_.
      and_then (file_write_all tmp b) (\<lambda>_.
      and_then (file_sync_all tmp) (\<lambda>_.
      fs_rename tmp final))))"

definition writer_begin :: "string \<Rightarrow> string \<Rightarrow> string \<Rightarrow> string io" where
  "writer_begin root url_fp rid =
     (let dir = run_dir root url_fp rid in
      and_then (create_dir_all dir) (\<lambda>_.
      and_then (read_dir_some dir) (\<lambda>some.
      if some then give_error (AlreadyExists (''archive directory is not empty: '' @ dir)) else give dir)))"

definition write_doc :: "string \<Rightarrow> string \<Rightarrow> (io_error + bytes) \<Rightarrow> unit io" where
  "write_doc dir name doc = and_then (io_of doc) (write_file dir name)"

definition write_plan :: "('m, 'h) archive_world \<Rightarrow> string \<Rightarrow> plan \<Rightarrow> unit io" where
  "write_plan W dir p = write_doc dir ''plan.json'' (aw_plan_json W p)"

definition write_machine :: "('m, 'h) archive_world \<Rightarrow> string \<Rightarrow> 'm \<Rightarrow> unit io" where
  "write_machine W dir m = write_doc dir ''machine.json'' (aw_machine_json W m)"

definition write_env :: "('m, 'h) archive_world \<Rightarrow> string \<Rightarrow> env_record \<Rightarrow> unit io" where
  "write_env W dir env = write_doc dir ''env.json'' (aw_env_json W env)"

definition write_result :: "('m, 'h) archive_world \<Rightarrow> string \<Rightarrow> summary_export \<Rightarrow> unit io" where
  "write_result W dir result = write_doc dir ''result.json'' (aw_result_json W result)"

definition write_histlog ::
  "('m, 'h) archive_world \<Rightarrow> string \<Rightarrow> string \<Rightarrow> 'h \<Rightarrow> nat \<Rightarrow> duration \<Rightarrow> string option \<Rightarrow> unit io" where
  "write_histlog W dir name hist start dur comment =
     write_doc dir (name @ ''.histlog'') (aw_histlog W hist start dur comment)"

definition writer_finalise :: "('m, 'h) archive_world \<Rightarrow> string \<Rightarrow> archive_index \<Rightarrow> unit io" where
  "writer_finalise W dir index = write_doc dir ''INDEX.json'' (aw_index_json W index)"

section \<open>The session\<close>

record session =
  as_writer :: "string option"
  as_env :: env_record
  as_plan_hash :: string
  as_url_fingerprint :: string
  as_target_fingerprint :: string
  as_run_id :: string
  as_start_wall :: nat

text \<open>The environment record and the session as \<open>begin\<close> fills them in.\<close>

definition session_env ::
  "('m, 'h) archive_world \<Rightarrow> string list \<Rightarrow> (string \<times> string) list \<Rightarrow> bool \<Rightarrow> bool \<Rightarrow> string \<Rightarrow> string \<Rightarrow> env_record" where
  "session_env W resolved context calibration_skipped force_overload features version =
     (env_started_now W version)\<lparr>er_tool_features := features, er_resolved_ips := resolved,
        er_context := context, er_force_overload := force_overload,
        er_calibration_skipped := calibration_skipped\<rparr>"

definition session_of ::
  "('m, 'h) archive_world \<Rightarrow> string option \<Rightarrow> env_record \<Rightarrow> string \<Rightarrow> string \<Rightarrow> string \<Rightarrow> string \<Rightarrow> session" where
  "session_of W writer env plan_h url_fp target_fp rid =
     \<lparr>as_writer = writer, as_env = env, as_plan_hash = plan_h, as_url_fingerprint = url_fp,
      as_target_fingerprint = target_fp, as_run_id = rid, as_start_wall = aw_start_wall W\<rparr>"

text \<open>The result is \<open>None\<close> when a fingerprint panics.\<close>

definition session_begin ::
  "('m, 'h) archive_world \<Rightarrow> plan \<Rightarrow> target \<Rightarrow> string list \<Rightarrow> bool \<Rightarrow> (string \<times> string) list \<Rightarrow> bool \<Rightarrow> bool
     \<Rightarrow> string \<Rightarrow> string \<Rightarrow> fs \<Rightarrow> ((io_error + session) \<times> fs) option" where
  "session_begin W p t resolved no_archive context calibration_skipped force_overload features version s =
     (let F = aw_fp W; plan_h = plan_hash F p in
      Option.bind (url_fingerprint F p t FamilyAuto) (\<lambda>url_fp.
      let target_fp = target_fingerprint F t resolved plan_h in
      map_option (\<lambda>rid.
        and_then (if no_archive then give None
             else and_then (writer_begin (archive_resolve (aw_var W)) url_fp rid) (\<lambda>w.
                  and_then (write_plan W w p) (\<lambda>_.
                  and_then (write_machine W w (aw_machine W)) (\<lambda>_.
                  give (Some w)))))
          (\<lambda>writer.
        let env = session_env W resolved context calibration_skipped force_overload features version
        in and_then (case writer of Some w \<Rightarrow> write_env W w env | None \<Rightarrow> give ()) (\<lambda>_.
           give (session_of W writer env plan_h url_fp target_fp rid))) s)
        (run_id F plan_h target_fp (aw_start_wall W))))"

definition set_force_overload :: "bool \<Rightarrow> session \<Rightarrow> session" where
  "set_force_overload b a = a\<lparr>as_env := (as_env a)\<lparr>er_force_overload := b\<rparr>\<rparr>"

definition session_index :: "session \<Rightarrow> archive_index" where
  "session_index a =
     \<lparr>ai_schema_version = INDEX_SCHEMA_VERSION,
      ai_schema_versions = \<lparr>sv_plan = 1, sv_machine = MACHINE_SCHEMA_VERSION, sv_env = ENV_SCHEMA_VERSION,
        sv_index = INDEX_SCHEMA_VERSION, sv_result = Some SUMMARY_SCHEMA_VERSION\<rparr>,
      ai_plan_hash = as_plan_hash a, ai_target_fingerprint = as_target_fingerprint a,
      ai_url_fingerprint = as_url_fingerprint a, ai_replayed_from = None\<rparr>"

definition session_finalise ::
  "('m, 'h) archive_world \<Rightarrow> session \<Rightarrow> 'h summary \<Rightarrow> per_run_metrics list \<Rightarrow> plan \<Rightarrow> duration \<Rightarrow> string
     \<Rightarrow> ('h summary \<Rightarrow> plan \<Rightarrow> 'h) \<Rightarrow> unit io" where
  "session_finalise W a summary per_run p total_time comment pick_primary =
     (case as_writer a of
        None \<Rightarrow> give ()
      | Some w \<Rightarrow>
          and_then (write_env W w (env_set_ended W (as_env a))) (\<lambda>_.
          and_then (write_result W w ((to_export (aw_query W) summary)\<lparr>ex_per_run := per_run\<rparr>)) (\<lambda>_.
          and_then (write_histlog W w ''result'' (pick_primary summary p) (as_start_wall a) total_time (Some comment)) (\<lambda>_.
          writer_finalise W w (session_index a)))))"

section \<open>Calls and their logs\<close>

text \<open>\<open>ran s ops s'\<close>: between the two states exactly these operations were issued.\<close>

definition ran :: "fs \<Rightarrow> fs_op list \<Rightarrow> fs \<Rightarrow> bool" where
  "ran s ops s' = (fs_disk s' = foldl apply_op (fs_disk s) ops \<and> fs_log s' = fs_log s @ ops)"

lemma ran_refl [simp]: "ran s [] s"
  by (simp add: ran_def)

lemma ran_trans: "ran s a s' \<Longrightarrow> ran s' b s'' \<Longrightarrow> ran s (a @ b) s''"
  by (simp add: ran_def)

lemma ran_issue: "ran s ops (issue ops (s\<lparr>fs_answers := as\<rparr>))" "ran s ops (issue ops s)"
  by (simp_all add: ran_def issue_def)

lemma fs_call_ran:
  assumes "fs_call ok part s = (r, s')"
  shows "r = Inr () \<and> ran s ok s' \<or> (\<exists>e n. r = Inl e \<and> ran s (part n) s')"
proof (cases "fs_answers s")
  case (Cons x as)
  then show ?thesis using assms ran_issue(1) [of s] by (cases x) (auto simp: fs_call_def)
qed (use assms ran_issue(2) [of s] in \<open>auto simp: fs_call_def\<close>)

lemma and_then_cases:
  assumes "and_then m f s = (r, s')"
  obtains (error) e where "m s = (Inl e, s')" "r = Inl e"
    | (ok) x s1 where "m s = (Inr x, s1)" "f x s1 = (r, s')"
  using assms by (auto simp: and_then_def split: prod.splits sum.splits)

text \<open>What a write may have done: everything and succeeded, or a beginning and failed.\<close>

lemma write_file_ran:
  assumes tmp: "tmp = path_join dir (name @ ''.tmp'')" and final: "final = path_join dir name"
    and w: "write_file dir name b s = (r, s')"
  shows "r = Inr () \<and> ran s [CreateFile tmp, AppendFile tmp b, SyncFile tmp, RenameFile tmp final] s'
    \<or> (\<exists>e n ops. r = Inl e \<and> ran s ops s'
        \<and> ops \<in> {[], [CreateFile tmp], [CreateFile tmp, AppendFile tmp (take n b)],
             [CreateFile tmp, AppendFile tmp b], [CreateFile tmp, AppendFile tmp b, SyncFile tmp]})"
proof -
  have run: "and_then (file_create tmp) (\<lambda>_. and_then (file_write_all tmp b) (\<lambda>_.
      and_then (file_sync_all tmp) (\<lambda>_. fs_rename tmp final))) s = (r, s')"
    using w by (simp add: write_file_def tmp final Let_def)
  note calls = file_create_def file_write_all_def file_sync_all_def fs_rename_def
  show ?thesis using run
  proof (cases rule: and_then_cases)
    case (error e)
    then show ?thesis using fs_call_ran [of _ _ s] by (fastforce simp: calls)
  next
    case (ok x s1)
    then have r1: "ran s [CreateFile tmp] s1" using fs_call_ran [of _ _ s] by (fastforce simp: calls)
    from ok(2) show ?thesis
    proof (cases rule: and_then_cases)
      case (error e)
      then obtain n where "ran s1 [AppendFile tmp (take n b)] s'" using fs_call_ran [of _ _ s1] by (fastforce simp: calls)
      from ran_trans [OF r1 this] show ?thesis using error by auto
    next
      case (ok x s2)
      then have r2: "ran s1 [AppendFile tmp b] s2" using fs_call_ran [of _ _ s1] by (fastforce simp: calls)
      note r12 = ran_trans [OF r1 r2, simplified]
      from ok(2) show ?thesis
      proof (cases rule: and_then_cases)
        case (error e)
        then have "ran s2 [] s'" using fs_call_ran [of _ _ s2] by (fastforce simp: calls)
        from ran_trans [OF r12 this] show ?thesis using error by auto
      next
        case (ok x s3)
        then have r3: "ran s2 [SyncFile tmp] s3" using fs_call_ran [of _ _ s2] by (fastforce simp: calls)
        note r123 = ran_trans [OF r12 r3, simplified]
        from fs_call_ran [OF ok(2) [unfolded fs_rename_def]] show ?thesis
          using ran_trans [OF r123] by fastforce
      qed
    qed
  qed
qed


section \<open>What a disk shows\<close>

definition archive_names :: "string list" where
  "archive_names = [''plan.json'', ''machine.json'', ''env.json'', ''result.json'', ''result.histlog'', ''INDEX.json'']"

text \<open>The documents a disk shows under the names of the archive.\<close>

definition shows_docs :: "string \<Rightarrow> disk \<Rightarrow> (string \<Rightarrow> bytes option) \<Rightarrow> bool" where
  "shows_docs dir d v =
     list_all (\<lambda>name. map_of d (path_join dir name) = map_option (\<lambda>b. FileNode b True) (v name)) archive_names"

lemma shows_docs_iff:
  "shows_docs dir d v \<longleftrightarrow>
     (\<forall>name \<in> set archive_names. map_of d (path_join dir name) = map_option (\<lambda>b. FileNode b True) (v name))"
  by (simp add: shows_docs_def list_all_iff)

lemma map_of_filter_other: "map_of (filter (\<lambda>e. fst e \<noteq> p) d) q = (if q = p then None else map_of d q)"
  by (induction d) auto

lemma map_of_put [simp]: "map_of (disk_put p n d) q = (if q = p then Some n else map_of d q)"
  by (simp add: disk_put_def map_of_filter_other)

lemma map_of_remove [simp]: "map_of (disk_remove p d) q = (if q = p then None else map_of d q)"
  by (simp add: disk_remove_def map_of_filter_other)

lemma map_of_op_other:
  "q \<noteq> p \<Longrightarrow> map_of (apply_op d (CreateFile p)) q = map_of d q"
  "q \<noteq> p \<Longrightarrow> map_of (apply_op d (AppendFile p b)) q = map_of d q"
  "q \<noteq> p \<Longrightarrow> map_of (apply_op d (SyncFile p)) q = map_of d q"
  by (auto split: option.splits node.splits)

lemma path_join_base: "\<not> is_prefix ''/'' n \<Longrightarrow> path_join dir n = path_join dir [] @ n"
  by (auto simp: path_join_def)

lemma path_join_inject:
  "\<not> is_prefix ''/'' a \<Longrightarrow> \<not> is_prefix ''/'' b \<Longrightarrow> path_join dir a = path_join dir b \<longleftrightarrow> a = b"
  using path_join_base [of a dir] path_join_base [of b dir] by (metis append_same_eq same_append_eq)

lemma archive_name_relative:
  assumes "name \<in> set archive_names"
  shows "\<not> is_prefix ''/'' name" "\<not> is_prefix ''/'' (name @ ''.tmp'')" "name @ ''.tmp'' \<notin> set archive_names"
    "name \<noteq> []" "CHR ''/'' \<notin> set name"
  using assms by (auto simp: archive_names_def)

text \<open>Neither the temporary file nor a beginning of the writes changes what is shown.\<close>

lemma tmp_not_final:
  assumes "name \<in> set archive_names" "n \<in> set archive_names"
  shows "path_join dir n \<noteq> path_join dir (name @ ''.tmp'')"
  using path_join_inject [OF archive_name_relative(1) [OF assms(2)] archive_name_relative(2) [OF assms(1)]]
    archive_name_relative(3) [OF assms(1)] assms(2) by metis

lemma shows_after:
  assumes "name \<in> set archive_names" "shows_docs dir d v" "tmp = path_join dir (name @ ''.tmp'')"
    "\<forall>op \<in> set ops. op \<in> {CreateFile tmp, SyncFile tmp} \<union> range (AppendFile tmp)"
  shows "shows_docs dir (foldl apply_op d ops) v"
  using assms(2,4)
proof (induction ops arbitrary: d)
  case (Cons op ops)
  have "map_of (apply_op d op) (path_join dir n) = map_of d (path_join dir n)" if "n \<in> set archive_names" for n
    using map_of_op_other [of "path_join dir n" tmp d] tmp_not_final [OF assms(1) that, of dir] assms(3) Cons.prems(2)
    by (auto simp del: apply_op.simps)
  then have "shows_docs dir (apply_op d op) v" using Cons.prems(1) by (simp add: shows_docs_iff)
  then show ?case using Cons by simp
qed simp

lemma shows_written:
  assumes "name \<in> set archive_names" "shows_docs dir d v" "tmp = path_join dir (name @ ''.tmp'')"
    "final = path_join dir name"
  shows "shows_docs dir (foldl apply_op d [CreateFile tmp, AppendFile tmp b, SyncFile tmp, RenameFile tmp final]) (v(name \<mapsto> b))"
proof -
  let ?d = "foldl apply_op d [CreateFile tmp, AppendFile tmp b, SyncFile tmp]"
  have same: "shows_docs dir ?d v" by (rule shows_after [OF assms(1,2,3)]) simp
  have tmp: "map_of ?d tmp = Some (FileNode b True)" by simp
  have "map_of (apply_op ?d (RenameFile tmp final)) (path_join dir n)
      = map_option (\<lambda>b. FileNode b True) ((v(name \<mapsto> b)) n)" if n: "n \<in> set archive_names" for n
  proof -
    have "path_join dir n \<noteq> tmp" using tmp_not_final [OF assms(1) n] assms(3) by simp
    moreover have "path_join dir n = final \<longleftrightarrow> n = name"
      using path_join_inject archive_name_relative(1) n assms(1,4) by metis
    ultimately show ?thesis using same n tmp by (simp add: shows_docs_iff del: foldl_Cons)
  qed
  then show ?thesis by (simp add: shows_docs_iff)
qed

section \<open>Stages of an archive\<close>

type_synonym doc_list = "(string \<times> (io_error + bytes)) list"

fun write_docs :: "string \<Rightarrow> doc_list \<Rightarrow> unit io" where
  "write_docs dir [] = give ()"
| "write_docs dir ((name, doc) # docs) = and_then (write_doc dir name doc) (\<lambda>_. write_docs dir docs)"

text \<open>The documents before the first one that cannot be serialised.\<close>

fun writable :: "doc_list \<Rightarrow> (string \<times> bytes) list" where
  "writable [] = []"
| "writable ((name, Inr b) # docs) = (name, b) # writable docs"
| "writable ((name, Inl e) # docs) = []"

definition after_docs :: "(string \<Rightarrow> bytes option) \<Rightarrow> (string \<times> bytes) list \<Rightarrow> string \<Rightarrow> bytes option" where
  "after_docs v ws = foldl (\<lambda>v (name, b). v(name \<mapsto> b)) v ws"

lemma after_docs_simps [simp]:
  "after_docs v [] = v" "after_docs v ((name, b) # ws) = after_docs (v(name \<mapsto> b)) ws"
  by (simp_all add: after_docs_def)

lemma write_file_stages:
  assumes "name \<in> set archive_names" "shows_docs dir (fs_disk s) v" "write_file dir name b s = (r, s')"
  obtains ops where "ran s ops s'" "r = Inr () \<Longrightarrow> shows_docs dir (fs_disk s') (v(name \<mapsto> b))"
    "\<And>k. shows_docs dir (foldl apply_op (fs_disk s) (take k ops)) v
      \<or> shows_docs dir (foldl apply_op (fs_disk s) (take k ops)) (v(name \<mapsto> b))"
proof -
  define tmp where "tmp = path_join dir (name @ ''.tmp'')"
  define final where "final = path_join dir name"
  let ?all = "[CreateFile tmp, AppendFile tmp b, SyncFile tmp, RenameFile tmp final]"
  note before = shows_after [OF assms(1,2) tmp_def]
  show thesis
  proof (cases rule: disjE [OF write_file_ran [OF tmp_def final_def assms(3)]])
    case 1
    have full: "shows_docs dir (foldl apply_op (fs_disk s) ?all) (v(name \<mapsto> b))"
      by (rule shows_written [OF assms(1,2) tmp_def final_def])
    have "shows_docs dir (foldl apply_op (fs_disk s) (take k ?all)) v
      \<or> shows_docs dir (foldl apply_op (fs_disk s) (take k ?all)) (v(name \<mapsto> b))" for k
    proof (cases "4 \<le> k")
      case True
      then show ?thesis using full by simp
    next
      case False
      have "set (take k [CreateFile tmp, AppendFile tmp b, SyncFile tmp]) \<subseteq> {CreateFile tmp, AppendFile tmp b, SyncFile tmp}"
        using set_take_subset [of k "[CreateFile tmp, AppendFile tmp b, SyncFile tmp]"] by simp
      moreover have "take k ?all = take k [CreateFile tmp, AppendFile tmp b, SyncFile tmp]"
        using False by (simp add: take_Cons')
      ultimately show ?thesis using before [of "take k ?all"] by auto
    qed
    then show ?thesis using that 1 full by (auto simp: ran_def)
  next
    case 2
    then obtain e n ops where o: "r = Inl e" "ran s ops s'"
        "ops \<in> {[], [CreateFile tmp], [CreateFile tmp, AppendFile tmp (take n b)],
             [CreateFile tmp, AppendFile tmp b], [CreateFile tmp, AppendFile tmp b, SyncFile tmp]}" by blast
    have "\<forall>op \<in> set ops. op \<in> {CreateFile tmp, SyncFile tmp} \<union> range (AppendFile tmp)" using o(3) by auto
    then have "shows_docs dir (foldl apply_op (fs_disk s) (take k ops)) v" for k
      using before [of "take k ops"] in_set_takeD by metis
    then show ?thesis using that o(1,2) by simp
  qed
qed

lemma write_docs_stages:
  assumes "fst ` set docs \<subseteq> set archive_names" "shows_docs dir (fs_disk s) v" "write_docs dir docs s = (r, s')"
  shows "\<exists>ops. ran s ops s'
    \<and> (\<forall>k. \<exists>i \<le> length (writable docs).
         shows_docs dir (foldl apply_op (fs_disk s) (take k ops)) (after_docs v (take i (writable docs))))
    \<and> (r = Inr () \<longrightarrow> length (writable docs) = length docs \<and> shows_docs dir (fs_disk s') (after_docs v (writable docs)))"
  using assms
proof (induction docs arbitrary: s v)
  case Nil
  then show ?case by (auto simp: give_def intro!: exI [of _ "[]"])
next
  case (Cons x docs)
  obtain name doc where x: "x = (name, doc)" by fastforce
  have name: "name \<in> set archive_names" and rest: "fst ` set docs \<subseteq> set archive_names"
    using Cons.prems(1) by (auto simp: x)
  have run: "and_then (write_doc dir name doc) (\<lambda>_. write_docs dir docs) s = (r, s')" using Cons.prems(3) by (simp add: x)
  show ?case
  proof (cases doc)
    case (Inl e)
    then have "r = Inl e \<and> s' = s" using run by (simp add: and_then_def write_doc_def io_of_def)
    then show ?thesis using Cons.prems(2) by (auto simp: x Inl intro!: exI [of _ "[]"])
  next
    case (Inr b)
    have doc: "write_doc dir name doc s = write_file dir name b s" by (simp add: Inr write_doc_def and_then_def io_of_def)
    from run show ?thesis
    proof (cases rule: and_then_cases)
      case (error e)
      obtain ops where o: "ran s ops s'" "\<And>k. shows_docs dir (foldl apply_op (fs_disk s) (take k ops)) v
          \<or> shows_docs dir (foldl apply_op (fs_disk s) (take k ops)) (v(name \<mapsto> b))"
        using write_file_stages [OF name Cons.prems(2)] error(1) doc by metis
      have "\<exists>i \<le> length (writable (x # docs)).
          shows_docs dir (foldl apply_op (fs_disk s) (take k ops)) (after_docs v (take i (writable (x # docs))))" for k
        using o(2) [of k] by (auto simp: x Inr intro: exI [of _ 0] exI [of _ 1])
      then show ?thesis using o(1) error(2) by blast
    next
      case (ok u s1)
      have step: "write_file dir name b s = (Inr (), s1)" using ok(1) doc by simp
      obtain ops where o: "ran s ops s1" "shows_docs dir (fs_disk s1) (v(name \<mapsto> b))"
          "\<And>k. shows_docs dir (foldl apply_op (fs_disk s) (take k ops)) v
            \<or> shows_docs dir (foldl apply_op (fs_disk s) (take k ops)) (v(name \<mapsto> b))"
        using write_file_stages [OF name Cons.prems(2) step] by metis
      obtain ops' where o': "ran s1 ops' s'"
          "\<And>k. \<exists>i \<le> length (writable docs). shows_docs dir (foldl apply_op (fs_disk s1) (take k ops'))
             (after_docs (v(name \<mapsto> b)) (take i (writable docs)))"
          "r = Inr () \<longrightarrow> length (writable docs) = length docs \<and> shows_docs dir (fs_disk s') (after_docs (v(name \<mapsto> b)) (writable docs))"
        using Cons.IH [OF rest o(2) ok(2)] by blast
      have "\<exists>i \<le> length (writable (x # docs)).
          shows_docs dir (foldl apply_op (fs_disk s) (take k (ops @ ops'))) (after_docs v (take i (writable (x # docs))))" for k
      proof (cases "k \<le> length ops")
        case True
        then show ?thesis using o(3) [of k] by (auto simp: x Inr intro: exI [of _ 0] exI [of _ 1])
      next
        case False
        then have "foldl apply_op (fs_disk s) (take k (ops @ ops')) = foldl apply_op (fs_disk s1) (take (k - length ops) ops')"
          using o(1) by (simp add: ran_def)
        moreover obtain i where "i \<le> length (writable docs)" "shows_docs dir (foldl apply_op (fs_disk s1) (take (k - length ops) ops'))
             (after_docs (v(name \<mapsto> b)) (take i (writable docs)))" using o'(2) by blast
        ultimately show ?thesis by (auto simp: x Inr intro!: exI [of _ "Suc i"])
      qed
      then show ?thesis using ran_trans [OF o(1) o'(1)] o'(3) by (auto simp: x Inr)
    qed
  qed
qed

section \<open>Beginning a session\<close>

lemma dir_chain_short: "q \<in> set (dir_chain p) \<Longrightarrow> length q \<le> length p"
  by (auto simp: dir_chain_def)

lemma make_dirs_get:
  "map_of (apply_op d (MakeDirs p)) q
     = (if q \<in> set (dir_chain p) \<and> map_of d q = None then Some DirNode else map_of d q)"
proof -
  have "map_of (foldl (\<lambda>d q. if map_of d q = None then disk_put q DirNode d else d) d ps) q
      = (if q \<in> set ps \<and> map_of d q = None then Some DirNode else map_of d q)" for ps
    by (induction ps arbitrary: d) auto
  then show ?thesis by simp
qed

lemma in_dir_longer: "in_dir dir p \<Longrightarrow> length dir < length p"
proof -
  assume "in_dir dir p"
  then have "drop (length (path_join dir [])) p \<noteq> []" by (simp add: in_dir_def Let_def)
  moreover have "length dir \<le> length (path_join dir [])" by (simp add: path_join_def)
  ultimately show ?thesis by simp
qed

lemma dir_entries_empty: "dir_entries d dir = [] \<longleftrightarrow> (\<forall>p. in_dir dir p \<longrightarrow> map_of d p = None)"
  by (auto simp: dir_entries_def filter_empty_conv map_of_eq_None_iff)

lemma make_dirs_longer: "length dir < length q \<Longrightarrow> map_of (apply_op d (MakeDirs dir)) q = map_of d q"
  using dir_chain_short [of q dir] by (auto simp: make_dirs_get simp del: apply_op.simps)

lemma dir_entries_made: "dir_entries (apply_op d (MakeDirs dir)) dir = [] \<longleftrightarrow> dir_entries d dir = []"
  using make_dirs_longer in_dir_longer by (simp add: dir_entries_empty del: apply_op.simps)

lemma is_prefix_same: "is_prefix a (a @ b)"
  by (induction a) auto

lemma archive_name_in_dir: "name \<in> set archive_names \<Longrightarrow> in_dir dir (path_join dir name)"
  using archive_name_relative [of name] path_join_base [of name dir] is_prefix_same by (simp add: in_dir_def Let_def)

lemma shows_nothing: "dir_entries d dir = [] \<Longrightarrow> shows_docs dir d Map.empty"
  using archive_name_in_dir by (simp add: dir_entries_empty shows_docs_iff)

lemma shows_made: "shows_docs dir d v \<Longrightarrow> shows_docs dir (apply_op d (MakeDirs dir)) v"
  using make_dirs_longer in_dir_longer [OF archive_name_in_dir] by (simp add: shows_docs_iff del: apply_op.simps)

lemma writer_begin_ran:
  assumes dir: "dir = run_dir root url_fp rid" and w: "writer_begin root url_fp rid s = (r, s')"
  obtains (failed) e ops where "r = Inl e" "ran s ops s'" "ops = [] \<or> ops = [MakeDirs dir]"
      "fs_answers s = [] \<Longrightarrow> dir_entries (fs_disk s) dir \<noteq> []
         \<and> e = AlreadyExists (''archive directory is not empty: '' @ dir)"
    | (begun) "r = Inr dir" "ran s [MakeDirs dir] s'" "dir_entries (fs_disk s) dir = []"
proof -
  have run: "and_then (create_dir_all dir) (\<lambda>_. and_then (read_dir_some dir) (\<lambda>some.
      if some then give_error (AlreadyExists (''archive directory is not empty: '' @ dir)) else give dir)) s = (r, s')"
    using w by (simp add: writer_begin_def dir [symmetric] Let_def)
  show thesis using run
  proof (cases rule: and_then_cases)
    case (error e)
    then show ?thesis using failed fs_call_ran [of _ _ s] by (fastforce simp: create_dir_all_def fs_call_def)
  next
    case (ok x s1)
    have r1: "ran s [MakeDirs dir] s1" using ok(1) fs_call_ran [of _ _ s] by (fastforce simp: create_dir_all_def)
    have quiet: "fs_answers s = [] \<Longrightarrow> fs_answers s1 = []" using ok(1) by (auto simp: create_dir_all_def fs_call_def issue_def)
    have empty: "dir_entries (fs_disk s1) dir = [] \<longleftrightarrow> dir_entries (fs_disk s) dir = []"
      using r1 dir_entries_made by (simp add: ran_def del: apply_op.simps)
    have looked: "ran s1 [] s2 \<and> (fs_answers s1 = [] \<longrightarrow> rd = Inr (dir_entries (fs_disk s1) dir \<noteq> []))
        \<and> (rd = Inr False \<longrightarrow> dir_entries (fs_disk s1) dir = [])" if "read_dir_some dir s1 = (rd, s2)" for rd s2
      using that by (auto simp: read_dir_some_def and_then_def fs_call_def issue_def ran_def
          split: list.splits fs_answer.splits prod.splits sum.splits)
    from ok(2) show ?thesis
    proof (cases rule: and_then_cases)
      case (error e)
      from looked [OF error(1)] show ?thesis using failed [OF error(2), of "[MakeDirs dir]"] ran_trans [OF r1] quiet by force
    next
      case (ok some s2)
      note l = looked [OF ok(1)]
      have r2: "ran s [MakeDirs dir] s2" using ran_trans [OF r1, of "[]"] l by simp
      show ?thesis
      proof (cases some)
        case True
        then have "r = Inl (AlreadyExists (''archive directory is not empty: '' @ dir))" "s' = s2"
          using ok(2) by (simp_all add: give_error_def)
        then show ?thesis using failed [of _ "[MakeDirs dir]"] r2 l quiet empty True by blast
      next
        case False
        then show ?thesis using begun ok(2) r2 l empty by (simp add: give_def)
      qed
    qed
  qed
qed

section \<open>Crashes\<close>

text \<open>
  What a crash leaves of a disk: what was flushed, and anything for a file that was not. Directory
  operations reach the device in the order they were issued, so a crash happens after a beginning of the
  log.
\<close>

fun survives :: "node \<Rightarrow> node \<Rightarrow> bool" where
  "survives DirNode n = (n = DirNode)"
| "survives (FileNode b True) n = (n = FileNode b True)"
| "survives (FileNode b False) n = (case n of FileNode _ _ \<Rightarrow> True | DirNode \<Rightarrow> False)"

definition crashed :: "disk \<Rightarrow> disk \<Rightarrow> bool" where
  "crashed d d' = list_all2 (\<lambda>(p, n) (p', n'). p = p' \<and> survives n n') d d'"

lemma crashed_docs: "crashed d d' \<Longrightarrow> shows_docs dir d v \<Longrightarrow> shows_docs dir d' v"
proof -
  assume c: "crashed d d'"
  have kept: "map_of d q = x \<Longrightarrow> x = None \<or> (\<exists>b. x = Some (FileNode b True)) \<Longrightarrow> map_of d' q = x" for q x
    using c unfolding crashed_def
    by (induction arbitrary: x rule: list_all2_induct) (auto split: if_splits)
  assume v: "shows_docs dir d v"
  have "map_of d' (path_join dir n) = map_option (\<lambda>b. FileNode b True) (v n)" if "n \<in> set archive_names" for n
    using kept [of "path_join dir n"] v that by (cases "v n") (auto simp: shows_docs_iff)
  then show ?thesis by (simp add: shows_docs_iff)
qed

text \<open>A session from its beginning to its end.\<close>

definition archive_run ::
  "('m, 'h) archive_world \<Rightarrow> plan \<Rightarrow> target \<Rightarrow> string list \<Rightarrow> (string \<times> string) list \<Rightarrow> bool \<Rightarrow> bool \<Rightarrow> string \<Rightarrow> string
     \<Rightarrow> 'h summary \<Rightarrow> per_run_metrics list \<Rightarrow> duration \<Rightarrow> string \<Rightarrow> ('h summary \<Rightarrow> plan \<Rightarrow> 'h)
     \<Rightarrow> fs \<Rightarrow> ((io_error + unit) \<times> fs) option" where
  "archive_run W p t resolved context skipped overload features version sm runs time comment pick s =
     (case session_begin W p t resolved False context skipped overload features version s of
        None \<Rightarrow> None
      | Some (Inl e, s') \<Rightarrow> Some (Inl e, s')
      | Some (Inr a, s') \<Rightarrow> Some (session_finalise W a sm runs p time comment pick s'))"

definition archive_docs ::
  "('m, 'h) archive_world \<Rightarrow> session \<Rightarrow> plan \<Rightarrow> 'h summary \<Rightarrow> per_run_metrics list \<Rightarrow> duration \<Rightarrow> string
     \<Rightarrow> ('h summary \<Rightarrow> plan \<Rightarrow> 'h) \<Rightarrow> doc_list" where
  "archive_docs W a p sm runs time comment pick =
     [(''plan.json'', aw_plan_json W p), (''machine.json'', aw_machine_json W (aw_machine W)),
      (''env.json'', aw_env_json W (as_env a)), (''env.json'', aw_env_json W (env_set_ended W (as_env a))),
      (''result.json'', aw_result_json W ((to_export (aw_query W) sm)\<lparr>ex_per_run := runs\<rparr>)),
      (''result.histlog'', aw_histlog W (pick sm p) (as_start_wall a) time (Some comment)),
      (''INDEX.json'', aw_index_json W (session_index a))]"

text \<open>
  A consistent archive: what stands under a name of the archive is, complete, a document of the session
  under that name, and when the index is there so are all the others, in their last versions.
\<close>

definition archive_consistent :: "string \<Rightarrow> doc_list \<Rightarrow> disk \<Rightarrow> bool" where
  "archive_consistent dir docs d =
     (list_all (\<lambda>name. case map_of d (path_join dir name) of
          None \<Rightarrow> True
        | Some n \<Rightarrow> list_ex (\<lambda>(m, doc). m = name \<and> (case doc of Inr b \<Rightarrow> n = FileNode b True | Inl _ \<Rightarrow> False)) docs)
        archive_names
      \<and> (map_of d (path_join dir ''INDEX.json'') = None
         \<or> length (writable docs) = length docs \<and> shows_docs dir d (after_docs Map.empty (writable docs))))"

lemma write_docs_append:
  "write_docs dir (a @ b) = and_then (write_docs dir a) (\<lambda>_. write_docs dir b)"
  by (induction a) (auto simp: fun_eq_iff and_then_def give_def split: prod.splits sum.splits)

lemma begin_writes:
  assumes "session_begin W p t resolved False context skipped overload features version s = Some (r, s')"
    "url_fingerprint (aw_fp W) p t FamilyAuto = Some url_fp"
    "run_id (aw_fp W) (plan_hash (aw_fp W) p) (target_fingerprint (aw_fp W) t resolved (plan_hash (aw_fp W) p))
       (aw_start_wall W) = Some rid"
  shows "and_then (writer_begin (archive_resolve (aw_var W)) url_fp rid) (\<lambda>w.
      let a = session_of W (Some w) (session_env W resolved context skipped overload features version)
                (plan_hash (aw_fp W) p) url_fp (target_fingerprint (aw_fp W) t resolved (plan_hash (aw_fp W) p)) rid
      in and_then (write_docs w [(''plan.json'', aw_plan_json W p), (''machine.json'', aw_machine_json W (aw_machine W)),
           (''env.json'', aw_env_json W (as_env a))]) (\<lambda>_. give a)) s = (r, s')"
  using assms
  by (auto simp: session_begin_def Let_def and_then_def give_def write_plan_def write_machine_def write_env_def
      session_of_def split: prod.splits sum.splits)

lemma finalise_writes:
  "as_writer a = Some w \<Longrightarrow>
     session_finalise W a sm runs p time comment pick =
       write_docs w [(''env.json'', aw_env_json W (env_set_ended W (as_env a))),
         (''result.json'', aw_result_json W ((to_export (aw_query W) sm)\<lparr>ex_per_run := runs\<rparr>)),
         (''result.histlog'', aw_histlog W (pick sm p) (as_start_wall a) time (Some comment)),
         (''INDEX.json'', aw_index_json W (session_index a))]"
  by (auto simp: session_finalise_def fun_eq_iff and_then_def give_def write_env_def write_result_def write_histlog_def
      writer_finalise_def split: prod.splits sum.splits)

text \<open>A whole session writes its documents one after the other.\<close>

lemma archive_run_writes:
  assumes "archive_run W p t resolved context skipped overload features version sm runs time comment pick s = Some (r, s')"
    "url_fingerprint (aw_fp W) p t FamilyAuto = Some url_fp"
    "run_id (aw_fp W) (plan_hash (aw_fp W) p) (target_fingerprint (aw_fp W) t resolved (plan_hash (aw_fp W) p))
       (aw_start_wall W) = Some rid"
    "a = session_of W (Some (run_dir (archive_resolve (aw_var W)) url_fp rid))
       (session_env W resolved context skipped overload features version) (plan_hash (aw_fp W) p) url_fp
       (target_fingerprint (aw_fp W) t resolved (plan_hash (aw_fp W) p)) rid"
  shows "and_then (writer_begin (archive_resolve (aw_var W)) url_fp rid)
      (\<lambda>w. write_docs w (archive_docs W a p sm runs time comment pick)) s = (r, s')"
proof -
  obtain rb sb where b: "session_begin W p t resolved False context skipped overload features version s = Some (rb, sb)"
    using assms(1) by (auto simp: archive_run_def split: option.splits)
  note bw = begin_writes [OF b assms(2,3)]
  let ?docs = "[(''plan.json'', aw_plan_json W p), (''machine.json'', aw_machine_json W (aw_machine W)),
     (''env.json'', aw_env_json W (as_env a))]"
  obtain x s1 where w: "writer_begin (archive_resolve (aw_var W)) url_fp rid s = (x, s1)" by fastforce
  show ?thesis
  proof (cases x)
    case (Inl e)
    then have "rb = Inl e" "sb = s1" using bw w by (simp_all add: and_then_def)
    then show ?thesis using assms(1) b w Inl by (simp add: archive_run_def and_then_def)
  next
    case (Inr dir)
    then have dir: "dir = run_dir (archive_resolve (aw_var W)) url_fp rid"
      using w by (metis writer_begin_ran Inl_Inr_False sum.inject(2))
    have aw: "as_writer a = Some dir" using assms(4) dir by (simp add: session_of_def)
    have sb: "and_then (write_docs dir ?docs) (\<lambda>_. give a) s1 = (rb, sb)"
      using bw w Inr by (simp add: and_then_def Let_def assms(4) dir)
    obtain y s2 where y: "write_docs dir ?docs s1 = (y, s2)" by fastforce
    have split: "archive_docs W a p sm runs time comment pick = ?docs @
       [(''env.json'', aw_env_json W (env_set_ended W (as_env a))),
         (''result.json'', aw_result_json W ((to_export (aw_query W) sm)\<lparr>ex_per_run := runs\<rparr>)),
         (''result.histlog'', aw_histlog W (pick sm p) (as_start_wall a) time (Some comment)),
         (''INDEX.json'', aw_index_json W (session_index a))]"
      by (simp add: archive_docs_def)
    have "write_docs dir (archive_docs W a p sm runs time comment pick) s1 = (r, s')"
      unfolding split write_docs_append
      using sb y assms(1) b finalise_writes [OF aw, of W sm runs p time comment pick]
      by (cases y) (auto simp: and_then_def give_def archive_run_def simp del: write_docs.simps append.simps)
    then show ?thesis using w Inr by (simp add: and_then_def)
  qed
qed

lemma after_docs_from: "after_docs v ws name = Some b \<Longrightarrow> v name = Some b \<or> (name, b) \<in> set ws"
  by (induction ws arbitrary: v) (fastforce split: if_splits)+

lemma writable_docs: "(name, b) \<in> set (writable docs) \<Longrightarrow> (name, Inr b) \<in> set docs"
  by (induction docs rule: writable.induct) auto

lemma writable_names: "map fst (writable docs) = take (length (writable docs)) (map fst docs)"
  by (induction docs rule: writable.induct) auto

lemma stage_consistent:
  assumes docs: "docs = archive_docs W a p sm runs time comment pick" and i: "i \<le> length (writable docs)"
    and sh: "shows_docs dir d (after_docs Map.empty (take i (writable docs)))"
  shows "archive_consistent dir docs d"
proof -
  have shown: "map_of d (path_join dir name)
      = map_option (\<lambda>b. FileNode b True) (after_docs Map.empty (take i (writable docs)) name)"
    if "name \<in> set archive_names" for name
    using sh that by (simp add: shows_docs_iff)
  have "(name, Inr b) \<in> set docs" if "after_docs Map.empty (take i (writable docs)) name = Some b" for name b
    using after_docs_from [OF that] writable_docs in_set_takeD by fastforce
  then have whole: "case map_of d (path_join dir name) of None \<Rightarrow> True
      | Some n \<Rightarrow> list_ex (\<lambda>(m, doc). m = name \<and> (case doc of Inr b \<Rightarrow> n = FileNode b True | Inl _ \<Rightarrow> False)) docs"
    if "name \<in> set archive_names" for name
    using shown [OF that] by (cases "after_docs Map.empty (take i (writable docs)) name") (force simp: list_ex_iff)+
  have "i = length (writable docs) \<and> length (writable docs) = length docs"
    if present: "map_of d (path_join dir ''INDEX.json'') \<noteq> None"
  proof -
    obtain b where "after_docs Map.empty (take i (writable docs)) ''INDEX.json'' = Some b"
      using present shown [of "''INDEX.json''"]
      by (cases "after_docs Map.empty (take i (writable docs)) ''INDEX.json''") (simp_all add: archive_names_def)
    then have "''INDEX.json'' \<in> set (map fst (take i (writable docs)))" using after_docs_from by force
    moreover have "map fst (take i (writable docs)) = take i (map fst docs)"
    proof -
      have "map fst (take i (writable docs)) = take i (map fst (writable docs))" by (simp add: take_map)
      also have "\<dots> = take i (take (length (writable docs)) (map fst docs))" by (simp only: writable_names [of docs])
      finally show ?thesis using i by (simp add: min_absorb1)
    qed
    moreover have "map fst docs
        = [''plan.json'', ''machine.json'', ''env.json'', ''env.json'', ''result.json'', ''result.histlog'', ''INDEX.json'']"
      by (simp add: docs archive_docs_def)
    ultimately have "6 < i" by (auto simp: take_Cons' split: if_splits)
    moreover have "length (writable docs) \<le> length docs" by (induction docs rule: writable.induct) auto
    ultimately show ?thesis using i by (simp add: docs archive_docs_def)
  qed
  then show ?thesis using whole sh by (fastforce simp: archive_consistent_def list_all_iff)
qed

text \<open>The stages of a session, and what a session without error leaves.\<close>

lemma archive_run_stages:
  assumes "url_fingerprint (aw_fp W) p t FamilyAuto = Some url_fp"
    and "run_id (aw_fp W) (plan_hash (aw_fp W) p) (target_fingerprint (aw_fp W) t resolved (plan_hash (aw_fp W) p))
       (aw_start_wall W) = Some rid"
    and "dir = run_dir (archive_resolve (aw_var W)) url_fp rid"
    and "a = session_of W (Some dir) (session_env W resolved context skipped overload features version)
       (plan_hash (aw_fp W) p) url_fp (target_fingerprint (aw_fp W) t resolved (plan_hash (aw_fp W) p)) rid"
    and "docs = archive_docs W a p sm runs time comment pick"
    and "dir_entries (fs_disk s) dir = []"
    and "archive_run W p t resolved context skipped overload features version sm runs time comment pick s = Some (r, s')"
  shows "\<exists>ops. ran s ops s'
      \<and> (\<forall>k. \<exists>i \<le> length (writable docs). shows_docs dir (foldl apply_op (fs_disk s) (take k ops)) (after_docs Map.empty (take i (writable docs))))
      \<and> (isl r \<or> length (writable docs) = 7 \<and> shows_docs dir (fs_disk s') (after_docs Map.empty (writable docs)))"
proof -
  have run: "and_then (writer_begin (archive_resolve (aw_var W)) url_fp rid) (\<lambda>w. write_docs w docs) s = (r, s')"
    using archive_run_writes [OF assms(7,1,2)] assms(3-5) by simp
  have names: "fst ` set docs \<subseteq> set archive_names" by (auto simp: assms(5) archive_docs_def archive_names_def)
  have len: "length docs = 7" by (simp add: assms(5) archive_docs_def)
  show ?thesis
    using run
  proof (cases rule: and_then_cases)
    case (error e)
    obtain ops where o: "ran s ops s'" "ops = [] \<or> ops = [MakeDirs dir]"
      using error(1) by (cases rule: writer_begin_ran [OF assms(3) error(1)]) auto
    have "shows_docs dir (foldl apply_op (fs_disk s) (take k ops)) Map.empty" for k
      using o(2) shows_nothing [OF assms(6)] shows_made [OF shows_nothing [OF assms(6)]]
      by (auto simp: take_Cons' simp del: apply_op.simps)
    then show ?thesis using o(1) error(2) by (intro exI [of _ ops]) (auto intro!: exI [of _ 0])
  next
    case (ok w s1)
    have w: "w = dir" "ran s [MakeDirs dir] s1"
      using ok(1) by (auto elim: writer_begin_ran [OF assms(3)])
    have bare: "shows_docs dir (fs_disk s) Map.empty" by (rule shows_nothing [OF assms(6)])
    have made: "shows_docs dir (fs_disk s1) Map.empty"
    proof -
      have "fs_disk s1 = apply_op (fs_disk s) (MakeDirs dir)" using w(2) by (simp add: ran_def del: apply_op.simps)
      then show ?thesis using bare by (metis shows_made)
    qed
    obtain ops where o: "ran s1 ops s'"
        "\<And>k. \<exists>i \<le> length (writable docs). shows_docs dir (foldl apply_op (fs_disk s1) (take k ops)) (after_docs Map.empty (take i (writable docs)))"
        "r = Inr () \<longrightarrow> length (writable docs) = length docs \<and> shows_docs dir (fs_disk s') (after_docs Map.empty (writable docs))"
      using write_docs_stages [OF names made ok(2) [unfolded w(1)]] by blast
    have "\<exists>i \<le> length (writable docs). shows_docs dir (foldl apply_op (fs_disk s) (take k ([MakeDirs dir] @ ops)))
        (after_docs Map.empty (take i (writable docs)))" for k
    proof (cases k)
      case 0
      then show ?thesis using bare by (auto intro!: exI [of _ 0])
    next
      case (Suc m)
      then show ?thesis using o(2) [of m] w(2) by (simp add: ran_def del: apply_op.simps)
    qed
    moreover have "isl r \<or> length (writable docs) = 7 \<and> shows_docs dir (fs_disk s') (after_docs Map.empty (writable docs))"
      using o(3) len by (cases r) auto
    ultimately show ?thesis using ran_trans [OF w(2) o(1)] by blast
  qed
qed

lemma archive_complete:
  assumes "url_fingerprint (aw_fp W) p t FamilyAuto = Some url_fp"
    and "run_id (aw_fp W) (plan_hash (aw_fp W) p) (target_fingerprint (aw_fp W) t resolved (plan_hash (aw_fp W) p))
       (aw_start_wall W) = Some rid"
    and "dir = run_dir (archive_resolve (aw_var W)) url_fp rid"
    and "a = session_of W (Some dir) (session_env W resolved context skipped overload features version)
       (plan_hash (aw_fp W) p) url_fp (target_fingerprint (aw_fp W) t resolved (plan_hash (aw_fp W) p)) rid"
    and "archive_run W p t resolved context skipped overload features version sm runs time comment pick s = Some (Inr (), s')"
  obtains b ix where "aw_result_json W ((to_export (aw_query W) sm)\<lparr>ex_per_run := runs\<rparr>) = Inr b"
    "aw_index_json W (session_index a) = Inr ix"
    "map_of (fs_disk s') (path_join dir ''result.json'') = Some (FileNode b True)"
    "map_of (fs_disk s') (path_join dir ''INDEX.json'') = Some (FileNode ix True)"
proof -
  define docs where "docs = archive_docs W a p sm runs time comment pick"
  have "and_then (writer_begin (archive_resolve (aw_var W)) url_fp rid) (\<lambda>w. write_docs w docs) s = (Inr (), s')"
    using archive_run_writes [OF assms(5,1,2)] assms(3,4) docs_def by simp
  then have "dir_entries (fs_disk s) dir = []"
    by (cases rule: and_then_cases) (auto elim: writer_begin_ran [OF assms(3)])
  from archive_run_stages [OF assms(1-4) docs_def this assms(5)]
  have len: "length (writable docs) = 7" and shown: "shows_docs dir (fs_disk s') (after_docs Map.empty (writable docs))"
    by auto
  have names: "map fst (writable docs) = map fst docs" using writable_names [of docs] len by (simp add: docs_def archive_docs_def)
  then obtain b1 b2 b3 b4 b ix h where w: "writable docs = [(''plan.json'', b1), (''machine.json'', b2), (''env.json'', b3),
      (''env.json'', b4), (''result.json'', b), (''result.histlog'', h), (''INDEX.json'', ix)]"
    by (auto simp: docs_def archive_docs_def map_eq_Cons_conv)
  have "(''result.json'', Inr b) \<in> set docs" "(''INDEX.json'', Inr ix) \<in> set docs"
    by (rule writable_docs, simp add: w)+
  then have docs: "Inr b = aw_result_json W ((to_export (aw_query W) sm)\<lparr>ex_per_run := runs\<rparr>)"
      "Inr ix = aw_index_json W (session_index a)" by (simp_all add: docs_def archive_docs_def)
  have "map_of (fs_disk s') (path_join dir ''result.json'') = Some (FileNode b True)"
    "map_of (fs_disk s') (path_join dir ''INDEX.json'') = Some (FileNode ix True)"
    using shown by (simp_all add: shows_docs_iff archive_names_def w)
  then show thesis using that docs [symmetric] by blast
qed

text \<open>
  Property C14. Whenever a session is cut off (the process dies or a call fails after any of its
  file operations, a flushed file keeping its bytes and an unflushed one holding anything), each document
  of the archive is absent or complete, and if the index is there then so are the plan, the machine, the
  final environment, the result and the histogram; a session that ends without error has written them all.
\<close>

theorem archive_crash_safe:
  assumes "url_fingerprint (aw_fp W) p t FamilyAuto = Some url_fp"
    and "run_id (aw_fp W) (plan_hash (aw_fp W) p) (target_fingerprint (aw_fp W) t resolved (plan_hash (aw_fp W) p))
       (aw_start_wall W) = Some rid"
    and "dir = run_dir (archive_resolve (aw_var W)) url_fp rid"
    and "a = session_of W (Some dir) (session_env W resolved context skipped overload features version)
       (plan_hash (aw_fp W) p) url_fp (target_fingerprint (aw_fp W) t resolved (plan_hash (aw_fp W) p)) rid"
    and "docs = archive_docs W a p sm runs time comment pick"
    and "dir_entries (fs_disk s) dir = []"
    and "archive_run W p t resolved context skipped overload features version sm runs time comment pick s = Some (r, s')"
    and "crashed (foldl apply_op (fs_disk s) (take k (drop (length (fs_log s)) (fs_log s')))) d"
  shows "archive_consistent dir docs d
    \<and> (isl r \<or> length (writable docs) = 7 \<and> shows_docs dir (fs_disk s') (after_docs Map.empty (writable docs)))"
proof -
  obtain ops where o: "ran s ops s'"
      "\<exists>i \<le> length (writable docs). shows_docs dir (foldl apply_op (fs_disk s) (take k ops)) (after_docs Map.empty (take i (writable docs)))"
      "isl r \<or> length (writable docs) = 7 \<and> shows_docs dir (fs_disk s') (after_docs Map.empty (writable docs))"
    using archive_run_stages [OF assms(1-7)] by blast
  have "drop (length (fs_log s)) (fs_log s') = ops" using o(1) by (simp add: ran_def)
  then show ?thesis using o(2,3) stage_consistent [OF assms(5)] crashed_docs [OF assms(8)] by metis
qed

lemma crashed_refl: "crashed d d"
proof -
  have "survives n n" for n
  proof (cases n)
    case (FileNode b flushed)
    then show ?thesis by (cases flushed) simp_all
  qed simp
  then show ?thesis by (auto simp: crashed_def list_all2_same)
qed

definition demo_fp :: fp_world where
  "demo_fp = \<lparr>fp_text = \<lambda>_. [], fp_sha256 = \<lambda>_. ''0123456789'', fp_scenarios = \<lambda>_. JNull, fp_vars = \<lambda>_. JNull,
     fp_iso = \<lambda>_. None\<rparr>"

definition demo_query :: "nat list hist_query" where
  "demo_query = \<lparr>hq_len = \<lambda>h. of_nat (length h), hq_min = \<lambda>_. 0, hq_max = \<lambda>_. 0, hq_percentile = \<lambda>_ _. 0,
     hq_mean = \<lambda>_. 0, hq_stdev = \<lambda>_. 0, hq_rate = \<lambda>_ _. 0\<rparr>"

definition demo_archive :: "(unit, nat list) archive_world" where
  "demo_archive = \<lparr>aw_fp = demo_fp, aw_query = demo_query, aw_var = \<lambda>_. None, aw_debug = False, aw_machine = (),
     aw_start_wall = 0, aw_start_clock = 0, aw_end_clock = 0, aw_plan_json = \<lambda>_. Inr ''plan'',
     aw_machine_json = \<lambda>_. Inr ''machine'', aw_env_json = \<lambda>_. Inr ''env'', aw_result_json = \<lambda>_. Inr ''result'',
     aw_index_json = \<lambda>_. Inr ''index'', aw_histlog = \<lambda>_ _ _ _. Inr ''log''\<rparr>"

definition demo_named_plan :: plan where "demo_named_plan = plan_new\<lparr>pl_name := ''demo''\<rparr>"

definition demo_fs :: fs where "demo_fs = \<lparr>fs_disk = [], fs_log = [], fs_answers = []\<rparr>"

definition demo_dir :: string where "demo_dir = run_dir ''.zerobench'' ''0123456789'' ''1970-01-01T00:00:00Z-01234567-01234567''"

definition demo_summary :: "nat list summary" where
  "demo_summary = \<lparr>sm_stats = task_stats_new sample_hist 0, sm_duration = 1\<rparr>"

lemma demo_hashes:
  "url_fingerprint (aw_fp demo_archive) demo_named_plan t FamilyAuto = Some ''0123456789''"
  "plan_hash (aw_fp demo_archive) p = ''0123456789''"
  "target_fingerprint (aw_fp demo_archive) t resolved h = ''0123456789''"
  "run_id (aw_fp demo_archive) ''0123456789'' ''0123456789'' (aw_start_wall demo_archive)
     = Some ''1970-01-01T00:00:00Z-01234567-01234567''"
  "demo_dir = run_dir (archive_resolve (aw_var demo_archive)) ''0123456789'' ''1970-01-01T00:00:00Z-01234567-01234567''"
proof -
  have n: "normalise_iso_utc ''1970-01-01T00:00:00Z'' = ''1970-01-01T00:00:00Z''" by code_simp
  show "run_id (aw_fp demo_archive) ''0123456789'' ''0123456789'' (aw_start_wall demo_archive)
     = Some ''1970-01-01T00:00:00Z-01234567-01234567''"
    by (simp add: run_id_def demo_archive_def demo_fp_def n)
qed (simp_all add: demo_archive_def demo_fp_def demo_named_plan_def url_fingerprint_def url_fingerprint_impl_def
    canonical_sha256_def plan_hash_def target_fingerprint_def demo_dir_def archive_resolve_def)

theorem archive_crash_safe_witness:
  "\<exists>r s'. archive_run demo_archive demo_named_plan demo_target [] [] False False [] [] demo_summary [] 1 []
       (\<lambda>s _. ts_latency (sm_stats s)) demo_fs = Some (r, s')
     \<and> archive_consistent demo_dir (archive_docs demo_archive
          (session_of demo_archive (Some demo_dir) (session_env demo_archive [] [] False False [] []) ''0123456789''
             ''0123456789'' ''0123456789'' ''1970-01-01T00:00:00Z-01234567-01234567'')
          demo_named_plan demo_summary [] 1 [] (\<lambda>s _. ts_latency (sm_stats s)))
        (foldl apply_op [] (take 5 (fs_log s')))"
proof -
  have "session_begin demo_archive demo_named_plan demo_target [] False [] False False [] [] demo_fs \<noteq> None"
    by (simp add: session_begin_def Let_def demo_hashes)
  then obtain r s' where run: "archive_run demo_archive demo_named_plan demo_target [] [] False False [] []
      demo_summary [] 1 [] (\<lambda>s _. ts_latency (sm_stats s)) demo_fs = Some (r, s')"
    by (fastforce simp: archive_run_def split: sum.splits)
  have empty: "dir_entries (fs_disk demo_fs) demo_dir = []" by (simp add: demo_fs_def dir_entries_def)
  show ?thesis
    using archive_crash_safe [OF demo_hashes(1) _ demo_hashes(5) refl refl empty run crashed_refl, of 5] run
    by (simp add: demo_hashes) (simp add: demo_fs_def)
qed

section \<open>Two sessions at once\<close>

text \<open>Without failures of the system nothing fails.\<close>

lemma write_file_quiet:
  assumes "fs_answers s = []"
  obtains s' where "write_file dir name b s = (Inr (), s')" "fs_answers s' = []"
  using assms
  by (simp add: write_file_def and_then_def fs_call_def issue_def file_create_def file_write_all_def
      file_sync_all_def fs_rename_def Let_def)

lemma writable_all: "list_all (\<lambda>x. \<not> isl (snd x)) docs \<Longrightarrow> length (writable docs) = length docs"
  by (induction docs rule: writable.induct) auto

lemma write_docs_quiet:
  assumes "fs_answers s = []" "length (writable docs) = length docs"
  obtains s' where "write_docs dir docs s = (Inr (), s')" "fs_answers s' = []"
  using assms
proof (induction docs arbitrary: s thesis rule: writable.induct)
  case (2 name b docs)
  obtain s1 where s1: "write_file dir name b s = (Inr (), s1)" "fs_answers s1 = []"
    using write_file_quiet [OF 2(3)] .
  obtain s2 where "write_docs dir docs s1 = (Inr (), s2)" "fs_answers s2 = []"
    using 2(1) [OF _ s1(2)] 2(4) by auto
  then show ?case using 2(2) s1(1) by (simp add: write_doc_def io_of_def and_then_def)
qed (simp_all add: give_def)

lemma session_begins:
  assumes "url_fingerprint (aw_fp W) p t FamilyAuto = Some url_fp"
    "run_id (aw_fp W) (plan_hash (aw_fp W) p) (target_fingerprint (aw_fp W) t resolved (plan_hash (aw_fp W) p))
       (aw_start_wall W) = Some rid"
    "dir_entries (fs_disk s) (run_dir (archive_resolve (aw_var W)) url_fp rid) = []" "fs_answers s = []"
    "\<not> isl (aw_plan_json W p)" "\<not> isl (aw_machine_json W (aw_machine W))" "\<And>env. \<not> isl (aw_env_json W env)"
  obtains a s1 where
    "session_begin W p t resolved False context skipped overload features version s = Some (Inr a, s1)"
    "fs_answers s1 = []" "as_writer a = Some (run_dir (archive_resolve (aw_var W)) url_fp rid)"
proof -
  define dir where "dir = run_dir (archive_resolve (aw_var W)) url_fp rid"
  obtain r s1 where b: "session_begin W p t resolved False context skipped overload features version s = Some (r, s1)"
    using assms(1,2) by (fastforce simp: session_begin_def Let_def)
  obtain x s0 where w: "writer_begin (archive_resolve (aw_var W)) url_fp rid s = (x, s0)" by fastforce
  have x: "x = Inr dir"
    by (cases rule: writer_begin_ran [OF dir_def w]) (use assms(3,4) dir_def in auto)
  have quiet: "fs_answers s0 = []"
    using w assms(4) by (auto simp: writer_begin_def Let_def and_then_def create_dir_all_def read_dir_some_def fs_call_def
        issue_def give_error_def give_def split: if_splits)
  let ?a = "session_of W (Some dir) (session_env W resolved context skipped overload features version)
      (plan_hash (aw_fp W) p) url_fp (target_fingerprint (aw_fp W) t resolved (plan_hash (aw_fp W) p)) rid"
  let ?docs = "[(''plan.json'', aw_plan_json W p), (''machine.json'', aw_machine_json W (aw_machine W)),
      (''env.json'', aw_env_json W (as_env ?a))]"
  have "length (writable ?docs) = length ?docs"
    by (rule writable_all) (use assms(5-7) in simp)
  then obtain s2 where s2: "write_docs dir ?docs s0 = (Inr (), s2)" "fs_answers s2 = []"
    using write_docs_quiet [OF quiet] by metis
  then have "r = Inr ?a" "s1 = s2"
    using begin_writes [OF b assms(1,2)] w x by (simp_all add: and_then_def Let_def give_def del: write_docs.simps)
  then show thesis using that b s2(2) by (simp add: session_of_def dir_def)
qed

definition same_identity :: "plan \<Rightarrow> plan \<Rightarrow> bool" where
  "same_identity p q = (pl_scenarios p = pl_scenarios q \<and> pl_vars p = pl_vars q \<and> pl_name p = pl_name q)"

lemma same_identity_hashes:
  "same_identity p q \<Longrightarrow> plan_hash F q = plan_hash F p"
  "same_identity p q \<Longrightarrow> url_fingerprint F q t family = url_fingerprint F p t family"
  by (simp_all add: same_identity_def plan_hash_def identity_projection_def url_fingerprint_def)

lemma run_id_second:
  "t div 1000000000 = t' div 1000000000 \<Longrightarrow> run_id F h g t = run_id F h g t'"
  by (simp add: run_id_def)



end
