(* ===== verification/SelfCheck.thy ===== *)
theory SelfCheck
  imports Export
begin

text \<open>
  The client self-check, \<open>zerobench-runtime/src/calibrate.rs\<close>, and the gate \<open>calibrate\<close> of \<open>runner.rs\<close>: the
  loopback echo server with its event loop, the open-loop client that drives it, and the verdict. What the
  sockets, the poll and the clock answer is given for every call; the three floating-point operations are
  a parameter. Times are nanoseconds.
\<close>

section \<open>The echo server\<close>

datatype echo_read_answer = ErData bytes | ErBlock | ErIntr | ErFail

datatype echo_write_answer = EwTook nat | EwBlock | EwIntr | EwFail

text \<open>
  A connection: the bytes still to be echoed and whether it waits to become writable. \<open>eh_in\<close> and \<open>eh_out\<close>
  are what the peer has sent and got back.
\<close>

record echo_conn =
  eh_pending :: bytes
  eh_writable :: bool
  eh_in :: bytes
  eh_out :: bytes

definition echo_new :: echo_conn where
  "echo_new = \<lparr>eh_pending = [], eh_writable = False, eh_in = [], eh_out = []\<rparr>"

text \<open>The results of the reads and writes of one event, and of its re-registrations.\<close>

record echo_io =
  ei_reads :: "echo_read_answer list"
  ei_writes :: "echo_write_answer list"
  ei_registers :: bool
  ei_writes2 :: "echo_write_answer list"
  ei_registers2 :: bool

text \<open>The loops of reading and writing; \<open>False\<close> is an error, after which the connection is dropped.\<close>

fun echo_fill :: "echo_read_answer list \<Rightarrow> echo_conn \<Rightarrow> echo_conn \<times> bool" where
  "echo_fill [] c = (c, True)"
| "echo_fill (ErData b # rs) c =
     (if b = [] then (c, False)
      else echo_fill rs (c\<lparr>eh_pending := eh_pending c @ b, eh_in := eh_in c @ b\<rparr>))"
| "echo_fill (ErBlock # rs) c = (c, True)"
| "echo_fill (ErIntr # rs) c = echo_fill rs c"
| "echo_fill (ErFail # rs) c = (c, False)"

fun echo_flush :: "echo_write_answer list \<Rightarrow> echo_conn \<Rightarrow> echo_conn \<times> bool" where
  "echo_flush [] c = (c, True)"
| "echo_flush (w # ws) c =
     (if eh_pending c = [] then (c, True)
      else (case w of
          EwTook n \<Rightarrow>
            (if n = 0 then (c, False)
             else echo_flush ws (c\<lparr>eh_pending := drop n (eh_pending c), eh_out := eh_out c @ take n (eh_pending c)\<rparr>))
        | EwBlock \<Rightarrow> (c, True)
        | EwIntr \<Rightarrow> echo_flush ws c
        | EwFail \<Rightarrow> (c, False)))"

definition echo_write :: "echo_write_answer list \<Rightarrow> bool \<Rightarrow> echo_conn \<Rightarrow> echo_conn \<times> bool" where
  "echo_write ws registers c =
     (case echo_flush ws c of
        (c', False) \<Rightarrow> (c', False)
      | (c', True) \<Rightarrow>
          (let want_writable = eh_pending c' \<noteq> [] in
           if want_writable \<noteq> eh_writable c' then
             (if registers then (c'\<lparr>eh_writable := want_writable\<rparr>, True) else (c', False))
           else (c', True)))"

definition echo_read :: "echo_read_answer list \<Rightarrow> echo_write_answer list \<Rightarrow> bool \<Rightarrow> echo_conn \<Rightarrow> echo_conn \<times> bool" where
  "echo_read rs ws registers c =
     (case echo_fill rs c of
        (c', False) \<Rightarrow> (c', False)
      | (c', True) \<Rightarrow> if eh_pending c' \<noteq> [] then echo_write ws registers c' else (c', True))"

text \<open>
  An event: the listener with the connections it accepts until it would block (whether each one could be
  registered), or a connection with its readiness.
\<close>

datatype echo_event = OnListener "bool list" | OnConn u64 bool bool echo_io

record echo_server =
  es_conns :: "(u64 \<times> echo_conn) list"
  es_next_token :: u64

fun accept_all :: "bool list \<Rightarrow> echo_server \<Rightarrow> echo_server" where
  "accept_all [] s = s"
| "accept_all (registered # as) s =
     (let token = es_next_token s; s' = s\<lparr>es_next_token := token + 1\<rparr> in
      accept_all as (if registered then s'\<lparr>es_conns := (token, echo_new) # filter (\<lambda>e. fst e \<noteq> token) (es_conns s')\<rparr> else s'))"

fun echo_event_step :: "echo_event \<Rightarrow> echo_server \<Rightarrow> echo_server" where
  "echo_event_step (OnListener as) s = accept_all as s"
| "echo_event_step (OnConn token readable writable io) s =
     (case map_of (es_conns s) token of
        None \<Rightarrow> s
      | Some c \<Rightarrow>
          (let (c1, ok1) = (if readable then echo_read (ei_reads io) (ei_writes io) (ei_registers io) c else (c, True));
               (c2, ok2) = (if ok1 \<and> writable then echo_write (ei_writes2 io) (ei_registers2 io) c1 else (c1, ok1));
               others = filter (\<lambda>e. fst e \<noteq> token) (es_conns s)
           in s\<lparr>es_conns := if ok2 then (token, c2) # others else others\<rparr>))"

text \<open>Turns of the loop until the stop flag is seen, or the poll fails.\<close>

datatype echo_poll = PollEvents "echo_event list" | PollInterrupted | PollFailed

fun echo_turns :: "echo_poll list \<Rightarrow> echo_server \<Rightarrow> echo_server \<times> bool" where
  "echo_turns [] s = (s, True)"
| "echo_turns (PollEvents evs # ps) s = echo_turns ps (fold echo_event_step evs s)"
| "echo_turns (PollInterrupted # ps) s = echo_turns ps s"
| "echo_turns (PollFailed # ps) s = (s, False)"

definition run_echo_loop :: "echo_poll list \<Rightarrow> echo_server \<times> bool" where
  "run_echo_loop polls =
     (case echo_turns polls \<lparr>es_conns = [], es_next_token = 0\<rparr> of
        (s, True) \<Rightarrow> (s\<lparr>es_conns := []\<rparr>, True)
      | (s, False) \<Rightarrow> (s, False))"

section \<open>The client\<close>

datatype nb_end = NbOk | NbErr | NbPending

text \<open>A poll: an error, or events with token, error flag and readiness.\<close>

datatype wait_poll = WaitPollErr | WaitEvents "(nat \<times> bool \<times> bool \<times> bool) list"

fun wait_events :: "nat \<Rightarrow> bool \<Rightarrow> (nat \<times> bool \<times> bool \<times> bool) list \<Rightarrow> nb_end" where
  "wait_events token reading [] = NbPending"
| "wait_events token reading ((tk, is_error, readable, writable) # evs) =
     (if tk \<noteq> token then wait_events token reading evs
      else if is_error then NbErr
      else if (if reading then readable else writable) then NbOk
      else wait_events token reading evs)"

fun wait_for_interest :: "nat \<Rightarrow> bool \<Rightarrow> instant \<Rightarrow> (instant \<times> wait_poll) list \<Rightarrow> nb_end" where
  "wait_for_interest token reading deadline [] = NbPending"
| "wait_for_interest token reading deadline ((now, p) # ps) =
     (if deadline \<le> now then NbErr
      else (case p of
          WaitPollErr \<Rightarrow> NbErr
        | WaitEvents evs \<Rightarrow>
            (case wait_events token reading evs of
               NbPending \<Rightarrow> wait_for_interest token reading deadline ps
             | e \<Rightarrow> e)))"

text \<open>A blocked call begins its wait at a time, with half a second to go.\<close>

datatype nb_answer = NbTook nat | NbBlock instant "(instant \<times> wait_poll) list" | NbIntr | NbFail

definition WAIT_MS :: duration where "WAIT_MS = 500 * 1000000"

text \<open>\<open>nb_write_all\<close> and \<open>nb_read_exact\<close> differ in the interest they wait for.\<close>

fun nb_all :: "nat \<Rightarrow> bool \<Rightarrow> nat \<Rightarrow> nat \<Rightarrow> nb_answer list \<Rightarrow> nb_end" where
  "nb_all token reading len got answers =
     (if len \<le> got then NbOk
      else (case answers of
          [] \<Rightarrow> NbPending
        | NbTook n # as \<Rightarrow> if n = 0 then NbErr else nb_all token reading len (got + n) as
        | NbBlock t polls # as \<Rightarrow>
            (case wait_for_interest token reading (t + WAIT_MS) polls of
               NbOk \<Rightarrow> nb_all token reading len got as | e \<Rightarrow> e)
        | NbIntr # as \<Rightarrow> nb_all token reading len got as
        | NbFail # as \<Rightarrow> NbErr))"

definition nb_write_all :: "nat \<Rightarrow> nat \<Rightarrow> nb_answer list \<Rightarrow> nb_end" where
  "nb_write_all token len answers = nb_all token False len 0 answers"

definition nb_read_exact :: "nat \<Rightarrow> nat \<Rightarrow> nb_answer list \<Rightarrow> nb_end" where
  "nb_read_exact token len answers = nb_all token True len 0 answers"

text \<open>Waiting until every connection of the pool is open: index, error flag, writability and peer address.\<close>

datatype peer_result = PeerKnown | PeerPending | PeerFailed

fun connect_events :: "(nat \<times> bool \<times> bool \<times> peer_result) list \<Rightarrow> bool list \<times> nat \<Rightarrow> (bool list \<times> nat) option" where
  "connect_events [] s = Some s"
| "connect_events ((idx, is_error, writable, peer) # evs) (ready, n) =
     (if length ready \<le> idx \<or> ready ! idx then connect_events evs (ready, n)
      else if is_error then None
      else if writable then
        (case peer of
           PeerKnown \<Rightarrow> connect_events evs (ready[idx := True], n + 1)
         | PeerPending \<Rightarrow> connect_events evs (ready, n)
         | PeerFailed \<Rightarrow> None)
      else connect_events evs (ready, n))"

fun connect_loop ::
  "instant \<Rightarrow> (instant \<times> (nat \<times> bool \<times> bool \<times> peer_result) list option) list \<Rightarrow> bool list \<times> nat \<Rightarrow> nb_end" where
  "connect_loop deadline polls s =
     (if length (fst s) \<le> snd s then NbOk
      else (case polls of
          [] \<Rightarrow> NbPending
        | (now, p) # ps \<Rightarrow>
            (if deadline \<le> now then NbErr
             else (case p of
                 None \<Rightarrow> NbErr
               | Some evs \<Rightarrow> (case connect_events evs s of None \<Rightarrow> NbErr | Some s' \<Rightarrow> connect_loop deadline ps s')))))"

definition wait_connected ::
  "nat \<Rightarrow> instant \<Rightarrow> (instant \<times> (nat \<times> bool \<times> bool \<times> peer_result) list option) list \<Rightarrow> nb_end" where
  "wait_connected pool_size t polls = connect_loop (t + 5000000000) polls (replicate pool_size False, 0)"

section \<open>The check\<close>

text \<open>
  One turn of the loop: the clock at its top, after the sleep, the answers to the write and the read, and
  the measured time of the request.
\<close>

record check_turn =
  kt_now :: instant
  kt_actual :: instant
  kt_write :: "nb_answer list"
  kt_read :: "nb_answer list"
  kt_elapsed :: duration

record 'h check_state =
  ks_latency :: 'h
  ks_jitter :: 'h
  ks_completed :: u64
  ks_intended_ns :: nat
  ks_pool_idx :: nat
  ks_req_id :: u64
  ks_starts :: "instant list"

definition U64_MAX :: nat where "U64_MAX = 2 ^ 64 - 1"

definition clamp_hist :: "nat \<Rightarrow> nat" where
  "clamp_hist n = min (max n HIST_LO_NS) HIST_HI_NS"

text \<open>How long the client sleeps when it is ahead of the schedule.\<close>

definition check_sleep :: "instant \<Rightarrow> instant \<Rightarrow> duration" where
  "check_sleep now intended_start =
     (if now < intended_start \<and> 1000 < intended_start - now then intended_start - now else 0)"

definition check_state_new :: "'h hist_ops \<Rightarrow> 'h check_state" where
  "check_state_new H =
     \<lparr>ks_latency = new_hist H, ks_jitter = new_hist H, ks_completed = 0, ks_intended_ns = 0, ks_pool_idx = 0,
      ks_req_id = 0, ks_starts = []\<rparr>"

text \<open>One request, up to its end; \<open>ks_starts\<close> lists when the requests were started.\<close>

definition check_step :: "'h hist_ops \<Rightarrow> nat \<Rightarrow> nat \<Rightarrow> instant \<Rightarrow> check_turn \<Rightarrow> 'h check_state \<Rightarrow> 'h check_state \<times> nb_end" where
  "check_step H pool_size interval_ns start t s =
     (let drift_ns = (kt_actual t - start - ks_intended_ns s) mod 2 ^ 64;
          token = ks_pool_idx s;
          s1 = s\<lparr>ks_jitter := h_record H (ks_jitter s) (clamp_hist drift_ns),
                 ks_pool_idx := (ks_pool_idx s + 1) mod pool_size, ks_req_id := ks_req_id s + 1,
                 ks_starts := ks_starts s @ [kt_actual t]\<rparr>
      in case nb_write_all token 8 (kt_write t) of
           NbOk \<Rightarrow>
             (case nb_read_exact token 8 (kt_read t) of
                NbOk \<Rightarrow>
                  (s1\<lparr>ks_latency := h_record H (ks_latency s1) (clamp_hist (kt_elapsed t mod 2 ^ 64)),
                      ks_completed := ks_completed s1 + 1,
                      ks_intended_ns := min (ks_intended_ns s1 + interval_ns) U64_MAX\<rparr>, NbOk)
              | e \<Rightarrow> (s1, e))
         | e \<Rightarrow> (s1, e))"

text \<open>\<open>NbPending\<close>: the turns are used up and the loop has not ended.\<close>

fun check_loop ::
  "'h hist_ops \<Rightarrow> nat \<Rightarrow> nat \<Rightarrow> instant \<Rightarrow> instant \<Rightarrow> check_turn list \<Rightarrow> 'h check_state \<Rightarrow> 'h check_state \<times> nb_end" where
  "check_loop H pool_size interval_ns start end_at [] s = (s, NbPending)"
| "check_loop H pool_size interval_ns start end_at (t # ts) s =
     (if end_at \<le> kt_now t then (s, NbOk)
      else (case check_step H pool_size interval_ns start t s of
              (s', NbOk) \<Rightarrow> check_loop H pool_size interval_ns start end_at ts s'
            | (s', NbErr) \<Rightarrow> (s', NbErr)
            | (s', NbPending) \<Rightarrow> (s', NbPending)))"

datatype verdict = VPass | VMarginal | VRefuse

text \<open>The rate that was sustained is not negative, so its bit pattern is ordered like its value.\<close>

definition verdict_from_sustained :: "f64 \<Rightarrow> verdict" where
  "verdict_from_sustained x =
     (if 0x3FEFAE147AE147AE \<le> x then VPass else if 0x3FEE666666666666 \<le> x then VMarginal else VRefuse)"

record 'h self_check =
  kr_offered_rate :: f64
  kr_achieved_rate :: f64
  kr_sustained_pct :: f64
  kr_latency :: 'h
  kr_jitter :: 'h
  kr_completed :: u64
  kr_elapsed :: duration
  kr_verdict :: verdict

record check_arith =
  ka_interval_ns :: "f64 \<Rightarrow> nat"
  ka_achieved :: "u64 \<Rightarrow> duration \<Rightarrow> f64"
  ka_sustained :: "f64 \<Rightarrow> f64 \<Rightarrow> f64"

text \<open>
  The surroundings of a check: whether the server started, the pool connected (creation of each socket and
  the wait for all), the clock at the start, the turns, and the clock at the end.
\<close>

record check_env =
  kv_spawned :: bool
  kv_sockets :: "nat \<Rightarrow> bool"
  kv_connect_at :: instant
  kv_connect :: "(instant \<times> (nat \<times> bool \<times> bool \<times> peer_result) list option) list"
  kv_start :: instant
  kv_turns :: "check_turn list"
  kv_end :: instant

text \<open>
  A check ends with an error of the operating system, with its result, or not; the outer option is the
  panic of its two assertions. An error inside the loop only ends it.
\<close>

datatype 'h check_outcome = CheckIoError | CheckDone "'h self_check" | CheckPending

definition client_check ::
  "'h hist_ops \<Rightarrow> check_arith \<Rightarrow> check_env \<Rightarrow> f64 \<Rightarrow> duration \<Rightarrow> nat option \<Rightarrow> 'h check_outcome option" where
  "client_check H A E rate dur pool =
     (if \<not> (0 < rate \<and> rate \<le> 0x7FF0000000000000) \<or> dur = 0 then None
      else Some (let pool_size = max (case pool of None \<Rightarrow> 8 | Some n \<Rightarrow> n) 1 in
        if \<not> list_all (kv_sockets E) [0..<pool_size] then CheckIoError
        else (case wait_connected pool_size (kv_connect_at E) (kv_connect E) of
            NbErr \<Rightarrow> CheckIoError
          | NbPending \<Rightarrow> CheckPending
          | NbOk \<Rightarrow>
              (case check_loop H pool_size (ka_interval_ns A rate) (kv_start E) (kv_start E + dur) (kv_turns E)
                      (check_state_new H) of
                 (s, NbPending) \<Rightarrow> CheckPending
               | (s, _) \<Rightarrow>
                   (let elapsed = kv_end E - kv_start E; achieved = ka_achieved A (ks_completed s) elapsed;
                        sustained = ka_sustained A achieved rate
                    in CheckDone \<lparr>kr_offered_rate = rate, kr_achieved_rate = achieved, kr_sustained_pct = sustained,
                         kr_latency = ks_latency s, kr_jitter = ks_jitter s, kr_completed = ks_completed s,
                         kr_elapsed = elapsed, kr_verdict = verdict_from_sustained sustained\<rparr>)))))"

section \<open>The gate\<close>

definition JITTER_P99_FLOOR_NS :: u64 where "JITTER_P99_FLOOR_NS = 5000"

record calibration_report =
  cr_achieved_rate :: f64
  cr_target_rate :: f64
  cr_verdict :: verdict
  cr_jitter_p99_ns :: u64
  cr_poisoned :: bool

datatype calibrate_error = CalSpawn | CalCheck | CalNoSamples | CalRate | CalJitter

text \<open>What the gate makes of a result.\<close>

definition calibrate_gate :: "'h hist_query \<Rightarrow> f64 \<Rightarrow> bool \<Rightarrow> 'h self_check \<Rightarrow> calibrate_error + calibration_report" where
  "calibrate_gate Q target_rate force_overload result =
     (if hq_len Q (kr_jitter result) = 0 then Inl CalNoSamples
      else
        (let jitter_p99 = hq_percentile Q (kr_jitter result) P99 in
         if kr_verdict result = VRefuse \<and> \<not> force_overload then Inl CalRate
         else if JITTER_P99_FLOOR_NS < jitter_p99 \<and> \<not> force_overload then Inl CalJitter
         else Inr \<lparr>cr_achieved_rate = kr_achieved_rate result, cr_target_rate = target_rate,
                   cr_verdict = kr_verdict result, cr_jitter_p99_ns = jitter_p99,
                   cr_poisoned = (kr_verdict result = VRefuse \<or> JITTER_P99_FLOOR_NS < jitter_p99)\<rparr>))"

datatype calibrate_outcome = CalResult "calibrate_error + calibration_report" | CalPending

definition calibrate ::
  "'h hist_ops \<Rightarrow> 'h hist_query \<Rightarrow> check_arith \<Rightarrow> check_env \<Rightarrow> f64 \<Rightarrow> duration \<Rightarrow> bool \<Rightarrow> calibrate_outcome option" where
  "calibrate H Q A E target_rate dur force_overload =
     (if \<not> kv_spawned E then Some (CalResult (Inl CalSpawn))
      else map_option (\<lambda>r. case r of
               CheckIoError \<Rightarrow> CalResult (Inl CalCheck)
             | CheckPending \<Rightarrow> CalPending
             | CheckDone result \<Rightarrow> CalResult (calibrate_gate Q target_rate force_overload result))
           (client_check H A E target_rate dur None))"

section \<open>The echo is faithful\<close>

definition echo_balanced :: "echo_conn \<Rightarrow> bool" where
  "echo_balanced c = (eh_in c = eh_out c @ eh_pending c)"

definition echo_ok :: "echo_conn \<Rightarrow> bool" where
  "echo_ok c = (echo_balanced c \<and> (eh_writable c \<longleftrightarrow> eh_pending c \<noteq> []))"

lemma echo_fill_balanced:
  assumes "echo_fill rs c = (c', ok)" "echo_balanced c"
  shows "echo_balanced c' \<and> eh_writable c' = eh_writable c \<and> (eh_pending c' = [] \<longrightarrow> eh_pending c = [])"
  using assms
proof (induction rs c rule: echo_fill.induct)
  case (2 b rs c)
  show ?case
  proof (cases "b = []")
    case False
    then show ?thesis using 2 by (auto simp: echo_balanced_def)
  qed (use 2 in simp)
qed simp_all

lemma echo_flush_balanced:
  assumes "echo_flush ws c = (c', ok)" "echo_balanced c"
  shows "echo_balanced c' \<and> eh_writable c' = eh_writable c"
  using assms
proof (induction ws arbitrary: c)
  case (Cons w ws)
  show ?case
  proof (cases "eh_pending c = []")
    case False
    have "echo_balanced (c\<lparr>eh_pending := drop n (eh_pending c), eh_out := eh_out c @ take n (eh_pending c)\<rparr>)" for n
      using Cons.prems(2) by (simp add: echo_balanced_def)
    then show ?thesis
      using Cons False by (cases w) (fastforce split: if_splits)+
  qed (use Cons in simp)
qed simp

lemma echo_write_ok:
  assumes "echo_write ws r c = (c', True)" "echo_balanced c"
  shows "echo_ok c'"
proof -
  obtain c1 ok where f: "echo_flush ws c = (c1, ok)" by fastforce
  show ?thesis
    using assms(1) echo_flush_balanced [OF f assms(2)] f
    by (cases ok) (auto simp: echo_write_def Let_def echo_ok_def echo_balanced_def split: if_splits)
qed

lemma echo_read_ok:
  assumes "echo_read rs ws r c = (c', True)" "echo_ok c"
  shows "echo_ok c'"
proof -
  obtain c1 ok where f: "echo_fill rs c = (c1, ok)" by fastforce
  have "echo_balanced c" using assms(2) by (simp add: echo_ok_def)
  note b = echo_fill_balanced [OF f this]
  show ?thesis
    using assms f b echo_write_ok [of ws r c1 c']
    by (cases ok; cases "eh_pending c1 = []") (auto simp: echo_read_def echo_ok_def)
qed

definition server_ok :: "echo_server \<Rightarrow> bool" where
  "server_ok s = list_all (\<lambda>(token, c). echo_ok c) (es_conns s)"

lemma server_ok_others: "list_all (\<lambda>(token, c). echo_ok c) cs \<Longrightarrow> list_all (\<lambda>(token, c). echo_ok c) (filter P cs)"
  by (auto simp: list_all_iff)

lemma accept_all_ok: "server_ok s \<Longrightarrow> server_ok (accept_all as s)"
proof (induction as s rule: accept_all.induct)
  case (2 registered as s)
  have "echo_ok echo_new" by (simp add: echo_ok_def echo_balanced_def echo_new_def)
  then show ?case using 2 by (auto simp: Let_def server_ok_def server_ok_others)
qed simp

lemma echo_event_ok:
  assumes "server_ok s"
  shows "server_ok (echo_event_step ev s)"
proof (cases ev)
  case (OnListener as)
  then show ?thesis using accept_all_ok [OF assms] by simp
next
  case (OnConn token readable writable io)
  show ?thesis
  proof (cases "map_of (es_conns s) token")
    case (Some c)
    have c: "echo_ok c" using assms map_of_SomeD [OF Some] by (auto simp: server_ok_def list_all_iff)
    obtain c1 ok1 where r: "(if readable then echo_read (ei_reads io) (ei_writes io) (ei_registers io) c else (c, True)) = (c1, ok1)"
      by fastforce
    obtain c2 ok2 where w: "(if ok1 \<and> writable then echo_write (ei_writes2 io) (ei_registers2 io) c1 else (c1, ok1)) = (c2, ok2)"
      by fastforce
    have "ok1 \<Longrightarrow> echo_ok c1" using r c echo_read_ok by (auto split: if_splits)
    then have "ok2 \<Longrightarrow> echo_ok c2" using w echo_write_ok by (auto simp: echo_ok_def split: if_splits)
    then show ?thesis using assms Some r w OnConn by (simp add: Let_def server_ok_def server_ok_others)
  qed (use assms OnConn in simp)
qed

text \<open>
  Property C40. However the reads and writes of the loopback server are cut, whatever fails, and however
  the events of its connections interleave, the bytes every open connection has read are those it has
  echoed followed by those still queued, and it waits to become writable exactly when some are queued.
\<close>

theorem echo_faithful:
  "list_all (\<lambda>(token, c). eh_in c = eh_out c @ eh_pending c \<and> (eh_writable c \<longleftrightarrow> eh_pending c \<noteq> []))
     (es_conns (fst (echo_turns polls \<lparr>es_conns = [], es_next_token = 0\<rparr>)))"
proof -
  have events: "server_ok s \<Longrightarrow> server_ok (fold echo_event_step evs s)" for evs s
    by (induction evs arbitrary: s) (simp_all add: echo_event_ok)
  have "server_ok s \<Longrightarrow> server_ok (fst (echo_turns polls s))" for s
    by (induction polls s rule: echo_turns.induct) (simp_all add: events)
  from this [of "\<lparr>es_conns = [], es_next_token = 0\<rparr>"]
  show ?thesis by (simp add: server_ok_def echo_ok_def echo_balanced_def)
qed

section \<open>The pace of the client\<close>

text \<open>The system sleeps at least as long as it is asked to, before each request of the schedule.\<close>

definition slept :: "nat \<Rightarrow> instant \<Rightarrow> nat \<Rightarrow> check_turn \<Rightarrow> bool" where
  "slept interval_ns start i t =
     (kt_now t + check_sleep (kt_now t) (start + min (i * interval_ns) U64_MAX) \<le> kt_actual t)"

definition all_slept :: "nat \<Rightarrow> instant \<Rightarrow> check_turn list \<Rightarrow> bool" where
  "all_slept interval_ns start ts = list_all (\<lambda>i. slept interval_ns start i (ts ! i)) [0..<length ts]"

lemma slept_not_early: "slept interval_ns start i t \<Longrightarrow> start + min (i * interval_ns) U64_MAX \<le> kt_actual t + 1000"
  by (auto simp: slept_def check_sleep_def split: if_splits)

text \<open>What holds before the \<open>n\<close>-th turn.\<close>

definition check_inv :: "('h \<Rightarrow> nat) \<Rightarrow> nat \<Rightarrow> instant \<Rightarrow> nat \<Rightarrow> 'h check_state \<Rightarrow> bool" where
  "check_inv len interval_ns start n s =
     (ks_intended_ns s = min (n * interval_ns) U64_MAX \<and> unat (ks_completed s) = n \<and> len (ks_latency s) = n
      \<and> len (ks_jitter s) = n \<and> length (ks_starts s) = n
      \<and> (\<forall>j < n. start + min (j * interval_ns) U64_MAX \<le> ks_starts s ! j + 1000))"

text \<open>The end of a loop: every request counts a jitter sample, every completed one a latency sample.\<close>

definition check_done :: "('h \<Rightarrow> nat) \<Rightarrow> nat \<Rightarrow> instant \<Rightarrow> 'h check_state \<Rightarrow> nb_end \<Rightarrow> bool" where
  "check_done len interval_ns start s e =
     (len (ks_jitter s) = length (ks_starts s) \<and> len (ks_latency s) = unat (ks_completed s)
      \<and> length (ks_starts s) \<in> {unat (ks_completed s), unat (ks_completed s) + 1}
      \<and> (e \<noteq> NbOk \<or> length (ks_starts s) = unat (ks_completed s))
      \<and> list_all (\<lambda>j. start + min (j * interval_ns) U64_MAX \<le> ks_starts s ! j + 1000) [0..<length (ks_starts s)])"

lemma clamp_hist_range: "HIST_LO_NS \<le> clamp_hist n" "clamp_hist n \<le> HIST_HI_NS"
  by (simp_all add: clamp_hist_def HIST_LO_NS_def HIST_HI_NS_def)

lemma recorded: "hist_ok H len \<Longrightarrow> len (h_record H h (clamp_hist n)) = Suc (len h)"
  using clamp_hist_range by (simp add: hist_ok_def)

lemma check_inv_done: "check_inv len iv start n s \<Longrightarrow> check_done len iv start s e"
  by (auto simp: check_inv_def check_done_def list_all_iff)

lemma check_step_inv:
  assumes "hist_ok H len" "check_inv len iv start n s" "slept iv start n t" "Suc n < 2 ^ 64"
    "check_step H pool iv start t s = (s', e)"
  shows "(e = NbOk \<longrightarrow> check_inv len iv start (Suc n) s') \<and> (e \<noteq> NbOk \<longrightarrow> check_done len iv start s' e)"
proof -
  define s1 where "s1 = s\<lparr>ks_jitter := h_record H (ks_jitter s) (clamp_hist ((kt_actual t - start - ks_intended_ns s) mod 2 ^ 64)),
      ks_pool_idx := (ks_pool_idx s + 1) mod pool, ks_req_id := ks_req_id s + 1, ks_starts := ks_starts s @ [kt_actual t]\<rparr>"
  have early: "\<forall>j < Suc n. start + min (j * iv) U64_MAX \<le> (ks_starts s @ [kt_actual t]) ! j + 1000"
    using assms(2) slept_not_early [OF assms(3)] by (auto simp: check_inv_def nth_append less_Suc_eq)
  have count: "unat (ks_completed s + 1) = Suc n"
    using assms(2,4) by (simp add: check_inv_def unat_word_ariths)
  have next_intended: "min (ks_intended_ns s + iv) U64_MAX = min (Suc n * iv) U64_MAX"
    using assms(2) by (auto simp: check_inv_def min_def)
  consider (all) "nb_write_all (ks_pool_idx s) 8 (kt_write t) = NbOk" "nb_read_exact (ks_pool_idx s) 8 (kt_read t) = NbOk"
    | (part) "e \<noteq> NbOk" "s' = s1"
  proof (cases "nb_write_all (ks_pool_idx s) 8 (kt_write t) = NbOk \<and> nb_read_exact (ks_pool_idx s) 8 (kt_read t) = NbOk")
    case False
    then show ?thesis using that(2) assms(5)
      by (auto simp: check_step_def Let_def s1_def split: nb_end.splits)
  qed (use that(1) in blast)
  then show ?thesis
  proof cases
    case all
    then have "e = NbOk" "check_inv len iv start (Suc n) s'"
      using assms(2,5) early count next_intended recorded [OF assms(1)]
      by (auto simp: check_step_def Let_def check_inv_def simp del: mult_Suc)
    then show ?thesis by simp
  next
    case part
    have "check_done len iv start s1 e"
      using assms(2) early recorded [OF assms(1)] part(1) by (auto simp: check_done_def check_inv_def s1_def list_all_iff)
    then show ?thesis using part by simp
  qed
qed

lemma check_loop_done:
  assumes "hist_ok H len"
  shows "check_inv len iv start n s \<Longrightarrow> n + length ts < 2 ^ 64 \<Longrightarrow> \<forall>i < length ts. slept iv start (n + i) (ts ! i)
    \<Longrightarrow> check_loop H pool iv start end_at ts s = (s', e) \<Longrightarrow> check_done len iv start s' e"
proof (induction ts arbitrary: s n)
  case Nil
  then show ?case using check_inv_done by auto
next
  case (Cons t ts)
  show ?case
  proof (cases "end_at \<le> kt_now t")
    case True
    then show ?thesis using Cons.prems check_inv_done by auto
  next
    case False
    obtain s1 e1 where st: "check_step H pool iv start t s = (s1, e1)" by fastforce
    have "slept iv start n t" using Cons.prems(3) by force
    note inv = check_step_inv [OF assms Cons.prems(1) this _ st]
    have later: "\<forall>i < length ts. slept iv start (Suc n + i) (ts ! i)" using Cons.prems(3) by force
    show ?thesis
    proof (cases "e1 = NbOk")
      case True
      then show ?thesis using Cons.IH [of "Suc n" s1] inv later Cons.prems(2,4) False st by simp
    next
      case notok: False
      then show ?thesis using inv Cons.prems(2,4) False st by (cases e1) auto
    qed
  qed
qed


definition demo_check_turns :: "check_turn list" where
  "demo_check_turns =
     [\<lparr>kt_now = 5, kt_actual = 6, kt_write = [NbTook 8], kt_read = [NbBlock 7 [(8, WaitEvents [(0, False, True, False)])], NbTook 8], kt_elapsed = 9\<rparr>,
      \<lparr>kt_now = 20, kt_actual = 5005, kt_write = [NbFail], kt_read = [], kt_elapsed = 0\<rparr>]"


end
