(* ===== verification/Measure.thy ===== *)
theory Measure
  imports WholeRun Archive SelfCheck
begin

text \<open>
  The verb \<open>measure\<close>, \<open>zerobench-cli/src/verbs/measure.rs\<close>, with the run harness and the labels of
  \<open>runner.rs\<close>: arguments to plan, the gates, the archive, the loop of warm-up, cool-down and runs, the
  summary, and the exit code. The surroundings of every stage are those of its model; printing is left
  out.
\<close>

section \<open>Arguments\<close>

record measure_args =
  ma_url :: string
  ma_name :: "string option"
  ma_duration :: duration
  ma_warmup :: duration
  ma_cooldown :: duration
  ma_runs :: u32
  ma_rate :: "f64 option"
  ma_connections :: nat
  ma_threads :: nat
  ma_connect_timeout :: duration
  ma_request_timeout :: duration
  ma_insecure :: bool
  ma_no_calibrate :: bool
  ma_force_overload :: bool
  ma_allow_coarse_clock :: bool
  ma_no_archive :: bool
  ma_context :: "(string \<times> string) list"
  ma_tui :: bool
  ma_sse_hold :: "u32 option"
  ma_hold_for :: "duration option"
  ma_sse_reconnect :: bool
  ma_ws_echo :: "u32 option"
  ma_ws_msg_rate :: f64
  ma_ws_payload :: string
  ma_cold_connect :: bool
  ma_ws_hold :: "u32 option"
  ma_ws_heartbeat :: "duration option"
  ma_ws_push :: "u32 option"
  ma_ws_expected_rate :: f64
  ma_sse_fanout :: "u32 option"
  ma_ws_fanout :: "u32 option"
  ma_trigger_url :: "string option"
  ma_sse_reconnect_storm :: "u32 option"
  ma_kill_rate :: f64

definition parse_kv_pair :: "string \<Rightarrow> flag_error + (string \<times> string)" where
  "parse_kv_pair s = (case split_once (CHR ''='') s of Some kv \<Rightarrow> Inr kv | None \<Rightarrow> Inl (FlagInvalid s))"

section \<open>The plan\<close>

datatype measure_error =
    MeTui
  | MeTarget target_error
  | MeTemplate template_error
  | MeTrigger string
  | MeResolve resolve_error
  | MeCalibrate calibrate_error
  | MeCoarseClock
  | MeIo io_error

definition measure_builder :: "measure_args \<Rightarrow> string \<Rightarrow> plan_builder" where
  "measure_builder args name = builder_new\<lparr>pb_name := name, pb_duration := ma_duration args,
     pb_warmup := ma_warmup args, pb_cooldown := ma_cooldown args, pb_runs := ma_runs args,
     pb_threads := ma_threads args, pb_mode := Measure\<rparr>"

text \<open>A text compiled in between, and what is made of it.\<close>

definition with_template ::
  "'r world \<Rightarrow> string \<Rightarrow> comp_state \<Rightarrow> (template \<Rightarrow> scenario) \<Rightarrow> measure_error + (comp_state \<times> scenario)" where
  "with_template W src st k =
     (case compile_template W src st of
        (st', Inl e) \<Rightarrow> Inl (MeTemplate e)
      | (st', Inr t) \<Rightarrow> Inr (st', k t))"

definition heartbeat_or_default :: "measure_args \<Rightarrow> duration" where
  "heartbeat_or_default args = (case ma_ws_heartbeat args of Some d \<Rightarrow> d | None \<Rightarrow> secs 25)"

text \<open>The chain of the protocol flags, in the order of the code.\<close>

definition measure_scenario ::
  "'r world \<Rightarrow> measure_args \<Rightarrow> comp_state \<Rightarrow> template \<Rightarrow> measure_error + (comp_state \<times> scenario)" where
  "measure_scenario W args st url =
     (let hold_for = (case ma_hold_for args of Some d \<Rightarrow> d | None \<Rightarrow> ma_duration args) in
      case ma_sse_fanout args of
        Some subscribers \<Rightarrow>
          (case ma_trigger_url args of
             None \<Rightarrow> Inl (MeTrigger ''--sse-fanout'')
           | Some trig \<Rightarrow> with_template W trig st (\<lambda>trigger.
               scenario_sse_fanout ''sse-fanout'' subscribers hold_for url [] True (HttpPost trigger None) TriggerRtt))
      | None \<Rightarrow>
     (case ma_ws_fanout args of
        Some connections \<Rightarrow>
          (case ma_trigger_url args of
             None \<Rightarrow> Inl (MeTrigger ''--ws-fanout'')
           | Some trig \<Rightarrow> with_template W trig st (\<lambda>trigger.
               scenario_ws_fanout ''ws-fanout'' connections hold_for url [] (heartbeat_or_default args) HbPing
                 (HttpPost trigger None) TriggerRtt))
      | None \<Rightarrow>
     (case ma_sse_reconnect_storm args of
        Some subscribers \<Rightarrow>
          Inr (st, scenario_sse_reconnect_storm ''sse-reconnect-storm'' subscribers hold_for url [] (ma_kill_rate args) True)
      | None \<Rightarrow>
     (case ma_ws_hold args of
        Some connections \<Rightarrow>
          Inr (st, scenario_ws_hold ''ws-hold'' connections hold_for url [] (heartbeat_or_default args) HbPing)
      | None \<Rightarrow>
     (case ma_ws_push args of
        Some connections \<Rightarrow>
          Inr (st, scenario_ws_server_push_rtt ''ws-push'' connections hold_for url [] (ma_ws_expected_rate args))
      | None \<Rightarrow>
     (case ma_ws_echo args of
        Some connections \<Rightarrow>
          with_template W (ma_ws_payload args) st (\<lambda>payload.
            scenario_ws_echo_rtt ''ws-echo-rtt'' (Saturate (unat connections)) url [] connections
              (ma_ws_msg_rate args) payload MonotonicIdPrepend)
      | None \<Rightarrow>
     (case ma_sse_hold args of
        Some subscribers \<Rightarrow> Inr (st, scenario_sse_hold ''sse-hold'' subscribers hold_for url [] (ma_sse_reconnect args))
      | None \<Rightarrow>
          (let rate = (case ma_rate args of Some r \<Rightarrow> Constant r | None \<Rightarrow> Saturate (ma_connections args))
           in Inr (st, (if ma_cold_connect args then scenario_http_cold_connect ''measure'' rate (request_get url)
                        else scenario_http_request ''measure'' rate (request_get url)))))))))))"

definition build_measure_plan :: "'r world \<Rightarrow> measure_args \<Rightarrow> string \<Rightarrow> measure_error + plan" where
  "build_measure_plan W args name =
     (case compile_template W (ma_url args) comp_new of
        (st, Inl e) \<Rightarrow> Inl (MeTemplate e)
      | (st, Inr url) \<Rightarrow>
          (case measure_scenario W args st url of
             Inl e \<Rightarrow> Inl e
           | Inr (st', sn) \<Rightarrow>
               Inr (builder_finalize (push_scenario sn (measure_builder args name\<lparr>pb_vars := co_vars st'\<rparr>)))))"

definition build_transport_opts :: "measure_args \<Rightarrow> transport_opts" where
  "build_transport_opts args = default_transport_opts\<lparr>to_connect_timeout := ma_connect_timeout args,
     to_request_timeout := ma_request_timeout args, to_max_conns := ma_connections args, to_tcp_nodelay := True,
     to_insecure_tls := ma_insecure args\<rparr>"

section \<open>The harness\<close>

record run_harness =
  rh_target :: target
  rh_opts :: transport_opts
  rh_tls :: bool
  rh_threads :: nat
  rh_connections :: nat
  rh_target_rate :: "f64 option"

definition harness_new :: "target \<Rightarrow> transport_opts \<Rightarrow> nat \<Rightarrow> nat \<Rightarrow> f64 option \<Rightarrow> bool \<Rightarrow> run_harness" where
  "harness_new t opts threads connections target_rate tls =
     \<lparr>rh_target = t, rh_opts = opts, rh_tls = tls, rh_threads = max threads 1, rh_connections = connections,
      rh_target_rate = target_rate\<rparr>"

text \<open>The context of one run, put into the surroundings the backends find.\<close>

definition ctx_for :: "run_harness \<Rightarrow> duration \<Rightarrow> ('r, 'h) run_world \<Rightarrow> ('r, 'h) run_world" where
  "ctx_for hn dur E = E\<lparr>rw_target := rh_target hn, rw_threads := rh_threads hn, rw_connections := rh_connections hn,
     rw_duration := dur, rw_rps := rh_target_rate hn, rw_live := None,
     rw_cold := (rw_cold E)\<lparr>cz_opts := rh_opts hn, cz_tls_config := rh_tls hn\<rparr>\<rparr>"

definition run_plan_with_harness ::
  "'h hist_ops \<Rightarrow> plan \<Rightarrow> run_harness \<Rightarrow> duration \<Rightarrow> ('r, 'h) run_world \<Rightarrow> 'h task_stats list option" where
  "run_plan_with_harness H pl hn dur E = run_plan (backend_runner H (ctx_for hn dur E)) pl"

text \<open>The word for an operation in the status line.\<close>

definition op_label_for :: "plan \<Rightarrow> string" where
  "op_label_for pl =
     (let first_step = (case pl_scenarios pl of [] \<Rightarrow> None | s # _ \<Rightarrow> List.find (\<lambda>st. \<not> is_pause st) (sn_steps s)) in
      case first_step of
        Some (HttpColdConnect _) \<Rightarrow> ''cold-connects''
      | Some (SseFanout _) \<Rightarrow> ''broadcasts''
      | Some (SseReconnectStorm _) \<Rightarrow> ''events''
      | Some (SseHold _) \<Rightarrow> ''events''
      | Some (WsHold _) \<Rightarrow> ''frames''
      | Some (WsFanout _) \<Rightarrow> ''broadcasts''
      | Some (WsServerPushRtt _) \<Rightarrow> ''messages''
      | Some (WsEchoRtt _) \<Rightarrow> ''messages''
      | _ \<Rightarrow> (case (case pl_scenarios pl of [] \<Rightarrow> Http | s # _ \<Rightarrow> scenario_protocol s) of
                Http \<Rightarrow> ''requests'' | Sse \<Rightarrow> ''events'' | Ws \<Rightarrow> ''messages''))"

section \<open>The primary histogram\<close>

text \<open>\<open>None\<close> stands for the latency histogram of the summary itself.\<close>

definition primary_slot :: "'h hist_query \<Rightarrow> 'h summary \<Rightarrow> plan \<Rightarrow> 'h option" where
  "primary_slot Q sm pl =
     (let used = (\<lambda>h. hq_len Q h \<noteq> 0) in
      case (pl_scenarios pl, ts_per_scenario (sm_stats sm)) of
        ([sn], sc # _) \<Rightarrow>
          (case scenario_protocol sn of
             Sse \<Rightarrow> (case sc_sse sc of
                 None \<Rightarrow> None
               | Some x \<Rightarrow> if used (se_broadcast_rtt x) then Some (se_broadcast_rtt x)
                           else if used (se_chunk_gap x) then Some (se_chunk_gap x) else None)
           | Ws \<Rightarrow> (case sc_ws sc of
                 None \<Rightarrow> None
               | Some x \<Rightarrow> if used (we_broadcast_rtt x) then Some (we_broadcast_rtt x)
                           else if used (we_rtt x) then Some (we_rtt x) else None)
           | Http \<Rightarrow> None)
      | _ \<Rightarrow> None)"

definition pick_primary_histogram :: "'h hist_query \<Rightarrow> 'h summary \<Rightarrow> plan \<Rightarrow> 'h" where
  "pick_primary_histogram Q sm pl = (case primary_slot Q sm pl of Some h \<Rightarrow> h | None \<Rightarrow> ts_latency (sm_stats sm))"

definition build_per_run_metrics :: "'h hist_query \<Rightarrow> u32 \<Rightarrow> 'h summary \<Rightarrow> plan \<Rightarrow> per_run_metrics" where
  "build_per_run_metrics Q idx sm pl =
     \<lparr>pm_index = idx, pm_rate_per_s = requests_per_sec Q sm, pm_requests = ts_requests (sm_stats sm),
      pm_errors_total = ec_total (ts_errors (sm_stats sm)), pm_latency = latency_from_hist Q (ts_latency (sm_stats sm)),
      pm_protocol_latency = (case primary_slot Q sm pl of None \<Rightarrow> latency_default | Some h \<Rightarrow> latency_from_hist Q h)\<rparr>"

section \<open>The verb\<close>

text \<open>The machine's clock resolution in nanoseconds, where it is known.\<close>

definition clock_is_coarse :: "u64 option \<Rightarrow> bool" where
  "clock_is_coarse r = (case r of Some ns \<Rightarrow> 10000 < ns | None \<Rightarrow> False)"

text \<open>
  The surroundings of an invocation. \<open>mw_warm\<close> and \<open>mw_run\<close> are those of the warm-up and of each run; the
  clock of a machine is part of the fingerprint.
\<close>

record ('r, 'm, 'h, 'ip) measure_world =
  mw_world :: "'r world"
  mw_parse_ip :: "string \<Rightarrow> 'ip option"
  mw_dns :: "string \<Rightarrow> string + 'ip list"
  mw_is_v4 :: "'ip \<Rightarrow> bool"
  mw_is_v6 :: "'ip \<Rightarrow> bool"
  mw_show_addr :: "'ip socket_addr \<Rightarrow> string"
  mw_arith :: check_arith
  mw_check :: check_env
  mw_clock_resolution :: "u64 option"
  mw_archive :: "('m, 'h) archive_world"
  mw_warm :: "('r, 'h) run_world"
  mw_run :: "nat \<Rightarrow> ('r, 'h) run_world"
  mw_version :: string
  mw_features :: string

text \<open>
  The loop from run \<open>i\<close> on, \<open>n\<close> runs to go: the statistics of all runs and the metrics of each. The
  warm-up comes before the first run only; pauses have no effect on the values.
\<close>

fun runs_loop ::
  "'h hist_ops \<Rightarrow> 'h hist_query \<Rightarrow> measure_args \<Rightarrow> plan \<Rightarrow> run_harness \<Rightarrow> ('r, 'h) run_world \<Rightarrow> (nat \<Rightarrow> ('r, 'h) run_world)
     \<Rightarrow> nat \<Rightarrow> nat \<Rightarrow> ('h task_stats list \<times> per_run_metrics list) option" where
  "runs_loop H Q args pl hn warm_E run_E i 0 = Some ([], [])"
| "runs_loop H Q args pl hn warm_E run_E i (Suc n) =
     (if ma_warmup args \<noteq> 0 \<and> i = 0 \<and> run_plan_with_harness H pl hn (ma_warmup args) warm_E = None then None
      else (case run_plan_with_harness H pl hn (ma_duration args) (run_E i) of
          None \<Rightarrow> None
        | Some stats \<Rightarrow>
            map_option (\<lambda>(all_stats, per_run).
                (stats @ all_stats,
                 build_per_run_metrics Q (of_nat i) (summary_merge H stats (ma_duration args)) pl # per_run))
              (runs_loop H Q args pl hn warm_E run_E (Suc i) n)))"

datatype exit_code = ExitSuccess | ExitFailure

definition measure_exit :: "'h summary \<Rightarrow> exit_code" where
  "measure_exit sm =
     (if ts_requests (sm_stats sm) = 0 \<or> 0 < ec_hard_total (ts_errors (sm_stats sm)) then ExitFailure else ExitSuccess)"

definition DURATION_MAX :: duration where "DURATION_MAX = (2 ^ 64 - 1) * 1000000000 + 999999999"

definition total_measured :: "measure_args \<Rightarrow> duration" where
  "total_measured args = min (ma_duration args * unat (ma_runs args)) DURATION_MAX"

text \<open>
  The gate of the self-check: whether the run is flagged as overloaded. Without a rate it is checked
  against ten thousand requests a second.
\<close>

definition gate_rate :: "measure_args \<Rightarrow> f64" where
  "gate_rate args = (case ma_rate args of Some r \<Rightarrow> r | None \<Rightarrow> 0x40C3880000000000)"

text \<open>
  The result of an invocation: an error, or an exit code; it may panic, or (while the self-check is still
  going) not have returned.
\<close>

datatype verb_outcome = VerbError measure_error | VerbExit exit_code | VerbPanic | VerbPending

text \<open>The separator is a middle dot between spaces, in UTF-8.\<close>

definition histlog_comment :: "string \<Rightarrow> string \<Rightarrow> string \<Rightarrow> string \<Rightarrow> string" where
  "histlog_comment version name url rid =
     (let sep = '' '' @ [CHR 0xC2, CHR 0xB7] @ '' '' in
      ''zerobench '' @ version @ sep @ ''plan='' @ name @ sep @ ''target='' @ url @ sep @ ''run_id='' @ rid)"

text \<open>Target, plan, and the address it resolves to.\<close>

definition measure_prepare ::
  "('r, 'm, 'h, 'ip) measure_world \<Rightarrow> measure_args \<Rightarrow> measure_error + (target \<times> plan \<times> string)" where
  "measure_prepare MW args =
     (if ma_tui args then Inl MeTui
      else (case target_parse (ma_url args) of
          Inl e \<Rightarrow> Inl (MeTarget e)
        | Inr t \<Rightarrow>
            (case build_measure_plan (mw_world MW) args (case ma_name args of Some n \<Rightarrow> n | None \<Rightarrow> tg_host t) of
               Inl e \<Rightarrow> Inl e
             | Inr pl \<Rightarrow>
                 (case target_resolve (mw_parse_ip MW) (mw_dns MW) (mw_is_v4 MW) (mw_is_v6 MW) t (build_transport_opts args) of
                    Inl e \<Rightarrow> Inl (MeResolve e)
                  | Inr a \<Rightarrow> Inr (t, pl, mw_show_addr MW a)))))"

text \<open>The two gates: whether the run is flagged as overloaded, or how it ends here.\<close>

definition measure_gates ::
  "'h hist_ops \<Rightarrow> ('r, 'm, 'h, 'ip) measure_world \<Rightarrow> measure_args \<Rightarrow> verb_outcome + bool" where
  "measure_gates H MW args =
     (let clock = (\<lambda>overload. if clock_is_coarse (mw_clock_resolution MW) \<and> \<not> ma_allow_coarse_clock args
                             then Inl (VerbError MeCoarseClock) else Inr overload)
      in if ma_no_calibrate args then clock (ma_force_overload args)
         else (case calibrate H (aw_query (mw_archive MW)) (mw_arith MW) (mw_check MW) (gate_rate args) (secs 2)
                      (ma_force_overload args) of
                 None \<Rightarrow> Inl VerbPanic
               | Some CalPending \<Rightarrow> Inl VerbPending
               | Some (CalResult (Inl e)) \<Rightarrow> Inl (VerbError (MeCalibrate e))
               | Some (CalResult (Inr report)) \<Rightarrow> clock (ma_force_overload args \<or> cr_poisoned report)))"

text \<open>The runs, the final summary, and the end of the archive.\<close>

definition measure_finish ::
  "'h hist_ops \<Rightarrow> ('r, 'm, 'h, 'ip) measure_world \<Rightarrow> measure_args \<Rightarrow> target \<Rightarrow> plan \<Rightarrow> session \<Rightarrow> fs \<Rightarrow> verb_outcome \<times> fs" where
  "measure_finish H MW args t pl a s =
     (let Q = aw_query (mw_archive MW);
          hn = harness_new t (build_transport_opts args) (ma_threads args) (ma_connections args) (ma_rate args) (tg_tls t)
      in case runs_loop H Q args pl hn (mw_warm MW) (mw_run MW) 0 (unat (ma_runs args)) of
           None \<Rightarrow> (VerbPanic, s)
         | Some (all_stats, per_run) \<Rightarrow>
             (let sm = summary_merge H all_stats (total_measured args) in
              case session_finalise (mw_archive MW) a sm per_run pl (total_measured args)
                     (histlog_comment (mw_version MW) (pl_name pl) (ma_url args) (as_run_id a))
                     (pick_primary_histogram Q) s of
                (Inl e, s') \<Rightarrow> (VerbError (MeIo e), s')
              | (Inr _, s') \<Rightarrow> (VerbExit (measure_exit sm), s')))"

definition measure_run ::
  "'h hist_ops \<Rightarrow> ('r, 'm, 'h, 'ip) measure_world \<Rightarrow> measure_args \<Rightarrow> fs \<Rightarrow> verb_outcome \<times> fs" where
  "measure_run H MW args s =
     (case measure_prepare MW args of
        Inl e \<Rightarrow> (VerbError e, s)
      | Inr (t, pl, addr) \<Rightarrow>
          (case measure_gates H MW args of
             Inl ended \<Rightarrow> (ended, s)
           | Inr overload \<Rightarrow>
               (case session_begin (mw_archive MW) pl t [addr] (ma_no_archive args) (ma_context args)
                       (ma_no_calibrate args) overload (mw_features MW) (mw_version MW) s of
                  None \<Rightarrow> (VerbPanic, s)
                | Some (Inl e, s') \<Rightarrow> (VerbError (MeIo e), s')
                | Some (Inr a, s') \<Rightarrow> measure_finish H MW args t pl a s')))"

section \<open>Plans of the verb\<close>

definition measured_step :: "step \<Rightarrow> bool" where
  "measured_step st = (step_protocol st \<noteq> None)"

lemma measure_scenario_step:
  "measure_scenario W args st url = Inr (st', sn) \<Longrightarrow> \<exists>step. sn_steps sn = [step] \<and> step_protocol step \<noteq> None"
  by (auto simp: measure_scenario_def with_template_def Let_def scenario_sse_fanout_def scenario_ws_fanout_def
      scenario_sse_reconnect_storm_def scenario_ws_hold_def scenario_ws_server_push_rtt_def scenario_ws_echo_rtt_def
      scenario_sse_hold_def scenario_http_cold_connect_def scenario_http_request_def
      split: option.splits prod.splits sum.splits if_splits)

lemma measure_plan_shape:
  assumes "build_measure_plan W args name = Inr pl"
  obtains sn step where "pl_scenarios pl = [sn]" "sn_steps sn = [step]" "step_protocol step \<noteq> None" "pl_name pl = name"
proof -
  obtain st url st' sn where sn: "measure_scenario W args st url = Inr (st', sn)"
      and pl: "pl = builder_finalize (push_scenario sn (measure_builder args name\<lparr>pb_vars := co_vars st'\<rparr>))"
    using assms by (auto simp: build_measure_plan_def split: prod.splits sum.splits)
  from pl have "pl_scenarios pl = [sn]" "pl_name pl = name"
    by (simp_all add: builder_finalize_def push_scenario_def measure_builder_def builder_new_def)
  then show thesis using measure_scenario_step [OF sn] that by blast
qed

text \<open>The surroundings of a run: the generator stays in its range, and no rate makes the interval zero.\<close>

definition env_runs :: "('r, 'h) run_world \<Rightarrow> bool" where
  "env_runs E = (world_ok (rw_world E) \<and> (\<forall>n r. rw_interval E n r \<noteq> Some 0))"

lemma env_runs_ctx: "env_runs E \<Longrightarrow> world_runs (ctx_for hn dur E)"
  by (simp add: env_runs_def world_runs_def ctx_for_def)

lemma one_scenario_protocols: "pl_scenarios pl = [sn] \<Longrightarrow> active_protocols pl = [scenario_protocol sn]"
  by (cases "scenario_protocol sn") (simp_all add: active_protocols_def has_protocol_def)

text \<open>No run of a plan with one scenario of one step panics, with cold connections either.\<close>

lemma one_step_run_ok:
  assumes sn: "pl_scenarios pl = [sn]" "sn_steps sn = [step]" "step_protocol step \<noteq> None" and "world_runs E"
  shows "\<exists>ts. run_plan (backend_runner H E) pl = Some ts \<and> (\<forall>t \<in> set ts. rolled_up t \<and> length (ts_per_scenario t) = 1)"
proof -
  have one: "active_protocols pl = [scenario_protocol sn]" by (rule one_scenario_protocols [OF sn(1)])
  show ?thesis
  proof (cases "\<exists>rq. step = HttpColdConnect rq")
    case True
    then have "route pl = Some BColdConnect" using sn by (auto simp: route_def first_wire_step_def)
    moreover obtain ts where "backend_runner H E BColdConnect pl = Some ts"
        "\<forall>t \<in> set ts. rolled_up t \<and> length (ts_per_scenario t) = 1"
      using run_cold_connect_ok [of H "rw_cold E" "rw_target E" "rw_connections E" "rw_rps E" "rw_cold_proc E"
          "rw_live E" "rw_duration E" pl] sn(1)
      by (auto simp: backend_runner_def Let_def)
    ultimately show ?thesis using one sn(1) by (simp add: run_plan_def run_one_protocol_def Let_def)
  next
    case False
    then have "plan_runs pl"
      using sn by (cases step) (auto simp: plan_runs_def scenario_protocol_def)
    from run_plan_ok [OF this assms(4)] show ?thesis using one sn(1) by fastforce
  qed
qed

lemma measured_run_ok:
  assumes "build_measure_plan W args name = Inr pl" "env_runs E"
  shows "\<exists>ts. run_plan_with_harness H pl hn dur E = Some ts
    \<and> (\<forall>t \<in> set ts. rolled_up t \<and> length (ts_per_scenario t) = 1)"
proof -
  obtain sn step where "pl_scenarios pl = [sn]" "sn_steps sn = [step]" "step_protocol step \<noteq> None"
    using measure_plan_shape [OF assms(1)] by metis
  from one_step_run_ok [OF this env_runs_ctx [OF assms(2)]] show ?thesis by (simp add: run_plan_with_harness_def)
qed

section \<open>The loop of runs\<close>

text \<open>What the loop yields: the statistics of each run, in order, and their metrics.\<close>

lemma runs_loop_ok:
  assumes "build_measure_plan W args name = Inr pl" "env_runs warm_E" "\<And>j. env_runs (run_E j)"
  shows "\<exists>runs. length runs = n
    \<and> (\<forall>j < n. run_plan_with_harness H pl hn (ma_duration args) (run_E (i + j)) = Some (runs ! j))
    \<and> runs_loop H Q args pl hn warm_E run_E i n = Some (concat runs,
        map (\<lambda>j. build_per_run_metrics Q (of_nat (i + j)) (summary_merge H (runs ! j) (ma_duration args)) pl) [0..<n])"
proof (induction n arbitrary: i)
  case (Suc n)
  obtain w where w: "run_plan_with_harness H pl hn (ma_warmup args) warm_E = Some w"
    using measured_run_ok [OF assms(1,2)] by blast
  obtain ts where ts: "run_plan_with_harness H pl hn (ma_duration args) (run_E i) = Some ts"
    using measured_run_ok [OF assms(1,3)] by blast
  obtain runs where runs: "length runs = n"
      "\<forall>j < n. run_plan_with_harness H pl hn (ma_duration args) (run_E (Suc i + j)) = Some (runs ! j)"
      "runs_loop H Q args pl hn warm_E run_E (Suc i) n = Some (concat runs,
         map (\<lambda>j. build_per_run_metrics Q (of_nat (Suc i + j)) (summary_merge H (runs ! j) (ma_duration args)) pl) [0..<n])"
    using Suc by blast
  have "run_plan_with_harness H pl hn (ma_duration args) (run_E (i + j)) = Some ((ts # runs) ! j)" if "j < Suc n" for j
    using that ts runs(2) by (cases j) auto
  moreover have "map (\<lambda>j. build_per_run_metrics Q (of_nat (i + j)) (summary_merge H ((ts # runs) ! j) (ma_duration args)) pl) [0..<Suc n]
      = build_per_run_metrics Q (of_nat i) (summary_merge H ts (ma_duration args)) pl
        # map (\<lambda>j. build_per_run_metrics Q (of_nat (Suc i + j)) (summary_merge H (runs ! j) (ma_duration args)) pl) [0..<n]"
    by (simp add: map_upt_Suc ac_simps del: upt_Suc)
  ultimately show ?case using w ts runs by (intro exI [of _ "ts # runs"]) simp
qed simp

lemma merged_totals:
  assumes "accumulator (task_merge H) view" "\<And>n. view (task_stats_new H n) = (0 :: u64)"
  shows "view (sm_stats (summary_merge H (concat runs) d))
    = (\<Sum>ts \<leftarrow> runs. view (sm_stats (summary_merge H ts dur)))"
proof -
  have each: "view (sm_stats (summary_merge H ts d)) = sum_list (map view ts)" for ts d
    by (simp add: summary_merge_def Let_def accumulator.fold_adds [OF assms(1)] assms(2))
  have "sum_list (map view (concat runs)) = (\<Sum>ts \<leftarrow> runs. sum_list (map view ts))" by (induction runs) simp_all
  then show ?thesis by (simp add: each)
qed

section \<open>Sessions without archive, and panics\<close>

lemma no_archive_begin:
  assumes "session_begin W p t resolved True context skipped overload features version s = Some (Inr a, s')"
  shows "s' = s \<and> as_writer a = None"
  using assms by (auto simp: session_begin_def Let_def and_then_def give_def session_of_def split: bind_splits)

lemma no_archive_finalise: "as_writer a = None \<Longrightarrow> session_finalise W a sm runs p time comment pick s = (Inr (), s)"
  by (simp add: session_finalise_def give_def)

lemma session_begin_panics:
  assumes "\<And>b. 8 \<le> length (fp_sha256 (aw_fp W) b)"
  shows "session_begin W p t resolved no_archive context skipped overload features version s = None \<longleftrightarrow> pl_name p = []"
proof -
  have "\<not> length (fp_sha256 (aw_fp W) b) < 8" for b using assms [of b] by simp
  then show ?thesis
    by (simp add: session_begin_def Let_def url_fingerprint_def run_id_def plan_hash_def target_fingerprint_def
        canonical_sha256_def)
qed

lemma gate_rate_positive:
  "(case ma_rate args of Some r \<Rightarrow> rate_positive r | None \<Rightarrow> True) \<Longrightarrow> rate_positive (gate_rate args)"
  by (cases "ma_rate args") (simp_all add: gate_rate_def rate_positive_def)

lemma gates_no_panic:
  assumes "case ma_rate args of Some r \<Rightarrow> rate_positive r | None \<Rightarrow> True"
  shows "measure_gates H MW args \<noteq> Inl VerbPanic"
  using gate_rate_positive [OF assms]
  by (auto simp: measure_gates_def calibrate_def client_check_def rate_positive_def Let_def secs_def
      split: calibrate_outcome.splits sum.splits)

lemma target_host: "target_parse url = Inr t \<Longrightarrow> tg_host t \<noteq> []"
  by (auto simp: target_parse_def Let_def split: option.splits sum.splits if_splits prod.splits)

lemma prepared_plan:
  assumes "measure_prepare MW args = Inr (t, pl, addr)"
  obtains name where "build_measure_plan (mw_world MW) args name = Inr pl" "pl_name pl = name"
    "name = [] \<longleftrightarrow> ma_name args = Some []"
proof -
  obtain name where n: "build_measure_plan (mw_world MW) args name = Inr pl"
      "name = (case ma_name args of Some n \<Rightarrow> n | None \<Rightarrow> tg_host t)" "target_parse (ma_url args) = Inr t"
    using assms by (auto simp: measure_prepare_def split: if_splits sum.splits)
  then show thesis using that [OF n(1)] measure_plan_shape [OF n(1)] target_host [OF n(3)] by (cases "ma_name args") auto
qed

text \<open>
  What a session leaves on the disk that began and ended without an error: nothing if archiving is off,
  otherwise the export of the summary with the metrics of the runs, and the index.
\<close>

definition archived ::
  "('m, 'h) archive_world \<Rightarrow> bool \<Rightarrow> plan \<Rightarrow> target \<Rightarrow> 'h summary \<Rightarrow> per_run_metrics list \<Rightarrow> fs \<Rightarrow> fs \<Rightarrow> bool" where
  "archived W no_archive p t sm per_run s s' =
     (if no_archive then s' = s
      else \<exists>url_fp rid b ix. url_fingerprint (aw_fp W) p t FamilyAuto = Some url_fp
        \<and> aw_result_json W ((to_export (aw_query W) sm)\<lparr>ex_per_run := per_run\<rparr>) = Inr b
        \<and> map_of (fs_disk s') (path_join (run_dir (archive_resolve (aw_var W)) url_fp rid) ''result.json'') = Some (FileNode b True)
        \<and> map_of (fs_disk s') (path_join (run_dir (archive_resolve (aw_var W)) url_fp rid) ''INDEX.json'') = Some (FileNode ix True))"

lemma session_archived:
  assumes b: "session_begin W p t resolved no_archive context skipped overload features version s = Some (Inr a, s1)"
    and e: "session_finalise W a sm per_run p time comment pick s1 = (Inr (), s')"
  shows "archived W no_archive p t sm per_run s s'"
proof (cases no_archive)
  case True
  have "s1 = s \<and> as_writer a = None" by (rule no_archive_begin) (use b True in simp)
  then show ?thesis using e True by (simp add: no_archive_finalise archived_def)
next
  case False
  obtain url_fp rid where u: "url_fingerprint (aw_fp W) p t FamilyAuto = Some url_fp"
      "run_id (aw_fp W) (plan_hash (aw_fp W) p) (target_fingerprint (aw_fp W) t resolved (plan_hash (aw_fp W) p))
         (aw_start_wall W) = Some rid"
    using b by (auto simp: session_begin_def Let_def split: bind_splits)
  have "archive_run W p t resolved context skipped overload features version sm per_run time comment pick s
      = Some (Inr (), s')" using b e False by (simp add: archive_run_def)
  then show ?thesis using archive_complete [OF u refl refl] u(1) False unfolding archived_def by metis
qed

section \<open>Properties\<close>


text \<open>
  Property C2. What \<open>measure\<close> reports when it ends with an exit code: one run per requested run, on the plan and
  harness of the arguments; requests and errors of the final summary are the sums of those of the runs,
  numbered in order; success means that there were requests and no transport error; and
  unless archiving is off, the directory of the run then holds the export of this very summary with the
  metrics of the runs, and the index.
\<close>

theorem measure_reports:
  assumes "env_runs (mw_warm MW)" "\<And>i. env_runs (mw_run MW i)" "measure_run H MW args s = (VerbExit ended, s')"
  shows "\<exists>t pl addr runs sm per_run. measure_prepare MW args = Inr (t, pl, addr)
    \<and> length runs = unat (ma_runs args)
    \<and> list_all (\<lambda>i. run_plan_with_harness H pl (harness_new t (build_transport_opts args) (ma_threads args)
         (ma_connections args) (ma_rate args) (tg_tls t)) (ma_duration args) (mw_run MW i) = Some (runs ! i))
         [0..<unat (ma_runs args)]
    \<and> sm = summary_merge H (concat runs) (total_measured args)
    \<and> map pm_index per_run = map of_nat [0..<unat (ma_runs args)]
    \<and> ts_requests (sm_stats sm) = sum_list (map pm_requests per_run)
    \<and> ec_total (ts_errors (sm_stats sm)) = sum_list (map pm_errors_total per_run)
    \<and> (ended = ExitSuccess \<longleftrightarrow> ts_requests (sm_stats sm) \<noteq> 0 \<and> ec_hard_total (ts_errors (sm_stats sm)) = 0)
    \<and> archived (mw_archive MW) (ma_no_archive args) pl t sm per_run s s'"
proof -
  let ?W = "mw_archive MW" and ?n = "unat (ma_runs args)"
  let ?Q = "aw_query ?W"
  obtain t pl addr where prep: "measure_prepare MW args = Inr (t, pl, addr)"
    using assms(3) by (auto simp: measure_run_def split: sum.splits)
  obtain overload where gates: "measure_gates H MW args = Inr overload"
    using assms(3) prep by (cases "measure_gates H MW args") (auto simp: measure_run_def measure_gates_def Let_def
        split: if_splits option.splits calibrate_outcome.splits sum.splits)
  obtain a s1 where b: "session_begin ?W pl t [addr] (ma_no_archive args) (ma_context args) (ma_no_calibrate args)
        overload (mw_features MW) (mw_version MW) s = Some (Inr a, s1)"
      and fin: "measure_finish H MW args t pl a s1 = (VerbExit ended, s')"
    using assms(3) prep gates by (auto simp: measure_run_def split: option.splits sum.splits prod.splits)
  let ?hn = "harness_new t (build_transport_opts args) (ma_threads args) (ma_connections args) (ma_rate args) (tg_tls t)"
  obtain name where pl: "build_measure_plan (mw_world MW) args name = Inr pl" using prepared_plan [OF prep] by metis
  obtain runs where runs: "length runs = ?n"
      "\<forall>j < ?n. run_plan_with_harness H pl ?hn (ma_duration args) (mw_run MW (0 + j)) = Some (runs ! j)"
      "runs_loop H ?Q args pl ?hn (mw_warm MW) (mw_run MW) 0 ?n = Some (concat runs,
         map (\<lambda>j. build_per_run_metrics ?Q (of_nat (0 + j)) (summary_merge H (runs ! j) (ma_duration args)) pl) [0..<?n])"
    using runs_loop_ok [where run_E = "mw_run MW", OF pl assms(1,2), where n = ?n and H = H and hn = ?hn and i = 0 and Q = ?Q]
    by blast
  define per_run where "per_run =
    map (\<lambda>j. build_per_run_metrics ?Q (of_nat j) (summary_merge H (runs ! j) (ma_duration args)) pl) [0..<?n]"
  define sm where "sm = summary_merge H (concat runs) (total_measured args)"
  define comment where "comment = histlog_comment (mw_version MW) (pl_name pl) (ma_url args) (as_run_id a)"
  have end_ok: "session_finalise ?W a sm per_run pl (total_measured args) comment (pick_primary_histogram ?Q) s1 = (Inr (), s')"
    and ended: "ended = measure_exit sm"
    using fin runs(3) by (auto simp: measure_finish_def Let_def per_run_def sm_def comment_def split: prod.splits sum.splits)
  have sums: "sum_list (map (\<lambda>j. view (sm_stats (summary_merge H (runs ! j) (ma_duration args)))) [0..<?n]) = view (sm_stats sm)"
    if "accumulator (task_merge H) view" "\<And>n. view (task_stats_new H n) = (0 :: u64)" for view
  proof -
    have "map (\<lambda>j. view (sm_stats (summary_merge H (runs ! j) (ma_duration args)))) [0..<?n]
        = map (\<lambda>ts. view (sm_stats (summary_merge H ts (ma_duration args)))) runs"
      using runs(1) by (intro nth_equalityI) simp_all
    then show ?thesis
      using merged_totals [OF that, where runs = runs and d = "total_measured args" and dur = "ma_duration args"]
      by (simp add: sm_def)
  qed
  have totals: "ts_requests (sm_stats sm) = sum_list (map pm_requests per_run)"
    "ec_total (ts_errors (sm_stats sm)) = sum_list (map pm_errors_total per_run)"
    using sums [OF acc_requests.accumulator_axioms] sums [OF acc_errors.accumulator_axioms]
    by (simp_all add: per_run_def build_per_run_metrics_def comp_def count_simps)
  have exit: "ended = ExitSuccess \<longleftrightarrow> ts_requests (sm_stats sm) \<noteq> 0 \<and> ec_hard_total (ts_errors (sm_stats sm)) = 0"
    by (simp add: ended measure_exit_def word_gt_0)
  have each: "list_all (\<lambda>i. run_plan_with_harness H pl ?hn (ma_duration args) (mw_run MW i) = Some (runs ! i)) [0..<?n]"
    using runs(2) by (simp add: list_all_iff)
  have indices: "map pm_index per_run = map of_nat [0..<?n]"
    by (simp add: per_run_def build_per_run_metrics_def comp_def)
  have stored: "archived ?W (ma_no_archive args) pl t sm per_run s s'" by (rule session_archived [OF b end_ok])
  show ?thesis
    by (intro exI [of _ t] exI [of _ pl] exI [of _ addr] exI [of _ runs] exI [of _ sm] exI [of _ per_run] conjI
          prep runs(1) each sm_def totals indices exit stored)
qed

text \<open>An invocation, for the examples.\<close>

definition demo_measure_args :: measure_args where
  "demo_measure_args =
     \<lparr>ma_url = ''http://h:81/a'', ma_name = None, ma_duration = 50, ma_warmup = 10, ma_cooldown = 0, ma_runs = 2,
      ma_rate = None, ma_connections = 3, ma_threads = 2, ma_connect_timeout = 5, ma_request_timeout = 5,
      ma_insecure = False, ma_no_calibrate = True, ma_force_overload = False, ma_allow_coarse_clock = False,
      ma_no_archive = False, ma_context = [], ma_tui = False, ma_sse_hold = None, ma_hold_for = None,
      ma_sse_reconnect = False, ma_ws_echo = None, ma_ws_msg_rate = 0, ma_ws_payload = [], ma_cold_connect = False,
      ma_ws_hold = None, ma_ws_heartbeat = None, ma_ws_push = None, ma_ws_expected_rate = 0, ma_sse_fanout = None,
      ma_ws_fanout = None, ma_trigger_url = None, ma_sse_reconnect_storm = None, ma_kill_rate = 0\<rparr>"

definition demo_measure :: "(nat, unit, nat list, string) measure_world" where
  "demo_measure =
     \<lparr>mw_world = demo_world, mw_parse_ip = Some, mw_dns = (\<lambda>_. Inr [''10.0.0.1'']), mw_is_v4 = (\<lambda>_. True),
      mw_is_v6 = (\<lambda>_. False), mw_show_addr = (\<lambda>_. ''10.0.0.1:81''),
      mw_arith = \<lparr>ka_interval_ns = \<lambda>_. 1, ka_achieved = \<lambda>_ _. 0, ka_sustained = \<lambda>_ _. 0\<rparr>,
      mw_check = \<lparr>kv_spawned = False, kv_sockets = \<lambda>_. False, kv_connect_at = 0, kv_connect = [], kv_start = 0,
         kv_turns = [], kv_end = 0\<rparr>,
      mw_clock_resolution = Some 1, mw_archive = demo_archive, mw_warm = demo_run_world, mw_run = (\<lambda>i. demo_run_world),
      mw_version = ''0.1.0'', mw_features = ''h1''\<rparr>"

lemma demo_env_runs: "env_runs (mw_warm demo_measure)" "env_runs (mw_run demo_measure i)"
  using demo_runs(2) by (simp_all add: demo_measure_def env_runs_def world_runs_def demo_run_world_def)

lemma demo_prepared:
  obtains t pl where "measure_prepare demo_measure (demo_measure_args\<lparr>ma_name := nm\<rparr>) = Inr (t, pl, ''10.0.0.1:81'')"
    "pl_name pl = (case nm of Some n \<Rightarrow> n | None \<Rightarrow> ''h'')"
proof -
  have lit: "literal_text ''http://h:81/a''" by (simp add: literal_text_def code_def)
  let ?A = "demo_measure_args\<lparr>ma_name := nm\<rparr>"
  let ?t = "\<lparr>tg_host = ''h'', tg_port = 81, tg_tls = False, tg_sni = None, tg_family = FamAny\<rparr>"
  have args: "ma_tui ?A = False" "ma_url ?A = ''http://h:81/a''" "ma_name ?A = nm" by (simp_all add: demo_measure_args_def)
  obtain st sn where sn: "measure_scenario demo_world ?A comp_new (text_template ''http://h:81/a'') = Inr (st, sn)"
    by (simp add: measure_scenario_def demo_measure_args_def Let_def)
  have world: "mw_world demo_measure = demo_world" "mw_show_addr demo_measure x = ''10.0.0.1:81''" for x
    by (simp_all add: demo_measure_def)
  have host: "(case nm of None \<Rightarrow> tg_host ?t | Some n \<Rightarrow> n) = (case nm of None \<Rightarrow> ''h'' | Some n \<Rightarrow> n)"
    by (cases nm) simp_all
  have "target_resolve (mw_parse_ip demo_measure) (mw_dns demo_measure) (mw_is_v4 demo_measure) (mw_is_v6 demo_measure)
      \<lparr>tg_host = ''h'', tg_port = 81, tg_tls = False, tg_sni = None, tg_family = FamAny\<rparr>
      (build_transport_opts (demo_measure_args\<lparr>ma_name := nm\<rparr>)) = Inr (SockDns ''10.0.0.1'')"
    by (simp add: target_resolve_def build_transport_opts_def default_transport_opts_def demo_measure_def)
  then have prep: "measure_prepare demo_measure ?A = Inr (?t, builder_finalize (push_scenario sn
      (measure_builder ?A (case nm of Some n \<Rightarrow> n | None \<Rightarrow> ''h'')\<lparr>pb_vars := co_vars st\<rparr>)), ''10.0.0.1:81'')"
    unfolding measure_prepare_def args world build_measure_plan_def
    by (simp add: demo_url_target compile_literal [OF lit] sn host)
  show thesis
    by (rule that [OF prep]) (simp add: builder_finalize_def push_scenario_def measure_builder_def builder_new_def)
qed

lemma demo_gates: "measure_gates H demo_measure (demo_measure_args\<lparr>ma_name := nm\<rparr>) = Inr False"
  by (simp add: measure_gates_def demo_measure_def demo_measure_args_def clock_is_coarse_def)


text \<open>A session in the archive of the examples goes through.\<close>

lemma demo_session:
  assumes "pl_name pl \<noteq> []"
  obtains a s1 where
    "session_begin demo_archive pl t resolved False ctx skipped overload features version demo_fs = Some (Inr a, s1)"
    "\<And>sm runs p time comment pick. \<exists>s'. session_finalise demo_archive a sm runs p time comment pick s1 = (Inr (), s')"
proof -
  let ?W = demo_archive
  have u: "url_fingerprint (aw_fp ?W) pl t FamilyAuto = Some ''0123456789''"
    by (simp add: url_fingerprint_def url_fingerprint_impl_def assms canonical_sha256_def demo_archive_def demo_fp_def)
  have rid: "run_id (aw_fp ?W) (plan_hash (aw_fp ?W) pl) (target_fingerprint (aw_fp ?W) t r (plan_hash (aw_fp ?W) pl))
      (aw_start_wall ?W) = Some ''1970-01-01T00:00:00Z-01234567-01234567''" for r
    by (simp add: demo_hashes)
  have quiet: "dir_entries (fs_disk demo_fs) dir = []" "fs_answers demo_fs = []" for dir
    by (simp_all add: demo_fs_def dir_entries_def)
  have docs: "\<not> isl (aw_plan_json ?W pl)" "\<not> isl (aw_machine_json ?W (aw_machine ?W))" "\<not> isl (aw_env_json ?W env)" for env
    by (simp_all add: demo_archive_def)
  obtain a s1 where b: "session_begin ?W pl t resolved False ctx skipped overload features version demo_fs = Some (Inr a, s1)"
      and s1: "fs_answers s1 = []" and aw: "as_writer a \<noteq> None"
    using session_begins [OF u rid quiet docs] by (metis option.distinct(1))
  obtain w where w: "as_writer a = Some w" using aw by blast
  have "\<exists>s'. session_finalise ?W a sm runs p time comment pick s1 = (Inr (), s')" for sm runs p time comment pick
  proof -
    let ?docs = "[(''env.json'', aw_env_json ?W (env_set_ended ?W (as_env a))),
         (''result.json'', aw_result_json ?W ((to_export (aw_query ?W) sm)\<lparr>ex_per_run := runs\<rparr>)),
         (''result.histlog'', aw_histlog ?W (pick sm p) (as_start_wall a) time (Some comment)),
         (''INDEX.json'', aw_index_json ?W (session_index a))]"
    have "length (writable ?docs) = length ?docs" by (simp add: demo_archive_def)
    then show ?thesis using write_docs_quiet [OF s1, of ?docs w] finalise_writes [OF w, of ?W sm runs p time comment pick] by metis
  qed
  then show thesis using that b by blast
qed

lemma demo_resolve: "archive_resolve (aw_var demo_archive) = ''.zerobench''"
  by (simp add: demo_archive_def archive_resolve_def)

theorem measure_reports_witness:
  "\<exists>status s'. measure_run sample_hist demo_measure (demo_measure_args\<lparr>ma_name := None\<rparr>) demo_fs = (VerbExit status, s')
    \<and> (\<exists>url_fp rid b. map_of (fs_disk s') (path_join (run_dir ''.zerobench'' url_fp rid) ''result.json'') = Some (FileNode b True))"
proof -
  let ?A = "demo_measure_args\<lparr>ma_name := None\<rparr>" and ?W = "mw_archive demo_measure"
  have W: "?W = demo_archive" by (simp add: demo_measure_def)
  obtain t pl where prep: "measure_prepare demo_measure ?A = Inr (t, pl, ''10.0.0.1:81'')" and name: "pl_name pl = ''h''"
    by (rule demo_prepared [of None]) simp
  obtain n where plan: "build_measure_plan (mw_world demo_measure) ?A n = Inr pl" using prepared_plan [OF prep] by metis
  obtain a s1 where b: "session_begin ?W pl t [''10.0.0.1:81''] False (ma_context ?A) (ma_no_calibrate ?A) False
      (mw_features demo_measure) (mw_version demo_measure) demo_fs = Some (Inr a, s1)"
    and fin: "\<And>sm runs p time comment pick. \<exists>s'. session_finalise ?W a sm runs p time comment pick s1 = (Inr (), s')"
    unfolding W
    by (rule demo_session [where pl = pl and t = t and resolved = "[''10.0.0.1:81'']" and ctx = "ma_context ?A"
          and skipped = "ma_no_calibrate ?A" and overload = False and features = "mw_features demo_measure"
          and version = "mw_version demo_measure"]) (simp_all add: name)
  let ?hn = "harness_new t (build_transport_opts ?A) (ma_threads ?A) (ma_connections ?A) (ma_rate ?A) (tg_tls t)"
  obtain stats per_run where loop: "runs_loop sample_hist (aw_query ?W) ?A pl ?hn (mw_warm demo_measure) (mw_run demo_measure)
      0 (unat (ma_runs ?A)) = Some (stats, per_run)"
    using runs_loop_ok [where run_E = "mw_run demo_measure", OF plan demo_env_runs, where n = "unat (ma_runs ?A)" and
        H = sample_hist and hn = ?hn and i = 0 and Q = "aw_query ?W"] by blast
  have on: "\<not> ma_no_archive ?A" by (simp add: demo_measure_args_def)
  then have run: "measure_run sample_hist demo_measure ?A demo_fs = measure_finish sample_hist demo_measure ?A t pl a s1"
    using b by (simp add: measure_run_def prep demo_gates)
  obtain sf where "session_finalise ?W a (summary_merge sample_hist stats (total_measured ?A)) per_run pl (total_measured ?A)
      (histlog_comment (mw_version demo_measure) (pl_name pl) (ma_url ?A) (as_run_id a)) (pick_primary_histogram (aw_query ?W)) s1
      = (Inr (), sf)" using fin by blast
  then obtain status where m: "measure_run sample_hist demo_measure ?A demo_fs = (VerbExit status, sf)"
    using run loop by (simp add: measure_finish_def Let_def)
  show ?thesis using measure_reports [OF demo_env_runs m] m on by (auto simp: archived_def W demo_resolve)
qed

end
