(* ===== verification/F64.thy ===== *)
theory F64
  imports Prelude Complex_Main "HOL-Library.Log_Nat"
begin

text \<open>
  Arithmetic on \<open>f64\<close>, the binary64 format of IEEE 754 with rounding to nearest, ties to even: values as
  rational numbers, comparison, the four operations, conversions from and to \<open>u64\<close>, and the library
  functions \<open>abs\<close>, \<open>min\<close>, \<open>max\<close> and \<open>round\<close> of Rust. A NaN result is the quiet NaN without payload. Operations
  are exact on values and then rounded, and rounding is monotone and keeps what can be represented, from
  which clients get their bounds.
\<close>

section \<open>Rounding\<close>

definition round_even :: "rat \<Rightarrow> int" where
  "round_even q =
     (let f = \<lfloor>q\<rfloor>; r = q - of_int f
      in if r < 1 / 2 then f else if 1 / 2 < r then f + 1 else if even f then f else f + 1)"

lemma round_even_int [simp]: "round_even (of_int z) = z"
  by (simp add: round_even_def)

lemma round_even_numerals [simp]: "round_even (numeral k) = numeral k" "round_even 0 = 0" "round_even (of_nat n) = int n"
  using round_even_int [of "numeral k"] round_even_int [of 0] round_even_int [of "int n"] by simp_all

lemma round_even_near: "\<lfloor>q\<rfloor> \<le> round_even q" "round_even q \<le> \<lfloor>q\<rfloor> + 1"
  by (simp_all add: round_even_def Let_def)

lemma round_even_mono:
  assumes "p \<le> q"
  shows "round_even p \<le> round_even q"
proof (cases "\<lfloor>p\<rfloor> = \<lfloor>q\<rfloor>")
  case True
  then show ?thesis using assms by (auto simp: round_even_def Let_def)
next
  case False
  then have "\<lfloor>p\<rfloor> + 1 \<le> \<lfloor>q\<rfloor>" using floor_mono [OF assms] by simp
  then show ?thesis using round_even_near [of p] round_even_near [of q] by linarith
qed

text \<open>The exponent of a positive number: the power of two at or below it.\<close>

definition rat_exp :: "rat \<Rightarrow> int" where
  "rat_exp q =
     (let (a, b) = quotient_of q; k = int (floorlog 2 (nat a)) - int (floorlog 2 (nat b))
      in if 2 powi k \<le> q then k else k - 1)"

lemma nat_exponent:
  assumes "0 < a"
  shows "2 powi (int (floorlog 2 (nat a)) - 1) \<le> (of_int a :: rat)" "(of_int a :: rat) < 2 powi (int (floorlog 2 (nat a)))"
proof -
  define l where "l = floorlog 2 (nat a)"
  have b: "2 ^ (l - 1) \<le> nat a" "nat a < 2 ^ l" using floorlog_bounds [of "nat a" 2] assms by (simp_all add: l_def)
  have "0 < l" using b assms by (cases l) auto
  then have l: "int l - 1 = int (l - 1)" by simp
  have "(of_nat (2 ^ (l - 1)) :: rat) \<le> of_nat (nat a)" "(of_nat (nat a) :: rat) < of_nat (2 ^ l)"
    using b by (simp_all only: of_nat_le_iff of_nat_less_iff)
  then have "2 ^ (l - 1) \<le> (of_int a :: rat)" "(of_int a :: rat) < 2 ^ l" using assms by simp_all
  then show "2 powi (int (floorlog 2 (nat a)) - 1) \<le> (of_int a :: rat)" "(of_int a :: rat) < 2 powi (int (floorlog 2 (nat a)))"
    unfolding l_def [symmetric] l power_int_of_nat .
qed

lemma rat_exp_bounds:
  assumes "0 < q"
  shows "2 powi (rat_exp q) \<le> q" "q < 2 powi (rat_exp q + 1)"
proof -
  obtain a b where ab: "quotient_of q = (a, b)" by (cases "quotient_of q")
  then have q: "q = of_int a / of_int b" and b: "0 < b" by (simp_all add: quotient_of_div quotient_of_denom_pos)
  with assms have a: "0 < a" by (simp add: zero_less_divide_iff)
  define la lb where "la = int (floorlog 2 (nat a))" and "lb = int (floorlog 2 (nat b))"
  have pos: "(0 :: rat) < 2 powi n" for n by simp
  have "q < 2 powi la / 2 powi (lb - 1)" unfolding q
    using nat_exponent [OF a] nat_exponent [OF b] pos a b by (intro frac_less) (simp_all add: la_def lb_def)
  also have "\<dots> = 2 powi (la - lb + 1)" by (simp add: power_int_diff power_int_add)
  finally have up: "q < 2 powi (la - lb + 1)" .
  have "2 powi (la - 1) / 2 powi lb < q" unfolding q
    using nat_exponent [OF a] nat_exponent [OF b] pos a b by (intro frac_less2) (simp_all add: la_def lb_def)
  also have "2 powi (la - 1) / 2 powi lb = (2 powi (la - lb - 1) :: rat)" by (simp add: power_int_diff)
  finally have low: "2 powi (la - lb - 1) \<le> q" by simp
  show "2 powi (rat_exp q) \<le> q" "q < 2 powi (rat_exp q + 1)"
    using up low by (auto simp: rat_exp_def ab Let_def la_def lb_def)
qed

lemma powi_less_iff: "(2 :: rat) powi m < 2 powi n \<longleftrightarrow> m < n"
  by (metis linorder_not_less one_less_numeral_iff order.order_iff_strict power_int_increasing power_int_strict_increasing semiring_norm(76))

lemma rat_exp_unique: "2 powi e \<le> q \<Longrightarrow> q < 2 powi (e + 1) \<Longrightarrow> rat_exp q = e"
proof -
  assume e: "2 powi e \<le> q" "q < 2 powi (e + 1)"
  then have "0 < q" by (meson dual_order.strict_trans1 zero_less_numeral zero_less_power_int)
  from rat_exp_bounds [OF this] e have "rat_exp q < e + 1" "e < rat_exp q + 1"
    by (metis order.strict_trans1 powi_less_iff)+
  then show ?thesis by simp
qed

lemma rat_exp_mono: "0 < p \<Longrightarrow> p \<le> q \<Longrightarrow> rat_exp p \<le> rat_exp q"
  using rat_exp_bounds [of p] rat_exp_bounds [of q] powi_less_iff [of "rat_exp p" "rat_exp q + 1"] by force

section \<open>The format\<close>

abbreviation F64_INF :: nat where "F64_INF \<equiv> 0x7FF0000000000000"

text \<open>
  The low 63 bits of the number nearest to a rational that is not negative: exponent and fraction of a
  number are adjacent, so a carry of the rounded fraction moves on to the next exponent.
\<close>

definition mag_of_rat :: "rat \<Rightarrow> nat" where
  "mag_of_rat q =
     (if q \<le> 0 then 0
      else (let e = max (rat_exp q) (- 1022)
            in min (nat ((e + 1022) * 2 ^ 52 + round_even (q / 2 powi (e - 52)))) F64_INF))"

definition val_of_mag :: "nat \<Rightarrow> rat" where
  "val_of_mag n =
     (if n < 2 ^ 52 then of_nat n * 2 powi (- 1074)
      else of_nat (2 ^ 52 + n mod 2 ^ 52) * 2 powi (int (n div 2 ^ 52) - 1075))"

abbreviation F64_ONE :: f64 where "F64_ONE \<equiv> 0x3FF0000000000000"

abbreviation F64_EPSILON :: f64 where "F64_EPSILON \<equiv> 0x3CB0000000000000"

definition f64_mag :: "f64 \<Rightarrow> nat" where "f64_mag x = unat x mod 2 ^ 63"

definition f64_sign :: "f64 \<Rightarrow> bool" where "f64_sign x = (2 ^ 63 \<le> unat x)"

definition f64_nan :: "f64 \<Rightarrow> bool" where "f64_nan x = (F64_INF < f64_mag x)"

definition f64_fin :: "f64 \<Rightarrow> bool" where "f64_fin x = (f64_mag x < F64_INF)"

definition f64_val :: "f64 \<Rightarrow> rat" where
  "f64_val x = (if f64_sign x then - val_of_mag (f64_mag x) else val_of_mag (f64_mag x))"

definition f64_make :: "bool \<Rightarrow> nat \<Rightarrow> f64" where
  "f64_make neg n = (if neg then of_nat (2 ^ 63 + n) else of_nat n)"

definition NAN :: f64 where "NAN = 0x7FF8000000000000"

text \<open>The rounded number; a zero has the given sign.\<close>

definition f64_of_rat :: "bool \<Rightarrow> rat \<Rightarrow> f64" where
  "f64_of_rat neg q = f64_make (q < 0 \<or> q = 0 \<and> neg) (mag_of_rat \<bar>q\<bar>)"

section \<open>Operations\<close>

definition f64_key :: "f64 \<Rightarrow> int" where
  "f64_key x = (if f64_sign x then - int (f64_mag x) else int (f64_mag x))"

definition f64_lt :: "f64 \<Rightarrow> f64 \<Rightarrow> bool" where
  "f64_lt x y = (\<not> f64_nan x \<and> \<not> f64_nan y \<and> f64_key x < f64_key y)"

definition f64_le :: "f64 \<Rightarrow> f64 \<Rightarrow> bool" where
  "f64_le x y = (\<not> f64_nan x \<and> \<not> f64_nan y \<and> f64_key x \<le> f64_key y)"

definition f64_abs :: "f64 \<Rightarrow> f64" where "f64_abs x = f64_make False (f64_mag x)"

definition f64_minus :: "f64 \<Rightarrow> f64" where "f64_minus x = f64_make (\<not> f64_sign x) (f64_mag x)"

text \<open>Of two equal zeros either may be the result of \<open>max\<close> and \<open>min\<close>; it is the first one here.\<close>

definition f64_max :: "f64 \<Rightarrow> f64 \<Rightarrow> f64" where
  "f64_max x y = (if f64_nan x then y else if f64_lt x y then y else x)"

definition f64_min :: "f64 \<Rightarrow> f64 \<Rightarrow> f64" where
  "f64_min x y = (if f64_nan x then y else if f64_lt y x then y else x)"

definition f64_add :: "f64 \<Rightarrow> f64 \<Rightarrow> f64" where
  "f64_add x y =
     (if f64_nan x \<or> f64_nan y then NAN
      else if \<not> f64_fin x then (if \<not> f64_fin y \<and> f64_sign x \<noteq> f64_sign y then NAN else x)
      else if \<not> f64_fin y then y
      else f64_of_rat (f64_sign x \<and> f64_sign y) (f64_val x + f64_val y))"

definition f64_sub :: "f64 \<Rightarrow> f64 \<Rightarrow> f64" where "f64_sub x y = f64_add x (f64_minus y)"

definition f64_mul :: "f64 \<Rightarrow> f64 \<Rightarrow> f64" where
  "f64_mul x y =
     (let neg = (f64_sign x \<noteq> f64_sign y) in
      if f64_nan x \<or> f64_nan y then NAN
      else if \<not> f64_fin x \<or> \<not> f64_fin y then
        (if f64_mag x = 0 \<or> f64_mag y = 0 then NAN else f64_make neg F64_INF)
      else f64_of_rat neg (f64_val x * f64_val y))"

definition f64_div :: "f64 \<Rightarrow> f64 \<Rightarrow> f64" where
  "f64_div x y =
     (let neg = (f64_sign x \<noteq> f64_sign y) in
      if f64_nan x \<or> f64_nan y then NAN
      else if \<not> f64_fin x then (if \<not> f64_fin y then NAN else f64_make neg F64_INF)
      else if \<not> f64_fin y then f64_make neg 0
      else if f64_mag y = 0 then (if f64_mag x = 0 then NAN else f64_make neg F64_INF)
      else f64_of_rat neg (f64_val x / f64_val y))"

text \<open>The casts \<open>as f64\<close> and \<open>as u64\<close>, which saturates, and \<open>round\<close>, away from zero in ties.\<close>

definition f64_of_nat :: "nat \<Rightarrow> f64" where "f64_of_nat n = f64_of_rat False (of_nat n)"

definition u64_of_f64 :: "f64 \<Rightarrow> u64" where
  "u64_of_f64 x =
     (if f64_nan x then 0
      else if \<not> f64_fin x then (if f64_sign x then 0 else 2 ^ 64 - 1)
      else of_nat (min (nat \<lfloor>f64_val x\<rfloor>) (2 ^ 64 - 1)))"

definition f64_round :: "f64 \<Rightarrow> f64" where
  "f64_round x =
     (if \<not> f64_fin x then x
      else f64_of_rat (f64_sign x) (of_int (if f64_sign x then - \<lfloor>1 / 2 - f64_val x\<rfloor> else \<lfloor>f64_val x + 1 / 2\<rfloor>)))"

text \<open>\<open>as_secs_f64\<close> of a duration in nanoseconds, and \<open>clamp\<close>.\<close>

definition secs_f64 :: "duration \<Rightarrow> f64" where
  "secs_f64 d = f64_add (f64_of_nat (d div 1000000000)) (f64_div (f64_of_nat (d mod 1000000000)) (f64_of_nat 1000000000))"

definition f64_clamp :: "f64 \<Rightarrow> f64 \<Rightarrow> f64 \<Rightarrow> f64" where
  "f64_clamp x lo hi = (if f64_lt x lo then lo else if f64_lt hi x then hi else x)"

abbreviation f64_of_u64 :: "u64 \<Rightarrow> f64" where "f64_of_u64 x \<equiv> f64_of_nat (unat x)"

section \<open>Rounding is monotone and keeps numbers\<close>

lemma mag_shape:
  assumes "0 < q"
  obtains e m where "e = max (rat_exp q) (- 1022)" "m = round_even (q / 2 powi (e - 52))" "0 \<le> m" "m \<le> 2 ^ 53"
    "- 1022 < e \<Longrightarrow> 2 ^ 52 \<le> m" "mag_of_rat q = min (nat ((e + 1022) * 2 ^ 52 + m)) F64_INF"
proof -
  define e where "e = max (rat_exp q) (- 1022)"
  define m where "m = round_even (q / 2 powi (e - 52))"
  have pos: "(0 :: rat) < 2 powi n" for n by simp
  have "q < 2 powi (e + 1)"
    using rat_exp_bounds(2) [OF assms] power_int_increasing [of "rat_exp q + 1" "e + 1" "2 :: rat"] by (simp add: e_def)
  then have "q / 2 powi (e - 52) \<le> 2 powi (e + 1) / 2 powi (e - 52)" by (intro divide_right_mono) simp_all
  also have "\<dots> = of_int (2 ^ 53)" by (simp flip: power_int_diff)
  finally have up: "m \<le> 2 ^ 53" using round_even_mono [of "q / 2 powi (e - 52)" "of_int (2 ^ 53)"] by (simp add: m_def)
  have low: "0 \<le> m"
    using round_even_mono [of "of_int 0" "q / 2 powi (e - 52)"] assms pos by (simp add: m_def)
  have norm: "2 ^ 52 \<le> m" if "- 1022 < e"
  proof -
    have "e = rat_exp q" using that by (simp add: e_def max_def split: if_splits)
    then have "2 powi e / 2 powi (e - 52) \<le> q / 2 powi (e - 52)"
      using rat_exp_bounds(1) [OF assms] by (intro divide_right_mono) simp_all
    moreover have "2 powi e / 2 powi (e - 52) = (of_int (2 ^ 52) :: rat)" by (simp flip: power_int_diff)
    ultimately show ?thesis using round_even_mono [of "of_int (2 ^ 52)" "q / 2 powi (e - 52)"] by (simp add: m_def)
  qed
  show thesis
    by (rule that [OF e_def m_def low up norm]) (use assms in \<open>simp_all add: mag_of_rat_def Let_def e_def m_def\<close>)
qed

lemma mag_of_rat_mono:
  assumes "p \<le> q"
  shows "mag_of_rat p \<le> mag_of_rat q"
proof (cases "0 < p")
  case False
  then show ?thesis by (simp add: mag_of_rat_def)
next
  case True
  then have "0 < q" using assms by simp
  obtain e m where p: "e = max (rat_exp p) (- 1022)" "m = round_even (p / 2 powi (e - 52))" "m \<le> 2 ^ 53"
      "mag_of_rat p = min (nat ((e + 1022) * 2 ^ 52 + m)) F64_INF" using mag_shape [OF True] by metis
  obtain f n where q: "f = max (rat_exp q) (- 1022)" "n = round_even (q / 2 powi (f - 52))" "- 1022 < f \<Longrightarrow> 2 ^ 52 \<le> n"
      "mag_of_rat q = min (nat ((f + 1022) * 2 ^ 52 + n)) F64_INF" using mag_shape [OF \<open>0 < q\<close>] by metis
  have "(e + 1022) * 2 ^ 52 + m \<le> (f + 1022) * 2 ^ 52 + n"
  proof (cases "e = f")
    case True
    then have "m \<le> n" using assms p(2) q(2) by (simp add: round_even_mono divide_right_mono)
    then show ?thesis using True by simp
  next
    case False
    then have "e + 1 \<le> f" using rat_exp_mono [OF \<open>0 < p\<close> assms] p(1) q(1) by simp
    moreover have "- 1022 < f" using calculation p(1) by simp
    ultimately show ?thesis using p(3) q(3) by simp
  qed
  then show ?thesis by (simp add: p(4) q(4) min_le_iff_disj nat_mono le_max_iff_disj)
qed

lemma mag_of_rat_max: "mag_of_rat q \<le> F64_INF"
  by (simp add: mag_of_rat_def Let_def)

lemma val_of_mag_nonneg: "0 \<le> val_of_mag n"
  by (simp add: val_of_mag_def)

lemma mag_of_val:
  assumes "n < F64_INF"
  shows "mag_of_rat (val_of_mag n) = n"
proof -
  have pos: "(0 :: rat) < 2 powi k" for k by simp
  consider "n = 0" | (sub) "0 < n" "n < 2 ^ 52" | (norm) "2 ^ 52 \<le> n" by linarith
  then show ?thesis
  proof cases
    case sub
    let ?q = "of_nat n * 2 powi (- 1074) :: rat"
    have "?q < 2 ^ 52 * 2 powi (- 1074)" using sub(2) by (intro mult_strict_right_mono) (simp_all flip: of_nat_less_iff)
    also have "\<dots> = 2 powi (52 + - 1074)" by (subst power_int_add) simp_all
    finally have q: "0 < ?q" "?q < 2 powi (- 1022)" using sub(1) by simp_all
    have "rat_exp ?q < - 1022"
      using rat_exp_bounds(1) [OF q(1)] q(2) powi_less_iff [of "rat_exp ?q" "- 1022"] by linarith
    then have "max (rat_exp ?q) (- 1022) = - 1022" by simp
    moreover have "?q / 2 powi (- 1074) = of_int (int n)" by simp
    ultimately show ?thesis using q(1) sub assms
      by (simp add: mag_of_rat_def val_of_mag_def Let_def del: of_int_of_nat_eq)
  next
    case norm
    define E F where "E = n div 2 ^ 52" and "F = n mod 2 ^ 52"
    have n: "n = E * 2 ^ 52 + F" "F < 2 ^ 52" by (simp_all add: E_def F_def)
    have E: "1 \<le> E" "E < 2047" using norm assms by (auto simp: E_def div_le_mono Suc_le_eq div_greater_zero_iff less_mult_imp_div_less)
    let ?q = "of_nat (2 ^ 52 + F) * 2 powi (int E - 1075) :: rat"
    have two: "2 powi (int E - 1075 + k) = 2 powi k * (2 powi (int E - 1075) :: rat)" for k by (simp add: power_int_add)
    have "2 powi (int E - 1023) \<le> ?q" using two [of 52] by (simp add: mult_right_mono)
    moreover have "?q < 2 powi (int E - 1023 + 1)"
      using two [of 53] n(2) by (simp add: mult_strict_right_mono flip: of_nat_less_iff)
    ultimately have e: "rat_exp ?q = int E - 1023" by (rule rat_exp_unique)
    have "?q / 2 powi (int E - 1023 - 52) = of_int (int (2 ^ 52 + F))" by simp
    then have "round_even (?q / 2 powi (int E - 1023 - 52)) = int (2 ^ 52 + F)" by (simp only: round_even_int)
    moreover have "\<not> ?q \<le> 0" using pos by (simp add: mult_le_0_iff not_le)
    moreover have "max (int E - 1023) (- 1022) = int E - 1023" "int E - 1023 + 1022 = int E - 1" using E by simp_all
    ultimately have "mag_of_rat ?q = min (nat ((int E - 1) * 2 ^ 52 + int (2 ^ 52 + F))) F64_INF"
      unfolding mag_of_rat_def e Let_def by (simp only: if_False)
    also have "(int E - 1) * 2 ^ 52 + int (2 ^ 52 + F) = int n" using n(1) by (simp add: algebra_simps)
    finally show ?thesis using norm assms by (simp add: val_of_mag_def E_def F_def)
  qed (simp add: mag_of_rat_def val_of_mag_def)
qed

section \<open>Bounds for clients\<close>

lemma f64_make_parts:
  assumes "n < 2 ^ 63"
  shows "f64_mag (f64_make neg n) = n" "f64_sign (f64_make neg n) = neg"
proof -
  have "unat (f64_make neg n) = (if neg then 2 ^ 63 + n else n)"
    using assms by (simp add: f64_make_def unsigned_of_nat take_bit_nat_eq_self_iff del: of_nat_add of_nat_numeral)
  then show "f64_mag (f64_make neg n) = n" "f64_sign (f64_make neg n) = neg"
    using assms by (simp_all add: f64_mag_def f64_sign_def)
qed

lemma f64_mag_less: "f64_mag x < 2 ^ 63"
  by (simp add: f64_mag_def)

lemma of_rat_parts:
  "f64_mag (f64_of_rat neg q) = mag_of_rat \<bar>q\<bar>" "f64_sign (f64_of_rat neg q) \<longleftrightarrow> q < 0 \<or> q = 0 \<and> neg"
  "\<not> f64_nan (f64_of_rat neg q)"
proof -
  have "mag_of_rat \<bar>q\<bar> < 2 ^ 63" using mag_of_rat_max [of "\<bar>q\<bar>"] by simp
  note f64_make_parts [OF this]
  then show "f64_mag (f64_of_rat neg q) = mag_of_rat \<bar>q\<bar>" "f64_sign (f64_of_rat neg q) \<longleftrightarrow> q < 0 \<or> q = 0 \<and> neg"
      "\<not> f64_nan (f64_of_rat neg q)"
    using mag_of_rat_max [of "\<bar>q\<bar>"] by (simp_all add: f64_of_rat_def f64_nan_def not_less)
qed

lemma key_of_rat: "f64_key (f64_of_rat neg q) = (if q < 0 then - int (mag_of_rat (- q)) else int (mag_of_rat q))"
  by (auto simp: f64_key_def of_rat_parts mag_of_rat_def)

lemma key_of_rat_mono: "p \<le> q \<Longrightarrow> f64_key (f64_of_rat m p) \<le> f64_key (f64_of_rat n q)"
  using mag_of_rat_mono [of p q] mag_of_rat_mono [of "- q" "- p"]
  by (auto simp: key_of_rat)

lemma f64_val_key: "f64_val x = (if f64_key x < 0 then - val_of_mag (nat (- f64_key x)) else val_of_mag (nat (f64_key x)))"
  by (auto simp: f64_val_def f64_key_def val_of_mag_def)

lemma key_of_val:
  assumes "f64_fin x"
  shows "f64_key (f64_of_rat neg (f64_val x)) = f64_key x"
proof -
  have m: "mag_of_rat (val_of_mag (f64_mag x)) = f64_mag x"
    by (rule mag_of_val) (use assms in \<open>simp add: f64_fin_def\<close>)
  have zero: "f64_mag x = 0" if "val_of_mag (f64_mag x) = 0" using m that by (simp add: mag_of_rat_def)
  have none: "mag_of_rat 0 = 0" by (simp add: mag_of_rat_def)
  show ?thesis
  proof (cases "val_of_mag (f64_mag x) = 0")
    case True
    then show ?thesis using zero none by (simp add: key_of_rat f64_key_def f64_val_def of_rat_parts)
  next
    case False
    then have "0 < val_of_mag (f64_mag x)" using val_of_mag_nonneg [of "f64_mag x"] by linarith
    then show ?thesis using m by (simp add: key_of_rat f64_key_def f64_val_def of_rat_parts)
  qed
qed

text \<open>Numbers are ordered like their keys.\<close>

lemma val_mono:
  assumes "f64_fin x" "f64_fin y"
  shows "f64_key x \<le> f64_key y \<longleftrightarrow> f64_val x \<le> f64_val y"
proof
  assume "f64_val x \<le> f64_val y"
  then show "f64_key x \<le> f64_key y" using key_of_rat_mono key_of_val assms by metis
next
  assume k: "f64_key x \<le> f64_key y"
  show "f64_val x \<le> f64_val y"
  proof (rule ccontr)
    assume less: "\<not> f64_val x \<le> f64_val y"
    then have "f64_key y \<le> f64_key x" using key_of_rat_mono key_of_val assms by (metis linear)
    then have "f64_key x = f64_key y" using k by simp
    then have "f64_val x = f64_val y" by (simp only: f64_val_key)
    then show False using less by simp
  qed
qed

lemma fin_not_nan [simp]: "f64_fin x \<Longrightarrow> \<not> f64_nan x"
  by (simp add: f64_fin_def f64_nan_def)

lemma le_val_iff: "f64_fin x \<Longrightarrow> f64_fin y \<Longrightarrow> f64_le x y \<longleftrightarrow> f64_val x \<le> f64_val y"
  by (simp add: f64_le_def val_mono)

lemma lt_val_iff: "f64_fin x \<Longrightarrow> f64_fin y \<Longrightarrow> f64_lt x y \<longleftrightarrow> f64_val x < f64_val y"
  using val_mono [of y x] by (auto simp: f64_lt_def)

text \<open>A number below an exact result is below the rounded one, and the other way round.\<close>

lemma le_of_rat: "f64_fin x \<Longrightarrow> f64_val x \<le> q \<Longrightarrow> f64_le x (f64_of_rat neg q)"
  using key_of_rat_mono [of "f64_val x" q False neg] by (simp add: f64_le_def of_rat_parts key_of_val)

lemma of_rat_le: "f64_fin x \<Longrightarrow> q \<le> f64_val x \<Longrightarrow> f64_le (f64_of_rat neg q) x"
  using key_of_rat_mono [of q "f64_val x" neg False] by (simp add: f64_le_def of_rat_parts key_of_val)

lemma f64_le_trans: "f64_le x y \<Longrightarrow> f64_le y z \<Longrightarrow> f64_le x z"
  by (simp add: f64_le_def)

lemma f64_le_refl: "\<not> f64_nan x \<Longrightarrow> f64_le x x"
  by (simp add: f64_le_def)

lemma fin_key: "f64_fin x \<longleftrightarrow> \<bar>f64_key x\<bar> < int F64_INF"
  by (auto simp: f64_fin_def f64_key_def)

lemma fin_between:
  assumes "f64_le x y" "f64_le y z" "f64_fin x" "f64_fin z"
  shows "f64_fin y"
  using assms by (auto simp: fin_key f64_le_def)

lemma f64_one: "f64_fin F64_ONE" "f64_val F64_ONE = 1"
  by (simp_all add: f64_fin_def f64_mag_def f64_val_def f64_sign_def val_of_mag_def)

lemma f64_zero: "f64_fin 0" "f64_val 0 = 0"
  by (simp_all add: f64_fin_def f64_mag_def f64_val_def f64_sign_def val_of_mag_def)

lemma f64_two_64: "f64_fin 0x43F0000000000000" "f64_val 0x43F0000000000000 = 2 ^ 64"
  by (simp_all add: f64_fin_def f64_mag_def f64_val_def f64_sign_def val_of_mag_def)

text \<open>Counts as numbers.\<close>

lemma of_nat_bounds:
  "f64_le 0 (f64_of_nat n)"
  "1 \<le> n \<Longrightarrow> f64_le F64_ONE (f64_of_nat n)"
  "n \<le> 2 ^ 64 \<Longrightarrow> f64_le (f64_of_nat n) 0x43F0000000000000"
proof -
  show "f64_le 0 (f64_of_nat n)" unfolding f64_of_nat_def by (rule le_of_rat) (simp_all add: f64_zero)
  show "f64_le F64_ONE (f64_of_nat n)" if "1 \<le> n"
    unfolding f64_of_nat_def by (rule le_of_rat [OF f64_one(1)]) (use that in \<open>simp add: f64_one\<close>)
  show "f64_le (f64_of_nat n) 0x43F0000000000000" if n: "n \<le> 2 ^ 64"
  proof -
    have "(of_nat n :: rat) \<le> of_nat (2 ^ 64)" using n by (simp only: of_nat_le_iff)
    then show ?thesis unfolding f64_of_nat_def by (intro of_rat_le f64_two_64) (simp add: f64_two_64)
  qed
qed

lemma of_nat_fin: "n \<le> 2 ^ 64 \<Longrightarrow> f64_fin (f64_of_nat n)"
  using fin_between [OF of_nat_bounds(1) of_nat_bounds(3)] by (simp add: f64_zero f64_two_64)

lemma of_nat_val: "n \<le> 2 ^ 64 \<Longrightarrow> 0 \<le> f64_val (f64_of_nat n)" "n \<le> 2 ^ 64 \<Longrightarrow> 1 \<le> n \<Longrightarrow> 1 \<le> f64_val (f64_of_nat n)"
  using of_nat_bounds(1,2) [of n] of_nat_fin [of n] by (simp_all add: le_val_iff f64_zero f64_one)

lemma of_nat_mono: "m \<le> n \<Longrightarrow> f64_le (f64_of_nat m) (f64_of_nat n)"
  by (simp add: f64_of_nat_def f64_le_def of_rat_parts key_of_rat_mono)

lemma of_nat_val_mono: "m \<le> n \<Longrightarrow> n \<le> 2 ^ 64 \<Longrightarrow> f64_val (f64_of_nat m) \<le> f64_val (f64_of_nat n)"
  using of_nat_mono [of m n] of_nat_fin [of m] of_nat_fin [of n] by (simp add: le_val_iff)

text \<open>A part of a positive count is a number from zero to one.\<close>

lemma ratio_bounds:
  assumes "m \<le> n" "0 < n" "n \<le> 2 ^ 64"
  shows "f64_le 0 (f64_div (f64_of_nat m) (f64_of_nat n))" "f64_le (f64_div (f64_of_nat m) (f64_of_nat n)) F64_ONE"
proof -
  have v: "0 \<le> f64_val (f64_of_nat m)" "1 \<le> f64_val (f64_of_nat n)" "f64_val (f64_of_nat m) \<le> f64_val (f64_of_nat n)"
    using assms of_nat_val [of m] of_nat_val [of n] of_nat_val_mono [of m n] by simp_all
  have fin: "f64_fin (f64_of_nat m)" "f64_fin (f64_of_nat n)" using assms of_nat_fin by simp_all
  have "f64_mag (f64_of_nat n) \<noteq> 0"
    using v(2) by (rule contrapos_pn) (simp add: f64_val_def val_of_mag_def)
  then obtain neg where d: "f64_div (f64_of_nat m) (f64_of_nat n) = f64_of_rat neg (f64_val (f64_of_nat m) / f64_val (f64_of_nat n))"
    using fin by (auto simp: f64_div_def Let_def)
  show "f64_le 0 (f64_div (f64_of_nat m) (f64_of_nat n))"
    unfolding d by (rule le_of_rat) (use v in \<open>simp_all add: f64_zero\<close>)
  show "f64_le (f64_div (f64_of_nat m) (f64_of_nat n)) F64_ONE"
    unfolding d by (rule of_rat_le) (use v in \<open>simp_all add: f64_one\<close>)
qed

end
