(* ===== verification/RateCurve.thy ===== *)
theory RateCurve
  imports Measure F64
begin

text \<open>
  The verb \<open>curve\<close>, \<open>zerobench-cli/src/verbs/curve.rs\<close>: a ladder of offered rates in geometric steps, one
  run for each, the knee of the curve, and what is archived of it. The surroundings are those of \<open>measure\<close>
  with the duration measured for each step; \<open>powf\<close> of the platform's library is a parameter. A knee is
  reported with the numbers its text prints.
\<close>

section \<open>Arguments and plan\<close>

record curve_args =
  va_url :: string
  va_name :: "string option"
  va_from_rate :: f64
  va_to_rate :: f64
  va_over :: duration
  va_steps :: u32
  va_knee_p99_mult :: f64
  va_knee_error_rate :: f64
  va_connections :: nat
  va_threads :: nat
  va_connect_timeout :: duration
  va_request_timeout :: duration
  va_insecure :: bool
  va_no_calibrate :: bool
  va_force_overload :: bool
  va_no_archive :: bool

datatype curve_error =
    CvRange
  | CvSteps
  | CvOver
  | CvTarget target_error
  | CvTemplate template_error
  | CvResolve resolve_error
  | CvCalibrate calibrate_error
  | CvIo io_error

definition curve_transport_opts :: "curve_args \<Rightarrow> transport_opts" where
  "curve_transport_opts args = default_transport_opts\<lparr>to_connect_timeout := va_connect_timeout args,
     to_request_timeout := va_request_timeout args, to_max_conns := va_connections args, to_tcp_nodelay := True,
     to_insecure_tls := va_insecure args\<rparr>"

definition build_curve_plan :: "'r world \<Rightarrow> curve_args \<Rightarrow> string \<Rightarrow> template_error + plan" where
  "build_curve_plan W args name =
     (case compile_template W (va_url args) comp_new of
        (st, Inl e) \<Rightarrow> Inl e
      | (st, Inr url) \<Rightarrow>
          (let b = builder_new\<lparr>pb_name := name, pb_duration := va_over args, pb_threads := va_threads args,
                 pb_mode := Curve (va_from_rate args) (va_to_rate args) (va_over args) (P99Ratio (va_knee_p99_mult args)),
                 pb_vars := co_vars st\<rparr>
           in Inr (builder_finalize
                (push_scenario (scenario_http_request ''curve'' (Constant (va_from_rate args)) (request_get url)) b))))"

section \<open>Steps\<close>

record step_result =
  sp_offered :: f64
  sp_achieved :: f64
  sp_requests :: u64
  sp_p50_ns :: u64
  sp_p99_ns :: u64
  sp_err_rate :: f64

definition step_result_for :: "'h hist_query \<Rightarrow> f64 \<Rightarrow> 'h summary \<Rightarrow> duration \<Rightarrow> step_result" where
  "step_result_for Q offered sm elapsed =
     (let ts = sm_stats sm; requests = ts_requests ts in
      \<lparr>sp_offered = offered, sp_achieved = f64_div (f64_of_u64 requests) (secs_f64 elapsed), sp_requests = requests,
       sp_p50_ns = hq_percentile Q (ts_latency ts) P50, sp_p99_ns = hq_percentile Q (ts_latency ts) P99,
       sp_err_rate = (if requests = 0 then F64_ONE
         else f64_div (f64_of_u64 (ec_total (ts_errors ts))) (f64_of_u64 requests))\<rparr>)"

text \<open>The rate of step \<open>i\<close>: from the lowest to the highest in equal ratios.\<close>

definition offered_rate :: "(f64 \<Rightarrow> f64 \<Rightarrow> f64) \<Rightarrow> curve_args \<Rightarrow> nat \<Rightarrow> f64" where
  "offered_rate powf args i =
     (let ratio = f64_div (va_to_rate args) (va_from_rate args);
          frac = f64_div (f64_of_nat i) (f64_max (f64_sub (f64_of_nat (unat (va_steps args))) F64_ONE) F64_ONE)
      in f64_mul (va_from_rate args) (powf ratio frac))"

definition step_duration :: "curve_args \<Rightarrow> duration" where
  "step_duration args = va_over args div unat (max (va_steps args) 1)"

definition step_plan :: "plan \<Rightarrow> f64 \<Rightarrow> duration \<Rightarrow> plan" where
  "step_plan base offered dur =
     base\<lparr>pl_scenarios := (pl_scenarios base)[0 := (pl_scenarios base ! 0)\<lparr>sn_rate := Constant offered\<rparr>], pl_duration := dur\<rparr>"

definition run_plan_for_step ::
  "'h hist_ops \<Rightarrow> plan \<Rightarrow> run_harness \<Rightarrow> duration \<Rightarrow> f64 option \<Rightarrow> ('r, 'h) run_world \<Rightarrow> 'h task_stats list option" where
  "run_plan_for_step H pl hn dur offered E = run_plan (backend_runner H ((ctx_for hn dur E)\<lparr>rw_rps := offered\<rparr>)) pl"

text \<open>The loop over the ladder, from step \<open>i\<close> on.\<close>

fun curve_loop ::
  "'h hist_ops \<Rightarrow> 'h hist_query \<Rightarrow> (f64 \<Rightarrow> f64 \<Rightarrow> f64) \<Rightarrow> curve_args \<Rightarrow> plan \<Rightarrow> run_harness \<Rightarrow> (nat \<Rightarrow> ('r, 'h) run_world)
     \<Rightarrow> (nat \<Rightarrow> duration) \<Rightarrow> nat \<Rightarrow> nat \<Rightarrow> step_result list option" where
  "curve_loop H Q powf args base hn run_E elapsed i 0 = Some []"
| "curve_loop H Q powf args base hn run_E elapsed i (Suc n) =
     (let offered = offered_rate powf args i; dur = step_duration args in
      case run_plan_for_step H (step_plan base offered dur) hn dur (Some offered) (run_E i) of
        None \<Rightarrow> None
      | Some stats \<Rightarrow>
          map_option ((#) (step_result_for Q offered (summary_merge H stats (elapsed i)) (elapsed i)))
            (curve_loop H Q powf args base hn run_E elapsed (Suc i) n))"

section \<open>The knee\<close>

datatype knee_reason = KneeP99 f64 f64 | KneeErrors f64 f64

definition HUNDRED :: f64 where "HUNDRED = 0x4059000000000000"

definition knee_of_step :: "f64 \<Rightarrow> f64 \<Rightarrow> f64 \<Rightarrow> step_result \<Rightarrow> knee_reason option" where
  "knee_of_step baseline p99_mult err_rate_threshold s =
     (if f64_lt (f64_mul p99_mult baseline) (f64_of_u64 (sp_p99_ns s)) then
        Some (KneeP99 p99_mult (f64_div (f64_of_u64 (sp_p99_ns s)) baseline))
      else if f64_le err_rate_threshold (sp_err_rate s) then
        Some (KneeErrors (f64_mul (sp_err_rate s) HUNDRED) (f64_mul err_rate_threshold HUNDRED))
      else None)"

fun knee_from :: "f64 \<Rightarrow> f64 \<Rightarrow> f64 \<Rightarrow> nat \<Rightarrow> step_result list \<Rightarrow> (nat \<times> knee_reason) option" where
  "knee_from baseline p99_mult threshold i [] = None"
| "knee_from baseline p99_mult threshold i (s # ss) =
     (if i = 0 then knee_from baseline p99_mult threshold (Suc i) ss
      else (case knee_of_step baseline p99_mult threshold s of
          Some r \<Rightarrow> Some (i, r)
        | None \<Rightarrow> knee_from baseline p99_mult threshold (Suc i) ss))"

definition detect_knee :: "step_result list \<Rightarrow> u64 \<Rightarrow> f64 \<Rightarrow> f64 \<Rightarrow> (nat \<times> knee_reason) option" where
  "detect_knee steps baseline_p99 p99_mult threshold =
     knee_from (f64_of_u64 (max baseline_p99 1)) p99_mult threshold 0 steps"

section \<open>The archive\<close>

definition errors_none :: errors_export where
  "errors_none = \<lparr>ee_connect = 0, ee_read = 0, ee_write = 0, ee_timeout = 0, ee_keepup = 0, ee_status_4xx = 0,
     ee_status_5xx = 0, ee_assertion_failed = 0\<rparr>"

definition step_metrics :: "nat \<Rightarrow> step_result \<Rightarrow> per_run_metrics" where
  "step_metrics i s =
     \<lparr>pm_index = of_nat i, pm_rate_per_s = sp_achieved s, pm_requests = sp_requests s,
      pm_errors_total = u64_of_f64 (f64_mul (sp_err_rate s) (f64_of_u64 (sp_requests s))),
      pm_latency = latency_default\<lparr>le_count := sp_requests s, le_p50_ns := sp_p50_ns s, le_p99_ns := sp_p99_ns s\<rparr>,
      pm_protocol_latency = latency_default\<rparr>"

definition synthesise_summary_export :: "step_result list \<Rightarrow> duration \<Rightarrow> summary_export" where
  "synthesise_summary_export steps total_duration =
     (let total_requests = sum_list (map sp_requests steps) in
      \<lparr>ex_schema_version = SUMMARY_SCHEMA_VERSION, ex_duration_ns = of_nat (min total_duration U64_MAX),
       ex_requests = total_requests,
       ex_rate_per_s = (if f64_lt 0 (secs_f64 total_duration)
         then f64_div (f64_of_u64 total_requests) (secs_f64 total_duration) else 0),
       ex_bytes_sent = 0, ex_bytes_recv = 0, ex_latency = latency_default, ex_ttfb = latency_default,
       ex_errors = errors_none, ex_scenarios = [],
       ex_per_run = map (\<lambda>(i, s). step_metrics i s) (enumerate 0 steps)\<rparr>)"

definition summary_for_archive :: "'h hist_ops \<Rightarrow> summary_export \<Rightarrow> 'h summary" where
  "summary_for_archive H ex = summary_merge H [] 0"

section \<open>The verb\<close>

record ('r, 'm, 'h, 'ip) curve_world = "('r, 'm, 'h, 'ip) measure_world" +
  vw_elapsed :: "nat \<Rightarrow> duration"
  vw_powf :: "f64 \<Rightarrow> f64 \<Rightarrow> f64"

text \<open>An invocation that gets to its end has status zero, with or without a knee.\<close>

datatype curve_outcome = CurveError curve_error | CurveDone "(nat \<times> knee_reason) option" | CurvePanic | CurvePending

definition curve_prepare ::
  "('r, 'm, 'h, 'ip) curve_world \<Rightarrow> curve_args \<Rightarrow> curve_error + (target \<times> plan \<times> string)" where
  "curve_prepare MW args =
     (if f64_le (va_from_rate args) 0 \<or> f64_le (va_to_rate args) (va_from_rate args) then Inl CvRange
      else if va_steps args < 2 then Inl CvSteps
      else if va_over args = 0 then Inl CvOver
      else (case target_parse (va_url args) of
          Inl e \<Rightarrow> Inl (CvTarget e)
        | Inr t \<Rightarrow>
            (case build_curve_plan (mw_world MW) args
                    (case va_name args of Some n \<Rightarrow> n | None \<Rightarrow> tg_host t @ ''-curve'') of
               Inl e \<Rightarrow> Inl (CvTemplate e)
             | Inr pl \<Rightarrow>
                 (case target_resolve (mw_parse_ip MW) (mw_dns MW) (mw_is_v4 MW) (mw_is_v6 MW) t (curve_transport_opts args) of
                    Inl e \<Rightarrow> Inl (CvResolve e)
                  | Inr a \<Rightarrow> Inr (t, pl, mw_show_addr MW a)))))"

definition curve_gate :: "'h hist_ops \<Rightarrow> ('r, 'm, 'h, 'ip) curve_world \<Rightarrow> curve_args \<Rightarrow> curve_outcome + bool" where
  "curve_gate H MW args =
     (if va_no_calibrate args then Inr (va_force_overload args)
      else (case calibrate H (aw_query (mw_archive MW)) (mw_arith MW) (mw_check MW) (va_to_rate args) (secs 2)
                   (va_force_overload args) of
              None \<Rightarrow> Inl CurvePanic
            | Some CalPending \<Rightarrow> Inl CurvePending
            | Some (CalResult (Inl e)) \<Rightarrow> Inl (CurveError (CvCalibrate e))
            | Some (CalResult (Inr report)) \<Rightarrow> Inr (va_force_overload args \<or> cr_poisoned report)))"

definition curve_finish ::
  "'h hist_ops \<Rightarrow> ('r, 'm, 'h, 'ip) curve_world \<Rightarrow> curve_args \<Rightarrow> target \<Rightarrow> plan \<Rightarrow> session \<Rightarrow> fs \<Rightarrow> curve_outcome \<times> fs" where
  "curve_finish H MW args t base a s =
     (let Q = aw_query (mw_archive MW);
          hn = harness_new t (curve_transport_opts args) (va_threads args) (va_connections args) None (tg_tls t)
      in case curve_loop H Q (vw_powf MW) args base hn (mw_run MW) (vw_elapsed MW) 0 (unat (va_steps args)) of
           None \<Rightarrow> (CurvePanic, s)
         | Some steps \<Rightarrow>
             (let baseline_p99 = (case steps of [] \<Rightarrow> 0 | st # _ \<Rightarrow> sp_p99_ns st);
                  knee = detect_knee steps baseline_p99 (va_knee_p99_mult args) (va_knee_error_rate args);
                  total_duration = min (step_duration args * unat (va_steps args)) DURATION_MAX;
                  ex = synthesise_summary_export steps total_duration
              in case session_finalise (mw_archive MW) a (summary_for_archive H ex) (ex_per_run ex) base total_duration
                        ''zerobench curve'' (\<lambda>sm _. ts_latency (sm_stats sm)) s of
                   (Inl e, s') \<Rightarrow> (CurveError (CvIo e), s')
                 | (Inr _, s') \<Rightarrow> (CurveDone knee, s')))"

definition curve_run ::
  "'h hist_ops \<Rightarrow> ('r, 'm, 'h, 'ip) curve_world \<Rightarrow> curve_args \<Rightarrow> fs \<Rightarrow> curve_outcome \<times> fs" where
  "curve_run H MW args s =
     (case curve_prepare MW args of
        Inl e \<Rightarrow> (CurveError e, s)
      | Inr (t, base, addr) \<Rightarrow>
          (case curve_gate H MW args of
             Inl ended \<Rightarrow> (ended, s)
           | Inr overload \<Rightarrow>
               (case session_begin (mw_archive MW) base t [addr] (va_no_archive args) [] (va_no_calibrate args) overload []
                       (mw_version MW) s of
                  None \<Rightarrow> (CurvePanic, s)
                | Some (Inl e, s') \<Rightarrow> (CurveError (CvIo e), s')
                | Some (Inr a, s') \<Rightarrow> curve_finish H MW args t base a s')))"

section \<open>Where the knee is\<close>

lemma knee_from_None:
  "knee_from b m t (Suc i) ss = None \<longleftrightarrow> (\<forall>j < length ss. knee_of_step b m t (ss ! j) = None)"
  by (induction ss arbitrary: i) (auto simp: All_less_Suc2 split: option.splits)

lemma knee_from_Some:
  "knee_from b m t (Suc i) ss = Some (k, r) \<longleftrightarrow> (\<exists>j < length ss. k = Suc i + j \<and> knee_of_step b m t (ss ! j) = Some r
     \<and> (\<forall>l < j. knee_of_step b m t (ss ! l) = None))"
proof (induction ss arbitrary: i)
  case (Cons s ss)
  then show ?case by (cases "knee_of_step b m t s") (auto simp: Ex_less_Suc2 All_less_Suc2)
qed simp

lemma detect_knee_first:
  "case detect_knee steps p99 factor threshold of
     None \<Rightarrow> \<forall>j < length steps. 0 < j \<longrightarrow> knee_of_step (f64_of_u64 (max p99 1)) factor threshold (steps ! j) = None
   | Some (k, r) \<Rightarrow> 0 < k \<and> k < length steps \<and> knee_of_step (f64_of_u64 (max p99 1)) factor threshold (steps ! k) = Some r
       \<and> (\<forall>j < k. 0 < j \<longrightarrow> knee_of_step (f64_of_u64 (max p99 1)) factor threshold (steps ! j) = None)"
proof (cases steps)
  case (Cons st ss)
  let ?b = "f64_of_u64 (max p99 1)"
  have d: "detect_knee steps p99 factor threshold = knee_from ?b factor threshold (Suc 0) ss"
    by (simp add: detect_knee_def Cons)
  show ?thesis
  proof (cases "knee_from ?b factor threshold (Suc 0) ss")
    case None
    then show ?thesis unfolding d using knee_from_None [of ?b factor threshold 0 ss] by (simp add: Cons All_less_Suc2)
  next
    case (Some kr)
    then obtain k r where kr: "knee_from ?b factor threshold (Suc 0) ss = Some (k, r)" by (cases kr) simp
    then obtain j where "j < length ss" "k = Suc j" "knee_of_step ?b factor threshold (ss ! j) = Some r"
        "\<forall>l < j. knee_of_step ?b factor threshold (ss ! l) = None"
      using knee_from_Some [of ?b factor threshold 0 ss k r] by auto
    then show ?thesis unfolding d kr by (simp add: Cons All_less_Suc2)
  qed
qed (simp add: detect_knee_def)

section \<open>The ladder\<close>

lemma curve_plan_shape:
  assumes "build_curve_plan W args name = Inr pl"
  obtains sn rq where "pl_scenarios pl = [sn]" "sn_steps sn = [Request rq]" "pl_name pl = name"
  using assms by (auto simp: build_curve_plan_def builder_finalize_def push_scenario_def builder_new_def
      scenario_http_request_def split: prod.splits sum.splits)

lemma step_run_ok:
  assumes "build_curve_plan W args name = Inr pl" "env_runs E"
  shows "\<exists>ts. run_plan_for_step H (step_plan pl offered dur) hn dur (Some offered) E = Some ts"
proof -
  obtain sn rq where sn: "pl_scenarios pl = [sn]" "sn_steps sn = [Request rq]" using curve_plan_shape [OF assms(1)] .
  have "world_runs ((ctx_for hn dur E)\<lparr>rw_rps := Some offered\<rparr>)"
    using assms(2) by (simp add: env_runs_def world_runs_def ctx_for_def)
  moreover have "pl_scenarios (step_plan pl offered dur) = [sn\<lparr>sn_rate := Constant offered\<rparr>]" by (simp add: step_plan_def sn)
  ultimately show ?thesis
    unfolding run_plan_for_step_def using one_step_run_ok [of "step_plan pl offered dur" "sn\<lparr>sn_rate := Constant offered\<rparr>" "Request rq"] sn by fastforce
qed

lemma curve_loop_ok:
  assumes "build_curve_plan W args name = Inr pl" "\<And>j. env_runs (run_E j)"
  shows "\<exists>runs. length runs = n
    \<and> (\<forall>j < n. run_plan_for_step H (step_plan pl (offered_rate powf args (i + j)) (step_duration args)) hn
         (step_duration args) (Some (offered_rate powf args (i + j))) (run_E (i + j)) = Some (runs ! j))
    \<and> curve_loop H Q powf args pl hn run_E elapsed i n = Some (map (\<lambda>j. step_result_for Q (offered_rate powf args (i + j))
         (summary_merge H (runs ! j) (elapsed (i + j))) (elapsed (i + j))) [0..<n])"
proof (induction n arbitrary: i)
  case (Suc n)
  let ?o = "\<lambda>i. offered_rate powf args i" and ?d = "step_duration args"
  let ?run = "\<lambda>i. run_plan_for_step H (step_plan pl (?o i) ?d) hn ?d (Some (?o i)) (run_E i)"
  let ?res = "\<lambda>i ts. step_result_for Q (?o i) (summary_merge H ts (elapsed i)) (elapsed i)"
  obtain ts where ts: "?run i = Some ts" using step_run_ok [OF assms(1) assms(2)] by blast
  obtain runs where runs: "length runs = n" "\<forall>j < n. ?run (Suc i + j) = Some (runs ! j)"
      "curve_loop H Q powf args pl hn run_E elapsed (Suc i) n = Some (map (\<lambda>j. ?res (Suc i + j) (runs ! j)) [0..<n])"
    using Suc by blast
  have "?run (i + j) = Some ((ts # runs) ! j)" if "j < Suc n" for j using that ts runs(2) by (cases j) auto
  moreover have "map (\<lambda>j. ?res (i + j) ((ts # runs) ! j)) [0..<Suc n] = ?res i ts # map (\<lambda>j. ?res (Suc i + j) (runs ! j)) [0..<n]"
    by (simp add: map_upt_Suc del: upt_Suc)
  ultimately show ?case using ts runs by (intro exI [of _ "ts # runs"]) (simp add: Let_def)
qed simp

section \<open>Properties\<close>

lemma empty_export:
  "ex_requests (to_export Q (summary_merge H [] 0)) = 0" "ex_rate_per_s (to_export Q (summary_merge H [] 0)) = 0"
  by (simp_all add: to_export_def summary_merge_def task_stats_new_def requests_per_sec_def)

text \<open>A step without requests has all its requests failed, and no error in the metrics.\<close>

lemma no_requests_no_errors:
  assumes "ts_requests (sm_stats sm) = 0"
  shows "sp_err_rate (step_result_for Q offered sm elapsed) = F64_ONE"
    "pm_errors_total (step_metrics i (step_result_for Q offered sm elapsed)) = 0"
proof -
  have "f64_mul F64_ONE (f64_of_nat 0) = 0"
    by (simp add: f64_mul_def Let_def f64_of_nat_def f64_of_rat_def f64_make_def mag_of_rat_def f64_nan_def f64_fin_def
        f64_mag_def f64_sign_def f64_val_def val_of_mag_def)
  moreover have "u64_of_f64 0 = 0"
    by (simp add: u64_of_f64_def f64_nan_def f64_fin_def f64_mag_def f64_val_def val_of_mag_def f64_sign_def)
  ultimately show "sp_err_rate (step_result_for Q offered sm elapsed) = F64_ONE"
      "pm_errors_total (step_metrics i (step_result_for Q offered sm elapsed)) = 0"
    using assms by (simp_all add: step_result_for_def step_metrics_def Let_def)
qed

text \<open>
  Property C4. A sweep that ends has run the plan once for each step of the ladder, at the rate of the step;
  its rows come from these runs in order; the knee is the first step after the baseline whose tail latency
  or error rate passes the threshold, and there is none if no step does. Unless archiving is off, the
  metrics of all steps are on disk, but the totals archived beside them are those of an empty run.
\<close>

theorem curve_sweep:
  assumes "\<And>i. env_runs (mw_run MW i)" "curve_run H MW args s = (CurveDone knee, s')"
  shows "\<exists>t base addr runs steps. curve_prepare MW args = Inr (t, base, addr)
    \<and> length runs = unat (va_steps args)
    \<and> list_all (\<lambda>i. run_plan_for_step H (step_plan base (offered_rate (vw_powf MW) args i) (step_duration args))
         (harness_new t (curve_transport_opts args) (va_threads args) (va_connections args) None (tg_tls t))
         (step_duration args) (Some (offered_rate (vw_powf MW) args i)) (mw_run MW i) = Some (runs ! i)) [0..<unat (va_steps args)]
    \<and> steps = map (\<lambda>i. step_result_for (aw_query (mw_archive MW)) (offered_rate (vw_powf MW) args i)
         (summary_merge H (runs ! i) (vw_elapsed MW i)) (vw_elapsed MW i)) [0..<unat (va_steps args)]
    \<and> (let fires = knee_of_step (f64_of_u64 (max (sp_p99_ns (hd steps)) 1)) (va_knee_p99_mult args) (va_knee_error_rate args)
       in case knee of
            None \<Rightarrow> \<forall>j < length steps. 0 < j \<longrightarrow> fires (steps ! j) = None
          | Some (k, r) \<Rightarrow> 0 < k \<and> k < length steps \<and> fires (steps ! k) = Some r
              \<and> (\<forall>j < k. 0 < j \<longrightarrow> fires (steps ! j) = None))
    \<and> archived (mw_archive MW) (va_no_archive args) base t (summary_merge H [] 0)
         (map (\<lambda>(i, st). step_metrics i st) (enumerate 0 steps)) s s'
    \<and> ex_requests (to_export (aw_query (mw_archive MW)) (summary_merge H [] 0)) = 0"
proof -
  let ?W = "mw_archive MW" and ?n = "unat (va_steps args)"
  obtain t base addr where prep: "curve_prepare MW args = Inr (t, base, addr)"
    using assms(2) by (auto simp: curve_run_def split: sum.splits)
  then obtain name where pl: "build_curve_plan (mw_world MW) args name = Inr base" and two: "\<not> va_steps args < 2"
    by (auto simp: curve_prepare_def split: if_splits sum.splits)
  obtain overload where gate: "curve_gate H MW args = Inr overload"
    using assms(2) prep by (cases "curve_gate H MW args") (auto simp: curve_run_def curve_gate_def
        split: if_splits option.splits calibrate_outcome.splits sum.splits)
  obtain a s1 where b: "session_begin ?W base t [addr] (va_no_archive args) [] (va_no_calibrate args) overload []
        (mw_version MW) s = Some (Inr a, s1)"
      and fin: "curve_finish H MW args t base a s1 = (CurveDone knee, s')"
    using assms(2) prep gate by (auto simp: curve_run_def split: option.splits sum.splits prod.splits)
  let ?hn = "harness_new t (curve_transport_opts args) (va_threads args) (va_connections args) None (tg_tls t)"
  let ?o = "\<lambda>i. offered_rate (vw_powf MW) args i"
  obtain runs where runs: "length runs = ?n"
      "\<forall>j < ?n. run_plan_for_step H (step_plan base (?o (0 + j)) (step_duration args)) ?hn (step_duration args)
         (Some (?o (0 + j))) (mw_run MW (0 + j)) = Some (runs ! j)"
      "curve_loop H (aw_query ?W) (vw_powf MW) args base ?hn (mw_run MW) (vw_elapsed MW) 0 ?n = Some (map (\<lambda>j.
         step_result_for (aw_query ?W) (?o (0 + j)) (summary_merge H (runs ! j) (vw_elapsed MW (0 + j))) (vw_elapsed MW (0 + j))) [0..<?n])"
    using curve_loop_ok [where run_E = "mw_run MW", OF pl assms(1), where n = ?n and H = H and hn = ?hn and i = 0
        and Q = "aw_query ?W" and powf = "vw_powf MW" and elapsed = "vw_elapsed MW"] by blast
  define steps where "steps = map (\<lambda>i. step_result_for (aw_query ?W) (?o i) (summary_merge H (runs ! i) (vw_elapsed MW i))
      (vw_elapsed MW i)) [0..<?n]"
  have "0 < ?n" using two by (simp add: word_less_nat_alt)
  then have "steps \<noteq> []" by (simp add: steps_def)
  then have base: "(case steps of [] \<Rightarrow> 0 | st # _ \<Rightarrow> sp_p99_ns st) = sp_p99_ns (hd steps)" by (cases steps) simp_all
  define total where "total = min (step_duration args * ?n) DURATION_MAX"
  have done1: "session_finalise ?W a (summary_merge H [] 0) (map (\<lambda>(i, st). step_metrics i st) (enumerate 0 steps)) base total
        ''zerobench curve'' (\<lambda>sm _. ts_latency (sm_stats sm)) s1 = (Inr (), s')"
    and knee: "knee = detect_knee steps (sp_p99_ns (hd steps)) (va_knee_p99_mult args) (va_knee_error_rate args)"
    using fin runs(3) base by (auto simp: curve_finish_def Let_def steps_def [symmetric] total_def [symmetric]
        summary_for_archive_def synthesise_summary_export_def split: prod.splits sum.splits)
  have each: "list_all (\<lambda>i. run_plan_for_step H (step_plan base (?o i) (step_duration args)) ?hn (step_duration args)
      (Some (?o i)) (mw_run MW i) = Some (runs ! i)) [0..<?n]" using runs(2) by (simp add: list_all_iff)
  show ?thesis
    by (intro exI [of _ t] exI [of _ base] exI [of _ addr] exI [of _ runs] exI [of _ steps] conjI prep runs(1) each
        steps_def empty_export(1) session_archived [OF b done1])
      (use detect_knee_first [of steps "sp_p99_ns (hd steps)" "va_knee_p99_mult args" "va_knee_error_rate args"] knee
        in \<open>simp add: Let_def\<close>)
qed

definition demo_curve_args :: curve_args where
  "demo_curve_args =
     \<lparr>va_url = ''http://h:81/a'', va_name = None, va_from_rate = F64_ONE, va_to_rate = HUNDRED, va_over = 50, va_steps = 2,
      va_knee_p99_mult = F64_ONE, va_knee_error_rate = F64_ONE, va_connections = 3, va_threads = 2, va_connect_timeout = 5,
      va_request_timeout = 5, va_insecure = False, va_no_calibrate = True, va_force_overload = False,
      va_no_archive = False\<rparr>"

definition demo_curve :: "(nat, unit, nat list, string) curve_world" where
  "demo_curve = measure_world.extend demo_measure \<lparr>vw_elapsed = \<lambda>_. 50, vw_powf = \<lambda>_ _. F64_ONE\<rparr>"

lemma demo_curve_world [simp]:
  "mw_world demo_curve = demo_world" "mw_parse_ip demo_curve = Some" "mw_dns demo_curve = (\<lambda>_. Inr [''10.0.0.1''])"
  "mw_is_v4 demo_curve = (\<lambda>_. True)" "mw_is_v6 demo_curve = (\<lambda>_. False)" "mw_show_addr demo_curve x = ''10.0.0.1:81''"
  "mw_archive demo_curve = demo_archive" "mw_run demo_curve = mw_run demo_measure"
  by (simp_all add: demo_curve_def demo_measure_def measure_world.defs)

lemma demo_curve_prepared:
  obtains t pl where "curve_prepare demo_curve demo_curve_args = Inr (t, pl, ''10.0.0.1:81'')" "pl_name pl = ''h-curve''"
proof -
  have lit: "literal_text ''http://h:81/a''" by (simp add: literal_text_def code_def)
  have rates: "\<not> f64_le F64_ONE 0" "\<not> f64_le HUNDRED F64_ONE"
    by (simp_all add: f64_le_def f64_key_def f64_sign_def f64_mag_def HUNDRED_def)
  have "target_resolve Some (\<lambda>_. Inr [''10.0.0.1'']) (\<lambda>_. True) (\<lambda>_. False)
      \<lparr>tg_host = ''h'', tg_port = 81, tg_tls = False, tg_sni = None, tg_family = FamAny\<rparr>
      (curve_transport_opts demo_curve_args) = Inr (SockDns ''10.0.0.1'')"
    by (simp add: target_resolve_def curve_transport_opts_def default_transport_opts_def)
  then have "\<exists>t pl. curve_prepare demo_curve demo_curve_args = Inr (t, pl, ''10.0.0.1:81'') \<and> pl_name pl = ''h-curve''"
    using rates by (simp add: curve_prepare_def demo_curve_args_def build_curve_plan_def demo_url_target compile_literal [OF lit]
        Let_def builder_finalize_def push_scenario_def builder_new_def)
  then show thesis using that by blast
qed

theorem curve_sweep_witness:
  "\<exists>knee s'. curve_run sample_hist demo_curve demo_curve_args demo_fs = (CurveDone knee, s')
    \<and> (\<exists>url_fp rid b. map_of (fs_disk s') (path_join (run_dir ''.zerobench'' url_fp rid) ''result.json'') = Some (FileNode b True))"
proof -
  let ?A = demo_curve_args
  have envs: "env_runs (mw_run demo_curve i)" for i using demo_env_runs(2) by simp
  obtain t pl where prep: "curve_prepare demo_curve ?A = Inr (t, pl, ''10.0.0.1:81'')" and name: "pl_name pl = ''h-curve''"
    using demo_curve_prepared .
  then obtain n where plan: "build_curve_plan (mw_world demo_curve) ?A n = Inr pl"
    by (auto simp: curve_prepare_def split: if_splits sum.splits)
  obtain a s1 where b: "session_begin demo_archive pl t [''10.0.0.1:81''] False [] (va_no_calibrate ?A) False []
      (mw_version demo_curve) demo_fs = Some (Inr a, s1)"
    and fin: "\<And>sm runs p time comment pick. \<exists>s'. session_finalise demo_archive a sm runs p time comment pick s1 = (Inr (), s')"
    by (rule demo_session [where pl = pl and t = t and resolved = "[''10.0.0.1:81'']" and ctx = "[]"
          and skipped = "va_no_calibrate ?A" and overload = False and features = "[]" and version = "mw_version demo_curve"])
      (simp_all add: name)
  let ?hn = "harness_new t (curve_transport_opts ?A) (va_threads ?A) (va_connections ?A) None (tg_tls t)"
  obtain steps where loop: "curve_loop sample_hist (aw_query demo_archive) (vw_powf demo_curve) ?A pl ?hn (mw_run demo_curve)
      (vw_elapsed demo_curve) 0 (unat (va_steps ?A)) = Some steps"
    using curve_loop_ok [where run_E = "mw_run demo_curve", OF plan envs, where n = "unat (va_steps ?A)" and H = sample_hist
        and hn = ?hn and i = 0 and Q = "aw_query demo_archive" and powf = "vw_powf demo_curve" and elapsed = "vw_elapsed demo_curve"]
    by blast
  have "va_no_archive ?A = False" "curve_gate sample_hist demo_curve ?A = Inr False"
    by (simp_all add: demo_curve_args_def curve_gate_def)
  then have run: "curve_run sample_hist demo_curve ?A demo_fs = curve_finish sample_hist demo_curve ?A t pl a s1"
    using b by (simp add: curve_run_def prep)
  define total where "total = min (step_duration ?A * unat (va_steps ?A)) DURATION_MAX"
  obtain sf where "session_finalise demo_archive a (summary_for_archive sample_hist (synthesise_summary_export steps total))
      (ex_per_run (synthesise_summary_export steps total)) pl total ''zerobench curve'' (\<lambda>sm _. ts_latency (sm_stats sm)) s1 = (Inr (), sf)"
    using fin by blast
  then obtain knee where m: "curve_run sample_hist demo_curve ?A demo_fs = (CurveDone knee, sf)"
    using run loop by (simp add: curve_finish_def Let_def total_def)
  show ?thesis using curve_sweep [OF envs m] m by (auto simp: archived_def demo_resolve demo_curve_args_def)
qed

end
