(* ===== verification/CompareStats.thy ===== *)
theory CompareStats
  imports Export F64
begin

text \<open>
  The comparison engine, \<open>zerobench-report/src/compare.rs\<close>: the metrics of a run, raw differences and
  bootstrap intervals, the gate of regressions, the tests of Kolmogorov and Smirnov and of Anderson and
  Darling on histograms, and the correction of Holm and Bonferroni. Arithmetic is IEEE; exponential,
  logarithm, square root and powers of the platform's library are parameters, and of a histogram its length
  and the values and counts its iterator yields.
\<close>

unbundle bit_operations_syntax

section \<open>Metrics\<close>

datatype metric = MRate | MP50 | MP90 | MP99 | MP99_9 | MP99_99 | MMax | MErrorRate

fun metric_label :: "metric \<Rightarrow> string" where
  "metric_label MRate = ''rate''"
| "metric_label MP50 = ''p50''"
| "metric_label MP90 = ''p90''"
| "metric_label MP99 = ''p99''"
| "metric_label MP99_9 = ''p99.9''"
| "metric_label MP99_99 = ''p99.99''"
| "metric_label MMax = ''max''"
| "metric_label MErrorRate = ''error_rate''"

definition increase_is_bad :: "metric \<Rightarrow> bool" where "increase_is_bad m = (m \<noteq> MRate)"

text \<open>A percentile out of an exported histogram.\<close>

fun latency_metric :: "metric \<Rightarrow> latency_export \<Rightarrow> f64" where
  "latency_metric MP50 l = f64_of_u64 (le_p50_ns l)"
| "latency_metric MP90 l = f64_of_u64 (le_p90_ns l)"
| "latency_metric MP99 l = f64_of_u64 (le_p99_ns l)"
| "latency_metric MP99_9 l = f64_of_u64 (le_p99_9_ns l)"
| "latency_metric MP99_99 l = f64_of_u64 (le_p99_99_ns l)"
| "latency_metric MMax l = f64_of_u64 (le_max_ns l)"
| "latency_metric _ l = 0"

definition extract_metric :: "metric \<Rightarrow> per_run_metrics \<Rightarrow> f64" where
  "extract_metric m run =
     (let lat = (if 0 < le_count (pm_protocol_latency run) then pm_protocol_latency run else pm_latency run) in
      case m of
        MRate \<Rightarrow> pm_rate_per_s run
      | MErrorRate \<Rightarrow> (if pm_requests run = 0 then 0
          else f64_div (f64_of_u64 (pm_errors_total run)) (f64_of_u64 (pm_requests run)))
      | _ \<Rightarrow> latency_metric m lat)"

definition canonical_axes :: "metric list" where
  "canonical_axes = [MRate, MP50, MP90, MP99, MP99_9, MP99_99, MMax, MErrorRate]"

text \<open>\<open>metric as u64\<close>.\<close>

fun metric_number :: "metric \<Rightarrow> u64" where
  "metric_number MRate = 0"
| "metric_number MP50 = 1"
| "metric_number MP90 = 2"
| "metric_number MP99 = 3"
| "metric_number MP99_9 = 4"
| "metric_number MP99_99 = 5"
| "metric_number MMax = 6"
| "metric_number MErrorRate = 7"

section \<open>Results and the gate\<close>

datatype strategy_used = RunBootstrap | RawDelta

datatype significance = Significant | NotSignificant | NotApplicable

record compare_options =
  cop_bootstrap_resamples :: u32
  cop_confidence_level :: f64
  cop_seed :: u64

definition compare_options_default :: compare_options where
  "compare_options_default =
     \<lparr>cop_bootstrap_resamples = 10000, cop_confidence_level = 0x3FEE666666666666, cop_seed = 0xA5A5A5A55A5A5A5A\<rparr>"

record comparison =
  cmr_metric :: metric
  cmr_a :: f64
  cmr_b :: f64
  cmr_delta :: f64
  cmr_delta_pct :: "f64 option"
  cmr_ci :: "(f64 \<times> f64) option"
  cmr_n_a :: nat
  cmr_n_b :: nat
  cmr_strategy :: strategy_used
  cmr_significance :: significance

definition regressed_beyond :: "comparison \<Rightarrow> f64 \<Rightarrow> bool" where
  "regressed_beyond r threshold =
     (let threshold_pct = f64_abs threshold in
      case (cmr_strategy r, cmr_ci r, cmr_delta_pct r) of
        (RunBootstrap, Some (lo, hi), Some dp) \<Rightarrow>
          (if increase_is_bad (cmr_metric r) then
             (if f64_lt (f64_abs (cmr_a r)) F64_EPSILON then f64_lt threshold_pct dp
              else f64_lt threshold_pct (f64_div lo (cmr_a r)))
           else
             (if f64_lt (f64_abs (cmr_a r)) F64_EPSILON then f64_lt dp (f64_minus threshold_pct)
              else f64_lt (f64_div hi (cmr_a r)) (f64_minus threshold_pct)))
      | (_, _, Some dp) \<Rightarrow>
          (if increase_is_bad (cmr_metric r) then f64_lt threshold_pct dp else f64_lt dp (f64_minus threshold_pct))
      | _ \<Rightarrow> False)"

section \<open>Raw differences\<close>

definition error_sum :: "errors_export \<Rightarrow> u64" where
  "error_sum e = ee_connect e + ee_read e + ee_write e + ee_timeout e + ee_keepup e + ee_status_4xx e
     + ee_status_5xx e + ee_assertion_failed e"

definition extract_aggregate :: "summary_export \<Rightarrow> metric \<Rightarrow> f64" where
  "extract_aggregate s m =
     (case m of
        MRate \<Rightarrow> ex_rate_per_s s
      | MErrorRate \<Rightarrow> (if ex_requests s = 0 then 0
          else f64_div (f64_of_u64 (error_sum (ex_errors s))) (f64_of_u64 (ex_requests s)))
      | _ \<Rightarrow> latency_metric m (ex_latency s))"

definition pct_delta :: "f64 \<Rightarrow> f64 \<Rightarrow> f64 option" where
  "pct_delta a b =
     (if f64_lt (f64_abs a) F64_EPSILON then
        (if f64_lt (f64_abs (f64_sub b a)) F64_EPSILON then Some 0 else None)
      else Some (f64_div (f64_sub b a) a))"

definition compare_raw :: "summary_export \<Rightarrow> summary_export \<Rightarrow> metric \<Rightarrow> comparison" where
  "compare_raw a b m =
     (let a_val = extract_aggregate a m; b_val = extract_aggregate b m in
      \<lparr>cmr_metric = m, cmr_a = a_val, cmr_b = b_val, cmr_delta = f64_sub b_val a_val,
       cmr_delta_pct = pct_delta a_val b_val, cmr_ci = None, cmr_n_a = length (ex_per_run a),
       cmr_n_b = length (ex_per_run b), cmr_strategy = RawDelta, cmr_significance = NotApplicable\<rparr>)"

section \<open>The bootstrap\<close>

record xoshiro =
  xo_0 :: u64
  xo_1 :: u64
  xo_2 :: u64
  xo_3 :: u64

definition next_u64 :: "xoshiro \<Rightarrow> u64 \<times> xoshiro" where
  "next_u64 x =
     (let result = word_rotl 23 (xo_0 x + xo_3 x) + xo_0 x;
          t = push_bit 17 (xo_1 x);
          s2 = xo_2 x XOR xo_0 x;
          s3 = xo_3 x XOR xo_1 x;
          s1 = xo_1 x XOR s2;
          s0 = xo_0 x XOR s3;
          s2' = s2 XOR t;
          s3' = word_rotl 45 s3
      in (result, \<lparr>xo_0 = s0, xo_1 = s1, xo_2 = s2', xo_3 = s3'\<rparr>))"

definition f64_sum :: "f64 list \<Rightarrow> f64" where "f64_sum xs = foldl f64_add 0 xs"

definition mean_of :: "f64 list \<Rightarrow> f64" where
  "mean_of xs = (if xs = [] then 0 else f64_div (f64_sum xs) (f64_of_nat (length xs)))"

fun resample_sum :: "nat \<Rightarrow> f64 list \<Rightarrow> f64 \<Rightarrow> xoshiro \<Rightarrow> f64 \<times> xoshiro" where
  "resample_sum 0 values acc rng = (acc, rng)"
| "resample_sum (Suc k) values acc rng =
     (let (r, rng') = next_u64 rng
      in resample_sum k values (f64_add acc (values ! (unat r mod length values))) rng')"

definition mean_resample :: "f64 list \<Rightarrow> xoshiro \<Rightarrow> f64 \<times> xoshiro" where
  "mean_resample values rng =
     (let (acc, rng') = resample_sum (length values) values 0 rng in (f64_div acc (f64_of_nat (length values)), rng'))"

fun resample_deltas :: "nat \<Rightarrow> f64 list \<Rightarrow> f64 list \<Rightarrow> xoshiro \<Rightarrow> f64 list" where
  "resample_deltas 0 as bs rng = []"
| "resample_deltas (Suc k) as bs rng =
     (let (a_rs, rng1) = mean_resample as rng; (b_rs, rng2) = mean_resample bs rng1
      in f64_sub b_rs a_rs # resample_deltas k as bs rng2)"

definition bootstrap_rng :: "compare_options \<Rightarrow> metric \<Rightarrow> xoshiro" where
  "bootstrap_rng opts m = \<lparr>xo_0 = cop_seed opts + metric_number m * 0x9E3779B9, xo_1 = 0x243F6A8885A308D3,
     xo_2 = 0x13198A2E03707344, xo_3 = 0xA4093822299F31D0\<rparr>"

text \<open>
  A stable sort by partial comparison. With a NaN among the keys the comparison is no order, and what the
  standard library makes of that is unspecified: \<open>any\<close>.
\<close>

definition sort_partial :: "('a list \<Rightarrow> 'a list) \<Rightarrow> ('a \<Rightarrow> f64) \<Rightarrow> 'a list \<Rightarrow> 'a list" where
  "sort_partial any f xs =
     (if list_all (\<lambda>x. \<not> f64_nan (f x)) xs then sort_key (\<lambda>x. f64_key (f x)) xs else any xs)"

text \<open>The index of a bound: a part of the number of differences, at most the last.\<close>

definition ci_index :: "f64 \<Rightarrow> nat \<Rightarrow> nat" where
  "ci_index part n = min (unat (u64_of_f64 (f64_round (f64_mul part (f64_of_nat n))))) (n - 1)"

definition F64_TWO :: f64 where "F64_TWO = 0x4000000000000000"

definition ci_bounds :: "compare_options \<Rightarrow> f64 list \<Rightarrow> f64 \<times> f64" where
  "ci_bounds opts deltas =
     (let alpha = f64_sub F64_ONE (cop_confidence_level opts); half = f64_div alpha F64_TWO
      in (deltas ! ci_index half (length deltas), deltas ! ci_index (f64_sub F64_ONE half) (length deltas)))"

text \<open>Without any resample the index before the first fails, a panic.\<close>

definition compare_bootstrap ::
  "(f64 list \<Rightarrow> f64 list) \<Rightarrow> summary_export \<Rightarrow> summary_export \<Rightarrow> metric \<Rightarrow> compare_options \<Rightarrow> comparison option" where
  "compare_bootstrap any a b m opts =
     (let as = map (extract_metric m) (ex_per_run a); bs = map (extract_metric m) (ex_per_run b);
          a_mean = mean_of as; b_mean = mean_of bs;
          deltas = sort_partial any id (resample_deltas (unat (cop_bootstrap_resamples opts)) as bs (bootstrap_rng opts m))
      in if deltas = [] then None
         else (let (lo, hi) = ci_bounds opts deltas in
           Some \<lparr>cmr_metric = m, cmr_a = a_mean, cmr_b = b_mean, cmr_delta = f64_sub b_mean a_mean,
             cmr_delta_pct = pct_delta a_mean b_mean, cmr_ci = Some (lo, hi), cmr_n_a = length as, cmr_n_b = length bs,
             cmr_strategy = RunBootstrap,
             cmr_significance = (if f64_lt 0 lo \<or> f64_lt hi 0 then Significant else NotSignificant)\<rparr>))"

definition compare_metric ::
  "(f64 list \<Rightarrow> f64 list) \<Rightarrow> summary_export \<Rightarrow> summary_export \<Rightarrow> metric \<Rightarrow> compare_options \<Rightarrow> comparison option" where
  "compare_metric any a b m opts =
     (if 3 \<le> length (ex_per_run a) \<and> 3 \<le> length (ex_per_run b) then compare_bootstrap any a b m opts
      else Some (compare_raw a b m))"

definition compare_all ::
  "(f64 list \<Rightarrow> f64 list) \<Rightarrow> summary_export \<Rightarrow> summary_export \<Rightarrow> compare_options \<Rightarrow> comparison list option" where
  "compare_all any a b opts = those (map (\<lambda>m. compare_metric any a b m opts) canonical_axes)"

section \<open>Two-sample tests\<close>

record 'h hist_walk =
  hw_len :: "'h \<Rightarrow> u64"
  hw_recorded :: "'h \<Rightarrow> (u64 \<times> u64) list"

record libm =
  lm_exp :: "f64 \<Rightarrow> f64"
  lm_ln :: "f64 \<Rightarrow> f64"
  lm_sqrt :: "f64 \<Rightarrow> f64"
  lm_powi :: "f64 \<Rightarrow> nat \<Rightarrow> f64"

text \<open>The next value of the walk over both lists, and the inner loops, which add up its counts.\<close>

fun step_value :: "(u64 \<times> u64) list \<Rightarrow> (u64 \<times> u64) list \<Rightarrow> u64 option" where
  "step_value ((x, _) # _) ((y, _) # _) = Some (min x y)"
| "step_value ((x, _) # _) [] = Some x"
| "step_value [] ((y, _) # _) = Some y"
| "step_value [] [] = None"

fun take_equal :: "u64 \<Rightarrow> u64 \<Rightarrow> (u64 \<times> u64) list \<Rightarrow> u64 \<times> (u64 \<times> u64) list" where
  "take_equal v cum [] = (cum, [])"
| "take_equal v cum ((x, c) # ps) = (if x = v then take_equal v (cum + c) ps else (cum, (x, c) # ps))"

lemma take_equal_length: "length (snd (take_equal v c ps)) \<le> length ps"
  by (induction v c ps rule: take_equal.induct) auto

lemma take_equal_shorter:
  assumes "step_value as bs = Some v"
  shows "length (snd (take_equal v c as)) + length (snd (take_equal v d bs)) < length as + length bs"
proof -
  have shorter: "length (snd (take_equal v c ((v, n) # ps))) < length ((v, n) # ps)" for c n ps
    using take_equal_length [of v "c + n" ps] by simp
  have "(\<exists>n ps. as = (v, n) # ps) \<or> (\<exists>n ps. bs = (v, n) # ps)"
    using assms by (cases "(as, bs)" rule: step_value.cases) (auto simp: min_def split: if_splits)
  then show ?thesis using shorter take_equal_length [of v c as] take_equal_length [of v d bs]
    by (elim disjE exE) (fastforce intro: add_less_le_mono add_le_less_mono)+
qed

function ks_walk :: "f64 \<Rightarrow> f64 \<Rightarrow> (u64 \<times> u64) list \<Rightarrow> (u64 \<times> u64) list \<Rightarrow> u64 \<Rightarrow> u64 \<Rightarrow> f64 \<Rightarrow> f64" where
  "ks_walk n_a n_b as bs cum_a cum_b max_d =
     (case step_value as bs of
        None \<Rightarrow> max_d
      | Some v \<Rightarrow>
          (let ra = take_equal v cum_a as; rb = take_equal v cum_b bs;
               d = f64_abs (f64_sub (f64_div (f64_of_u64 (fst ra)) n_a) (f64_div (f64_of_u64 (fst rb)) n_b))
           in ks_walk n_a n_b (snd ra) (snd rb) (fst ra) (fst rb) (if f64_lt max_d d then d else max_d)))"
  by pat_completeness auto
termination
  by (relation "measure (\<lambda>(n_a, n_b, as, bs, cum_a, cum_b, max_d). length as + length bs)")
    (auto simp: take_equal_shorter)

declare ks_walk.simps [simp del]

definition ks_d_statistic :: "'h hist_walk \<Rightarrow> 'h \<Rightarrow> 'h \<Rightarrow> f64" where
  "ks_d_statistic W a b =
     ks_walk (f64_of_u64 (hw_len W a)) (f64_of_u64 (hw_len W b)) (hw_recorded W a) (hw_recorded W b) 0 0 0"

text \<open>The series of the Kolmogorov distribution, at most a hundred terms.\<close>

fun kolmogorov_sum :: "libm \<Rightarrow> f64 \<Rightarrow> nat list \<Rightarrow> f64 \<Rightarrow> f64 \<Rightarrow> f64" where
  "kolmogorov_sum L lambda_sq [] sign acc = acc"
| "kolmogorov_sum L lambda_sq (k # ks) sign acc =
     (let kf = f64_of_nat k;
          term = f64_mul sign (lm_exp L (f64_mul (f64_mul (f64_mul (f64_minus F64_TWO) kf) kf) lambda_sq));
          acc' = f64_add acc term
      in if f64_lt (f64_abs term) 0x3D719799812DEA11 then acc'
         else kolmogorov_sum L lambda_sq ks (f64_minus sign) acc')"

definition kolmogorov_p_value :: "libm \<Rightarrow> f64 \<Rightarrow> f64" where
  "kolmogorov_p_value L lambda =
     (if f64_le lambda 0 then F64_ONE
      else f64_clamp (f64_mul F64_TWO (kolmogorov_sum L (f64_mul lambda lambda) [1..<101] F64_ONE 0)) 0 F64_ONE)"

record ks_result =
  kq_d_statistic :: f64
  kq_p_value :: f64
  kq_n_a :: u64
  kq_n_b :: u64
  kq_significance :: significance

definition P_05 :: f64 where "P_05 = 0x3FA999999999999A"

definition ks_test :: "libm \<Rightarrow> 'h hist_walk \<Rightarrow> 'h \<Rightarrow> 'h \<Rightarrow> ks_result" where
  "ks_test L W a b =
     (let n_a = hw_len W a; n_b = hw_len W b in
      if n_a = 0 \<or> n_b = 0 then
        \<lparr>kq_d_statistic = 0, kq_p_value = F64_ONE, kq_n_a = n_a, kq_n_b = n_b, kq_significance = NotApplicable\<rparr>
      else
        (let d = ks_d_statistic W a b; n = f64_of_u64 n_a; m = f64_of_u64 n_b;
             en = lm_sqrt L (f64_div (f64_mul n m) (f64_add n m));
             p = kolmogorov_p_value L (f64_mul d en)
         in \<lparr>kq_d_statistic = d, kq_p_value = p, kq_n_a = n_a, kq_n_b = n_b,
              kq_significance = (if f64_lt p P_05 then Significant else NotSignificant)\<rparr>))"

text \<open>The walk of Anderson and Darling: for each value its counts, and both cumulative counts.\<close>

function ad_walk :: "(u64 \<times> u64) list \<Rightarrow> (u64 \<times> u64) list \<Rightarrow> u64 \<Rightarrow> u64 \<Rightarrow> (u64 \<times> u64 \<times> u64) list" where
  "ad_walk as bs cum_a cum_all =
     (case step_value as bs of
        None \<Rightarrow> []
      | Some v \<Rightarrow>
          (let ra = take_equal v cum_a as; h_a = fst (take_equal v 0 as); rb = take_equal v h_a bs; h_j = fst rb
           in (h_j, fst ra, cum_all + h_j) # ad_walk (snd ra) (snd rb) (fst ra) (cum_all + h_j)))"
  by pat_completeness auto
termination
  by (relation "measure (\<lambda>(as, bs, cum_a, cum_all). length as + length bs)") (auto simp: take_equal_shorter)

declare ad_walk.simps [simp del]

fun ad_sum :: "f64 \<Rightarrow> f64 \<Rightarrow> (u64 \<times> u64 \<times> u64) list \<Rightarrow> f64 \<Rightarrow> f64" where
  "ad_sum all n [] acc = acc"
| "ad_sum all n ((h_j, m_j, h_cum) # steps) acc =
     (let m = f64_of_u64 m_j; hc = f64_of_u64 h_cum; h = f64_of_u64 h_j;
          denom = f64_mul hc (f64_sub all hc)
      in if f64_le denom 0 then ad_sum all n steps acc
         else (let num = f64_sub (f64_mul all m) (f64_mul n hc)
               in ad_sum all n steps (f64_add acc (f64_div (f64_mul h (f64_mul num num)) denom))))"

primrec harmonic :: "nat \<Rightarrow> f64" where
  "harmonic 0 = 0"
| "harmonic (Suc i) = f64_add (harmonic i) (f64_div F64_ONE (f64_of_nat (Suc i)))"

text \<open>Whole numbers as \<open>f64\<close>.\<close>

abbreviation fnum :: "nat \<Rightarrow> f64" where "fnum \<equiv> f64_of_nat"

definition FOUR_THIRDS :: f64 where "FOUR_THIRDS = f64_div (fnum 4) (fnum 3)"

definition ad_sigma_squared_k2 :: "libm \<Rightarrow> u64 \<Rightarrow> f64 \<Rightarrow> f64 \<Rightarrow> f64" where
  "ad_sigma_squared_k2 L n_total n_a n_b =
     (if 100000 < n_total then f64_mul FOUR_THIRDS (f64_sub F64_ONE (f64_div 0x3FF570A3D70A3D71 (f64_of_u64 n_total)))
      else
        (let n = unat n_total; h = harmonic (n - 1);
             g = foldl (\<lambda>g j. f64_add g (f64_div (f64_sub h (harmonic (n - j))) (fnum j))) 0 [2..<n];
             cap_h = f64_add (f64_div F64_ONE n_a) (f64_div F64_ONE n_b);
             n_f = f64_of_u64 n_total;
             a = f64_add (f64_sub (f64_mul (fnum 4) g) (fnum 6)) (f64_mul (f64_sub (fnum 10) (f64_mul (fnum 6) g)) cap_h);
             b = f64_add (f64_sub (f64_add (f64_mul (fnum 12) g) (f64_mul (fnum 8) h)) (fnum 22))
                   (f64_mul (f64_sub (f64_sub (f64_mul (fnum 2) g) (f64_mul (fnum 14) h)) (fnum 4)) cap_h);
             c = f64_add (f64_add (f64_mul (fnum 36) h) (fnum 4)) (f64_mul (f64_sub (f64_mul (fnum 2) h) (fnum 6)) cap_h);
             d = fnum 24;
             num = f64_add (f64_add (f64_add (f64_mul a (lm_powi L n_f 3)) (f64_mul b (lm_powi L n_f 2))) (f64_mul c n_f)) d;
             denom = f64_mul (f64_mul (f64_sub n_f (fnum 1)) (f64_sub n_f (fnum 2))) (f64_sub n_f (fnum 3))
         in f64_max (f64_div num denom) F64_EPSILON))"

text \<open>The critical values 0.25, 0.10, 0.05, 0.025, 0.01, 0.005 and 0.001 with their statistics.\<close>

definition AD_TABLE :: "(f64 \<times> f64) list" where
  "AD_TABLE =
     [(0x3FD0000000000000, 0xBFD4CCCCCCCCCCCD), (0x3FB999999999999A, 0x3FF399999999999A),
      (0x3FA999999999999A, 0x3FFF5C28F5C28F5C), (0x3F9999999999999A, 0x4005C083126E978D),
      (0x3F847AE147AE147B, 0x400E04189374BC6A), (0x3F747AE147AE147B, 0x40125E353F7CED91),
      (0x3F50624DD2F1A9FC, 0x401A2F1A9FBE76C9)]"

fun ad_between :: "libm \<Rightarrow> f64 \<Rightarrow> (f64 \<times> f64) list \<Rightarrow> f64" where
  "ad_between L t ((a0, t0) # (a1, t1) # rest) =
     (if f64_le t0 t \<and> f64_le t t1 then
        (let frac = f64_div (f64_sub t t0) (f64_sub t1 t0);
             log_a = f64_add (lm_ln L a0) (f64_mul frac (f64_sub (lm_ln L a1) (lm_ln L a0)))
         in f64_clamp (lm_exp L log_a) 0 F64_ONE)
      else ad_between L t ((a1, t1) # rest))"
| "ad_between L t _ = F64_ONE"

definition ad_p_value :: "libm \<Rightarrow> f64 \<Rightarrow> f64" where
  "ad_p_value L t =
     (let (a_end, t_end) = List.last AD_TABLE; (a_prev, t_prev) = AD_TABLE ! (length AD_TABLE - 2) in
      if f64_lt t (snd (hd AD_TABLE)) then F64_ONE
      else if f64_le t_end t then
        (let slope = f64_div (f64_sub (lm_ln L a_prev) (lm_ln L a_end)) (f64_sub t_end t_prev)
         in f64_clamp (lm_exp L (f64_add (lm_ln L a_end) (f64_mul slope (f64_sub t t_end)))) 0 F64_ONE)
      else ad_between L t AD_TABLE)"

record ad_result =
  aq_a_squared :: f64
  aq_standardized :: f64
  aq_p_value :: f64
  aq_n_a :: u64
  aq_n_b :: u64
  aq_significance :: significance

definition ad_test :: "libm \<Rightarrow> 'h hist_walk \<Rightarrow> 'h \<Rightarrow> 'h \<Rightarrow> ad_result" where
  "ad_test L W a b =
     (let n_a = hw_len W a; n_b = hw_len W b in
      if n_a = 0 \<or> n_b = 0 then
        \<lparr>aq_a_squared = 0, aq_standardized = 0, aq_p_value = F64_ONE, aq_n_a = n_a, aq_n_b = n_b,
         aq_significance = NotApplicable\<rparr>
      else
        (let n = f64_of_u64 n_a; m = f64_of_u64 n_b; all = f64_add n m;
             steps = ad_walk (hw_recorded W a) (hw_recorded W b) 0 0;
             acc = ad_sum all n (butlast steps) 0;
             a_squared = f64_mul (f64_div (f64_sub all F64_ONE) (f64_mul (f64_mul n m) all)) acc;
             n_total = u64_of_f64 all;
             sigma_sq = (if 4 \<le> n_total then ad_sigma_squared_k2 L n_total n m else FOUR_THIRDS);
             sigma = f64_max (lm_sqrt L sigma_sq) F64_EPSILON;
             t = f64_div (f64_sub a_squared F64_ONE) sigma;
             p = ad_p_value L t
         in \<lparr>aq_a_squared = a_squared, aq_standardized = t, aq_p_value = p, aq_n_a = n_a, aq_n_b = n_b,
              aq_significance = (if f64_lt p P_05 then Significant else NotSignificant)\<rparr>))"

section \<open>Holm and Bonferroni\<close>

definition holm_order :: "(nat list \<Rightarrow> nat list) \<Rightarrow> f64 list \<Rightarrow> nat list" where
  "holm_order any ps = sort_partial any (\<lambda>i. ps ! i) [0..<length ps]"

definition holm_candidate :: "f64 list \<Rightarrow> nat \<Rightarrow> nat \<Rightarrow> f64" where
  "holm_candidate ps rank i = f64_min (f64_mul (ps ! i) (f64_of_nat (length ps - rank))) F64_ONE"

fun holm_step :: "f64 list \<Rightarrow> f64 \<times> f64 list \<Rightarrow> nat \<times> nat \<Rightarrow> f64 \<times> f64 list" where
  "holm_step ps (running_max, adj) (rank, i) =
     (let m = f64_max running_max (holm_candidate ps rank i) in (m, adj[i := m]))"

definition holm_bonferroni :: "(nat list \<Rightarrow> nat list) \<Rightarrow> f64 list \<Rightarrow> f64 list" where
  "holm_bonferroni any ps = snd (foldl (holm_step ps) (0, replicate (length ps) 0) (enumerate 0 (holm_order any ps)))"

end
