(* ===== verification/Comparison.thy ===== *)
theory Comparison
  imports CompareStats
begin

text \<open>
  What the comparison engine of \<open>CompareStats\<close> computes: the distance of Kolmogorov and Smirnov is the
  largest distance of the two distributions over all values, the corrected probabilities are those of the
  step-down procedure, and the bootstrap interval is cut out of the sorted differences.
\<close>

section \<open>Cumulative counts\<close>

text \<open>How many samples have at most a value.\<close>

definition below :: "(u64 \<times> u64) list \<Rightarrow> u64 \<Rightarrow> u64" where
  "below ps v = sum_list (map snd (filter (\<lambda>p. fst p \<le> v) ps))"

definition above :: "(u64 \<times> u64) list \<Rightarrow> u64 \<Rightarrow> (u64 \<times> u64) list" where
  "above ps v = filter (\<lambda>p. v < fst p) ps"

lemma below_Nil [simp]: "below [] v = 0"
  by (simp add: below_def)

lemma below_Cons: "below ((x, c) # ps) v = (if x \<le> v then c else 0) + below ps v"
  by (simp add: below_def)

lemma below_fresh: "\<forall>p \<in> set ps. v < fst p \<Longrightarrow> below ps v = 0"
  by (auto simp: below_def filter_empty_conv not_le)

lemma take_equal_sorted:
  assumes "sorted (map fst ps)" "\<forall>p \<in> set ps. v \<le> fst p"
  shows "take_equal v c ps = (c + below ps v, above ps v)"
  using assms
proof (induction v c ps rule: take_equal.induct)
  case (2 v cum x c ps)
  show ?case
  proof (cases "x = v")
    case True
    then show ?thesis using 2 by (simp add: below_Cons above_def)
  next
    case False
    then have "\<forall>p \<in> set ((x, c) # ps). v < fst p" using 2(2,3) by force
    then show ?thesis using False below_fresh [of "(x, c) # ps" v] by (simp add: above_def filter_id_conv)
  qed
qed (simp add: above_def)

lemma below_split: "v \<le> w \<Longrightarrow> below ps w = below ps v + below (above ps v) w"
  by (induction ps) (auto simp: below_Cons above_def below_def)

lemma above_sorted: "sorted (map fst ps) \<Longrightarrow> sorted (map fst (above ps v))"
  unfolding above_def by (rule sorted_filter)

text \<open>The values of both lists, and the least of them.\<close>

definition values_of :: "(u64 \<times> u64) list \<Rightarrow> (u64 \<times> u64) list \<Rightarrow> u64 set" where
  "values_of as bs = fst ` (set as \<union> set bs)"

lemma values_above: "values_of (above as v) (above bs v) = {w \<in> values_of as bs. v < w}"
  by (auto simp: values_of_def above_def)

lemma finite_values [simp]: "finite (values_of as bs)"
  by (simp add: values_of_def)

lemma step_value_least:
  assumes "sorted (map fst as)" "sorted (map fst bs)"
  shows "step_value as bs = None \<longleftrightarrow> values_of as bs = {}"
    "step_value as bs = Some v \<Longrightarrow> v \<in> values_of as bs \<and> (\<forall>w \<in> values_of as bs. v \<le> w)"
  using assms by (cases "(as, bs)" rule: step_value.cases; force simp: values_of_def min_def split: if_splits)+

lemma least_first:
  assumes "v \<in> S" "\<forall>w \<in> S. v \<le> w" "finite S"
  shows "sorted_list_of_set S = v # sorted_list_of_set {w \<in> S. v < (w :: u64)}"
proof -
  have "Min S = v" using assms by (auto intro: Min_eqI)
  moreover have "S - {v} = {w \<in> S. v < w}" using assms(2) by force
  ultimately show ?thesis using sorted_list_of_set_nonempty [OF assms(3)] assms(1) by force
qed

section \<open>The distance of two distributions\<close>

lemma foldl_cong_set: "(\<And>a x. x \<in> set xs \<Longrightarrow> f a x = g a x) \<Longrightarrow> foldl f a xs = foldl g a xs"
  by (induction xs arbitrary: a) simp_all

definition apart :: "f64 \<Rightarrow> f64 \<Rightarrow> u64 \<Rightarrow> u64 \<Rightarrow> f64" where
  "apart n_a n_b ca cb = f64_abs (f64_sub (f64_div (f64_of_u64 ca) n_a) (f64_div (f64_of_u64 cb) n_b))"

definition larger :: "f64 \<Rightarrow> f64 \<Rightarrow> f64" where "larger d e = (if f64_lt d e then e else d)"

lemma ks_walk_step:
  "ks_walk n_a n_b as bs ca cb d =
     (case step_value as bs of
        None \<Rightarrow> d
      | Some v \<Rightarrow> ks_walk n_a n_b (snd (take_equal v ca as)) (snd (take_equal v cb bs)) (fst (take_equal v ca as))
          (fst (take_equal v cb bs)) (larger d (apart n_a n_b (fst (take_equal v ca as)) (fst (take_equal v cb bs)))))"
  by (subst ks_walk.simps) (simp add: Let_def larger_def apart_def split: option.split)

lemma ks_walk_values:
  assumes "sorted (map fst as)" "sorted (map fst bs)"
  shows "ks_walk n_a n_b as bs ca cb d
    = foldl (\<lambda>d v. larger d (apart n_a n_b (ca + below as v) (cb + below bs v))) d (sorted_list_of_set (values_of as bs))"
  using assms
proof (induction "length as + length bs" arbitrary: as bs ca cb d rule: less_induct)
  case less
  show ?case
  proof (cases "step_value as bs")
    case None
    then show ?thesis using step_value_least(1) [OF less(2,3)] by (simp add: ks_walk_step)
  next
    case (Some v)
    note least = step_value_least(2) [OF less(2,3) Some]
    have a: "take_equal v ca as = (ca + below as v, above as v)" and b: "take_equal v cb bs = (cb + below bs v, above bs v)"
      using least less(2,3) by (auto intro!: take_equal_sorted simp: values_of_def)
    have shorter: "length (above as v) + length (above bs v) < length as + length bs"
      using take_equal_shorter [OF Some, of ca cb] by (simp add: a b)
    let ?rest = "sorted_list_of_set {w \<in> values_of as bs. v < w}"
    have "ks_walk n_a n_b as bs ca cb d = ks_walk n_a n_b (above as v) (above bs v) (ca + below as v) (cb + below bs v)
        (larger d (apart n_a n_b (ca + below as v) (cb + below bs v)))"
      by (subst ks_walk_step) (simp add: Some a b)
    also have "\<dots> = foldl (\<lambda>d w. larger d (apart n_a n_b (ca + below as v + below (above as v) w) (cb + below bs v + below (above bs v) w)))
        (larger d (apart n_a n_b (ca + below as v) (cb + below bs v))) ?rest"
      using less(1) [OF shorter above_sorted above_sorted, OF less(2,3)] by (simp add: values_above)
    also have "\<dots> = foldl (\<lambda>d w. larger d (apart n_a n_b (ca + below as w) (cb + below bs w)))
        (larger d (apart n_a n_b (ca + below as v) (cb + below bs v))) ?rest"
      by (rule foldl_cong_set) (simp add: below_split [of v, OF less_imp_le, symmetric] add.assoc)
    finally show ?thesis using least_first [of v "values_of as bs"] least by simp
  qed
qed

lemma larger_ge:
  assumes "\<not> f64_nan d" "\<not> f64_nan e"
  shows "\<not> f64_nan (larger d e) \<and> f64_le d (larger d e) \<and> f64_le e (larger d e) \<and> (larger d e = d \<or> larger d e = e)"
proof (cases "f64_lt d e")
  case True
  then show ?thesis using assms by (simp add: larger_def f64_le_def f64_lt_def)
next
  case False
  then show ?thesis using assms by (simp add: larger_def f64_le_def f64_lt_def)
qed

lemma larger_bounds:
  assumes "\<not> f64_nan d" "\<forall>x \<in> set xs. \<not> f64_nan (f x)"
  shows "f64_le d (foldl (\<lambda>d x. larger d (f x)) d xs) \<and> (\<forall>x \<in> set xs. f64_le (f x) (foldl (\<lambda>d x. larger d (f x)) d xs))
    \<and> (foldl (\<lambda>d x. larger d (f x)) d xs = d \<or> (\<exists>x \<in> set xs. foldl (\<lambda>d x. larger d (f x)) d xs = f x))"
  using assms
proof (induction xs arbitrary: d)
  case (Cons x xs)
  have x: "\<not> f64_nan (larger d (f x))" "f64_le d (larger d (f x))" "f64_le (f x) (larger d (f x))"
      "larger d (f x) = d \<or> larger d (f x) = f x"
    using larger_ge [of d "f x"] Cons(2,3) by simp_all
  let ?m = "foldl (\<lambda>d x. larger d (f x)) (larger d (f x)) xs"
  have m: "f64_le (larger d (f x)) ?m" "\<forall>y \<in> set xs. f64_le (f y) ?m" "?m = larger d (f x) \<or> (\<exists>y \<in> set xs. ?m = f y)"
    using Cons(1) [OF x(1)] Cons(3) by auto
  then have "f64_le d ?m" "f64_le (f x) ?m" using x f64_le_trans by blast+
  then show ?case using m(2,3) x(4) by auto
qed (simp add: f64_le_refl)

section \<open>Counts that do not wrap\<close>

definition total_count :: "(u64 \<times> u64) list \<Rightarrow> nat" where "total_count ps = sum_list (map (\<lambda>p. unat (snd p)) ps)"

lemma u64_less: "unat (x :: u64) < 2 ^ 64"
  by (rule order_less_le_trans [OF unsigned_less]) simp

lemma below_total:
  assumes "total_count ps < 2 ^ 64"
  shows "unat (below ps v) \<le> total_count ps"
  using assms
proof (induction ps)
  case (Cons p ps)
  obtain x c where p: "p = (x, c)" by (cases p)
  have t: "total_count (p # ps) = unat c + total_count ps" by (simp add: total_count_def p)
  then have "unat (below ps v) \<le> total_count ps" using Cons by simp
  moreover have "unat (c + below ps v) \<le> unat c + unat (below ps v)" by (simp add: unat_word_ariths)
  ultimately show ?case using t unfolding p below_Cons by (simp split: if_split)
qed simp

lemma f64_abs_key: "f64_key (f64_abs x) = \<bar>f64_key x\<bar>" "f64_nan (f64_abs x) = f64_nan x"
  using f64_mag_less [of x] by (simp_all add: f64_abs_def f64_key_def f64_nan_def f64_make_parts)

lemma f64_minus_val: "f64_fin x \<Longrightarrow> f64_fin (f64_minus x) \<and> f64_val (f64_minus x) = - f64_val x"
  using f64_mag_less [of x] by (auto simp: f64_minus_def f64_fin_def f64_val_def f64_make_parts)

text \<open>Two numbers from zero to one are at most one apart.\<close>

lemma unit_apart:
  assumes "f64_le 0 x" "f64_le x F64_ONE" "f64_le 0 y" "f64_le y F64_ONE"
  shows "f64_le 0 (f64_abs (f64_sub x y))" "f64_le (f64_abs (f64_sub x y)) F64_ONE"
proof -
  have fin: "f64_fin x" "f64_fin y" using assms fin_between f64_zero(1) f64_one(1) by blast+
  then have v: "0 \<le> f64_val x" "f64_val x \<le> 1" "0 \<le> f64_val y" "f64_val y \<le> 1"
    using assms by (simp_all add: le_val_iff f64_zero f64_one)
  obtain neg where d: "f64_sub x y = f64_of_rat neg (f64_val x - f64_val y)"
    using fin f64_minus_val [OF fin(2)] by (auto simp: f64_sub_def f64_add_def)
  have up: "f64_le (f64_sub x y) F64_ONE" unfolding d by (rule of_rat_le) (use v f64_one in simp_all)
  have down: "f64_le (f64_minus F64_ONE) (f64_sub x y)"
    unfolding d by (rule le_of_rat) (use v f64_one f64_minus_val [OF f64_one(1)] in simp_all)
  have one: "f64_key F64_ONE = 0x3FF0000000000000" "f64_key (f64_minus F64_ONE) = - 0x3FF0000000000000" "f64_key 0 = 0"
      "\<not> f64_nan 0" "\<not> f64_nan F64_ONE"
    by (simp_all add: f64_key_def f64_minus_def f64_sign_def f64_mag_def f64_make_def f64_nan_def)
  show "f64_le 0 (f64_abs (f64_sub x y))" "f64_le (f64_abs (f64_sub x y)) F64_ONE"
    using up down by (auto simp: f64_le_def f64_abs_key one)
qed

lemma f64_of_nat_0 [simp]: "f64_of_nat 0 = 0"
  by (simp add: f64_of_nat_def f64_of_rat_def f64_make_def mag_of_rat_def)

lemma f64_div_zero:
  assumes "0 < n" "n \<le> 2 ^ 64"
  shows "f64_div 0 (f64_of_nat n) = 0"
proof -
  have "f64_mag (f64_of_nat n) \<noteq> 0"
    using of_nat_val(2) [of n] assms by (intro notI) (simp add: f64_val_def val_of_mag_def Suc_le_eq split: if_splits)
  moreover have "\<not> f64_sign (f64_of_nat n)" by (simp add: f64_of_nat_def of_rat_parts)
  ultimately show ?thesis
    using of_nat_fin [OF assms(2)] by (simp add: f64_div_def Let_def f64_zero f64_of_rat_def f64_make_def mag_of_rat_def f64_sign_def)
qed

section \<open>Kolmogorov and Smirnov\<close>

text \<open>What is documented of a histogram's iterator: ascending values, whose counts make up the length.\<close>

definition walk_ok :: "'h hist_walk \<Rightarrow> 'h \<Rightarrow> bool" where
  "walk_ok W h = (sorted (map fst (hw_recorded W h)) \<and> total_count (hw_recorded W h) = unat (hw_len W h))"

text \<open>The part of the samples of a histogram that are at most a value.\<close>

definition ecdf :: "'h hist_walk \<Rightarrow> 'h \<Rightarrow> u64 \<Rightarrow> f64" where
  "ecdf W h v = f64_div (f64_of_u64 (below (hw_recorded W h) v)) (f64_of_u64 (hw_len W h))"

lemma ecdf_unit:
  assumes "walk_ok W h" "hw_len W h \<noteq> 0"
  shows "f64_le 0 (ecdf W h v)" "f64_le (ecdf W h v) F64_ONE"
proof -
  have "unat (below (hw_recorded W h) v) \<le> unat (hw_len W h)"
    using below_total [of "hw_recorded W h" v] assms(1) u64_less [of "hw_len W h"] by (simp add: walk_ok_def)
  moreover have "0 < unat (hw_len W h)" using assms(2) by (simp add: unat_gt_0)
  moreover have "unat (hw_len W h) \<le> 2 ^ 64" using u64_less [of "hw_len W h"] by simp
  ultimately show "f64_le 0 (ecdf W h v)" "f64_le (ecdf W h v) F64_ONE"
    unfolding ecdf_def by (auto intro: ratio_bounds)
qed

lemma ecdf_none: "hw_len W h \<noteq> 0 \<Longrightarrow> below (hw_recorded W h) v = 0 \<Longrightarrow> ecdf W h v = 0"
  using f64_div_zero [of "unat (hw_len W h)"] u64_less [of "hw_len W h"] by (simp add: ecdf_def unat_gt_0)

lemma f64_zero_apart: "f64_abs (f64_sub 0 0) = 0"
  by (simp add: f64_sub_def f64_add_def f64_minus_def f64_make_def f64_nan_def f64_fin_def f64_mag_def f64_sign_def
      f64_val_def f64_of_rat_def mag_of_rat_def f64_abs_def val_of_mag_def)

text \<open>
  Property C30. For histograms whose iterators yield their samples in ascending order the statistic is the
  largest distance between the two distributions: at every value they are at most that far apart, it is
  taken at some value or is zero, and it lies between zero and one.
\<close>

theorem ks_largest_distance:
  assumes "walk_ok W a" "walk_ok W b" "hw_len W a \<noteq> 0" "hw_len W b \<noteq> 0"
  shows "(\<forall>v. f64_le (f64_abs (f64_sub (ecdf W a v) (ecdf W b v))) (ks_d_statistic W a b))
    \<and> (ks_d_statistic W a b = 0 \<or> (\<exists>v. ks_d_statistic W a b = f64_abs (f64_sub (ecdf W a v) (ecdf W b v))))
    \<and> f64_le 0 (ks_d_statistic W a b) \<and> f64_le (ks_d_statistic W a b) F64_ONE"
proof -
  let ?as = "hw_recorded W a" and ?bs = "hw_recorded W b" and ?D = "ks_d_statistic W a b"
  let ?dist = "\<lambda>v. f64_abs (f64_sub (ecdf W a v) (ecdf W b v))"
  let ?vs = "sorted_list_of_set (values_of ?as ?bs)"
  have unit: "f64_le 0 (?dist v)" "f64_le (?dist v) F64_ONE" for v
    using unit_apart [OF ecdf_unit [OF assms(1,3)] ecdf_unit [OF assms(2,4)]] by blast+
  have D: "?D = foldl (\<lambda>d v. larger d (?dist v)) 0 ?vs"
    using assms(1,2) by (simp add: ks_d_statistic_def ks_walk_values walk_ok_def apart_def ecdf_def)
  have nan: "\<not> f64_nan 0" "\<not> f64_nan (?dist v)" for v using unit(1) [of v] by (auto simp: f64_le_def)
  note bounds = larger_bounds [where f = ?dist and d = 0 and xs = ?vs, folded D] nan
  have far: "f64_le (?dist v) ?D" for v
  proof (cases "\<exists>w \<in> values_of ?as ?bs. w \<le> v")
    case False
    then have "below ?as v = 0" "below ?bs v = 0" by (auto intro!: below_fresh simp: values_of_def not_le)
    then have "?dist v = 0" using ecdf_none [OF assms(3)] ecdf_none [OF assms(4)] by (simp add: f64_zero_apart)
    then show ?thesis using bounds by auto
  next
    case True
    define w where "w = Max {w \<in> values_of ?as ?bs. w \<le> v}"
    have ne: "{w \<in> values_of ?as ?bs. w \<le> v} \<noteq> {}" "finite {w \<in> values_of ?as ?bs. w \<le> v}" using True by auto
    from Max_in [OF ne(2,1)] have w: "w \<in> values_of ?as ?bs" "w \<le> v" by (simp_all add: w_def)
    have most: "x \<le> v \<longleftrightarrow> x \<le> w" if "x \<in> values_of ?as ?bs" for x
      using that w(2) Max_ge [OF ne(2)] by (auto simp: w_def)
    have "below ?as v = below ?as w" "below ?bs v = below ?bs w"
      unfolding below_def using most by (auto intro!: arg_cong [where f = "\<lambda>xs. sum_list (map snd xs)"] filter_cong simp: values_of_def)
    then have "?dist v = ?dist w" by (simp add: ecdf_def)
    then show ?thesis using bounds w(1) by auto
  qed
  have "f64_le 0 F64_ONE" by (simp add: le_val_iff f64_zero f64_one)
  then have small: "f64_le ?D F64_ONE" using bounds unit(2) by metis
  show ?thesis using far small bounds by blast
qed

definition demo_walk :: "u64 list hist_walk" where
  "demo_walk = \<lparr>hw_len = (\<lambda>h. of_nat (length h)), hw_recorded = map (\<lambda>v. (v, 1))\<rparr>"

theorem ks_largest_distance_witness:
  "f64_le (f64_abs (f64_sub (ecdf demo_walk [1, 2] 1) (ecdf demo_walk [2, 3] 1))) (ks_d_statistic demo_walk [1, 2] [2, 3])
    \<and> f64_le (ks_d_statistic demo_walk [1, 2] [2, 3]) F64_ONE"
  using ks_largest_distance [of demo_walk "[1, 2]" "[2, 3]"] by (simp add: walk_ok_def total_count_def demo_walk_def)

section \<open>Holm and Bonferroni\<close>

text \<open>Probabilities.\<close>

definition probs :: "f64 list \<Rightarrow> bool" where
  "probs ps = (length ps \<le> 2 ^ 64 \<and> list_all (\<lambda>p. f64_le 0 p \<and> f64_le p F64_ONE) ps)"

lemma probs_nth: "probs ps \<Longrightarrow> i < length ps \<Longrightarrow> f64_le 0 (ps ! i) \<and> f64_le (ps ! i) F64_ONE \<and> f64_fin (ps ! i)"
  using fin_between [of 0 "ps ! i" F64_ONE] by (simp add: probs_def list_all_length f64_zero f64_one)

lemma holm_order_sorted:
  assumes "probs ps"
  shows "holm_order any ps = sort_key (\<lambda>i. f64_key (ps ! i)) [0..<length ps]"
  using probs_nth [OF assms] by (auto simp: holm_order_def sort_partial_def list_all_iff)

lemma holm_order_perm:
  assumes "probs ps"
  shows "mset (holm_order any ps) = mset [0..<length ps]" "length (holm_order any ps) = length ps"
    "q < length ps \<Longrightarrow> holm_order any ps ! q < length ps" "distinct (holm_order any ps)"
proof -
  note o = holm_order_sorted [OF assms]
  show m: "mset (holm_order any ps) = mset [0..<length ps]" and l: "length (holm_order any ps) = length ps"
    and "distinct (holm_order any ps)" by (simp_all add: o)
  show "holm_order any ps ! q < length ps" if "q < length ps"
    using that nth_mem [of q "holm_order any ps"] mset_eq_setD [OF m] l by auto
qed

lemma product_ge:
  assumes "f64_le 0 p" "f64_fin p" "1 \<le> k" "k \<le> 2 ^ 64"
  shows "f64_le p (f64_mul p (f64_of_nat k))"
proof -
  have v: "0 \<le> f64_val p" "1 \<le> f64_val (f64_of_nat k)"
    using assms of_nat_val(2) [of k] by (simp_all add: le_val_iff f64_zero)
  then have "f64_val p * 1 \<le> f64_val p * f64_val (f64_of_nat k)" by (intro mult_left_mono)
  moreover obtain neg where "f64_mul p (f64_of_nat k) = f64_of_rat neg (f64_val p * f64_val (f64_of_nat k))"
    using assms(2) of_nat_fin [OF assms(4)] by (auto simp: f64_mul_def Let_def)
  ultimately show ?thesis using le_of_rat [OF assms(2)] by simp
qed

lemma candidate_bounds:
  assumes "probs ps" "rank < length ps" "i < length ps"
  shows "f64_le (ps ! i) (holm_candidate ps rank i)" "f64_le (holm_candidate ps rank i) F64_ONE"
    "\<not> f64_nan (holm_candidate ps rank i)"
    "f64_le alpha F64_ONE \<Longrightarrow> f64_lt (holm_candidate ps rank i) alpha
       \<longleftrightarrow> f64_lt (f64_mul (ps ! i) (f64_of_nat (length ps - rank))) alpha"
proof -
  let ?x = "f64_mul (ps ! i) (f64_of_nat (length ps - rank))"
  note p = probs_nth [OF assms(1,3)]
  have "length ps - rank \<le> 2 ^ 64" using assms(1) by (auto simp: probs_def)
  then have x: "f64_le (ps ! i) ?x" using p assms(2) by (intro product_ge) simp_all
  then show "f64_le (ps ! i) (holm_candidate ps rank i)" "f64_le (holm_candidate ps rank i) F64_ONE"
      "\<not> f64_nan (holm_candidate ps rank i)"
      "f64_le alpha F64_ONE \<Longrightarrow> f64_lt (holm_candidate ps rank i) alpha \<longleftrightarrow> f64_lt ?x alpha"
    using p by (auto simp: holm_candidate_def f64_min_def f64_le_def f64_lt_def)
qed

text \<open>The running maximum after the first \<open>k\<close> probabilities in their order.\<close>

definition holm_max :: "(nat list \<Rightarrow> nat list) \<Rightarrow> f64 list \<Rightarrow> nat \<Rightarrow> f64" where
  "holm_max any ps k = foldl (\<lambda>m q. larger m (holm_candidate ps q (holm_order any ps ! q))) 0 [0..<k]"

lemma f64_max_larger: "\<not> f64_nan x \<Longrightarrow> f64_max x y = larger x y"
  by (simp add: f64_max_def larger_def)

lemma holm_max_bounds:
  assumes "probs ps" "k \<le> length ps"
  shows "f64_le 0 (holm_max any ps k)" "f64_le (holm_max any ps k) F64_ONE"
    "q < k \<Longrightarrow> f64_le (holm_candidate ps q (holm_order any ps ! q)) (holm_max any ps k)"
    "holm_max any ps k = 0 \<or> (\<exists>q < k. holm_max any ps k = holm_candidate ps q (holm_order any ps ! q))"
proof -
  let ?c = "\<lambda>q. holm_candidate ps q (holm_order any ps ! q)"
  have c: "\<not> f64_nan (?c q)" "f64_le (?c q) F64_ONE" if "q < k" for q
    using candidate_bounds [OF assms(1), of q] holm_order_perm(3) [OF assms(1)] that assms(2) by simp_all
  have "\<not> f64_nan 0" by (simp add: f64_zero)
  note b = larger_bounds [OF this, of "[0..<k]" ?c, folded holm_max_def] c
  show "f64_le 0 (holm_max any ps k)" "q < k \<Longrightarrow> f64_le (?c q) (holm_max any ps k)"
      "holm_max any ps k = 0 \<or> (\<exists>q < k. holm_max any ps k = ?c q)" using b by auto
  moreover have "f64_le 0 F64_ONE" by (simp add: le_val_iff f64_zero f64_one)
  ultimately show "f64_le (holm_max any ps k) F64_ONE" using c by metis
qed

lemma holm_loop:
  assumes "probs ps" "k \<le> length ps"
  shows "\<exists>adj. foldl (holm_step ps) (0, replicate (length ps) 0) (enumerate 0 (take k (holm_order any ps))) = (holm_max any ps k, adj)
    \<and> length adj = length ps \<and> (\<forall>q < k. adj ! (holm_order any ps ! q) = holm_max any ps (Suc q))"
  using assms(2)
proof (induction k)
  case (Suc k)
  let ?o = "holm_order any ps"
  from Suc obtain adj where IH: "foldl (holm_step ps) (0, replicate (length ps) 0) (enumerate 0 (take k ?o)) = (holm_max any ps k, adj)"
      "length adj = length ps" "\<forall>q < k. adj ! (?o ! q) = holm_max any ps (Suc q)" by auto
  have k: "k < length ?o" using Suc(2) holm_order_perm(2) [OF assms(1)] by simp
  have "\<not> f64_nan (holm_max any ps k)" using holm_max_bounds(1) [OF assms(1), of k] Suc(2) by (auto simp: f64_le_def)
  then have m: "f64_max (holm_max any ps k) (holm_candidate ps k (?o ! k)) = holm_max any ps (Suc k)"
    by (simp add: f64_max_larger) (simp add: holm_max_def)
  have "enumerate 0 (take (Suc k) ?o) = enumerate 0 (take k ?o) @ [(k, ?o ! k)]"
    using k by (simp add: take_Suc_conv_app_nth enumerate_append_eq)
  then have "foldl (holm_step ps) (0, replicate (length ps) 0) (enumerate 0 (take (Suc k) ?o))
      = (holm_max any ps (Suc k), adj[?o ! k := holm_max any ps (Suc k)])"
    using IH(1) m by (simp add: Let_def)
  moreover have "adj[?o ! k := holm_max any ps (Suc k)] ! (?o ! q) = holm_max any ps (Suc q)" if "q < Suc k" for q
  proof (cases "q = k")
    case True
    then show ?thesis using holm_order_perm(3) [OF assms(1), of k] IH(2) Suc(2) by simp
  next
    case False
    then have "?o ! k \<noteq> ?o ! q" using holm_order_perm(4) [OF assms(1)] k that nth_eq_iff_index_eq by fastforce
    then show ?thesis using IH(3) False that by simp
  qed
  ultimately show ?case using IH(2) by auto
qed (simp add: holm_max_def)

lemma holm_result:
  assumes "probs ps"
  shows "length (holm_bonferroni any ps) = length ps"
    "q < length ps \<Longrightarrow> holm_bonferroni any ps ! (holm_order any ps ! q) = holm_max any ps (Suc q)"
  using holm_loop [OF assms order_refl, of any] holm_order_perm(2) [OF assms, of any] by (auto simp: holm_bonferroni_def)

text \<open>
  Property C31. The corrected probabilities are those of the step-down procedure of Holm: the probabilities
  are taken in ascending order, and the corrected one of the number \<open>q\<close> is below a level exactly when each
  one up to it, times the number of those that are left, is below it. They keep the order of the input, are
  at least the given ones, and at most one.
\<close>

theorem holm_step_down:
  assumes "probs ps" "f64_lt 0 alpha" "f64_le alpha F64_ONE"
  shows "length (holm_bonferroni any ps) = length ps
    \<and> mset (holm_order any ps) = mset [0..<length ps] \<and> sorted (map (\<lambda>i. f64_key (ps ! i)) (holm_order any ps))
    \<and> (\<forall>i < length ps. f64_le (ps ! i) (holm_bonferroni any ps ! i) \<and> f64_le (holm_bonferroni any ps ! i) F64_ONE)
    \<and> (\<forall>q < length ps. f64_lt (holm_bonferroni any ps ! (holm_order any ps ! q)) alpha
        \<longleftrightarrow> (\<forall>r \<le> q. f64_lt (f64_mul (ps ! (holm_order any ps ! r)) (f64_of_nat (length ps - r))) alpha))"
proof -
  let ?o = "holm_order any ps" and ?adj = "holm_bonferroni any ps"
  have each: "f64_le (ps ! i) (?adj ! i) \<and> f64_le (?adj ! i) F64_ONE" if i: "i < length ps" for i
  proof -
    have "i \<in> set ?o" using i mset_eq_setD [OF holm_order_perm(1) [OF assms(1)]] by auto
    then obtain q where q: "q < length ps" "?o ! q = i" using holm_order_perm(2) [OF assms(1)] by (auto simp: in_set_conv_nth)
    have "f64_le (ps ! i) (holm_candidate ps q i)" using candidate_bounds(1) [OF assms(1) q(1) i] .
    moreover have "f64_le (holm_candidate ps q i) (holm_max any ps (Suc q))"
      using holm_max_bounds(3) [OF assms(1), where k = "Suc q" and q = q and any = any] q by simp
    moreover have "f64_le (holm_max any ps (Suc q)) F64_ONE" using holm_max_bounds(2) [OF assms(1), of "Suc q"] q(1) by simp
    ultimately show ?thesis using holm_result(2) [OF assms(1) q(1), of any] q(2) f64_le_trans by metis
  qed
  have steps: "f64_lt (?adj ! (?o ! q)) alpha
      \<longleftrightarrow> (\<forall>r \<le> q. f64_lt (f64_mul (ps ! (?o ! r)) (f64_of_nat (length ps - r))) alpha)" if q: "q < length ps" for q
  proof -
    let ?c = "\<lambda>r. holm_candidate ps r (?o ! r)"
    have "f64_lt (holm_max any ps (Suc q)) alpha \<longleftrightarrow> (\<forall>r < Suc q. f64_lt (?c r) alpha)"
      using holm_max_bounds [OF assms(1), where k = "Suc q" and any = any] q assms(2) by (fastforce simp: f64_lt_def f64_le_def)
    moreover have "f64_lt (?c r) alpha \<longleftrightarrow> f64_lt (f64_mul (ps ! (?o ! r)) (f64_of_nat (length ps - r))) alpha" if "r \<le> q" for r
      using candidate_bounds(4) [OF assms(1) _ _ assms(3)] holm_order_perm(3) [OF assms(1)] that q by simp
    ultimately show ?thesis using holm_result(2) [OF assms(1) q, of any] by (simp add: less_Suc_eq_le)
  qed
  have "sorted (map (\<lambda>i. f64_key (ps ! i)) ?o)" by (simp add: holm_order_sorted [OF assms(1)])
  then show ?thesis using each steps holm_result(1) [OF assms(1)] holm_order_perm(1) [OF assms(1)] by blast
qed

definition demo_probs :: "f64 list" where "demo_probs = [0x3FA47AE147AE147B, 0x3F847AE147AE147B]"

theorem holm_step_down_witness:
  "length (holm_bonferroni id demo_probs) = 2 \<and> mset (holm_order id demo_probs) = {#0, 1#}
    \<and> f64_le 0x3F847AE147AE147B (holm_bonferroni id demo_probs ! 1)"
proof -
  have "probs demo_probs" "f64_lt 0 P_05" "f64_le P_05 F64_ONE"
    by (simp_all add: probs_def demo_probs_def P_05_def f64_le_def f64_lt_def f64_nan_def f64_key_def f64_mag_def f64_sign_def)
  from holm_step_down [OF this, of id] show ?thesis by (auto simp: demo_probs_def upt_conv_Cons)
qed

section \<open>The bootstrap interval\<close>

lemma f64_eq_parts: "f64_mag x = f64_mag y \<Longrightarrow> f64_sign x = f64_sign y \<Longrightarrow> x = y"
proof -
  assume e: "f64_mag x = f64_mag y" "f64_sign x = f64_sign y"
  have "unat z div 2 ^ 63 = (if f64_sign z then 1 else 0)" for z :: f64
    using u64_less [of z] by (auto simp: f64_sign_def div_nat_eqI)
  then have "unat x div 2 ^ 63 = unat y div 2 ^ 63" using e(2) by simp
  then have "unat x = unat y" using e(1) by (metis div_mod_decomp f64_mag_def)
  then show "x = y" by (simp add: word_unat_eq_iff)
qed

lemma of_rat_exact:
  assumes "f64_fin y" "f64_mag y \<noteq> 0" "q = f64_val y"
  shows "f64_of_rat neg q = y"
proof (rule f64_eq_parts)
  have m: "mag_of_rat (val_of_mag (f64_mag y)) = f64_mag y" using assms(1) by (intro mag_of_val) (simp add: f64_fin_def)
  then have "val_of_mag (f64_mag y) \<noteq> 0" using assms(2) by (auto simp: mag_of_rat_def)
  then have pos: "0 < val_of_mag (f64_mag y)" using val_of_mag_nonneg [of "f64_mag y"] by linarith
  then show "f64_mag (f64_of_rat neg q) = f64_mag y" "f64_sign (f64_of_rat neg q) = f64_sign y"
    using m by (auto simp: of_rat_parts assms(3) f64_val_def)
qed

lemmas f64_eval = f64_fin_def f64_nan_def f64_mag_def f64_sign_def f64_val_def val_of_mag_def

lemma default_half:
  "f64_sub F64_ONE (cop_confidence_level compare_options_default) = 0x3FA99999999999A0"
  "f64_div 0x3FA99999999999A0 F64_TWO = 0x3F999999999999A0"
  "f64_sub F64_ONE 0x3F999999999999A0 = 0x3FEF333333333333"
  "f64_of_nat 10000 = 0x40C3880000000000"
proof -
  have m: "f64_minus 0x3FEE666666666666 = 0xBFEE666666666666" "f64_minus 0x3F999999999999A0 = 0xBF999999999999A0"
    by (simp_all add: f64_minus_def f64_make_def f64_mag_def f64_sign_def)
  show "f64_sub F64_ONE (cop_confidence_level compare_options_default) = 0x3FA99999999999A0"
    unfolding compare_options_default_def compare_options.simps f64_sub_def m
    by (simp add: f64_add_def f64_eval, rule of_rat_exact) (simp_all add: f64_eval)
  show "f64_div 0x3FA99999999999A0 F64_TWO = 0x3F999999999999A0"
    unfolding F64_TWO_def
    by (simp add: f64_div_def Let_def f64_eval, rule of_rat_exact) (simp_all add: f64_eval)
  show "f64_sub F64_ONE 0x3F999999999999A0 = 0x3FEF333333333333"
    unfolding f64_sub_def m
    by (simp add: f64_add_def f64_eval, rule of_rat_exact) (simp_all add: f64_eval)
  show "f64_of_nat 10000 = 0x40C3880000000000"
    unfolding f64_of_nat_def by (rule of_rat_exact) (simp_all add: f64_eval)
qed

text \<open>The round of a product between two bounds.\<close>

lemma rounded_product:
  assumes "f64_fin x" "f64_fin y" "f64_fin lo" "f64_fin hi" "f64_val lo \<le> f64_val x * f64_val y" "f64_val x * f64_val y \<le> f64_val hi"
    "of_nat n - 1 / 2 \<le> f64_val lo" "f64_val hi < of_nat n + 1 / 2" "f64_fin z" "f64_val z = of_nat n" "f64_mag z \<noteq> 0"
    "0 < f64_val lo" "\<not> f64_sign z"
  shows "f64_round (f64_mul x y) = z"
proof -
  obtain neg where p: "f64_mul x y = f64_of_rat neg (f64_val x * f64_val y)" using assms(1,2) by (auto simp: f64_mul_def Let_def)
  have le: "f64_le lo (f64_mul x y)" "f64_le (f64_mul x y) hi" unfolding p by (rule le_of_rat of_rat_le; fact)+
  then have fin: "f64_fin (f64_mul x y)" using fin_between assms(3,4) by blast
  have "f64_val lo \<le> f64_val (f64_mul x y)" "f64_val (f64_mul x y) \<le> f64_val hi" using le fin assms(3,4) by (simp_all add: le_val_iff)
  then have "\<lfloor>f64_val (f64_mul x y) + 1 / 2\<rfloor> = int n" using assms(7,8) by (intro floor_unique) simp_all
  moreover have "0 < f64_val x * f64_val y" using assms(5,12) by linarith
  then have "\<not> f64_sign (f64_mul x y)" unfolding p of_rat_parts by linarith
  ultimately show ?thesis using fin assms(9-11) of_rat_exact [of z "of_nat n"] by (simp add: f64_round_def)
qed

lemma default_indices:
  "ci_index 0x3F999999999999A0 10000 = 250" "ci_index 0x3FEF333333333333 10000 = 9750"
proof -
  have "f64_round (f64_mul 0x3F999999999999A0 0x40C3880000000000) = 0x406F400000000000"
    by (rule rounded_product [where lo = "0x406F400000000000" and hi = "0x406F480000000000" and n = 250])
      (simp_all add: f64_eval)
  moreover have "f64_round (f64_mul 0x3FEF333333333333 0x40C3880000000000) = 0x40C30B0000000000"
    by (rule rounded_product [where lo = "0x40C30AE000000000" and hi = "0x40C30B2000000000" and n = 9750])
      (simp_all add: f64_eval)
  moreover have "u64_of_f64 0x406F400000000000 = 250" "u64_of_f64 0x40C30B0000000000 = 9750"
    by (simp_all add: u64_of_f64_def f64_eval)
  ultimately show "ci_index 0x3F999999999999A0 10000 = 250" "ci_index 0x3FEF333333333333 10000 = 9750"
    by (simp_all add: ci_index_def default_half(4))
qed

lemma length_resample_deltas [simp]: "length (resample_deltas k as bs rng) = k"
  by (induction k as bs rng rule: resample_deltas.induct) (simp_all add: Let_def split: prod.split)

text \<open>
  Property C29. With three runs or more on each side a metric is compared by ten thousand resampled
  differences of means, and unless one of them is not a number the interval reported goes from the 251st
  to the 9751st of them in ascending order, so it is not empty and leaves out 2.5 percent on each side; the
  difference is called significant exactly when zero is outside of it.
\<close>

theorem bootstrap_interval:
  assumes "3 \<le> length (ex_per_run a)" "3 \<le> length (ex_per_run b)"
    and "deltas = resample_deltas 10000 (map (extract_metric m) (ex_per_run a)) (map (extract_metric m) (ex_per_run b))
           (bootstrap_rng compare_options_default m)"
    and "list_all (\<lambda>x. \<not> f64_nan x) deltas"
  shows "\<exists>r ds. compare_metric any a b m compare_options_default = Some r \<and> cmr_strategy r = RunBootstrap
    \<and> mset ds = mset deltas \<and> length ds = 10000 \<and> sorted (map f64_key ds)
    \<and> cmr_ci r = Some (ds ! 250, ds ! 9750) \<and> f64_le (ds ! 250) (ds ! 9750)
    \<and> (cmr_significance r = Significant \<longleftrightarrow> f64_lt 0 (ds ! 250) \<or> f64_lt (ds ! 9750) 0)"
proof -
  define ds where "ds = sort_key f64_key deltas"
  have len: "length ds = 10000" by (simp add: ds_def assms(3))
  have ds: "sort_partial any id deltas = ds" using assms(4) by (simp add: sort_partial_def ds_def)
  have perm: "mset ds = mset deltas" "sorted (map f64_key ds)" by (simp_all add: ds_def)
  have b: "ci_bounds compare_options_default ds = (ds ! 250, ds ! 9750)"
    unfolding ci_bounds_def Let_def default_half len default_indices ..
  have "ds \<noteq> []" using len by auto
  have nan: "\<not> f64_nan (ds ! i)" if "i < 10000" for i
    using assms(4) mset_eq_setD [OF perm(1)] that len nth_mem [of i ds] by (auto simp: list_all_iff)
  have "f64_key (ds ! 250) \<le> f64_key (ds ! 9750)" using sorted_nth_mono [OF perm(2), of 250 9750] len by simp
  then have le: "f64_le (ds ! 250) (ds ! 9750)" using nan by (simp add: f64_le_def)
  have "unat (cop_bootstrap_resamples compare_options_default) = 10000" by (simp add: compare_options_default_def)
  then obtain r where r: "compare_metric any a b m compare_options_default = Some r" "cmr_strategy r = RunBootstrap"
      "cmr_ci r = Some (ds ! 250, ds ! 9750)"
      "cmr_significance r = (if f64_lt 0 (ds ! 250) \<or> f64_lt (ds ! 9750) 0 then Significant else NotSignificant)"
    using assms(1,2) \<open>ds \<noteq> []\<close> by (simp add: compare_metric_def compare_bootstrap_def Let_def ds b flip: assms(3))
  then show ?thesis using len perm le by (intro exI [of _ r] exI [of _ ds]) simp
qed

lemma f64_add_zero: "f64_add 0 0 = 0"
  by (simp add: f64_add_def f64_eval f64_of_rat_def mag_of_rat_def f64_make_def)

lemma resample_sum_zero: "0 < n \<Longrightarrow> fst (resample_sum k (replicate n 0) 0 rng) = 0"
  by (induction k arbitrary: rng) (simp_all add: f64_add_zero split: prod.split)

lemma mean_resample_zero: "0 < n \<Longrightarrow> n \<le> 2 ^ 64 \<Longrightarrow> fst (mean_resample (replicate n 0) rng) = 0"
  using resample_sum_zero [of n n rng] by (cases "resample_sum n (replicate n 0) 0 rng") (simp add: mean_resample_def f64_div_zero)

lemma f64_sub_zero: "f64_sub 0 0 = 0"
  by (simp add: f64_sub_def f64_add_def f64_eval f64_of_rat_def mag_of_rat_def f64_make_def f64_minus_def)

lemma resample_deltas_zero:
  assumes "0 < n" "n \<le> 2 ^ 64"
  shows "resample_deltas k (replicate n 0) (replicate n 0) rng = replicate k 0"
proof (induction k arbitrary: rng)
  case (Suc k)
  obtain x rng1 where a: "mean_resample (replicate n 0) rng = (x, rng1)" by fastforce
  obtain y rng2 where b: "mean_resample (replicate n 0) rng1 = (y, rng2)" by fastforce
  have "x = 0" "y = 0" using mean_resample_zero [OF assms, of rng] mean_resample_zero [OF assms, of rng1] by (simp_all add: a b)
  then show ?case by (simp add: a b Suc f64_sub_zero)
qed simp

definition demo_run :: per_run_metrics where
  "demo_run = \<lparr>pm_index = 0, pm_rate_per_s = 0, pm_requests = 100, pm_errors_total = 0, pm_latency = latency_default,
     pm_protocol_latency = latency_default\<rparr>"

definition demo_export :: summary_export where
  "demo_export = \<lparr>ex_schema_version = 1, ex_duration_ns = 1000, ex_requests = 300, ex_rate_per_s = 0, ex_bytes_sent = 0,
     ex_bytes_recv = 0, ex_latency = latency_default, ex_ttfb = latency_default,
     ex_errors = \<lparr>ee_connect = 0, ee_read = 0, ee_write = 0, ee_timeout = 0, ee_keepup = 0, ee_status_4xx = 0,
       ee_status_5xx = 0, ee_assertion_failed = 0\<rparr>,
     ex_scenarios = [], ex_per_run = [demo_run, demo_run, demo_run]\<rparr>"

theorem bootstrap_interval_witness:
  "\<exists>r. compare_metric id demo_export demo_export MRate compare_options_default = Some r \<and> cmr_ci r = Some (0, 0)
    \<and> cmr_strategy r = RunBootstrap"
proof -
  let ?rates = "map (extract_metric MRate) (ex_per_run demo_export)"
  have rates: "?rates = replicate 3 0" by (simp add: demo_export_def demo_run_def extract_metric_def numeral_3_eq_3)
  have z: "resample_deltas 10000 ?rates ?rates rng = replicate 10000 0" for rng
    unfolding rates by (rule resample_deltas_zero) simp_all
  have n: "3 \<le> length (ex_per_run demo_export)" by (simp add: demo_export_def)
  have "\<not> f64_nan 0" by (simp add: f64_eval)
  then have "list_all (\<lambda>x. \<not> f64_nan x) (resample_deltas 10000 ?rates ?rates (bootstrap_rng compare_options_default MRate))"
    unfolding z by (simp add: list_all_iff)
  from bootstrap_interval [OF n n refl this, of id]
  obtain r ds where r: "compare_metric id demo_export demo_export MRate compare_options_default = Some r"
      "cmr_strategy r = RunBootstrap" "mset ds = mset (replicate 10000 0)" "length ds = 10000"
      "cmr_ci r = Some (ds ! 250, ds ! 9750)"
    unfolding z by blast
  have "set ds = {0}" using mset_eq_setD [OF r(3)] by simp
  then have "ds ! i = 0" if "i < 10000" for i using that nth_mem [of i ds] r(4) by simp
  then show ?thesis using r by simp
qed

text \<open>
  A metric that was zero and is not any more has no relative difference, and no threshold flags it.
\<close>

lemma regressed_from_zero:
  assumes "f64_lt (f64_abs (extract_aggregate a m)) F64_EPSILON"
    and "\<not> f64_lt (f64_abs (f64_sub (extract_aggregate b m) (extract_aggregate a m))) F64_EPSILON"
  shows "\<not> regressed_beyond (compare_raw a b m) threshold"
  using assms by (simp add: regressed_beyond_def compare_raw_def pct_delta_def Let_def)

end
